(* ===== verification/Prelude.thy ===== *)
theory Prelude
  imports Main "HOL-Library.Word"
begin

text \<open>
  Shared vocabulary of the development: the Go types the sources use (bytes, fixed-width unsigned
  integers, byte strings), the rule collections the component theories fill, and the generic facts
  about words and big-endian digits that the wire-format proofs need.

  A Go \<^verbatim>\<open>byte\<close> is an 8-bit word, a Go \<^verbatim>\<open>string\<close> or \<^verbatim>\<open>[]byte\<close> is a list of bytes, \<^verbatim>\<open>uint32\<close> and
  \<^verbatim>\<open>uint64\<close> are words of their width.  Lengths and positions of slices are natural numbers.
\<close>

unbundle bit_operations_syntax

type_synonym byte = "8 word"
type_synonym bytes = "byte list"
type_synonym u32 = "32 word"
type_synonym u64 = "64 word"

named_theorems word_nat \<open>rules that move word expressions of the code to arithmetic on naturals\<close>

section \<open>Masks and shifts on one byte\<close>

lemma unat_byte_less: "unat (b :: byte) < 256"
  using unsigned_less [of b] by simp

lemma unat_u32_less: "unat (x :: u32) < 2 ^ 32"
proof -
  have "unat x < 2 ^ LENGTH(32)" by (rule unsigned_less)
  then show ?thesis by simp
qed

lemma unat_u64_less: "unat (x :: u64) < 2 ^ 64"
proof -
  have "unat x < 2 ^ LENGTH(64)" by (rule unsigned_less)
  then show ?thesis by simp
qed

lemma byte_high: "\<not> unat (b :: byte) < 128 \<Longrightarrow> 128 + unat b mod 128 = unat b"
  using unat_byte_less [of b] by (simp add: le_mod_geq)

lemma and_7f [word_nat]: "unat (b AND 0x7F :: byte) = unat b mod 128"
proof -
  have "b AND 0x7F = take_bit 7 b"
    by (simp add: take_bit_eq_mask mask_eq_exp_minus_1)
  then show ?thesis by (simp add: take_bit_eq_mod unat_mod)
qed

lemma and_1f [word_nat]: "unat (b AND 0x1F :: byte) = unat b mod 32"
proof -
  have "b AND 0x1F = take_bit 5 b"
    by (simp add: take_bit_eq_mask mask_eq_exp_minus_1)
  then show ?thesis by (simp add: take_bit_eq_mod unat_mod)
qed

lemma bit_byte_7: "bit (b :: byte) 7 \<longleftrightarrow> 128 \<le> unat b"
proof -
  have "bit b 7 \<longleftrightarrow> bit (unat b) 7"
    by (simp only: bit_unsigned_iff possible_bit_nat simp_thms)
  also have "\<dots> \<longleftrightarrow> odd (unat b div 128)"
    by (simp add: bit_iff_odd)
  finally have "bit b 7 \<longleftrightarrow> odd (unat b div 128)" .
  moreover have "unat b div 128 = (if unat b < 128 then 0 else 1)"
    using unat_byte_less [of b] by auto
  ultimately show ?thesis by simp
qed

lemma and_80_eq_0 [word_nat]: "(b AND 0x80 = (0 :: byte)) \<longleftrightarrow> unat b < 128"
  using and_exp_eq_0_iff_not_bit [of b 7] by (simp add: bit_byte_7 not_le)

lemma unat_less_exp_imp_not_bit: "unat (n :: 'a::len word) < 2 ^ k \<Longrightarrow> k \<le> j \<Longrightarrow> \<not> bit n j"
proof -
  assume n: "unat n < 2 ^ k" and j: "k \<le> j"
  from n have "take_bit k (unat n) = unat n" by (simp add: take_bit_eq_mod)
  then have "bit (unat n) j = (j < k \<and> bit (unat n) j)" by (metis bit_take_bit_iff)
  with j show ?thesis by (simp add: bit_unsigned_iff)
qed

lemma unat_push_or:
  fixes x n :: "'a::len word"
  assumes n: "unat n < 2 ^ k" and fits: "unat x * 2 ^ k + unat n < 2 ^ LENGTH('a)"
  shows "unat (push_bit k x OR n) = unat x * 2 ^ k + unat n"
proof -
  have "push_bit k x AND n = 0"
    using unat_less_exp_imp_not_bit [OF n]
    by (auto simp: bit_eq_iff bit_and_iff bit_push_bit_iff)
  then have or_add: "push_bit k x OR n = push_bit k x + n"
    by (simp add: disjunctive_add_eq_or)
  have "unat (push_bit k x) = unat x * 2 ^ k"
    unfolding unsigned_push_bit_eq
    using fits by (simp add: push_bit_eq_mult take_bit_eq_mod)
  with fits show ?thesis
    by (simp add: or_add unat_word_ariths)
qed

lemma or_80 [word_nat]: "unat b < 128 \<Longrightarrow> unat (b OR 0x80 :: byte) = unat b + 128"
proof -
  assume b: "unat b < 128"
  then have "push_bit 7 1 OR b = push_bit 7 (1 :: byte) OR b \<and> unat (push_bit 7 1 OR b) = 128 + unat b"
    using unat_push_or [of b 7 1] by simp
  then show ?thesis by (simp add: push_bit_eq_mult or.commute)
qed

lemma unat_drop_bit [word_nat]: "unat (drop_bit k (w :: 'a::len word)) = unat w div 2 ^ k"
  by (subst unat_drop_bit_eq) (rule drop_bit_eq_div)

lemma drop_bit_less: "drop_bit k (w :: 'a::len word) \<noteq> 0 \<Longrightarrow> 0 < k \<Longrightarrow> unat (drop_bit k w) < unat w"
proof -
  assume "drop_bit k w \<noteq> 0" and k: "0 < k"
  then have "0 < unat w" by (metis drop_bit_of_0 unat_gt_0)
  moreover have "1 < (2 :: nat) ^ k" using k by (rule one_less_power [rotated]) simp
  ultimately show ?thesis by (simp only: unat_drop_bit div_less_dividend)
qed

lemma and_exp_eq_0_iff_even [word_nat]:
  "((w :: 'a::len word) AND 2 ^ k = 0) \<longleftrightarrow> even (unat w div 2 ^ k)"
proof -
  have "bit w k \<longleftrightarrow> bit (unat w) k"
    by (simp only: bit_unsigned_iff possible_bit_nat simp_thms)
  then show ?thesis
    by (simp only: and_exp_eq_0_iff_not_bit bit_iff_odd [of "unat w"] not_not)
qed

lemma and_20_eq_0 [word_nat]: "(b AND 0x20 = (0 :: byte)) \<longleftrightarrow> even (unat b div 32)"
  using and_exp_eq_0_iff_even [of b 5] by simp

lemma unat_of_nat_byte [word_nat]: "n < 256 \<Longrightarrow> unat (of_nat n :: byte) = n"
  by (simp add: unat_of_nat)

lemma byte_eq_iff: "(a :: byte) = b \<longleftrightarrow> unat a = unat b"
  by (rule word_unat_eq_iff)

lemma of_nat_unat_byte [simp]: "of_nat (unat (b :: byte)) = b"
  by simp

section \<open>Appending one digit to an accumulator\<close>

text \<open>
  The decoders build a number with \<^verbatim>\<open>x = x<<k | uint64(b)\<close>.  While the accumulator is small enough
  the shift loses nothing and the statement is multiplication by \<open>2 ^ k\<close> plus the new digit.
\<close>

lemma unat_ucast_byte [word_nat]: "unat (ucast (b :: byte) :: u64) = unat b"
  using unat_byte_less [of b] by (simp add: unsigned_ucast_eq take_bit_eq_mod)

lemma shift7_or [word_nat]:
  "unat x < 2 ^ 57 \<Longrightarrow> unat b < 128 \<Longrightarrow> unat (push_bit 7 x OR ucast (b :: byte) :: u64) = unat x * 128 + unat b"
  using unat_push_or [of "ucast b" 7 x] by (simp add: word_nat)

lemma shift8_or [word_nat]:
  "unat x < 2 ^ 56 \<Longrightarrow> unat (push_bit 8 x OR ucast (b :: byte) :: u64) = unat x * 256 + unat b"
  using unat_push_or [of "ucast b" 8 x] unat_byte_less [of b] by (simp add: word_nat)

section \<open>Big-endian digits\<close>

text \<open>
  \<open>be_nat\<close> is the unsigned number a byte string denotes, most significant byte first; the wire
  format's lengths and integers are specified with it.
\<close>

definition be_nat :: "bytes \<Rightarrow> nat" where
  "be_nat bs = foldl (\<lambda>acc b. acc * 256 + unat b) 0 bs"

lemma foldl_be: "foldl (\<lambda>acc b. acc * 256 + unat (b :: byte)) a bs = a * 256 ^ length bs + be_nat bs"
proof (induction bs arbitrary: a rule: rev_induct)
  case Nil
  show ?case by (simp add: be_nat_def)
next
  case (snoc b bs)
  have "be_nat (bs @ [b]) = be_nat bs * 256 + unat b"
    by (simp add: be_nat_def)
  with snoc.IH [of a] show ?case by (simp add: algebra_simps)
qed

lemma be_nat_Nil [simp]: "be_nat [] = 0"
  by (simp add: be_nat_def)

lemma be_nat_snoc: "be_nat (bs @ [b]) = be_nat bs * 256 + unat b"
  by (simp add: be_nat_def)

lemma be_nat_Cons: "be_nat (b # bs) = unat b * 256 ^ length bs + be_nat bs"
  using foldl_be [of "unat b" bs] by (simp add: be_nat_def)

lemma be_nat_append: "be_nat (xs @ ys) = be_nat xs * 256 ^ length ys + be_nat ys"
  using foldl_be [of "be_nat xs" ys] by (simp add: be_nat_def)

lemma be_nat_less: "be_nat bs < 256 ^ length bs"
proof (induction bs rule: rev_induct)
  case Nil
  show ?case by simp
next
  case (snoc b bs)
  have "be_nat bs * 256 + unat b < (be_nat bs + 1) * 256"
    using unat_byte_less [of b] by simp
  also have "\<dots> \<le> 256 ^ length bs * 256"
    using snoc.IH by (intro mult_right_mono) auto
  finally show ?case by (simp add: be_nat_snoc)
qed

text \<open>\<open>octets k v\<close> is the \<open>k\<close>-byte big-endian representation of \<open>v\<close> (modulo \<open>256 ^ k\<close>).\<close>

fun octets :: "nat \<Rightarrow> nat \<Rightarrow> bytes" where
  "octets 0 v = []"
| "octets (Suc k) v = octets k (v div 256) @ [of_nat v]"

lemma length_octets [simp]: "length (octets k v) = k"
  by (induction k arbitrary: v) auto

lemma octets_Suc_front: "octets (Suc k) v = of_nat (v div 256 ^ k) # octets k v"
proof (induction k arbitrary: v)
  case 0
  show ?case by simp
next
  case (Suc k)
  have "octets (Suc (Suc k)) v = octets (Suc k) (v div 256) @ [of_nat v]" by simp
  also have "\<dots> = of_nat (v div 256 div 256 ^ k) # octets k (v div 256) @ [of_nat v]"
    by (simp only: Suc.IH append_Cons)
  also have "\<dots> = of_nat (v div 256 ^ Suc k) # octets (Suc k) v"
    by (simp add: div_mult2_eq)
  finally show ?case .
qed

lemma be_nat_octets: "be_nat (octets k v) = v mod 256 ^ k"
proof (induction k arbitrary: v)
  case 0
  show ?case by simp
next
  case (Suc k)
  have "be_nat (octets (Suc k) v) = (v div 256 mod 256 ^ k) * 256 + v mod 256"
    by (simp add: be_nat_snoc Suc.IH unat_of_nat)
  also have "\<dots> = v mod 256 ^ Suc k"
    by (simp add: mod_mult2_eq algebra_simps)
  finally show ?case .
qed

lemma octets_be_nat: "octets (length bs) (be_nat bs) = bs"
proof (induction bs rule: rev_induct)
  case Nil
  show ?case by simp
next
  case (snoc b bs)
  have "(be_nat bs * 256 + unat b) div 256 = be_nat bs"
    using unat_byte_less [of b] by simp
  moreover have "of_nat (be_nat bs * 256 + unat b) = b"
    unfolding byte_eq_iff
    using unat_byte_less [of b] by (simp add: unat_of_nat del: of_nat_add of_nat_mult)
  ultimately show ?case using snoc.IH by (simp add: be_nat_snoc)
qed

end
