(* ===== verification/Ber_Types.thy ===== *)
theory Ber_Types
  imports Prelude
begin

text \<open>
  Package \<^verbatim>\<open>ber\<close>, the data every other part uses: identifiers (\<^verbatim>\<open>src/ber/identifier.go\<close>), error values
  (\<^verbatim>\<open>src/ber/errors.go\<close>) and resource limits (\<^verbatim>\<open>src/ber/limits.go\<close>).

  A Go error is a value of \<open>goerror\<close>: a sentinel, \<^verbatim>\<open>io.EOF\<close>, an error of the network connection (\<open>NetError\<close>), a \<^verbatim>\<open>*LimitError\<close>, a \<^verbatim>\<open>*DecodeError\<close>, a text built by
  \<^verbatim>\<open>errors.New\<close> or \<^verbatim>\<open>fmt.Errorf\<close> (\<open>Errorf\<close>, its format and arguments left unrendered), or a wrapped error
  \<^verbatim>\<open>fmt.Errorf("... %w")\<close> (\<open>Wrapf\<close>).  A call that may fail returns \<open>goerror + 'a\<close>; a call that returns only
  \<^verbatim>\<open>error\<close> returns \<open>goerror option\<close>, \<^verbatim>\<open>nil\<close> being \<open>None\<close>.
\<close>

section \<open>Identifiers\<close>

record ident =
  id_class :: byte
  id_constructed :: bool
  id_number :: u32

definition ClassUniversal :: byte where "ClassUniversal = 0"
definition ClassApplication :: byte where "ClassApplication = 1"
definition ClassContextSpecific :: byte where "ClassContextSpecific = 2"
definition ClassPrivate :: byte where "ClassPrivate = 3"

lemmas class_defs = ClassUniversal_def ClassApplication_def ClassContextSpecific_def ClassPrivate_def

definition BooleanIdentifier :: ident where
  "BooleanIdentifier = \<lparr>id_class = ClassUniversal, id_constructed = False, id_number = 1\<rparr>"
definition IntegerIdentifier :: ident where
  "IntegerIdentifier = \<lparr>id_class = ClassUniversal, id_constructed = False, id_number = 2\<rparr>"
definition OctetStringIdentifier :: ident where
  "OctetStringIdentifier = \<lparr>id_class = ClassUniversal, id_constructed = False, id_number = 4\<rparr>"
definition NullIdentifier :: ident where
  "NullIdentifier = \<lparr>id_class = ClassUniversal, id_constructed = False, id_number = 5\<rparr>"
definition EnumeratedIdentifier :: ident where
  "EnumeratedIdentifier = \<lparr>id_class = ClassUniversal, id_constructed = False, id_number = 10\<rparr>"
definition SequenceIdentifier :: ident where
  "SequenceIdentifier = \<lparr>id_class = ClassUniversal, id_constructed = True, id_number = 16\<rparr>"
definition SetIdentifier :: ident where
  "SetIdentifier = \<lparr>id_class = ClassUniversal, id_constructed = True, id_number = 17\<rparr>"

lemmas universal_ids = BooleanIdentifier_def IntegerIdentifier_def OctetStringIdentifier_def
  NullIdentifier_def EnumeratedIdentifier_def SequenceIdentifier_def SetIdentifier_def

definition Identifier_Valid :: "ident \<Rightarrow> bool" where
  "Identifier_Valid tag = (id_class tag \<le> ClassPrivate)"

text \<open>The zero value \<^verbatim>\<open>Identifier{}\<close>.\<close>

definition zero_identifier :: ident where
  "zero_identifier = \<lparr>id_class = 0, id_constructed = False, id_number = 0\<rparr>"

lemma Identifier_Valid_less: "Identifier_Valid tag \<longleftrightarrow> unat (id_class tag) < 4"
  by (auto simp: Identifier_Valid_def class_defs word_le_nat_alt)

section \<open>Errors\<close>

datatype fmt_arg = AStr bytes | AInt int | AId ident

datatype goerror =
    ErrTruncated
  | ErrInvalidIdentifier
  | ErrInvalidLength
  | ErrIndefiniteLength
  | ErrLengthOverflow
  | ErrTrailingData
  | ErrUnexpectedIdentifier
  | ErrPrimitiveRequired
  | ErrConstructedRequired
  | ErrInvalidBoolean
  | ErrInvalidInteger
  | ErrInvalidNull
  | ErrNoProgress
  | EOF
  | NetError string
  | LimitError string nat nat
  | DecodeError nat goerror
  | Errorf string "fmt_arg list"
  | Wrapf string "fmt_arg list" goerror

text \<open>\<^verbatim>\<open>errors.AsType[*DecodeError]\<close> follows the chain of wrapped errors.\<close>

fun as_DecodeError :: "goerror \<Rightarrow> bool" where
  "as_DecodeError (DecodeError _ _) = True"
| "as_DecodeError (Wrapf _ _ e) = as_DecodeError e"
| "as_DecodeError _ = False"

definition decodeError :: "nat \<Rightarrow> goerror \<Rightarrow> goerror" where
  "decodeError offset err = (if as_DecodeError err then err else DecodeError offset err)"

text \<open>\<^verbatim>\<open>errors.As(err, *LimitError)\<close>: the first limit error of the chain.\<close>

fun as_LimitError :: "goerror \<Rightarrow> (string \<times> nat \<times> nat) option" where
  "as_LimitError (LimitError l v m) = Some (l, v, m)"
| "as_LimitError (DecodeError _ e) = as_LimitError e"
| "as_LimitError (Wrapf _ _ e) = as_LimitError e"
| "as_LimitError _ = None"

text \<open>The error at the end of the chain, which is what \<^verbatim>\<open>errors.Is\<close> against a sentinel finds.\<close>

fun root_cause :: "goerror \<Rightarrow> goerror" where
  "root_cause (DecodeError _ e) = root_cause e"
| "root_cause (Wrapf _ _ e) = root_cause e"
| "root_cause e = e"

lemma as_DecodeError_decodeError [simp]: "as_DecodeError (decodeError n e)"
  by (simp add: decodeError_def)

lemma decodeError_idem [simp]: "decodeError m (decodeError n e) = decodeError n e"
  by (simp add: decodeError_def)

lemma root_cause_decodeError [simp]: "root_cause (decodeError n e) = root_cause e"
  by (simp add: decodeError_def)

section \<open>Limits\<close>

text \<open>The \<^verbatim>\<open>int\<close> fields may hold any value a caller writes, also negative ones.\<close>

record limits =
  MaxFrameBytes :: int
  MaxDepth :: int
  MaxElements :: int
  MaxIntegerBytes :: int
  MaxTagNumber :: u32

definition DefaultLimits :: limits where
  "DefaultLimits = \<lparr>MaxFrameBytes = 16 * 2 ^ 20, MaxDepth = 32, MaxElements = 100000,
     MaxIntegerBytes = 8, MaxTagNumber = - 1\<rparr>"

definition Limits_Validate :: "limits \<Rightarrow> goerror option" where
  "Limits_Validate l =
     (if MaxFrameBytes l \<le> 0 then Some (Errorf ''ber: MaxFrameBytes must be positive'' [])
      else if MaxDepth l \<le> 0 then Some (Errorf ''ber: MaxDepth must be positive'' [])
      else if MaxElements l \<le> 0 then Some (Errorf ''ber: MaxElements must be positive'' [])
      else if MaxIntegerBytes l \<le> 0 then Some (Errorf ''ber: MaxIntegerBytes must be positive'' [])
      else if MaxTagNumber l = 0 then Some (Errorf ''ber: MaxTagNumber must be positive'' [])
      else None)"

definition limits_ok :: "limits \<Rightarrow> bool" where
  "limits_ok l \<longleftrightarrow> 0 < MaxFrameBytes l \<and> 0 < MaxDepth l \<and> 0 < MaxElements l
     \<and> 0 < MaxIntegerBytes l \<and> MaxTagNumber l \<noteq> 0"

lemma Limits_Validate_None: "Limits_Validate l = None \<longleftrightarrow> limits_ok l"
  by (auto simp: Limits_Validate_def limits_ok_def)

lemma Limits_Validate_DefaultLimits [simp]: "Limits_Validate DefaultLimits = None"
  by (simp add: Limits_Validate_def DefaultLimits_def)

end
