(* ===== verification/Ber_Header.thy ===== *)
theory Ber_Header
  imports Ber_Types
begin

text \<open>
  The identifier and length octets of a BER element: \<^verbatim>\<open>appendIdentifier\<close> (\<^verbatim>\<open>src/ber/identifier.go\<close>),
  \<^verbatim>\<open>appendLength\<close> (\<^verbatim>\<open>src/ber/length.go\<close>), \<^verbatim>\<open>identifierLength\<close> and \<^verbatim>\<open>lengthLength\<close> (\<^verbatim>\<open>src/ber/packet.go\<close>),
  \<^verbatim>\<open>decodeIdentifier\<close> and \<^verbatim>\<open>decodeLength\<close> (\<^verbatim>\<open>src/ber/reader.go\<close>).

  Both decoders accept exactly the octets the encoders write: the round trip holds for every valid
  identifier and every length that fits a Go \<^verbatim>\<open>int\<close>, and a successful decode determines the octets
  it consumed (\<open>decodeIdentifier_canonical\<close>, \<open>decodeLength_canonical\<close>).
\<close>

section \<open>Identifier octets\<close>

text \<open>
  The \<^verbatim>\<open>for\<close> loop that fills the scratch array \<^verbatim>\<open>encoded\<close> from its end: \<open>acc\<close> is \<^verbatim>\<open>encoded[n:]\<close>.
\<close>

function tagDigits :: "u32 \<Rightarrow> bytes \<Rightarrow> bytes" where
  "tagDigits v acc =
     (let acc' = ucast (v AND 0x7F) # acc; v' = drop_bit 7 v
      in if v' = 0 then acc' else tagDigits v' acc')"
  by pat_completeness auto
termination
  by (relation "measure (\<lambda>(v, acc). unat v)") (auto simp: drop_bit_less)

text \<open>The second loop sets the continuation bit of every digit but the last.\<close>

fun setContinuation :: "bytes \<Rightarrow> bytes" where
  "setContinuation [] = []"
| "setContinuation [b] = [b]"
| "setContinuation (b # bs) = (b OR 0x80) # setContinuation bs"

definition appendIdentifier :: "bytes \<Rightarrow> ident \<Rightarrow> bytes" where
  "appendIdentifier dst tag =
     (let first = push_bit 6 (id_class tag);
          first = (if id_constructed tag then first OR 0x20 else first)
      in if id_number tag < 31 then dst @ [first OR ucast (id_number tag)]
         else dst @ (first OR 0x1F) # setContinuation (tagDigits (id_number tag) []))"

function identifierLengthLoop :: "u32 \<Rightarrow> nat \<Rightarrow> nat" where
  "identifierLengthLoop number len =
     (if number < 0x80 then Suc len else identifierLengthLoop (drop_bit 7 number) (Suc len))"
  by pat_completeness auto
termination
  by (relation "measure (\<lambda>(number, len). unat number)")
    (auto simp: word_nat word_less_nat_alt)

definition identifierLength :: "ident \<Rightarrow> nat" where
  "identifierLength tag = (if id_number tag < 31 then 1 else identifierLengthLoop (id_number tag) 1)"

text \<open>The decoding loop over \<^verbatim>\<open>data[i:]\<close>; \<open>number\<close> is its \<^verbatim>\<open>uint64\<close> accumulator.\<close>

fun decodeTagNumber :: "u32 \<Rightarrow> bytes \<Rightarrow> nat \<Rightarrow> u64 \<Rightarrow> goerror + (u32 \<times> nat)" where
  "decodeTagNumber maxTag [] i number = Inl ErrTruncated"
| "decodeTagNumber maxTag (b # bs) i number =
     (if i = 1 \<and> b AND 0x7F = 0 then Inl ErrInvalidIdentifier
      else if drop_bit 7 0xFFFFFFFF < number then Inl ErrInvalidIdentifier
      else let number' = push_bit 7 number OR ucast (b AND 0x7F)
           in if ucast maxTag < number'
              then Inl (LimitError ''tag number'' (unat number') (unat maxTag))
              else if b AND 0x80 = 0
              then (if number' < 31 then Inl ErrInvalidIdentifier else Inr (ucast number', i + 1))
              else decodeTagNumber maxTag bs (i + 1) number')"

fun decodeIdentifier :: "bytes \<Rightarrow> u32 \<Rightarrow> goerror + (ident \<times> nat)" where
  "decodeIdentifier [] maxTag = Inl ErrTruncated"
| "decodeIdentifier (first # rest) maxTag =
     (let tag = \<lparr>id_class = drop_bit 6 first, id_constructed = (first AND 0x20 \<noteq> 0),
                 id_number = ucast (first AND 0x1F)\<rparr>
      in if id_number tag \<noteq> 0x1F then Inr (tag, 1)
         else case decodeTagNumber maxTag rest 1 0 of
           Inl e \<Rightarrow> Inl e
         | Inr (number, n) \<Rightarrow> Inr (tag\<lparr>id_number := number\<rparr>, n))"

section \<open>Length octets\<close>

text \<open>\<^verbatim>\<open>bits.Len\<close> of the standard library: the minimal number of bits that represent its argument.\<close>

fun bits_Len :: "nat \<Rightarrow> nat" where
  "bits_Len x = (if x = 0 then 0 else Suc (bits_Len (x div 2)))"

declare bits_Len.simps [simp del]

text \<open>The loop over \<^verbatim>\<open>shift = (n-1)*8, ..., 8, 0\<close>.\<close>

fun appendLengthOctets :: "bytes \<Rightarrow> u64 \<Rightarrow> nat \<Rightarrow> bytes" where
  "appendLengthOctets dst len 0 = dst"
| "appendLengthOctets dst len (Suc k) =
     appendLengthOctets (dst @ [ucast (drop_bit (k * 8) len)]) len k"

definition appendLength :: "bytes \<Rightarrow> nat \<Rightarrow> bytes" where
  "appendLength dst len =
     (if len < 128 then dst @ [of_nat len]
      else let n = (bits_Len len + 7) div 8
           in appendLengthOctets (dst @ [0x80 OR of_nat n]) (of_nat len) n)"

function lengthLengthLoop :: "nat \<Rightarrow> nat \<Rightarrow> nat" where
  "lengthLengthLoop len n =
     (if 0 < len then lengthLengthLoop (drop_bit 8 len) (Suc n) else n)"
  by pat_completeness auto
termination
  by (relation "measure (\<lambda>(len, n). len)") (auto simp: drop_bit_eq_div)

definition lengthLength :: "nat \<Rightarrow> nat" where
  "lengthLength len = (if len < 128 then 1 else 1 + lengthLengthLoop len 0)"

text \<open>\<^verbatim>\<open>math.MaxInt\<close> on a 64-bit platform.\<close>

abbreviation MaxInt :: nat where "MaxInt \<equiv> 2 ^ 63 - 1"

fun decodeLengthOctets :: "bytes \<Rightarrow> u64 \<Rightarrow> goerror + u64" where
  "decodeLengthOctets [] v = Inr v"
| "decodeLengthOctets (b # bs) v =
     (if drop_bit 8 (of_nat MaxInt) < v then Inl ErrLengthOverflow
      else decodeLengthOctets bs (push_bit 8 v OR ucast b))"

fun decodeLength :: "bytes \<Rightarrow> goerror + (nat \<times> nat)" where
  "decodeLength [] = Inl ErrTruncated"
| "decodeLength (first # rest) =
     (if first AND 0x80 = 0 then Inr (unat first, 1)
      else let n = unat (first AND 0x7F)
           in if n = 0 then Inl ErrIndefiniteLength
              else if length rest < n then Inl ErrTruncated
              else if 8 < n \<or> (1 < n \<and> rest ! 0 = 0) then Inl ErrInvalidLength
              else case decodeLengthOctets (take n rest) 0 of
                  Inl e \<Rightarrow> Inl e
                | Inr v \<Rightarrow>
                    if v < 128 then Inl ErrInvalidLength
                    else if of_nat MaxInt < v then Inl ErrLengthOverflow
                    else Inr (unat v, n + 1))"

declare tagDigits.simps [simp del] identifierLengthLoop.simps [simp del]
  lengthLengthLoop.simps [simp del]

section \<open>Identifier octets: specification and round trip\<close>

text \<open>
  \<open>cont v\<close> is the base-128 representation of \<open>v\<close> with the continuation bit set in every octet,
  \<open>tag_octets v\<close> the one whose last octet has it clear.
\<close>

fun cont :: "nat \<Rightarrow> bytes" where
  "cont v = (if v < 128 then [of_nat (128 + v)] else cont (v div 128) @ [of_nat (128 + v mod 128)])"

declare cont.simps [simp del]

definition tag_octets :: "nat \<Rightarrow> bytes" where
  "tag_octets v = (if v < 128 then [of_nat v] else cont (v div 128) @ [of_nat (v mod 128)])"

lemma cont_not_Nil [simp]: "cont v \<noteq> []"
  by (subst cont.simps) simp

lemma u32_digit: "unat (ucast (v AND 0x7F :: u32) :: byte) = unat v mod 128"
proof -
  have "v AND 0x7F = take_bit 7 v"
    by (simp add: take_bit_eq_mask mask_eq_exp_minus_1)
  then have "unat (v AND 0x7F) = unat v mod 128"
    by (simp add: take_bit_eq_mod unat_mod)
  moreover have "unat v mod 128 mod 256 = unat v mod 128" by simp
  ultimately show ?thesis by (simp add: unsigned_ucast_eq take_bit_eq_mod)
qed

lemma digit_eq: "ucast (v AND 0x7F :: u32) = (of_nat (unat v mod 128) :: byte)"
  by (simp add: byte_eq_iff u32_digit unat_of_nat_byte)

lemma digit_cont_eq: "ucast (v AND 0x7F :: u32) OR 0x80 = (of_nat (128 + unat v mod 128) :: byte)"
  unfolding byte_eq_iff by (simp add: u32_digit unat_of_nat_byte or_80 del: of_nat_add)

lemma drop7_eq_0: "drop_bit 7 (v :: u32) = 0 \<longleftrightarrow> unat v < 128"
  by (auto simp: word_unat_eq_iff [of "drop_bit 7 v"] unat_drop_bit div_eq_0_iff)

lemma setContinuation_tagDigits_Cons:
  "acc \<noteq> [] \<Longrightarrow> setContinuation (tagDigits v acc) = cont (unat v) @ setContinuation acc"
proof (induction v acc rule: tagDigits.induct)
  case (1 v acc)
  then obtain a as where acc: "acc = a # as" by (cases acc) auto
  have step: "setContinuation (ucast (v AND 0x7F) # acc) = of_nat (128 + unat v mod 128) # setContinuation acc"
    by (simp only: acc setContinuation.simps digit_cont_eq)
  show ?case
  proof (cases "unat v < 128")
    case True
    then show ?thesis
      by (simp only: tagDigits.simps [of v acc] Let_def drop7_eq_0 if_True step)
        (simp add: cont.simps [of "unat v"])
  next
    case False
    then have "setContinuation (tagDigits v acc)
        = cont (unat (drop_bit 7 v)) @ setContinuation (ucast (v AND 0x7F) # acc)"
      using "1.IH" by (simp only: tagDigits.simps [of v acc] Let_def drop7_eq_0 if_False) simp
    with False show ?thesis
      by (simp add: step cont.simps [of "unat v"] unat_drop_bit)
  qed
qed

lemma setContinuation_tagDigits: "setContinuation (tagDigits v []) = tag_octets (unat v)"
proof (cases "unat v < 128")
  case True
  then show ?thesis
    by (simp add: tagDigits.simps [of v "[]"] Let_def drop7_eq_0 digit_eq tag_octets_def)
next
  case False
  then have "setContinuation (tagDigits v []) = setContinuation (tagDigits (drop_bit 7 v) [ucast (v AND 0x7F)])"
    by (simp add: tagDigits.simps [of v "[]"] Let_def drop7_eq_0)
  also have "\<dots> = cont (unat v div 128) @ [of_nat (unat v mod 128)]"
    by (simp add: setContinuation_tagDigits_Cons unat_drop_bit digit_eq)
  finally show ?thesis using False by (simp add: tag_octets_def)
qed

text \<open>The leading octet: class in bits 7 and 6, the constructed flag in bit 5, five bits of number.\<close>

definition lead_octet :: "byte \<Rightarrow> bool \<Rightarrow> nat \<Rightarrow> byte" where
  "lead_octet c k n = of_nat (unat c * 64 + (if k then 32 else 0) + n)"

lemma unat_lead_octet:
  "unat c < 4 \<Longrightarrow> n < 32 \<Longrightarrow> unat (lead_octet c k n) = unat c * 64 + (if k then 32 else 0) + n"
  unfolding lead_octet_def by (rule unat_of_nat_byte) auto

lemma lead_octet_code:
  assumes c: "unat c < 4" and n: "unat n < 32"
  shows "(if k then push_bit 6 c OR 0x20 else push_bit 6 c) OR n = lead_octet c k (unat n)"
proof -
  have or20: "unat (0x20 OR n) = 32 + unat n"
    using unat_push_or [of n 5 1] n by (simp add: push_bit_eq_mult)
  have "unat (push_bit 6 c OR (0x20 OR n)) = unat c * 64 + (32 + unat n)"
    using unat_push_or [of "0x20 OR n" 6 c] c n or20 by simp
  moreover have "unat (push_bit 6 c OR n) = unat c * 64 + unat n"
    using unat_push_or [of n 6 c] c n by simp
  ultimately show ?thesis
    using c n by (auto simp: byte_eq_iff unat_lead_octet or.assoc)
qed

lemma lead_octet_fields:
  assumes c: "unat c < 4" and n: "n < 32"
  shows "drop_bit 6 (lead_octet c k n) = c"
    and "(lead_octet c k n AND 0x20 \<noteq> 0) = k"
    and "unat (lead_octet c k n AND 0x1F) = n"
proof -
  let ?b = "unat c * 64 + (if k then 32 else 0) + n"
  have b: "unat (lead_octet c k n) = ?b" using assms by (rule unat_lead_octet)
  have "?b div 64 = unat c" using n by auto
  then show "drop_bit 6 (lead_octet c k n) = c"
    by (simp add: byte_eq_iff unat_drop_bit b)
  have "?b div 32 = 2 * unat c + (if k then 1 else 0)" using n by auto
  then show "(lead_octet c k n AND 0x20 \<noteq> 0) = k"
    by (simp add: and_20_eq_0 b)
  have "?b = n + 32 * (2 * unat c + (if k then 1 else 0))" by simp
  then have "?b mod 32 = n" using n by (simp only: mod_mult_self2 mod_less)
  then show "unat (lead_octet c k n AND 0x1F) = n"
    by (simp add: and_1f b)
qed

lemma lead_octet_of_fields:
  "lead_octet (drop_bit 6 b) (b AND 0x20 \<noteq> 0) (unat (b AND 0x1F)) = b"
proof -
  have split: "m = m div 64 * 64 + (if odd (m div 32) then 32 else 0) + m mod 32" for m :: nat
  proof -
    have "m div 64 = m div 32 div 2" by (simp add: div_mult2_eq [symmetric])
    moreover have "q = q div 2 * 2 + (if odd q then 1 else 0)" for q :: nat
      by (simp add: odd_two_times_div_two_succ mult.commute)
    ultimately have "m div 32 = m div 64 * 2 + (if odd (m div 32) then 1 else 0)" by metis
    then have "m = (m div 64 * 2 + (if odd (m div 32) then 1 else 0)) * 32 + m mod 32"
      by (metis div_mult_mod_eq)
    then show ?thesis by (simp add: algebra_simps split: if_splits)
  qed
  have c: "unat (drop_bit 6 b) < 4"
    using unat_byte_less [of b] by (simp add: unat_drop_bit)
  have "unat (lead_octet (drop_bit 6 b) (b AND 0x20 \<noteq> 0) (unat (b AND 0x1F))) = unat b"
    using split [of "unat b"] unat_byte_less [of b]
    by (subst unat_lead_octet [OF c]) (simp_all add: unat_drop_bit and_20_eq_0 and_1f)
  then show ?thesis by (simp add: byte_eq_iff)
qed

definition identifier_octets :: "ident \<Rightarrow> bytes" where
  "identifier_octets tag =
     (let n = unat (id_number tag)
      in if n < 31 then [lead_octet (id_class tag) (id_constructed tag) n]
         else lead_octet (id_class tag) (id_constructed tag) 31 # tag_octets n)"

lemma appendIdentifier_eq:
  assumes "Identifier_Valid tag"
  shows "appendIdentifier dst tag = dst @ identifier_octets tag"
proof -
  have c: "unat (id_class tag) < 4" using assms by (simp add: Identifier_Valid_less)
  show ?thesis
  proof (cases "unat (id_number tag) < 31")
    case True
    then have "unat (ucast (id_number tag) :: byte) = unat (id_number tag)"
      by (simp add: unsigned_ucast_eq take_bit_eq_mod)
    with True c lead_octet_code [OF c, of "ucast (id_number tag)"] show ?thesis
      by (simp add: appendIdentifier_def identifier_octets_def word_less_nat_alt Let_def)
  next
    case False
    with lead_octet_code [OF c, of "0x1F"] show ?thesis
      by (simp add: appendIdentifier_def identifier_octets_def word_less_nat_alt Let_def
          setContinuation_tagDigits)
  qed
qed

text \<open>One iteration of the decoding loop, on naturals.\<close>

lemma tag_guard: "drop_bit 7 0xFFFFFFFF < (number :: u64) \<longleftrightarrow> 2 ^ 25 \<le> unat number"
  by (auto simp: word_less_nat_alt unat_drop_bit)

lemma tag_step:
  assumes "unat number < 2 ^ 25"
  shows "unat (push_bit 7 number OR ucast (b AND 0x7F :: byte) :: u64) = unat number * 128 + unat b mod 128"
  using assms shift7_or [of number "b AND 0x7F"] by (simp add: and_7f)

lemma decodeTagNumber_Cons:
  "decodeTagNumber maxTag (b # bs) i number =
     (if i = 1 \<and> unat b mod 128 = 0 then Inl ErrInvalidIdentifier
      else if 2 ^ 25 \<le> unat number then Inl ErrInvalidIdentifier
      else let m = unat number * 128 + unat b mod 128
           in if unat maxTag < m then Inl (LimitError ''tag number'' m (unat maxTag))
              else if unat b < 128 then (if m < 31 then Inl ErrInvalidIdentifier else Inr (of_nat m, i + 1))
              else decodeTagNumber maxTag bs (i + 1) (of_nat m))"
proof (cases "unat number < 2 ^ 25")
  case True
  define m where "m = unat number * 128 + unat b mod 128"
  have m: "m < 2 ^ 32" using True unfolding m_def by simp
  have num: "push_bit 7 number OR ucast (b AND 0x7F) = (of_nat m :: u64)"
    using tag_step [OF True, of b, folded m_def] m by (simp add: word_unat_eq_iff unat_of_nat)
  have lim: "ucast maxTag < (of_nat m :: u64) \<longleftrightarrow> unat maxTag < m"
    using m unat_u32_less [of maxTag]
    by (simp add: word_less_nat_alt unat_of_nat unsigned_ucast_eq take_bit_eq_mod)
  have small: "(of_nat m :: u64) < 31 \<longleftrightarrow> m < 31"
    using m by (simp add: word_less_nat_alt unat_of_nat)
  have un: "unat (of_nat m :: u64) = m" using m by (simp add: unat_of_nat)
  have cast: "ucast (of_nat m :: u64) = (of_nat m :: u32)"
    using m by (simp add: word_unat_eq_iff unsigned_ucast_eq take_bit_eq_mod unat_of_nat)
  have "b AND 0x7F = 0 \<longleftrightarrow> unat b mod 128 = 0"
    using and_7f [of b] by (metis unat_eq_zero)
  moreover have "(2 ^ 25 \<le> unat number) = False" using True by simp
  ultimately show ?thesis
    by (simp only: decodeTagNumber.simps tag_guard num lim small un cast and_80_eq_0 Let_def
        m_def [symmetric] if_False)
next
  case False
  have "b AND 0x7F = 0 \<longleftrightarrow> unat b mod 128 = 0"
    using and_7f [of b] by (metis unat_eq_zero)
  with False show ?thesis
    by (simp only: decodeTagNumber.simps tag_guard not_less if_True)
qed

declare decodeTagNumber.simps(2) [simp del]

lemma decodeTagNumber_cont:
  "0 < v \<Longrightarrow> v \<le> unat maxTag \<Longrightarrow> v < 2 ^ 25 \<Longrightarrow>
     decodeTagNumber maxTag (cont v @ rest) 1 0 = decodeTagNumber maxTag rest (1 + length (cont v)) (of_nat v)"
proof (induction v arbitrary: rest rule: cont.induct)
  case (1 v)
  show ?case
  proof (cases "v < 128")
    case True
    then have "unat (of_nat (128 + v) :: byte) = 128 + v" by (intro unat_of_nat_byte) simp
    with True "1.prems" show ?thesis
      by (simp add: cont.simps [of v] decodeTagNumber_Cons Let_def del: of_nat_add)
  next
    case False
    have b: "unat (of_nat (128 + v mod 128) :: byte) = 128 + v mod 128"
      by (intro unat_of_nat_byte) simp
    have pos: "0 < v div 128" using False by (simp add: div_greater_zero_iff)
    have le: "v div 128 \<le> unat maxTag" "v div 128 < 2 ^ 25"
      using "1.prems" div_le_dividend [of v 128] by linarith+
    have n: "unat (of_nat (v div 128) :: u64) = v div 128"
      using le(2) by (simp add: unat_of_nat)
    have "decodeTagNumber maxTag (cont v @ rest) 1 0
        = decodeTagNumber maxTag (of_nat (128 + v mod 128) # rest) (1 + length (cont (v div 128))) (of_nat (v div 128))"
      using "1.IH" [OF False pos le, of "of_nat (128 + v mod 128) # rest"] False
      by (simp add: cont.simps [of v])
    also have "\<dots> = decodeTagNumber maxTag rest (1 + length (cont v)) (of_nat v)"
      using False "1.prems" b le n
      by (simp add: decodeTagNumber_Cons Let_def cont.simps [of v] del: of_nat_add)
    finally show ?thesis .
  qed
qed

lemma decodeTagNumber_tag_octets:
  assumes "31 \<le> n" and "n \<le> unat maxTag"
  shows "decodeTagNumber maxTag (tag_octets n @ rest) 1 0 = Inr (of_nat n, 1 + length (tag_octets n))"
proof -
  have n32: "n < 2 ^ 32" using assms(2) unat_u32_less [of maxTag] by simp
  show ?thesis
  proof (cases "n < 128")
    case True
    then show ?thesis
      using assms by (simp add: tag_octets_def decodeTagNumber_Cons Let_def unat_of_nat_byte)
  next
    case False
    have b: "unat (of_nat (n mod 128) :: byte) = n mod 128"
      by (intro unat_of_nat_byte) simp
    have pos: "0 < n div 128" using False by (simp add: div_greater_zero_iff)
    have lt: "n div 128 < 2 ^ 25" using n32 by (simp add: less_mult_imp_div_less)
    have le: "n div 128 \<le> unat maxTag" using assms(2) div_le_dividend [of n 128] by linarith
    have u: "unat (of_nat (n div 128) :: u64) = n div 128" using lt by (simp add: unat_of_nat)
    have "tag_octets n @ rest = cont (n div 128) @ of_nat (n mod 128) # rest"
      using False by (simp add: tag_octets_def)
    then have "decodeTagNumber maxTag (tag_octets n @ rest) 1 0
        = decodeTagNumber maxTag (of_nat (n mod 128) # rest) (1 + length (cont (n div 128))) (of_nat (n div 128))"
      using decodeTagNumber_cont [OF pos le lt] by simp
    then show ?thesis
      using False assms b lt u by (simp add: decodeTagNumber_Cons Let_def tag_octets_def)
  qed
qed

text \<open>A successful decode of the tag number consumed exactly its canonical octets.\<close>

lemma decodeTagNumber_canonical_aux:
  assumes "decodeTagNumber maxTag bs i number = Inr (v, n)" and "0 < unat number" and "1 < i"
  shows "\<exists>cs rest. bs = cs @ rest \<and> n = i + length cs \<and> tag_octets (unat v) = cont (unat number) @ cs
           \<and> 31 \<le> unat v \<and> unat v \<le> unat maxTag"
  using assms
proof (induction bs arbitrary: i number)
  case Nil
  then show ?case by simp
next
  case (Cons b bs)
  define m where "m = unat number * 128 + unat b mod 128"
  note step = decodeTagNumber_Cons [of maxTag b bs i number, folded m_def, unfolded Let_def]
  from Cons.prems have g: "unat number < 2 ^ 25" "m \<le> unat maxTag"
    by (auto simp: step split: if_splits)
  have m: "m < 2 ^ 32" "m div 128 = unat number" "m mod 128 = unat b mod 128" "128 \<le> m"
    using g(1) Cons.prems(2) by (auto simp: m_def)
  have u: "unat (of_nat m :: u32) = m" "unat (of_nat m :: u64) = m"
    using m(1) by (simp_all add: unat_of_nat)
  show ?case
  proof (cases "unat b < 128")
    case True
    with Cons.prems g have "v = of_nat m" "n = i + 1"
      by (auto simp: step split: if_splits)
    moreover have "tag_octets m = cont (unat number) @ [b]"
      using m True by (simp add: tag_octets_def byte_eq_iff)
    ultimately have "b # bs = [b] @ bs \<and> n = i + length [b] \<and> tag_octets (unat v) = cont (unat number) @ [b]
        \<and> 31 \<le> unat v \<and> unat v \<le> unat maxTag"
      using u m(4) g(2) by simp
    then show ?thesis by blast
  next
    case False
    with Cons.prems g have "decodeTagNumber maxTag bs (i + 1) (of_nat m) = Inr (v, n)"
      by (auto simp: step split: if_splits)
    from Cons.IH [OF this] u m Cons.prems(3) obtain cs rest where
      cs: "bs = cs @ rest" "n = i + 1 + length cs" "tag_octets (unat v) = cont m @ cs"
        "31 \<le> unat v" "unat v \<le> unat maxTag"
      by auto
    have "128 + unat b mod 128 = unat b" using False by (rule byte_high)
    then have "cont m = cont (unat number) @ [b]"
      using m by (simp add: cont.simps [of m] flip: of_nat_add)
    with cs have "b # bs = (b # cs) @ rest \<and> n = i + length (b # cs)
        \<and> tag_octets (unat v) = cont (unat number) @ (b # cs) \<and> 31 \<le> unat v \<and> unat v \<le> unat maxTag"
      by simp
    then show ?thesis by blast
  qed
qed

lemma decodeTagNumber_canonical:
  assumes "decodeTagNumber maxTag bs 1 0 = Inr (v, n)"
  shows "\<exists>rest. bs = tag_octets (unat v) @ rest \<and> n = 1 + length (tag_octets (unat v))
           \<and> 31 \<le> unat v \<and> unat v \<le> unat maxTag"
proof (cases bs)
  case Nil
  with assms show ?thesis by simp
next
  case (Cons b bs')
  define m where "m = unat b mod 128"
  have m: "m < 128" by (simp add: m_def)
  from assms have pos: "0 < m" and le: "m \<le> unat maxTag"
    by (auto simp: Cons decodeTagNumber_Cons m_def Let_def split: if_splits)
  show ?thesis
  proof (cases "unat b < 128")
    case True
    then have mb: "m = unat b" by (simp add: m_def)
    with True assms have v: "v = of_nat m" "n = 2" "31 \<le> m"
      by (auto simp: Cons decodeTagNumber_Cons m_def [symmetric] Let_def split: if_splits)
    have "unat (of_nat m :: u32) = m" using m by (simp add: unat_of_nat)
    with v mb True le show ?thesis by (simp add: Cons tag_octets_def)
  next
    case False
    with assms have "decodeTagNumber maxTag bs' 2 (of_nat m) = Inr (v, n)"
      by (auto simp: Cons decodeTagNumber_Cons m_def [symmetric] Let_def numeral_2_eq_2 split: if_splits)
    moreover have u: "unat (of_nat m :: u64) = m" using m by (simp add: unat_of_nat)
    ultimately obtain cs rest where cs: "bs' = cs @ rest" "n = 2 + length cs"
      "tag_octets (unat v) = cont m @ cs" "31 \<le> unat v" "unat v \<le> unat maxTag"
      using decodeTagNumber_canonical_aux [of maxTag bs' 2 "of_nat m" v n] pos by auto
    have "128 + m = unat b" using False unfolding m_def by (rule byte_high)
    then have "cont m = [b]" using m by (simp add: cont.simps [of m] flip: of_nat_add)
    with cs show ?thesis by (simp add: Cons)
  qed
qed

lemma decodeIdentifier_octets:
  assumes "Identifier_Valid tag" and "unat (id_number tag) \<le> max 30 (unat maxTag)"
  shows "decodeIdentifier (identifier_octets tag @ rest) maxTag = Inr (tag, length (identifier_octets tag))"
proof -
  have c: "unat (id_class tag) < 4" using assms(1) by (simp add: Identifier_Valid_less)
  let ?n = "unat (id_number tag)"
  have f: "drop_bit 6 (lead_octet (id_class tag) (id_constructed tag) k) = id_class tag"
      "(lead_octet (id_class tag) (id_constructed tag) k AND 0x20 \<noteq> 0) = id_constructed tag"
      "ucast (lead_octet (id_class tag) (id_constructed tag) k AND 0x1F) = (of_nat k :: u32)"
    if "k < 32" for k
    using lead_octet_fields [OF c that, of "id_constructed tag"] that
    by (simp_all add: word_unat_eq_iff unsigned_ucast_eq take_bit_eq_mod unat_of_nat)
  show ?thesis
  proof (cases "?n < 31")
    case True
    then have "(of_nat ?n :: u32) \<noteq> 0x1F" by (simp add: word_unat_eq_iff)
    with True show ?thesis
      by (simp add: identifier_octets_def Let_def f)
  next
    case False
    with assms(2) have "31 \<le> ?n" "?n \<le> unat maxTag" by auto
    with False show ?thesis
      by (simp add: identifier_octets_def Let_def f decodeTagNumber_tag_octets del: One_nat_def)
  qed
qed

lemma decodeIdentifier_canonical:
  assumes "decodeIdentifier data maxTag = Inr (tag, n)"
  shows "\<exists>rest. data = identifier_octets tag @ rest \<and> n = length (identifier_octets tag)
           \<and> Identifier_Valid tag \<and> unat (id_number tag) \<le> max 30 (unat maxTag)"
proof (cases data)
  case Nil
  with assms show ?thesis by simp
next
  case (Cons first rest)
  have c: "Identifier_Valid \<lparr>id_class = drop_bit 6 first, id_constructed = k, id_number = v\<rparr>" for k v
    using unat_byte_less [of first] by (simp add: Identifier_Valid_less unat_drop_bit)
  have nn: "unat (ucast (first AND 0x1F) :: u32) = unat first mod 32"
    by (simp add: unsigned_ucast_eq take_bit_eq_mod and_1f)
  have lead: "lead_octet (drop_bit 6 first) (first AND 0x20 \<noteq> 0) (unat first mod 32) = first"
    using lead_octet_of_fields [of first] by (simp add: and_1f)
  show ?thesis
  proof (cases "unat first mod 32 = 31")
    case False
    then have "ucast (first AND 0x1F) \<noteq> (0x1F :: u32)" by (simp add: word_unat_eq_iff nn)
    with assms have t: "tag = \<lparr>id_class = drop_bit 6 first, id_constructed = (first AND 0x20 \<noteq> 0),
        id_number = ucast (first AND 0x1F)\<rparr>" "n = 1"
      by (auto simp: Cons Let_def)
    have "unat first mod 32 < 31" using False by (simp add: less_le)
    then show ?thesis
      using lead by (simp add: Cons t c identifier_octets_def Let_def nn)
  next
    case True
    then have "ucast (first AND 0x1F) = (0x1F :: u32)" by (simp add: word_unat_eq_iff nn)
    with assms obtain v where v: "decodeTagNumber maxTag rest 1 0 = Inr (v, n)"
      and t: "tag = \<lparr>id_class = drop_bit 6 first, id_constructed = (first AND 0x20 \<noteq> 0), id_number = v\<rparr>"
      by (auto simp: Cons Let_def split: sum.splits)
    from decodeTagNumber_canonical [OF v] show ?thesis
      using lead True by (auto simp: Cons t c identifier_octets_def Let_def)
  qed
qed

section \<open>Sizes of identifier octets\<close>

lemma length_tag_octets: "length (tag_octets v) = length (cont v)"
  by (simp add: tag_octets_def cont.simps [of v])

lemma identifierLengthLoop_eq: "identifierLengthLoop v len = len + length (cont (unat v))"
proof (induction v len rule: identifierLengthLoop.induct)
  case (1 v len)
  show ?case
  proof (cases "v < 0x80")
    case True
    then show ?thesis
      by (simp add: identifierLengthLoop.simps [of v len] cont.simps [of "unat v"] word_less_nat_alt)
  next
    case False
    with "1.IH" have "identifierLengthLoop v len = Suc len + length (cont (unat v div 128))"
      by (simp add: identifierLengthLoop.simps [of v len] unat_drop_bit)
    with False show ?thesis by (simp add: cont.simps [of "unat v"] word_less_nat_alt)
  qed
qed

lemma identifierLength_eq: "identifierLength tag = length (identifier_octets tag)"
  by (simp add: identifierLength_def identifier_octets_def Let_def identifierLengthLoop_eq
      length_tag_octets word_less_nat_alt)

lemma length_cont_le: "v < 128 ^ Suc k \<Longrightarrow> length (cont v) \<le> Suc k"
proof (induction k arbitrary: v)
  case 0
  then show ?case by (simp add: cont.simps [of v])
next
  case (Suc k)
  then have "v div 128 < 128 ^ Suc k" by (simp add: less_mult_imp_div_less mult.commute)
  from Suc.IH [OF this] show ?case by (simp add: cont.simps [of v])
qed

lemma length_setContinuation [simp]: "length (setContinuation bs) = length bs"
  by (induction bs rule: setContinuation.induct) auto

text \<open>The five-octet scratch array \<^verbatim>\<open>encoded\<close> is never underrun.\<close>

lemma length_tagDigits_le: "length (tagDigits v []) \<le> 5"
proof -
  have "unat v < 128 ^ Suc 4" using unat_u32_less [of v] by simp
  then have "length (cont (unat v)) \<le> Suc 4" by (rule length_cont_le)
  then have "length (tag_octets (unat v)) \<le> 5" by (simp add: length_tag_octets)
  then show ?thesis by (simp flip: setContinuation_tagDigits)
qed

section \<open>Length octets: specification and round trip\<close>

lemma bits_Len_bounds: "0 < x \<Longrightarrow> 0 < bits_Len x \<and> 2 ^ (bits_Len x - 1) \<le> x \<and> x < 2 ^ bits_Len x"
proof (induction x rule: bits_Len.induct)
  case (1 x)
  show ?case
  proof (cases "x < 2")
    case True
    with "1.prems" have "x = 1" by simp
    then show ?thesis by (simp add: bits_Len.simps [of "Suc 0"] bits_Len.simps [of 0])
  next
    case False
    with "1.IH" have IH: "0 < bits_Len (x div 2)" "2 ^ (bits_Len (x div 2) - 1) \<le> x div 2"
      "x div 2 < 2 ^ bits_Len (x div 2)"
      by auto
    obtain k where k: "bits_Len (x div 2) = Suc k" using IH(1) by (cases "bits_Len (x div 2)") auto
    have L: "bits_Len x = Suc (Suc k)" using False k by (simp add: bits_Len.simps [of x])
    have "2 * 2 ^ k \<le> x" using IH(2) k by simp
    moreover have "x < 2 * (2 * 2 ^ k)" using IH(3) k by simp
    ultimately show ?thesis by (simp add: L)
  qed
qed

text \<open>\<open>length_width len\<close> octets hold \<open>len\<close>, and one less would not.\<close>

definition length_width :: "nat \<Rightarrow> nat" where
  "length_width len = (bits_Len len + 7) div 8"

lemma length_width_bounds:
  assumes "0 < len"
  shows "0 < length_width len" "256 ^ (length_width len - 1) \<le> len" "len < 256 ^ length_width len"
proof -
  have p: "(256 :: nat) ^ k = 2 ^ (8 * k)" for k by (simp add: power_mult)
  note b = bits_Len_bounds [OF assms]
  then show "0 < length_width len" by (simp add: length_width_def div_greater_zero_iff)
  have "8 * (length_width len - 1) \<le> bits_Len len - 1" by (auto simp: length_width_def)
  then have "(2 :: nat) ^ (8 * (length_width len - 1)) \<le> 2 ^ (bits_Len len - 1)"
    by (intro power_increasing) auto
  with b show "256 ^ (length_width len - 1) \<le> len" by (simp only: p) linarith
  have "bits_Len len \<le> 8 * length_width len" by (auto simp: length_width_def)
  then have "(2 :: nat) ^ bits_Len len \<le> 2 ^ (8 * length_width len)"
    by (intro power_increasing) auto
  with b show "len < 256 ^ length_width len" by (simp only: p) linarith
qed

lemma length_width_unique:
  assumes "0 < n" "256 ^ (n - 1) \<le> len" "len < 256 ^ n"
  shows "length_width len = n"
proof -
  have pos: "0 < len" using assms(2) by (metis less_le_trans zero_less_numeral zero_less_power)
  note b = length_width_bounds [OF pos]
  have lt: "i \<le> j" if "(256 :: nat) ^ (i - 1) < 256 ^ j" for i j :: nat
    using power_less_imp_less_exp [OF _ that] by simp
  have "n \<le> length_width len" by (rule lt) (use assms b in linarith)
  moreover have "length_width len \<le> n" by (rule lt) (use assms b in linarith)
  ultimately show ?thesis by simp
qed

definition length_octets :: "nat \<Rightarrow> bytes" where
  "length_octets len =
     (if len < 128 then [of_nat len]
      else of_nat (128 + length_width len) # octets (length_width len) len)"

lemma appendLengthOctets_eq: "appendLengthOctets dst v k = dst @ octets k (unat v)"
proof (induction k arbitrary: dst)
  case 0
  show ?case by simp
next
  case (Suc k)
  have "(2 :: nat) ^ (k * 8) = 256 ^ k"
    by (simp only: mult.commute [of k] power_mult) simp
  then have "unat (drop_bit (k * 8) v) = unat v div 256 ^ k"
    by (simp only: unat_drop_bit)
  then have "(ucast (drop_bit (k * 8) v) :: byte) = of_nat (unat v div 256 ^ k)"
    by (simp add: byte_eq_iff unsigned_ucast_eq take_bit_eq_mod unat_of_nat)
  with Suc.IH show ?case by (simp only: appendLengthOctets.simps octets_Suc_front) simp
qed

lemma length_width_le:
  assumes "0 < len" and "len \<le> MaxInt"
  shows "length_width len \<le> 8"
proof (rule ccontr)
  assume "\<not> length_width len \<le> 8"
  then have "(256 :: nat) ^ 8 \<le> 256 ^ (length_width len - 1)" by (intro power_increasing) auto
  with length_width_bounds(2) [OF assms(1)] assms(2) show False by simp
qed

lemma appendLength_eq:
  assumes "len \<le> MaxInt"
  shows "appendLength dst len = dst @ length_octets len"
proof (cases "len < 128")
  case True
  then show ?thesis by (simp add: appendLength_def length_octets_def)
next
  case False
  then have w: "length_width len \<le> 8" using assms by (intro length_width_le) auto
  have "unat (of_nat len :: u64) = len" using assms by (simp add: unat_of_nat)
  moreover have "0x80 OR of_nat (length_width len) = (of_nat (128 + length_width len) :: byte)"
    using w or_80 [of "of_nat (length_width len)"] unfolding byte_eq_iff
    by (simp add: unat_of_nat_byte or.commute del: of_nat_add)
  ultimately show ?thesis
    using False
    by (simp add: appendLength_def length_octets_def Let_def appendLengthOctets_eq length_width_def
        del: of_nat_add)
qed

lemma lengthLengthLoop_eq: "0 < len \<Longrightarrow> lengthLengthLoop len n = n + length_width len"
proof (induction len n rule: lengthLengthLoop.induct)
  case (1 len n)
  then have step: "lengthLengthLoop len n = lengthLengthLoop (len div 256) (Suc n)"
    by (simp add: lengthLengthLoop.simps [of len n] drop_bit_eq_div)
  show ?case
  proof (cases "len < 256")
    case True
    then have "length_width len = 1" using "1.prems" by (intro length_width_unique) auto
    with True step show ?thesis by (simp add: lengthLengthLoop.simps [of 0])
  next
    case False
    then have pos: "0 < len div 256" by (simp add: div_greater_zero_iff)
    note b = length_width_bounds [OF pos]
    obtain k where k: "length_width (len div 256) = Suc k"
      using b(1) by (cases "length_width (len div 256)") auto
    have lo: "256 ^ k * 256 \<le> len"
      using b(2) k by (simp add: less_eq_div_iff_mult_less_eq)
    have hi: "len < 256 ^ Suc k * 256"
      using b(3) k by (simp add: div_less_iff_less_mult)
    have "length_width len = Suc (length_width (len div 256))"
      unfolding k by (rule length_width_unique) (use lo hi in \<open>simp_all add: mult.commute\<close>)
    with "1.IH" "1.prems" pos step show ?thesis by (simp add: drop_bit_eq_div)
  qed
qed

lemma lengthLength_eq: "lengthLength len = length (length_octets len)"
  by (simp add: lengthLength_def length_octets_def lengthLengthLoop_eq)

lemma length_guard: "drop_bit 8 (of_nat MaxInt) < (v :: u64) \<longleftrightarrow> 2 ^ 55 \<le> unat v"
  by (auto simp: word_less_nat_alt unat_drop_bit)

lemma decodeLengthOctets_eq:
  "decodeLengthOctets bs v =
     (if bs = [] then Inr v
      else if unat v * 256 ^ (length bs - 1) + be_nat (butlast bs) < 2 ^ 55
      then Inr (of_nat (unat v * 256 ^ length bs + be_nat bs)) else Inl ErrLengthOverflow)"
proof (induction bs arbitrary: v)
  case Nil
  show ?case by simp
next
  case (Cons b bs)
  show ?case
  proof (cases "unat v < 2 ^ 55")
    case False
    then have "2 ^ 55 \<le> unat v * 256 ^ length bs"
      by (metis le_trans mult_le_mono2 mult_1_right not_less one_le_numeral one_le_power)
    with False show ?thesis
      by (simp only: decodeLengthOctets.simps length_guard not_less if_True) simp
  next
    case True
    define v' where "v' = (push_bit 8 v OR ucast b :: u64)"
    have v': "unat v' = unat v * 256 + unat b"
      unfolding v'_def using True by (intro shift8_or) simp
    have step: "decodeLengthOctets (b # bs) v = decodeLengthOctets bs v'"
      unfolding decodeLengthOctets.simps length_guard v'_def using True by simp
    show ?thesis
    proof (cases "bs = []")
      case True
      have "v' = of_nat (unat v')" by simp
      also have "\<dots> = of_nat (unat v * 256 ^ length [b] + be_nat [b])" by (simp only: v' be_nat_Cons) simp
      finally show ?thesis
        using step \<open>unat v < 2 ^ 55\<close> True by (simp only:) simp
    next
      case False
      have "unat v' * 256 ^ (length bs - 1) + be_nat (butlast bs)
          = unat v * 256 ^ length bs + be_nat (butlast (b # bs))"
        using False by (cases "length bs") (simp_all add: v' be_nat_Cons algebra_simps)
      moreover have "unat v' * 256 ^ length bs + be_nat bs
          = unat v * 256 ^ length (b # bs) + be_nat (b # bs)"
        by (simp add: v' be_nat_Cons algebra_simps)
      ultimately show ?thesis
        using False step Cons.IH [of v'] by simp
    qed
  qed
qed

text \<open>The decoder on the octets after a long-form first octet, as a condition on the number they denote.\<close>

lemma decodeLengthOctets_le_MaxInt:
  assumes "bs \<noteq> []"
  shows "be_nat (butlast bs) < 2 ^ 55 \<longleftrightarrow> be_nat bs \<le> MaxInt"
proof -
  have "be_nat bs = be_nat (butlast bs) * 256 + unat (last bs)"
    using be_nat_snoc [of "butlast bs" "last bs"] assms by simp
  with unat_byte_less [of "last bs"] show ?thesis by auto
qed

lemma decodeLength_short: "unat first < 128 \<Longrightarrow> decodeLength (first # rest) = Inr (unat first, 1)"
  by (simp add: and_80_eq_0)

lemma decodeLength_indefinite: "unat first = 128 \<Longrightarrow> decodeLength (first # rest) = Inl ErrIndefiniteLength"
  by (simp add: and_80_eq_0 and_7f)

lemma decodeLength_long:
  assumes "128 < unat first"
  shows "decodeLength (first # rest) =
     (let n = unat first - 128; v = be_nat (take n rest)
      in if length rest < n then Inl ErrTruncated
         else if 8 < n \<or> (1 < n \<and> rest ! 0 = 0) then Inl ErrInvalidLength
         else if MaxInt < v then Inl ErrLengthOverflow
         else if v < 128 then Inl ErrInvalidLength
         else Inr (v, n + 1))"
proof -
  define n where "n = unat first - 128"
  have n: "unat (first AND 0x7F) = n" "0 < n"
    using assms byte_high [of first] by (simp_all add: and_7f n_def)
  have long: "\<not> first AND 0x80 = 0" using assms by (simp add: and_80_eq_0)
  show ?thesis
  proof (cases "length rest < n \<or> 8 < n \<or> (1 < n \<and> rest ! 0 = 0)")
    case True
    with n long show ?thesis by (auto simp: Let_def n_def [symmetric])
  next
    case False
    define bs where "bs = take n rest"
    have bs: "bs \<noteq> []" "length bs = n" using False n by (auto simp: bs_def)
    have dec: "decodeLengthOctets bs 0 = (if be_nat bs \<le> MaxInt then Inr (of_nat (be_nat bs)) else Inl ErrLengthOverflow)"
      using decodeLengthOctets_le_MaxInt [OF bs(1)] bs(1)
      by (simp only: decodeLengthOctets_eq [of bs 0] unsigned_0 mult_zero_left add_0 if_False)
    have un: "unat (of_nat (be_nat bs) :: u64) = be_nat bs" if "be_nat bs \<le> MaxInt"
      using that by (simp add: unat_of_nat)
    have lim: "of_nat MaxInt < (of_nat (be_nat bs) :: u64) \<longleftrightarrow> False" if "be_nat bs \<le> MaxInt"
      using un [OF that] that by (simp add: word_less_nat_alt)
    have small: "(of_nat (be_nat bs) :: u64) < 128 \<longleftrightarrow> be_nat bs < 128" if "be_nat bs \<le> MaxInt"
      using un [OF that] by (simp add: word_less_nat_alt)
    have "decodeLength (first # rest) =
        (case decodeLengthOctets bs 0 of Inl e \<Rightarrow> Inl e
         | Inr v \<Rightarrow> if v < 128 then Inl ErrInvalidLength
                    else if of_nat MaxInt < v then Inl ErrLengthOverflow else Inr (unat v, n + 1))"
      using False n long by (simp only: decodeLength.simps Let_def bs_def) auto
    also have "\<dots> = (if MaxInt < be_nat bs then Inl ErrLengthOverflow
         else if be_nat bs < 128 then Inl ErrInvalidLength else Inr (be_nat bs, n + 1))"
      unfolding dec using un lim small by (cases "be_nat bs \<le> MaxInt") (simp_all only: sum.case if_True if_False not_le, auto)
    finally show ?thesis
      using False by (simp only: Let_def n_def [symmetric] bs_def [symmetric]) auto
  qed
qed

declare decodeLength.simps(2) [simp del] decodeLengthOctets.simps(2) [simp del]

lemma decodeLength_octets:
  assumes "len \<le> MaxInt"
  shows "decodeLength (length_octets len @ rest) = Inr (len, length (length_octets len))"
proof (cases "len < 128")
  case True
  then show ?thesis by (simp add: length_octets_def decodeLength_short unat_of_nat_byte)
next
  case False
  let ?w = "length_width len"
  have pos: "0 < len" using False by simp
  note b = length_width_bounds [OF pos]
  have w8: "?w \<le> 8" using pos assms by (rule length_width_le)
  have first: "unat (of_nat (128 + ?w) :: byte) = 128 + ?w"
    using w8 by (intro unat_of_nat_byte) simp
  have "be_nat (octets ?w len) = len" using b(3) by (simp add: be_nat_octets)
  moreover have "(octets ?w len @ rest) ! 0 \<noteq> 0"
  proof -
    obtain k where k: "?w = Suc k" using b(1) by (cases ?w) auto
    have "1 \<le> len div 256 ^ k" using b(2) k by (simp add: less_eq_div_iff_mult_less_eq)
    moreover have "len div 256 ^ k < 256" using b(3) k by (simp add: div_less_iff_less_mult)
    ultimately have "(of_nat (len div 256 ^ k) :: byte) \<noteq> 0"
      by (simp add: byte_eq_iff unat_of_nat_byte)
    then show ?thesis unfolding k octets_Suc_front by simp
  qed
  ultimately show ?thesis
    using False first b(1) w8 assms
    by (simp add: length_octets_def decodeLength_long Let_def del: of_nat_add)
qed

lemma decodeLength_canonical:
  assumes "decodeLength data = Inr (len, n)"
  shows "\<exists>rest. data = length_octets len @ rest \<and> n = length (length_octets len) \<and> len \<le> MaxInt"
proof (cases data)
  case Nil
  with assms show ?thesis by simp
next
  case (Cons first rest)
  show ?thesis
  proof (cases "unat first < 128")
    case True
    with assms show ?thesis by (auto simp: Cons decodeLength_short length_octets_def)
  next
    case False
    have "unat first \<noteq> 128"
    proof
      assume "unat first = 128"
      with assms show False by (simp add: Cons decodeLength_indefinite)
    qed
    with False have lt: "128 < unat first" by simp
    define k where "k = unat first - 128"
    define bs where "bs = take k rest"
    from assms have k: "k \<le> length rest" "k \<le> 8" "k = 1 \<or> rest ! 0 \<noteq> 0" "0 < k"
      and v: "len = be_nat bs" "len \<le> MaxInt" "128 \<le> len" "n = k + 1"
      using lt by (auto simp: Cons decodeLength_long Let_def k_def bs_def split: if_splits)
    have lb: "length bs = k" using k by (simp add: bs_def)
    obtain c cs where cs: "bs = c # cs" using k(4) lb by (cases bs) auto
    have "256 ^ (k - 1) \<le> len"
    proof (cases "k = 1")
      case True
      with v show ?thesis by simp
    next
      case False
      with k have "c \<noteq> 0" using cs by (cases rest) (auto simp: bs_def take_Cons')
      then have "1 \<le> unat c" by (simp add: Suc_le_eq unat_gt_0)
      then have "256 ^ length cs \<le> unat c * 256 ^ length cs" by simp
      moreover have "k - 1 = length cs" using cs lb by simp
      ultimately show ?thesis using v(1) by (simp only: cs be_nat_Cons)
    qed
    moreover have "len < 256 ^ k" using be_nat_less [of bs] v lb by simp
    ultimately have w: "length_width len = k" using k(4) by (intro length_width_unique)
    have "octets k len = bs" using octets_be_nat [of bs] lb v by simp
    moreover have "(of_nat (128 + k) :: byte) = first"
      using lt by (simp add: k_def del: of_nat_add)
    ultimately have "length_octets len = first # bs"
      using v(3) w by (simp add: length_octets_def)
    moreover have "rest = bs @ drop k rest" by (simp add: bs_def)
    ultimately have "data = length_octets len @ drop k rest" by (simp add: Cons)
    with v lb \<open>length_octets len = first # bs\<close> show ?thesis by auto
  qed
qed

section \<open>Properties\<close>

text \<open>(C17) The identifier decoder accepts exactly what the identifier encoder writes: it returns a tag and a
  size if and only if the tag is valid and within the tag limit and the data starts with the octets
  \<^verbatim>\<open>appendIdentifier\<close> writes for it, as many as \<^verbatim>\<open>identifierLength\<close> announces.  So the encoding is a bijection: no
  padded or low-number-in-high-form identifier is accepted.\<close>

theorem decodeIdentifier_iff:
  "decodeIdentifier data maxTag = Inr (tag, n) \<longleftrightarrow>
     Identifier_Valid tag \<and> unat (id_number tag) \<le> max 30 (unat maxTag)
     \<and> n = identifierLength tag \<and> n \<le> length data \<and> take n data = appendIdentifier [] tag"
proof
  assume "decodeIdentifier data maxTag = Inr (tag, n)"
  from decodeIdentifier_canonical [OF this]
  show "Identifier_Valid tag \<and> unat (id_number tag) \<le> max 30 (unat maxTag)
      \<and> n = identifierLength tag \<and> n \<le> length data \<and> take n data = appendIdentifier [] tag"
    by (auto simp: identifierLength_eq appendIdentifier_eq)
next
  assume a: "Identifier_Valid tag \<and> unat (id_number tag) \<le> max 30 (unat maxTag)
      \<and> n = identifierLength tag \<and> n \<le> length data \<and> take n data = appendIdentifier [] tag"
  then have "data = identifier_octets tag @ drop n data"
    by (metis append_Nil append_take_drop_id appendIdentifier_eq)
  with a decodeIdentifier_octets [of tag maxTag "drop n data"] show "decodeIdentifier data maxTag = Inr (tag, n)"
    by (simp add: identifierLength_eq)
qed

text \<open>(C18) The length decoder accepts exactly what the length encoder writes: definite lengths up to
  \<^verbatim>\<open>math.MaxInt\<close> in their shortest form, consuming \<^verbatim>\<open>lengthLength\<close> octets.\<close>

theorem decodeLength_iff:
  "decodeLength data = Inr (len, n) \<longleftrightarrow>
     len \<le> MaxInt \<and> n = lengthLength len \<and> n \<le> length data \<and> take n data = appendLength [] len"
proof
  assume "decodeLength data = Inr (len, n)"
  from decodeLength_canonical [OF this]
  show "len \<le> MaxInt \<and> n = lengthLength len \<and> n \<le> length data \<and> take n data = appendLength [] len"
    by (auto simp: lengthLength_eq appendLength_eq)
next
  assume a: "len \<le> MaxInt \<and> n = lengthLength len \<and> n \<le> length data \<and> take n data = appendLength [] len"
  then have "data = length_octets len @ drop n data"
    by (metis append_Nil append_take_drop_id appendLength_eq)
  with a decodeLength_octets [of len "drop n data"] show "decodeLength data = Inr (len, n)"
    by (simp add: lengthLength_eq)
qed

text \<open>The backward loop of \<^verbatim>\<open>appendIdentifier\<close> fills at most the five octets of its scratch array, for
  every 32-bit tag number, so the index never runs below zero.\<close>

theorem tagDigits_fits: "length (tagDigits v []) \<le> 5"
  by (rule length_tagDigits_le)

end
