(* ===== verification/Ber_Integer.thy ===== *)
theory Ber_Integer
  imports Ber_Types
begin

text \<open>
  BER INTEGER contents: \<^verbatim>\<open>integerBytes\<close> (\<^verbatim>\<open>src/ber/packet.go\<close>) and \<^verbatim>\<open>decodeInteger\<close> (\<^verbatim>\<open>src/ber/reader.go\<close>).

  Both are generic over Go's integer types.  A type parameter \<^verbatim>\<open>T integer\<close> is a value of \<open>inttype\<close>, its
  values are mathematical integers in the range of the type, and a Go conversion \<^verbatim>\<open>T(x)\<close> is \<open>convert\<close>,
  which keeps the low bits of \<open>x\<close> and reads them in \<^verbatim>\<open>T\<close>.  The theory shows that the decoder accepts exactly
  the two's complement contents whose value fits the destination, and that the encoder writes the
  shortest such contents.
\<close>

section \<open>Go integer types\<close>

record inttype =
  it_signed :: bool
  it_bits :: nat

definition Int8 :: inttype where "Int8 = \<lparr>it_signed = True, it_bits = 8\<rparr>"
definition Int32 :: inttype where "Int32 = \<lparr>it_signed = True, it_bits = 32\<rparr>"
definition Int64 :: inttype where "Int64 = \<lparr>it_signed = True, it_bits = 64\<rparr>"
definition Uint8 :: inttype where "Uint8 = \<lparr>it_signed = False, it_bits = 8\<rparr>"
definition Uint32 :: inttype where "Uint32 = \<lparr>it_signed = False, it_bits = 32\<rparr>"
definition Uint64 :: inttype where "Uint64 = \<lparr>it_signed = False, it_bits = 64\<rparr>"

lemmas inttype_defs = Int8_def Int32_def Int64_def Uint8_def Uint32_def Uint64_def

definition inttype_ok :: "inttype \<Rightarrow> bool" where
  "inttype_ok T \<longleftrightarrow> 0 < it_bits T \<and> it_bits T \<le> 64"

definition int_range :: "inttype \<Rightarrow> int \<Rightarrow> bool" where
  "int_range T v =
     (if it_signed T then - (2 ^ (it_bits T - 1)) \<le> v \<and> v < 2 ^ (it_bits T - 1)
      else 0 \<le> v \<and> v < 2 ^ it_bits T)"

definition convert :: "inttype \<Rightarrow> int \<Rightarrow> int" where
  "convert T x = (if it_signed T then signed_take_bit (it_bits T - 1) x else take_bit (it_bits T) x)"

section \<open>Encoding\<close>

text \<open>The loop \<^verbatim>\<open>raw[i] = byte(n); n >>= 8\<close> from the last index down; \<open>drop_bit\<close> on integers is the
  arithmetic shift.\<close>

fun rawBytes :: "nat \<Rightarrow> int \<Rightarrow> bytes" where
  "rawBytes 0 n = []"
| "rawBytes (Suc k) n = rawBytes k (drop_bit 8 n) @ [word_of_int n]"

fun trimSign :: "bytes \<Rightarrow> bytes" where
  "trimSign (a # b # bs) =
     (if a = 0xFF \<and> b AND 0x80 \<noteq> 0 then trimSign (b # bs) else a # b # bs)"
| "trimSign bs = bs"

function unsignedBytes :: "u64 \<Rightarrow> bytes \<Rightarrow> bytes" where
  "unsignedBytes n acc =
     (let acc' = ucast n # acc; n' = drop_bit 8 n
      in if n' = 0 then acc' else unsignedBytes n' acc')"
  by pat_completeness auto
termination
  by (relation "measure (\<lambda>(n, acc). unat n)") (auto simp: drop_bit_less)

declare unsignedBytes.simps [simp del]

definition integerBytes :: "int \<Rightarrow> bytes" where
  "integerBytes v =
     (if v < 0 then trimSign (rawBytes 8 v)
      else let raw = unsignedBytes (word_of_int v) []
           in if hd raw AND 0x80 \<noteq> 0 then 0 # raw else raw)"

section \<open>Decoding\<close>

fun decodeIntegerBits :: "bytes \<Rightarrow> u64 \<Rightarrow> goerror + u64" where
  "decodeIntegerBits [] acc = Inr acc"
| "decodeIntegerBits (b # bs) acc =
     (if drop_bit 8 (- 1) < acc then Inl ErrInvalidInteger
      else decodeIntegerBits bs (push_bit 8 acc OR ucast b))"

definition decodeInteger :: "inttype \<Rightarrow> bytes \<Rightarrow> int \<Rightarrow> goerror + int" where
  "decodeInteger T bs maxBytes =
     (if bs = [] then Inl ErrInvalidInteger
      else if maxBytes < int (length bs)
      then Inl (LimitError ''integer bytes'' (length bs) (nat maxBytes))
      else let negative = (bs ! 0 AND 0x80 \<noteq> 0)
           in if 9 < length bs \<or> (length bs = 9 \<and> (negative \<or> bs ! 0 \<noteq> 0)) then Inl ErrInvalidInteger
              else case decodeIntegerBits bs 0 of
                Inl e \<Rightarrow> Inl e
              | Inr acc \<Rightarrow>
                  if negative
                  then let acc = (if length bs < 8 then acc OR push_bit (length bs * 8) (- 1) else acc);
                           n = sint acc;
                           converted = convert T n
                       in if 0 \<le> converted \<or> convert Int64 converted \<noteq> n then Inl ErrInvalidInteger
                          else Inr converted
                  else let converted = convert T (uint acc)
                       in if converted < 0 \<or> convert Uint64 converted \<noteq> uint acc then Inl ErrInvalidInteger
                          else Inr converted)"

section \<open>The number a contents octet string denotes\<close>

definition be_int :: "bytes \<Rightarrow> int" where
  "be_int bs = (if bs \<noteq> [] \<and> 128 \<le> unat (hd bs) then int (be_nat bs) - 256 ^ length bs else int (be_nat bs))"

lemma integer_guard: "drop_bit 8 (- 1) < (v :: u64) \<longleftrightarrow> 2 ^ 56 \<le> unat v"
  by (auto simp: word_less_nat_alt unat_drop_bit unsigned_minus_1_eq_mask mask_eq_exp_minus_1)

lemma decodeIntegerBits_eq:
  "unat acc * 256 ^ length bs + be_nat bs < 2 ^ 64 \<Longrightarrow>
     decodeIntegerBits bs acc = Inr (of_nat (unat acc * 256 ^ length bs + be_nat bs))"
proof (induction bs arbitrary: acc)
  case Nil
  show ?case by simp
next
  case (Cons b bs)
  have sum: "unat acc * 256 ^ length (b # bs) + be_nat (b # bs)
      = (unat acc * 256 + unat b) * 256 ^ length bs + be_nat bs"
    by (simp add: be_nat_Cons algebra_simps)
  have small: "unat acc < 2 ^ 56"
  proof (rule ccontr)
    assume "\<not> unat acc < 2 ^ 56"
    then have "2 ^ 56 * 256 \<le> unat acc * 256 ^ length (b # bs)"
      by (intro mult_le_mono) auto
    with Cons.prems show False by simp
  qed
  have acc': "unat (push_bit 8 acc OR ucast b :: u64) = unat acc * 256 + unat b"
    using small by (rule shift8_or)
  have "decodeIntegerBits (b # bs) acc = decodeIntegerBits bs (push_bit 8 acc OR ucast b)"
    unfolding decodeIntegerBits.simps integer_guard using small by simp
  also have "\<dots> = Inr (of_nat (unat (push_bit 8 acc OR ucast b :: u64) * 256 ^ length bs + be_nat bs))"
    using Cons.prems unfolding sum by (intro Cons.IH) (simp only: acc')
  finally show ?case by (simp only: acc' sum)
qed

lemma be_nat_less_int: "int (be_nat bs) < 256 ^ length bs"
  using be_nat_less [of bs] by (metis of_nat_less_iff of_nat_numeral of_nat_power)

lemma be_int_range:
  assumes "bs \<noteq> []" and "length bs \<le> 8"
  shows "- (2 ^ 63) \<le> be_int bs" and "be_int bs < 2 ^ 63"
proof -
  obtain c cs where bs: "bs = c # cs" using assms(1) by (cases bs) auto
  define u where "u = unat c"
  let ?p = "(256 :: int) ^ length cs"
  have u: "u < 256" using unat_byte_less [of c] by (simp add: u_def)
  have p: "1 \<le> ?p" "?p \<le> 256 ^ 7"
    using assms(2) bs power_increasing [of "length cs" 7 "256 :: int"] by auto
  have r: "int (be_nat cs) < ?p" by (rule be_nat_less_int)
  have v: "be_int bs = (if 128 \<le> u then int u * ?p + int (be_nat cs) - 256 * ?p else int u * ?p + int (be_nat cs))"
    unfolding u_def by (simp add: bs be_int_def be_nat_Cons)
  define q where "q = int u * ?p"
  have q: "128 \<le> u \<Longrightarrow> 128 * ?p \<le> q" "q \<le> 255 * ?p" "\<not> 128 \<le> u \<Longrightarrow> q \<le> 127 * ?p" "0 \<le> q"
    unfolding q_def using p u by (auto intro!: mult_right_mono)
  have r0: "0 \<le> int (be_nat cs)" by simp
  have p7: "?p \<le> 72057594037927936" using p(2) by simp
  have "- 9223372036854775808 \<le> be_int bs \<and> be_int bs < 9223372036854775808"
  proof (cases "128 \<le> u")
    case True
    then have "be_int bs = q + int (be_nat cs) - 256 * ?p" by (simp only: v q_def if_True)
    with q(1) [OF True] q(2) p(1) p7 r r0 show ?thesis by (intro conjI) linarith+
  next
    case False
    then have "be_int bs = q + int (be_nat cs)" by (simp only: v q_def if_False)
    with q(3) [OF False] q(4) p(1) p7 r r0 show ?thesis by (intro conjI) linarith+
  qed
  then show "- (2 ^ 63) \<le> be_int bs" and "be_int bs < 2 ^ 63" by simp_all
qed

lemma sint_word_of_int: "- (2 ^ 63) \<le> x \<Longrightarrow> x < 2 ^ 63 \<Longrightarrow> sint (word_of_int x :: u64) = x"
  by (simp add: sint_sbintrunc' signed_take_bit_int_eq_self_iff)

text \<open>Extending the sign of a short negative number subtracts \<open>256 ^ length bs\<close>.\<close>

lemma sign_extend:
  assumes "length bs < 8"
  shows "of_nat (be_nat bs) OR push_bit (length bs * 8) (- 1) = (word_of_int (int (be_nat bs) - 256 ^ length bs) :: u64)"
proof -
  let ?k = "length bs * 8"
  have p: "(2 :: nat) ^ ?k = 256 ^ length bs"
    by (simp only: mult.commute [of "length bs"] power_mult) simp
  have "(256 :: nat) ^ length bs \<le> 256 ^ 7" using assms by (intro power_increasing) auto
  then have "unat (of_nat (be_nat bs) :: u64) = be_nat bs"
    using be_nat_less [of bs] by (simp add: unat_of_nat)
  then have lt: "unat (of_nat (be_nat bs) :: u64) < 2 ^ ?k"
    using be_nat_less [of bs] by (simp only: p)
  have "push_bit ?k (- 1) AND of_nat (be_nat bs) = (0 :: u64)"
    using unat_less_exp_imp_not_bit [OF lt] by (auto simp: bit_eq_iff bit_and_iff bit_not_iff bit_mask_iff)
  then have plus: "push_bit ?k (- 1) OR of_nat (be_nat bs) = push_bit ?k (- 1) + (of_nat (be_nat bs) :: u64)"
    by (simp only: disjunctive_add_eq_or)
  have "push_bit ?k (- 1) = (- (2 ^ ?k) :: u64)"
    by (simp add: push_bit_eq_mult)
  also have "(2 :: u64) ^ ?k = 256 ^ length bs"
    by (simp only: mult.commute [of "length bs"] power_mult) simp
  finally have "push_bit ?k (- 1) = (- (256 ^ length bs) :: u64)" .
  then have "of_nat (be_nat bs) OR push_bit ?k (- 1) = - (256 ^ length bs) + (of_nat (be_nat bs) :: u64)"
    using plus by (metis or.commute)
  also have "\<dots> = word_of_int (int (be_nat bs) - 256 ^ length bs)" by simp
  finally show ?thesis .
qed

lemma convert_in_range: "inttype_ok T \<Longrightarrow> int_range T (convert T x)"
  by (auto simp: inttype_ok_def int_range_def convert_def signed_take_bit_int_less_exp
      signed_take_bit_int_greater_eq_minus_exp)

lemma convert_eq_iff: "inttype_ok T \<Longrightarrow> convert T x = x \<longleftrightarrow> int_range T x"
  by (auto simp: inttype_ok_def int_range_def convert_def signed_take_bit_int_eq_self_iff
      take_bit_int_eq_self_iff)

lemma int_range_widen:
  assumes "inttype_ok T" and "int_range T x"
  shows "x < 0 \<Longrightarrow> int_range Int64 x" and "0 \<le> x \<Longrightarrow> int_range Uint64 x"
proof -
  have e: "(2 :: int) ^ (it_bits T - 1) \<le> 2 ^ 63" "(2 :: int) ^ it_bits T \<le> 2 ^ 64"
    using assms(1) power_increasing [of "it_bits T - 1" 63 "2 :: int"] power_increasing [of "it_bits T" 64 "2 :: int"]
    by (auto simp: inttype_ok_def)
  show "x < 0 \<Longrightarrow> int_range Int64 x" and "0 \<le> x \<Longrightarrow> int_range Uint64 x"
    using assms(2) e by (auto simp: int_range_def Int64_def Uint64_def split: if_splits)
qed

lemma inttype_ok_64 [simp]: "inttype_ok Int64" "inttype_ok Uint64"
  by (simp_all add: inttype_ok_def inttype_defs)

text \<open>The two conversion tests decide membership in the destination type.\<close>

lemma negative_test:
  assumes "inttype_ok T" and "n < 0"
  shows "(0 \<le> convert T n \<or> convert Int64 (convert T n) \<noteq> n) \<longleftrightarrow> \<not> int_range T n"
proof (cases "int_range T n")
  case True
  then have "convert T n = n" using assms(1) by (simp add: convert_eq_iff)
  moreover have "convert Int64 n = n" using int_range_widen(1) [OF assms(1) True assms(2)] by (simp add: convert_eq_iff)
  ultimately show ?thesis using True assms(2) by simp
next
  case False
  have "convert Int64 (convert T n) \<noteq> n" if "convert T n < 0"
  proof -
    have "convert Int64 (convert T n) = convert T n"
      using int_range_widen(1) [OF assms(1) convert_in_range [OF assms(1)] that] by (simp add: convert_eq_iff)
    with False show ?thesis using convert_eq_iff [OF assms(1), of n] by simp
  qed
  with False show ?thesis by auto
qed

lemma nonnegative_test:
  assumes "inttype_ok T" and "0 \<le> n" and "n < 2 ^ 64"
  shows "(convert T n < 0 \<or> convert Uint64 (convert T n) \<noteq> n) \<longleftrightarrow> \<not> int_range T n"
proof (cases "int_range T n")
  case True
  then have "convert T n = n" using assms(1) by (simp add: convert_eq_iff)
  moreover have "convert Uint64 n = n"
    unfolding convert_eq_iff [OF inttype_ok_64(2)] using assms by (simp add: int_range_def Uint64_def)
  ultimately show ?thesis using True assms(2) by simp
next
  case False
  have "convert Uint64 (convert T n) \<noteq> n" if "\<not> convert T n < 0"
  proof -
    have "convert Uint64 (convert T n) = convert T n"
      using int_range_widen(2) [OF assms(1) convert_in_range [OF assms(1)]] that by (simp add: convert_eq_iff)
    with False show ?thesis using convert_eq_iff [OF assms(1), of n] by simp
  qed
  with False show ?thesis by auto
qed

lemma hd_negative: "(bs :: bytes) \<noteq> [] \<Longrightarrow> (bs ! 0 AND 0x80 \<noteq> 0) \<longleftrightarrow> 128 \<le> unat (hd bs)"
  by (simp only: and_80_eq_0 not_less) (simp add: hd_conv_nth)

lemma be_int_negative: "bs \<noteq> [] \<Longrightarrow> be_int bs < 0 \<longleftrightarrow> 128 \<le> unat (hd bs)"
  using be_nat_less_int [of bs] by (auto simp: be_int_def)

text \<open>What the decoder accepts: the value of the contents, when it fits the destination.\<close>

definition integer_contents :: "bytes \<Rightarrow> bool" where
  "integer_contents bs \<longleftrightarrow> bs \<noteq> [] \<and> (length bs \<le> 8 \<or> (length bs = 9 \<and> hd bs = 0))"

lemma decodeInteger_eq:
  assumes T: "inttype_ok T" and len: "int (length bs) \<le> maxBytes"
  shows "decodeInteger T bs maxBytes =
     (if integer_contents bs \<and> int_range T (be_int bs) then Inr (be_int bs) else Inl ErrInvalidInteger)"
proof (cases "integer_contents bs")
  case False
  then have "bs = [] \<or> 9 < length bs \<or> (length bs = 9 \<and> hd bs \<noteq> 0)" by (auto simp: integer_contents_def)
  with False len show ?thesis by (auto simp: decodeInteger_def hd_conv_nth)
next
  case True
  then have ne: "bs \<noteq> []" and l9: "length bs \<le> 8 \<or> (length bs = 9 \<and> hd bs = 0)"
    by (auto simp: integer_contents_def)
  have b64: "be_nat bs < 2 ^ 64"
  proof (cases "length bs \<le> 8")
    case True
    then have "(256 :: nat) ^ length bs \<le> 256 ^ 8" by (intro power_increasing) auto
    with be_nat_less [of bs] show ?thesis by simp
  next
    case False
    with l9 obtain cs where "bs = 0 # cs" "length cs = 8" by (cases bs) auto
    with be_nat_less [of cs] show ?thesis by (simp add: be_nat_Cons)
  qed
  have bits: "decodeIntegerBits bs 0 = Inr (of_nat (be_nat bs))"
    using decodeIntegerBits_eq [of 0 bs] b64 by simp
  have shape: "\<not> (9 < length bs \<or> (length bs = 9 \<and> (bs ! 0 AND 0x80 \<noteq> 0 \<or> bs ! 0 \<noteq> 0)))"
    using l9 ne by (auto simp: hd_conv_nth)
  show ?thesis
  proof (cases "128 \<le> unat (hd bs)")
    case neg: True
    with l9 have l8: "length bs \<le> 8" by auto
    have acc: "sint (if length bs < 8 then of_nat (be_nat bs) OR push_bit (length bs * 8) (- 1)
        else (of_nat (be_nat bs) :: u64)) = be_int bs"
    proof -
      have "(of_nat (be_nat bs) :: u64) = word_of_int (int (be_nat bs) - 256 ^ 8)"
      proof -
        have "word_of_int (int (be_nat bs) - 256 ^ 8) = (word_of_int (int (be_nat bs)) :: u64)"
          unfolding word_of_int_eq_iff by (simp add: take_bit_eq_mod)
        then show ?thesis by simp
      qed
      then have "(if length bs < 8 then of_nat (be_nat bs) OR push_bit (length bs * 8) (- 1)
          else (of_nat (be_nat bs) :: u64)) = word_of_int (be_int bs)"
        using l8 neg ne sign_extend [of bs] by (auto simp: be_int_def le_less)
      with be_int_range [OF ne l8] show ?thesis by (simp only: sint_word_of_int)
    qed
    have "be_int bs < 0" using ne neg by (simp add: be_int_negative)
    then show ?thesis
      using ne len shape neg hd_negative [OF ne] True acc negative_test [OF T] convert_eq_iff [OF T]
      by (simp add: decodeInteger_def Let_def bits del: decodeIntegerBits.simps)
  next
    case nonneg: False
    have v: "uint (of_nat (be_nat bs) :: u64) = be_int bs"
      using b64 nonneg by (simp add: be_int_def uint_nat unat_of_nat)
    have "0 \<le> be_int bs" "be_int bs < 2 ^ 64"
      using nonneg b64 by (auto simp: be_int_def)
    then show ?thesis
      using ne len shape nonneg hd_negative [OF ne] True v nonnegative_test [OF T] convert_eq_iff [OF T]
      by (auto simp add: decodeInteger_def Let_def bits del: decodeIntegerBits.simps)
  qed
qed

lemma decodeInteger_limit:
  assumes "bs \<noteq> []" and "maxBytes < int (length bs)"
  shows "decodeInteger T bs maxBytes = Inl (LimitError ''integer bytes'' (length bs) (nat maxBytes))"
  using assms by (simp add: decodeInteger_def)

section \<open>What the encoder writes\<close>

lemma length_rawBytes [simp]: "length (rawBytes k n) = k"
  by (induction k arbitrary: n) auto

lemma be_nat_rawBytes: "int (be_nat (rawBytes k n)) = n mod 256 ^ k"
proof (induction k arbitrary: n)
  case 0
  show ?case by simp
next
  case (Suc k)
  have b: "uint (word_of_int n :: byte) = n mod 256"
    by (simp add: uint_word_of_int)
  have "int (be_nat (rawBytes (Suc k) n)) = int (be_nat (rawBytes k (n div 256))) * 256 + n mod 256"
    by (simp add: be_nat_snoc drop_bit_eq_div b)
  also have "\<dots> = n mod 256 ^ Suc k"
    by (simp add: Suc.IH zmod_zmult2_eq)
  finally show ?case .
qed

lemma be_int_rawBytes:
  assumes "- (2 ^ 63) \<le> v" and "v < 0"
  shows "be_int (rawBytes 8 v) = v"
proof -
  have m: "v mod 256 ^ 8 = v + 256 ^ 8"
  proof -
    have "v mod 256 ^ 8 = (v + 256 ^ 8) mod 256 ^ 8" by simp
    also have "\<dots> = v + 256 ^ 8" by (rule mod_pos_pos_trivial) (use assms in simp_all)
    finally show ?thesis .
  qed
  then have v: "int (be_nat (rawBytes 8 v)) = v + 256 ^ 8" by (simp only: be_nat_rawBytes)
  obtain c cs where bs: "rawBytes 8 v = c # cs" and cs: "length cs = 7"
    using length_rawBytes [of 8 v] by (cases "rawBytes 8 v") auto
  have "be_nat (rawBytes 8 v) = unat c * 256 ^ 7 + be_nat cs" using cs by (simp add: bs be_nat_Cons)
  moreover have "be_nat cs < 256 ^ 7" using be_nat_less [of cs] cs by simp
  moreover have "2 ^ 63 \<le> be_nat (rawBytes 8 v)" using v assms(1) by simp
  ultimately have "128 \<le> unat c" by simp
  with v cs show ?thesis by (simp add: be_int_def bs)
qed

definition minimal_integer :: "bytes \<Rightarrow> bool" where
  "minimal_integer bs =
     (case bs of [] \<Rightarrow> False | [a] \<Rightarrow> True
      | a # b # _ \<Rightarrow> \<not> (a = 0 \<and> unat b < 128) \<and> \<not> (a = 0xFF \<and> 128 \<le> unat b))"

lemma be_int_drop_FF:
  assumes "128 \<le> unat b"
  shows "be_int (0xFF # b # bs) = be_int (b # bs)"
  using assms by (simp add: be_int_def be_nat_Cons)

lemma be_int_trimSign: "be_int (trimSign bs) = be_int bs"
proof (induction bs rule: trimSign.induct)
  case (1 a b bs)
  then show ?case by (auto simp: be_int_drop_FF and_80_eq_0 not_less)
qed simp_all

lemma length_trimSign: "length (trimSign bs) \<le> length bs"
  by (induction bs rule: trimSign.induct) auto

lemma trimSign_minimal:
  "bs \<noteq> [] \<Longrightarrow> 128 \<le> unat (hd bs) \<Longrightarrow> minimal_integer (trimSign bs)"
proof (induction bs rule: trimSign.induct)
  case (1 a b bs)
  then show ?case by (auto simp: minimal_integer_def and_80_eq_0)
qed (auto simp: minimal_integer_def)

lemma unsignedBytes_facts:
  fixes n :: u64
  shows "be_nat (unsignedBytes n acc) = unat n * 256 ^ length acc + be_nat acc"
    and "unat n < 256 ^ Suc k \<Longrightarrow> length (unsignedBytes n acc) \<le> Suc k + length acc"
    and "unsignedBytes n acc \<noteq> []"
    and "hd (unsignedBytes n acc) = 0 \<Longrightarrow> n = 0"
    and "length acc < length (unsignedBytes n acc)"
proof (induction n acc arbitrary: k rule: unsignedBytes.induct)
  case (1 n acc)
  note step = unsignedBytes.simps [of n acc, unfolded Let_def]
  have d: "unat (drop_bit 8 n) = unat n div 256" by (simp add: unat_drop_bit)
  have z: "drop_bit 8 n = 0 \<longleftrightarrow> unat n < 256"
    by (simp only: word_unat_eq_iff d) (simp add: div_eq_0_iff)
  have b: "unat (ucast n :: byte) = unat n mod 256"
    by (simp add: unsigned_ucast_eq take_bit_eq_mod)
  {
    case 1
    show ?case
    proof (cases "unat n < 256")
      case True
      then show ?thesis by (simp add: step z be_nat_Cons b)
    next
      case False
      have "unat n * 256 ^ length acc = (unat n div 256 * 256 + unat n mod 256) * 256 ^ length acc"
        by (simp only: div_mult_mod_eq)
      then have "unat n * 256 ^ length acc = unat n div 256 * (256 * 256 ^ length acc) + unat n mod 256 * 256 ^ length acc"
        by (simp only: add_mult_distrib mult.assoc)
      with False "1.IH"(1) show ?thesis
        by (simp add: step z be_nat_Cons b d)
    qed
  next
    case 2
    show ?case
    proof (cases "unat n < 256")
      case True
      then show ?thesis by (simp add: step z)
    next
      case False
      then obtain j where j: "k = Suc j" using 2 by (cases k) auto
      have "unat (drop_bit 8 n) < 256 ^ Suc j"
        using 2 by (simp add: d j less_mult_imp_div_less mult.commute)
      from "1.IH"(2) [OF refl refl _ this] False show ?thesis by (simp add: step z j)
    qed
  next
    case 3
    show ?case using "1.IH"(3) by (auto simp: step)
  next
    case 4
    show ?case
    proof (cases "unat n < 256")
      case True
      with 4 have "(ucast n :: byte) = 0" by (simp add: step z)
      then have "unat n mod 256 = 0" using b by simp
      with True show ?thesis by (simp add: unat_eq_zero)
    next
      case False
      with 4 "1.IH"(4) [OF refl refl] have "drop_bit 8 n = 0" by (simp add: step z)
      with False z show ?thesis by simp
    qed
  next
    case 5
    show ?case using "1.IH"(5) [OF refl refl] by (auto simp: step dest: Suc_lessD)
  }
qed

lemma unsignedBytes_of_int:
  assumes "0 \<le> v" and "v < 2 ^ 64"
  defines "raw \<equiv> unsignedBytes (word_of_int v) []"
  shows "int (be_nat raw) = v" and "raw \<noteq> []" and "length raw \<le> 8" and "1 < length raw \<Longrightarrow> hd raw \<noteq> 0"
proof -
  let ?w = "word_of_int v :: u64"
  have w: "int (unat ?w) = v" using assms by (simp add: uint_word_of_int)
  show "int (be_nat raw) = v" using w by (simp add: raw_def unsignedBytes_facts(1))
  show "raw \<noteq> []" unfolding raw_def by (rule unsignedBytes_facts(3))
  have "unat ?w < 256 ^ Suc 7" using unat_u64_less [of ?w] by simp
  from unsignedBytes_facts(2) [OF this, of "[]"] show "length raw \<le> 8" by (simp add: raw_def)
  assume "1 < length raw"
  show "hd raw \<noteq> 0"
  proof
    assume "hd raw = 0"
    then have "?w = 0" unfolding raw_def by (rule unsignedBytes_facts(4))
    then have "raw = [0]" by (simp add: raw_def unsignedBytes.simps)
    with \<open>1 < length raw\<close> show False by simp
  qed
qed

lemma integerBytes_spec:
  assumes "- (2 ^ 63) \<le> v" and "v < 2 ^ 64"
  shows "be_int (integerBytes v) = v" and "integer_contents (integerBytes v)"
    and "minimal_integer (integerBytes v)"
proof -
  have "be_int (integerBytes v) = v \<and> integer_contents (integerBytes v) \<and> minimal_integer (integerBytes v)"
  proof (cases "v < 0")
    case True
    let ?raw = "rawBytes 8 v"
    have v: "be_int ?raw = v" using assms(1) True by (rule be_int_rawBytes)
    have ne: "?raw \<noteq> []" by (metis length_rawBytes list.size(3) zero_neq_numeral)
    then have "128 \<le> unat (hd ?raw)" using v True be_int_negative [OF ne] by simp
    then have "minimal_integer (trimSign ?raw)" using ne by (rule trimSign_minimal [rotated])
    moreover from this have "trimSign ?raw \<noteq> []" by (auto simp: minimal_integer_def)
    ultimately show ?thesis
      using True v length_trimSign [of ?raw] by (simp add: integerBytes_def be_int_trimSign integer_contents_def)
  next
    case False
    define raw where "raw = unsignedBytes (word_of_int v) []"
    have raw: "int (be_nat raw) = v" "raw \<noteq> []" "length raw \<le> 8" "1 < length raw \<Longrightarrow> hd raw \<noteq> 0"
      unfolding raw_def using unsignedBytes_of_int [of v] False assms(2) by auto
    then obtain c cs where cs: "raw = c # cs" by (cases raw) auto
    have code: "integerBytes v = (if c AND 0x80 \<noteq> 0 then 0 # raw else raw)"
      using False cs by (simp add: integerBytes_def raw_def [symmetric] Let_def)
    show ?thesis
    proof (cases "unat c < 128")
      case True
      then have "integerBytes v = raw" by (simp add: code and_80_eq_0)
      moreover have "minimal_integer raw"
        using True raw(4) by (auto simp: minimal_integer_def cs split: list.splits)
      ultimately show ?thesis
        using True raw by (auto simp: be_int_def integer_contents_def cs)
    next
      case False
      then have "integerBytes v = 0 # raw" by (simp add: code and_80_eq_0)
      moreover have "minimal_integer (0 # raw)" using False by (simp add: minimal_integer_def cs)
      ultimately show ?thesis
        using raw by (auto simp: be_int_def integer_contents_def be_nat_Cons)
    qed
  qed
  then show "be_int (integerBytes v) = v" and "integer_contents (integerBytes v)"
    and "minimal_integer (integerBytes v)"
    by blast+
qed

lemma int_range_bounds: "inttype_ok T \<Longrightarrow> int_range T v \<Longrightarrow> - (2 ^ 63) \<le> v \<and> v < 2 ^ 64"
  using int_range_widen [of T v] by (cases "v < 0") (auto simp: int_range_def inttype_defs)

lemma decodeInteger_integerBytes:
  assumes "inttype_ok T" and "int_range T v" and "int (length (integerBytes v)) \<le> maxBytes"
  shows "decodeInteger T (integerBytes v) maxBytes = Inr v"
  using assms int_range_bounds [OF assms(1,2)] integerBytes_spec [of v]
  by (simp add: decodeInteger_eq)

lemma length_integerBytes:
  assumes "- (2 ^ 63) \<le> v" and "v < 2 ^ 63"
  shows "length (integerBytes v) \<le> 8"
proof (rule ccontr)
  assume "\<not> length (integerBytes v) \<le> 8"
  moreover note integerBytes_spec [of v]
  ultimately have nine: "length (integerBytes v) = 9" "hd (integerBytes v) = 0"
    "minimal_integer (integerBytes v)" "be_int (integerBytes v) = v"
    using assms by (auto simp: integer_contents_def)
  then obtain b bs where bs: "integerBytes v = 0 # b # bs" "length bs = 7"
    by (cases "integerBytes v" rule: list.exhaust, simp, cases "tl (integerBytes v)") auto
  with nine(3) have "128 \<le> unat b" by (simp add: minimal_integer_def)
  then have "128 * 256 ^ 7 \<le> unat b * 256 ^ 7" by simp
  then have "2 ^ 63 \<le> be_nat (0 # b # bs)" using bs(2) by (simp add: be_nat_Cons)
  moreover have "v = int (be_nat (0 # b # bs))" using bs nine(4) by (simp add: be_int_def)
  ultimately show False using assms(2) by (simp del: of_nat_add of_nat_mult add: not_less)
qed

section \<open>Properties\<close>

text \<open>\<^verbatim>\<open>decodeInteger\<close> computes the two's complement value of the contents: within the octet limit it
  returns that value if it fits the destination type, and \<^verbatim>\<open>ErrInvalidInteger\<close> otherwise; no value is
  truncated, wrapped around or has its sign changed by the Go conversions.\<close>

theorem decodeInteger_correct:
  assumes "inttype_ok T" and "int (length bs) \<le> maxBytes"
  shows "decodeInteger T bs maxBytes =
     (if integer_contents bs \<and> int_range T (be_int bs) then Inr (be_int bs) else Inl ErrInvalidInteger)"
  using assms by (rule decodeInteger_eq)

theorem decodeInteger_correct_witness:
  "decodeInteger Int32 [0xFF, 0x7F] 8 = Inr (- 129) \<and> decodeInteger Int8 [0, 0x80] 8 = Inl ErrInvalidInteger"
proof -
  have "inttype_ok Int32" "inttype_ok Int8" by (simp_all add: inttype_ok_def inttype_defs)
  then show ?thesis
    using decodeInteger_correct [of Int32 "[0xFF, 0x7F]" 8] decodeInteger_correct [of Int8 "[0, 0x80]" 8]
    by (simp add: integer_contents_def int_range_def inttype_defs be_int_def be_nat_Cons be_nat_Nil)
qed

text \<open>(C24) Integer round trip: \<^verbatim>\<open>integerBytes\<close> writes the minimal contents of every value of a Go integer type, and
  \<^verbatim>\<open>decodeInteger\<close> at that type reads the value back.\<close>

theorem integer_roundtrip:
  assumes "inttype_ok T" and "int_range T v" and "int (length (integerBytes v)) \<le> maxBytes"
  shows "decodeInteger T (integerBytes v) maxBytes = Inr v \<and> minimal_integer (integerBytes v)"
  using assms decodeInteger_integerBytes integerBytes_spec(3) int_range_bounds by blast

theorem integer_roundtrip_witness: "decodeInteger Int64 (integerBytes (- 129)) 8 = Inr (- 129)"
proof -
  have "inttype_ok Int64" by (simp add: inttype_ok_def inttype_defs)
  moreover have "int_range Int64 (- 129)" by (simp add: int_range_def inttype_defs)
  moreover have "int (length (integerBytes (- 129))) \<le> 8" using length_integerBytes [of "- 129"] by simp
  ultimately show ?thesis using integer_roundtrip [of Int64 "- 129" 8] by blast
qed

end
