(* ===== verification/Ber_Packet.thy ===== *)
theory Ber_Packet
  imports Ber_Header Ber_Integer
begin

text \<open>
  BER encoding (\<^verbatim>\<open>src/ber/packet.go\<close>): a packet tree, the constructors of packets and envelopes, and
  the serializer \<^verbatim>\<open>AppendTo\<close> with the size computation it relies on.

  \<open>packet_octets\<close> specifies the serialization as identifier octets, length octets and contents;
  \<open>AppendTo_eq\<close> and \<open>encodedLength_eq\<close> show that the code's two passes (sizes, then bytes) agree with it.
\<close>

section \<open>Packets\<close>

datatype packet = Packet
  (p_identifier: ident)
  (p_value: bytes)
  (p_children: "packet list")
  (p_encoded: bool)
  (p_opaque: bool)

definition ber_Primitive :: "ident \<Rightarrow> bytes \<Rightarrow> packet" where
  "ber_Primitive tag v = Packet (tag\<lparr>id_constructed := False\<rparr>) v [] False False"

definition ber_WithContents :: "ident \<Rightarrow> bytes \<Rightarrow> packet" where
  "ber_WithContents tag v = Packet tag v [] False True"

definition ber_Encoded :: "bytes \<Rightarrow> packet" where
  "ber_Encoded v = Packet zero_identifier v [] True False"

definition ber_OctetString :: "bytes \<Rightarrow> packet" where
  "ber_OctetString v = ber_Primitive OctetStringIdentifier v"

definition integerPacket :: "ident \<Rightarrow> int \<Rightarrow> packet" where
  "integerPacket tag v = ber_Primitive tag (integerBytes v)"

definition ber_Integer :: "int \<Rightarrow> packet" where
  "ber_Integer v = integerPacket IntegerIdentifier v"

definition ber_IntegerWithIdentifier :: "ident \<Rightarrow> int \<Rightarrow> packet" where
  "ber_IntegerWithIdentifier tag v = integerPacket tag v"

definition ber_Enumerated :: "int \<Rightarrow> packet" where
  "ber_Enumerated v = integerPacket EnumeratedIdentifier v"

definition ber_Boolean :: "bool \<Rightarrow> packet" where
  "ber_Boolean v = ber_Primitive BooleanIdentifier [if v then 0xFF else 0]"

definition ber_Null :: packet where
  "ber_Null = ber_Primitive NullIdentifier []"

text \<open>An \<^verbatim>\<open>*Envelope\<close> is the constructed packet it holds; \<^verbatim>\<open>Add\<close> appends children in wire order and
  returns the envelope, \<^verbatim>\<open>BERPacket\<close> hands the packet out.\<close>

definition ber_Constructed :: "ident \<Rightarrow> packet" where
  "ber_Constructed tag = Packet (tag\<lparr>id_constructed := True\<rparr>) [] [] False False"

definition ber_Sequence :: packet where
  "ber_Sequence = ber_Constructed SequenceIdentifier"

definition ber_Set :: packet where
  "ber_Set = ber_Constructed SetIdentifier"

definition Envelope_Add :: "packet list \<Rightarrow> packet \<Rightarrow> packet" where
  "Envelope_Add children e =
     Packet (p_identifier e) (p_value e) (p_children e @ children) (p_encoded e) (p_opaque e)"

section \<open>Serialization\<close>

lemma size_child: "c \<in> set (p_children p) \<Longrightarrow> size c < size p"
  by (cases p) (auto dest: size_list_estimation' [where f = size])

function encodedLength :: "packet \<Rightarrow> nat" and contentLength :: "packet \<Rightarrow> nat" where
  "encodedLength p =
     (if p_encoded p then length (p_value p)
      else let n = contentLength p in identifierLength (p_identifier p) + lengthLength n + n)"
| "contentLength p =
     (if \<not> id_constructed (p_identifier p) \<or> p_opaque p then length (p_value p)
      else sum_list (map encodedLength (p_children p)))"
  by pat_completeness auto

termination
  by (relation "measure (case_sum (\<lambda>p. 2 * size p + 1) (\<lambda>p. 2 * size p))")
    (auto dest: size_child)

function AppendTo :: "packet \<Rightarrow> bytes \<Rightarrow> bytes" where
  "AppendTo p dst =
     (if p_encoded p then dst @ p_value p
      else let n = contentLength p;
               dst = appendLength (appendIdentifier dst (p_identifier p)) n
           in if \<not> id_constructed (p_identifier p) \<or> p_opaque p then dst @ p_value p
              else foldl (\<lambda>dst c. AppendTo c dst) dst (p_children p))"
  by pat_completeness auto
termination
  by (relation "measure (\<lambda>(p, dst). size p)") (auto dest: size_child)

definition Encode :: "packet \<Rightarrow> bytes" where
  "Encode p = AppendTo p []"

declare encodedLength.simps [simp del] contentLength.simps [simp del] AppendTo.simps [simp del]

section \<open>Specification\<close>

text \<open>One element: identifier octets, length octets, contents.\<close>

definition tlv :: "ident \<Rightarrow> bytes \<Rightarrow> bytes" where
  "tlv tag v = identifier_octets tag @ length_octets (length v) @ v"

function packet_octets :: "packet \<Rightarrow> bytes" where
  "packet_octets p =
     (if p_encoded p then p_value p
      else if \<not> id_constructed (p_identifier p) \<or> p_opaque p then tlv (p_identifier p) (p_value p)
      else tlv (p_identifier p) (concat (map packet_octets (p_children p))))"
  by pat_completeness auto
termination
  by (relation "measure size") (auto dest: size_child)

declare packet_octets.simps [simp del]

definition packet_contents :: "packet \<Rightarrow> bytes" where
  "packet_contents p =
     (if \<not> id_constructed (p_identifier p) \<or> p_opaque p then p_value p
      else concat (map packet_octets (p_children p)))"

lemma packet_octets_eq:
  "packet_octets p = (if p_encoded p then p_value p else tlv (p_identifier p) (packet_contents p))"
  by (subst packet_octets.simps) (simp add: packet_contents_def)

text \<open>A packet the serializer can write: valid identifiers, contents no longer than a Go \<^verbatim>\<open>int\<close> counts.\<close>

function packet_ok :: "packet \<Rightarrow> bool" where
  "packet_ok p =
     (if p_encoded p then True
      else Identifier_Valid (p_identifier p) \<and> length (packet_contents p) \<le> MaxInt
        \<and> (if \<not> id_constructed (p_identifier p) \<or> p_opaque p then True
           else list_all packet_ok (p_children p)))"
  by pat_completeness auto
termination
  by (relation "measure size") (auto dest: size_child)

declare packet_ok.simps [simp del]

lemma encodedLength_contentLength_eq:
  shows encodedLength_eq: "encodedLength p = length (packet_octets p)"
    and contentLength_eq: "contentLength p = length (packet_contents p)"
proof (induction p and p rule: encodedLength_contentLength.induct)
  case (1 p)
  then show ?case
    by (simp add: encodedLength.simps packet_octets_eq tlv_def identifierLength_eq lengthLength_eq Let_def)
next
  case (2 p)
  show ?case
  proof (cases "\<not> id_constructed (p_identifier p) \<or> p_opaque p")
    case True
    then show ?thesis by (auto simp: contentLength.simps packet_contents_def)
  next
    case False
    with 2 have "map encodedLength (p_children p) = map (\<lambda>c. length (packet_octets c)) (p_children p)"
      by simp
    then have "sum_list (map encodedLength (p_children p)) = (\<Sum>c\<leftarrow>p_children p. length (packet_octets c))"
      by (rule arg_cong)
    with False show ?thesis
      by (simp add: contentLength.simps packet_contents_def length_concat comp_def)
  qed
qed

lemma AppendTo_eq: "packet_ok p \<Longrightarrow> AppendTo p dst = dst @ packet_octets p"
proof (induction p dst rule: AppendTo.induct)
  case (1 p dst)
  show ?case
  proof (cases "p_encoded p")
    case True
    then show ?thesis by (simp add: AppendTo.simps packet_octets_eq)
  next
    case False
    with "1.prems" have tag: "Identifier_Valid (p_identifier p)" "contentLength p \<le> MaxInt"
      by (simp_all add: packet_ok.simps [of p] contentLength_eq)
    have hdr: "appendLength (appendIdentifier dst (p_identifier p)) (contentLength p)
        = dst @ identifier_octets (p_identifier p) @ length_octets (length (packet_contents p))"
      using tag by (simp add: appendIdentifier_eq appendLength_eq contentLength_eq)
    show ?thesis
    proof (cases "\<not> id_constructed (p_identifier p) \<or> p_opaque p")
      case True
      with False hdr show ?thesis
        by (auto simp: AppendTo.simps [of p] packet_octets_eq tlv_def packet_contents_def)
    next
      case constructed: False
      have fold: "foldl (\<lambda>dst c. AppendTo c dst) d cs = d @ concat (map packet_octets cs)"
        if "set cs \<subseteq> set (p_children p)" for cs d
        using that
      proof (induction cs arbitrary: d)
        case Nil
        show ?case by simp
      next
        case (Cons c cs)
        have "packet_ok c"
          using Cons.prems "1.prems" False constructed by (auto simp: packet_ok.simps [of p] list_all_iff)
        then have "AppendTo c d = d @ packet_octets c"
          using "1.IH" [OF False refl refl constructed] Cons.prems by auto
        with Cons show ?case by simp
      qed
      show ?thesis
        using False constructed hdr fold [of "p_children p"]
        by (simp add: AppendTo.simps [of p] packet_octets_eq tlv_def packet_contents_def)
    qed
  qed
qed

lemma Encode_eq: "packet_ok p \<Longrightarrow> Encode p = packet_octets p"
  by (simp add: Encode_def AppendTo_eq)

section \<open>Properties\<close>

text \<open>(C25) The serializer's two passes agree with the specification: for a packet tree with valid identifiers
  \<^verbatim>\<open>AppendTo\<close> leaves the destination's bytes alone and appends identifier, length and contents of every
  node in wire order, and the number of bytes appended is the size \<^verbatim>\<open>encodedLength\<close> announced.\<close>

theorem AppendTo_correct:
  assumes "packet_ok p"
  shows "AppendTo p dst = dst @ packet_octets p \<and> length (AppendTo p dst) = length dst + encodedLength p"
  using assms by (simp add: AppendTo_eq encodedLength_eq)

theorem AppendTo_correct_witness:
  "AppendTo (Envelope_Add [ber_Boolean True, ber_OctetString [1, 2]] ber_Sequence) [7]
     = [7] @ packet_octets (Envelope_Add [ber_Boolean True, ber_OctetString [1, 2]] ber_Sequence)"
proof -
  have "packet_ok (ber_Primitive tag v)" if "Identifier_Valid tag" "length v \<le> MaxInt" for tag v
    using that by (simp add: packet_ok.simps ber_Primitive_def packet_contents_def Identifier_Valid_def)
  then have "packet_ok (ber_Boolean True)" "packet_ok (ber_OctetString [1, 2])"
    by (simp_all add: ber_Boolean_def ber_OctetString_def Identifier_Valid_def universal_ids class_defs)
  moreover have "length (packet_octets (ber_Boolean True) @ packet_octets (ber_OctetString [1, 2])) \<le> MaxInt"
    by (simp add: packet_octets_eq packet_contents_def ber_Boolean_def ber_OctetString_def ber_Primitive_def
        tlv_def identifier_octets_def length_octets_def universal_ids class_defs)
  ultimately have "packet_ok (Envelope_Add [ber_Boolean True, ber_OctetString [1, 2]] ber_Sequence)"
    by (subst packet_ok.simps) (simp add: Envelope_Add_def ber_Sequence_def ber_Constructed_def
        packet_contents_def Identifier_Valid_def universal_ids class_defs)
  from AppendTo_correct [OF this, of "[7]"] show ?thesis by blast
qed

end
