(* ===== verification/Ber_Reader.thy ===== *)
theory Ber_Reader
  imports Ber_Packet
begin

text \<open>
  The bounded cursor over BER input (\<^verbatim>\<open>src/ber/reader.go\<close>).

  A \<^verbatim>\<open>*Reader\<close> is the record \<open>reader\<close> without its \<^verbatim>\<open>state\<close> pointer.  That pointer is the one cell all readers
  over one input share, the count of elements read so far; the model passes the count explicitly,
  so every operation takes a reader and the count and returns the result, the reader and the count.
  The slices \<^verbatim>\<open>Value\<close> and \<^verbatim>\<open>Raw\<close> of an element are the byte lists they view.
\<close>

section \<open>State\<close>

record element =
  el_Identifier :: ident
  el_Value :: bytes
  el_Raw :: bytes
  el_Offset :: nat

record reader =
  r_data :: bytes
  r_pos :: nat
  r_base :: nat
  r_depth :: nat
  r_limits :: limits

type_synonym 'a read_result = "(goerror + 'a) \<times> reader \<times> nat"

section \<open>Operations\<close>

definition NewReader :: "bytes \<Rightarrow> limits \<Rightarrow> goerror + reader" where
  "NewReader data lim =
     (case Limits_Validate lim of
        Some e \<Rightarrow> Inl e
      | None \<Rightarrow>
          if MaxFrameBytes lim < int (length data)
          then Inl (LimitError ''frame bytes'' (length data) (nat (MaxFrameBytes lim)))
          else Inr \<lparr>r_data = data, r_pos = 0, r_base = 0, r_depth = 0, r_limits = lim\<rparr>)"

definition Offset :: "reader \<Rightarrow> nat" where
  "Offset r = r_base r + r_pos r"

definition Remaining :: "reader \<Rightarrow> nat" where
  "Remaining r = length (r_data r) - r_pos r"

definition Empty :: "reader \<Rightarrow> bool" where
  "Empty r = (Remaining r = 0)"

definition RequireEmpty :: "reader \<Rightarrow> goerror option" where
  "RequireEmpty r = (if \<not> Empty r then Some (decodeError (Offset r) ErrTrailingData) else None)"

definition Reader_PeekIdentifier :: "reader \<Rightarrow> goerror + ident" where
  "Reader_PeekIdentifier r =
     (case decodeIdentifier (drop (r_pos r) (r_data r)) (MaxTagNumber (r_limits r)) of
        Inl e \<Rightarrow> Inl (decodeError (Offset r) e)
      | Inr (tag, _) \<Rightarrow> Inr tag)"

definition ReadElement :: "reader \<Rightarrow> nat \<Rightarrow> element read_result" where
  "ReadElement r n =
     (let start = r_pos r; absolute = r_base r + start
      in case decodeIdentifier (drop start (r_data r)) (MaxTagNumber (r_limits r)) of
           Inl e \<Rightarrow> (Inl (decodeError absolute e), r, n)
         | Inr (tag, idBytes) \<Rightarrow>
             (case decodeLength (drop (start + idBytes) (r_data r)) of
                Inl e \<Rightarrow> (Inl (decodeError (absolute + idBytes) e), r, n)
              | Inr (len, lengthBytes) \<Rightarrow>
                  let header = idBytes + lengthBytes
                  in if length (r_data r) - start - header < len
                     then (Inl (decodeError (absolute + header) ErrTruncated), r, n)
                     else let stop = start + header + len
                          in if int n = MaxElements (r_limits r)
                             then (Inl (decodeError absolute
                                     (LimitError ''elements'' (n + 1) (nat (MaxElements (r_limits r))))), r, n)
                             else (Inr \<lparr>el_Identifier = tag,
                                     el_Value = take (stop - (start + header)) (drop (start + header) (r_data r)),
                                     el_Raw = take (stop - start) (drop start (r_data r)),
                                     el_Offset = absolute\<rparr>,
                                   r\<lparr>r_pos := stop\<rparr>, n + 1)))"

text \<open>The child reader over the contents of an element, built in \<^verbatim>\<open>validateContents\<close> and \<^verbatim>\<open>Constructed\<close>.\<close>

definition contentsReader :: "reader \<Rightarrow> element \<Rightarrow> reader" where
  "contentsReader r e =
     \<lparr>r_data = el_Value e, r_pos = 0, r_base = el_Offset e + length (el_Raw e) - length (el_Value e),
      r_depth = r_depth r + 1, r_limits = r_limits r\<rparr>"

definition depthError :: "reader \<Rightarrow> element \<Rightarrow> goerror" where
  "depthError r e =
     decodeError (el_Offset e) (LimitError ''depth'' (r_depth r + 1) (nat (MaxDepth (r_limits r))))"

lemma ReadElement_progress:
  assumes "ReadElement r n = (Inr e, r', n')"
  shows "length (el_Value e) < Remaining r" and "Remaining r' < Remaining r"
proof -
  let ?rest = "drop (r_pos r) (r_data r)"
  from assms obtain tag i len l where
    d: "decodeIdentifier ?rest (MaxTagNumber (r_limits r)) = Inr (tag, i)"
      "decodeLength (drop i ?rest) = Inr (len, l)" "len \<le> length (r_data r) - r_pos r - (i + l)"
    and e: "length (el_Value e) \<le> len" "r' = r\<lparr>r_pos := r_pos r + (i + l) + len\<rparr>"
    by (auto simp: ReadElement_def Let_def add.commute split: sum.splits if_splits)
  from decodeIdentifier_canonical [OF d(1)] obtain rest1 where
    i: "?rest = identifier_octets tag @ rest1" "i = length (identifier_octets tag)"
    by auto
  from decodeLength_canonical [OF d(2)] obtain rest2 where
    l: "drop i ?rest = length_octets len @ rest2" "l = length (length_octets len)"
    by auto
  have "0 < l" using l(2) by (simp add: length_octets_def)
  moreover have "i + l \<le> length (r_data r) - r_pos r"
  proof -
    have "length ?rest = i + length (drop i ?rest)" using i by simp
    also have "length (drop i ?rest) = l + length rest2" using l by simp
    finally show ?thesis by simp
  qed
  ultimately show "length (el_Value e) < Remaining r" and "Remaining r' < Remaining r"
    using d(3) e by (auto simp: Remaining_def)
qed

lemma contentsReader_simps [simp]:
  "Remaining (contentsReader r e) = length (el_Value e)"
  "r_depth (contentsReader r e) = r_depth r + 1"
  "r_limits (contentsReader r e) = r_limits r"
  by (simp_all add: contentsReader_def Remaining_def)

function validateContents :: "reader \<Rightarrow> element \<Rightarrow> nat \<Rightarrow> goerror option \<times> nat"
  and validateLoop :: "reader \<Rightarrow> nat \<Rightarrow> goerror option \<times> nat" where
  "validateContents r e n =
     (if \<not> id_constructed (el_Identifier e) then (None, n)
      else if int (r_depth r) = MaxDepth (r_limits r) then (Some (depthError r e), n)
      else validateLoop (contentsReader r e) n)"
| "validateLoop child n =
     (if Empty child then (None, n)
      else case ReadElement child n of
          (Inl err, _, n') \<Rightarrow> (Some err, n')
        | (Inr nested, child', n') \<Rightarrow>
            (case validateContents child' nested n' of
               (Some err, n'') \<Rightarrow> (Some err, n'')
             | (None, n'') \<Rightarrow> validateLoop child' n''))"
  by pat_completeness auto
termination
  by (relation "measure (case_sum (\<lambda>(r, e, n). 2 * length (el_Value e) + 1) (\<lambda>(r, n). 2 * Remaining r))")
    (auto dest: ReadElement_progress ReadElement_progress [OF sym])

declare validateContents.simps [simp del] validateLoop.simps [simp del]

definition SkipElement :: "reader \<Rightarrow> nat \<Rightarrow> element read_result" where
  "SkipElement r n =
     (case ReadElement r n of
        (Inl err, r', n') \<Rightarrow> (Inl err, r', n')
      | (Inr e, r', n') \<Rightarrow>
          (case validateContents r' e n' of
             (Some err, n'') \<Rightarrow> (Inl err, r', n'')
           | (None, n'') \<Rightarrow> (Inr e, r', n'')))"

definition Reader_Primitive :: "ident \<Rightarrow> reader \<Rightarrow> nat \<Rightarrow> bytes read_result" where
  "Reader_Primitive tag r n =
     (case ReadElement r n of
        (Inl err, r', n') \<Rightarrow> (Inl err, r', n')
      | (Inr e, r', n') \<Rightarrow>
          if el_Identifier e \<noteq> tag
          then (if id_class (el_Identifier e) = id_class tag \<and> id_number (el_Identifier e) = id_number tag
                   \<and> id_constructed (el_Identifier e)
                then (Inl (decodeError (el_Offset e) (Wrapf ''%w: %s'' [AId tag] ErrPrimitiveRequired)), r, n)
                else (Inl (decodeError (el_Offset e)
                        (Wrapf ''%w: got %s, want %s'' [AId (el_Identifier e), AId tag] ErrUnexpectedIdentifier)), r, n))
          else if id_constructed (el_Identifier e)
          then (Inl (decodeError (el_Offset e) (Wrapf ''%w: %s'' [AId tag] ErrPrimitiveRequired)), r, n)
          else (Inr (el_Value e), r', n'))"

definition Reader_Constructed :: "ident \<Rightarrow> reader \<Rightarrow> nat \<Rightarrow> reader read_result" where
  "Reader_Constructed tag r n =
     (case ReadElement r n of
        (Inl err, r', n') \<Rightarrow> (Inl err, r', n')
      | (Inr e, r', n') \<Rightarrow>
          if el_Identifier e \<noteq> tag
          then (if id_class (el_Identifier e) = id_class tag \<and> id_number (el_Identifier e) = id_number tag
                   \<and> \<not> id_constructed (el_Identifier e)
                then (Inl (decodeError (el_Offset e) (Wrapf ''%w: %s'' [AId tag] ErrConstructedRequired)), r, n)
                else (Inl (decodeError (el_Offset e)
                        (Wrapf ''%w: got %s, want %s'' [AId (el_Identifier e), AId tag] ErrUnexpectedIdentifier)), r, n))
          else if \<not> id_constructed (el_Identifier e)
          then (Inl (decodeError (el_Offset e) (Wrapf ''%w: %s'' [AId tag] ErrConstructedRequired)), r, n)
          else if int (r_depth r) = MaxDepth (r_limits r) then (Inl (depthError r e), r, n)
          else (Inr (contentsReader r e), r', n'))"

text \<open>The contents a BOOLEAN may have: one octet, 00 or FF.\<close>

definition booleanContents :: "bytes \<Rightarrow> bool" where
  "booleanContents v \<longleftrightarrow> length v = 1 \<and> (v ! 0 = 0 \<or> v ! 0 = 0xFF)"

definition Reader_Boolean :: "reader \<Rightarrow> nat \<Rightarrow> bool read_result" where
  "Reader_Boolean r n =
     (case Reader_Primitive BooleanIdentifier r n of
        (Inl err, r', n') \<Rightarrow> (Inl err, r', n')
      | (Inr v, r', n') \<Rightarrow>
          if \<not> booleanContents v then (Inl (decodeError (r_base r + r_pos r) ErrInvalidBoolean), r, n)
          else (Inr (v ! 0 = 0xFF), r', n'))"

definition reader_integer :: "inttype \<Rightarrow> ident \<Rightarrow> reader \<Rightarrow> nat \<Rightarrow> int read_result" where
  "reader_integer T tag r n =
     (case Reader_Primitive tag r n of
        (Inl err, r', n') \<Rightarrow> (Inl err, r', n')
      | (Inr v, r', n') \<Rightarrow>
          (case decodeInteger T v (MaxIntegerBytes (r_limits r)) of
             Inl err \<Rightarrow> (Inl (decodeError (r_base r + r_pos r) err), r, n)
           | Inr x \<Rightarrow> (Inr x, r', n')))"

definition Reader_Integer :: "reader \<Rightarrow> nat \<Rightarrow> int read_result" where
  "Reader_Integer = reader_integer Int64 IntegerIdentifier"

definition Reader_IntegerWithIdentifier :: "ident \<Rightarrow> reader \<Rightarrow> nat \<Rightarrow> int read_result" where
  "Reader_IntegerWithIdentifier tag = reader_integer Int64 tag"

definition Reader_Enumerated :: "reader \<Rightarrow> nat \<Rightarrow> int read_result" where
  "Reader_Enumerated = reader_integer Int64 EnumeratedIdentifier"

definition Reader_OctetString :: "reader \<Rightarrow> nat \<Rightarrow> bytes read_result" where
  "Reader_OctetString = Reader_Primitive OctetStringIdentifier"

definition Reader_Null :: "reader \<Rightarrow> nat \<Rightarrow> unit read_result" where
  "Reader_Null r n =
     (case Reader_Primitive NullIdentifier r n of
        (Inl err, r', n') \<Rightarrow> (Inl err, r', n')
      | (Inr v, r', n') \<Rightarrow>
          if v \<noteq> [] then (Inl (decodeError (r_base r + r_pos r) ErrInvalidNull), r, n)
          else (Inr (), r', n'))"

definition Reader_Sequence :: "reader \<Rightarrow> nat \<Rightarrow> reader read_result" where
  "Reader_Sequence = Reader_Constructed SequenceIdentifier"

definition Reader_Set :: "reader \<Rightarrow> nat \<Rightarrow> reader read_result" where
  "Reader_Set = Reader_Constructed SetIdentifier"

definition DecodeElement :: "bytes \<Rightarrow> limits \<Rightarrow> goerror + element" where
  "DecodeElement data lim =
     (case NewReader data lim of
        Inl err \<Rightarrow> Inl err
      | Inr r \<Rightarrow>
          (case ReadElement r 0 of
             (Inl err, _, _) \<Rightarrow> Inl err
           | (Inr e, r', _) \<Rightarrow> (case RequireEmpty r' of Some err \<Rightarrow> Inl err | None \<Rightarrow> Inr e)))"

section \<open>The unread input\<close>

definition unread :: "reader \<Rightarrow> bytes" where
  "unread r = drop (r_pos r) (r_data r)"

definition advance :: "nat \<Rightarrow> reader \<Rightarrow> reader" where
  "advance k r = r\<lparr>r_pos := r_pos r + k\<rparr>"

lemma advance_simps [simp]:
  "r_data (advance k r) = r_data r" "r_base (advance k r) = r_base r"
  "r_depth (advance k r) = r_depth r" "r_limits (advance k r) = r_limits r"
  "r_pos (advance k r) = r_pos r + k"
  "unread (advance k r) = drop k (unread r)"
  "Offset (advance k r) = Offset r + k"
  "advance j (advance k r) = advance (k + j) r"
  "advance 0 r = r"
  by (simp_all add: advance_def unread_def Offset_def add.commute add.left_commute)

lemma Remaining_unread: "Remaining r = length (unread r)"
  by (simp add: Remaining_def unread_def)

lemma Empty_unread: "Empty r \<longleftrightarrow> unread r = []"
  by (simp add: Empty_def Remaining_unread)

lemma unread_contentsReader [simp]: "unread (contentsReader r e) = el_Value e"
  by (simp add: contentsReader_def unread_def)

text \<open>An identifier the reader's limits admit.  Numbers below 31 never meet the tag limit.\<close>

definition tag_ok :: "limits \<Rightarrow> ident \<Rightarrow> bool" where
  "tag_ok lim tag \<longleftrightarrow> Identifier_Valid tag \<and> unat (id_number tag) \<le> max 30 (unat (MaxTagNumber lim))"

definition element_of :: "reader \<Rightarrow> ident \<Rightarrow> bytes \<Rightarrow> element" where
  "element_of r tag v = \<lparr>el_Identifier = tag, el_Value = v, el_Raw = tlv tag v, el_Offset = Offset r\<rparr>"

lemma length_tlv: "length (tlv tag v) = length (identifier_octets tag) + length (length_octets (length v)) + length v"
  by (simp add: tlv_def)

lemma ReadElement_tlv:
  assumes "unread r = tlv tag v @ ts" and "tag_ok (r_limits r) tag" and "length v \<le> MaxInt"
  shows "ReadElement r n =
     (if int n = MaxElements (r_limits r)
      then (Inl (decodeError (Offset r) (LimitError ''elements'' (n + 1) (nat (MaxElements (r_limits r))))), r, n)
      else (Inr (element_of r tag v), advance (length (tlv tag v)) r, n + 1))"
proof -
  let ?i = "length (identifier_octets tag)" and ?l = "length (length_octets (length v))"
  have d: "drop (r_pos r) (r_data r) = identifier_octets tag @ length_octets (length v) @ v @ ts"
    using assms(1) by (simp add: unread_def tlv_def)
  have id: "decodeIdentifier (drop (r_pos r) (r_data r)) (MaxTagNumber (r_limits r)) = Inr (tag, ?i)"
    using assms(2) unfolding d by (intro decodeIdentifier_octets) (auto simp: tag_ok_def)
  have d2: "drop (r_pos r + ?i) (r_data r) = length_octets (length v) @ v @ ts"
    using d by (metis append_eq_conv_conj drop_drop add.commute)
  have d3: "drop (r_pos r + ?i + ?l) (r_data r) = v @ ts"
    using d2 by (metis append_eq_conv_conj drop_drop add.commute)
  have len: "decodeLength (drop (r_pos r + ?i) (r_data r)) = Inr (length v, ?l)"
    using assms(3) unfolding d2 by (rule decodeLength_octets)
  have "length (drop (r_pos r) (r_data r)) = ?i + ?l + length v + length ts" unfolding d by simp
  then have fit: "\<not> length (r_data r) - r_pos r - (?i + ?l) < length v" by simp
  have raw: "take (?i + ?l + length v) (drop (r_pos r) (r_data r)) = tlv tag v"
    unfolding d tlv_def by simp
  have vs: "take (length v) (drop (r_pos r + (?i + ?l)) (r_data r)) = v"
    using d3 by (simp add: add.assoc)
  show ?thesis
    using fit raw vs
    by (simp add: ReadElement_def Let_def id len element_of_def advance_def Offset_def length_tlv
        add.assoc del: One_nat_def)
qed

lemma ReadElement_inv:
  assumes "ReadElement r n = (Inr e, r', n')"
  shows "\<exists>ts. unread r = el_Raw e @ ts \<and> e = element_of r (el_Identifier e) (el_Value e)
     \<and> tag_ok (r_limits r) (el_Identifier e) \<and> length (el_Value e) \<le> MaxInt
     \<and> int n \<noteq> MaxElements (r_limits r) \<and> r' = advance (length (el_Raw e)) r \<and> n' = n + 1"
proof -
  let ?unread = "drop (r_pos r) (r_data r)"
  from assms obtain tag i len l where
    d: "decodeIdentifier ?unread (MaxTagNumber (r_limits r)) = Inr (tag, i)"
      "decodeLength (drop (r_pos r + i) (r_data r)) = Inr (len, l)"
      "len \<le> length (r_data r) - r_pos r - (i + l)"
    by (auto simp: ReadElement_def Let_def split: sum.splits if_splits)
  from decodeIdentifier_canonical [OF d(1)] obtain rest1 where
    i: "?unread = identifier_octets tag @ rest1" "i = length (identifier_octets tag)" "tag_ok (r_limits r) tag"
    by (auto simp: tag_ok_def)
  from decodeLength_canonical [OF d(2)] obtain rest2 where
    l: "drop (r_pos r + i) (r_data r) = length_octets len @ rest2" "l = length (length_octets len)" "len \<le> MaxInt"
    by auto
  have r1: "rest1 = length_octets len @ rest2"
    using i(1,2) l(1) by (metis append_eq_conv_conj drop_drop add.commute)
  have "length ?unread = i + l + length rest2" using i r1 l(2) by simp
  then have "len \<le> length rest2" using d(3) by simp
  then have "unread r = tlv tag (take len rest2) @ drop len rest2" and lv: "length (take len rest2) = len"
    using i r1 by (simp_all add: unread_def tlv_def)
  from ReadElement_tlv [OF this(1) i(3), of n] assms l(3) lv show ?thesis
    using \<open>unread r = tlv tag (take len rest2) @ drop len rest2\<close> i(3)
    by (auto simp: element_of_def split: if_splits)
qed

section \<open>Properties\<close>

text \<open>(C26) \<^verbatim>\<open>ReadElement\<close> succeeds exactly when the unread input starts with one complete element within the tag
  limit and the element count is below its limit; it then returns that element (its value, its raw bytes
  and its absolute offset), moves past it and counts one.  Nothing beyond the cursor's own input is read.\<close>

theorem ReadElement_iff:
  "ReadElement r n = (Inr e, r', n') \<longleftrightarrow>
     (\<exists>tag v ts. unread r = tlv tag v @ ts \<and> tag_ok (r_limits r) tag \<and> length v \<le> MaxInt
        \<and> int n \<noteq> MaxElements (r_limits r) \<and> e = element_of r tag v
        \<and> r' = advance (length (tlv tag v)) r \<and> n' = n + 1)"
proof
  assume "ReadElement r n = (Inr e, r', n')"
  from ReadElement_inv [OF this] show "\<exists>tag v ts. unread r = tlv tag v @ ts \<and> tag_ok (r_limits r) tag
      \<and> length v \<le> MaxInt \<and> int n \<noteq> MaxElements (r_limits r) \<and> e = element_of r tag v
      \<and> r' = advance (length (tlv tag v)) r \<and> n' = n + 1"
    by (metis element.select_convs(3) element_of_def)
qed (auto simp: ReadElement_tlv)

lemma ReadElement_Inl: "ReadElement r n = (Inl err, r', n') \<Longrightarrow> r' = r \<and> n' = n"
  by (auto simp: ReadElement_def Let_def split: sum.splits if_splits prod.splits)

lemma Reader_Primitive_Inl: "Reader_Primitive tag r n = (Inl err, r', n') \<Longrightarrow> r' = r \<and> n' = n"
  by (auto simp: Reader_Primitive_def split: sum.splits if_splits prod.splits dest: ReadElement_Inl)

lemma Reader_Constructed_Inl: "Reader_Constructed tag r n = (Inl err, r', n') \<Longrightarrow> r' = r \<and> n' = n"
  by (auto simp: Reader_Constructed_def split: sum.splits if_splits prod.splits dest: ReadElement_Inl)

lemma Reader_Boolean_Inl: "Reader_Boolean r n = (Inl err, r', n') \<Longrightarrow> r' = r \<and> n' = n"
  by (auto simp: Reader_Boolean_def split: sum.splits if_splits prod.splits dest: Reader_Primitive_Inl)

lemma reader_integer_Inl: "reader_integer T tag r n = (Inl err, r', n') \<Longrightarrow> r' = r \<and> n' = n"
  by (auto simp: reader_integer_def split: sum.splits if_splits prod.splits dest: Reader_Primitive_Inl)

lemma Reader_Null_Inl: "Reader_Null r n = (Inl err, r', n') \<Longrightarrow> r' = r \<and> n' = n"
  by (auto simp: Reader_Null_def split: sum.splits if_splits prod.splits dest: Reader_Primitive_Inl)

text \<open>A typed read that fails consumes nothing: position and element count are those before the call, so
  the caller may try another alternative at the same place.\<close>

theorem typed_read_failure_restores:
  "(Reader_Primitive tag r n = (Inl e1, r1, n1) \<longrightarrow> r1 = r \<and> n1 = n)
   \<and> (Reader_Constructed tag r n = (Inl e2, r2, n2) \<longrightarrow> r2 = r \<and> n2 = n)
   \<and> (Reader_Boolean r n = (Inl e3, r3, n3) \<longrightarrow> r3 = r \<and> n3 = n)
   \<and> (reader_integer T tag r n = (Inl e4, r4, n4) \<longrightarrow> r4 = r \<and> n4 = n)
   \<and> (Reader_Null r n = (Inl e5, r5, n5) \<longrightarrow> r5 = r \<and> n5 = n)"
  by (blast dest: Reader_Primitive_Inl Reader_Constructed_Inl Reader_Boolean_Inl reader_integer_Inl Reader_Null_Inl)

theorem typed_read_failure_restores_witness:
  "let r = \<lparr>r_data = [4, 0], r_pos = 0, r_base = 0, r_depth = 0, r_limits = DefaultLimits\<rparr>
   in \<exists>e. Reader_Boolean r 3 = (Inl e, r, 3)"
proof -
  let ?r = "\<lparr>r_data = [4, 0], r_pos = 0, r_base = 0, r_depth = 0, r_limits = DefaultLimits\<rparr>"
  have "isl (fst (Reader_Boolean ?r 3))" by code_simp
  then obtain e r' n' where f: "Reader_Boolean ?r 3 = (Inl e, r', n')" by (metis isl_def prod.collapse)
  moreover have "r' = ?r \<and> n' = 3"
    using typed_read_failure_restores [of BooleanIdentifier ?r 3 e r' n' e r' n' e r' n' Int8 e r' n' e r' n'] f
    by (simp only: simp_thms)
  ultimately show ?thesis unfolding Let_def by (intro exI [of _ e]) (simp only:)
qed

end
