(* ===== verification/Ber_Tree.thy ===== *)
theory Ber_Tree
  imports Ber_Reader
begin

text \<open>
  What \<^verbatim>\<open>SkipElement\<close> accepts.  A plain packet tree has neither pre-encoded nor opaque nodes; \<open>nodes\<close> counts
  its elements and \<open>height\<close> its nesting of constructed elements.  The schema-free validator of
  \<^verbatim>\<open>src/ber/reader.go\<close> succeeds exactly on the serializations of plain trees that fit the element and depth
  limits, and it charges the element count by \<open>nodes\<close>.
\<close>

section \<open>Plain trees\<close>

function tree_ok :: "limits \<Rightarrow> packet \<Rightarrow> bool" where
  "tree_ok lim p =
     (\<not> p_encoded p \<and> \<not> p_opaque p \<and> tag_ok lim (p_identifier p) \<and> length (packet_contents p) \<le> MaxInt
      \<and> (if id_constructed (p_identifier p) then p_value p = [] \<and> list_all (tree_ok lim) (p_children p)
         else p_children p = []))"
  by pat_completeness auto
termination
  by (relation "measure (\<lambda>(lim, p). size p)") (auto dest: size_child)

function nodes :: "packet \<Rightarrow> nat" where
  "nodes p = 1 + sum_list (map nodes (p_children p))"
  by pat_completeness auto
termination
  by (relation "measure size") (auto dest: size_child)

function height :: "packet \<Rightarrow> nat" where
  "height p = (if id_constructed (p_identifier p) then 1 + fold max (map height (p_children p)) 0 else 0)"
  by pat_completeness auto
termination
  by (relation "measure size") (auto dest: size_child)

declare tree_ok.simps [simp del] nodes.simps [simp del] height.simps [simp del]

definition forest_height :: "packet list \<Rightarrow> nat" where
  "forest_height ps = fold max (map height ps) 0"

definition forest_nodes :: "packet list \<Rightarrow> nat" where
  "forest_nodes ps = sum_list (map nodes ps)"

definition forest_octets :: "packet list \<Rightarrow> bytes" where
  "forest_octets ps = concat (map packet_octets ps)"

lemma fold_max_le: "fold max xs (a :: nat) \<le> b \<longleftrightarrow> a \<le> b \<and> (\<forall>x \<in> set xs. x \<le> b)"
  by (induction xs arbitrary: a) auto

lemma forest_height_le: "forest_height ps \<le> b \<longleftrightarrow> (\<forall>p \<in> set ps. height p \<le> b)"
  by (simp add: forest_height_def fold_max_le)

lemma forest_simps [simp]:
  "forest_nodes [] = 0" "forest_nodes (p # ps) = nodes p + forest_nodes ps"
  "forest_octets [] = []" "forest_octets (p # ps) = packet_octets p @ forest_octets ps"
  by (simp_all add: forest_nodes_def forest_octets_def)

lemma tree_octets:
  assumes "tree_ok lim p"
  shows "packet_octets p = tlv (p_identifier p) (packet_contents p)"
    and "id_constructed (p_identifier p) \<Longrightarrow> packet_contents p = forest_octets (p_children p)"
  using assms by (simp_all add: tree_ok.simps [of lim p] packet_octets_eq packet_contents_def forest_octets_def)

lemma packet_octets_not_Nil: "tree_ok lim p \<Longrightarrow> packet_octets p \<noteq> []"
  by (simp add: tree_octets(1) tlv_def length_octets_def)

section \<open>Completeness\<close>

lemma validateLoop_Nil: "unread r = [] \<Longrightarrow> validateLoop r n = (None, n)"
  by (simp add: validateLoop.simps Empty_unread)

lemma validate_complete:
  shows "tree_ok lim p \<Longrightarrow> r_limits r = lim \<Longrightarrow> el_Identifier e = p_identifier p \<Longrightarrow>
      el_Value e = packet_contents p \<Longrightarrow> int (r_depth r + height p) \<le> MaxDepth lim \<Longrightarrow>
      int (n + nodes p) \<le> MaxElements lim + 1 \<Longrightarrow>
      validateContents r e n = (None, n + nodes p - 1)"
proof (induction "size p" arbitrary: p r e n rule: less_induct)
  case less
  note np = nodes.simps [of p] and hp = height.simps [of p]
  show ?case
  proof (cases "id_constructed (p_identifier p)")
    case False
    with less.prems have "nodes p = 1" by (simp add: np tree_ok.simps [of lim p])
    with False less.prems show ?thesis by (simp add: validateContents.simps)
  next
    case True
    have loop: "validateLoop child m = (None, m + forest_nodes ps)"
      if "set ps \<subseteq> set (p_children p)" "unread child = forest_octets ps" "r_limits child = lim"
        "r_depth child = r_depth r + 1" "int (m + forest_nodes ps) \<le> MaxElements lim" for ps child m
      using that
    proof (induction ps arbitrary: child m)
      case Nil
      then show ?case by (simp add: validateLoop_Nil)
    next
      case (Cons q qs)
      have q: "q \<in> set (p_children p)" using Cons.prems(1) by simp
      then have tq: "tree_ok lim q" using less.prems(1) True by (auto simp: tree_ok.simps [of lim p] list_all_iff)
      have un: "unread child = tlv (p_identifier q) (packet_contents q) @ forest_octets qs"
        using Cons.prems(2) by (simp add: tree_octets(1) [OF tq])
      have nq: "1 \<le> nodes q" by (simp add: nodes.simps [of q])
      let ?child' = "advance (length (tlv (p_identifier q) (packet_contents q))) child"
      have read: "ReadElement child m = (Inr (element_of child (p_identifier q) (packet_contents q)), ?child', m + 1)"
        using tq Cons.prems(3,5) nq
        by (subst ReadElement_tlv [OF un]) (auto simp: tree_ok.simps [of lim q])
      have hq: "1 + height q \<le> height p"
        using q True forest_height_le [of "p_children p" "forest_height (p_children p)"]
        by (auto simp: hp forest_height_def)
      have vq: "validateContents ?child' (element_of child (p_identifier q) (packet_contents q)) (m + 1)
          = (None, m + 1 + nodes q - 1)"
      proof (rule less.hyps [OF size_child [OF q] tq])
        show "int (r_depth ?child' + height q) \<le> MaxDepth lim"
          using hq Cons.prems(4) less.prems(5) by simp
        show "int (m + 1 + nodes q) \<le> MaxElements lim + 1"
          using Cons.prems(5) by simp
      qed (use Cons.prems(3) in \<open>simp_all add: element_of_def\<close>)
      have "validateLoop ?child' (m + nodes q) = (None, m + nodes q + forest_nodes qs)"
        using Cons.prems un by (intro Cons.IH) auto
      then show ?case
        using un read vq by (simp add: validateLoop.simps [of child m] Empty_unread tlv_def length_octets_def)
    qed
    have "1 \<le> height p" using True by (simp add: hp)
    then have "int (r_depth r) \<noteq> MaxDepth (r_limits r)" using less.prems by auto
    moreover have "nodes p = 1 + forest_nodes (p_children p)" by (simp add: np forest_nodes_def)
    moreover have "validateLoop (contentsReader r e) n = (None, n + forest_nodes (p_children p))"
      by (rule loop) (use less.prems True calculation(2) in \<open>auto simp: tree_octets(2)\<close>)
    ultimately show ?thesis
      using True less.prems by (simp add: validateContents.simps)
  qed
qed

section \<open>Soundness\<close>

lemma forest_height_Cons: "forest_height (p # ps) = max (height p) (forest_height ps)"
proof -
  have "fold max xs (max a b) = max a (fold max xs b)" for xs and a b :: nat
    by (induction xs arbitrary: a b) (auto simp: max.left_commute)
  from this [of "map height ps" "height p" 0] show ?thesis by (simp add: forest_height_def)
qed

text \<open>The plain tree of an element whose contents are a known forest, or a value.\<close>

lemma tree_of_primitive:
  assumes "\<not> id_constructed tag" "tag_ok lim tag" "length v \<le> MaxInt"
  defines "p \<equiv> Packet tag v [] False False"
  shows "tree_ok lim p" "p_identifier p = tag" "packet_contents p = v" "nodes p = 1" "height p = 0"
  using assms by (simp_all add: p_def tree_ok.simps [of _ "Packet tag v [] False False"] packet_contents_def
      nodes.simps [of "Packet tag v [] False False"] height.simps [of "Packet tag v [] False False"])

lemma tree_of_constructed:
  assumes "id_constructed tag" "tag_ok lim tag" "length (forest_octets ps) \<le> MaxInt" "list_all (tree_ok lim) ps"
  defines "p \<equiv> Packet tag [] ps False False"
  shows "tree_ok lim p" "p_identifier p = tag" "packet_contents p = forest_octets ps"
    "nodes p = 1 + forest_nodes ps" "height p = 1 + forest_height ps"
  using assms by (simp_all add: p_def tree_ok.simps [of _ "Packet tag [] ps False False"] packet_contents_def
      forest_octets_def forest_nodes_def forest_height_def
      nodes.simps [of "Packet tag [] ps False False"] height.simps [of "Packet tag [] ps False False"])

lemma validate_sound:
  shows "validateContents r e n = (None, n') \<Longrightarrow> tag_ok (r_limits r) (el_Identifier e) \<Longrightarrow>
      length (el_Value e) \<le> MaxInt \<Longrightarrow>
      \<exists>p. tree_ok (r_limits r) p \<and> p_identifier p = el_Identifier e \<and> packet_contents p = el_Value e
        \<and> n' + 1 = n + nodes p
        \<and> (int (r_depth r) \<le> MaxDepth (r_limits r) \<longrightarrow> int (r_depth r + height p) \<le> MaxDepth (r_limits r))
        \<and> (int n \<le> MaxElements (r_limits r) \<longrightarrow> int n' \<le> MaxElements (r_limits r))"
    and "validateLoop child n = (None, n') \<Longrightarrow> length (unread child) \<le> MaxInt \<Longrightarrow>
      \<exists>ps. list_all (tree_ok (r_limits child)) ps \<and> unread child = forest_octets ps
        \<and> n' = n + forest_nodes ps
        \<and> (int (r_depth child) \<le> MaxDepth (r_limits child) \<longrightarrow>
             int (r_depth child + forest_height ps) \<le> MaxDepth (r_limits child))
        \<and> (int n \<le> MaxElements (r_limits child) \<longrightarrow> int n' \<le> MaxElements (r_limits child))"
proof (induction r e n and child n arbitrary: n' and n' rule: validateContents_validateLoop.induct)
  case (1 r e n)
  show ?case
  proof (cases "id_constructed (el_Identifier e)")
    case False
    with "1.prems" have "n' = n" by (simp add: validateContents.simps)
    with tree_of_primitive [OF False "1.prems"(2,3)] show ?thesis
      by (intro exI [of _ "Packet (el_Identifier e) (el_Value e) [] False False"]) simp
  next
    case True
    with "1.prems"(1) have d: "int (r_depth r) \<noteq> MaxDepth (r_limits r)"
      and loop: "validateLoop (contentsReader r e) n = (None, n')"
      by (auto simp: validateContents.simps split: if_splits)
    from "1.IH" [OF _ d loop] True "1.prems"(3) obtain ps where
      ps: "list_all (tree_ok (r_limits r)) ps" "el_Value e = forest_octets ps" "n' = n + forest_nodes ps"
        "int (r_depth r + 1) \<le> MaxDepth (r_limits r) \<Longrightarrow>
           int (r_depth r + 1 + forest_height ps) \<le> MaxDepth (r_limits r)"
        "int n \<le> MaxElements (r_limits r) \<Longrightarrow> int n' \<le> MaxElements (r_limits r)"
      by auto
    have len: "length (forest_octets ps) \<le> MaxInt" using ps(2) "1.prems"(3) by simp
    note t = tree_of_constructed [OF True "1.prems"(2) len ps(1)]
    have "int (r_depth r + height (Packet (el_Identifier e) [] ps False False)) \<le> MaxDepth (r_limits r)"
      if "int (r_depth r) \<le> MaxDepth (r_limits r)"
      using ps(4) that d t(5) by simp
    with t ps(2,3,5) show ?thesis
      by (intro exI [of _ "Packet (el_Identifier e) [] ps False False"]) simp
  qed
next
  case (2 child n)
  show ?case
  proof (cases "Empty child")
    case True
    with "2.prems" show ?thesis
      by (intro exI [of _ "[]"]) (simp add: validateLoop.simps [of child n] Empty_unread forest_height_def)
  next
    case False
    with "2.prems"(1) obtain nested child' n1 n2 where
      read: "ReadElement child n = (Inr nested, child', n1)"
      and vc: "validateContents child' nested n1 = (None, n2)"
      and vl: "validateLoop child' n2 = (None, n')"
      by (auto simp: validateLoop.simps [of child n] split: prod.splits sum.splits option.splits)
    from ReadElement_inv [OF read] obtain ts where
      inv: "unread child = el_Raw nested @ ts" "nested = element_of child (el_Identifier nested) (el_Value nested)"
        "tag_ok (r_limits child) (el_Identifier nested)" "length (el_Value nested) \<le> MaxInt"
        "int n \<noteq> MaxElements (r_limits child)" "child' = advance (length (el_Raw nested)) child" "n1 = n + 1"
      by blast
    have raw: "el_Raw nested = tlv (el_Identifier nested) (el_Value nested)"
      by (subst inv(2)) (simp add: element_of_def)
    obtain p where p: "tree_ok (r_limits child) p" "p_identifier p = el_Identifier nested"
      "packet_contents p = el_Value nested" "n2 = n + nodes p"
      "int (r_depth child) \<le> MaxDepth (r_limits child) \<Longrightarrow> int (r_depth child + height p) \<le> MaxDepth (r_limits child)"
      "int (n + 1) \<le> MaxElements (r_limits child) \<Longrightarrow> int n2 \<le> MaxElements (r_limits child)"
      using "2.IH"(1) [OF False read [symmetric] refl refl vc] inv by auto
    obtain ps where ps: "list_all (tree_ok (r_limits child)) ps" "ts = forest_octets ps"
      "n' = n2 + forest_nodes ps"
      "int (r_depth child) \<le> MaxDepth (r_limits child) \<Longrightarrow>
         int (r_depth child + forest_height ps) \<le> MaxDepth (r_limits child)"
      "int n2 \<le> MaxElements (r_limits child) \<Longrightarrow> int n' \<le> MaxElements (r_limits child)"
      using "2.IH"(2) [OF False read [symmetric] refl refl vc [symmetric] refl vl] inv "2.prems"(2) by auto
    have "unread child = forest_octets (p # ps)"
      using inv(1) raw ps(2) p by (simp add: tree_octets(1))
    moreover have "int (r_depth child + forest_height (p # ps)) \<le> MaxDepth (r_limits child)"
      if "int (r_depth child) \<le> MaxDepth (r_limits child)"
      using p(5) ps(4) that by (simp add: forest_height_Cons max_def)
    moreover have "int n' \<le> MaxElements (r_limits child)" if "int n \<le> MaxElements (r_limits child)"
      using p(6) ps(5) that inv(5) by simp
    ultimately show ?thesis
      using p(1,4) ps(1,3) by (intro exI [of _ "p # ps"]) simp
  qed
qed

section \<open>SkipElement\<close>

lemma SkipElement_tree:
  assumes "unread r = packet_octets p @ ts" and "tree_ok (r_limits r) p"
    and "int (r_depth r + height p) \<le> MaxDepth (r_limits r)" and "int (n + nodes p) \<le> MaxElements (r_limits r)"
  shows "SkipElement r n =
     (Inr (element_of r (p_identifier p) (packet_contents p)), advance (length (packet_octets p)) r, n + nodes p)"
proof -
  have un: "unread r = tlv (p_identifier p) (packet_contents p) @ ts"
    using assms(1,2) by (simp add: tree_octets(1))
  have pos: "1 \<le> nodes p" by (simp add: nodes.simps [of p])
  have "ReadElement r n = (Inr (element_of r (p_identifier p) (packet_contents p)),
      advance (length (packet_octets p)) r, n + 1)"
    using assms(2,4) pos
    by (subst ReadElement_tlv [OF un]) (auto simp: tree_ok.simps [of _ p] tree_octets(1))
  moreover have "validateContents (advance (length (packet_octets p)) r)
      (element_of r (p_identifier p) (packet_contents p)) (n + 1) = (None, n + 1 + nodes p - 1)"
    by (rule validate_complete [OF assms(2)]) (use assms in \<open>simp_all add: element_of_def\<close>)
  ultimately show ?thesis by (simp add: SkipElement_def)
qed

lemma SkipElement_inv:
  assumes "SkipElement r n = (Inr e, r', n')"
    and "int (r_depth r) \<le> MaxDepth (r_limits r)" and "int n \<le> MaxElements (r_limits r)"
  shows "\<exists>p ts. tree_ok (r_limits r) p \<and> unread r = packet_octets p @ ts
     \<and> e = element_of r (p_identifier p) (packet_contents p) \<and> r' = advance (length (packet_octets p)) r
     \<and> n' = n + nodes p \<and> int (r_depth r + height p) \<le> MaxDepth (r_limits r) \<and> int n' \<le> MaxElements (r_limits r)"
proof -
  from assms(1) obtain n1 where read: "ReadElement r n = (Inr e, r', n1)"
    and vc: "validateContents r' e n1 = (None, n')"
    by (auto simp: SkipElement_def split: prod.splits sum.splits option.splits)
  from ReadElement_inv [OF read] obtain ts where
    inv: "unread r = el_Raw e @ ts" "e = element_of r (el_Identifier e) (el_Value e)"
      "tag_ok (r_limits r) (el_Identifier e)" "length (el_Value e) \<le> MaxInt"
      "int n \<noteq> MaxElements (r_limits r)" "r' = advance (length (el_Raw e)) r" "n1 = n + 1"
    by blast
  have raw: "el_Raw e = tlv (el_Identifier e) (el_Value e)"
    by (subst inv(2)) (simp add: element_of_def)
  obtain p where p: "tree_ok (r_limits r) p" "p_identifier p = el_Identifier e" "packet_contents p = el_Value e"
    "n' = n + nodes p" "int (r_depth r + height p) \<le> MaxDepth (r_limits r)" "int n' \<le> MaxElements (r_limits r)"
    using validate_sound(1) [OF vc] inv assms(2,3) by auto
  have "packet_octets p = el_Raw e" using p raw by (simp add: tree_octets(1))
  with p inv show ?thesis by metis
qed

section \<open>Properties\<close>

text \<open>(C19) \<^verbatim>\<open>SkipElement\<close> is an exact validator: within the limits it succeeds if and only if the unread input
  starts with the serialization of a well-formed element tree that fits the depth and element limits; it
  then moves past the whole tree and charges one count per element of the tree.\<close>

theorem SkipElement_iff:
  assumes "int (r_depth r) \<le> MaxDepth (r_limits r)" and "int n \<le> MaxElements (r_limits r)"
  shows "SkipElement r n = (Inr e, r', n') \<longleftrightarrow>
     (\<exists>p ts. tree_ok (r_limits r) p \<and> unread r = packet_octets p @ ts
        \<and> int (r_depth r + height p) \<le> MaxDepth (r_limits r) \<and> int (n + nodes p) \<le> MaxElements (r_limits r)
        \<and> e = element_of r (p_identifier p) (packet_contents p)
        \<and> r' = advance (length (packet_octets p)) r \<and> n' = n + nodes p)"
proof
  assume "SkipElement r n = (Inr e, r', n')"
  from SkipElement_inv [OF this assms]
  show "\<exists>p ts. tree_ok (r_limits r) p \<and> unread r = packet_octets p @ ts
      \<and> int (r_depth r + height p) \<le> MaxDepth (r_limits r) \<and> int (n + nodes p) \<le> MaxElements (r_limits r)
      \<and> e = element_of r (p_identifier p) (packet_contents p)
      \<and> r' = advance (length (packet_octets p)) r \<and> n' = n + nodes p"
    by blast
qed (use SkipElement_tree in blast)

theorem SkipElement_iff_witness:
  "\<exists>e r'. SkipElement \<lparr>r_data = [0x30, 2, 5, 0, 9], r_pos = 0, r_base = 0, r_depth = 0, r_limits = DefaultLimits\<rparr> 0
     = (Inr e, r', 2)"
proof -
  let ?r = "\<lparr>r_data = [0x30, 2, 5, 0, 9], r_pos = 0, r_base = 0, r_depth = 0, r_limits = DefaultLimits\<rparr>"
  define q where "q = Packet NullIdentifier [] [] False False"
  define p where "p = Packet SequenceIdentifier [] [q] False False"
  have q: "tree_ok DefaultLimits q" "p_identifier q = NullIdentifier" "packet_contents q = []" "nodes q = 1" "height q = 0"
    using tree_of_primitive [of NullIdentifier DefaultLimits "[]"]
    by (simp_all add: q_def tag_ok_def Identifier_Valid_def universal_ids class_defs)
  have oq: "packet_octets q = [5, 0]"
    by (simp add: tree_octets(1) [OF q(1)] q tlv_def identifier_octets_def length_octets_def lead_octet_def
        universal_ids class_defs)
  have p: "tree_ok DefaultLimits p" "p_identifier p = SequenceIdentifier" "packet_contents p = [5, 0]"
    "nodes p = 2" "height p = 1"
    using tree_of_constructed [of SequenceIdentifier DefaultLimits "[q]"] q oq
    by (simp_all add: p_def tag_ok_def Identifier_Valid_def forest_height_def universal_ids class_defs)
  have op: "packet_octets p = [0x30, 2, 5, 0]"
    by (simp add: tree_octets(1) [OF p(1)] p tlv_def identifier_octets_def length_octets_def lead_octet_def
        universal_ids class_defs)
  show ?thesis
    using SkipElement_iff [of ?r 0 _ _ 2] p op
    by (auto simp: DefaultLimits_def unread_def intro!: exI [of _ p] exI [of _ "[9]"])
qed

end
