(* ===== verification/Ber_Framer.thy ===== *)
theory Ber_Framer
  imports Ber_Reader
begin

text \<open>
  Incremental frame acquisition (\<^verbatim>\<open>src/ber/framer.go\<close>).

  The \<^verbatim>\<open>bufio.Reader\<close> is the stream of bytes the transport still delivers and the error a read past
  them returns; read boundaries below it are invisible to the framer.  \<^verbatim>\<open>Next\<close> adds the header length
  and the announced length in a Go \<^verbatim>\<open>int\<close>, which wraps around, and allocates the sum: a negative size
  makes \<^verbatim>\<open>make\<close> panic, which is the outcome \<open>Panic\<close>.  Memory is unbounded here: a size that is not negative but
  too large to allocate, which also ends a Go program, is not an outcome of its own.
\<close>

record stream =
  s_bytes :: bytes
  s_end :: goerror

datatype 'a framed = Got 'a | Failed goerror | Panic

text \<open>A nil \<^verbatim>\<open>io.Reader\<close> is \<open>None\<close>.\<close>

definition NewFramer :: "stream option \<Rightarrow> limits \<Rightarrow> goerror + (stream \<times> limits)" where
  "NewFramer r lim =
     (case r of
        None \<Rightarrow> Inl (Errorf ''ber: nil frame reader'' [])
      | Some s \<Rightarrow> (case Limits_Validate lim of Some e \<Rightarrow> Inl e | None \<Rightarrow> Inr (s, lim)))"

text \<open>\<^verbatim>\<open>bufio.Reader.ReadByte\<close>.\<close>

definition bufio_ReadByte :: "stream \<Rightarrow> (goerror + byte) \<times> stream" where
  "bufio_ReadByte s =
     (case s_bytes s of [] \<Rightarrow> (Inl (s_end s), s) | b # bs \<Rightarrow> (Inr b, s\<lparr>s_bytes := bs\<rparr>))"

definition framer_readByte :: "nat \<Rightarrow> stream \<Rightarrow> (goerror + byte) \<times> stream" where
  "framer_readByte offset s =
     (case bufio_ReadByte s of
        (Inr b, s') \<Rightarrow> (Inr b, s')
      | (Inl e, s') \<Rightarrow> if e = EOF then (Inl (decodeError offset ErrTruncated), s') else (Inl e, s'))"

definition lengthByteCount :: "byte \<Rightarrow> nat" where
  "lengthByteCount first = (if first AND 0x80 = 0 then 0 else unat (first AND 0x7F))"

text \<open>The loop that reads the octets of a high tag number; its length bound makes it end.\<close>

function readTagOctets :: "bytes \<Rightarrow> stream \<Rightarrow> (goerror + bytes) \<times> stream" where
  "readTagOctets header s =
     (case framer_readByte (length header) s of
        (Inl e, s') \<Rightarrow> (Inl e, s')
      | (Inr b, s') \<Rightarrow>
          (let header' = header @ [b]
           in if b AND 0x80 = 0 then (Inr header', s')
              else if length header' = 6 then (Inl (decodeError 0 ErrInvalidIdentifier), s')
              else readTagOctets header' s'))"
  by pat_completeness auto
termination
  by (relation "measure (\<lambda>(header, s). length (s_bytes s))")
    (auto simp: framer_readByte_def bufio_ReadByte_def split: list.splits if_splits prod.splits sum.splits)

fun readOctets :: "nat \<Rightarrow> bytes \<Rightarrow> stream \<Rightarrow> (goerror + bytes) \<times> stream" where
  "readOctets 0 header s = (Inr header, s)"
| "readOctets (Suc k) header s =
     (case framer_readByte (length header) s of
        (Inl e, s') \<Rightarrow> (Inl e, s')
      | (Inr b, s') \<Rightarrow> readOctets k (header @ [b]) s')"

text \<open>\<^verbatim>\<open>io.ReadFull\<close> into a buffer of \<open>k\<close> bytes.  A short stream that ended with EOF is reported as truncated.\<close>

definition io_ReadFull :: "nat \<Rightarrow> stream \<Rightarrow> (goerror + bytes) \<times> stream" where
  "io_ReadFull k s =
     (if k \<le> length (s_bytes s) then (Inr (take k (s_bytes s)), s\<lparr>s_bytes := drop k (s_bytes s)\<rparr>)
      else (Inl (s_end s), s\<lparr>s_bytes := []\<rparr>))"

text \<open>Addition of Go \<^verbatim>\<open>int\<close> values on a 64-bit platform.\<close>

definition int_add :: "int \<Rightarrow> int \<Rightarrow> int" where
  "int_add a b = signed_take_bit 63 (a + b)"

text \<open>The last part of \<^verbatim>\<open>Next\<close>: the size check, the allocation and the contents.\<close>

definition readContents :: "limits \<Rightarrow> bytes \<Rightarrow> nat \<Rightarrow> stream \<Rightarrow> bytes framed \<times> stream" where
  "readContents lim header len s =
     (let total = int_add (int (length header)) (int len)
      in if MaxFrameBytes lim < total
         then (Failed (decodeError (length header)
                 (LimitError ''frame bytes'' (nat total) (nat (MaxFrameBytes lim)))), s)
         else if total < 0 then (Panic, s)
         else case io_ReadFull len s of
             (Inl e, s') \<Rightarrow>
               if e = EOF then (Failed (decodeError (length header) ErrTruncated), s') else (Failed e, s')
           | (Inr v, s') \<Rightarrow> (Got (header @ v), s'))"

text \<open>The middle part: the length octets, after a header that holds a valid identifier.\<close>

definition readLength :: "limits \<Rightarrow> bytes \<Rightarrow> stream \<Rightarrow> bytes framed \<times> stream" where
  "readLength lim header s =
     (case framer_readByte (length header) s of
        (Inl e, s1) \<Rightarrow> (Failed e, s1)
      | (Inr firstLength, s1) \<Rightarrow>
          let header = header @ [firstLength];
              n = unat (firstLength AND 0x7F)
          in if firstLength AND 0x80 \<noteq> 0 \<and> n = 0
             then (Failed (decodeError (length header - 1) ErrIndefiniteLength), s1)
             else case (if firstLength AND 0x80 \<noteq> 0 then readOctets n header s1 else (Inr header, s1)) of
                 (Inl e, s2) \<Rightarrow> (Failed e, s2)
               | (Inr header, s2) \<Rightarrow>
                   (case decodeLength (drop (length header - (1 + lengthByteCount firstLength)) header) of
                      Inl e \<Rightarrow> (Failed (decodeError (length header - (1 + lengthByteCount firstLength)) e), s2)
                    | Inr (len, _) \<Rightarrow> readContents lim header len s2))"

definition Framer_Next :: "limits \<Rightarrow> stream \<Rightarrow> bytes framed \<times> stream" where
  "Framer_Next lim s =
     (case bufio_ReadByte s of
        (Inl e, s1) \<Rightarrow> (Failed e, s1)
      | (Inr first, s1) \<Rightarrow>
          (case (if first AND 0x1F = 0x1F then readTagOctets [first] s1 else (Inr [first], s1)) of
             (Inl e, s2) \<Rightarrow> (Failed e, s2)
           | (Inr header, s2) \<Rightarrow>
               (case decodeIdentifier header (MaxTagNumber lim) of
                  Inl e \<Rightarrow> (Failed (decodeError 0 e), s2)
                | Inr _ \<Rightarrow> readLength lim header s2)))"

declare readTagOctets.simps [simp del]

section \<open>Octet loops on a stream with enough bytes\<close>

lemma readByte_Cons [simp]:
  "s_bytes s = b # bs \<Longrightarrow> bufio_ReadByte s = (Inr b, s\<lparr>s_bytes := bs\<rparr>)"
  "s_bytes s = b # bs \<Longrightarrow> framer_readByte k s = (Inr b, s\<lparr>s_bytes := bs\<rparr>)"
  by (simp_all add: bufio_ReadByte_def framer_readByte_def)

lemma readOctets_append:
  "s_bytes s = vs @ ts \<Longrightarrow> readOctets (length vs) header s = (Inr (header @ vs), s\<lparr>s_bytes := ts\<rparr>)"
  by (induction vs arbitrary: header s) auto

lemma readTagOctets_append:
  assumes "s_bytes s = cs @ l # ts" and "\<forall>b \<in> set cs. 128 \<le> unat b" and "unat l < 128"
    and "length header + length cs < 6"
  shows "readTagOctets header s = (Inr (header @ cs @ [l]), s\<lparr>s_bytes := ts\<rparr>)"
  using assms
proof (induction cs arbitrary: header s)
  case Nil
  then show ?case by (simp add: readTagOctets.simps [of header s] and_80_eq_0)
next
  case (Cons c cs)
  then have "readTagOctets (header @ [c]) (s\<lparr>s_bytes := cs @ l # ts\<rparr>)
      = (Inr ((header @ [c]) @ cs @ [l]), s\<lparr>s_bytes := cs @ l # ts\<rparr>\<lparr>s_bytes := ts\<rparr>)"
    by (intro Cons.IH) auto
  with Cons.prems show ?case
    by (simp add: readTagOctets.simps [of header s] and_80_eq_0)
qed

lemma cont_high: "\<forall>b \<in> set (cont v). 128 \<le> unat b"
proof (induction v rule: cont.induct)
  case (1 v)
  have "unat (of_nat (128 + k) :: byte) = 128 + k" if "k < 128" for k
    using that by (intro unat_of_nat_byte) simp
  with 1 show ?case by (subst cont.simps) (auto simp del: of_nat_add)
qed

lemma tag_octets_split:
  "\<exists>cs l. tag_octets v = cs @ [l] \<and> (\<forall>b \<in> set cs. 128 \<le> unat b) \<and> unat l < 128"
proof (cases "v < 128")
  case True
  then show ?thesis by (intro exI [of _ "[]"] exI [of _ "of_nat v"]) (simp add: tag_octets_def unat_of_nat_byte)
next
  case False
  then show ?thesis
    by (intro exI [of _ "cont (v div 128)"] exI [of _ "of_nat (v mod 128)"])
      (simp add: tag_octets_def cont_high unat_of_nat_byte)
qed


section \<open>A complete header\<close>

lemma lead_octet_1f: "unat c < 4 \<Longrightarrow> n < 32 \<Longrightarrow> lead_octet c k n AND 0x1F = 0x1F \<longleftrightarrow> n = 31"
proof -
  assume "unat c < 4" "n < 32"
  then have "unat (lead_octet c k n AND 0x1F) = n" by (rule lead_octet_fields(3))
  moreover have "unat (0x1F :: byte) = 31" by simp
  ultimately show ?thesis by (metis word_unat_eq_iff)
qed

lemma readLength_octets:
  assumes "s_bytes s = length_octets len @ ts" and "len \<le> MaxInt"
  shows "readLength lim header s = readContents lim (header @ length_octets len) len (s\<lparr>s_bytes := ts\<rparr>)"
proof (cases "len < 128")
  case True
  then have b: "unat (of_nat len :: byte) = len" by (simp add: unat_of_nat_byte)
  then have "(of_nat len :: byte) AND 0x80 = 0" using True by (simp add: and_80_eq_0)
  with True assms(1) b show ?thesis
    by (simp add: readLength_def length_octets_def lengthByteCount_def Let_def decodeLength_short)
next
  case False
  define w where "w = length_width len"
  define b :: byte where "b = of_nat (128 + w)"
  have w: "0 < w" "w \<le> 8"
    using False length_width_bounds(1) [of len] length_width_le [of len] assms(2) by (auto simp: w_def)
  have b: "unat b = 128 + w" unfolding b_def by (rule unat_of_nat_byte) (use w in simp)
  then have bits: "b AND 0x80 \<noteq> 0" "unat (b AND 0x7F) = w"
    using w by (simp_all add: and_80_eq_0 and_7f)
  have lo: "length_octets len = b # octets w len"
    using False by (simp add: length_octets_def b_def w_def)
  have oct: "readOctets w (header @ [b]) (s\<lparr>s_bytes := octets w len @ ts\<rparr>)
      = (Inr (header @ b # octets w len), s\<lparr>s_bytes := ts\<rparr>)"
    using readOctets_append [of "s\<lparr>s_bytes := octets w len @ ts\<rparr>" "octets w len" ts "header @ [b]"] by simp
  have "decodeLength (b # octets w len) = Inr (len, length (length_octets len))"
    using decodeLength_octets [OF assms(2), of "[]"] lo by simp
  then show ?thesis
    using assms(1) lo bits w oct by (simp add: readLength_def lengthByteCount_def Let_def)
qed

lemma Framer_Next_header:
  assumes "s_bytes s = identifier_octets tag @ length_octets len @ ts"
    and "tag_ok lim tag" and "len \<le> MaxInt"
  shows "Framer_Next lim s =
     readContents lim (identifier_octets tag @ length_octets len) len (s\<lparr>s_bytes := ts\<rparr>)"
proof -
  let ?n = "unat (id_number tag)" and ?ls = "length_octets len @ ts"
  have c: "unat (id_class tag) < 4" using assms(2) by (simp add: tag_ok_def Identifier_Valid_less)
  have dec: "decodeIdentifier (identifier_octets tag) (MaxTagNumber lim)
      = Inr (tag, length (identifier_octets tag))"
    using decodeIdentifier_octets [of tag "MaxTagNumber lim" "[]"] assms(2) by (simp add: tag_ok_def)
  have len: "readLength lim (identifier_octets tag) (s\<lparr>s_bytes := ?ls\<rparr>)
      = readContents lim (identifier_octets tag @ length_octets len) len (s\<lparr>s_bytes := ts\<rparr>)"
    using readLength_octets [of "s\<lparr>s_bytes := ?ls\<rparr>" len ts lim "identifier_octets tag"] assms(3) by simp
  show ?thesis
  proof (cases "?n < 31")
    case True
    then have io: "identifier_octets tag = [lead_octet (id_class tag) (id_constructed tag) ?n]"
      by (simp add: identifier_octets_def)
    with True dec len assms(1) c show ?thesis
      by (simp add: Framer_Next_def lead_octet_1f)
  next
    case False
    let ?b = "lead_octet (id_class tag) (id_constructed tag) 31"
    have io: "identifier_octets tag = ?b # tag_octets ?n" using False by (simp add: identifier_octets_def)
    obtain cs l where tl: "tag_octets ?n = cs @ [l]" "\<forall>b \<in> set cs. 128 \<le> unat b" "unat l < 128"
      using tag_octets_split by blast
    have "length (tag_octets ?n) \<le> 5"
      using length_tagDigits_le [of "id_number tag"] by (simp flip: setContinuation_tagDigits)
    then have "readTagOctets [?b] (s\<lparr>s_bytes := tag_octets ?n @ ?ls\<rparr>)
        = (Inr (identifier_octets tag), s\<lparr>s_bytes := ?ls\<rparr>)"
      using readTagOctets_append [of "s\<lparr>s_bytes := tag_octets ?n @ ?ls\<rparr>" cs l ?ls "[?b]"] tl io by simp
    moreover have "?b AND 0x1F = 0x1F" using c by (simp add: lead_octet_1f)
    ultimately show ?thesis
      using io dec len assms(1) by (simp add: Framer_Next_def)
  qed
qed

text \<open>Conversely, \<^verbatim>\<open>Next\<close> gets past the header only on the octets of a header.\<close>

lemma framer_readByte_Inr:
  "framer_readByte k s = (Inr b, s') \<Longrightarrow> s_bytes s = b # s_bytes s' \<and> s' = s\<lparr>s_bytes := s_bytes s'\<rparr>"
  by (auto simp: framer_readByte_def bufio_ReadByte_def split: list.splits sum.splits prod.splits if_splits)

lemma readOctets_inv:
  "readOctets k header s = (Inr h, s') \<Longrightarrow>
     \<exists>vs. length vs = k \<and> h = header @ vs \<and> s_bytes s = vs @ s_bytes s' \<and> s' = s\<lparr>s_bytes := s_bytes s'\<rparr>"
proof (induction k arbitrary: header s)
  case 0
  then show ?case by simp
next
  case (Suc k)
  then obtain b s1 where b: "framer_readByte (length header) s = (Inr b, s1)"
    and tail: "readOctets k (header @ [b]) s1 = (Inr h, s')"
    by (auto split: prod.splits sum.splits)
  from Suc.IH [OF tail] obtain vs where
    "length vs = k" "h = (header @ [b]) @ vs" "s_bytes s1 = vs @ s_bytes s'" "s' = s1\<lparr>s_bytes := s_bytes s'\<rparr>"
    by auto
  moreover note framer_readByte_Inr [OF b]
  ultimately show ?case by (intro exI [of _ "b # vs"]) (auto elim: ssubst)
qed

lemma readTagOctets_inv:
  "readTagOctets header s = (Inr h, s') \<Longrightarrow>
     \<exists>cs l. h = header @ cs @ [l] \<and> (\<forall>b \<in> set cs. 128 \<le> unat b)
       \<and> s_bytes s = cs @ l # s_bytes s' \<and> s' = s\<lparr>s_bytes := s_bytes s'\<rparr>"
proof (induction header s rule: readTagOctets.induct)
  case (1 header s)
  from "1.prems" obtain b s1 where b: "framer_readByte (length header) s = (Inr b, s1)"
    by (auto simp: readTagOctets.simps [of header s] split: prod.splits sum.splits)
  note rb = framer_readByte_Inr [OF b]
  show ?case
  proof (cases "b AND 0x80 = 0")
    case True
    with "1.prems" b have "h = header @ [b]" "s' = s1"
      by (auto simp: readTagOctets.simps [of header s])
    with rb show ?thesis by (intro exI [of _ "[]"] exI [of _ b]) auto
  next
    case False
    with "1.prems" b have tail: "readTagOctets (header @ [b]) s1 = (Inr h, s')"
      and six: "length (header @ [b]) \<noteq> 6"
      by (auto simp: readTagOctets.simps [of header s] split: if_splits)
    from "1.IH" [OF b [symmetric] refl refl False six tail] obtain cs l where
      "h = (header @ [b]) @ cs @ [l]" "\<forall>b \<in> set cs. 128 \<le> unat b" "s_bytes s1 = cs @ l # s_bytes s'"
      "s' = s1\<lparr>s_bytes := s_bytes s'\<rparr>"
      by auto
    moreover from False have "128 \<le> unat b" by (simp add: and_80_eq_0)
    ultimately show ?thesis
      using rb by (intro exI [of _ "b # cs"] exI [of _ l]) (auto elim: ssubst)
  qed
qed

lemma header_of_high_tag:
  assumes "decodeIdentifier (b # cs @ [l]) maxTag = Inr (tag, n)" and "\<forall>b \<in> set cs. 128 \<le> unat b"
    and "b AND 0x1F = 0x1F"
  shows "identifier_octets tag = b # cs @ [l] \<and> Identifier_Valid tag \<and> unat (id_number tag) \<le> max 30 (unat maxTag)"
proof -
  obtain ts where ts: "b # cs @ [l] = identifier_octets tag @ ts"
    and ok: "Identifier_Valid tag" "unat (id_number tag) \<le> max 30 (unat maxTag)"
    using decodeIdentifier_canonical [OF assms(1)] by auto
  let ?n = "unat (id_number tag)"
  have "\<not> ?n < 31"
  proof
    assume "?n < 31"
    with ts have "b = lead_octet (id_class tag) (id_constructed tag) ?n" by (simp add: identifier_octets_def)
    with \<open>?n < 31\<close> assms(3) ok(1) show False by (simp add: lead_octet_1f Identifier_Valid_less)
  qed
  then have io: "identifier_octets tag = b # tag_octets ?n" and tail: "cs @ [l] = tag_octets ?n @ ts"
    using ts by (auto simp: identifier_octets_def Let_def)
  obtain cs' l' where tl: "tag_octets ?n = cs' @ [l']" "unat l' < 128"
    using tag_octets_split by blast
  have "ts = []"
  proof (cases ts rule: rev_exhaust)
    case (snoc us u)
    with tail tl(1) have "cs = cs' @ l' # us" by simp
    with assms(2) tl(2) show ?thesis by auto
  qed simp
  with io tail ok show ?thesis by simp
qed

lemma decodeIdentifier_single:
  assumes "decodeIdentifier [b] maxTag = Inr (tag, n)"
  shows "identifier_octets tag = [b] \<and> Identifier_Valid tag \<and> unat (id_number tag) \<le> max 30 (unat maxTag)"
proof -
  have "identifier_octets tag \<noteq> []" by (simp add: identifier_octets_def Let_def)
  with decodeIdentifier_canonical [OF assms] show ?thesis by (auto simp: Cons_eq_append_conv)
qed

lemma readLength_inv:
  assumes "readLength lim header s = (out, s')" and "\<forall>e. out \<noteq> Failed e"
  shows "\<exists>len ts. s_bytes s = length_octets len @ ts \<and> len \<le> MaxInt"
proof -
  from assms obtain b s1 where b: "framer_readByte (length header) s = (Inr b, s1)"
    by (auto simp: readLength_def split: prod.splits sum.splits)
  note rb = framer_readByte_Inr [OF b]
  have "\<exists>vs len n. s_bytes s1 = vs @ drop (length vs) (s_bytes s1) \<and> decodeLength (b # vs) = Inr (len, n)
      \<and> length vs = lengthByteCount b"
  proof (cases "b AND 0x80 = 0")
    case True
    then have "decodeLength [b] = Inr (unat b, 1)" by (simp add: and_80_eq_0 decodeLength_short)
    with True show ?thesis by (intro exI [of _ "[]"] exI) (auto simp: lengthByteCount_def)
  next
    case False
    with assms b obtain h s2 where ro: "readOctets (unat (b AND 0x7F)) (header @ [b]) s1 = (Inr h, s2)"
      by (auto simp: readLength_def Let_def split: prod.splits sum.splits if_splits)
    from readOctets_inv [OF ro] obtain vs where
      vs: "length vs = unat (b AND 0x7F)" "h = header @ b # vs" "s_bytes s1 = vs @ s_bytes s2" by auto
    with assms b False ro obtain len n where "decodeLength (b # vs) = Inr (len, n)"
      by (auto simp: readLength_def Let_def lengthByteCount_def split: prod.splits sum.splits if_splits)
    with vs False show ?thesis by (intro exI [of _ vs] exI) (auto simp: lengthByteCount_def)
  qed
  then obtain vs len n where v: "s_bytes s1 = vs @ drop (length vs) (s_bytes s1)"
    "decodeLength (b # vs) = Inr (len, n)" "length vs = lengthByteCount b" by blast
  from decodeLength_canonical [OF v(2)] obtain us where "b # vs = length_octets len @ us" "len \<le> MaxInt"
    by auto
  moreover have "s_bytes s = (b # vs) @ drop (length vs) (s_bytes s1)"
    using rb v(1) by (metis append_Cons)
  ultimately show ?thesis by (intro exI [of _ len] exI [of _ "us @ drop (length vs) (s_bytes s1)"]) simp
qed

lemma Framer_Next_inv:
  assumes "Framer_Next lim s = (out, s')" and "\<forall>e. out \<noteq> Failed e"
  shows "\<exists>tag len ts. s_bytes s = identifier_octets tag @ length_octets len @ ts \<and> tag_ok lim tag \<and> len \<le> MaxInt"
proof -
  from assms obtain b bs where b: "s_bytes s = b # bs"
    by (auto simp: Framer_Next_def bufio_ReadByte_def split: list.splits)
  let ?s1 = "s\<lparr>s_bytes := bs\<rparr>"
  have "\<exists>tag s2. s_bytes s = identifier_octets tag @ s_bytes s2 \<and> tag_ok lim tag
      \<and> readLength lim (identifier_octets tag) s2 = (out, s')"
  proof (cases "b AND 0x1F = 0x1F")
    case True
    with assms b obtain h s2 tag n where
      rt: "readTagOctets [b] ?s1 = (Inr h, s2)"
      and dec: "decodeIdentifier h (MaxTagNumber lim) = Inr (tag, n)"
      and rl: "readLength lim h s2 = (out, s')"
      by (auto simp: Framer_Next_def split: sum.splits prod.splits)
    from readTagOctets_inv [OF rt] obtain cs l where
      h: "h = b # cs @ [l]" "\<forall>b \<in> set cs. 128 \<le> unat b" "bs = cs @ l # s_bytes s2" by auto
    from header_of_high_tag [OF dec [unfolded h(1)] h(2) True] h(1,3) rl b show ?thesis
      by (intro exI [of _ tag] exI [of _ s2]) (simp add: tag_ok_def)
  next
    case False
    with assms b obtain tag n where
      dec: "decodeIdentifier [b] (MaxTagNumber lim) = Inr (tag, n)"
      and rl: "readLength lim [b] ?s1 = (out, s')"
      by (auto simp: Framer_Next_def split: sum.splits prod.splits)
    from decodeIdentifier_single [OF dec] rl b show ?thesis
      by (intro exI [of _ tag] exI [of _ ?s1]) (simp add: tag_ok_def)
  qed
  then obtain tag s2 where "s_bytes s = identifier_octets tag @ s_bytes s2" "tag_ok lim tag"
    "readLength lim (identifier_octets tag) s2 = (out, s')" by blast
  with readLength_inv [OF this(3) assms(2)] show ?thesis by metis
qed

section \<open>Outcomes\<close>

text \<open>On a 64-bit platform the sum of two Go ints that are not negative is exact or negative.\<close>

lemma signed_take_bit_63:
  fixes t :: int
  assumes "0 \<le> t" and "t < 2 ^ 64"
  shows "signed_take_bit 63 t = (if t < 2 ^ 63 then t else t - 2 ^ 64)"
proof (cases "t < 2 ^ 63")
  case True
  with assms show ?thesis by (simp add: signed_take_bit_int_eq_self)
next
  case False
  then have "signed_take_bit 63 (t - 2 ^ 64) = t - 2 ^ 64"
    using assms by (intro signed_take_bit_int_eq_self) auto
  moreover have "signed_take_bit 63 (t - 2 ^ 64) = signed_take_bit 63 t"
  proof (rule signed_take_bit_eq_iff_take_bit_eq [THEN iffD2])
    have "(t - 2 ^ 64) mod 2 ^ 64 = t mod 2 ^ 64" by (metis minus_mod_self2)
    then show "take_bit (Suc 63) (t - 2 ^ 64) = take_bit (Suc 63) t"
      by (simp add: take_bit_eq_mod)
  qed
  ultimately show ?thesis using False by simp
qed

lemma int_add_nat:
  assumes "h \<le> MaxInt" "len \<le> MaxInt"
  shows "int_add (int h) (int len)
    = (if h + len \<le> MaxInt then int (h + len) else int (h + len) - 2 ^ 64)"
  using signed_take_bit_63 [of "int h + int len"] assms by (auto simp: int_add_def)

lemma header_short:
  assumes "len \<le> MaxInt"
  shows "length (identifier_octets tag) + length (length_octets len) \<le> 15"
proof -
  have "length (tag_octets (unat (id_number tag))) \<le> 5"
    using length_tagDigits_le [of "id_number tag"] by (simp flip: setContinuation_tagDigits)
  then have "length (identifier_octets tag) \<le> 6" by (simp add: identifier_octets_def Let_def)
  moreover have "length (length_octets len) \<le> 9"
    using length_width_le [of len] assms by (auto simp: length_octets_def)
  ultimately show ?thesis by simp
qed

lemma readContents_eq:
  assumes "length header \<le> MaxInt" and "len \<le> MaxInt" and "0 < MaxFrameBytes lim"
  shows "readContents lim header len s =
     (if MaxInt < length header + len then (Panic, s)
      else if MaxFrameBytes lim < int (length header + len)
      then (Failed (DecodeError (length header)
             (LimitError ''frame bytes'' (length header + len) (nat (MaxFrameBytes lim)))), s)
      else if len \<le> length (s_bytes s)
      then (Got (header @ take len (s_bytes s)), s\<lparr>s_bytes := drop len (s_bytes s)\<rparr>)
      else (Failed (if s_end s = EOF then DecodeError (length header) ErrTruncated else s_end s), s\<lparr>s_bytes := []\<rparr>))"
  using assms int_add_nat [OF assms(1,2)]
  by (auto simp: readContents_def Let_def io_ReadFull_def decodeError_def nat_add_distrib)

lemma Framer_Next_outcome:
  assumes "s_bytes s = identifier_octets tag @ length_octets len @ ts" and "tag_ok lim tag" and "len \<le> MaxInt"
    and "0 < MaxFrameBytes lim"
  defines "header \<equiv> identifier_octets tag @ length_octets len"
  shows "Framer_Next lim s =
     (if MaxInt < length header + len then (Panic, s\<lparr>s_bytes := ts\<rparr>)
      else if MaxFrameBytes lim < int (length header + len)
      then (Failed (DecodeError (length header)
             (LimitError ''frame bytes'' (length header + len) (nat (MaxFrameBytes lim)))), s\<lparr>s_bytes := ts\<rparr>)
      else if len \<le> length ts then (Got (header @ take len ts), s\<lparr>s_bytes := drop len ts\<rparr>)
      else (Failed (if s_end s = EOF then DecodeError (length header) ErrTruncated else s_end s), s\<lparr>s_bytes := []\<rparr>))"
proof -
  have "length header \<le> MaxInt" using header_short [OF assms(3), of tag] by (simp add: header_def)
  from readContents_eq [OF this assms(3,4), of "s\<lparr>s_bytes := ts\<rparr>"] Framer_Next_header [OF assms(1-3)]
  show ?thesis unfolding header_def by simp
qed

lemma Framer_Next_tlv:
  assumes "s_bytes s = tlv tag v @ ts" and "tag_ok lim tag"
    and "length (tlv tag v) \<le> MaxInt" and "int (length (tlv tag v)) \<le> MaxFrameBytes lim"
  shows "Framer_Next lim s = (Got (tlv tag v), s\<lparr>s_bytes := ts\<rparr>)"
proof -
  have b: "s_bytes s = identifier_octets tag @ length_octets (length v) @ (v @ ts)"
    using assms(1) by (simp add: tlv_def)
  have "0 < length (tlv tag v)" by (simp add: tlv_def length_octets_def)
  then have "0 < MaxFrameBytes lim" using assms(4) by linarith
  moreover have "length v \<le> MaxInt" using assms(3) by (simp add: length_tlv)
  ultimately show ?thesis
    using Framer_Next_outcome [OF b assms(2)] assms(3,4) by (simp add: length_tlv) (simp add: tlv_def)
qed

lemma Framer_Next_sound:
  assumes "Framer_Next lim s = (Got f, s')" and "0 < MaxFrameBytes lim"
  shows "\<exists>tag v. f = tlv tag v \<and> tag_ok lim tag \<and> s_bytes s = f @ s_bytes s' \<and> s_end s' = s_end s
     \<and> length f \<le> MaxInt \<and> int (length f) \<le> MaxFrameBytes lim"
proof -
  from Framer_Next_inv [OF assms(1)] obtain tag len ts where
    h: "s_bytes s = identifier_octets tag @ length_octets len @ ts" "tag_ok lim tag" "len \<le> MaxInt"
    by auto
  from assms(1) Framer_Next_outcome [OF h assms(2)] have
    f: "f = identifier_octets tag @ length_octets len @ take len ts" "s' = s\<lparr>s_bytes := drop len ts\<rparr>"
    "len \<le> length ts" "length f \<le> MaxInt" "int (length f) \<le> MaxFrameBytes lim"
    by (auto split: if_splits simp del: of_nat_add)
  then have "f = tlv tag (take len ts)" by (simp add: tlv_def)
  with f h show ?thesis by (intro exI [of _ tag] exI [of _ "take len ts"]) simp
qed

lemma Framer_Next_Panic:
  assumes "0 < MaxFrameBytes lim"
  shows "fst (Framer_Next lim s) = Panic \<longleftrightarrow>
     (\<exists>tag len ts. s_bytes s = identifier_octets tag @ length_octets len @ ts \<and> tag_ok lim tag \<and> len \<le> MaxInt
        \<and> MaxInt < length (identifier_octets tag) + length (length_octets len) + len)"
proof
  assume p: "fst (Framer_Next lim s) = Panic"
  then obtain s' where n: "Framer_Next lim s = (Panic, s')" by (metis prod.collapse)
  from Framer_Next_inv [OF n] obtain tag len ts where
    h: "s_bytes s = identifier_octets tag @ length_octets len @ ts" "tag_ok lim tag" "len \<le> MaxInt"
    by auto
  from n Framer_Next_outcome [OF h assms] have
    "MaxInt < length (identifier_octets tag @ length_octets len) + len"
    by (auto split: if_splits simp del: of_nat_add)
  with h show "\<exists>tag len ts. s_bytes s = identifier_octets tag @ length_octets len @ ts \<and> tag_ok lim tag \<and> len \<le> MaxInt
        \<and> MaxInt < length (identifier_octets tag) + length (length_octets len) + len"
    by (intro exI [of _ tag] exI [of _ len] exI [of _ ts]) simp
qed (use Framer_Next_outcome [OF _ _ _ assms] in auto)

lemma Framer_Next_empty: "s_bytes s = [] \<Longrightarrow> Framer_Next lim s = (Failed (s_end s), s)"
  by (simp add: Framer_Next_def bufio_ReadByte_def)

text \<open>Failures after the first octet: a decoding error, or an error of the transport other than EOF.\<close>

definition frame_error :: "goerror \<Rightarrow> goerror \<Rightarrow> bool" where
  "frame_error eos e \<longleftrightarrow> as_DecodeError e \<or> (e = eos \<and> e \<noteq> EOF)"

lemma frame_error_decodeError [simp]: "frame_error eos (decodeError k e)"
  by (simp add: frame_error_def)

lemma framer_readByte_end:
  "framer_readByte k s = (out, s') \<Longrightarrow> s_end s' = s_end s"
  "framer_readByte k s = (Inl e, s') \<Longrightarrow> frame_error (s_end s) e"
  by (auto simp: framer_readByte_def bufio_ReadByte_def frame_error_def
      split: list.splits sum.splits prod.splits if_splits)

lemma readOctets_end:
  "readOctets k header s = (out, s') \<Longrightarrow>
     s_end s' = s_end s \<and> (\<forall>e. out = Inl e \<longrightarrow> frame_error (s_end s) e)"
proof (induction k arbitrary: header s)
  case (Suc k)
  then show ?case
    by (auto split: prod.splits sum.splits dest: framer_readByte_end)
      (metis framer_readByte_end(1))+
qed auto

lemma readTagOctets_end:
  "readTagOctets header s = (out, s') \<Longrightarrow>
     s_end s' = s_end s \<and> (\<forall>e. out = Inl e \<longrightarrow> frame_error (s_end s) e)"
proof (induction header s rule: readTagOctets.induct)
  case (1 header s)
  obtain r s1 where b: "framer_readByte (length header) s = (r, s1)" by (metis surj_pair)
  note e = framer_readByte_end(1) [OF b]
  show ?case
  proof (cases r)
    case (Inl a)
    with "1.prems" b framer_readByte_end [of "length header" s] show ?thesis
      by (auto simp: readTagOctets.simps [of header s])
  next
    case (Inr x)
    with "1.prems" b e "1.IH" [OF b [unfolded Inr, symmetric] refl refl] show ?thesis
      by (auto simp: readTagOctets.simps [of header s] Let_def split: if_splits)
  qed
qed

lemma readContents_end:
  "readContents lim header len s = (Failed e, s') \<Longrightarrow> frame_error (s_end s) e"
  by (auto simp: readContents_def Let_def io_ReadFull_def frame_error_def decodeError_def
      split: if_splits sum.splits prod.splits)

lemma readLength_end:
  assumes "readLength lim header s = (Failed e, s')"
  shows "frame_error (s_end s) e"
proof -
  obtain r s1 where b: "framer_readByte (length header) s = (r, s1)" by (metis surj_pair)
  note en = framer_readByte_end(1) [OF b]
  show ?thesis
  proof (cases r)
    case (Inl a)
    with assms b framer_readByte_end(2) [of "length header" s] show ?thesis
      by (auto simp: readLength_def)
  next
    case (Inr x)
    with assms b en show ?thesis
      by (auto simp: readLength_def Let_def split: if_splits sum.splits prod.splits
          dest!: readContents_end) (metis readOctets_end)+
  qed
qed

lemma Framer_Next_Failed:
  assumes "Framer_Next lim s = (Failed e, s')" and "s_bytes s \<noteq> []"
  shows "frame_error (s_end s) e"
proof -
  obtain b bs where "s_bytes s = b # bs" using assms(2) by (cases "s_bytes s") auto
  with assms(1) show ?thesis
    by (auto simp: Framer_Next_def split: if_splits sum.splits prod.splits
        dest!: readLength_end) (metis readTagOctets_end stream.select_convs(2) stream.surjective stream.update_convs(1))+
qed

section \<open>Properties\<close>

text \<open>The framer returns the next element whole: if the stream starts with one element that the frame and tag
  limits admit, \<^verbatim>\<open>Next\<close> returns exactly its bytes and leaves exactly the bytes after it.\<close>

theorem Framer_Next_complete:
  assumes "s_bytes s = tlv tag v @ ts" and "tag_ok lim tag"
    and "length (tlv tag v) \<le> MaxInt" and "int (length (tlv tag v)) \<le> MaxFrameBytes lim"
  shows "Framer_Next lim s = (Got (tlv tag v), s\<lparr>s_bytes := ts\<rparr>)"
  using assms by (rule Framer_Next_tlv)

theorem Framer_Next_complete_witness:
  "Framer_Next DefaultLimits \<lparr>s_bytes = [4, 2, 0xAA, 0xBB, 0x30], s_end = EOF\<rparr>
     = (Got [4, 2, 0xAA, 0xBB], \<lparr>s_bytes = [0x30], s_end = EOF\<rparr>)"
proof -
  have "tlv OctetStringIdentifier [0xAA, 0xBB] = [4, 2, 0xAA, 0xBB]"
    by (simp add: tlv_def identifier_octets_def length_octets_def lead_octet_def universal_ids class_defs)
  then show ?thesis
    using Framer_Next_complete [of "\<lparr>s_bytes = [4, 2, 0xAA, 0xBB, 0x30], s_end = EOF\<rparr>"
        OctetStringIdentifier "[0xAA, 0xBB]" "[0x30]" DefaultLimits]
    by (simp add: tag_ok_def Identifier_Valid_def DefaultLimits_def universal_ids class_defs)
qed

text \<open>(C20) What the framer returns is a frame: the bytes consumed, nothing more and nothing less, which are one
  complete element no longer than \<^verbatim>\<open>MaxFrameBytes\<close>, and which \<^verbatim>\<open>DecodeElement\<close> under the same limits accepts
  with those bytes as its raw form.\<close>

theorem Framer_Next_frame:
  assumes "Framer_Next lim s = (Got f, s')" and "limits_ok lim"
  shows "s_bytes s = f @ s_bytes s' \<and> int (length f) \<le> MaxFrameBytes lim
     \<and> (\<exists>e. DecodeElement f lim = Inr e \<and> el_Raw e = f \<and> el_Offset e = 0)"
proof -
  have pos: "0 < MaxFrameBytes lim" "0 < MaxElements lim" using assms(2) by (simp_all add: limits_ok_def)
  from Framer_Next_sound [OF assms(1) pos(1)] obtain tag v where
    f: "f = tlv tag v" "tag_ok lim tag" "s_bytes s = f @ s_bytes s'" "length f \<le> MaxInt"
      "int (length f) \<le> MaxFrameBytes lim" by blast
  let ?r = "\<lparr>r_data = f, r_pos = 0, r_base = 0, r_depth = 0, r_limits = lim\<rparr>"
  have "NewReader f lim = Inr ?r"
    using f(5) Limits_Validate_None [of lim] assms(2) by (simp add: NewReader_def)
  moreover have "ReadElement ?r 0 = (Inr (element_of ?r tag v), advance (length f) ?r, 1)"
    using ReadElement_tlv [of ?r tag v "[]" 0] f pos(2) by (simp add: unread_def length_tlv)
  moreover have "RequireEmpty (advance (length f) ?r) = None"
    by (simp add: RequireEmpty_def Empty_unread unread_def)
  ultimately have "DecodeElement f lim = Inr (element_of ?r tag v)"
    by (simp add: DecodeElement_def)
  with f show ?thesis by (simp add: element_of_def Offset_def)
qed

theorem Framer_Next_frame_witness:
  "\<exists>e. DecodeElement [4, 1, 0xAA] DefaultLimits = Inr e \<and> el_Raw e = [4, 1, 0xAA]"
proof -
  let ?s = "\<lparr>s_bytes = [4, 1, 0xAA, 0x30], s_end = EOF\<rparr>"
  have t: "tlv OctetStringIdentifier [0xAA] = [4, 1, 0xAA]"
    by (simp add: tlv_def identifier_octets_def length_octets_def lead_octet_def universal_ids class_defs)
  have "Framer_Next DefaultLimits ?s = (Got [4, 1, 0xAA], ?s\<lparr>s_bytes := [0x30]\<rparr>)"
    using Framer_Next_tlv [of ?s OctetStringIdentifier "[0xAA]" "[0x30]" DefaultLimits] t
    by (simp add: tag_ok_def Identifier_Valid_def DefaultLimits_def universal_ids class_defs)
  from Framer_Next_frame [OF this] show ?thesis by (auto simp: limits_ok_def DefaultLimits_def)
qed

text \<open>Errors of the framer: once a frame has begun, a failure is a decoding error or the transport's own error,
  passed on unchanged, and never \<^verbatim>\<open>io.EOF\<close>; EOF is reported only between frames.\<close>

theorem Framer_Next_errors:
  assumes "Framer_Next lim s = (Failed e, s')"
  shows "if s_bytes s = [] then e = s_end s else as_DecodeError e \<or> (e = s_end s \<and> e \<noteq> EOF)"
  using assms Framer_Next_empty [of s lim] Framer_Next_Failed [OF assms] by (auto simp: frame_error_def)

theorem Framer_Next_errors_witness:
  "\<exists>e s'. Framer_Next DefaultLimits \<lparr>s_bytes = [4, 5, 0xAA], s_end = EOF\<rparr> = (Failed e, s') \<and> as_DecodeError e"
proof -
  let ?s = "\<lparr>s_bytes = [4, 5, 0xAA], s_end = EOF\<rparr>"
  have "s_bytes ?s = identifier_octets OctetStringIdentifier @ length_octets 5 @ [0xAA]"
    by (simp add: identifier_octets_def length_octets_def lead_octet_def universal_ids class_defs)
  from Framer_Next_outcome [OF this, of DefaultLimits]
  have "Framer_Next DefaultLimits ?s = (Failed (DecodeError 2 ErrTruncated), \<lparr>s_bytes = [], s_end = EOF\<rparr>)"
    by (simp add: tag_ok_def Identifier_Valid_def DefaultLimits_def identifier_octets_def length_octets_def
        universal_ids class_defs)
  with Framer_Next_errors [OF this] show ?thesis by auto
qed

text \<open>(C27) The framer panics exactly on a header whose announced length, added to the header's own length, exceeds
  \<^verbatim>\<open>math.MaxInt\<close>: the sum wraps around to a negative number, passes the frame limit and reaches \<^verbatim>\<open>make\<close>.  No
  frame limit prevents it, so ten bytes from the peer stop the process.\<close>

theorem Framer_Next_panics_iff:
  assumes "0 < MaxFrameBytes lim"
  shows "fst (Framer_Next lim s) = Panic \<longleftrightarrow>
     (\<exists>tag len ts. s_bytes s = identifier_octets tag @ length_octets len @ ts \<and> tag_ok lim tag \<and> len \<le> MaxInt
        \<and> MaxInt < length (identifier_octets tag) + length (length_octets len) + len)"
  using assms by (rule Framer_Next_Panic)

theorem Framer_Next_panics_iff_witness:
  "fst (Framer_Next DefaultLimits
     \<lparr>s_bytes = [0x30, 0x88, 0x7F, 0xFF, 0xFF, 0xFF, 0xFF, 0xFF, 0xFF, 0xFF], s_end = EOF\<rparr>) = Panic"
proof -
  have w: "length_width MaxInt = 8" by (rule length_width_unique) simp_all
  let ?o = "[0x7F, 0xFF, 0xFF, 0xFF, 0xFF, 0xFF, 0xFF, 0xFF] :: bytes"
  have "be_nat ?o = MaxInt" by (simp add: be_nat_Cons be_nat_Nil)
  moreover have "length ?o = 8" by simp
  ultimately have o: "octets 8 MaxInt = ?o" using octets_be_nat [of ?o] by (simp only:)
  have l: "length_octets MaxInt = 0x88 # [0x7F, 0xFF, 0xFF, 0xFF, 0xFF, 0xFF, 0xFF, 0xFF]"
    unfolding length_octets_def w o by simp
  have i: "identifier_octets SequenceIdentifier = [0x30]"
    by (simp add: identifier_octets_def lead_octet_def universal_ids class_defs)
  have "\<exists>tag len ts. [0x30, 0x88, 0x7F, 0xFF, 0xFF, 0xFF, 0xFF, 0xFF, 0xFF, 0xFF]
      = identifier_octets tag @ length_octets len @ ts \<and> tag_ok DefaultLimits tag \<and> len \<le> MaxInt
      \<and> MaxInt < length (identifier_octets tag) + length (length_octets len) + len"
    using i l by (intro exI [of _ SequenceIdentifier] exI [of _ MaxInt] exI [of _ "[]"])
      (simp add: tag_ok_def Identifier_Valid_def universal_ids class_defs)
  moreover have "0 < MaxFrameBytes DefaultLimits" by (simp add: DefaultLimits_def)
  ultimately show ?thesis
    using Framer_Next_panics_iff [of DefaultLimits] by simp
qed

end
