(* ===== verification/Ber_Decoder.thy ===== *)
theory Ber_Decoder
  imports Ber_Tree
begin

text \<open>
  The scoped first-error decoder (\<^verbatim>\<open>src/ber/decoder.go\<close>).

  A \<^verbatim>\<open>*Decoder\<close> is the reader it owns, its outstanding child scope and its reserved identifiers.  The record
  \<open>scope\<close> adds what all decoders of one input share: the first error (\<^verbatim>\<open>decoderState\<close>) and the element count
  (\<^verbatim>\<open>readerState\<close>).  An operation maps a scope to its value and the scope after it.  A custom decoder, whether a
  function value or an \<^verbatim>\<open>UnmarshalBER\<close> method on a fresh variable, maps a reader and the element count to a result,
  the reader and the count; of the reader only the position can change.  The zero value a failed operation
  returns is its argument \<open>zero\<close>.
\<close>

section \<open>State\<close>

datatype decoder = Decoder
  (d_reader: reader)
  (d_child: "decoder option")
  (d_reserved: "ident list")

record scope =
  sc_decoder :: decoder
  sc_err :: "goerror option"
  sc_elements :: nat

type_synonym 'a unmarshaler = "reader \<Rightarrow> nat \<Rightarrow> 'a read_result"

definition sc_reader :: "scope \<Rightarrow> reader" where
  "sc_reader sc = d_reader (sc_decoder sc)"

definition with_reader :: "reader \<Rightarrow> scope \<Rightarrow> scope" where
  "with_reader r sc = sc\<lparr>sc_decoder := Decoder r (d_child (sc_decoder sc)) (d_reserved (sc_decoder sc))\<rparr>"

definition NewDecoder :: "reader \<Rightarrow> decoder" where
  "NewDecoder r = Decoder r None []"

section \<open>Errors and scopes\<close>

text \<open>\<^verbatim>\<open>Fail\<close> on the first error cell; a nil error is \<open>None\<close>.\<close>

definition failAt :: "reader \<Rightarrow> goerror option \<Rightarrow> goerror option \<Rightarrow> goerror option" where
  "failAt r err state =
     (case (err, state) of (Some e, None) \<Rightarrow> Some (decodeError (Offset r) e) | _ \<Rightarrow> state)"

definition Fail :: "goerror option \<Rightarrow> scope \<Rightarrow> scope" where
  "Fail err sc = sc\<lparr>sc_err := failAt (sc_reader sc) err (sc_err sc)\<rparr>"

lemma size_d_child: "d_child d = Some c \<Longrightarrow> size c < size d"
  by (cases d) auto

text \<open>\<^verbatim>\<open>ready\<close> ends an outstanding child, which may in turn have one; \<^verbatim>\<open>End\<close> also rejects unread contents.  Both work
  on a decoder and the shared error cell; \<^verbatim>\<open>ready\<close> is true if the cell is empty afterwards.\<close>

function decoderReady :: "decoder \<Rightarrow> goerror option \<Rightarrow> decoder \<times> goerror option"
  and decoderEnd :: "decoder \<Rightarrow> goerror option \<Rightarrow> decoder \<times> goerror option" where
  "decoderReady d state =
     (case state of
        Some e \<Rightarrow> (d, state)
      | None \<Rightarrow>
          (case d_child d of
             None \<Rightarrow> (d, state)
           | Some child \<Rightarrow>
               (case decoderEnd child state of
                  (_, state') \<Rightarrow> (Decoder (d_reader d) None (d_reserved d), failAt (d_reader d) state' state'))))"
| "decoderEnd d state =
     (case decoderReady d state of
        (d', Some e) \<Rightarrow> (d', Some e)
      | (d', None) \<Rightarrow> (d', failAt (d_reader d') (RequireEmpty (d_reader d')) None))"
  by pat_completeness auto
termination
  by (relation "measure (case_sum (\<lambda>(d, state). 2 * size d) (\<lambda>(d, state). 2 * size d + 1))")
    (auto dest!: size_d_child)

declare decoderReady.simps [simp del] decoderEnd.simps [simp del]

definition ready :: "scope \<Rightarrow> bool \<times> scope" where
  "ready sc =
     (case decoderReady (sc_decoder sc) (sc_err sc) of
        (d, state) \<Rightarrow> (state = None, sc\<lparr>sc_decoder := d, sc_err := state\<rparr>))"

definition Err :: "scope \<Rightarrow> goerror option \<times> scope" where
  "Err sc = (case ready sc of (_, sc') \<Rightarrow> (sc_err sc', sc'))"

definition End :: "scope \<Rightarrow> goerror option \<times> scope" where
  "End sc =
     (case decoderEnd (sc_decoder sc) (sc_err sc) of
        (d, state) \<Rightarrow> (state, sc\<lparr>sc_decoder := d, sc_err := state\<rparr>))"

definition More :: "scope \<Rightarrow> bool \<times> scope" where
  "More sc = (case ready sc of (ok, sc') \<Rightarrow> (ok \<and> \<not> Empty (sc_reader sc'), sc'))"

text \<open>\<^verbatim>\<open>Using\<close>: a function that may consume any part of the scope's reader.  A function over the reader has no
  access to the scope's error cell, so the cell is still empty after it returned.\<close>

definition Using :: "'a \<Rightarrow> 'a unmarshaler \<Rightarrow> scope \<Rightarrow> 'a \<times> scope" where
  "Using zero decode sc =
     (case ready sc of
        (False, sc') \<Rightarrow> (zero, sc')
      | (True, sc') \<Rightarrow>
          let offset = Offset (sc_reader sc')
          in case decode (sc_reader sc') (sc_elements sc') of
               (Inl err, r, n) \<Rightarrow>
                 (zero, Fail (Some (decodeError offset err)) ((with_reader r sc')\<lparr>sc_elements := n\<rparr>))
             | (Inr v, r, n) \<Rightarrow> (v, (with_reader r sc')\<lparr>sc_elements := n\<rparr>))"

definition PeekIdentifier :: "scope \<Rightarrow> ident \<times> scope" where
  "PeekIdentifier = Using zero_identifier (\<lambda>r n. (Reader_PeekIdentifier r, r, n))"

definition NextIs :: "ident \<Rightarrow> scope \<Rightarrow> bool \<times> scope" where
  "NextIs tag sc =
     (case More sc of
        (False, sc') \<Rightarrow> (False, sc')
      | (True, sc') \<Rightarrow> (case PeekIdentifier sc' of (found, sc'') \<Rightarrow> (found = tag \<and> sc_err sc'' = None, sc'')))"

text \<open>\<^verbatim>\<open>Constructed\<close> returns the child scope and records it in the parent.  The two share the error and the count,
  so the model enters the child with \<open>Within\<close>, which runs an operation on it and puts it back in the
  parent.  After a failure the child is a decoder no operation of which reads.\<close>

definition Constructed :: "ident \<Rightarrow> scope \<Rightarrow> decoder \<times> scope" where
  "Constructed tag sc =
     (case ready sc of
        (False, sc') \<Rightarrow> (Decoder (sc_reader sc') None [], sc')
      | (True, sc') \<Rightarrow>
          (case Reader_Constructed tag (sc_reader sc') (sc_elements sc') of
             (Inl err, r, n) \<Rightarrow> (Decoder r None [], Fail (Some err) ((with_reader r sc')\<lparr>sc_elements := n\<rparr>))
           | (Inr contents, r, n) \<Rightarrow>
               (Decoder contents None [],
                sc'\<lparr>sc_decoder := Decoder r (Some (Decoder contents None [])) (d_reserved (sc_decoder sc')),
                    sc_elements := n\<rparr>)))"

definition Within :: "ident \<Rightarrow> (scope \<Rightarrow> 'a \<times> scope) \<Rightarrow> scope \<Rightarrow> 'a \<times> scope" where
  "Within tag body sc =
     (case Constructed tag sc of
        (child, sc') \<Rightarrow>
          (case body \<lparr>sc_decoder = child, sc_err = sc_err sc', sc_elements = sc_elements sc'\<rparr> of
             (v, csc) \<Rightarrow>
               (v, \<lparr>sc_decoder =
                      (if sc_err sc' \<noteq> None then sc_decoder sc'
                       else Decoder (sc_reader sc') (Some (sc_decoder csc)) (d_reserved (sc_decoder sc'))),
                    sc_err = sc_err csc, sc_elements = sc_elements csc\<rparr>)))"

section \<open>Values\<close>

text \<open>\<^verbatim>\<open>one\<close> bounds a custom decoder to the next element.  The probe reads on copies of the reader and of the count;
  the bounded reader is a copy whose data ends after the element.\<close>

definition one :: "'a \<Rightarrow> 'a unmarshaler \<Rightarrow> scope \<Rightarrow> 'a \<times> scope" where
  "one zero decode sc =
     (case ready sc of
        (False, sc') \<Rightarrow> (zero, sc')
      | (True, sc') \<Rightarrow>
          (case ReadElement (sc_reader sc') (sc_elements sc') of
             (Inl err, _, _) \<Rightarrow> (zero, Fail (Some err) sc')
           | (Inr _, probe, _) \<Rightarrow>
               let bounded = (sc_reader sc')\<lparr>r_data := take (r_pos probe) (r_data (sc_reader sc'))\<rparr>;
                   start = r_pos bounded
               in case decode bounded (sc_elements sc') of
                    (out, bounded', n) \<Rightarrow>
                      let bounded = bounded\<lparr>r_pos := r_pos bounded'\<rparr>;
                          sc2 = (with_reader ((sc_reader sc')\<lparr>r_pos := r_pos bounded\<rparr>) sc')\<lparr>sc_elements := n\<rparr>;
                          err = (case out of
                                   Inl e \<Rightarrow> Some e
                                 | Inr v \<Rightarrow> if r_pos bounded = start then Some ErrNoProgress
                                           else RequireEmpty bounded)
                      in case (err, out) of
                           (None, Inr v) \<Rightarrow> (v, sc2)
                         | (Some e, _) \<Rightarrow> (zero, Fail (Some (decodeError (r_base bounded + start) e)) sc2)
                         | (None, Inl e) \<Rightarrow> (zero, sc2)))"

text \<open>\<^verbatim>\<open>Read\<close> and \<^verbatim>\<open>ReadAs\<close> pass the \<^verbatim>\<open>UnmarshalBER\<close> method, bound to an identifier or not.\<close>

definition Read :: "'a \<Rightarrow> 'a unmarshaler \<Rightarrow> scope \<Rightarrow> 'a \<times> scope" where
  "Read zero unmarshalBER = one zero unmarshalBER"

definition ReadAs :: "'a \<Rightarrow> (ident \<Rightarrow> 'a unmarshaler) \<Rightarrow> ident \<Rightarrow> scope \<Rightarrow> 'a \<times> scope" where
  "ReadAs zero unmarshalAs tag = one zero (unmarshalAs tag)"

text \<open>\<^verbatim>\<open>Embed\<close>: the method \<^verbatim>\<open>UnmarshalBERFields\<close> works in this scope and returns its error or its value.\<close>

definition Embed :: "'a \<Rightarrow> (scope \<Rightarrow> (goerror + 'a) \<times> scope) \<Rightarrow> scope \<Rightarrow> 'a \<times> scope" where
  "Embed zero unmarshalFields sc =
     (case ready sc of
        (False, sc') \<Rightarrow> (zero, sc')
      | (True, sc') \<Rightarrow>
          (case unmarshalFields sc' of
             (out, sc2) \<Rightarrow>
               (case Err (Fail (case out of Inl e \<Rightarrow> Some e | Inr _ \<Rightarrow> None) sc2) of
                  (Some _, sc3) \<Rightarrow> (zero, sc3)
                | (None, sc3) \<Rightarrow> (case out of Inl _ \<Rightarrow> zero | Inr v \<Rightarrow> v, sc3))))"


section \<open>Collections\<close>

lemma scope_simps [simp]:
  "sc_reader (with_reader r sc) = r"
  "sc_err (with_reader r sc) = sc_err sc"
  "sc_elements (with_reader r sc) = sc_elements sc"
  "d_child (sc_decoder (with_reader r sc)) = d_child (sc_decoder sc)"
  "d_reserved (sc_decoder (with_reader r sc)) = d_reserved (sc_decoder sc)"
  "sc_reader (sc\<lparr>sc_elements := n\<rparr>) = sc_reader sc"
  "sc_reader (sc\<lparr>sc_err := e\<rparr>) = sc_reader sc"
  "sc_reader (Fail err sc) = sc_reader sc"
  "sc_elements (Fail err sc) = sc_elements sc"
  by (simp_all add: sc_reader_def with_reader_def Fail_def)

lemma failAt_simps [simp]:
  "failAt r None state = state"
  "failAt r err (Some e) = Some e"
  "failAt r (Some e) None = Some (decodeError (Offset r) e)"
  by (simp_all add: failAt_def split: option.splits)

lemma sc_err_Fail [simp]: "sc_err (Fail err sc) = None \<longleftrightarrow> err = None \<and> sc_err sc = None"
  by (cases err; cases "sc_err sc") (auto simp: Fail_def)

lemma decoderReady_reader [simp]: "d_reader (fst (decoderReady d state)) = d_reader d"
  by (simp add: decoderReady.simps split: option.splits prod.splits)

lemma ready_reader: "ready sc = (ok, sc') \<Longrightarrow> sc_reader sc' = sc_reader sc \<and> sc_elements sc' = sc_elements sc"
  using decoderReady_reader [of "sc_decoder sc" "sc_err sc"]
  by (auto simp: ready_def sc_reader_def simp del: decoderReady_reader split: prod.splits)

lemma ready_err: "ready sc = (ok, sc') \<Longrightarrow> ok \<longleftrightarrow> sc_err sc' = None"
  by (auto simp: ready_def split: prod.splits)

text \<open>A successful \<^verbatim>\<open>one\<close> moved the reader to the end of the probed element.\<close>

lemma one_progress:
  assumes "one zero decode sc = (v, sc')" and "sc_err sc' = None"
  shows "Remaining (sc_reader sc') < Remaining (sc_reader sc)"
proof -
  obtain ok sc1 where rd: "ready sc = (ok, sc1)" by (metis surj_pair)
  note rr = ready_reader [OF rd] ready_err [OF rd]
  have ok: ok using assms rd rr by (auto simp: one_def split: prod.splits if_splits bool.splits)
  let ?r = "sc_reader sc1" and ?n = "sc_elements sc1"
  obtain out probe m where read: "ReadElement ?r ?n = (out, probe, m)" by (metis surj_pair)
  from assms rd ok read obtain e where e: "out = Inr e"
    by (cases out) (auto simp: one_def)
  note prog = ReadElement_progress(2) [OF read [unfolded e]]
  let ?b = "?r\<lparr>r_data := take (r_pos probe) (r_data ?r)\<rparr>"
  obtain res b' m' where dec: "decode ?b ?n = (res, b', m')" by (metis surj_pair)
  have un: "one zero decode sc =
      (let bounded = ?b\<lparr>r_pos := r_pos b'\<rparr>;
           sc2 = (with_reader (?r\<lparr>r_pos := r_pos bounded\<rparr>) sc1)\<lparr>sc_elements := m'\<rparr>;
           err = (case res of Inl e \<Rightarrow> Some e
                  | Inr v \<Rightarrow> if r_pos bounded = r_pos ?b then Some ErrNoProgress else RequireEmpty bounded)
       in case (err, res) of
            (None, Inr v) \<Rightarrow> (v, sc2)
          | (Some e, _) \<Rightarrow> (zero, Fail (Some (decodeError (r_base bounded + r_pos ?b) e)) sc2)
          | (None, Inl e) \<Rightarrow> (zero, sc2))"
    using rd ok read e dec by (simp add: one_def Let_def)
  from assms un have "\<exists>w. res = Inr w"
    by (cases res) (auto simp: Let_def)
  with assms un have re: "RequireEmpty (?b\<lparr>r_pos := r_pos b'\<rparr>) = None"
    and sc': "sc_reader sc' = ?r\<lparr>r_pos := r_pos b'\<rparr>"
    by (auto simp: Let_def split: if_splits option.splits)
  have "r_data probe = r_data ?r" "r_pos probe \<le> length (r_data ?r)"
    using ReadElement_inv [OF read [unfolded e]] prog
    by (auto simp: Remaining_def advance_def unread_def dest: arg_cong [of _ _ length])
  with re have "r_pos probe \<le> r_pos b'"
    by (auto simp: RequireEmpty_def Empty_def Remaining_def split: if_splits)
  with prog sc' rr(1) \<open>r_data probe = r_data ?r\<close> show ?thesis by (simp add: Remaining_def)
qed

lemma More_reader: "More sc = (b, sc') \<Longrightarrow> sc_reader sc' = sc_reader sc \<and> sc_elements sc' = sc_elements sc"
  by (auto simp: More_def split: prod.splits dest: ready_reader)

lemma More_one_progress:
  "More sc = (b, sc1) \<Longrightarrow> one zero decode sc1 = (v, sc2) \<Longrightarrow> sc_err sc2 = None \<Longrightarrow>
     Remaining (sc_reader sc2) < Remaining (sc_reader sc)"
  by (metis More_reader one_progress)

function AllLoop :: "'a \<Rightarrow> 'a unmarshaler \<Rightarrow> 'a list \<Rightarrow> scope \<Rightarrow> 'a list \<times> scope" where
  "AllLoop zero decode values sc =
     (case More sc of
        (True, sc1) \<Rightarrow>
          (case one zero decode sc1 of
             (v, sc2) \<Rightarrow>
               if sc_err sc2 \<noteq> None then ([], sc2) else AllLoop zero decode (values @ [v]) sc2)
      | (False, sc1) \<Rightarrow>
          (case End sc1 of (Some _, sc2) \<Rightarrow> ([], sc2) | (None, sc2) \<Rightarrow> (values, sc2)))"
  by pat_completeness auto
termination
  by (relation "measure (\<lambda>(zero, decode, values, sc). Remaining (sc_reader sc))")
    (auto dest: More_one_progress [OF sym sym])

declare AllLoop.simps [simp del]

definition AllUsing :: "'a \<Rightarrow> 'a unmarshaler \<Rightarrow> scope \<Rightarrow> 'a list \<times> scope" where
  "AllUsing zero decode = AllLoop zero decode []"

definition All_values :: "'a \<Rightarrow> 'a unmarshaler \<Rightarrow> scope \<Rightarrow> 'a list \<times> scope" where
  "All_values zero unmarshalBER = AllUsing zero unmarshalBER"


text \<open>\<^verbatim>\<open>Reserve\<close> adds to the set of reserved identifiers, here a list read by membership.\<close>

definition Reserve :: "ident list \<Rightarrow> scope \<Rightarrow> scope" where
  "Reserve ids sc =
     (case ready sc of
        (False, sc') \<Rightarrow> sc'
      | (True, sc') \<Rightarrow>
          sc'\<lparr>sc_decoder := Decoder (sc_reader sc') (d_child (sc_decoder sc')) (d_reserved (sc_decoder sc') @ ids)\<rparr>)"

definition duplicateField :: "ident \<Rightarrow> goerror" where
  "duplicateField tag = Wrapf ''%w: duplicate or out-of-order field %s'' [AId tag] ErrUnexpectedIdentifier"

text \<open>The body of the loop up to the error test: the peek, the reservation check and the value.\<close>

definition extensionStep :: "'a \<Rightarrow> 'a unmarshaler \<Rightarrow> scope \<Rightarrow> 'a \<times> scope" where
  "extensionStep zero unmarshalBER sc =
     (case PeekIdentifier sc of
        (tag, sc1) \<Rightarrow>
          Read zero unmarshalBER
            (if tag \<in> set (d_reserved (sc_decoder sc1)) then Fail (Some (duplicateField tag)) sc1 else sc1))"

lemma PeekIdentifier_reader:
  "PeekIdentifier sc = (tag, sc') \<Longrightarrow> sc_reader sc' = sc_reader sc"
  by (auto simp: PeekIdentifier_def Using_def Let_def split: prod.splits bool.splits sum.splits dest: ready_reader)

lemma extensionStep_progress:
  assumes "More sc = (b, sc1)" and "extensionStep zero unmarshalBER sc1 = (v, sc2)" and "sc_err sc2 = None"
  shows "Remaining (sc_reader sc2) < Remaining (sc_reader sc)"
proof -
  obtain tag scp where p: "PeekIdentifier sc1 = (tag, scp)" by (metis surj_pair)
  let ?sc = "if tag \<in> set (d_reserved (sc_decoder scp)) then Fail (Some (duplicateField tag)) scp else scp"
  have "one zero unmarshalBER ?sc = (v, sc2)" using assms(2) p by (simp add: extensionStep_def Read_def)
  then have "Remaining (sc_reader sc2) < Remaining (sc_reader ?sc)" using assms(3) by (rule one_progress)
  then show ?thesis using PeekIdentifier_reader [OF p] More_reader [OF assms(1)] by (simp split: if_splits)
qed

function ExtensionsLoop :: "'a \<Rightarrow> 'a unmarshaler \<Rightarrow> 'a list \<Rightarrow> scope \<Rightarrow> 'a list \<times> scope" where
  "ExtensionsLoop zero unmarshalBER values sc =
     (case More sc of
        (True, sc1) \<Rightarrow>
          (case extensionStep zero unmarshalBER sc1 of
             (v, sc2) \<Rightarrow>
               if sc_err sc2 \<noteq> None then ([], sc2) else ExtensionsLoop zero unmarshalBER (values @ [v]) sc2)
      | (False, sc1) \<Rightarrow>
          (case End sc1 of (Some _, sc2) \<Rightarrow> ([], sc2) | (None, sc2) \<Rightarrow> (values, sc2)))"
  by pat_completeness auto
termination
  by (relation "measure (\<lambda>(zero, unmarshalBER, values, sc). Remaining (sc_reader sc))")
    (auto dest: extensionStep_progress [OF sym sym])

declare ExtensionsLoop.simps [simp del]

definition Extensions :: "'a \<Rightarrow> 'a unmarshaler \<Rightarrow> ident list \<Rightarrow> scope \<Rightarrow> 'a list \<times> scope" where
  "Extensions zero unmarshalBER ids sc = ExtensionsLoop zero unmarshalBER [] (Reserve ids sc)"

section \<open>Basic values\<close>

definition Primitive :: "ident \<Rightarrow> scope \<Rightarrow> bytes \<times> scope" where
  "Primitive tag = Using [] (Reader_Primitive tag)"

definition OctetString :: "scope \<Rightarrow> bytes \<times> scope" where
  "OctetString = Primitive OctetStringIdentifier"

definition Boolean :: "scope \<Rightarrow> bool \<times> scope" where
  "Boolean = Using False Reader_Boolean"

definition BooleanAs :: "ident \<Rightarrow> scope \<Rightarrow> bool \<times> scope" where
  "BooleanAs tag = Using False (\<lambda>r n.
     case Reader_Primitive tag r n of
       (Inl err, r', n') \<Rightarrow> (Inl err, r', n')
     | (Inr v, r', n') \<Rightarrow>
         if \<not> booleanContents v then (Inl ErrInvalidBoolean, r', n') else (Inr (v ! 0 \<noteq> 0), r', n'))"

definition IntegerAs :: "inttype \<Rightarrow> ident \<Rightarrow> scope \<Rightarrow> int \<times> scope" where
  "IntegerAs T tag = Using 0 (reader_integer T tag)"

definition Integer :: "inttype \<Rightarrow> scope \<Rightarrow> int \<times> scope" where
  "Integer T = IntegerAs T IntegerIdentifier"

definition Enumerated :: "inttype \<Rightarrow> scope \<Rightarrow> int \<times> scope" where
  "Enumerated T = IntegerAs T EnumeratedIdentifier"

definition NullAs :: "ident \<Rightarrow> scope \<Rightarrow> unit \<times> scope" where
  "NullAs tag = Using () (\<lambda>r n.
     case Reader_Primitive tag r n of
       (Inl err, r', n') \<Rightarrow> (Inl err, r', n')
     | (Inr v, r', n') \<Rightarrow> if v \<noteq> [] then (Inl ErrInvalidNull, r', n') else (Inr (), r', n'))"

definition Null :: "scope \<Rightarrow> unit \<times> scope" where
  "Null = NullAs NullIdentifier"

text \<open>The two ways the \<^verbatim>\<open>UnmarshalBER\<close> methods start: \<^verbatim>\<open>NewDecoder(r)\<close>, and \<^verbatim>\<open>NewDecoder(r).Constructed(id)\<close> whose
  parent is then dropped.  The body returns the method's error or the value it assigns.\<close>

definition decode_with :: "(scope \<Rightarrow> (goerror + 'a) \<times> scope) \<Rightarrow> 'a unmarshaler" where
  "decode_with body r n =
     (case body \<lparr>sc_decoder = NewDecoder r, sc_err = None, sc_elements = n\<rparr> of
        (out, sc) \<Rightarrow> (out, sc_reader sc, sc_elements sc))"

definition decode_in :: "ident \<Rightarrow> (scope \<Rightarrow> (goerror + 'a) \<times> scope) \<Rightarrow> 'a unmarshaler" where
  "decode_in tag body = decode_with (Within tag body)"

text \<open>\<^verbatim>\<open>if err := d.End(); err != nil { return err }\<close>, and the same with \<^verbatim>\<open>d.Err()\<close>.\<close>

definition ended :: "(goerror + 'a) \<Rightarrow> scope \<Rightarrow> (goerror + 'a) \<times> scope" where
  "ended result sc = (case End sc of (Some e, sc') \<Rightarrow> (Inl e, sc') | (None, sc') \<Rightarrow> (result, sc'))"

definition checked :: "(goerror + 'a) \<Rightarrow> scope \<Rightarrow> (goerror + 'a) \<times> scope" where
  "checked result sc = (case Err sc of (Some e, sc') \<Rightarrow> (Inl e, sc') | (None, sc') \<Rightarrow> (result, sc'))"


section \<open>After a failure\<close>

text \<open>Once the first error is recorded every operation returns its zero value and changes nothing.\<close>

lemma ready_failed: "sc_err sc = Some e \<Longrightarrow> ready sc = (False, sc)"
  by (simp add: ready_def decoderReady.simps)

lemma Fail_failed: "sc_err sc = Some e \<Longrightarrow> Fail err sc = sc"
  by (simp add: Fail_def)

lemma End_failed: "sc_err sc = Some e \<Longrightarrow> End sc = (Some e, sc)"
  by (simp add: End_def decoderEnd.simps decoderReady.simps)

lemma op_failed:
  assumes "sc_err sc = Some e"
  shows "Err sc = (Some e, sc)" "More sc = (False, sc)" "Using z decode sc = (z, sc)" "one z decode sc = (z, sc)"
    "NextIs tag sc = (False, sc)" "Reserve ids sc = sc" "Embed z unmarshalFields sc = (z, sc)"
    "snd (Constructed tag sc) = sc"
  using ready_failed [OF assms] assms
  by (simp_all add: Err_def More_def Using_def one_def NextIs_def Reserve_def Embed_def Constructed_def)

lemma loop_failed:
  assumes "sc_err sc = Some e"
  shows "AllUsing z decode sc = ([], sc)" "Extensions z decode ids sc = ([], sc)"
  using assms op_failed [OF assms] End_failed [OF assms]
  by (simp_all add: AllUsing_def Extensions_def AllLoop.simps [of _ _ _ sc] ExtensionsLoop.simps [of _ _ _ sc])

section \<open>Steps of an open scope\<close>

text \<open>The scope of a decoder over \<open>r\<close> that has not failed; its outstanding child, if any, is at its end.\<close>

definition scope_at :: "reader \<Rightarrow> decoder option \<Rightarrow> ident list \<Rightarrow> nat \<Rightarrow> scope" where
  "scope_at r c res n = \<lparr>sc_decoder = Decoder r c res, sc_err = None, sc_elements = n\<rparr>"

definition finished :: "decoder option \<Rightarrow> bool" where
  "finished c = (case c of None \<Rightarrow> True | Some d \<Rightarrow> snd (decoderEnd d None) = None)"

lemma finished_None [simp]: "finished None"
  by (simp add: finished_def)

lemma scope_at_simps [simp]:
  "sc_decoder (scope_at r c res n) = Decoder r c res" "sc_err (scope_at r c res n) = None"
  "sc_elements (scope_at r c res n) = n" "sc_reader (scope_at r c res n) = r"
  "(scope_at r c res n)\<lparr>sc_elements := m\<rparr> = scope_at r c res m"
  "with_reader r' (scope_at r c res n) = scope_at r' c res n"
  by (simp_all add: scope_at_def sc_reader_def with_reader_def)

lemma ready_at [simp]: "finished c \<Longrightarrow> ready (scope_at r c res n) = (True, scope_at r None res n)"
  by (auto simp: ready_def decoderReady.simps finished_def scope_at_def split: option.splits prod.splits)

lemma RequireEmpty_unread: "RequireEmpty r = None \<longleftrightarrow> unread r = []"
  by (simp add: RequireEmpty_def Empty_unread)

lemma decoderEnd_at: "finished c \<Longrightarrow> unread r = [] \<Longrightarrow> decoderEnd (Decoder r c res) None = (Decoder r None res, None)"
  by (auto simp: decoderEnd.simps [of "Decoder r c res"] decoderReady.simps [of "Decoder r c res"]
      finished_def RequireEmpty_unread [THEN iffD2] split: option.splits prod.splits)

lemma finished_Some [simp]: "finished c \<Longrightarrow> unread r = [] \<Longrightarrow> finished (Some (Decoder r c res))"
  by (simp add: finished_def [of "Some _"] decoderEnd_at)

lemma Err_at [simp]: "finished c \<Longrightarrow> Err (scope_at r c res n) = (None, scope_at r None res n)"
  by (simp add: Err_def)

lemma End_at [simp]: "finished c \<Longrightarrow> unread r = [] \<Longrightarrow> End (scope_at r c res n) = (None, scope_at r None res n)"
  by (simp add: End_def decoderEnd_at)

lemma ended_at [simp]: "finished c \<Longrightarrow> unread r = [] \<Longrightarrow> ended a (scope_at r c res n) = (a, scope_at r None res n)"
  by (simp add: ended_def)

lemma checked_at [simp]: "finished c \<Longrightarrow> checked a (scope_at r c res n) = (a, scope_at r None res n)"
  by (simp add: checked_def)

lemma More_at [simp]: "finished c \<Longrightarrow> More (scope_at r c res n) = (unread r \<noteq> [], scope_at r None res n)"
  by (simp add: More_def Empty_unread)

lemma Reserve_at [simp]: "finished c \<Longrightarrow> Reserve ids (scope_at r c res n) = scope_at r None (res @ ids) n"
  by (simp add: Reserve_def)

lemma Using_at:
  "finished c \<Longrightarrow> decode r n = (Inr v, r', n') \<Longrightarrow> Using z decode (scope_at r c res n) = (v, scope_at r' None res n')"
  by (simp add: Using_def)

lemma PeekIdentifier_at:
  assumes "finished c" "unread r = tlv tag v @ ts" "tag_ok (r_limits r) tag"
  shows "PeekIdentifier (scope_at r c res n) = (tag, scope_at r None res n)"
proof -
  have "decodeIdentifier (unread r) (MaxTagNumber (r_limits r)) = Inr (tag, length (identifier_octets tag))"
    using assms(3) unfolding assms(2) tlv_def append.assoc
    by (intro decodeIdentifier_octets) (auto simp: tag_ok_def)
  then have "Reader_PeekIdentifier r = Inr tag" by (simp add: Reader_PeekIdentifier_def unread_def)
  with assms(1) show ?thesis by (simp add: PeekIdentifier_def Using_at)
qed

lemma NextIs_at_end: "finished c \<Longrightarrow> unread r = [] \<Longrightarrow> NextIs t (scope_at r c res n) = (False, scope_at r None res n)"
  by (simp add: NextIs_def)

lemma NextIs_at:
  assumes "finished c" "unread r = tlv tag v @ ts" "tag_ok (r_limits r) tag"
  shows "NextIs t (scope_at r c res n) = (tag = t, scope_at r None res n)"
proof -
  have "unread r \<noteq> []" using assms(2) by (simp add: tlv_def length_octets_def)
  with assms PeekIdentifier_at [OF finished_None assms(2,3)] show ?thesis by (simp add: NextIs_def)
qed

text \<open>The reader \<^verbatim>\<open>one\<close> hands to a custom decoder.\<close>

definition bound :: "nat \<Rightarrow> reader \<Rightarrow> reader" where
  "bound k r = r\<lparr>r_data := take (r_pos r + k) (r_data r)\<rparr>"

lemma bound_simps [simp]:
  "r_limits (bound k r) = r_limits r" "r_depth (bound k r) = r_depth r" "r_pos (bound k r) = r_pos r"
  "r_base (bound k r) = r_base r" "Offset (bound k r) = Offset r"
  "unread (bound k r) = take k (unread r)"
  by (simp_all add: bound_def Offset_def unread_def take_drop add.commute)

lemma one_at:
  assumes c: "finished c" and un: "unread r = tlv tag v @ ts" and tag: "tag_ok (r_limits r) tag"
    and len: "length v \<le> MaxInt" and el: "int n \<noteq> MaxElements (r_limits r)"
    and dec: "decode (bound (length (tlv tag v)) r) n
        = (Inr a, advance (length (tlv tag v)) (bound (length (tlv tag v)) r), n')"
  shows "one z decode (scope_at r c res n) = (a, scope_at (advance (length (tlv tag v)) r) None res n')"
proof -
  let ?k = "length (tlv tag v)"
  have k: "0 < ?k" by (simp add: tlv_def length_octets_def)
  have read: "ReadElement r n = (Inr (element_of r tag v), advance ?k r, n + 1)"
    using ReadElement_tlv [OF un tag len, of n] el by simp
  have b: "r\<lparr>r_data := take (r_pos r + ?k) (r_data r)\<rparr> = bound ?k r" by (simp add: bound_def)
  have "unread ((bound ?k r)\<lparr>r_pos := r_pos r + ?k\<rparr>) = []"
    by (simp add: unread_def bound_def)
  then have "RequireEmpty ((bound ?k r)\<lparr>r_pos := r_pos r + ?k\<rparr>) = None" by (simp add: RequireEmpty_unread)
  with c read dec k show ?thesis
    by (simp add: one_def Let_def b)
qed

lemma Within_at:
  assumes c: "finished c" and un: "unread r = tlv tag w @ ts" and tag: "tag_ok (r_limits r) tag" "id_constructed tag"
    and len: "length w \<le> MaxInt" and el: "int n \<noteq> MaxElements (r_limits r)" "int (r_depth r) \<noteq> MaxDepth (r_limits r)"
    and body: "body (scope_at (contentsReader r (element_of r tag w)) None [] (n + 1)) = (a, scope_at r1 c1 res1 n1)"
  shows "Within tag body (scope_at r c res n) =
     (a, scope_at (advance (length (tlv tag w)) r) (Some (Decoder r1 c1 res1)) res n1)"
proof -
  have read: "ReadElement r n = (Inr (element_of r tag w), advance (length (tlv tag w)) r, n + 1)"
    using ReadElement_tlv [OF un tag(1) len, of n] el by simp
  have "Reader_Constructed tag r n
      = (Inr (contentsReader r (element_of r tag w)), advance (length (tlv tag w)) r, n + 1)"
    using read tag(2) el(2) by (simp add: Reader_Constructed_def) (simp add: element_of_def)
  with c body show ?thesis
    by (simp add: Within_def Constructed_def) (simp add: scope_at_def sc_reader_def)
qed

lemma decode_with_at:
  "body (scope_at r None [] n) = (out, scope_at r1 c1 res1 n1) \<Longrightarrow> decode_with body r n = (out, r1, n1)"
  by (simp add: decode_with_def NewDecoder_def scope_at_def sc_reader_def)

section \<open>Properties\<close>

text \<open>(C28) The first error sticks: once a decoder, or a scope it shares its state with, has failed, every operation
  returns its zero value, none reads input or runs the decoder it was given, the recorded error stays, and
  \<^verbatim>\<open>Err\<close> and \<^verbatim>\<open>End\<close> report it.\<close>

theorem first_error_sticks:
  assumes "sc_err sc = Some e"
  shows "Err sc = (Some e, sc) \<and> End sc = (Some e, sc) \<and> Fail err sc = sc
    \<and> More sc = (False, sc) \<and> NextIs tag sc = (False, sc) \<and> PeekIdentifier sc = (zero_identifier, sc)
    \<and> Using z f sc = (z, sc) \<and> Read z f sc = (z, sc) \<and> ReadAs z g tag sc = (z, sc) \<and> Embed z h sc = (z, sc)
    \<and> AllUsing z f sc = ([], sc) \<and> Extensions z f ids sc = ([], sc) \<and> Reserve ids sc = sc
    \<and> Primitive tag sc = ([], sc) \<and> Boolean sc = (False, sc) \<and> IntegerAs T tag sc = (0, sc)
    \<and> snd (Constructed tag sc) = sc"
  by (simp add: op_failed [OF assms] loop_failed [OF assms] End_failed [OF assms] Fail_failed [OF assms]
      PeekIdentifier_def Read_def ReadAs_def Primitive_def Boolean_def IntegerAs_def)

theorem first_error_sticks_witness:
  "Primitive OctetStringIdentifier
     \<lparr>sc_decoder = NewDecoder \<lparr>r_data = [4, 0], r_pos = 0, r_base = 0, r_depth = 0, r_limits = DefaultLimits\<rparr>,
      sc_err = Some ErrTruncated, sc_elements = 0\<rparr>
   = ([], \<lparr>sc_decoder = NewDecoder \<lparr>r_data = [4, 0], r_pos = 0, r_base = 0, r_depth = 0, r_limits = DefaultLimits\<rparr>,
      sc_err = Some ErrTruncated, sc_elements = 0\<rparr>)"
proof -
  let ?sc = "\<lparr>sc_decoder = NewDecoder \<lparr>r_data = [4, 0], r_pos = 0, r_base = 0, r_depth = 0, r_limits = DefaultLimits\<rparr>,
      sc_err = Some ErrTruncated, sc_elements = 0\<rparr>"
  have "sc_err ?sc = Some ErrTruncated" by simp
  from first_error_sticks [OF this, of None OctetStringIdentifier "()" "\<lambda>r n. (Inr (), r, n)" "\<lambda>_ r n. (Inr (), r, n)"
      "\<lambda>sc. (Inr (), sc)" "[]" Int64]
  show ?thesis by simp
qed

text \<open>Every value read consumes input, whatever its custom decoder does: after a successful \<^verbatim>\<open>Read\<close> strictly fewer
  bytes remain in the scope, so the loops of \<^verbatim>\<open>All\<close> and \<^verbatim>\<open>Extensions\<close> end.\<close>

theorem Read_consumes:
  assumes "Read z f sc = (v, sc')" and "sc_err sc' = None"
  shows "Remaining (sc_reader sc') < Remaining (sc_reader sc)"
  using assms unfolding Read_def by (rule one_progress)

theorem Read_consumes_witness:
  "\<exists>v sc'. Read [] (Reader_Primitive OctetStringIdentifier)
      \<lparr>sc_decoder = NewDecoder \<lparr>r_data = [4, 0], r_pos = 0, r_base = 0, r_depth = 0, r_limits = DefaultLimits\<rparr>,
       sc_err = None, sc_elements = 0\<rparr> = (v, sc') \<and> sc_err sc' = None \<and> Remaining (sc_reader sc') < 2"
proof -
  let ?r = "\<lparr>r_data = [4, 0], r_pos = 0, r_base = 0, r_depth = 0, r_limits = DefaultLimits\<rparr>"
  let ?sc = "\<lparr>sc_decoder = NewDecoder ?r, sc_err = None, sc_elements = 0\<rparr>"
  obtain v sc' where rd: "Read [] (Reader_Primitive OctetStringIdentifier) ?sc = (v, sc')" by (metis surj_pair)
  have "sc_err (snd (Read [] (Reader_Primitive OctetStringIdentifier) ?sc)) = None" by code_simp
  then have e: "sc_err sc' = None" by (simp add: rd)
  from Read_consumes [OF rd e] have "Remaining (sc_reader sc') < 2"
    by (simp add: sc_reader_def NewDecoder_def Remaining_def)
  with rd e show ?thesis by blast
qed

end
