(* ===== verification/Ber_Codec.thy ===== *)
theory Ber_Codec
  imports Ber_Decoder
begin

text \<open>
  The contract between a value's encoder and its decoder, and what collections and enclosing values get from it.

  A value's \<^verbatim>\<open>BERPacket\<close> may contain pre-encoded parts, so its encoding is described by the plain element tree
  that has the same octets.  The locale \<open>codec\<close> states the contract: whenever the encoding of a valid value is
  such a tree and the tree fits the reader's limits, the decoder returns the value, moves past the encoding
  and charges one count per element.  \<open>read_value\<close>, \<open>all_values\<close> and \<open>extension_values\<close> lift the contract to the
  scoped decoder's \<^verbatim>\<open>Read\<close>, \<^verbatim>\<open>All\<close> and \<^verbatim>\<open>Extensions\<close>.
\<close>

section \<open>Elements and forests\<close>

lemma tlv_inj:
  assumes eq: "tlv t v @ ts = tlv t' v' @ us" and ok: "Identifier_Valid t" "Identifier_Valid t'"
    and len: "length v \<le> MaxInt" "length v' \<le> MaxInt"
  shows "t = t' \<and> v = v' \<and> ts = us"
proof -
  have "unat x \<le> max 30 (unat (- 1 :: u32))" for x :: u32
    using unat_u32_less [of x] by (simp add: unsigned_minus_1_eq_mask mask_eq_exp_minus_1)
  then have "decodeIdentifier (tlv t v @ ts) (- 1) = Inr (t, length (identifier_octets t))"
    "decodeIdentifier (tlv t' v' @ us) (- 1) = Inr (t', length (identifier_octets t'))"
    using ok by (simp_all add: tlv_def decodeIdentifier_octets)
  with eq have t: "t = t'" by simp
  with eq have l: "length_octets (length v) @ v @ ts = length_octets (length v') @ v' @ us"
    by (simp add: tlv_def)
  with decodeLength_octets [OF len(1), of "v @ ts"] decodeLength_octets [OF len(2), of "v' @ us"]
  have "length v = length v'" by simp
  with l t show ?thesis by simp
qed

lemma tree_ok_facts:
  assumes "tree_ok lim p"
  shows "tag_ok lim (p_identifier p)" "Identifier_Valid (p_identifier p)" "length (packet_contents p) \<le> MaxInt"
    "\<not> p_encoded p" "id_constructed (p_identifier p) \<Longrightarrow> list_all (tree_ok lim) (p_children p)"
  using assms by (auto simp: tree_ok.simps [of lim p] tag_ok_def)

lemma tree_of_tlv:
  assumes "tree_ok lim p" "packet_octets p = tlv t v" "Identifier_Valid t" "length v \<le> MaxInt"
  shows "p_identifier p = t \<and> packet_contents p = v"
  using tlv_inj [of "p_identifier p" "packet_contents p" "[]" t v "[]"] assms tree_ok_facts [OF assms(1)]
  by (simp add: tree_octets(1))

definition forest_fits :: "reader \<Rightarrow> nat \<Rightarrow> packet list \<Rightarrow> bool" where
  "forest_fits r n ps \<longleftrightarrow> list_all (tree_ok (r_limits r)) ps \<and> length (forest_octets ps) \<le> MaxInt
     \<and> (ps \<noteq> [] \<longrightarrow> 8 \<le> MaxIntegerBytes (r_limits r)
                    \<and> int (r_depth r + forest_height ps) \<le> MaxDepth (r_limits r)
                    \<and> int (n + forest_nodes ps) \<le> MaxElements (r_limits r))"

text \<open>\<open>holds r n ps\<close>: the unread input of \<open>r\<close> is the forest \<open>ps\<close>, and the limits leave room for it.\<close>

definition holds :: "reader \<Rightarrow> nat \<Rightarrow> packet list \<Rightarrow> bool" where
  "holds r n ps \<longleftrightarrow> unread r = forest_octets ps \<and> forest_fits r n ps"

text \<open>Two packets, or two lists of packets, with the same octets.\<close>

definition same_octets :: "packet \<Rightarrow> packet \<Rightarrow> bool" where
  "same_octets p q \<longleftrightarrow> packet_octets p = packet_octets q"

definition past :: "packet \<Rightarrow> reader \<Rightarrow> reader" where
  "past p r = advance (length (packet_octets p)) r"

lemma past_simps [simp]: "r_limits (past p r) = r_limits r" "r_depth (past p r) = r_depth r"
  by (simp_all add: past_def)

lemma forest_height_Nil [simp]: "forest_height [] = 0"
  by (simp add: forest_height_def)

lemma nodes_pos: "1 \<le> nodes p"
  by (simp add: nodes.simps [of p])

lemma holds_Cons:
  assumes "holds r n (p # ps)"
  shows "holds (past p r) (n + nodes p) ps" "holds (bound (length (packet_octets p)) r) n [p]"
    "unread r = tlv (p_identifier p) (packet_contents p) @ forest_octets ps"
    "packet_octets p = tlv (p_identifier p) (packet_contents p)"
    "tag_ok (r_limits r) (p_identifier p)" "length (packet_contents p) \<le> MaxInt"
    "int n \<noteq> MaxElements (r_limits r)" "tree_ok (r_limits r) p"
    "id_constructed (p_identifier p) \<Longrightarrow> int (r_depth r) \<noteq> MaxDepth (r_limits r)"
proof -
  have t: "tree_ok (r_limits r) p" using assms by (simp add: holds_def forest_fits_def)
  then show "tree_ok (r_limits r) p" .
  show o: "packet_octets p = tlv (p_identifier p) (packet_contents p)" using t by (rule tree_octets(1))
  show "tag_ok (r_limits r) (p_identifier p)" "length (packet_contents p) \<le> MaxInt"
    using tree_ok_facts [OF t] by simp_all
  show "unread r = tlv (p_identifier p) (packet_contents p) @ forest_octets ps"
    using assms o by (simp add: holds_def)
  show "int n \<noteq> MaxElements (r_limits r)"
    using assms nodes_pos [of p] by (auto simp: holds_def forest_fits_def)
  show "holds (past p r) (n + nodes p) ps"
    using assms by (auto simp: holds_def forest_fits_def past_def forest_height_Cons add.assoc)
  show "holds (bound (length (packet_octets p)) r) n [p]"
    using assms by (auto simp: holds_def forest_fits_def forest_height_Cons max_def split: if_splits)
  have "id_constructed (p_identifier p) \<Longrightarrow> 1 \<le> height p" by (simp add: height.simps [of p])
  then show "id_constructed (p_identifier p) \<Longrightarrow> int (r_depth r) \<noteq> MaxDepth (r_limits r)"
    using assms by (auto simp: holds_def forest_fits_def forest_height_Cons)
qed

text \<open>The octets of a list of single elements determine how a forest splits into trees.\<close>

definition single :: "packet \<Rightarrow> bool" where
  "single p \<longleftrightarrow> (\<exists>t v. Identifier_Valid t \<and> packet_octets p = tlv t v)"

lemma forest_split:
  assumes "forest_octets ps = concat (map packet_octets cs)" "list_all single cs"
    "list_all (tree_ok lim) ps" "length (forest_octets ps) \<le> MaxInt"
  shows "list_all2 same_octets ps cs"
  using assms
proof (induction cs arbitrary: ps)
  case Nil
  then show ?case by (cases ps) (auto simp: packet_octets_not_Nil)
next
  case (Cons c cs)
  from Cons.prems(2) obtain t v where c: "Identifier_Valid t" "packet_octets c = tlv t v"
    by (auto simp: single_def)
  have "packet_octets c \<noteq> []" using c by (simp add: tlv_def length_octets_def)
  with Cons.prems(1) obtain q qs where ps: "ps = q # qs" by (cases ps) auto
  have q: "tree_ok lim q" using Cons.prems(3) ps by simp
  note qf = tree_ok_facts [OF q]
  have eq: "tlv (p_identifier q) (packet_contents q) @ forest_octets qs = tlv t v @ concat (map packet_octets cs)"
    using Cons.prems(1) ps c by (simp add: tree_octets(1) [OF q])
  moreover have "length v \<le> MaxInt"
    using Cons.prems(1,4) c by (simp add: length_tlv)
  ultimately have s: "p_identifier q = t \<and> packet_contents q = v \<and> forest_octets qs = concat (map packet_octets cs)"
    using qf c by (intro tlv_inj) auto
  then have "same_octets q c" using c by (simp add: same_octets_def tree_octets(1) [OF q])
  moreover have "list_all2 same_octets qs cs"
    using Cons.prems ps s by (intro Cons.IH) auto
  ultimately show ?case using ps by simp
qed


section \<open>The contract\<close>

locale codec =
  fixes pkt :: "'a \<Rightarrow> packet" and unm :: "'a unmarshaler" and valid :: "'a \<Rightarrow> bool"
  assumes encodes_single: "valid a \<Longrightarrow> single (pkt a)"
    and decodes: "\<lbrakk>valid a; holds r n (p # ps); same_octets p (pkt a)\<rbrakk> \<Longrightarrow>
      unm r n = (Inr a, past p r, n + nodes p)"
begin

lemma read_value:
  assumes "valid a" "holds r n (p # ps)" "same_octets p (pkt a)" "finished c"
  shows "Read z unm (scope_at r c res n) = (a, scope_at (past p r) None res (n + nodes p))"
proof -
  note h = holds_Cons [OF assms(2)]
  have "unm (bound (length (packet_octets p)) r) n
      = (Inr a, past p (bound (length (packet_octets p)) r), n + nodes p)"
    using assms(1) h(2) assms(3) by (rule decodes)
  with one_at [OF assms(4) h(3,5,6,7), of unm a "n + nodes p" z res] show ?thesis
    by (simp add: Read_def past_def h(4))
qed

lemma singles: "list_all valid as \<Longrightarrow> list_all single (map pkt as)"
  by (auto simp: list_all_iff encodes_single)

lemma all_values_acc:
  assumes "list_all valid as" "holds r n ps" "list_all2 same_octets ps (map pkt as)" "finished c"
  shows "\<exists>r'. AllLoop z unm acc (scope_at r c res n) = (acc @ as, scope_at r' None res (n + forest_nodes ps)) \<and> unread r' = []"
  using assms
proof (induction as arbitrary: acc ps r n c)
  case Nil
  then show ?case by (intro exI [of _ r]) (simp add: AllLoop.simps holds_def)
next
  case (Cons a as)
  then obtain p qs where ps: "ps = p # qs" "same_octets p (pkt a)" "list_all2 same_octets qs (map pkt as)"
    by (auto simp: list_all2_Cons2)
  note h = holds_Cons [OF Cons.prems(2) [unfolded ps(1)]]
  have ne: "unread r \<noteq> []" using h(3) by (simp add: tlv_def length_octets_def)
  have "one z unm (scope_at r None res n) = (a, scope_at (past p r) None res (n + nodes p))"
    using read_value [of a r n p qs None z res] Cons.prems ps by (simp add: Read_def)
  moreover obtain r' where "AllLoop z unm (acc @ [a]) (scope_at (past p r) None res (n + nodes p))
      = ((acc @ [a]) @ as, scope_at r' None res (n + nodes p + forest_nodes qs))" "unread r' = []"
    using Cons.IH [of "past p r" "n + nodes p" qs None "acc @ [a]"] Cons.prems h(1) ps by auto
  ultimately show ?case
    using ne Cons.prems(4) by (intro exI [of _ r']) (simp add: AllLoop.simps [of z unm acc "scope_at r c res n"] ps add.assoc)
qed

lemma all_values:
  assumes "list_all valid as" "holds r n ps" "list_all2 same_octets ps (map pkt as)" "finished c"
  shows "\<exists>r'. All_values z unm (scope_at r c res n) = (as, scope_at r' None res (n + forest_nodes ps)) \<and> unread r' = []"
  using all_values_acc [OF assms, of z "[]"] by (simp add: All_values_def AllUsing_def)

lemma extension_values_acc:
  assumes "list_all valid as" "holds r n ps" "list_all2 same_octets ps (map pkt as)" "finished c"
    "list_all (\<lambda>p. p_identifier p \<notin> set res) ps"
  shows "\<exists>r'. ExtensionsLoop z unm acc (scope_at r c res n) = (acc @ as, scope_at r' None res (n + forest_nodes ps)) \<and> unread r' = []"
  using assms
proof (induction as arbitrary: acc ps r n c)
  case Nil
  then show ?case by (intro exI [of _ r]) (simp add: ExtensionsLoop.simps holds_def)
next
  case (Cons a as)
  then obtain p qs where ps: "ps = p # qs" "same_octets p (pkt a)" "list_all2 same_octets qs (map pkt as)"
    by (auto simp: list_all2_Cons2)
  note h = holds_Cons [OF Cons.prems(2) [unfolded ps(1)]]
  have ne: "unread r \<noteq> []" using h(3) by (simp add: tlv_def length_octets_def)
  have "extensionStep z unm (scope_at r None res n) = (a, scope_at (past p r) None res (n + nodes p))"
    using read_value [of a r n p qs None z res] Cons.prems ps PeekIdentifier_at [OF finished_None h(3,5)]
    by (simp add: extensionStep_def)
  moreover obtain r' where "ExtensionsLoop z unm (acc @ [a]) (scope_at (past p r) None res (n + nodes p))
      = ((acc @ [a]) @ as, scope_at r' None res (n + nodes p + forest_nodes qs))" "unread r' = []"
    using Cons.IH [of "past p r" "n + nodes p" qs None "acc @ [a]"] Cons.prems h(1) ps by auto
  ultimately show ?case
    using ne Cons.prems(4) by (intro exI [of _ r']) (simp add: ExtensionsLoop.simps [of z unm acc "scope_at r c res n"] ps add.assoc)
qed

lemma extension_values:
  assumes "list_all valid as" "holds r n ps" "list_all2 same_octets ps (map pkt as)" "finished c"
    "list_all (\<lambda>p. p_identifier p \<notin> set (res @ ids)) ps"
  shows "\<exists>r'. Extensions z unm ids (scope_at r c res n)
     = (as, scope_at r' None (res @ ids) (n + forest_nodes ps)) \<and> unread r' = []"
  using extension_values_acc [OF assms(1-3) finished_None assms(5), of z "[]"] assms(4)
  by (simp add: Extensions_def)

end

section \<open>Constructed values\<close>

text \<open>The reader over the contents of a constructed element.\<close>

definition inside :: "packet \<Rightarrow> reader \<Rightarrow> reader" where
  "inside p r = contentsReader r (element_of r (p_identifier p) (packet_contents p))"

lemma inside_simps [simp]: "r_limits (inside p r) = r_limits r" "r_depth (inside p r) = r_depth r + 1"
  by (simp_all add: inside_def)

lemma holds_inside:
  assumes "holds r n (p # ps)" "id_constructed (p_identifier p)"
  shows "holds (inside p r) (n + 1) (p_children p)" "nodes p = 1 + forest_nodes (p_children p)"
proof -
  note h = holds_Cons [OF assms(1)]
  have un: "unread (inside p r) = packet_contents p" by (simp add: inside_def element_of_def)
  moreover have pc: "packet_contents p = forest_octets (p_children p)" using h(8) assms(2) by (rule tree_octets(2))
  moreover have "height p = 1 + forest_height (p_children p)"
    using assms(2) by (simp add: height.simps [of p] forest_height_def)
  moreover show np: "nodes p = 1 + forest_nodes (p_children p)" by (simp add: nodes.simps [of p] forest_nodes_def)
  ultimately show "holds (inside p r) (n + 1) (p_children p)"
    using assms tree_ok_facts(5) [OF h(8) assms(2)] h(6)
    by (auto simp: holds_def forest_fits_def forest_height_Cons)
qed

lemma within_value:
  assumes "holds r n (p # ps)" "id_constructed (p_identifier p)" "finished c"
    and "body (scope_at (inside p r) None [] (n + 1)) = (a, scope_at r1 c1 res1 n1)"
  shows "Within (p_identifier p) body (scope_at r c res n) = (a, scope_at (past p r) (Some (Decoder r1 c1 res1)) res n1)"
proof -
  note h = holds_Cons [OF assms(1)]
  from Within_at [OF assms(3) h(3,5) assms(2) h(6,7) h(9) [OF assms(2)], of body a r1 c1 res1 n1 res] assms(4)
  show ?thesis by (simp add: inside_def past_def h(4))
qed

lemma decode_in_value:
  assumes "holds r n (p # ps)" "id_constructed (p_identifier p)"
    and "body (scope_at (inside p r) None [] (n + 1)) = (out, scope_at r1 c1 res1 n1)"
  shows "decode_in (p_identifier p) body r n = (out, past p r, n1)"
  unfolding decode_in_def
  by (rule decode_with_at, rule within_value [where body = body, OF assms(1,2) finished_None assms(3)])

text \<open>The tree of a constructed packet: its identifier, and one child for each child packet.\<close>

lemma constructed_tree:
  assumes "holds r n (p # ps)" "same_octets p (Packet t [] cs False False)" "id_constructed t" "Identifier_Valid t"
    "list_all single cs"
  shows "p_identifier p = t \<and> list_all2 same_octets (p_children p) cs"
proof -
  note h = holds_Cons [OF assms(1)]
  let ?v = "concat (map packet_octets cs)"
  have o: "packet_octets p = tlv t ?v"
    using assms(2,3) by (simp add: same_octets_def packet_octets_eq [of "Packet t [] cs False False"] packet_contents_def)
  have "length (packet_octets p) \<le> MaxInt" using assms(1) by (simp add: holds_def forest_fits_def)
  then have len: "length ?v \<le> MaxInt" using o by (simp add: length_tlv)
  have pt: "p_identifier p = t \<and> packet_contents p = ?v"
    by (rule tree_of_tlv [OF h(8) o assms(4) len])
  moreover have "forest_octets (p_children p) = ?v"
    using pt assms(3) tree_octets(2) [OF h(8)] by simp
  ultimately show ?thesis
    using forest_split [of "p_children p" cs "r_limits r"] assms(3,5) tree_ok_facts(5) [OF h(8)] len by simp
qed


section \<open>Basic values\<close>

lemma tag_ok_primitive: "Identifier_Valid t \<Longrightarrow> Identifier_Valid (t\<lparr>id_constructed := b\<rparr>)"
  by (simp add: Identifier_Valid_def)

lemma packet_octets_Primitive: "packet_octets (ber_Primitive t v) = tlv (t\<lparr>id_constructed := False\<rparr>) v"
  by (simp add: ber_Primitive_def packet_octets_eq packet_contents_def)

lemma single_Primitive [simp]: "Identifier_Valid t \<Longrightarrow> single (ber_Primitive t v)"
  unfolding single_def using packet_octets_Primitive tag_ok_primitive by blast

lemma single_Constructed:
  "Identifier_Valid t \<Longrightarrow> id_constructed t \<Longrightarrow> single (Packet t [] cs False False)"
  unfolding single_def by (intro exI conjI) (auto simp: packet_octets_eq)

lemma primitive_tree:
  assumes "holds r n (p # ps)" "same_octets p (ber_Primitive t v)" "Identifier_Valid t" "\<not> id_constructed t"
  shows "p_identifier p = t" "packet_contents p = v" "nodes p = 1"
proof -
  note h = holds_Cons [OF assms(1)]
  have t: "t\<lparr>id_constructed := False\<rparr> = t" using assms(4) by simp
  have o: "packet_octets p = tlv t v"
    using assms(2) by (simp add: same_octets_def packet_octets_Primitive t)
  have "length (packet_octets p) \<le> MaxInt" using assms(1) by (simp add: holds_def forest_fits_def)
  then have "length v \<le> MaxInt" using o by (simp add: length_tlv)
  with tree_of_tlv [OF h(8) o assms(3)] show "p_identifier p = t" "packet_contents p = v" by simp_all
  then show "nodes p = 1" using h(8) assms(4) by (simp add: tree_ok.simps [of _ p] nodes.simps [of p])
qed

lemma reader_primitive_value:
  assumes "holds r n (p # ps)" "same_octets p (ber_Primitive t v)" "Identifier_Valid t" "\<not> id_constructed t"
  shows "Reader_Primitive t r n = (Inr v, past p r, n + nodes p)"
proof -
  note h = holds_Cons [OF assms(1)] and pt = primitive_tree [OF assms]
  have "ReadElement r n = (Inr (element_of r t v), past p r, n + 1)"
    using ReadElement_tlv [OF h(3,5,6), of n] h(7) pt by (simp add: past_def h(4))
  then show ?thesis using assms(4) pt(3) by (simp add: Reader_Primitive_def element_of_def)
qed

lemma Primitive_value:
  assumes "holds r n (p # ps)" "same_octets p (ber_Primitive t v)" "Identifier_Valid t" "\<not> id_constructed t" "finished c"
  shows "Primitive t (scope_at r c res n) = (v, scope_at (past p r) None res (n + nodes p))"
  unfolding Primitive_def using assms(5) reader_primitive_value [OF assms(1-4)] by (rule Using_at)

lemma universal_valid [simp]:
  "Identifier_Valid BooleanIdentifier" "Identifier_Valid IntegerIdentifier" "Identifier_Valid OctetStringIdentifier"
  "Identifier_Valid NullIdentifier" "Identifier_Valid EnumeratedIdentifier" "Identifier_Valid SequenceIdentifier"
  "Identifier_Valid SetIdentifier"
  by (simp_all add: Identifier_Valid_def universal_ids class_defs)

lemma universal_form [simp]:
  "\<not> id_constructed BooleanIdentifier" "\<not> id_constructed IntegerIdentifier" "\<not> id_constructed OctetStringIdentifier"
  "\<not> id_constructed NullIdentifier" "\<not> id_constructed EnumeratedIdentifier" "id_constructed SequenceIdentifier"
  "id_constructed SetIdentifier"
  by (simp_all add: universal_ids)

lemma single_values [simp]:
  "single (ber_OctetString v)" "single (ber_Boolean b)" "single (ber_Integer x)" "single (ber_Enumerated x)" "single ber_Null"
  by (simp_all add: ber_OctetString_def ber_Boolean_def ber_Integer_def ber_Enumerated_def ber_Null_def integerPacket_def)

lemma OctetString_value:
  assumes "holds r n (p # ps)" "same_octets p (ber_OctetString v)" "finished c"
  shows "OctetString (scope_at r c res n) = (v, scope_at (past p r) None res (n + nodes p))"
  using Primitive_value [OF assms(1) _ _ _ assms(3)] assms(2)
  by (simp add: OctetString_def ber_OctetString_def)

lemma Boolean_value:
  assumes "holds r n (p # ps)" "same_octets p (ber_Boolean b)" "finished c"
  shows "Boolean (scope_at r c res n) = (b, scope_at (past p r) None res (n + nodes p))"
proof -
  have "Reader_Primitive BooleanIdentifier r n = (Inr [if b then 0xFF else 0], past p r, n + nodes p)"
    using reader_primitive_value [OF assms(1) assms(2) [unfolded ber_Boolean_def]] by simp
  then have "Reader_Boolean r n = (Inr b, past p r, n + nodes p)"
    by (simp add: Reader_Boolean_def booleanContents_def)
  with assms(3) show ?thesis by (simp add: Boolean_def Using_at)
qed

lemma BooleanAs_value:
  assumes "holds r n (p # ps)" "same_octets p (ber_Primitive t [if b then 0xFF else 0])" "Identifier_Valid t"
    "\<not> id_constructed t" "finished c"
  shows "BooleanAs t (scope_at r c res n) = (b, scope_at (past p r) None res (n + nodes p))"
proof -
  have "Reader_Primitive t r n = (Inr [if b then 0xFF else 0], past p r, n + nodes p)"
    by (rule reader_primitive_value [OF assms(1-4)])
  with assms(5) show ?thesis unfolding BooleanAs_def by (intro Using_at) (simp_all add: booleanContents_def)
qed

lemma IntegerAs_value:
  assumes "holds r n (p # ps)" "same_octets p (integerPacket t x)" "Identifier_Valid t" "\<not> id_constructed t"
    "finished c" "inttype_ok T" "int_range T x" "x < 2 ^ 63"
  shows "IntegerAs T t (scope_at r c res n) = (x, scope_at (past p r) None res (n + nodes p))"
proof -
  have prim: "Reader_Primitive t r n = (Inr (integerBytes x), past p r, n + nodes p)"
    using reader_primitive_value [OF assms(1) assms(2) [unfolded integerPacket_def] assms(3,4)] .
  have "- (2 ^ 63) \<le> x" using int_range_bounds assms(6,7) by blast
  then have "int (length (integerBytes x)) \<le> 8" using length_integerBytes [of x] assms(8) by simp
  moreover have "8 \<le> MaxIntegerBytes (r_limits r)" using assms(1) by (simp add: holds_def forest_fits_def)
  ultimately have "decodeInteger T (integerBytes x) (MaxIntegerBytes (r_limits r)) = Inr x"
    using decodeInteger_integerBytes [OF assms(6,7)] by simp
  with prim assms(5) show ?thesis unfolding IntegerAs_def by (intro Using_at) (simp_all add: reader_integer_def)
qed

lemma NullAs_value:
  assumes "holds r n (p # ps)" "same_octets p (ber_Primitive t [])" "Identifier_Valid t" "\<not> id_constructed t" "finished c"
  shows "NullAs t (scope_at r c res n) = ((), scope_at (past p r) None res (n + nodes p))"
proof -
  have "Reader_Primitive t r n = (Inr [], past p r, n + nodes p)" by (rule reader_primitive_value [OF assms(1-4)])
  with assms(5) show ?thesis unfolding NullAs_def by (intro Using_at) simp_all
qed

text \<open>The element at the front of a forest, for an optional field.\<close>

lemma NextIs_value:
  "holds r n (p # ps) \<Longrightarrow> finished c \<Longrightarrow> NextIs t (scope_at r c res n) = (p_identifier p = t, scope_at r None res n)"
  using holds_Cons(3,5) [of r n p ps] by (intro NextIs_at)

lemma NextIs_none:
  "holds r n [] \<Longrightarrow> finished c \<Longrightarrow> NextIs t (scope_at r c res n) = (False, scope_at r None res n)"
  by (simp add: NextIs_at_end holds_def)

lemma SkipElement_value:
  assumes "holds r n (p # ps)"
  shows "SkipElement r n = (Inr (element_of r (p_identifier p) (packet_contents p)), past p r, n + nodes p)"
  using SkipElement_tree [of r p "forest_octets ps" n] assms holds_Cons(8) [OF assms]
  by (auto simp: holds_def forest_fits_def past_def forest_height_Cons)


lemma envelope_simps [simp]:
  "Envelope_Add cs (Packet t v ks e u) = Packet t v (ks @ cs) e u"
  "ber_Sequence = Packet SequenceIdentifier [] [] False False"
  "ber_Set = Packet SetIdentifier [] [] False False"
  "id_constructed t \<Longrightarrow> ber_Constructed t = Packet t [] [] False False"
  by (simp_all add: Envelope_Add_def ber_Sequence_def ber_Set_def ber_Constructed_def universal_ids)

section \<open>Walking through a scope\<close>

text \<open>
  \<open>stand sc cs res tot\<close>: the scope \<open>sc\<close> has not failed, the elements it has yet to read are those of the packets \<open>cs\<close>,
  \<open>res\<close> is reserved, and \<open>tot\<close> elements will have been counted when all are read.  \<open>accepts\<close> states the outcome
  of a decoder body: its value, and how the scope stands after it.  One rule per decoder operation takes
  \<open>accepts\<close> of a body to \<open>accepts\<close> of what follows the operation.
\<close>

definition stand :: "scope \<Rightarrow> packet list \<Rightarrow> ident list \<Rightarrow> nat \<Rightarrow> bool" where
  "stand sc cs res tot \<longleftrightarrow> (\<exists>r c n qs. sc = scope_at r c res n \<and> finished c \<and> holds r n qs
     \<and> list_all2 same_octets qs cs \<and> n + forest_nodes qs = tot)"

definition accepts :: "'b \<times> scope \<Rightarrow> 'b \<Rightarrow> packet list \<Rightarrow> ident list \<Rightarrow> nat \<Rightarrow> bool" where
  "accepts m a ds rs tot \<longleftrightarrow> fst m = a \<and> stand (snd m) ds rs tot"

definition tagged :: "packet \<Rightarrow> ident \<Rightarrow> bool" where
  "tagged c t \<longleftrightarrow> Identifier_Valid t \<and> (\<exists>v. packet_octets c = tlv t v)"

definition not_next :: "ident \<Rightarrow> packet list \<Rightarrow> bool" where
  "not_next t cs \<longleftrightarrow> cs = [] \<or> (\<exists>t'. t' \<noteq> t \<and> tagged (hd cs) t')"

lemma stand_cases:
  assumes "stand sc (c # cs) res tot"
  obtains r k n q qs where "sc = scope_at r k res n" "finished k" "holds r n (q # qs)" "same_octets q c"
    "list_all2 same_octets qs cs" "n + nodes q + forest_nodes qs = tot"
  using assms by (auto simp: stand_def list_all2_Cons2 add.assoc)

lemma stand_step:
  assumes "holds r n (q # qs)" "list_all2 same_octets qs cs" "n + nodes q + forest_nodes qs = tot" "finished k"
  shows "stand (scope_at (past q r) k res (n + nodes q)) cs res tot"
  using assms holds_Cons(1) [OF assms(1)] unfolding stand_def by blast

lemma accepts_step:
  assumes "stand sc (c # cs) res tot"
    and "\<And>r k n q qs. \<lbrakk>finished k; holds r n (q # qs); same_octets q c\<rbrakk> \<Longrightarrow>
      \<exists>k'. finished k' \<and> m (scope_at r k res n) = (x, scope_at (past q r) k' res (n + nodes q))"
    and "\<And>sc'. stand sc' cs res tot \<Longrightarrow> accepts (f x sc') a ds rs tot"
  shows "accepts (let (y, sc) = m sc in f y sc) a ds rs tot"
proof -
  from assms(1) obtain r k n q qs where s: "sc = scope_at r k res n" "finished k" "holds r n (q # qs)"
    "same_octets q c" "list_all2 same_octets qs cs" "n + nodes q + forest_nodes qs = tot"
    by (rule stand_cases)
  from assms(2) [OF s(2,3,4)] obtain k' where
    m: "finished k'" "m sc = (x, scope_at (past q r) k' res (n + nodes q))" by (auto simp: s(1))
  from stand_step [OF s(3,5,6) m(1), of res] have "accepts (f x (scope_at (past q r) k' res (n + nodes q))) a ds rs tot"
    by (rule assms(3))
  with m(2) show ?thesis by simp
qed

lemma accepts_Primitive:
  "stand sc (ber_Primitive t v # cs) res tot \<Longrightarrow> Identifier_Valid t \<Longrightarrow> \<not> id_constructed t \<Longrightarrow>
     (\<And>sc'. stand sc' cs res tot \<Longrightarrow> accepts (f v sc') a ds rs tot) \<Longrightarrow>
     accepts (let (y, sc) = Primitive t sc in f y sc) a ds rs tot"
  by (erule accepts_step [where x = v]) (blast intro: finished_None Primitive_value)+

lemma accepts_OctetString:
  "stand sc (ber_OctetString v # cs) res tot \<Longrightarrow>
     (\<And>sc'. stand sc' cs res tot \<Longrightarrow> accepts (f v sc') a ds rs tot) \<Longrightarrow>
     accepts (let (y, sc) = OctetString sc in f y sc) a ds rs tot"
  by (erule accepts_step [where x = v]) (blast intro: finished_None OctetString_value)+

lemma accepts_Boolean:
  "stand sc (ber_Boolean b # cs) res tot \<Longrightarrow>
     (\<And>sc'. stand sc' cs res tot \<Longrightarrow> accepts (f b sc') a ds rs tot) \<Longrightarrow>
     accepts (let (y, sc) = Boolean sc in f y sc) a ds rs tot"
  by (erule accepts_step [where x = b]) (blast intro: finished_None Boolean_value)+

lemma accepts_BooleanAs:
  "stand sc (ber_Primitive t [if b then 0xFF else 0] # cs) res tot \<Longrightarrow> Identifier_Valid t \<Longrightarrow> \<not> id_constructed t \<Longrightarrow>
     (\<And>sc'. stand sc' cs res tot \<Longrightarrow> accepts (f b sc') a ds rs tot) \<Longrightarrow>
     accepts (let (y, sc) = BooleanAs t sc in f y sc) a ds rs tot"
  by (erule accepts_step [where x = b]) (blast intro: finished_None BooleanAs_value)+

lemma accepts_IntegerAs:
  "stand sc (integerPacket t v # cs) res tot \<Longrightarrow> Identifier_Valid t \<Longrightarrow> \<not> id_constructed t \<Longrightarrow>
     inttype_ok T \<Longrightarrow> int_range T v \<Longrightarrow> v < 2 ^ 63 \<Longrightarrow>
     (\<And>sc'. stand sc' cs res tot \<Longrightarrow> accepts (f v sc') a ds rs tot) \<Longrightarrow>
     accepts (let (y, sc) = IntegerAs T t sc in f y sc) a ds rs tot"
  by (erule accepts_step [where x = v]) (blast intro: finished_None IntegerAs_value)+

lemma accepts_NullAs:
  "stand sc (ber_Primitive t [] # cs) res tot \<Longrightarrow> Identifier_Valid t \<Longrightarrow> \<not> id_constructed t \<Longrightarrow>
     (\<And>sc'. stand sc' cs res tot \<Longrightarrow> accepts (f () sc') a ds rs tot) \<Longrightarrow>
     accepts (let (y, sc) = NullAs t sc in f y sc) a ds rs tot"
  by (erule accepts_step [where x = "()"]) (blast intro: finished_None NullAs_value)+

context codec
begin

lemma accepts_read:
  "stand sc (pkt v # cs) res tot \<Longrightarrow> valid v \<Longrightarrow>
     (\<And>sc'. stand sc' cs res tot \<Longrightarrow> accepts (f v sc') a ds rs tot) \<Longrightarrow>
     accepts (let (y, sc) = Read z unm sc in f y sc) a ds rs tot"
  by (erule accepts_step [where x = v]) (blast intro: finished_None read_value)+

lemma accepts_using:
  "stand sc (pkt v # cs) res tot \<Longrightarrow> valid v \<Longrightarrow>
     (\<And>sc'. stand sc' cs res tot \<Longrightarrow> accepts (f v sc') a ds rs tot) \<Longrightarrow>
     accepts (let (y, sc) = Using z unm sc in f y sc) a ds rs tot"
  by (erule accepts_step [where x = v]) (blast intro: finished_None Using_at decodes)+

lemma within_all_values:
  assumes "holds r n (q # qs)" "same_octets q (Packet t [] (map pkt vs) False False)" "finished k"
    "list_all valid vs" "id_constructed t" "Identifier_Valid t"
  shows "\<exists>k'. finished k' \<and> Within t (All_values z unm) (scope_at r k res n) = (vs, scope_at (past q r) k' res (n + nodes q))"
proof -
  have q: "p_identifier q = t \<and> list_all2 same_octets (p_children q) (map pkt vs)"
    using constructed_tree [OF assms(1,2,5,6)] singles [OF assms(4)] by simp
  note i = holds_inside [OF assms(1)]
  obtain r' where all: "All_values z unm (scope_at (inside q r) None [] (n + 1))
      = (vs, scope_at r' None [] (n + 1 + forest_nodes (p_children q)))" "unread r' = []"
    using all_values [OF assms(4) i(1) _ finished_None, of z "[]"] q assms(5) by auto
  have "Within t (All_values z unm) (scope_at r k res n)
      = (vs, scope_at (past q r) (Some (Decoder r' None [])) res (n + nodes q))"
    using within_value [where body = "All_values z unm", OF assms(1) _ assms(3) all(1), of res] q i(2) assms(5) by (simp add: add.assoc)
  with all(2) show ?thesis by (intro exI [of _ "Some (Decoder r' None [])"]) simp
qed

lemma accepts_within_all:
  "stand sc (Packet t [] (map pkt vs) False False # cs) res tot \<Longrightarrow> list_all valid vs \<Longrightarrow>
     id_constructed t \<Longrightarrow> Identifier_Valid t \<Longrightarrow>
     (\<And>sc'. stand sc' cs res tot \<Longrightarrow> accepts (f vs sc') a ds rs tot) \<Longrightarrow>
     accepts (let (y, sc) = Within t (All_values z unm) sc in f y sc) a ds rs tot"
  by (erule accepts_step [where x = vs]) (blast intro: within_all_values)+

end

lemma accepts_Reserve:
  assumes "stand sc cs res tot" "\<And>sc'. stand sc' cs (res @ ids) tot \<Longrightarrow> accepts (f sc') a ds rs tot"
  shows "accepts (let sc = Reserve ids sc in f sc) a ds rs tot"
proof -
  from assms(1) obtain r c n qs where s: "sc = scope_at r c res n" "finished c" "holds r n qs"
    "list_all2 same_octets qs cs" "n + forest_nodes qs = tot" by (auto simp: stand_def)
  have "stand (scope_at r None (res @ ids) n) cs (res @ ids) tot"
    unfolding stand_def using s(3-5) finished_None by blast
  with assms(2) s show ?thesis by simp
qed

lemma stand_open:
  assumes "stand sc cs res tot"
  obtains sc' where "ready sc = (True, sc')" "stand sc' cs res tot"
proof -
  from assms obtain r c n qs where s: "sc = scope_at r c res n" "finished c" "holds r n qs"
    "list_all2 same_octets qs cs" "n + forest_nodes qs = tot" by (auto simp: stand_def)
  have "stand (scope_at r None res n) cs res tot"
    unfolding stand_def using s(3-5) finished_None by blast
  with s that show ?thesis by simp
qed

lemma accepts_ended: "stand sc [] res tot \<Longrightarrow> b = a \<Longrightarrow> accepts (ended b sc) a [] res tot"
  unfolding stand_def accepts_def by (auto simp: holds_def) (metis finished_None)

lemma accepts_checked: "stand sc cs res tot \<Longrightarrow> b = a \<Longrightarrow> accepts (checked b sc) a cs res tot"
  unfolding stand_def accepts_def by auto (metis finished_None)

lemma accepts_Embed:
  assumes "stand sc cs res tot"
    and "\<And>sc'. stand sc' cs res tot \<Longrightarrow> accepts (unmarshalFields sc') (Inr v) cs' res' tot"
    and "\<And>sc'. stand sc' cs' res' tot \<Longrightarrow> accepts (f v sc') a ds rs tot"
  shows "accepts (let (y, sc) = Embed z unmarshalFields sc in f y sc) a ds rs tot"
proof -
  obtain sc1 where r1: "ready sc = (True, sc1)" "stand sc1 cs res tot" using stand_open [OF assms(1)] .
  from assms(2) [OF r1(2)] obtain sc2 where r2: "unmarshalFields sc1 = (Inr v, sc2)" "stand sc2 cs' res' tot"
    unfolding accepts_def by (metis prod.collapse)
  obtain sc3 where r3: "ready sc2 = (True, sc3)" "stand sc3 cs' res' tot" using stand_open [OF r2(2)] .
  have "sc_err sc2 = None" using r2(2) by (auto simp: stand_def)
  then have "Fail None sc2 = sc2" by (simp add: Fail_def)
  moreover have "sc_err sc3 = None" using r3(2) by (auto simp: stand_def)
  ultimately have "Embed z unmarshalFields sc = (v, sc3)"
    using r1(1) r2(1) r3(1) by (simp add: Embed_def Err_def)
  with assms(3) [OF r3(2)] show ?thesis by simp
qed


lemma tagged_tree:
  assumes "holds r n (q # qs)" "same_octets q c" "tagged c t"
  shows "p_identifier q = t"
proof -
  obtain v where v: "packet_octets q = tlv t v" "Identifier_Valid t"
    using assms(2,3) by (auto simp: tagged_def same_octets_def)
  have "length (packet_octets q) \<le> MaxInt" using assms(1) by (simp add: holds_def forest_fits_def)
  then have "length v \<le> MaxInt" using v by (simp add: length_tlv)
  with tree_of_tlv [OF holds_Cons(8) [OF assms(1)] v] show ?thesis by simp
qed

lemma NextIs_yes:
  assumes "stand sc (c # cs) res tot" "tagged c t"
  obtains sc' where "NextIs t sc = (True, sc')" "stand sc' (c # cs) res tot"
proof -
  from assms(1) obtain r k n q qs where s: "sc = scope_at r k res n" "finished k" "holds r n (q # qs)"
    "same_octets q c" "list_all2 same_octets qs cs" "n + nodes q + forest_nodes qs = tot"
    by (rule stand_cases)
  have "stand (scope_at r None res n) (c # cs) res tot"
    unfolding stand_def using s(3-6) by (intro exI [of _ r] exI [of _ None] exI [of _ n] exI [of _ "q # qs"]) simp
  moreover have "p_identifier q = t" by (rule tagged_tree [OF s(3,4) assms(2)])
  ultimately show ?thesis using s NextIs_value [OF s(3,2), of t res] that by simp
qed

lemma NextIs_no:
  assumes "stand sc cs res tot" "not_next t cs"
  obtains sc' where "NextIs t sc = (False, sc')" "stand sc' cs res tot"
proof (cases cs)
  case Nil
  with assms(1) obtain r c n where s: "sc = scope_at r c res n" "finished c" "holds r n []" "n = tot"
    by (auto simp: stand_def)
  moreover have "stand (scope_at r None res n) [] res tot"
    unfolding stand_def using s(3,4) by (intro exI [of _ r] exI [of _ None] exI [of _ n] exI [of _ "[]"]) simp
  ultimately show ?thesis using NextIs_none [of r n c t res] that Nil by simp
next
  case (Cons c cs')
  then obtain t' where t': "t' \<noteq> t" "tagged c t'" using assms(2) by (auto simp: not_next_def)
  from assms(1) [unfolded Cons] obtain r k n q qs where s: "sc = scope_at r k res n" "finished k" "holds r n (q # qs)"
    "same_octets q c" "list_all2 same_octets qs cs'" "n + nodes q + forest_nodes qs = tot"
    by (rule stand_cases)
  have "stand (scope_at r None res n) (c # cs') res tot"
    unfolding stand_def using s(3-6) by (intro exI [of _ r] exI [of _ None] exI [of _ n] exI [of _ "q # qs"]) simp
  moreover have "p_identifier q = t'" by (rule tagged_tree [OF s(3,4) t'(2)])
  ultimately show ?thesis using s NextIs_value [OF s(3,2), of t res] that t'(1) Cons by simp
qed

lemma tagged_simps [simp]:
  "Identifier_Valid t \<Longrightarrow> \<not> id_constructed t \<Longrightarrow> tagged (ber_Primitive t v) t"
  "Identifier_Valid t \<Longrightarrow> id_constructed t \<Longrightarrow> tagged (Packet t [] cs False False) t"
  "tagged (ber_OctetString v) OctetStringIdentifier" "tagged (ber_Boolean b) BooleanIdentifier"
proof -
  show p: "tagged (ber_Primitive t v) t" if "Identifier_Valid t" "\<not> id_constructed t" for t v
  proof -
    have "t\<lparr>id_constructed := False\<rparr> = t" using that(2) by simp
    with that(1) show ?thesis unfolding tagged_def packet_octets_Primitive by metis
  qed
  show "Identifier_Valid t \<Longrightarrow> id_constructed t \<Longrightarrow> tagged (Packet t [] cs False False) t"
    by (auto simp: tagged_def packet_octets_eq)
  show "tagged (ber_OctetString v) OctetStringIdentifier" "tagged (ber_Boolean b) BooleanIdentifier"
    by (simp_all add: ber_OctetString_def ber_Boolean_def p)
qed

lemma not_next_Nil [simp]: "not_next t []"
  by (simp add: not_next_def)

lemma not_next_Cons: "tagged c t' \<Longrightarrow> t' \<noteq> t \<Longrightarrow> not_next t (c # cs)"
  by (auto simp: not_next_def)

lemma not_next_simps [simp]:
  "OctetStringIdentifier \<noteq> t \<Longrightarrow> not_next t (ber_OctetString v # cs)"
  "BooleanIdentifier \<noteq> t \<Longrightarrow> not_next t (ber_Boolean b # cs)"
  "Identifier_Valid t' \<Longrightarrow> \<not> id_constructed t' \<Longrightarrow> t' \<noteq> t \<Longrightarrow> not_next t (ber_Primitive t' v # cs)"
  "Identifier_Valid t' \<Longrightarrow> id_constructed t' \<Longrightarrow> t' \<noteq> t \<Longrightarrow> not_next t (Packet t' [] ks False False # cs)"
  by (rule not_next_Cons [OF tagged_simps(3)] not_next_Cons [OF tagged_simps(4)]
      not_next_Cons [OF tagged_simps(1)] not_next_Cons [OF tagged_simps(2)]; simp)+

lemma universal_distinct [simp]:
  "BooleanIdentifier \<noteq> OctetStringIdentifier" "OctetStringIdentifier \<noteq> BooleanIdentifier"
  by (simp_all add: universal_ids)

text \<open>An optional field: \<^verbatim>\<open>if d.NextIs(id) { v = ... }\<close>.\<close>

definition optional :: "ident \<Rightarrow> 'a \<Rightarrow> (scope \<Rightarrow> 'a \<times> scope) \<Rightarrow> scope \<Rightarrow> 'a \<times> scope" where
  "optional tag absent m sc =
     (case NextIs tag sc of (True, sc') \<Rightarrow> m sc' | (False, sc') \<Rightarrow> (absent, sc'))"

lemma accepts_optional_yes:
  assumes "stand sc (c # cs) res tot" "tagged c t"
    and "\<And>sc'. stand sc' (c # cs) res tot \<Longrightarrow> accepts (let (y, sc) = m sc' in f y sc) a ds rs tot"
  shows "accepts (let (y, sc) = optional t z m sc in f y sc) a ds rs tot"
  using NextIs_yes [OF assms(1,2)] assms(3) by (metis (mono_tags) case_prod_conv optional_def bool.case(1))

lemma accepts_optional_no:
  assumes "stand sc cs res tot" "not_next t cs"
    and "\<And>sc'. stand sc' cs res tot \<Longrightarrow> accepts (f z sc') a ds rs tot"
  shows "accepts (let (y, sc) = optional t z m sc in f y sc) a ds rs tot"
proof -
  obtain sc' where "NextIs t sc = (False, sc')" "stand sc' cs res tot"
    using NextIs_no [OF assms(1,2)] by blast
  then show ?thesis using assms(3) by (simp add: optional_def)
qed

text \<open>A field the source stores as a pointer, or as a value and a flag, is an option.\<close>

definition some :: "(scope \<Rightarrow> 'a \<times> scope) \<Rightarrow> scope \<Rightarrow> 'a option \<times> scope" where
  "some m sc = (let (v, sc) = m sc in (Some v, sc))"

lemma ReadAs_Read: "ReadAs z unm t = Read z (unm t)"
  by (simp add: ReadAs_def Read_def)

text \<open>A packet that is present under a condition, and the field that reads it.\<close>

lemma accepts_optional:
  assumes "stand sc ((if b then [c] else []) @ cs) res tot" "b \<Longrightarrow> tagged c t" "\<not> b \<Longrightarrow> not_next t cs"
    and "\<And>sc'. b \<Longrightarrow> stand sc' (c # cs) res tot \<Longrightarrow> accepts (let (y, sc) = m sc' in f y sc) a ds rs tot"
    and "\<And>sc'. \<not> b \<Longrightarrow> stand sc' cs res tot \<Longrightarrow> accepts (f z sc') a ds rs tot"
  shows "accepts (let (y, sc) = optional t z m sc in f y sc) a ds rs tot"
proof (cases b)
  case True
  with assms(1) have "stand sc (c # cs) res tot" by simp
  from accepts_optional_yes [OF this assms(2) [OF True], where m = m and f = f] assms(4) True
  show ?thesis by blast
next
  case False
  with assms(1) have "stand sc cs res tot" by simp
  from accepts_optional_no [OF this assms(3) [OF False], where z = z and f = f] assms(5) False
  show ?thesis by blast
qed

lemma accepts_optional_some:
  assumes "stand sc ((if b then [c] else []) @ cs) res tot" "b \<Longrightarrow> tagged c t" "\<not> b \<Longrightarrow> not_next t cs"
    and "\<And>sc'. b \<Longrightarrow> stand sc' (c # cs) res tot \<Longrightarrow> accepts (let (y, sc) = m sc' in f (Some y) sc) a ds rs tot"
    and "\<And>sc'. \<not> b \<Longrightarrow> stand sc' cs res tot \<Longrightarrow> accepts (f None sc') a ds rs tot"
  shows "accepts (let (y, sc) = optional t None (some m) sc in f y sc) a ds rs tot"
proof (rule accepts_optional [OF assms(1)])
  fix sc'
  assume "b" "stand sc' (c # cs) res tot"
  from assms(4) [OF this] show "accepts (let (y, sc) = some m sc' in f y sc) a ds rs tot"
    by (simp add: some_def split: prod.splits)
qed (use assms(2,3,5) in auto)

lemma decode_in_accepts:
  assumes h: "holds r n (p # ps)" and s: "same_octets p (Packet t [] cs False False)"
    and t: "id_constructed t" "Identifier_Valid t" and cs: "list_all single cs"
    and body: "\<And>sc. stand sc cs [] (n + nodes p) \<Longrightarrow> accepts (body sc) (Inr a) [] rs (n + nodes p)"
  shows "decode_in t body r n = (Inr a, past p r, n + nodes p)"
proof -
  have p: "p_identifier p = t" "list_all2 same_octets (p_children p) cs"
    using constructed_tree [OF h s t cs] by auto
  note i = holds_inside [OF h, unfolded p(1), OF t(1)]
  have "stand (scope_at (inside p r) None [] (n + 1)) cs [] (n + nodes p)"
    unfolding stand_def using i p(2)
    by (intro exI [of _ "inside p r"] exI [of _ None] exI [of _ "n + 1"] exI [of _ "p_children p"]) simp
  from body [OF this] obtain sc' where
    b: "body (scope_at (inside p r) None [] (n + 1)) = (Inr a, sc')" "stand sc' [] rs (n + nodes p)"
    unfolding accepts_def by (metis prod.collapse)
  from b(2) obtain r1 c1 where "sc' = scope_at r1 c1 rs (n + nodes p)" by (auto simp: stand_def)
  with decode_in_value [where body = body, OF h _ b(1) [unfolded this]] p(1) t(1) show ?thesis by simp
qed

context codec
begin

lemma decode_read:
  assumes "valid a" "holds r n (p # ps)" "same_octets p (pkt a)"
  shows "decode_with (\<lambda>sc. let (v, sc) = Read z unm sc in checked (g v) sc) r n = (g a, past p r, n + nodes p)"
  using read_value [OF assms finished_None, of z "[]"] by (intro decode_with_at) simp

end


section \<open>Nested scopes and repeated fields\<close>

lemma accepts_within:
  assumes st: "stand sc (Packet t [] ks False False # cs) res tot"
    and t: "id_constructed t" "Identifier_Valid t" and ks: "list_all single ks"
    and body: "\<And>sc' m. stand sc' ks [] m \<Longrightarrow> accepts (body sc') v [] rs m"
    and "\<And>sc'. stand sc' cs res tot \<Longrightarrow> accepts (f v sc') a ds rs' tot"
  shows "accepts (let (y, sc) = Within t body sc in f y sc) a ds rs' tot"
  using st _ assms(6)
proof (rule accepts_step)
  fix r k n q qs
  assume h: "finished k" "holds r n (q # qs)" "same_octets q (Packet t [] ks False False)"
  have q: "p_identifier q = t" "list_all2 same_octets (p_children q) ks"
    using constructed_tree [OF h(2,3) t ks] by auto
  note i = holds_inside [OF h(2), unfolded q(1), OF t(1)]
  have "stand (scope_at (inside q r) None [] (n + 1)) ks [] (n + nodes q)"
    unfolding stand_def using i q(2)
    by (intro exI [of _ "inside q r"] exI [of _ None] exI [of _ "n + 1"] exI [of _ "p_children q"]) simp
  from body [OF this] obtain sc' where
    b: "body (scope_at (inside q r) None [] (n + 1)) = (v, sc')" "stand sc' [] rs (n + nodes q)"
    unfolding accepts_def by (metis prod.collapse)
  from b(2) obtain r1 c1 where e: "sc' = scope_at r1 c1 rs (n + nodes q)" "finished c1" "unread r1 = []"
    by (auto simp: stand_def holds_def)
  have "Within t body (scope_at r k res n) = (v, scope_at (past q r) (Some (Decoder r1 c1 rs)) res (n + nodes q))"
    using within_value [where body = body, OF h(2) _ h(1) b(1) [unfolded e(1)], of res] q(1) t(1) by simp
  with e show "\<exists>k'. finished k' \<and> Within t body (scope_at r k res n) = (v, scope_at (past q r) k' res (n + nodes q))"
    by (intro exI [of _ "Some (Decoder r1 c1 rs)"]) simp
qed

lemma NextIs_err: "NextIs tag sc = (True, sc') \<Longrightarrow> sc_err sc = None \<and> sc_err sc' = None \<and> sc_reader sc' = sc_reader sc"
proof -
  assume n: "NextIs tag sc = (True, sc')"
  have "sc_err sc = None" using n op_failed(5) [of sc _ tag] by (cases "sc_err sc") auto
  moreover obtain b sc1 where m: "More sc = (b, sc1)" by (metis surj_pair)
  ultimately show ?thesis
    using n More_reader [OF m] PeekIdentifier_reader [of sc1]
    by (auto simp: NextIs_def split: bool.splits prod.splits)
qed

lemma NextIs_one_progress:
  "NextIs tag sc = (True, sc1) \<Longrightarrow> one z unm sc1 = (v, sc2) \<Longrightarrow> sc_err sc2 = None \<Longrightarrow>
     Remaining (sc_reader sc2) < Remaining (sc_reader sc)"
  using NextIs_err [of tag sc sc1] one_progress [of z unm sc1 v sc2] by simp

text \<open>\<^verbatim>\<open>for d.NextIs(id) { values = append(values, ...) }\<close>; a failed read ends the loop.\<close>

function readWhile :: "ident \<Rightarrow> 'a \<Rightarrow> 'a unmarshaler \<Rightarrow> 'a list \<Rightarrow> scope \<Rightarrow> 'a list \<times> scope" where
  "readWhile tag z unm acc sc =
     (case NextIs tag sc of
        (False, sc1) \<Rightarrow> (acc, sc1)
      | (True, sc1) \<Rightarrow> (case Read z unm sc1 of (v, sc2) \<Rightarrow> readWhile tag z unm (acc @ [v]) sc2))"
  by pat_completeness auto
termination
  by (relation "measure (\<lambda>(tag, z, unm, acc, sc). if sc_err sc = None then Suc (Remaining (sc_reader sc)) else 0)")
    (auto simp: Read_def dest!: sym [of "(_, _)"] dest: NextIs_one_progress NextIs_err)

declare readWhile.simps [simp del]

context codec
begin

lemma accepts_all:
  assumes "stand sc (map pkt vs) res tot" "list_all valid vs"
    and "\<And>sc'. stand sc' [] res tot \<Longrightarrow> accepts (f vs sc') a ds rs tot"
  shows "accepts (let (y, sc) = AllUsing z unm sc in f y sc) a ds rs tot"
proof -
  from assms(1) obtain r c n qs where s: "sc = scope_at r c res n" "finished c" "holds r n qs"
    "list_all2 same_octets qs (map pkt vs)" "n + forest_nodes qs = tot" by (auto simp: stand_def)
  from all_values [OF assms(2) s(3,4,2), of z res] obtain r' where
    u: "AllUsing z unm sc = (vs, scope_at r' None res tot)" "unread r' = []" by (auto simp: s(1,5) All_values_def)
  have "stand (scope_at r' None res tot) [] res tot"
    unfolding stand_def using u(2)
    by (intro exI [of _ r'] exI [of _ None] exI [of _ tot] exI [of _ "[]"]) (simp add: holds_def forest_fits_def)
  with assms(3) u(1) show ?thesis by simp
qed

lemma readWhile_values:
  assumes "stand sc (map pkt vs @ cs) res tot" "list_all valid vs" "\<forall>v \<in> set vs. tagged (pkt v) t" "not_next t cs"
  shows "\<exists>sc'. readWhile t z unm acc sc = (acc @ vs, sc') \<and> stand sc' cs res tot"
  using assms
proof (induction vs arbitrary: sc acc)
  case Nil
  then obtain sc' where "NextIs t sc = (False, sc')" "stand sc' cs res tot" using NextIs_no [of sc cs res tot t] by auto
  then show ?case by (intro exI [of _ sc']) (simp add: readWhile.simps)
next
  case (Cons v vs)
  obtain sc1 where n: "NextIs t sc = (True, sc1)" "stand sc1 (pkt v # (map pkt vs @ cs)) res tot"
    using NextIs_yes [of sc "pkt v" "map pkt vs @ cs" res tot t] Cons.prems by auto
  from n(2) obtain r k m q qs where st: "sc1 = scope_at r k res m" "finished k" "holds r m (q # qs)"
    "same_octets q (pkt v)" "list_all2 same_octets qs (map pkt vs @ cs)" "m + nodes q + forest_nodes qs = tot"
    by (rule stand_cases)
  have rd: "Read z unm sc1 = (v, scope_at (past q r) None res (m + nodes q))"
    using read_value [OF _ st(3,4,2)] Cons.prems(2) st(1) by simp
  have "stand (scope_at (past q r) None res (m + nodes q)) (map pkt vs @ cs) res tot"
    by (rule stand_step [OF st(3,5,6) finished_None])
  then obtain sc' where "readWhile t z unm (acc @ [v]) (scope_at (past q r) None res (m + nodes q)) = ((acc @ [v]) @ vs, sc')"
    "stand sc' cs res tot"
    using Cons.IH [of _ "acc @ [v]"] Cons.prems by auto
  with n(1) rd show ?case by (intro exI [of _ sc']) (simp add: readWhile.simps [of t z unm acc sc])
qed

lemma accepts_readWhile:
  assumes "stand sc (map pkt vs @ cs) res tot" "list_all valid vs" "\<forall>v \<in> set vs. tagged (pkt v) t" "not_next t cs"
    and "\<And>sc'. stand sc' cs res tot \<Longrightarrow> accepts (f vs sc') a ds rs tot"
  shows "accepts (let (y, sc) = readWhile t z unm [] sc in f y sc) a ds rs tot"
  using readWhile_values [OF assms(1-4), of z "[]"] assms(5) by auto

end

text \<open>A CHOICE is decoded by the identifier of the element that comes next.\<close>

lemma choice_value:
  assumes h: "holds r n (p # ps)" and s: "same_octets p c" and t: "tagged c t"
    and ch: "choice t (scope_at r None [] n) = (v, scope_at (past p r) None [] (n + nodes p))"
  shows "decode_with (\<lambda>sc. let (tag, sc) = PeekIdentifier sc; (d, sc) = choice tag sc in checked (Inr d) sc) r n
    = (Inr v, past p r, n + nodes p)"
proof -
  have "PeekIdentifier (scope_at r None [] n) = (t, scope_at r None [] n)"
    using PeekIdentifier_at [OF finished_None holds_Cons(3,5) [OF h]] tagged_tree [OF h s t] by simp
  with ch show ?thesis by (intro decode_with_at) simp
qed

lemma accepts_done: "stand sc cs res tot \<Longrightarrow> v = a \<Longrightarrow> res = rs \<Longrightarrow> accepts (v, sc) a cs rs tot"
  by (simp add: accepts_def)

end
