(* ===== verification/Ldap_Types.thy ===== *)
theory Ldap_Types
  imports Ber_Codec
begin

text \<open>
  Package \<^verbatim>\<open>rfc4511\<close>: tag and packet helpers (\<^verbatim>\<open>src/rfc4511/codec.go\<close>), text and byte values, unknown fields and
  object identifiers (\<^verbatim>\<open>src/rfc4511/types.go\<close>).

  Go strings and byte slices are byte lists.  An \<^verbatim>\<open>UnmarshalBER\<close> method decodes into a variable of its caller and
  assigns it only on success, so it is an unmarshaler; receivers are never nil.  \<^verbatim>\<open>utf8.Valid\<close> is the
  predicate \<open>utf8_Valid\<close>.
\<close>

section \<open>Identifiers and packets\<close>

definition contextPrimitive :: "u32 \<Rightarrow> ident" where
  "contextPrimitive k = \<lparr>id_class = ClassContextSpecific, id_constructed = False, id_number = k\<rparr>"

definition contextConstructed :: "u32 \<Rightarrow> ident" where
  "contextConstructed k = \<lparr>id_class = ClassContextSpecific, id_constructed = True, id_number = k\<rparr>"

definition applicationPrimitive :: "u32 \<Rightarrow> ident" where
  "applicationPrimitive k = \<lparr>id_class = ClassApplication, id_constructed = False, id_number = k\<rparr>"

definition applicationConstructed :: "u32 \<Rightarrow> ident" where
  "applicationConstructed k = \<lparr>id_class = ClassApplication, id_constructed = True, id_number = k\<rparr>"

lemmas tag_defs = contextPrimitive_def contextConstructed_def applicationPrimitive_def applicationConstructed_def

lemma tag_facts [simp]:
  "Identifier_Valid (contextPrimitive k)" "Identifier_Valid (contextConstructed k)"
  "Identifier_Valid (applicationPrimitive k)" "Identifier_Valid (applicationConstructed k)"
  "\<not> id_constructed (contextPrimitive k)" "id_constructed (contextConstructed k)"
  "\<not> id_constructed (applicationPrimitive k)" "id_constructed (applicationConstructed k)"
  by (simp_all add: tag_defs Identifier_Valid_def class_defs)

lemma tag_distinct [simp]:
  "contextPrimitive j = contextPrimitive k \<longleftrightarrow> j = k" "contextConstructed j = contextConstructed k \<longleftrightarrow> j = k"
  "applicationConstructed j = applicationConstructed k \<longleftrightarrow> j = k"
  "applicationPrimitive j = applicationPrimitive k \<longleftrightarrow> j = k"
  "contextPrimitive j \<noteq> contextConstructed k" "contextConstructed k \<noteq> contextPrimitive j"
  "contextPrimitive j \<noteq> OctetStringIdentifier" "OctetStringIdentifier \<noteq> contextPrimitive j"
  "contextConstructed j \<noteq> OctetStringIdentifier" "OctetStringIdentifier \<noteq> contextConstructed j"
  "contextConstructed j \<noteq> SequenceIdentifier" "SequenceIdentifier \<noteq> contextConstructed j"
  by (auto simp: tag_defs universal_ids class_defs)

definition implicitOctetsPacket :: "ident \<Rightarrow> bytes \<Rightarrow> packet" where
  "implicitOctetsPacket tag v = ber_Primitive tag v"

definition implicitBooleanPacket :: "ident \<Rightarrow> bool \<Rightarrow> packet" where
  "implicitBooleanPacket tag v = ber_Primitive tag [if v then 0xFF else 0]"

definition requireNonEmpty :: "string \<Rightarrow> bytes \<Rightarrow> goerror option" where
  "requireNonEmpty name v = (if v = [] then Some (Errorf (''arden: '' @ name @ '' is empty'') []) else None)"

section \<open>UTF-8\<close>

definition utf8_cont :: "byte \<Rightarrow> bool" where
  "utf8_cont b \<longleftrightarrow> 0x80 \<le> b \<and> b \<le> 0xBF"

fun utf8_Valid :: "bytes \<Rightarrow> bool" where
  "utf8_Valid [] = True"
| "utf8_Valid (a # bs) =
     (if a < 0x80 then utf8_Valid bs
      else if 0xC2 \<le> a \<and> a \<le> 0xDF
      then (case bs of b # rest1 \<Rightarrow> utf8_cont b \<and> utf8_Valid rest1 | _ \<Rightarrow> False)
      else if 0xE0 \<le> a \<and> a \<le> 0xEF
      then (case bs of b # c # rest2 \<Rightarrow>
              (if a = 0xE0 then 0xA0 else 0x80) \<le> b \<and> b \<le> (if a = 0xED then 0x9F else 0xBF)
              \<and> utf8_cont c \<and> utf8_Valid rest2
            | _ \<Rightarrow> False)
      else if 0xF0 \<le> a \<and> a \<le> 0xF4
      then (case bs of b # c # d # rest3 \<Rightarrow>
              (if a = 0xF0 then 0x90 else 0x80) \<le> b \<and> b \<le> (if a = 0xF4 then 0x8F else 0xBF)
              \<and> utf8_cont c \<and> utf8_cont d \<and> utf8_Valid rest3
            | _ \<Rightarrow> False)
      else False)"

section \<open>Text and byte values\<close>

definition unmarshalLDAPText :: "ident \<Rightarrow> bytes unmarshaler" where
  "unmarshalLDAPText tag r n =
     (case Reader_Primitive tag r n of
        (Inl err, r', n') \<Rightarrow> (Inl err, r', n')
      | (Inr v, r', n') \<Rightarrow>
          if \<not> utf8_Valid v then (Inl (Errorf ''arden: LDAP text is not valid UTF-8'' []), r', n')
          else (Inr v, r', n'))"

definition unmarshalLDAPBytes :: "ident \<Rightarrow> bytes unmarshaler" where
  "unmarshalLDAPBytes tag = decode_with (\<lambda>sc. let (v, sc) = Primitive tag sc in checked (Inr v) sc)"

text \<open>\<^verbatim>\<open>validateLDAPOID\<close>: the loop over the bytes with the counts of finished arcs and of digits of the current one.\<close>

fun oidLoop :: "bytes \<Rightarrow> nat \<Rightarrow> nat \<Rightarrow> bool \<Rightarrow> goerror + (nat \<times> nat)" where
  "oidLoop [] parts digits leadingZero = Inr (parts, digits)"
| "oidLoop (b # bs) parts digits leadingZero =
     (if 0x30 \<le> b \<and> b \<le> 0x39
      then (if digits = 0 then oidLoop bs parts (digits + 1) (b = 0x30)
            else if leadingZero then Inl (Errorf ''arden: LDAPOID has a leading zero'' [])
            else oidLoop bs parts (digits + 1) leadingZero)
      else if b = 0x2E
      then (if digits = 0 then Inl (Errorf ''arden: LDAPOID has an empty arc'' [])
            else oidLoop bs (parts + 1) 0 False)
      else Inl (Errorf ''arden: LDAPOID contains non-numeric byte %q'' [AInt (uint b)]))"

definition validateLDAPOID :: "bytes \<Rightarrow> goerror option" where
  "validateLDAPOID v =
     (case oidLoop v 0 0 False of
        Inl e \<Rightarrow> Some e
      | Inr (parts, digits) \<Rightarrow>
          if digits = 0 then Some (Errorf ''arden: LDAPOID has an empty arc'' [])
          else if parts = 0 then Some (Errorf ''arden: LDAPOID requires at least two arcs'' [])
          else None)"

definition LDAPString_BERPacket :: "bytes \<Rightarrow> packet" where
  "LDAPString_BERPacket v = ber_OctetString v"

definition LDAPString_UnmarshalAs :: "ident \<Rightarrow> bytes unmarshaler" where
  "LDAPString_UnmarshalAs tag = unmarshalLDAPText tag"

definition LDAPString_UnmarshalBER :: "bytes unmarshaler" where
  "LDAPString_UnmarshalBER = LDAPString_UnmarshalAs OctetStringIdentifier"

definition LDAPOID_BERPacket :: "bytes \<Rightarrow> packet" where
  "LDAPOID_BERPacket v = ber_OctetString v"

definition LDAPOID_UnmarshalAs :: "ident \<Rightarrow> bytes unmarshaler" where
  "LDAPOID_UnmarshalAs tag r n =
     (case unmarshalLDAPText tag r n of
        (Inl err, r', n') \<Rightarrow> (Inl err, r', n')
      | (Inr decoded, r', n') \<Rightarrow>
          (case validateLDAPOID decoded of Some err \<Rightarrow> (Inl err, r', n') | None \<Rightarrow> (Inr decoded, r', n')))"

definition LDAPOID_UnmarshalBER :: "bytes unmarshaler" where
  "LDAPOID_UnmarshalBER = LDAPOID_UnmarshalAs OctetStringIdentifier"

definition LDAPDN_BERPacket :: "bytes \<Rightarrow> packet" where
  "LDAPDN_BERPacket v = ber_OctetString v"

definition LDAPDN_UnmarshalAs :: "ident \<Rightarrow> bytes unmarshaler" where
  "LDAPDN_UnmarshalAs tag = unmarshalLDAPText tag"

definition LDAPDN_UnmarshalBER :: "bytes unmarshaler" where
  "LDAPDN_UnmarshalBER = LDAPDN_UnmarshalAs OctetStringIdentifier"

definition RelativeLDAPDN_BERPacket :: "bytes \<Rightarrow> packet" where
  "RelativeLDAPDN_BERPacket v = ber_OctetString v"

definition RelativeLDAPDN_UnmarshalAs :: "ident \<Rightarrow> bytes unmarshaler" where
  "RelativeLDAPDN_UnmarshalAs tag = unmarshalLDAPText tag"

definition RelativeLDAPDN_UnmarshalBER :: "bytes unmarshaler" where
  "RelativeLDAPDN_UnmarshalBER = RelativeLDAPDN_UnmarshalAs OctetStringIdentifier"

definition URI_BERPacket :: "bytes \<Rightarrow> packet" where
  "URI_BERPacket v = ber_OctetString v"

definition URI_UnmarshalAs :: "ident \<Rightarrow> bytes unmarshaler" where
  "URI_UnmarshalAs tag = unmarshalLDAPText tag"

definition URI_UnmarshalBER :: "bytes unmarshaler" where
  "URI_UnmarshalBER = URI_UnmarshalAs OctetStringIdentifier"

definition AttributeDescription_BERPacket :: "bytes \<Rightarrow> packet" where
  "AttributeDescription_BERPacket v = ber_OctetString v"

definition AttributeDescription_UnmarshalAs :: "ident \<Rightarrow> bytes unmarshaler" where
  "AttributeDescription_UnmarshalAs tag = unmarshalLDAPText tag"

definition AttributeDescription_UnmarshalBER :: "bytes unmarshaler" where
  "AttributeDescription_UnmarshalBER = AttributeDescription_UnmarshalAs OctetStringIdentifier"

definition AttributeSelector_BERPacket :: "bytes \<Rightarrow> packet" where
  "AttributeSelector_BERPacket v = ber_OctetString v"

definition AttributeSelector_UnmarshalAs :: "ident \<Rightarrow> bytes unmarshaler" where
  "AttributeSelector_UnmarshalAs tag = unmarshalLDAPText tag"

definition AttributeSelector_UnmarshalBER :: "bytes unmarshaler" where
  "AttributeSelector_UnmarshalBER = AttributeSelector_UnmarshalAs OctetStringIdentifier"

definition MatchingRuleID_BERPacket :: "bytes \<Rightarrow> packet" where
  "MatchingRuleID_BERPacket v = ber_OctetString v"

definition MatchingRuleID_UnmarshalAs :: "ident \<Rightarrow> bytes unmarshaler" where
  "MatchingRuleID_UnmarshalAs tag = unmarshalLDAPText tag"

definition MatchingRuleID_UnmarshalBER :: "bytes unmarshaler" where
  "MatchingRuleID_UnmarshalBER = MatchingRuleID_UnmarshalAs OctetStringIdentifier"

definition AttributeValue_BERPacket :: "bytes \<Rightarrow> packet" where
  "AttributeValue_BERPacket v = ber_OctetString v"

definition AttributeValue_UnmarshalAs :: "ident \<Rightarrow> bytes unmarshaler" where
  "AttributeValue_UnmarshalAs tag = unmarshalLDAPBytes tag"

definition AttributeValue_UnmarshalBER :: "bytes unmarshaler" where
  "AttributeValue_UnmarshalBER = AttributeValue_UnmarshalAs OctetStringIdentifier"

definition AssertionValue_BERPacket :: "bytes \<Rightarrow> packet" where
  "AssertionValue_BERPacket v = ber_OctetString v"

definition AssertionValue_UnmarshalAs :: "ident \<Rightarrow> bytes unmarshaler" where
  "AssertionValue_UnmarshalAs tag = unmarshalLDAPBytes tag"

definition AssertionValue_UnmarshalBER :: "bytes unmarshaler" where
  "AssertionValue_UnmarshalBER = AssertionValue_UnmarshalAs OctetStringIdentifier"

lemmas text_defs =
  LDAPString_BERPacket_def LDAPString_UnmarshalAs_def LDAPString_UnmarshalBER_def
  LDAPDN_BERPacket_def LDAPDN_UnmarshalAs_def LDAPDN_UnmarshalBER_def
  RelativeLDAPDN_BERPacket_def RelativeLDAPDN_UnmarshalAs_def RelativeLDAPDN_UnmarshalBER_def
  URI_BERPacket_def URI_UnmarshalAs_def URI_UnmarshalBER_def
  AttributeDescription_BERPacket_def AttributeDescription_UnmarshalAs_def AttributeDescription_UnmarshalBER_def
  AttributeSelector_BERPacket_def AttributeSelector_UnmarshalAs_def AttributeSelector_UnmarshalBER_def
  MatchingRuleID_BERPacket_def MatchingRuleID_UnmarshalAs_def MatchingRuleID_UnmarshalBER_def
  AttributeValue_BERPacket_def AttributeValue_UnmarshalAs_def AttributeValue_UnmarshalBER_def
  AssertionValue_BERPacket_def AssertionValue_UnmarshalAs_def AssertionValue_UnmarshalBER_def

section \<open>Unknown fields\<close>

record unknown_field =
  uf_identifier :: ident
  uf_raw :: bytes

definition UnknownField_BERPacket :: "unknown_field \<Rightarrow> packet" where
  "UnknownField_BERPacket f = ber_Encoded (uf_raw f)"

definition unknownField :: "element \<Rightarrow> unknown_field" where
  "unknownField e = \<lparr>uf_identifier = el_Identifier e, uf_raw = el_Raw e\<rparr>"

definition UnknownField_UnmarshalBER :: "unknown_field unmarshaler" where
  "UnknownField_UnmarshalBER r n =
     (case SkipElement r n of
        (Inl err, r', n') \<Rightarrow> (Inl err, r', n')
      | (Inr e, r', n') \<Rightarrow> (Inr (unknownField e), r', n'))"

definition zero_unknown :: unknown_field where
  "zero_unknown = \<lparr>uf_identifier = zero_identifier, uf_raw = []\<rparr>"

text \<open>\<^verbatim>\<open>d.Extensions[UnknownField](ids...)\<close>, the way every extensible SEQUENCE ends.\<close>

definition UnknownFields :: "ident list \<Rightarrow> scope \<Rightarrow> unknown_field list \<times> scope" where
  "UnknownFields ids = Extensions zero_unknown UnknownField_UnmarshalBER ids"

section \<open>Contracts\<close>

interpretation ldap_text: codec ber_OctetString "unmarshalLDAPText OctetStringIdentifier" utf8_Valid
proof unfold_locales
  fix a r n p ps
  assume "utf8_Valid a" "holds r n (p # ps)" "same_octets p (ber_OctetString a)"
  then show "unmarshalLDAPText OctetStringIdentifier r n = (Inr a, past p r, n + nodes p)"
    using reader_primitive_value [of r n p ps OctetStringIdentifier a]
    by (simp add: unmarshalLDAPText_def ber_OctetString_def)
qed simp

interpretation ldap_octets: codec ber_OctetString "unmarshalLDAPBytes OctetStringIdentifier" "\<lambda>_. True"
proof unfold_locales
  fix a r n p ps
  assume "holds r n (p # ps)" "same_octets p (ber_OctetString a)"
  then have "Primitive OctetStringIdentifier (scope_at r None [] n) = (a, scope_at (past p r) None [] (n + nodes p))"
    by (intro Primitive_value) (simp_all add: ber_OctetString_def)
  then show "unmarshalLDAPBytes OctetStringIdentifier r n = (Inr a, past p r, n + nodes p)"
    unfolding unmarshalLDAPBytes_def by (intro decode_with_at) simp
qed simp

definition oid_ok :: "bytes \<Rightarrow> bool" where
  "oid_ok v \<longleftrightarrow> utf8_Valid v \<and> validateLDAPOID v = None"

interpretation ldap_oid: codec ber_OctetString LDAPOID_UnmarshalBER oid_ok
proof unfold_locales
  fix a r n p ps
  assume "oid_ok a" "holds r n (p # ps)" "same_octets p (ber_OctetString a)"
  then show "LDAPOID_UnmarshalBER r n = (Inr a, past p r, n + nodes p)"
    using ldap_text.decodes [of a r n p ps] by (simp add: LDAPOID_UnmarshalBER_def LDAPOID_UnmarshalAs_def oid_ok_def)
qed simp

definition unknown_ok :: "unknown_field \<Rightarrow> bool" where
  "unknown_ok f \<longleftrightarrow> Identifier_Valid (uf_identifier f) \<and> (\<exists>v. uf_raw f = tlv (uf_identifier f) v)"

lemma UnknownField_octets: "packet_octets (UnknownField_BERPacket f) = uf_raw f"
  by (simp add: UnknownField_BERPacket_def ber_Encoded_def packet_octets_eq)

lemma unknown_tree:
  assumes "unknown_ok f" "holds r n (p # ps)" "same_octets p (UnknownField_BERPacket f)"
  shows "p_identifier p = uf_identifier f" "packet_octets p = uf_raw f"
proof -
  show o: "packet_octets p = uf_raw f" using assms(3) by (simp add: same_octets_def UnknownField_octets)
  obtain v where v: "uf_raw f = tlv (uf_identifier f) v" and i: "Identifier_Valid (uf_identifier f)"
    using assms(1) by (auto simp: unknown_ok_def)
  have "length (packet_octets p) \<le> MaxInt" using assms(2) by (simp add: holds_def forest_fits_def)
  then have "length v \<le> MaxInt" using o v by (simp add: length_tlv)
  with tree_of_tlv [OF holds_Cons(8) [OF assms(2)] _ i] o v show "p_identifier p = uf_identifier f" by auto
qed

interpretation ldap_unknown: codec UnknownField_BERPacket UnknownField_UnmarshalBER unknown_ok
proof unfold_locales
  fix a :: unknown_field and r n p ps
  show "unknown_ok a \<Longrightarrow> single (UnknownField_BERPacket a)"
    by (auto simp: unknown_ok_def single_def UnknownField_octets)
  assume a: "unknown_ok a" "holds r n (p # ps)" "same_octets p (UnknownField_BERPacket a)"
  note t = unknown_tree [OF a]
  have "unknownField (element_of r (p_identifier p) (packet_contents p)) = a"
    using t holds_Cons(4) [OF a(2)] by (simp add: unknownField_def element_of_def)
  then show "UnknownField_UnmarshalBER r n = (Inr a, past p r, n + nodes p)"
    by (simp add: UnknownField_UnmarshalBER_def SkipElement_value [OF a(2)])
qed

text \<open>The trailing unknown fields of a SEQUENCE, with identifiers that are not reserved.\<close>

definition unknowns_ok :: "ident list \<Rightarrow> unknown_field list \<Rightarrow> bool" where
  "unknowns_ok ids fs \<longleftrightarrow> list_all unknown_ok fs \<and> list_all (\<lambda>f. uf_identifier f \<notin> set ids) fs"

lemma unknowns_identifiers:
  assumes "unknowns_ok ids fs" "holds r n ps" "list_all2 same_octets ps (map UnknownField_BERPacket fs)"
  shows "list_all (\<lambda>p. p_identifier p \<notin> set ids) ps"
  using assms
proof (induction fs arbitrary: ps r n)
  case Nil
  then show ?case by simp
next
  case (Cons f fs)
  then obtain p qs where ps: "ps = p # qs" "same_octets p (UnknownField_BERPacket f)"
    "list_all2 same_octets qs (map UnknownField_BERPacket fs)"
    by (auto simp: list_all2_Cons2)
  have "unknown_ok f" "unknowns_ok ids fs" "uf_identifier f \<notin> set ids"
    using Cons.prems(1) by (simp_all add: unknowns_ok_def)
  with Cons.IH [OF _ _ ps(3)] ps unknown_tree(1) [of f r n p qs] holds_Cons(1) [of r n p qs] Cons.prems(2)
  show ?case by auto
qed

lemma unknown_fields:
  assumes "unknowns_ok (res @ ids) fs" "holds r n ps" "list_all2 same_octets ps (map UnknownField_BERPacket fs)"
    "finished c"
  shows "\<exists>r'. UnknownFields ids (scope_at r c res n)
     = (fs, scope_at r' None (res @ ids) (n + forest_nodes ps)) \<and> unread r' = []"
  unfolding UnknownFields_def
  using ldap_unknown.extension_values [OF _ assms(2,3,4) unknowns_identifiers [OF assms(1-3)]] assms(1)
  by (simp add: unknowns_ok_def)

declare ldap_unknown.singles [simp]

lemma accepts_unknown_fields:
  assumes "stand sc (map UnknownField_BERPacket fs) res tot" "unknowns_ok (res @ ids) fs"
    and "\<And>sc'. stand sc' [] (res @ ids) tot \<Longrightarrow> accepts (f fs sc') a ds rs tot"
  shows "accepts (let (y, sc) = UnknownFields ids sc in f y sc) a ds rs tot"
proof -
  from assms(1) obtain r c n qs where s: "sc = scope_at r c res n" "finished c" "holds r n qs"
    "list_all2 same_octets qs (map UnknownField_BERPacket fs)" "n + forest_nodes qs = tot" by (auto simp: stand_def)
  from unknown_fields [OF assms(2) s(3,4,2)] obtain r' where
    u: "UnknownFields ids sc = (fs, scope_at r' None (res @ ids) tot)" "unread r' = []" by (auto simp: s(1,5))
  have "holds r' tot []" using u(2) by (simp add: holds_def forest_fits_def)
  then have "stand (scope_at r' None (res @ ids) tot) [] (res @ ids) tot"
    unfolding stand_def by (intro exI [of _ r'] exI [of _ None] exI [of _ tot] exI [of _ "[]"]) simp
  with assms(3) u(1) show ?thesis by simp
qed


lemma tagged_unknown: "unknown_ok f \<Longrightarrow> tagged (UnknownField_BERPacket f) (uf_identifier f)"
  by (auto simp: tagged_def unknown_ok_def UnknownField_octets)

lemma not_next_unknowns: "unknowns_ok ids fs \<Longrightarrow> t \<in> set ids \<Longrightarrow> not_next t (map UnknownField_BERPacket fs)"
  by (cases fs) (auto simp: unknowns_ok_def intro!: not_next_Cons [OF tagged_unknown])

lemma unknowns_not_next: "unknowns_ok ids fs \<Longrightarrow> \<forall>t \<in> set ids. not_next t (map UnknownField_BERPacket fs)"
  by (blast intro: not_next_unknowns)

lemma unknowns_ok_mono: "unknowns_ok ids fs \<Longrightarrow> set ids' \<subseteq> set ids \<Longrightarrow> unknowns_ok ids' fs"
  by (auto simp: unknowns_ok_def list_all_iff)


text \<open>Text and object identifiers under an implicit tag.\<close>

lemma text_codec:
  "Identifier_Valid t \<Longrightarrow> \<not> id_constructed t \<Longrightarrow> codec (ber_Primitive t) (unmarshalLDAPText t) utf8_Valid"
  by unfold_locales (simp_all add: unmarshalLDAPText_def reader_primitive_value)

lemma octets_codec:
  assumes "Identifier_Valid t" "\<not> id_constructed t"
  shows "codec (ber_Primitive t) (unmarshalLDAPBytes t) (\<lambda>_. True)"
proof unfold_locales
  fix a r n p ps
  assume "holds r n (p # ps)" "same_octets p (ber_Primitive t a)"
  from Primitive_value [OF this assms finished_None, of "[]"]
  show "unmarshalLDAPBytes t r n = (Inr a, past p r, n + nodes p)"
    unfolding unmarshalLDAPBytes_def by (intro decode_with_at) simp
qed (simp add: assms)

lemma oid_codec:
  assumes "Identifier_Valid t" "\<not> id_constructed t"
  shows "codec (ber_Primitive t) (LDAPOID_UnmarshalAs t) oid_ok"
proof unfold_locales
  fix a r n p ps
  assume "oid_ok a" "holds r n (p # ps)" "same_octets p (ber_Primitive t a)"
  then show "LDAPOID_UnmarshalAs t r n = (Inr a, past p r, n + nodes p)"
    using codec.decodes [OF text_codec [OF assms], of a r n p ps] by (simp add: LDAPOID_UnmarshalAs_def oid_ok_def)
qed (simp add: assms)

lemma accepts_text_as:
  "stand sc (ber_Primitive t v # cs) res tot \<Longrightarrow> Identifier_Valid t \<Longrightarrow> \<not> id_constructed t \<Longrightarrow> utf8_Valid v \<Longrightarrow>
     (\<And>sc'. stand sc' cs res tot \<Longrightarrow> accepts (f v sc') a ds rs tot) \<Longrightarrow>
     accepts (let (y, sc) = Read z (unmarshalLDAPText t) sc in f y sc) a ds rs tot"
  by (rule codec.accepts_read [OF text_codec])

lemma accepts_octets_as:
  "stand sc (ber_Primitive t v # cs) res tot \<Longrightarrow> Identifier_Valid t \<Longrightarrow> \<not> id_constructed t \<Longrightarrow>
     (\<And>sc'. stand sc' cs res tot \<Longrightarrow> accepts (f v sc') a ds rs tot) \<Longrightarrow>
     accepts (let (y, sc) = Read z (unmarshalLDAPBytes t) sc in f y sc) a ds rs tot"
  by (rule codec.accepts_read [OF octets_codec]) simp_all

lemma accepts_oid_as:
  "stand sc (ber_Primitive t v # cs) res tot \<Longrightarrow> Identifier_Valid t \<Longrightarrow> \<not> id_constructed t \<Longrightarrow> oid_ok v \<Longrightarrow>
     (\<And>sc'. stand sc' cs res tot \<Longrightarrow> accepts (f v sc') a ds rs tot) \<Longrightarrow>
     accepts (let (y, sc) = Read z (LDAPOID_UnmarshalAs t) sc in f y sc) a ds rs tot"
  by (rule codec.accepts_read [OF oid_codec])

lemma list_all_True [simp]: "list_all (\<lambda>_. True) xs"
  by (simp add: list_all_iff)

lemmas scope_rules = accepts_ended accepts_optional_some accepts_optional accepts_unknown_fields accepts_OctetString accepts_Boolean accepts_Primitive
  accepts_BooleanAs accepts_IntegerAs accepts_NullAs ldap_text.accepts_read ldap_octets.accepts_read
  ldap_oid.accepts_read ldap_octets.accepts_within_all ldap_text.accepts_within_all
  accepts_text_as accepts_octets_as accepts_oid_as accepts_Reserve accepts_checked

section \<open>Object identifiers\<close>

text \<open>The reference for \<^verbatim>\<open>validateLDAPOID\<close>: at least two arcs between dots, each a decimal number without leading
  zeros.\<close>

fun oid_arcs :: "bytes \<Rightarrow> bytes list" where
  "oid_arcs [] = [[]]"
| "oid_arcs (b # bs) = (if b = 0x2E then [] # oid_arcs bs else (b # hd (oid_arcs bs)) # tl (oid_arcs bs))"

definition digit :: "byte \<Rightarrow> bool" where
  "digit b \<longleftrightarrow> 0x30 \<le> b \<and> b \<le> 0x39"

definition arc_ok :: "bytes \<Rightarrow> bool" where
  "arc_ok a \<longleftrightarrow> a \<noteq> [] \<and> list_all digit a \<and> (hd a = 0x30 \<longrightarrow> length a = 1)"

definition oid_spec :: "bytes \<Rightarrow> bool" where
  "oid_spec v \<longleftrightarrow> 2 \<le> length (oid_arcs v) \<and> list_all arc_ok (oid_arcs v)"

lemma oid_arcs_not_Nil [simp]: "oid_arcs v \<noteq> []"
  by (cases v) auto

text \<open>The arcs of the rest of the input when \<open>cur\<close> is what was read of the current one.\<close>

definition arcs_from :: "bytes \<Rightarrow> bytes \<Rightarrow> bool" where
  "arcs_from cur bs \<longleftrightarrow> list_all arc_ok ((cur @ hd (oid_arcs bs)) # tl (oid_arcs bs))"

lemma arcs_from_simps:
  "arcs_from cur [] \<longleftrightarrow> arc_ok cur"
  "b \<noteq> 0x2E \<Longrightarrow> arcs_from cur (b # bs) \<longleftrightarrow> arcs_from (cur @ [b]) bs"
  "arcs_from cur (0x2E # bs) \<longleftrightarrow> arc_ok cur \<and> arcs_from [] bs"
  "b \<noteq> 0x2E \<Longrightarrow> \<not> digit b \<Longrightarrow> \<not> arcs_from cur (b # bs)"
  by (auto simp: arcs_from_def arc_ok_def list_all_iff dest: hd_in_set)

lemma not_arc_ok: "cur \<noteq> [] \<Longrightarrow> hd cur = 0x30 \<Longrightarrow> \<not> arcs_from (cur @ [b]) bs"
  by (simp add: arcs_from_def arc_ok_def)

lemma oidLoop_arcs:
  assumes "list_all digit cur" "lz \<longleftrightarrow> cur \<noteq> [] \<and> hd cur = 0x30" "lz \<Longrightarrow> length cur = 1"
  shows "(\<forall>e. oidLoop bs parts (length cur) lz = Inl e \<longrightarrow> \<not> arcs_from cur bs)
    \<and> (\<forall>p d. oidLoop bs parts (length cur) lz = Inr (p, d) \<longrightarrow>
         p + 1 = parts + length (oid_arcs bs) \<and> (d \<noteq> 0 \<longleftrightarrow> arcs_from cur bs))"
  using assms
proof (induction bs arbitrary: cur parts lz)
  case Nil
  then show ?case by (auto simp: arcs_from_simps arc_ok_def)
next
  case (Cons b bs)
  have len: "length (oid_arcs (b # bs)) = (if b = 0x2E then Suc (length (oid_arcs bs)) else length (oid_arcs bs))"
    by (cases "oid_arcs bs") auto
  have ac: "arc_ok cur \<longleftrightarrow> cur \<noteq> []" using Cons.prems by (auto simp: arc_ok_def)
  consider "digit b" "cur \<noteq> [] \<and> lz" | "digit b" "\<not> (cur \<noteq> [] \<and> lz)" | "b = 0x2E" "cur = []"
    | "b = 0x2E" "cur \<noteq> []" | "\<not> digit b" "b \<noteq> 0x2E" by blast
  then show ?case
  proof cases
    case 1
    then have "oidLoop (b # bs) parts (length cur) lz = Inl (Errorf ''arden: LDAPOID has a leading zero'' [])" "b \<noteq> 0x2E"
      by (auto simp: digit_def)
    with 1 Cons.prems(2) not_arc_ok show ?thesis by (simp add: arcs_from_simps)
  next
    case 2
    let ?lz = "if cur = [] then b = 0x30 else lz"
    have nd: "b \<noteq> 0x2E" using 2 by (auto simp: digit_def)
    have eq: "oidLoop (b # bs) parts (length cur) lz = oidLoop bs parts (length (cur @ [b])) ?lz"
      using 2 by (auto simp: digit_def)
    have p: "list_all digit (cur @ [b])" "?lz \<longleftrightarrow> cur @ [b] \<noteq> [] \<and> hd (cur @ [b]) = 0x30"
      "?lz \<Longrightarrow> length (cur @ [b]) = 1"
      using Cons.prems 2 by (auto simp: hd_append split: if_splits)
    have ln: "length (oid_arcs (b # bs)) = length (oid_arcs bs)" using len nd by simp
    show ?thesis unfolding eq arcs_from_simps(2) [OF nd] ln by (rule Cons.IH [OF p])
  next
    case 3
    then have "oidLoop (b # bs) parts (length cur) lz = Inl (Errorf ''arden: LDAPOID has an empty arc'' [])" by simp
    with 3 ac show ?thesis by (simp add: arcs_from_simps)
  next
    case 4
    then have "oidLoop (b # bs) parts (length cur) lz = oidLoop bs (parts + 1) (length []) False" by simp
    with Cons.IH [of "[]" False "parts + 1"] 4 ac len show ?thesis by (simp add: arcs_from_simps del: oidLoop.simps)
  next
    case 5
    then show ?thesis using arcs_from_simps(4) by (auto simp: digit_def)
  qed
qed

text \<open>(C29) \<^verbatim>\<open>validateLDAPOID\<close> accepts exactly the dotted decimal notation of RFC 4512: at least two arcs, each a
  non-empty decimal number without leading zeros.\<close>

theorem validateLDAPOID_correct: "validateLDAPOID v = None \<longleftrightarrow> oid_spec v"
proof -
  have a: "arcs_from [] v \<longleftrightarrow> list_all arc_ok (oid_arcs v)" by (cases "oid_arcs v") (auto simp: arcs_from_def)
  have l: "length (oid_arcs v) \<noteq> 0" by simp
  from oidLoop_arcs [of "[]" False v 0] a l show ?thesis
    by (cases "oidLoop v 0 0 False") (auto simp: validateLDAPOID_def oid_spec_def split: if_splits)
qed

end
