(* ===== verification/Ldap_Attributes.thy ===== *)
theory Ldap_Attributes
  imports Ldap_Types
begin

text \<open>
  Attributes, assertions and controls of package \<^verbatim>\<open>rfc4511\<close> (\<^verbatim>\<open>src/rfc4511/attribute.go\<close>, \<^verbatim>\<open>assertion.go\<close>,
  \<^verbatim>\<open>control.go\<close>).  Each type has its packet constructor, its decoder and the predicate
  of the values its decoder can return; the interpretations of \<open>codec\<close> are the round trips.
\<close>

section \<open>Attribute\<close>

record attribute =
  at_Type :: bytes
  at_Values :: "bytes list"
  at_Extensions :: "unknown_field list"

definition Attribute_BERPacket :: "attribute \<Rightarrow> packet" where
  "Attribute_BERPacket a =
     Envelope_Add (map UnknownField_BERPacket (at_Extensions a))
       (Envelope_Add [ber_OctetString (at_Type a), Envelope_Add (map AttributeValue_BERPacket (at_Values a)) ber_Set]
         ber_Sequence)"

definition Attribute_UnmarshalBER :: "attribute unmarshaler" where
  "Attribute_UnmarshalBER = decode_in SequenceIdentifier (\<lambda>sc.
     let (Type, sc) = Read [] AttributeDescription_UnmarshalBER sc;
         (Values, sc) = Within SetIdentifier (All_values [] AttributeValue_UnmarshalBER) sc;
         (Exts, sc) = UnknownFields [] sc
     in ended (case requireNonEmpty ''attribute type'' Type of
                 Some e \<Rightarrow> Inl e
               | None \<Rightarrow> Inr \<lparr>at_Type = Type, at_Values = Values, at_Extensions = Exts\<rparr>) sc)"

definition attribute_ok :: "attribute \<Rightarrow> bool" where
  "attribute_ok a \<longleftrightarrow> at_Type a \<noteq> [] \<and> utf8_Valid (at_Type a) \<and> unknowns_ok [] (at_Extensions a)"

lemma Attribute_packet:
  "Attribute_BERPacket a = Packet SequenceIdentifier []
     (ber_OctetString (at_Type a) # Packet SetIdentifier [] (map ber_OctetString (at_Values a)) False False
        # map UnknownField_BERPacket (at_Extensions a)) False False"
  by (simp add: Attribute_BERPacket_def text_defs)

interpretation ldap_attribute: codec Attribute_BERPacket Attribute_UnmarshalBER attribute_ok
proof unfold_locales
  fix a :: attribute and r n p ps
  show "attribute_ok a \<Longrightarrow> single (Attribute_BERPacket a)"
    by (simp add: Attribute_packet single_Constructed)
  assume a: "attribute_ok a" and h: "holds r n (p # ps)" and s: "same_octets p (Attribute_BERPacket a)"
  note ok = a [unfolded attribute_ok_def] and fs = a [unfolded attribute_ok_def unknowns_ok_def]
  show "Attribute_UnmarshalBER r n = (Inr a, past p r, n + nodes p)"
    unfolding Attribute_UnmarshalBER_def text_defs
    by (rule decode_in_accepts [OF h s [unfolded Attribute_packet]];
        (simp add: fs single_Constructed; fail)?;
        (erule scope_rules; (simp add: ok requireNonEmpty_def; fail)?)+)
qed

section \<open>AttributeValueAssertion\<close>

record assertion =
  av_Type :: bytes
  av_Value :: bytes
  av_Extensions :: "unknown_field list"

definition AttributeValueAssertion_BERPacket :: "assertion \<Rightarrow> packet" where
  "AttributeValueAssertion_BERPacket v =
     Envelope_Add (map UnknownField_BERPacket (av_Extensions v))
       (Envelope_Add [ber_OctetString (av_Type v), ber_OctetString (av_Value v)] ber_Sequence)"

definition zero_assertion :: assertion where
  "zero_assertion = \<lparr>av_Type = [], av_Value = [], av_Extensions = []\<rparr>"

definition AttributeValueAssertion_UnmarshalAs :: "ident \<Rightarrow> assertion unmarshaler" where
  "AttributeValueAssertion_UnmarshalAs tag = decode_in tag (\<lambda>sc.
     let (Type, sc) = Read [] AttributeDescription_UnmarshalBER sc;
         (Value, sc) = Read [] AssertionValue_UnmarshalBER sc;
         (Exts, sc) = UnknownFields [] sc
     in ended (case requireNonEmpty ''attribute description'' Type of
                 Some e \<Rightarrow> Inl e
               | None \<Rightarrow> Inr \<lparr>av_Type = Type, av_Value = Value, av_Extensions = Exts\<rparr>) sc)"

definition AttributeValueAssertion_UnmarshalBER :: "assertion unmarshaler" where
  "AttributeValueAssertion_UnmarshalBER = AttributeValueAssertion_UnmarshalAs SequenceIdentifier"

text \<open>\<^verbatim>\<open>assertionFilterPacket\<close> of \<^verbatim>\<open>filter.go\<close>: the same components under an implicit tag.\<close>

definition assertionFilterPacket :: "ident \<Rightarrow> assertion \<Rightarrow> packet" where
  "assertionFilterPacket tag v =
     Envelope_Add (map UnknownField_BERPacket (av_Extensions v))
       (Envelope_Add [ber_OctetString (av_Type v), ber_OctetString (av_Value v)] (ber_Constructed tag))"

definition assertion_ok :: "assertion \<Rightarrow> bool" where
  "assertion_ok v \<longleftrightarrow> av_Type v \<noteq> [] \<and> utf8_Valid (av_Type v) \<and> unknowns_ok [] (av_Extensions v)"

lemma assertion_packet:
  "id_constructed t \<Longrightarrow> assertionFilterPacket t v = Packet t []
     (ber_OctetString (av_Type v) # ber_OctetString (av_Value v) # map UnknownField_BERPacket (av_Extensions v)) False False"
  by (simp add: assertionFilterPacket_def)

lemma assertion_codec:
  assumes t: "Identifier_Valid t" "id_constructed t"
  shows "codec (assertionFilterPacket t) (AttributeValueAssertion_UnmarshalAs t) assertion_ok"
proof unfold_locales
  fix a :: assertion and r n p ps
  show "assertion_ok a \<Longrightarrow> single (assertionFilterPacket t a)"
    using t by (simp add: assertion_packet single_Constructed)
  assume a: "assertion_ok a" and h: "holds r n (p # ps)" and s: "same_octets p (assertionFilterPacket t a)"
  note ok = a [unfolded assertion_ok_def] and fs = a [unfolded assertion_ok_def unknowns_ok_def]
  show "AttributeValueAssertion_UnmarshalAs t r n = (Inr a, past p r, n + nodes p)"
    unfolding AttributeValueAssertion_UnmarshalAs_def text_defs
    by (rule decode_in_accepts [OF h s [unfolded assertion_packet [OF t(2)]]];
        (simp add: t fs; fail)?;
        (erule scope_rules; (simp add: ok requireNonEmpty_def; fail)?)+)
qed

interpretation ldap_assertion: codec AttributeValueAssertion_BERPacket AttributeValueAssertion_UnmarshalBER assertion_ok
proof -
  have "AttributeValueAssertion_BERPacket = assertionFilterPacket SequenceIdentifier"
    by (rule ext) (simp add: AttributeValueAssertion_BERPacket_def assertionFilterPacket_def)
  then show "codec AttributeValueAssertion_BERPacket AttributeValueAssertion_UnmarshalBER assertion_ok"
    using assertion_codec [of SequenceIdentifier] by (simp add: AttributeValueAssertion_UnmarshalBER_def)
qed

section \<open>Control\<close>

record control =
  co_Type :: bytes
  co_Criticality :: bool
  co_Value :: bytes
  co_HasValue :: bool
  co_Extensions :: "unknown_field list"

definition Control_BERPacket :: "control \<Rightarrow> packet" where
  "Control_BERPacket v =
     (let control = Envelope_Add [ber_OctetString (co_Type v)] ber_Sequence;
          control = (if co_Criticality v then Envelope_Add [ber_Boolean True] control else control);
          control = (if co_HasValue v then Envelope_Add [ber_OctetString (co_Value v)] control else control)
      in Envelope_Add (map UnknownField_BERPacket (co_Extensions v)) control)"

definition Control_UnmarshalBER :: "control unmarshaler" where
  "Control_UnmarshalBER = decode_in SequenceIdentifier (\<lambda>sc.
     let (Type, sc) = Read [] LDAPOID_UnmarshalBER sc;
         (Criticality, sc) = optional BooleanIdentifier False Boolean sc;
         (Value, sc) = optional OctetStringIdentifier None (some OctetString) sc;
         (Exts, sc) = UnknownFields [BooleanIdentifier, OctetStringIdentifier] sc
     in ended (Inr \<lparr>co_Type = Type, co_Criticality = Criticality,
                    co_Value = (case Value of None \<Rightarrow> [] | Some v \<Rightarrow> v), co_HasValue = (Value \<noteq> None),
                    co_Extensions = Exts\<rparr>) sc)"

definition control_ok :: "control \<Rightarrow> bool" where
  "control_ok v \<longleftrightarrow> oid_ok (co_Type v) \<and> (\<not> co_HasValue v \<longrightarrow> co_Value v = [])
     \<and> unknowns_ok [BooleanIdentifier, OctetStringIdentifier] (co_Extensions v)"

lemma Control_packet:
  "Control_BERPacket v = Packet SequenceIdentifier []
     (ber_OctetString (co_Type v) # (if co_Criticality v then [ber_Boolean True] else [])
        @ (if co_HasValue v then [ber_OctetString (co_Value v)] else [])
        @ map UnknownField_BERPacket (co_Extensions v)) False False"
  by (simp add: Control_BERPacket_def Let_def)

interpretation ldap_control: codec Control_BERPacket Control_UnmarshalBER control_ok
proof unfold_locales
  fix a :: control and r n p ps
  show "control_ok a \<Longrightarrow> single (Control_BERPacket a)"
    by (simp add: Control_packet single_Constructed)
  assume a: "control_ok a" and h: "holds r n (p # ps)" and s: "same_octets p (Control_BERPacket a)"
  note ok = a [unfolded control_ok_def] and fs = a [unfolded control_ok_def unknowns_ok_def]
  have nx: "not_next BooleanIdentifier (map UnknownField_BERPacket (co_Extensions a))"
    "not_next OctetStringIdentifier (map UnknownField_BERPacket (co_Extensions a))"
    using a unknowns_not_next [of "[BooleanIdentifier, OctetStringIdentifier]"] by (auto simp: control_ok_def)
  show "Control_UnmarshalBER r n = (Inr a, past p r, n + nodes p)"
    unfolding Control_UnmarshalBER_def
    by (rule decode_in_accepts [OF h s [unfolded Control_packet]];
        (simp add: fs; fail)?;
        (erule scope_rules; (simp add: ok nx; fail)?)+)
qed

end
