(* ===== verification/Ldap_Collection.thy ===== *)
theory Ldap_Collection
  imports Ldap_Attributes "HOL-Library.List_Lexorder"
begin

text \<open>
  The ordered attribute collection (\<^verbatim>\<open>src/rfc4511/attributes.go\<close>).

  \<^verbatim>\<open>strings.ToLower\<close> of a description that is not ASCII is the parameter \<open>uni\<close>; on ASCII text it lowers the
  letters A to Z.  Strings compare byte by byte, which is the lexicographic order on byte lists.  An
  \<^verbatim>\<open>Attributes\<close> value holds a pointer to its store, nil for the zero value; the model passes the store along, so
  an operation on a pointer receiver returns the store after it.  The index map is a map from keys to positions.
\<close>

section \<open>Keys\<close>

definition lowerByte :: "byte \<Rightarrow> byte" where
  "lowerByte b = (if 0x41 \<le> b \<and> b \<le> 0x5A then b + 0x20 else b)"

definition strings_ToLower :: "(bytes \<Rightarrow> bytes) \<Rightarrow> bytes \<Rightarrow> bytes" where
  "strings_ToLower uni s = (if list_all (\<lambda>b. b < 0x80) s then map lowerByte s else uni s)"

text \<open>\<^verbatim>\<open>strings.Cut(s, ";")\<close>, \<^verbatim>\<open>strings.Split(s, ";")\<close> and \<^verbatim>\<open>strings.Join(parts, ";")\<close>.\<close>

fun strings_Cut :: "bytes \<Rightarrow> bytes \<times> bytes \<times> bool" where
  "strings_Cut [] = ([], [], False)"
| "strings_Cut (b # bs) =
     (if b = 0x3B then ([], bs, True) else case strings_Cut bs of (x, y, found) \<Rightarrow> (b # x, y, found))"

fun strings_Split :: "bytes \<Rightarrow> bytes list" where
  "strings_Split [] = [[]]"
| "strings_Split (b # bs) =
     (if b = 0x3B then [] # strings_Split bs
      else case strings_Split bs of [] \<Rightarrow> [[b]] | x # xs \<Rightarrow> (b # x) # xs)"

fun strings_Join :: "bytes list \<Rightarrow> bytes" where
  "strings_Join [] = []"
| "strings_Join [x] = x"
| "strings_Join (x # xs) = x @ 0x3B # strings_Join xs"

lemma strings_Cut_shorter: "strings_Cut s = (x, y, True) \<Longrightarrow> length y < length s"
  by (induction s arbitrary: x y) (auto split: if_splits prod.splits)

text \<open>The loop that looks for options out of order.\<close>

function keyLoop :: "bytes \<Rightarrow> bytes \<Rightarrow> bool \<Rightarrow> bool" where
  "keyLoop previous remaining found =
     (if \<not> found then True
      else case strings_Cut remaining of
          (nextPart, remaining', found') \<Rightarrow> if nextPart \<le> previous then False else keyLoop nextPart remaining' found')"
  by pat_completeness auto
termination
  by (relation "measure (\<lambda>(previous, remaining, found). if found then Suc (length remaining) else 0)")
    (auto split: prod.splits dest: strings_Cut_shorter)

declare keyLoop.simps [simp del]

definition Key :: "(bytes \<Rightarrow> bytes) \<Rightarrow> bytes \<Rightarrow> bytes" where
  "Key uni d =
     (let name = strings_ToLower uni d
      in case strings_Cut name of
           (base, options, False) \<Rightarrow> name
         | (base, options, True) \<Rightarrow>
             (case strings_Cut options of
                (previous, remaining, found) \<Rightarrow>
                  if keyLoop previous remaining found then name
                  else base @ 0x3B # strings_Join (remdups_adj (sort (strings_Split options)))))"

text \<open>The reference definition: the base description, then the options as a sorted list without repetition.\<close>

definition key_spec :: "bytes \<Rightarrow> bytes" where
  "key_spec name =
     (case strings_Split name of
        b # [] \<Rightarrow> b
      | b # opts \<Rightarrow> strings_Join (b # sorted_list_of_set (set opts))
      | [] \<Rightarrow> [])"

lemma Split_not_Nil [simp]: "strings_Split s \<noteq> []"
  by (induction s) (auto split: list.splits)

lemma Split_Cut: "strings_Split s =
    (case strings_Cut s of (x, y, found) \<Rightarrow> if found then x # strings_Split y else [s])"
  by (induction s) (auto split: prod.splits)

lemma Cut_Join: "strings_Cut s = (x, y, True) \<Longrightarrow> s = x @ 0x3B # y"
  by (induction s arbitrary: x y) (auto split: if_splits prod.splits)

lemma Join_Cons: "xs \<noteq> [] \<Longrightarrow> strings_Join (x # xs) = x @ 0x3B # strings_Join xs"
  by (cases xs) auto

lemma Join_Split [simp]: "strings_Join (strings_Split s) = s"
proof (induction s)
  case (Cons b bs)
  then show ?case
    by (cases "strings_Split bs"; cases "tl (strings_Split bs)") (auto simp: Join_Cons)
qed simp

lemma keyLoop_eq:
  "keyLoop previous s found = (if found then sorted_wrt (<) (previous # strings_Split s) else True)"
proof (induction previous s found rule: keyLoop.induct)
  case (1 previous s found)
  obtain x y f where c: "strings_Cut s = (x, y, f)" by (metis surj_pair)
  show ?case
  proof (cases found)
    case True
    have IH: "\<not> x \<le> previous \<Longrightarrow> keyLoop x y f = (if f then sorted_wrt (<) (x # strings_Split y) else True)"
      using "1.IH" [OF _ c [symmetric] refl] True by blast
    have sp: "strings_Split s = (if f then x # strings_Split y else [s])" using c by (simp add: Split_Cut [of s])
    have "\<not> f \<Longrightarrow> x = s" using c by (induction s arbitrary: x y) (auto split: if_splits prod.splits)
    then show ?thesis
      using True c IH sp by (subst keyLoop.simps) (auto simp: not_le dest: order.strict_trans)
  qed (simp add: keyLoop.simps)
qed

lemma sort_unique: "remdups_adj (sort xs) = sorted_list_of_set (set (xs :: bytes list))"
proof (rule sorted_distinct_set_unique)
  have "distinct (remdups_adj ys)" if "sorted ys" for ys :: "bytes list"
    using that by (induction ys rule: remdups_adj.induct) (auto simp: order.antisym)
  then show "distinct (remdups_adj (sort xs))" by simp
qed simp_all

lemma Key_spec: "Key uni d = key_spec (strings_ToLower uni d)"
proof -
  define name where "name = strings_ToLower uni d"
  obtain b opts f where c: "strings_Cut name = (b, opts, f)" by (metis surj_pair)
  obtain x y g where c2: "strings_Cut opts = (x, y, g)" by (metis surj_pair)
  show ?thesis
  proof (cases f)
    case False
    with c show ?thesis by (simp add: Key_def key_spec_def Split_Cut [of name] flip: name_def)
  next
    case True
    have sp: "strings_Split name = b # strings_Split opts" using c True by (simp add: Split_Cut [of name])
    have nm: "name = b @ 0x3B # opts" using Cut_Join c True by simp
    have loop: "keyLoop x y g \<longleftrightarrow> sorted_wrt (<) (strings_Split opts)"
      using c2 by (simp add: keyLoop_eq Split_Cut [of opts])
    have spec: "key_spec name = b @ 0x3B # strings_Join (sorted_list_of_set (set (strings_Split opts)))"
      using sp by (cases "strings_Split opts") (auto simp: key_spec_def Join_Cons)
    show ?thesis
    proof (cases "keyLoop x y g")
      case True
      then have "sorted (strings_Split opts)" "distinct (strings_Split opts)"
        using loop by (auto simp: strict_sorted_iff)
      then have "sorted_list_of_set (set (strings_Split opts)) = strings_Split opts"
        by (simp add: sorted_list_of_set.idem_if_sorted_distinct)
      with spec nm True c c2 \<open>f\<close> show ?thesis by (simp add: Key_def flip: name_def)
    next
      case False
      with spec c c2 \<open>f\<close> show ?thesis by (simp add: Key_def sort_unique flip: name_def)
    qed
  qed
qed


section \<open>The store\<close>

record attribute_store =
  ordered :: "attribute list"
  index :: "bytes \<Rightarrow> nat option"

type_synonym attributes = "attribute_store option"

definition zero_attribute :: attribute where
  "zero_attribute = \<lparr>at_Type = [], at_Values = [], at_Extensions = []\<rparr>"

definition empty_store :: attribute_store where
  "empty_store = \<lparr>ordered = [], index = (\<lambda>_. None)\<rparr>"

text \<open>\<^verbatim>\<open>set\<close> reports whether it replaced an attribute.\<close>

definition Attributes_set :: "bytes \<Rightarrow> attribute \<Rightarrow> attributes \<Rightarrow> bool \<times> attributes" where
  "Attributes_set key a m =
     (let s = (case m of None \<Rightarrow> empty_store | Some s \<Rightarrow> s)
      in case index s key of
           Some i \<Rightarrow> (True, Some (s\<lparr>ordered := (ordered s)[i := a]\<rparr>))
         | None \<Rightarrow> (False, Some \<lparr>ordered = ordered s @ [a], index = (index s)(key \<mapsto> length (ordered s))\<rparr>))"

definition Attributes_Set :: "(bytes \<Rightarrow> bytes) \<Rightarrow> attribute \<Rightarrow> attributes \<Rightarrow> attributes" where
  "Attributes_Set uni a m = snd (Attributes_set (Key uni (at_Type a)) a m)"

definition NewAttributes :: "(bytes \<Rightarrow> bytes) \<Rightarrow> attribute list \<Rightarrow> attributes" where
  "NewAttributes uni attrs =
     (if attrs = [] then None else fold (Attributes_Set uni) attrs (Some empty_store))"

definition Attributes_Len :: "attributes \<Rightarrow> nat" where
  "Attributes_Len m = (case m of None \<Rightarrow> 0 | Some s \<Rightarrow> length (ordered s))"

definition Attributes_LookupKey :: "bytes \<Rightarrow> attributes \<Rightarrow> attribute \<times> bool" where
  "Attributes_LookupKey key m =
     (case m of
        None \<Rightarrow> (zero_attribute, False)
      | Some s \<Rightarrow> (case index s key of None \<Rightarrow> (zero_attribute, False) | Some i \<Rightarrow> (ordered s ! i, True)))"

definition Attributes_Lookup :: "(bytes \<Rightarrow> bytes) \<Rightarrow> bytes \<Rightarrow> attributes \<Rightarrow> attribute \<times> bool" where
  "Attributes_Lookup uni name m = Attributes_LookupKey (Key uni name) m"

text \<open>The loop over the index after a deletion moves every later position down by one.\<close>

definition Attributes_Delete :: "(bytes \<Rightarrow> bytes) \<Rightarrow> bytes \<Rightarrow> attributes \<Rightarrow> bool \<times> attributes" where
  "Attributes_Delete uni name m =
     (case m of
        None \<Rightarrow> (False, None)
      | Some s \<Rightarrow>
          let key = Key uni name
          in case index s key of
               None \<Rightarrow> (False, Some s)
             | Some i \<Rightarrow>
                 (True, Some \<lparr>ordered = take i (ordered s) @ drop (i + 1) (ordered s),
                   index = (\<lambda>k. map_option (\<lambda>position. if i < position then position - 1 else position)
                                 (((index s)(key := None)) k))\<rparr>))"

definition Attributes_All :: "attributes \<Rightarrow> attribute list" where
  "Attributes_All m = (case m of None \<Rightarrow> [] | Some s \<Rightarrow> ordered s)"

text \<open>\<^verbatim>\<open>Clone\<close> rebuilds the collection; copying the value slices does not change the values.\<close>

definition Attributes_Clone :: "(bytes \<Rightarrow> bytes) \<Rightarrow> attributes \<Rightarrow> attributes" where
  "Attributes_Clone uni m = (if Attributes_Len m = 0 then None else NewAttributes uni (Attributes_All m))"

definition Attributes_BERPacket :: "attributes \<Rightarrow> packet" where
  "Attributes_BERPacket m =
     (case m of None \<Rightarrow> ber_Sequence | Some s \<Rightarrow> Envelope_Add (map Attribute_BERPacket (ordered s)) ber_Sequence)"

section \<open>Invariant\<close>

text \<open>The index holds exactly the keys of the stored attributes, each at its position.\<close>

definition store_inv :: "(bytes \<Rightarrow> bytes) \<Rightarrow> attribute_store \<Rightarrow> bool" where
  "store_inv uni s \<longleftrightarrow> (\<forall>k i. index s k = Some i \<longleftrightarrow> i < length (ordered s) \<and> Key uni (at_Type (ordered s ! i)) = k)"

definition attrs_inv :: "(bytes \<Rightarrow> bytes) \<Rightarrow> attributes \<Rightarrow> bool" where
  "attrs_inv uni m = (case m of None \<Rightarrow> True | Some s \<Rightarrow> store_inv uni s)"

lemma store_inv_index:
  "store_inv uni s \<Longrightarrow> index s k = Some i \<longleftrightarrow> i < length (ordered s) \<and> Key uni (at_Type (ordered s ! i)) = k"
  by (simp add: store_inv_def)

lemma store_inv_None:
  "store_inv uni s \<Longrightarrow> index s k = None \<longleftrightarrow> (\<forall>a \<in> set (ordered s). Key uni (at_Type a) \<noteq> k)"
  unfolding store_inv_def by (metis in_set_conv_nth not_None_eq option.distinct(1))

lemma store_inv_distinct:
  assumes "store_inv uni s" "i < length (ordered s)" "j < length (ordered s)"
    "Key uni (at_Type (ordered s ! i)) = Key uni (at_Type (ordered s ! j))"
  shows "i = j"
  using assms store_inv_index [OF assms(1)] by (metis option.inject)

lemma store_inv_empty [simp]: "store_inv uni empty_store"
  by (simp add: store_inv_def empty_store_def)

definition store_of :: "attributes \<Rightarrow> attribute_store" where
  "store_of m = (case m of None \<Rightarrow> empty_store | Some s \<Rightarrow> s)"

lemma store_of_inv: "attrs_inv uni m \<Longrightarrow> store_inv uni (store_of m)"
  by (auto simp: attrs_inv_def store_of_def split: option.splits)

lemma store_of_simps [simp]: "store_of (Some s) = s" "Attributes_All m = ordered (store_of m)"
  by (simp_all add: store_of_def Attributes_All_def empty_store_def split: option.splits)

text \<open>The two outcomes of \<^verbatim>\<open>set\<close>, in terms of the stored attributes.\<close>

lemma set_new:
  assumes "attrs_inv uni m" "\<forall>b \<in> set (Attributes_All m). Key uni (at_Type b) \<noteq> Key uni (at_Type a)"
  shows "fst (Attributes_set (Key uni (at_Type a)) a m) = False"
    and "attrs_inv uni (snd (Attributes_set (Key uni (at_Type a)) a m))"
    and "Attributes_All (snd (Attributes_set (Key uni (at_Type a)) a m)) = Attributes_All m @ [a]"
proof -
  let ?s = "store_of m" and ?k = "Key uni (at_Type a)"
  note inv = store_of_inv [OF assms(1)]
  have none: "index ?s ?k = None" using assms(2) store_inv_None [OF inv] by simp
  have eq: "Attributes_set ?k a m =
      (False, Some \<lparr>ordered = ordered ?s @ [a], index = (index ?s)(?k \<mapsto> length (ordered ?s))\<rparr>)"
    using none by (simp add: Attributes_set_def store_of_def Let_def)
  show "fst (Attributes_set ?k a m) = False" "Attributes_All (snd (Attributes_set ?k a m)) = Attributes_All m @ [a]"
    by (simp_all add: eq)
  have "Key uni (at_Type (ordered ?s ! i)) \<noteq> ?k" if "i < length (ordered ?s)" for i
    using assms(2) that by simp
  then show "attrs_inv uni (snd (Attributes_set ?k a m))"
    using store_inv_index [OF inv]
    by (auto simp: eq attrs_inv_def store_inv_def nth_append less_Suc_eq)
qed

lemma set_replace:
  assumes "attrs_inv uni m" "b \<in> set (Attributes_All m)" "Key uni (at_Type b) = Key uni (at_Type a)"
  shows "fst (Attributes_set (Key uni (at_Type a)) a m) = True"
    and "attrs_inv uni (snd (Attributes_set (Key uni (at_Type a)) a m))"
    and "Attributes_All (snd (Attributes_set (Key uni (at_Type a)) a m))
      = map (\<lambda>x. if Key uni (at_Type x) = Key uni (at_Type a) then a else x) (Attributes_All m)"
proof -
  let ?s = "store_of m" and ?k = "Key uni (at_Type a)"
  note inv = store_of_inv [OF assms(1)] and ix = store_inv_index [OF store_of_inv [OF assms(1)]]
  have "index ?s ?k \<noteq> None" using store_inv_None [OF inv, of ?k] assms(2,3) by auto
  then obtain i where i: "index ?s ?k = Some i" by blast
  then have at: "i < length (ordered ?s)" "Key uni (at_Type (ordered ?s ! i)) = ?k" using ix [of ?k i] by simp_all
  have eq: "Attributes_set ?k a m = (True, Some (?s\<lparr>ordered := (ordered ?s)[i := a]\<rparr>))"
    using i by (simp add: Attributes_set_def store_of_def Let_def)
  show "fst (Attributes_set ?k a m) = True" by (simp add: eq)
  have j: "j = i" if "j < length (ordered ?s)" "Key uni (at_Type (ordered ?s ! j)) = ?k" for j
    using store_inv_distinct [OF inv that(1) at(1)] that(2) at(2) by simp
  have ord: "(ordered ?s)[i := a] = map (\<lambda>x. if Key uni (at_Type x) = ?k then a else x) (ordered ?s)"
  proof (rule nth_equalityI)
    fix n
    assume "n < length ((ordered ?s)[i := a])"
    then show "(ordered ?s)[i := a] ! n = map (\<lambda>x. if Key uni (at_Type x) = ?k then a else x) (ordered ?s) ! n"
      using j [of n] at(2) by (cases "n = i") auto
  qed simp
  then show "Attributes_All (snd (Attributes_set ?k a m)) = map (\<lambda>x. if Key uni (at_Type x) = ?k then a else x) (Attributes_All m)"
    by (simp add: eq)
  have keys: "Key uni (at_Type ((ordered ?s)[i := a] ! j)) = Key uni (at_Type (ordered ?s ! j))"
    if "j < length (ordered ?s)" for j
    using that at by (cases "j = i") simp_all
  have "store_inv uni (?s\<lparr>ordered := (ordered ?s)[i := a]\<rparr>)"
    unfolding store_inv_def by (simp add: keys ix cong: conj_cong)
  then show "attrs_inv uni (snd (Attributes_set ?k a m))" by (simp add: eq attrs_inv_def)
qed

lemma set_inv: "attrs_inv uni m \<Longrightarrow> attrs_inv uni (snd (Attributes_set (Key uni (at_Type a)) a m))"
  using set_new(2) set_replace(2) by blast

lemma lookup_find:
  assumes "attrs_inv uni m"
  shows "Attributes_LookupKey k m =
     (case find (\<lambda>a. Key uni (at_Type a) = k) (Attributes_All m) of None \<Rightarrow> (zero_attribute, False) | Some a \<Rightarrow> (a, True))"
proof -
  note inv = store_of_inv [OF assms]
  have lk: "Attributes_LookupKey k m =
      (case index (store_of m) k of None \<Rightarrow> (zero_attribute, False) | Some i \<Rightarrow> (ordered (store_of m) ! i, True))"
    by (simp add: Attributes_LookupKey_def store_of_def empty_store_def split: option.splits)
  show ?thesis
  proof (cases "index (store_of m) k")
    case None
    then have "find (\<lambda>a. Key uni (at_Type a) = k) (ordered (store_of m)) = None"
      using store_inv_None [OF inv] by (auto simp: find_None_iff)
    with None lk show ?thesis by simp
  next
    case (Some i)
    then have at: "i < length (ordered (store_of m))" "Key uni (at_Type (ordered (store_of m) ! i)) = k"
      using store_inv_index [OF inv, of k i] by simp_all
    have "find (\<lambda>a. Key uni (at_Type a) = k) (ordered (store_of m)) = Some (ordered (store_of m) ! i)"
      unfolding find_Some_iff using at store_inv_distinct [OF inv]
      by (intro exI [of _ i]) (auto dest: less_trans)
    with Some lk show ?thesis by simp
  qed
qed


lemma delete_absent:
  assumes "attrs_inv uni m" "\<forall>b \<in> set (Attributes_All m). Key uni (at_Type b) \<noteq> Key uni name"
  shows "Attributes_Delete uni name m = (False, m)"
proof (cases m)
  case (Some s)
  with assms have "index s (Key uni name) = None" using store_inv_None [of uni s] by (simp add: attrs_inv_def)
  with Some show ?thesis by (simp add: Attributes_Delete_def)
qed (simp add: Attributes_Delete_def)

lemma delete_present:
  assumes "attrs_inv uni m" "b \<in> set (Attributes_All m)" "Key uni (at_Type b) = Key uni name"
  shows "fst (Attributes_Delete uni name m) = True"
    and "attrs_inv uni (snd (Attributes_Delete uni name m))"
    and "Attributes_All (snd (Attributes_Delete uni name m))
      = filter (\<lambda>a. Key uni (at_Type a) \<noteq> Key uni name) (Attributes_All m)"
proof -
  let ?k = "Key uni name"
  obtain s where m: "m = Some s" using assms(2) by (cases m) (auto simp: store_of_def empty_store_def)
  have inv: "store_inv uni s" using assms(1) m by (simp add: attrs_inv_def)
  note ix = store_inv_index [OF inv]
  obtain i where i: "index s ?k = Some i"
    using store_inv_None [OF inv, of ?k] assms(2,3) m by auto
  then have at: "i < length (ordered s)" "Key uni (at_Type (ordered s ! i)) = ?k" using ix [of ?k i] by simp_all
  define s' where "s' = \<lparr>ordered = take i (ordered s) @ drop (i + 1) (ordered s),
      index = (\<lambda>k. map_option (\<lambda>p. if i < p then p - 1 else p) (((index s)(?k := None)) k))\<rparr>"
  have eq: "Attributes_Delete uni name m = (True, Some s')"
    using i m by (simp add: Attributes_Delete_def s'_def)
  show "fst (Attributes_Delete uni name m) = True" by (simp add: eq)
  have len: "length (ordered s') = length (ordered s) - 1" using at(1) by (simp add: s'_def)
  have nth: "ordered s' ! j = ordered s ! (if j < i then j else j + 1)" if "j < length (ordered s')" for j
    using that at(1) by (auto simp: s'_def nth_append min_def)
  have other: "Key uni (at_Type (ordered s ! j)) \<noteq> ?k" if "j < length (ordered s)" "j \<noteq> i" for j
    using store_inv_distinct [OF inv that(1) at(1)] that at(2) by auto
  have split: "ordered s = take i (ordered s) @ ordered s ! i # drop (i + 1) (ordered s)"
    using at(1) by (simp add: id_take_nth_drop)
  have "filter (\<lambda>a. Key uni (at_Type a) \<noteq> ?k) (take i (ordered s)) = take i (ordered s)"
    "filter (\<lambda>a. Key uni (at_Type a) \<noteq> ?k) (drop (i + 1) (ordered s)) = drop (i + 1) (ordered s)"
    using other at(1) by (auto simp: filter_id_conv in_set_conv_nth)
  then have "filter (\<lambda>a. Key uni (at_Type a) \<noteq> ?k) (ordered s) = take i (ordered s) @ drop (i + 1) (ordered s)"
    using at(2) by (subst split) (simp del: take_all drop_all)
  then show "Attributes_All (snd (Attributes_Delete uni name m)) = filter (\<lambda>a. Key uni (at_Type a) \<noteq> ?k) (Attributes_All m)"
    unfolding eq by (simp add: m s'_def)
  have "index s' k = Some j \<longleftrightarrow> j < length (ordered s') \<and> Key uni (at_Type (ordered s' ! j)) = k" for k j
  proof
    assume "index s' k = Some j"
    then obtain q where q: "k \<noteq> ?k" "index s k = Some q" "j = (if i < q then q - 1 else q)"
      unfolding s'_def by (cases "index s k"; cases "k = ?k") auto
    with ix at have "q < length (ordered s)" "Key uni (at_Type (ordered s ! q)) = k" "q \<noteq> i" by auto
    with q(3) len nth [of j] at(1) show "j < length (ordered s') \<and> Key uni (at_Type (ordered s' ! j)) = k" by auto
  next
    assume a: "j < length (ordered s') \<and> Key uni (at_Type (ordered s' ! j)) = k"
    let ?q = "if j < i then j else j + 1"
    have "?q < length (ordered s)" "Key uni (at_Type (ordered s ! ?q)) = k" using a len nth by auto
    then have "index s k = Some ?q" "k \<noteq> ?k" using ix other [of ?q] by auto
    then show "index s' k = Some j" by (auto simp: s'_def)
  qed
  then show "attrs_inv uni (snd (Attributes_Delete uni name m))"
    by (simp add: eq attrs_inv_def store_inv_def)
qed


section \<open>The collection as a map\<close>

text \<open>What clients rely on: a collection keyed by a function of its values.\<close>

locale keyed_map =
  fixes empty :: 'm and lookup :: "'k \<Rightarrow> 'm \<Rightarrow> 'v option" and update :: "'v \<Rightarrow> 'm \<Rightarrow> 'm"
    and delete :: "'d \<Rightarrow> 'm \<Rightarrow> 'm" and key :: "'v \<Rightarrow> 'k" and dkey :: "'d \<Rightarrow> 'k" and invar :: "'m \<Rightarrow> bool"
  assumes invar_empty: "invar empty"
    and invar_update: "invar m \<Longrightarrow> invar (update v m)"
    and invar_delete: "invar m \<Longrightarrow> invar (delete d m)"
    and lookup_empty: "lookup k empty = None"
    and lookup_update: "invar m \<Longrightarrow> lookup k (update v m) = (if key v = k then Some v else lookup k m)"
    and lookup_delete: "invar m \<Longrightarrow> lookup k (delete d m) = (if k = dkey d then None else lookup k m)"
    and lookup_key: "invar m \<Longrightarrow> lookup k m = Some v \<Longrightarrow> key v = k"
begin

lemma invar_fold: "invar m \<Longrightarrow> invar (fold update vs m)"
  by (induction vs arbitrary: m) (auto intro: invar_update)

text \<open>Of several values with one key the last one counts.\<close>

lemma lookup_fold:
  "invar m \<Longrightarrow> lookup k (fold update vs m) =
     (case find (\<lambda>v. key v = k) (rev vs) of None \<Rightarrow> lookup k m | Some v \<Rightarrow> Some v)"
proof (induction vs rule: rev_induct)
  case (snoc v vs)
  then show ?case by (simp add: lookup_update invar_fold)
qed simp

lemma update_other: "invar m \<Longrightarrow> key v \<noteq> k \<Longrightarrow> lookup k (update v m) = lookup k m"
  by (simp add: lookup_update)

end

definition attrs_lookup :: "bytes \<Rightarrow> attributes \<Rightarrow> attribute option" where
  "attrs_lookup k m = (case Attributes_LookupKey k m of (a, found) \<Rightarrow> if found then Some a else None)"

text \<open>\<^verbatim>\<open>Delete\<close> takes a description, whose key is deleted.\<close>

definition attrs_delete :: "(bytes \<Rightarrow> bytes) \<Rightarrow> bytes \<Rightarrow> attributes \<Rightarrow> attributes" where
  "attrs_delete uni name m = snd (Attributes_Delete uni name m)"

lemma attrs_lookup_find:
  "attrs_inv uni m \<Longrightarrow> attrs_lookup k m = find (\<lambda>a. Key uni (at_Type a) = k) (Attributes_All m)"
  by (simp add: attrs_lookup_def lookup_find split: option.splits)

lemma find_filter_neq: "find (\<lambda>a. f a = k) (filter (\<lambda>a. f a \<noteq> k') xs) = (if k = k' then None else find (\<lambda>a. f a = k) xs)"
  by (induction xs) auto

lemma find_map_replace:
  "f a = k \<Longrightarrow> \<exists>x \<in> set xs. f x = k \<Longrightarrow> find (\<lambda>x. f x = k) (map (\<lambda>x. if f x = k then a else x) xs) = Some a"
  by (induction xs) auto

lemma find_map_other:
  "f a = k' \<Longrightarrow> k' \<noteq> k \<Longrightarrow> find (\<lambda>x. f x = k) (map (\<lambda>x. if f x = k' then a else x) xs) = find (\<lambda>x. f x = k) xs"
  by (induction xs) auto

lemma find_snoc: "find P (xs @ [x]) = (case find P xs of None \<Rightarrow> if P x then Some x else None | Some y \<Rightarrow> Some y)"
  by (induction xs) auto

lemma attrs_lookup_Set:
  assumes "attrs_inv uni m"
  shows "attrs_lookup k (Attributes_Set uni a m) = (if Key uni (at_Type a) = k then Some a else attrs_lookup k m)"
proof (cases "\<exists>b \<in> set (Attributes_All m). Key uni (at_Type b) = Key uni (at_Type a)")
  case True
  then obtain b where b: "b \<in> set (Attributes_All m)" "Key uni (at_Type b) = Key uni (at_Type a)" by blast
  note r = set_replace [OF assms b]
  show ?thesis
    using True find_map_replace [of "\<lambda>x. Key uni (at_Type x)" a "Key uni (at_Type a)" "Attributes_All m"]
      find_map_other [of "\<lambda>x. Key uni (at_Type x)" a "Key uni (at_Type a)" k "Attributes_All m"]
    unfolding Attributes_Set_def attrs_lookup_find [OF r(2)] attrs_lookup_find [OF assms] r(3) by auto
next
  case False
  then have n: "\<forall>b \<in> set (Attributes_All m). Key uni (at_Type b) \<noteq> Key uni (at_Type a)" by blast
  note r = set_new [OF assms n]
  have none: "find (\<lambda>x. Key uni (at_Type x) = Key uni (at_Type a)) (Attributes_All m) = None"
    unfolding find_None_iff using n by blast
  show ?thesis
    unfolding Attributes_Set_def attrs_lookup_find [OF r(2)] attrs_lookup_find [OF assms] r(3)
    using none by (auto simp: find_snoc split: option.splits)
qed

lemma attrs_delete_cases:
  assumes "attrs_inv uni m"
  shows "attrs_inv uni (attrs_delete uni name m)"
    and "Attributes_All (attrs_delete uni name m) = filter (\<lambda>a. Key uni (at_Type a) \<noteq> Key uni name) (Attributes_All m)"
proof -
  have "attrs_inv uni (attrs_delete uni name m) \<and>
     Attributes_All (attrs_delete uni name m) = filter (\<lambda>a. Key uni (at_Type a) \<noteq> Key uni name) (Attributes_All m)"
  proof (cases "\<exists>b \<in> set (Attributes_All m). Key uni (at_Type b) = Key uni name")
    case True
    then obtain b where b: "b \<in> set (Attributes_All m)" "Key uni (at_Type b) = Key uni name" by blast
    note d = delete_present [OF assms b]
    show ?thesis using d(2,3) unfolding attrs_delete_def by blast
  next
    case False
    then have n: "\<forall>b \<in> set (Attributes_All m). Key uni (at_Type b) \<noteq> Key uni name" by blast
    then have "filter (\<lambda>a. Key uni (at_Type a) \<noteq> Key uni name) (Attributes_All m) = Attributes_All m"
      by (simp add: filter_id_conv)
    with delete_absent [OF assms n] assms show ?thesis by (simp add: attrs_delete_def)
  qed
  then show "attrs_inv uni (attrs_delete uni name m)"
    "Attributes_All (attrs_delete uni name m) = filter (\<lambda>a. Key uni (at_Type a) \<noteq> Key uni name) (Attributes_All m)"
    by blast+
qed


interpretation attrs: keyed_map None attrs_lookup "Attributes_Set uni" "attrs_delete uni"
  "\<lambda>a. Key uni (at_Type a)" "Key uni" "attrs_inv uni" for uni
proof
  fix m :: attributes and k d v
  show "attrs_inv uni None" "attrs_lookup k None = None"
    by (simp_all add: attrs_inv_def attrs_lookup_def Attributes_LookupKey_def)
  assume inv: "attrs_inv uni m"
  show "attrs_inv uni (Attributes_Set uni v m)" using set_inv [OF inv] by (simp add: Attributes_Set_def)
  show "attrs_inv uni (attrs_delete uni d m)" by (rule attrs_delete_cases(1) [OF inv])
  show "attrs_lookup k (Attributes_Set uni v m) = (if Key uni (at_Type v) = k then Some v else attrs_lookup k m)"
    by (rule attrs_lookup_Set [OF inv])
  show "attrs_lookup k (attrs_delete uni d m) = (if k = Key uni d then None else attrs_lookup k m)"
    unfolding attrs_lookup_find [OF attrs_delete_cases(1) [OF inv]] attrs_lookup_find [OF inv]
      attrs_delete_cases(2) [OF inv] find_filter_neq ..
  show "attrs_lookup k m = Some v \<Longrightarrow> Key uni (at_Type v) = k"
    unfolding attrs_lookup_find [OF inv] by (auto simp: find_Some_iff)
qed

section \<open>Decoding\<close>

lemma Err_None: "Err sc = (None, sc') \<Longrightarrow> sc_err sc = None"
  by (auto simp: Err_def ready_def decoderReady.simps split: prod.splits option.splits)

lemma Err_reader: "Err sc = (e, sc') \<Longrightarrow> sc_reader sc' = sc_reader sc"
  by (auto simp: Err_def split: prod.splits dest: ready_reader)

lemma loop_progress:
  "More sc = (b, sc1) \<Longrightarrow> one z unm sc1 = (a, sc2) \<Longrightarrow> Err sc2 = (None, sc3) \<Longrightarrow>
     Remaining (sc_reader sc3) < Remaining (sc_reader sc)"
  using More_one_progress Err_None Err_reader by metis

function AttributesLoop :: "(bytes \<Rightarrow> bytes) \<Rightarrow> attributes \<Rightarrow> scope \<Rightarrow> attributes \<times> scope" where
  "AttributesLoop uni decoded sc =
     (case More sc of
        (False, sc1) \<Rightarrow> (decoded, sc1)
      | (True, sc1) \<Rightarrow>
          (case Read zero_attribute Attribute_UnmarshalBER sc1 of
             (a, sc2) \<Rightarrow>
               case Err sc2 of
                   (Some _, sc3) \<Rightarrow> (decoded, sc3)
                 | (None, sc3) \<Rightarrow>
                     (case Attributes_set (Key uni (at_Type a)) a decoded of
                        (True, decoded') \<Rightarrow>
                          (decoded', Fail (Some (Errorf ''arden: duplicate attribute description %q'' [AStr (at_Type a)])) sc3)
                      | (False, decoded') \<Rightarrow> AttributesLoop uni decoded' sc3)))"
  by pat_completeness auto
termination
  by (relation "measure (\<lambda>(uni, decoded, sc). Remaining (sc_reader sc))")
    (auto simp: Read_def dest: loop_progress [OF sym sym sym])

declare AttributesLoop.simps [simp del]

definition Attributes_UnmarshalBER :: "(bytes \<Rightarrow> bytes) \<Rightarrow> attributes unmarshaler" where
  "Attributes_UnmarshalBER uni = decode_in SequenceIdentifier (\<lambda>sc.
     let (decoded, sc) = AttributesLoop uni None sc in ended (Inr decoded) sc)"

text \<open>What a decoder can return: nothing, or a store with at least one attribute and no repeated key.\<close>

definition attributes_ok :: "(bytes \<Rightarrow> bytes) \<Rightarrow> attributes \<Rightarrow> bool" where
  "attributes_ok uni m \<longleftrightarrow> attrs_inv uni m \<and> list_all attribute_ok (Attributes_All m) \<and> (m \<noteq> None \<longrightarrow> Attributes_All m \<noteq> [])"

lemma Attributes_packet:
  "Attributes_BERPacket m = Packet SequenceIdentifier [] (map Attribute_BERPacket (Attributes_All m)) False False"
  by (simp add: Attributes_BERPacket_def store_of_def empty_store_def split: option.splits)

text \<open>The stored attributes determine a collection that satisfies the invariant.\<close>

lemma attrs_eqI:
  assumes "attrs_inv uni m" "attrs_inv uni m'" "Attributes_All m = Attributes_All m'" "m = None \<longleftrightarrow> m' = None"
  shows "m = m'"
proof (cases m)
  case (Some s)
  then obtain s' where m': "m' = Some s'" using assms(4) by auto
  have o: "ordered s = ordered s'" using assms(3) Some m' by simp
  have "index s k = index s' k" for k
  proof (cases "index s k")
    case None
    then have "\<forall>a \<in> set (ordered s'). Key uni (at_Type a) \<noteq> k"
      using assms(1) Some o by (simp add: attrs_inv_def store_inv_None)
    then have "index s' k = None" using assms(2) m' by (simp add: attrs_inv_def store_inv_None)
    with None show ?thesis by simp
  next
    case s: (Some i)
    then have "i < length (ordered s') \<and> Key uni (at_Type (ordered s' ! i)) = k"
      using assms(1) Some o by (simp add: attrs_inv_def store_inv_index)
    then have "index s' k = Some i" using assms(2) m' by (simp add: attrs_inv_def store_inv_index)
    with s show ?thesis by simp
  qed
  then have "index s = index s'" by (rule ext)
  with o Some m' show ?thesis by simp
qed (use assms(4) in simp)

lemma AttributesLoop_accepts:
  assumes "stand sc (map Attribute_BERPacket as) res tot" "list_all attribute_ok as" "attrs_inv uni m"
    "distinct (map (\<lambda>a. Key uni (at_Type a)) (Attributes_All m @ as))"
  shows "\<exists>m'. accepts (AttributesLoop uni m sc) m' [] res tot \<and> attrs_inv uni m'
     \<and> Attributes_All m' = Attributes_All m @ as \<and> (m' = None \<longleftrightarrow> m = None \<and> as = [])"
  using assms
proof (induction as arbitrary: sc m)
  case Nil
  obtain sc1 where "ready sc = (True, sc1)" "stand sc1 [] res tot" using stand_open Nil.prems(1) by force
  moreover have "Empty (sc_reader sc1)" using calculation(2) by (auto simp: stand_def holds_def Empty_unread)
  ultimately show ?case
    using Nil.prems(3) by (intro exI [of _ m]) (simp add: AttributesLoop.simps [of uni m sc] More_def accepts_def)
next
  case (Cons a as)
  let ?k = "Key uni (at_Type a)"
  from Cons.prems(1) [unfolded list.map] obtain r k n q qs where st: "sc = scope_at r k res n" "finished k"
    "holds r n (q # qs)" "same_octets q (Attribute_BERPacket a)"
    "list_all2 same_octets qs (map Attribute_BERPacket as)" "n + nodes q + forest_nodes qs = tot"
    by (rule stand_cases)
  let ?sc = "scope_at (past q r) None res (n + nodes q)"
  have "unread r \<noteq> []" using holds_Cons(3) [OF st(3)] by (simp add: tlv_def length_octets_def)
  then have more: "More sc = (True, scope_at r None res n)" using st(1,2) by simp
  have read: "Read zero_attribute Attribute_UnmarshalBER (scope_at r None res n) = (a, ?sc)"
    using ldap_attribute.read_value [OF _ st(3,4) finished_None] Cons.prems(2) by simp
  have new: "\<forall>b \<in> set (Attributes_All m). Key uni (at_Type b) \<noteq> ?k"
  proof -
    have "?k \<notin> (\<lambda>a. Key uni (at_Type a)) ` set (Attributes_All m)" using Cons.prems(4) by simp
    then show ?thesis by (metis image_eqI)
  qed
  note sn = set_new [OF Cons.prems(3) new]
  obtain m1 where m1: "Attributes_set ?k a m = (False, m1)" using sn(1) by (metis prod.collapse)
  have step: "AttributesLoop uni m sc = AttributesLoop uni m1 ?sc"
    by (subst AttributesLoop.simps) (simp add: more read m1)
  have m1_facts: "m1 \<noteq> None" "Attributes_All m1 = Attributes_All m @ [a]" "attrs_inv uni m1"
    using m1 sn(2,3) by (auto simp: Attributes_set_def Let_def split: option.splits)
  have "stand ?sc (map Attribute_BERPacket as) res tot" by (rule stand_step [OF st(3,5,6) finished_None])
  moreover have "list_all attribute_ok as" using Cons.prems(2) by simp
  moreover have "distinct (map (\<lambda>a. Key uni (at_Type a)) (Attributes_All m1 @ as))"
    using Cons.prems(4) unfolding m1_facts(2) by simp
  ultimately obtain m' where "accepts (AttributesLoop uni m1 ?sc) m' [] res tot" "attrs_inv uni m'"
    "Attributes_All m' = Attributes_All m1 @ as" "m' = None \<longleftrightarrow> m1 = None \<and> as = []"
    using Cons.IH [of ?sc m1] m1_facts(3) by blast
  with step m1_facts(1,2) show ?case by (intro exI [of _ m']) simp
qed

lemma distinct_keys:
  assumes "attrs_inv uni m"
  shows "distinct (map (\<lambda>a. Key uni (at_Type a)) (Attributes_All m))"
  using store_inv_distinct [OF store_of_inv [OF assms]] by (auto simp: distinct_conv_nth)

lemma attributes_codec: "codec Attributes_BERPacket (Attributes_UnmarshalBER uni) (attributes_ok uni)"
proof unfold_locales
  fix a :: attributes and r n p ps
  show "attributes_ok uni a \<Longrightarrow> single (Attributes_BERPacket a)"
    by (simp add: Attributes_packet single_Constructed)
  assume a: "attributes_ok uni a" and h: "holds r n (p # ps)" and s: "same_octets p (Attributes_BERPacket a)"
  note ok = a [unfolded attributes_ok_def]
  show "Attributes_UnmarshalBER uni r n = (Inr a, past p r, n + nodes p)"
    unfolding Attributes_UnmarshalBER_def
  proof (rule decode_in_accepts [OF h s [unfolded Attributes_packet]])
    fix sc
    assume "stand sc (map Attribute_BERPacket (Attributes_All a)) [] (n + nodes p)"
    moreover have "attrs_inv uni None" "Attributes_All None = []"
      by (simp_all add: attrs_inv_def store_of_def empty_store_def)
    ultimately obtain m' where m': "accepts (AttributesLoop uni None sc) m' [] [] (n + nodes p)" "attrs_inv uni m'"
      "Attributes_All m' = Attributes_All a" "m' = None \<longleftrightarrow> Attributes_All a = []"
      using AttributesLoop_accepts [of sc "Attributes_All a" "[]" "n + nodes p" uni None] ok distinct_keys [of uni a]
      by auto
    have "m' = a"
      by (rule attrs_eqI [OF m'(2)]) (use ok m'(3,4) \<open>Attributes_All None = []\<close> in auto)
    with m'(1) obtain sc' where "AttributesLoop uni None sc = (a, sc')" "stand sc' [] [] (n + nodes p)"
      unfolding accepts_def by (metis prod.collapse)
    then show "accepts (let (decoded, sc) = AttributesLoop uni None sc in ended (Inr decoded) sc) (Inr a) [] [] (n + nodes p)"
      by (simp add: accepts_ended)
  qed (use ldap_attribute.singles ok in \<open>auto\<close>)
qed

interpretation ldap_attributes: codec Attributes_BERPacket "Attributes_UnmarshalBER uni" "attributes_ok uni" for uni
  by (rule attributes_codec)

section \<open>Properties\<close>

lemma Lookup_attrs: "Attributes_Lookup uni name m =
    (case attrs_lookup (Key uni name) m of None \<Rightarrow> (zero_attribute, False) | Some a \<Rightarrow> (a, True))"
  by (auto simp: Attributes_Lookup_def attrs_lookup_def Attributes_LookupKey_def split: option.splits)

lemma keys_Set:
  assumes "attrs_inv uni m"
  shows "map (\<lambda>a. Key uni (at_Type a)) (Attributes_All (Attributes_Set uni a m)) =
    (let ks = map (\<lambda>a. Key uni (at_Type a)) (Attributes_All m); k = Key uni (at_Type a)
     in if k \<in> set ks then ks else ks @ [k])"
proof (cases "\<exists>b \<in> set (Attributes_All m). Key uni (at_Type b) = Key uni (at_Type a)")
  case True
  then obtain b where b: "b \<in> set (Attributes_All m)" "Key uni (at_Type b) = Key uni (at_Type a)" by blast
  have "Key uni (at_Type a) \<in> (\<lambda>a. Key uni (at_Type a)) ` set (Attributes_All m)"
    unfolding b(2) [symmetric] using b(1) by (rule imageI)
  then show ?thesis unfolding Attributes_Set_def set_replace(3) [OF assms b] by (auto simp: Let_def)
next
  case False
  then have n: "\<forall>b \<in> set (Attributes_All m). Key uni (at_Type b) \<noteq> Key uni (at_Type a)" by blast
  then show ?thesis unfolding Attributes_Set_def set_new(3) [OF assms n] by (auto simp: Let_def)
qed

lemma keys_fold:
  assumes "attrs_inv uni m" "Attributes_All m = []"
  shows "map (\<lambda>a. Key uni (at_Type a)) (Attributes_All (fold (Attributes_Set uni) vs m))
    = rev (remdups (rev (map (\<lambda>a. Key uni (at_Type a)) vs)))"
proof (induction vs rule: rev_induct)
  case (snoc v vs)
  then show ?case using keys_Set [OF attrs.invar_fold [OF assms(1)], of v vs] by (simp add: Let_def)
qed (use assms(2) in simp)

text \<open>The comparison key of an attribute description is its lower-case form with the options sorted and
  repeated options dropped: the fast path that returns the name unchanged agrees with the reference.\<close>

theorem Key_correct: "Key uni d = key_spec (strings_ToLower uni d)"
  by (rule Key_spec)

text \<open>(C22) The collection is a map from keys to attributes: \<^verbatim>\<open>Set\<close> and \<^verbatim>\<open>Delete\<close> keep the index in step with the
  ordered attributes, a lookup after \<^verbatim>\<open>Set\<close> finds the attribute under every spelling of its description, a
  lookup after \<^verbatim>\<open>Delete\<close> does not, and other descriptions are not affected.\<close>

theorem attributes_map_laws:
  assumes "attrs_inv uni m"
  shows "attrs_inv uni (Attributes_Set uni a m)
    \<and> attrs_inv uni (snd (Attributes_Delete uni name m))
    \<and> Attributes_Lookup uni d (Attributes_Set uni a m)
        = (if Key uni (at_Type a) = Key uni d then (a, True) else Attributes_Lookup uni d m)
    \<and> Attributes_Lookup uni d (snd (Attributes_Delete uni name m))
        = (if Key uni d = Key uni name then (zero_attribute, False) else Attributes_Lookup uni d m)"
  using attrs.invar_update [OF assms, of a] attrs.invar_delete [OF assms, of name]
    attrs.lookup_update [OF assms, of "Key uni d" a] attrs.lookup_delete [OF assms, of "Key uni d" name]
  by (simp add: Lookup_attrs attrs_delete_def)

theorem attributes_map_laws_witness:
  "Attributes_Lookup id [0x63, 0x6E] (Attributes_Set id \<lparr>at_Type = [0x43, 0x4E], at_Values = [[1]], at_Extensions = []\<rparr> None)
    = (\<lparr>at_Type = [0x43, 0x4E], at_Values = [[1]], at_Extensions = []\<rparr>, True)"
proof -
  have "Key id [0x43, 0x4E] = Key id [0x63, 0x6E]"
    by (simp add: Key_def strings_ToLower_def lowerByte_def)
  then show ?thesis
    using attributes_map_laws [of id None "\<lparr>at_Type = [0x43, 0x4E], at_Values = [[1]], at_Extensions = []\<rparr>" "[]" "[0x63, 0x6E]"]
    by (simp add: attrs_inv_def)
qed

text \<open>\<^verbatim>\<open>NewAttributes\<close> builds a collection in which no key occurs twice, in the order in which the keys first occur
  in the input, and in which the last attribute with a key is the one that is found.\<close>

theorem NewAttributes_correct:
  "attrs_inv uni (NewAttributes uni as)
    \<and> map (\<lambda>a. Key uni (at_Type a)) (Attributes_All (NewAttributes uni as)) = rev (remdups (rev (map (\<lambda>a. Key uni (at_Type a)) as)))
    \<and> Attributes_Lookup uni d (NewAttributes uni as)
        = (case find (\<lambda>a. Key uni (at_Type a) = Key uni d) (rev as) of None \<Rightarrow> (zero_attribute, False) | Some a \<Rightarrow> (a, True))"
proof -
  have e: "attrs_inv uni (Some empty_store)" "Attributes_All (Some empty_store) = []"
    "attrs_lookup k (Some empty_store) = None" for k
    by (simp_all add: attrs_inv_def Attributes_All_def attrs_lookup_def Attributes_LookupKey_def empty_store_def store_inv_def)
  show ?thesis
  proof (cases "as = []")
    case True
    then show ?thesis
      by (simp add: NewAttributes_def attrs_inv_def Attributes_Lookup_def Attributes_LookupKey_def store_of_def empty_store_def)
  next
    case False
    then have n: "NewAttributes uni as = fold (Attributes_Set uni) as (Some empty_store)" by (simp add: NewAttributes_def)
    show ?thesis
      unfolding n Lookup_attrs
      using attrs.invar_fold [OF e(1), of as] keys_fold [OF e(1,2), of as] attrs.lookup_fold [OF e(1), of "Key uni d" as] e(3)
      by (simp split: option.splits)
  qed
qed

end
