(* ===== verification/Ldap_Result.thy ===== *)
theory Ldap_Result
  imports Ldap_Attributes
begin

text \<open>
  The common result of LDAP operations (\<^verbatim>\<open>src/rfc4511/result.go\<close>), its embedding into the responses that add
  fields of their own, and the responses that consist of it.
\<close>

section \<open>LDAPResult\<close>

definition ResultSuccess :: int where "ResultSuccess = 0"
definition ResultCompareFalse :: int where "ResultCompareFalse = 5"
definition ResultCompareTrue :: int where "ResultCompareTrue = 6"
definition ResultReferral :: int where "ResultReferral = 10"
definition ResultSASLBindInProgress :: int where "ResultSASLBindInProgress = 14"

definition referralIdentifier :: ident where
  "referralIdentifier = \<lparr>id_class = ClassContextSpecific, id_constructed = True, id_number = 3\<rparr>"

record ldap_result =
  lr_ResultCode :: int
  lr_MatchedDN :: bytes
  lr_DiagnosticMessage :: bytes
  lr_Referrals :: "bytes list"
  lr_Extensions :: "unknown_field list"

definition zero_result :: ldap_result where
  "zero_result = \<lparr>lr_ResultCode = 0, lr_MatchedDN = [], lr_DiagnosticMessage = [], lr_Referrals = [], lr_Extensions = []\<rparr>"

definition LDAPResult_addPrefix :: "ldap_result \<Rightarrow> packet \<Rightarrow> packet" where
  "LDAPResult_addPrefix v dst =
     (let dst = Envelope_Add [ber_Enumerated (lr_ResultCode v), ber_OctetString (lr_MatchedDN v),
                              ber_OctetString (lr_DiagnosticMessage v)] dst
      in if 0 < length (lr_Referrals v)
         then Envelope_Add [Envelope_Add (map URI_BERPacket (lr_Referrals v)) (ber_Constructed referralIdentifier)] dst
         else dst)"

definition LDAPResult_BERPacket :: "ldap_result \<Rightarrow> packet" where
  "LDAPResult_BERPacket v =
     Envelope_Add (map UnknownField_BERPacket (lr_Extensions v)) (LDAPResult_addPrefix v ber_Sequence)"

definition resultResponsePacket :: "ident \<Rightarrow> ldap_result \<Rightarrow> packet" where
  "resultResponsePacket tag v =
     Envelope_Add (map UnknownField_BERPacket (lr_Extensions v)) (LDAPResult_addPrefix v (ber_Constructed tag))"

definition LDAPResult_validateReferral :: "ldap_result \<Rightarrow> goerror option" where
  "LDAPResult_validateReferral v =
     (if lr_ResultCode v = ResultReferral \<and> length (lr_Referrals v) = 0
      then Some (Errorf ''arden: referral result requires at least one referral URI'' [])
      else if lr_ResultCode v \<noteq> ResultReferral \<and> length (lr_Referrals v) \<noteq> 0
      then Some (Errorf ''arden: referral URIs require the referral result code'' [])
      else None)"

text \<open>The optional referral, in its own scope.\<close>

definition readReferrals :: "scope \<Rightarrow> bytes list \<times> scope" where
  "readReferrals sc =
     (let (Referrals, sc) = Within referralIdentifier (All_values [] URI_UnmarshalBER) sc
      in (Referrals,
          if length Referrals = 0 then Fail (Some (Errorf ''arden: referral requires at least one URI'' [])) sc else sc))"

definition LDAPResult_UnmarshalBERFields :: "scope \<Rightarrow> (goerror + ldap_result) \<times> scope" where
  "LDAPResult_UnmarshalBERFields sc =
     (let sc = Reserve [referralIdentifier] sc;
          (ResultCode, sc) = Enumerated Int64 sc;
          (MatchedDN, sc) = Read [] LDAPDN_UnmarshalBER sc;
          (DiagnosticMessage, sc) = Read [] LDAPString_UnmarshalBER sc;
          (Referrals, sc) = optional referralIdentifier [] readReferrals sc
      in checked
           (let decoded = \<lparr>lr_ResultCode = ResultCode, lr_MatchedDN = MatchedDN,
                  lr_DiagnosticMessage = DiagnosticMessage, lr_Referrals = Referrals, lr_Extensions = []\<rparr>
            in case LDAPResult_validateReferral decoded of Some e \<Rightarrow> Inl e | None \<Rightarrow> Inr decoded) sc)"

definition LDAPResult_UnmarshalAs :: "ident \<Rightarrow> ldap_result unmarshaler" where
  "LDAPResult_UnmarshalAs tag = decode_in tag (\<lambda>sc.
     let (decoded, sc) = Embed zero_result LDAPResult_UnmarshalBERFields sc;
         (Exts, sc) = UnknownFields [] sc
     in ended (Inr (decoded\<lparr>lr_Extensions := Exts\<rparr>)) sc)"

definition LDAPResult_UnmarshalBER :: "ldap_result unmarshaler" where
  "LDAPResult_UnmarshalBER = LDAPResult_UnmarshalAs SequenceIdentifier"

section \<open>Round trip\<close>

lemma int_facts [simp]:
  "inttype_ok Int8" "inttype_ok Int32" "inttype_ok Int64" "inttype_ok Uint8" "inttype_ok Uint32" "inttype_ok Uint64"
  by (simp_all add: inttype_ok_def inttype_defs)

lemma int_range_less [simp]:
  "int_range Int64 v \<Longrightarrow> v < 9223372036854775808" "int_range Int32 v \<Longrightarrow> v < 9223372036854775808" "int_range Uint32 v \<Longrightarrow> v < 9223372036854775808"
  by (auto simp: int_range_def inttype_defs)

lemma referralIdentifier_facts [simp]:
  "referralIdentifier = contextConstructed 3"
  by (simp add: referralIdentifier_def tag_defs)

definition result_ok :: "ldap_result \<Rightarrow> bool" where
  "result_ok v \<longleftrightarrow> int_range Int64 (lr_ResultCode v) \<and> utf8_Valid (lr_MatchedDN v) \<and> utf8_Valid (lr_DiagnosticMessage v)
     \<and> list_all utf8_Valid (lr_Referrals v) \<and> (lr_ResultCode v = ResultReferral \<longleftrightarrow> lr_Referrals v \<noteq> [])"

definition result_prefix :: "ldap_result \<Rightarrow> packet list" where
  "result_prefix v = ber_Enumerated (lr_ResultCode v) # ber_OctetString (lr_MatchedDN v)
     # ber_OctetString (lr_DiagnosticMessage v)
     # (if lr_Referrals v \<noteq> []
        then [Packet (contextConstructed 3) [] (map ber_OctetString (lr_Referrals v)) False False] else [])"

lemma addPrefix_packet:
  "LDAPResult_addPrefix v (Packet t [] cs False False) = Packet t [] (cs @ result_prefix v) False False"
  by (simp add: LDAPResult_addPrefix_def result_prefix_def Let_def text_defs)

lemma single_prefix [simp]: "list_all single (result_prefix v)"
  by (simp add: result_prefix_def single_Constructed)

lemma accepts_readReferrals:
  assumes "stand sc (Packet (contextConstructed 3) [] (map ber_OctetString us) False False # cs) res tot"
    and "list_all utf8_Valid us" "us \<noteq> []"
    and "\<And>sc'. stand sc' cs res tot \<Longrightarrow> accepts (f us sc') a ds rs tot"
  shows "accepts (let (y, sc) = readReferrals sc in f y sc) a ds rs tot"
proof -
  have "accepts (let (y, sc) = Within (contextConstructed 3) (All_values [] (unmarshalLDAPText OctetStringIdentifier)) sc
      in f y (if length y = 0 then Fail (Some (Errorf ''arden: referral requires at least one URI'' [])) sc else sc)) a ds rs tot"
    using assms by (intro ldap_text.accepts_within_all [OF assms(1)]) auto
  then show ?thesis by (auto simp: readReferrals_def text_defs split: prod.splits if_splits)
qed

lemma result_fields_accepts:
  assumes st: "stand sc (result_prefix v @ cs) res tot" and ok: "result_ok v"
    and nx: "lr_Referrals v = [] \<Longrightarrow> not_next (contextConstructed 3) cs"
  shows "accepts (LDAPResult_UnmarshalBERFields sc) (Inr (v\<lparr>lr_Extensions := []\<rparr>)) cs (res @ [referralIdentifier]) tot"
  using st unfolding LDAPResult_UnmarshalBERFields_def text_defs Enumerated_def result_prefix_def ber_Enumerated_def
    append.simps append_assoc referralIdentifier_facts
  apply -
  by ((erule scope_rules accepts_readReferrals;
       (simp add: ok [unfolded result_ok_def] nx LDAPResult_validateReferral_def; fail)?)+)


lemma accepts_embed_result:
  assumes "stand sc (result_prefix v @ cs) res tot" and "result_ok v"
    and "lr_Referrals v = [] \<Longrightarrow> not_next (contextConstructed 3) cs"
    and "\<And>sc'. stand sc' cs (res @ [contextConstructed 3]) tot \<Longrightarrow> accepts (f (v\<lparr>lr_Extensions := []\<rparr>) sc') a ds rs tot"
  shows "accepts (let (y, sc) = Embed zero_result LDAPResult_UnmarshalBERFields sc in f y sc) a ds rs tot"
  using assms by (intro accepts_Embed [OF assms(1) result_fields_accepts [OF _ assms(2,3)]]) simp_all

text \<open>A response that is an LDAPResult under its own identifier.\<close>

definition response_ok :: "ldap_result \<Rightarrow> bool" where
  "response_ok v \<longleftrightarrow> result_ok v \<and> unknowns_ok [contextConstructed 3] (lr_Extensions v)"

lemma response_packet:
  "id_constructed t \<Longrightarrow> resultResponsePacket t v = Packet t []
     (result_prefix v @ map UnknownField_BERPacket (lr_Extensions v)) False False"
  by (simp add: resultResponsePacket_def addPrefix_packet)

lemma response_codec:
  assumes t: "Identifier_Valid t" "id_constructed t"
  shows "codec (resultResponsePacket t) (LDAPResult_UnmarshalAs t) response_ok"
proof unfold_locales
  fix a :: ldap_result and r n p ps
  show "response_ok a \<Longrightarrow> single (resultResponsePacket t a)"
    using t by (simp add: response_packet single_Constructed)
  assume a: "response_ok a" and h: "holds r n (p # ps)" and s: "same_octets p (resultResponsePacket t a)"
  note ok = a [unfolded response_ok_def] and fs = a [unfolded response_ok_def unknowns_ok_def]
  have nx: "not_next (contextConstructed 3) (map UnknownField_BERPacket (lr_Extensions a))"
    using ok unknowns_not_next [of "[contextConstructed 3]"] by auto
  show "LDAPResult_UnmarshalAs t r n = (Inr a, past p r, n + nodes p)"
    unfolding LDAPResult_UnmarshalAs_def
    by (rule decode_in_accepts [OF h s [unfolded response_packet [OF t(2)]]];
        (simp add: t fs; fail)?;
        (erule scope_rules accepts_embed_result; (simp add: ok nx; fail)?)+)
qed

interpretation ldap_result: codec LDAPResult_BERPacket LDAPResult_UnmarshalBER response_ok
proof -
  have "LDAPResult_BERPacket = resultResponsePacket SequenceIdentifier"
    by (rule ext) (simp add: LDAPResult_BERPacket_def resultResponsePacket_def)
  then show "codec LDAPResult_BERPacket LDAPResult_UnmarshalBER response_ok"
    using response_codec [of SequenceIdentifier] by (simp add: LDAPResult_UnmarshalBER_def)
qed

end
