(* ===== verification/Protocol.thy ===== *)
theory Protocol
  imports Ber_Codec
begin

text \<open>
  Operations and response contracts (\<^verbatim>\<open>src/protocol/operation.go\<close>).

  A \<^verbatim>\<open>ProtocolOperation\<close> is what the runtime asks of it, its packet and its identifier; a nil interface value is
  \<open>None\<close>, also for controls.  The typed decoder of a response pattern is a function from a response and limits.
\<close>

definition MaxMessageID :: int where
  "MaxMessageID = 2 ^ 31 - 1"

section \<open>Response patterns\<close>

datatype classification = ClassificationInvalid | ClassificationContinue | ClassificationComplete

record response_spec =
  rs_Continue :: "ident list"
  rs_Complete :: "ident list"
  rs_NoResponse :: bool

record framing_pattern =
  fp_continueIDs :: "ident list"
  fp_completeIDs :: "ident list"
  fp_noResponse :: bool
  fp_valid :: bool

text \<open>The closure \<^verbatim>\<open>validate\<close>, with the identifiers seen so far.\<close>

fun validateIDs :: "string \<Rightarrow> ident list \<Rightarrow> ident list \<Rightarrow> goerror + ident list" where
  "validateIDs kind [] seen = Inr seen"
| "validateIDs kind (tag # ids) seen =
     (if \<not> Identifier_Valid tag \<or> id_class tag \<noteq> ClassApplication
      then Inl (Errorf (''arden: '' @ kind @ '' identifier %s is not an application identifier'') [AId tag])
      else if tag \<in> set seen then Inl (Errorf ''arden: duplicate response identifier %s'' [AId tag])
      else validateIDs kind ids (tag # seen))"

definition newFramingPattern :: "response_spec \<Rightarrow> goerror + framing_pattern" where
  "newFramingPattern spec =
     (if rs_NoResponse spec
      then (if rs_Continue spec \<noteq> [] \<or> rs_Complete spec \<noteq> []
            then Inl (Errorf ''arden: a no-response pattern cannot contain response identifiers'' [])
            else Inr \<lparr>fp_continueIDs = [], fp_completeIDs = [], fp_noResponse = True, fp_valid = True\<rparr>)
      else if rs_Complete spec = []
      then Inl (Errorf ''arden: a response pattern needs at least one terminal identifier'' [])
      else case validateIDs ''continuing'' (rs_Continue spec) [] of
          Inl e \<Rightarrow> Inl e
        | Inr seen \<Rightarrow>
            (case validateIDs ''terminal'' (rs_Complete spec) seen of
               Inl e \<Rightarrow> Inl e
             | Inr _ \<Rightarrow> Inr \<lparr>fp_continueIDs = rs_Continue spec, fp_completeIDs = rs_Complete spec,
                             fp_noResponse = False, fp_valid = True\<rparr>))"

definition FramingPattern_Classify :: "framing_pattern \<Rightarrow> ident \<Rightarrow> classification" where
  "FramingPattern_Classify p tag =
     (if \<not> fp_valid p \<or> fp_noResponse p then ClassificationInvalid
      else if tag \<in> set (fp_continueIDs p) then ClassificationContinue
      else if tag \<in> set (fp_completeIDs p) then ClassificationComplete
      else ClassificationInvalid)"

definition FramingPattern_Valid :: "framing_pattern \<Rightarrow> bool" where
  "FramingPattern_Valid p = fp_valid p"

definition FramingPattern_NoResponse :: "framing_pattern \<Rightarrow> bool" where
  "FramingPattern_NoResponse p \<longleftrightarrow> fp_valid p \<and> fp_noResponse p"

section \<open>Responses\<close>

record response =
  re_MessageID :: int
  re_ProtocolID :: ident
  re_Bytes :: bytes
  re_Protocol :: bytes
  re_Controls :: "element list"
  re_Extensions :: "element list"

definition UnmarshalProtocol :: "'a unmarshaler \<Rightarrow> response \<Rightarrow> limits \<Rightarrow> goerror + 'a" where
  "UnmarshalProtocol unm r lim =
     (if re_Protocol r = [] then Inl (Errorf ''arden: response has no protocol value'' [])
      else case NewReader (re_Protocol r) lim of
          Inl e \<Rightarrow> Inl e
        | Inr reader \<Rightarrow>
            (case unm reader 0 of
               (Inl e, _, _) \<Rightarrow> Inl e
             | (Inr v, reader', _) \<Rightarrow> (case RequireEmpty reader' of Some e \<Rightarrow> Inl e | None \<Rightarrow> Inr v)))"

record 'a response_pattern =
  rp_framing :: framing_pattern
  rp_decode :: "(response \<Rightarrow> limits \<Rightarrow> goerror + 'a) option"

definition NewResponsePattern :: "'a unmarshaler \<Rightarrow> response_spec \<Rightarrow> goerror + 'a response_pattern" where
  "NewResponsePattern unm spec =
     (case newFramingPattern spec of
        Inl e \<Rightarrow> Inl e
      | Inr framing \<Rightarrow>
          Inr \<lparr>rp_framing = framing,
            rp_decode = Some (\<lambda>r lim.
              if fp_noResponse framing
              then Inl (Errorf ''arden: a no-response pattern cannot decode a response'' [])
              else UnmarshalProtocol unm r lim)\<rparr>)"

definition NewNoResponsePattern :: "unit response_pattern" where
  "NewNoResponsePattern =
     \<lparr>rp_framing = \<lparr>fp_continueIDs = [], fp_completeIDs = [], fp_noResponse = True, fp_valid = True\<rparr>, rp_decode = None\<rparr>"

definition ResponsePattern_Decode :: "'a response_pattern \<Rightarrow> response \<Rightarrow> limits \<Rightarrow> goerror + 'a" where
  "ResponsePattern_Decode p r lim =
     (if \<not> FramingPattern_Valid (rp_framing p)
      then Inl (Errorf ''arden: cannot decode with an invalid response pattern'' [])
      else if FramingPattern_NoResponse (rp_framing p)
      then Inl (Errorf ''arden: a no-response pattern cannot decode a response'' [])
      else if FramingPattern_Classify (rp_framing p) (re_ProtocolID r) = ClassificationInvalid
      then Inl (Errorf ''arden: response pattern rejected protocol identifier %s'' [AId (re_ProtocolID r)])
      else case rp_decode p of
          None \<Rightarrow> Inl (Errorf ''arden: response pattern has no decoder'' [])
        | Some decode \<Rightarrow> decode r lim)"

section \<open>Operations\<close>

text \<open>\<^verbatim>\<open>CancellationMode\<close> is a \<^verbatim>\<open>uint8\<close>, so it may hold a value that is no mode.\<close>

definition CancelDrain :: byte where "CancelDrain = 1"
definition CancelAbandon :: byte where "CancelAbandon = 2"
definition CancelExtended :: byte where "CancelExtended = 3"
definition CancelClose :: byte where "CancelClose = 4"
definition CancelNone :: byte where "CancelNone = 5"

lemmas cancel_defs = CancelDrain_def CancelAbandon_def CancelExtended_def CancelClose_def CancelNone_def

record protocol_operation =
  po_packet :: packet
  po_identifier :: ident

record untyped_operation =
  uo_Protocol :: "protocol_operation option"
  uo_Controls :: "packet option list"
  uo_Responses :: framing_pattern
  uo_Cancellation :: byte
  uo_Label :: string

fun nilControl :: "nat \<Rightarrow> packet option list \<Rightarrow> goerror option" where
  "nilControl i [] = None"
| "nilControl i (c # cs) =
     (if c = None then Some (Errorf ''arden: control %d is nil'' [AInt (int i)]) else nilControl (Suc i) cs)"

definition UntypedOperation_Validate :: "untyped_operation \<Rightarrow> goerror option" where
  "UntypedOperation_Validate op =
     (case uo_Protocol op of
        None \<Rightarrow> Some (Errorf ''arden: operation has no protocol value'' [])
      | Some p \<Rightarrow>
          if \<not> Identifier_Valid (po_identifier p) \<or> id_class (po_identifier p) \<noteq> ClassApplication
          then Some (Errorf ''arden: request identifier %s is not an application identifier'' [AId (po_identifier p)])
          else if \<not> FramingPattern_Valid (uo_Responses op)
          then Some (Errorf ''arden: operation has an invalid response pattern'' [])
          else if uo_Cancellation op < CancelDrain \<or> CancelNone < uo_Cancellation op
          then Some (Errorf ''arden: operation has an invalid cancellation mode'' [])
          else nilControl 0 (uo_Controls op))"

record 'a operation =
  op_Protocol :: "protocol_operation option"
  op_Controls :: "packet option list"
  op_Responses :: "'a response_pattern"
  op_Cancellation :: byte
  op_Label :: string

definition Operation_Untyped :: "'a operation \<Rightarrow> untyped_operation" where
  "Operation_Untyped op =
     \<lparr>uo_Protocol = op_Protocol op, uo_Controls = op_Controls op, uo_Responses = rp_framing (op_Responses op),
      uo_Cancellation = op_Cancellation op, uo_Label = op_Label op\<rparr>"

definition Operation_Validate :: "'a operation \<Rightarrow> goerror option" where
  "Operation_Validate op = UntypedOperation_Validate (Operation_Untyped op)"

section \<open>Lemmas\<close>

lemma validateIDs_Inr:
  "validateIDs kind ids seen = Inr seen' \<longleftrightarrow>
     seen' = rev ids @ seen \<and> distinct ids \<and> set ids \<inter> set seen = {}
     \<and> (\<forall>tag \<in> set ids. Identifier_Valid tag \<and> id_class tag = ClassApplication)"
  by (induction ids arbitrary: seen) auto

text \<open>What a specification must satisfy to become a pattern.\<close>

definition spec_ok :: "response_spec \<Rightarrow> bool" where
  "spec_ok spec \<longleftrightarrow>
     (if rs_NoResponse spec then rs_Continue spec = [] \<and> rs_Complete spec = []
      else rs_Complete spec \<noteq> [] \<and> distinct (rs_Continue spec @ rs_Complete spec)
        \<and> list_all (\<lambda>tag. id_class tag = ClassApplication) (rs_Continue spec @ rs_Complete spec))"

lemma application_valid: "id_class tag = ClassApplication \<Longrightarrow> Identifier_Valid tag"
  by (simp add: Identifier_Valid_def class_defs)

lemma newFramingPattern_Inr:
  "newFramingPattern spec = Inr p \<longleftrightarrow>
     spec_ok spec \<and> p = \<lparr>fp_continueIDs = rs_Continue spec, fp_completeIDs = rs_Complete spec,
       fp_noResponse = rs_NoResponse spec, fp_valid = True\<rparr>"
proof (cases "rs_NoResponse spec \<or> rs_Complete spec = []")
  case True
  then show ?thesis by (auto simp: newFramingPattern_def spec_ok_def)
next
  case False
  show ?thesis
  proof
    assume "newFramingPattern spec = Inr p"
    with False show "spec_ok spec \<and> p = \<lparr>fp_continueIDs = rs_Continue spec, fp_completeIDs = rs_Complete spec,
        fp_noResponse = rs_NoResponse spec, fp_valid = True\<rparr>"
      by (auto simp: newFramingPattern_def spec_ok_def validateIDs_Inr list_all_iff split: sum.splits)
  next
    assume a: "spec_ok spec \<and> p = \<lparr>fp_continueIDs = rs_Continue spec, fp_completeIDs = rs_Complete spec,
        fp_noResponse = rs_NoResponse spec, fp_valid = True\<rparr>"
    with False have "validateIDs ''continuing'' (rs_Continue spec) [] = Inr (rev (rs_Continue spec))"
      "validateIDs ''terminal'' (rs_Complete spec) (rev (rs_Continue spec))
        = Inr (rev (rs_Complete spec) @ rev (rs_Continue spec))"
      by (auto simp: validateIDs_Inr spec_ok_def list_all_iff application_valid)
    with False a show "newFramingPattern spec = Inr p" by (simp add: newFramingPattern_def)
  qed
qed

text \<open>Continuing and terminal identifiers of a pattern are disjoint, so its classification does not depend on the
  order of the two tests.\<close>

lemma Classify_new:
  assumes "newFramingPattern spec = Inr p"
  shows "FramingPattern_Classify p tag = ClassificationContinue \<longleftrightarrow> tag \<in> set (rs_Continue spec)"
    and "FramingPattern_Classify p tag = ClassificationComplete \<longleftrightarrow> tag \<in> set (rs_Complete spec)"
  using assms by (auto simp: newFramingPattern_Inr FramingPattern_Classify_def spec_ok_def split: if_splits)

section \<open>Typed decoding\<close>

text \<open>The limits of a decoder admit the tree \<open>p\<close> as a whole protocol value.\<close>

definition protocol_fits :: "limits \<Rightarrow> packet \<Rightarrow> bool" where
  "protocol_fits lim p \<longleftrightarrow> limits_ok lim \<and> tree_ok lim p \<and> length (packet_octets p) \<le> MaxInt
     \<and> int (length (packet_octets p)) \<le> MaxFrameBytes lim \<and> 8 \<le> MaxIntegerBytes lim
     \<and> int (height p) \<le> MaxDepth lim \<and> int (nodes p) \<le> MaxElements lim"

context codec
begin

lemma unmarshal_protocol:
  assumes "valid a" "protocol_fits lim p" "same_octets p (pkt a)" "re_Protocol r = packet_octets (pkt a)"
  shows "UnmarshalProtocol unm r lim = Inr a"
proof -
  let ?d = "packet_octets p"
  let ?r = "\<lparr>r_data = ?d, r_pos = 0, r_base = 0, r_depth = 0, r_limits = lim\<rparr>"
  have d: "re_Protocol r = ?d" using assms(3,4) by (simp add: same_octets_def)
  have t: "tree_ok lim p" using assms(2) by (simp add: protocol_fits_def)
  have "Limits_Validate lim = None" using assms(2) Limits_Validate_None by (simp add: protocol_fits_def)
  then have nr: "NewReader ?d lim = Inr ?r" using assms(2) by (simp add: NewReader_def protocol_fits_def)
  have "holds ?r 0 [p]"
    using assms(2) by (simp add: holds_def forest_fits_def protocol_fits_def unread_def forest_height_Cons)
  from decodes [OF assms(1) this assms(3)] have "unm ?r 0 = (Inr a, past p ?r, nodes p)" by simp
  moreover have "RequireEmpty (past p ?r) = None" by (simp add: RequireEmpty_unread past_def unread_def)
  ultimately show ?thesis
    using d nr packet_octets_not_Nil [OF t] by (simp add: UnmarshalProtocol_def)
qed

end

text \<open>The limits admit an encoding: a reader over it can be made, integers of eight octets are allowed, and the
  validator \<^verbatim>\<open>SkipElement\<close> accepts it as one element with nothing after it.\<close>

definition admits :: "limits \<Rightarrow> bytes \<Rightarrow> bool" where
  "admits lim bs \<longleftrightarrow> 8 \<le> MaxIntegerBytes lim \<and> length bs \<le> MaxInt \<and>
     (case NewReader bs lim of
        Inl _ \<Rightarrow> False
      | Inr r \<Rightarrow> (case SkipElement r 0 of (Inl _, _, _) \<Rightarrow> False | (Inr _, r', _) \<Rightarrow> RequireEmpty r' = None))"

lemma admits_fits:
  assumes "admits lim bs"
  obtains p where "protocol_fits lim p" "packet_octets p = bs"
proof -
  let ?r = "\<lparr>r_data = bs, r_pos = 0, r_base = 0, r_depth = 0, r_limits = lim\<rparr>"
  from assms have l: "limits_ok lim" "int (length bs) \<le> MaxFrameBytes lim" and nr: "NewReader bs lim = Inr ?r"
    using Limits_Validate_None [of lim]
    by (auto simp: admits_def NewReader_def split: sum.splits option.splits if_splits)
  from assms obtain e r' n where sk: "SkipElement ?r 0 = (Inr e, r', n)" and re: "RequireEmpty r' = None"
    by (auto simp: admits_def nr split: prod.splits sum.splits)
  have le: "int (r_depth ?r) \<le> MaxDepth (r_limits ?r)" "int 0 \<le> MaxElements (r_limits ?r)"
    using l(1) by (simp_all add: limits_ok_def)
  from SkipElement_inv [OF sk le] obtain p ts where
    p: "tree_ok lim p" "bs = packet_octets p @ ts" "r' = advance (length (packet_octets p)) ?r" "n = nodes p"
      "int (height p) \<le> MaxDepth lim" "int n \<le> MaxElements lim"
    by (auto simp: unread_def)
  have "ts = []" using re p(2,3) by (simp add: RequireEmpty_unread unread_def)
  with p l assms have "protocol_fits lim p" "packet_octets p = bs" by (simp_all add: protocol_fits_def admits_def)
  then show ?thesis by (rule that)
qed

lemmas packet_ok_eval = packet_ok.simps packet_contents_def packet_octets_eq ber_Primitive_def ber_OctetString_def
  ber_Boolean_def integerPacket_def tlv_def length_octets_def identifier_octets_def lead_octet_def Identifier_Valid_def
  class_defs universal_ids

context codec
begin

text \<open>Encoding and decoding a whole protocol value, directly and through a response pattern.\<close>

lemma roundtrip:
  assumes "valid a" "packet_ok (pkt a)" "admits lim (Encode (pkt a))" "re_Protocol r = Encode (pkt a)"
  shows "UnmarshalProtocol unm r lim = Inr a"
proof -
  from assms(3) obtain p where p: "protocol_fits lim p" "packet_octets p = Encode (pkt a)" by (rule admits_fits)
  with assms show ?thesis by (intro unmarshal_protocol [OF _ p(1)]) (simp_all add: same_octets_def Encode_eq)
qed

lemma pattern_roundtrip:
  assumes "NewResponsePattern unm spec = Inr pat" "\<not> rs_NoResponse spec"
    and "valid a" "packet_ok (pkt a)" "admits lim (Encode (pkt a))" "re_Protocol r = Encode (pkt a)"
  shows "ResponsePattern_Decode pat r lim =
    (if re_ProtocolID r \<in> set (rs_Continue spec) \<union> set (rs_Complete spec) then Inr a
     else Inl (Errorf ''arden: response pattern rejected protocol identifier %s'' [AId (re_ProtocolID r)]))"
  using assms(1,2) roundtrip [OF assms(3-6)]
  by (auto simp: NewResponsePattern_def ResponsePattern_Decode_def newFramingPattern_Inr FramingPattern_Valid_def
      FramingPattern_NoResponse_def FramingPattern_Classify_def split: sum.splits)

end

section \<open>Properties\<close>

text \<open>(C30) A response specification becomes a pattern exactly when it is well formed: a no-response pattern without
  identifiers, or one with a terminal identifier, all identifiers distinct and of the application class.  The
  pattern then classifies an identifier as continuing or terminal exactly if it was listed as such, and everything
  else, in a no-response pattern everything, as invalid.\<close>

theorem pattern_classification:
  "((\<exists>p. newFramingPattern spec = Inr p) \<longleftrightarrow> spec_ok spec)
   \<and> (\<forall>p. newFramingPattern spec = Inr p \<longrightarrow> FramingPattern_Valid p
        \<and> FramingPattern_NoResponse p = rs_NoResponse spec
        \<and> (\<forall>tag. FramingPattern_Classify p tag =
             (if tag \<in> set (rs_Continue spec) then ClassificationContinue
              else if tag \<in> set (rs_Complete spec) then ClassificationComplete else ClassificationInvalid)))"
  by (auto simp: newFramingPattern_Inr FramingPattern_Valid_def FramingPattern_NoResponse_def FramingPattern_Classify_def
      spec_ok_def split: if_splits)

theorem pattern_classification_witness:
  "\<exists>p. newFramingPattern \<lparr>rs_Continue = [], rs_Complete = [\<lparr>id_class = 1, id_constructed = True, id_number = 5\<rparr>],
      rs_NoResponse = False\<rparr> = Inr p
    \<and> FramingPattern_Classify p \<lparr>id_class = 1, id_constructed = True, id_number = 5\<rparr> = ClassificationComplete"
proof -
  let ?s = "\<lparr>rs_Continue = [], rs_Complete = [\<lparr>id_class = 1, id_constructed = True, id_number = 5\<rparr>], rs_NoResponse = False\<rparr>"
  have "spec_ok ?s" by (simp add: spec_ok_def class_defs)
  with pattern_classification [of ?s] obtain p where "newFramingPattern ?s = Inr p" by blast
  with pattern_classification [of ?s] show ?thesis by auto
qed

end
