(* ===== verification/Ldap_Update.thy ===== *)
theory Ldap_Update
  imports Ldap_Result Ldap_Collection Protocol
begin

text \<open>
  The operations of package \<^verbatim>\<open>rfc4511\<close> that answer with a bare result: add, delete, modify, modify DN and compare
  (\<^verbatim>\<open>src/rfc4511/add.go\<close>, \<^verbatim>\<open>delete.go\<close>, \<^verbatim>\<open>modify.go\<close>, \<^verbatim>\<open>modifydn.go\<close>, \<^verbatim>\<open>compare.go\<close>), and abandon (\<^verbatim>\<open>abandon.go\<close>).

  \<^verbatim>\<open>mustResponsePattern\<close> panics on a bad specification; \<open>None\<close> stands for that panic, and the patterns of the
  package are the values it returns.  A nil request pointer is \<open>None\<close>.
\<close>

definition mustResponsePattern :: "'a unmarshaler \<Rightarrow> response_spec \<Rightarrow> 'a response_pattern option" where
  "mustResponsePattern unm spec = (case NewResponsePattern unm spec of Inl _ \<Rightarrow> None | Inr p \<Rightarrow> Some p)"

text \<open>The common part of the \<^verbatim>\<open>New...Operation\<close> functions: the nil check, the declaration and its validation.\<close>

definition newOperation ::
    "string \<Rightarrow> protocol_operation option \<Rightarrow> packet option list \<Rightarrow> 'a response_pattern \<Rightarrow> byte \<Rightarrow> string \<Rightarrow> goerror + 'a operation" where
  "newOperation name protocol controls responses cancellation label =
     (case protocol of
        None \<Rightarrow> Inl (Errorf (''arden: nil '' @ name) [])
      | Some p \<Rightarrow>
          let op = \<lparr>op_Protocol = Some p, op_Controls = controls, op_Responses = responses,
                    op_Cancellation = cancellation, op_Label = label\<rparr>
          in case Operation_Validate op of Some e \<Rightarrow> Inl e | None \<Rightarrow> Inr op)"

text \<open>A response type that only wraps a result.\<close>

lemma response_wrapper:
  assumes "\<And>v. f (g v) = v" "\<And>v. g (f v) = v" "Identifier_Valid t" "id_constructed t"
    and "\<And>v. pkt v = resultResponsePacket t (g v)"
    and "\<And>r n. unm r n = decode_with (\<lambda>sc. let (v, sc) = ReadAs zero_result LDAPResult_UnmarshalAs t sc in checked (Inr (f v)) sc) r n"
  shows "codec pkt unm (\<lambda>v. response_ok (g v))"
proof
  fix a r n p ps
  show "response_ok (g a) \<Longrightarrow> single (pkt a)"
    using codec.encodes_single [OF response_codec [OF assms(3,4)]] assms(5) by simp
  assume a: "response_ok (g a)" "holds r n (p # ps)" "same_octets p (pkt a)"
  show "unm r n = (Inr a, past p r, n + nodes p)"
    unfolding assms(6) ReadAs_Read
    using codec.decode_read [OF response_codec [OF assms(3,4)] a(1,2), of zero_result "\<lambda>v. Inr (f v)"] a(3) assms(1,5) by simp
qed

section \<open>Add responses\<close>

definition addResponseIdentifier :: ident where
  "addResponseIdentifier = \<lparr>id_class = ClassApplication, id_constructed = True, id_number = 9\<rparr>"

datatype add_response = AddResponse (add_Result: ldap_result)

definition AddResponse_BERPacket :: "add_response \<Rightarrow> packet" where
  "AddResponse_BERPacket v = resultResponsePacket addResponseIdentifier (add_Result v)"

definition AddResponse_UnmarshalBER :: "add_response unmarshaler" where
  "AddResponse_UnmarshalBER = decode_with (\<lambda>sc.
     let (Result, sc) = ReadAs zero_result LDAPResult_UnmarshalAs addResponseIdentifier sc
     in checked (Inr (AddResponse Result)) sc)"

definition addResponsePattern :: "add_response response_pattern" where
  "addResponsePattern = the (mustResponsePattern AddResponse_UnmarshalBER
     \<lparr>rs_Continue = [], rs_Complete = [addResponseIdentifier], rs_NoResponse = False\<rparr>)"

lemma addResponseIdentifier_eq [simp]: "addResponseIdentifier = applicationConstructed 9"
  by (simp add: addResponseIdentifier_def tag_defs)

interpretation ldap_add_response: codec AddResponse_BERPacket AddResponse_UnmarshalBER "\<lambda>v. response_ok (add_Result v)"
  by (rule response_wrapper [where f = AddResponse and t = "applicationConstructed 9"])
    (simp_all add: AddResponse_BERPacket_def AddResponse_UnmarshalBER_def)

section \<open>Delete responses\<close>

definition deleteResponseIdentifier :: ident where
  "deleteResponseIdentifier = applicationConstructed 11"

datatype delete_response = DeleteResponse (delete_Result: ldap_result)

definition DeleteResponse_BERPacket :: "delete_response \<Rightarrow> packet" where
  "DeleteResponse_BERPacket v = resultResponsePacket deleteResponseIdentifier (delete_Result v)"

definition DeleteResponse_UnmarshalBER :: "delete_response unmarshaler" where
  "DeleteResponse_UnmarshalBER = decode_with (\<lambda>sc.
     let (Result, sc) = ReadAs zero_result LDAPResult_UnmarshalAs deleteResponseIdentifier sc
     in checked (Inr (DeleteResponse Result)) sc)"

definition deleteResponsePattern :: "delete_response response_pattern" where
  "deleteResponsePattern = the (mustResponsePattern DeleteResponse_UnmarshalBER
     \<lparr>rs_Continue = [], rs_Complete = [deleteResponseIdentifier], rs_NoResponse = False\<rparr>)"

lemma deleteResponseIdentifier_eq [simp]: "deleteResponseIdentifier = applicationConstructed 11"
  by (simp add: deleteResponseIdentifier_def tag_defs)

interpretation ldap_delete_response: codec DeleteResponse_BERPacket DeleteResponse_UnmarshalBER "\<lambda>v. response_ok (delete_Result v)"
  by (rule response_wrapper [where f = DeleteResponse and t = "applicationConstructed 11"])
    (simp_all add: DeleteResponse_BERPacket_def DeleteResponse_UnmarshalBER_def)

section \<open>Compare responses\<close>

definition compareResponseIdentifier :: ident where
  "compareResponseIdentifier = applicationConstructed 15"

datatype compare_response = CompareResponse (compare_Result: ldap_result)

definition CompareResponse_BERPacket :: "compare_response \<Rightarrow> packet" where
  "CompareResponse_BERPacket v = resultResponsePacket compareResponseIdentifier (compare_Result v)"

definition CompareResponse_UnmarshalBER :: "compare_response unmarshaler" where
  "CompareResponse_UnmarshalBER = decode_with (\<lambda>sc.
     let (Result, sc) = ReadAs zero_result LDAPResult_UnmarshalAs compareResponseIdentifier sc
     in checked (Inr (CompareResponse Result)) sc)"

definition compareResponsePattern :: "compare_response response_pattern" where
  "compareResponsePattern = the (mustResponsePattern CompareResponse_UnmarshalBER
     \<lparr>rs_Continue = [], rs_Complete = [compareResponseIdentifier], rs_NoResponse = False\<rparr>)"

lemma compareResponseIdentifier_eq [simp]: "compareResponseIdentifier = applicationConstructed 15"
  by (simp add: compareResponseIdentifier_def tag_defs)

interpretation ldap_compare_response: codec CompareResponse_BERPacket CompareResponse_UnmarshalBER "\<lambda>v. response_ok (compare_Result v)"
  by (rule response_wrapper [where f = CompareResponse and t = "applicationConstructed 15"])
    (simp_all add: CompareResponse_BERPacket_def CompareResponse_UnmarshalBER_def)

section \<open>Modify responses\<close>

definition modifyResponseIdentifier :: ident where
  "modifyResponseIdentifier = applicationConstructed 7"

datatype modify_response = ModifyResponse (modify_Result: ldap_result)

definition ModifyResponse_BERPacket :: "modify_response \<Rightarrow> packet" where
  "ModifyResponse_BERPacket v = resultResponsePacket modifyResponseIdentifier (modify_Result v)"

definition ModifyResponse_UnmarshalBER :: "modify_response unmarshaler" where
  "ModifyResponse_UnmarshalBER = decode_with (\<lambda>sc.
     let (Result, sc) = ReadAs zero_result LDAPResult_UnmarshalAs modifyResponseIdentifier sc
     in checked (Inr (ModifyResponse Result)) sc)"

definition modifyResponsePattern :: "modify_response response_pattern" where
  "modifyResponsePattern = the (mustResponsePattern ModifyResponse_UnmarshalBER
     \<lparr>rs_Continue = [], rs_Complete = [modifyResponseIdentifier], rs_NoResponse = False\<rparr>)"

lemma modifyResponseIdentifier_eq [simp]: "modifyResponseIdentifier = applicationConstructed 7"
  by (simp add: modifyResponseIdentifier_def tag_defs)

interpretation ldap_modify_response: codec ModifyResponse_BERPacket ModifyResponse_UnmarshalBER "\<lambda>v. response_ok (modify_Result v)"
  by (rule response_wrapper [where f = ModifyResponse and t = "applicationConstructed 7"])
    (simp_all add: ModifyResponse_BERPacket_def ModifyResponse_UnmarshalBER_def)

section \<open>ModifyDN responses\<close>

definition modifyDNResponseIdentifier :: ident where
  "modifyDNResponseIdentifier = applicationConstructed 13"

datatype modifyDN_response = ModifyDNResponse (modifyDN_Result: ldap_result)

definition ModifyDNResponse_BERPacket :: "modifyDN_response \<Rightarrow> packet" where
  "ModifyDNResponse_BERPacket v = resultResponsePacket modifyDNResponseIdentifier (modifyDN_Result v)"

definition ModifyDNResponse_UnmarshalBER :: "modifyDN_response unmarshaler" where
  "ModifyDNResponse_UnmarshalBER = decode_with (\<lambda>sc.
     let (Result, sc) = ReadAs zero_result LDAPResult_UnmarshalAs modifyDNResponseIdentifier sc
     in checked (Inr (ModifyDNResponse Result)) sc)"

definition modifyDNResponsePattern :: "modifyDN_response response_pattern" where
  "modifyDNResponsePattern = the (mustResponsePattern ModifyDNResponse_UnmarshalBER
     \<lparr>rs_Continue = [], rs_Complete = [modifyDNResponseIdentifier], rs_NoResponse = False\<rparr>)"

lemma modifyDNResponseIdentifier_eq [simp]: "modifyDNResponseIdentifier = applicationConstructed 13"
  by (simp add: modifyDNResponseIdentifier_def tag_defs)

interpretation ldap_modifyDN_response: codec ModifyDNResponse_BERPacket ModifyDNResponse_UnmarshalBER "\<lambda>v. response_ok (modifyDN_Result v)"
  by (rule response_wrapper [where f = ModifyDNResponse and t = "applicationConstructed 13"])
    (simp_all add: ModifyDNResponse_BERPacket_def ModifyDNResponse_UnmarshalBER_def)

section \<open>Add\<close>

definition addRequestIdentifier :: ident where
  "addRequestIdentifier = \<lparr>id_class = ClassApplication, id_constructed = True, id_number = 8\<rparr>"

record add_request =
  ad_Entry :: bytes
  ad_Attributes :: attributes
  ad_Extensions :: "unknown_field list"

definition AddRequest_BERPacket :: "add_request \<Rightarrow> packet" where
  "AddRequest_BERPacket v =
     Envelope_Add (map UnknownField_BERPacket (ad_Extensions v))
       (Envelope_Add [ber_OctetString (ad_Entry v), Attributes_BERPacket (ad_Attributes v)]
         (ber_Constructed addRequestIdentifier))"

definition AddRequest_UnmarshalBER :: "(bytes \<Rightarrow> bytes) \<Rightarrow> add_request unmarshaler" where
  "AddRequest_UnmarshalBER uni = decode_in addRequestIdentifier (\<lambda>sc.
     let (Entry, sc) = Read [] LDAPDN_UnmarshalBER sc;
         (Attrs, sc) = Read None (Attributes_UnmarshalBER uni) sc;
         (Exts, sc) = UnknownFields [] sc
     in ended (Inr \<lparr>ad_Entry = Entry, ad_Attributes = Attrs, ad_Extensions = Exts\<rparr>) sc)"

definition NewAddOperation :: "add_request option \<Rightarrow> packet option list \<Rightarrow> goerror + add_response operation" where
  "NewAddOperation request controls =
     newOperation ''AddRequest''
       (map_option (\<lambda>v. \<lparr>po_packet = AddRequest_BERPacket v, po_identifier = addRequestIdentifier\<rparr>) request)
       controls addResponsePattern CancelDrain ''ldap.add''"

section \<open>Delete\<close>

definition deleteRequestIdentifier :: ident where
  "deleteRequestIdentifier = applicationPrimitive 10"

datatype delete_request = DeleteRequest (delete_Entry: bytes)

definition DeleteRequest_BERPacket :: "delete_request \<Rightarrow> packet" where
  "DeleteRequest_BERPacket v = ber_Primitive deleteRequestIdentifier (delete_Entry v)"

definition DeleteRequest_UnmarshalBER :: "delete_request unmarshaler" where
  "DeleteRequest_UnmarshalBER = decode_with (\<lambda>sc.
     let (Entry, sc) = ReadAs [] LDAPDN_UnmarshalAs deleteRequestIdentifier sc
     in checked (Inr (DeleteRequest Entry)) sc)"

definition NewDeleteOperation :: "delete_request option \<Rightarrow> packet option list \<Rightarrow> goerror + delete_response operation" where
  "NewDeleteOperation request controls =
     newOperation ''DeleteRequest''
       (map_option (\<lambda>v. \<lparr>po_packet = DeleteRequest_BERPacket v, po_identifier = deleteRequestIdentifier\<rparr>) request)
       controls deleteResponsePattern CancelDrain ''ldap.delete''"

section \<open>Modify\<close>

definition modifyRequestIdentifier :: ident where
  "modifyRequestIdentifier = applicationConstructed 6"

definition ModifyAdd :: int where "ModifyAdd = 0"
definition ModifyDelete :: int where "ModifyDelete = 1"
definition ModifyReplace :: int where "ModifyReplace = 2"

record change =
  ch_Operation :: int
  ch_Modification :: attribute
  ch_Extensions :: "unknown_field list"

text \<open>\<^verbatim>\<open>changeText\<close> and \<^verbatim>\<open>changeBytes\<close>: text and byte values have the same representation.\<close>

definition changeBytes :: "int \<Rightarrow> bytes \<Rightarrow> bytes list \<Rightarrow> change" where
  "changeBytes operation attr vals =
     \<lparr>ch_Operation = operation, ch_Modification = \<lparr>at_Type = attr, at_Values = vals, at_Extensions = []\<rparr>,
      ch_Extensions = []\<rparr>"

definition Replace :: "bytes \<Rightarrow> bytes list \<Rightarrow> change" where "Replace attr vals = changeBytes ModifyReplace attr vals"
definition AddValues :: "bytes \<Rightarrow> bytes list \<Rightarrow> change" where "AddValues attr vals = changeBytes ModifyAdd attr vals"
definition DeleteValues :: "bytes \<Rightarrow> bytes list \<Rightarrow> change" where "DeleteValues attr vals = changeBytes ModifyDelete attr vals"

definition Change_BERPacket :: "change \<Rightarrow> packet" where
  "Change_BERPacket v =
     Envelope_Add (map UnknownField_BERPacket (ch_Extensions v))
       (Envelope_Add [Attribute_BERPacket (ch_Modification v)]
         (Envelope_Add [ber_Enumerated (ch_Operation v)] ber_Sequence))"

definition Change_UnmarshalBER :: "change unmarshaler" where
  "Change_UnmarshalBER = decode_in SequenceIdentifier (\<lambda>sc.
     let (Operation, sc) = Enumerated Int64 sc;
         (Modification, sc) = Read zero_attribute Attribute_UnmarshalBER sc;
         (Exts, sc) = UnknownFields [] sc
     in ended (Inr \<lparr>ch_Operation = Operation, ch_Modification = Modification, ch_Extensions = Exts\<rparr>) sc)"

definition zero_change :: change where
  "zero_change = \<lparr>ch_Operation = 0, ch_Modification = zero_attribute, ch_Extensions = []\<rparr>"

record modify_request =
  mo_Object :: bytes
  mo_Changes :: "change list"
  mo_Extensions :: "unknown_field list"

definition ModifyRequest_BERPacket :: "modify_request \<Rightarrow> packet" where
  "ModifyRequest_BERPacket v =
     Envelope_Add (map UnknownField_BERPacket (mo_Extensions v))
       (Envelope_Add [Envelope_Add (map Change_BERPacket (mo_Changes v)) ber_Sequence]
         (Envelope_Add [ber_OctetString (mo_Object v)] (ber_Constructed modifyRequestIdentifier)))"

definition ModifyRequest_UnmarshalBER :: "modify_request unmarshaler" where
  "ModifyRequest_UnmarshalBER = decode_in modifyRequestIdentifier (\<lambda>sc.
     let (Object, sc) = Read [] LDAPDN_UnmarshalBER sc;
         (Changes, sc) = Within SequenceIdentifier (All_values zero_change Change_UnmarshalBER) sc;
         (Exts, sc) = UnknownFields [] sc
     in ended (Inr \<lparr>mo_Object = Object, mo_Changes = Changes, mo_Extensions = Exts\<rparr>) sc)"

definition NewModifyOperation :: "modify_request option \<Rightarrow> packet option list \<Rightarrow> goerror + modify_response operation" where
  "NewModifyOperation request controls =
     newOperation ''ModifyRequest''
       (map_option (\<lambda>v. \<lparr>po_packet = ModifyRequest_BERPacket v, po_identifier = modifyRequestIdentifier\<rparr>) request)
       controls modifyResponsePattern CancelDrain ''ldap.modify''"

section \<open>Modify DN\<close>

definition modifyDNRequestIdentifier :: ident where
  "modifyDNRequestIdentifier = applicationConstructed 12"

definition modifyDNNewSuperiorIdentifier :: ident where
  "modifyDNNewSuperiorIdentifier = contextPrimitive 0"

record modifydn_request =
  md_Entry :: bytes
  md_NewRDN :: bytes
  md_DeleteOldRDN :: bool
  md_NewSuperior :: "bytes option"
  md_Extensions :: "unknown_field list"

definition ModifyDNRequest_BERPacket :: "modifydn_request \<Rightarrow> packet" where
  "ModifyDNRequest_BERPacket v =
     (let request = Envelope_Add [ber_OctetString (md_Entry v), ber_OctetString (md_NewRDN v),
                                  ber_Boolean (md_DeleteOldRDN v)] (ber_Constructed modifyDNRequestIdentifier);
          request = (case md_NewSuperior v of
                       None \<Rightarrow> request
                     | Some s \<Rightarrow> Envelope_Add [implicitOctetsPacket modifyDNNewSuperiorIdentifier s] request)
      in Envelope_Add (map UnknownField_BERPacket (md_Extensions v)) request)"

definition ModifyDNRequest_UnmarshalBER :: "modifydn_request unmarshaler" where
  "ModifyDNRequest_UnmarshalBER = decode_in modifyDNRequestIdentifier (\<lambda>sc.
     let (Entry, sc) = Read [] LDAPDN_UnmarshalBER sc;
         (NewRDN, sc) = Read [] RelativeLDAPDN_UnmarshalBER sc;
         (DeleteOldRDN, sc) = Boolean sc;
         (NewSuperior, sc) = optional modifyDNNewSuperiorIdentifier None
            (some (ReadAs [] LDAPDN_UnmarshalAs modifyDNNewSuperiorIdentifier)) sc;
         (Exts, sc) = UnknownFields [modifyDNNewSuperiorIdentifier] sc
     in ended (Inr \<lparr>md_Entry = Entry, md_NewRDN = NewRDN, md_DeleteOldRDN = DeleteOldRDN,
                    md_NewSuperior = NewSuperior, md_Extensions = Exts\<rparr>) sc)"

definition NewModifyDNOperation :: "modifydn_request option \<Rightarrow> packet option list \<Rightarrow> goerror + modifyDN_response operation" where
  "NewModifyDNOperation request controls =
     newOperation ''ModifyDNRequest''
       (map_option (\<lambda>v. \<lparr>po_packet = ModifyDNRequest_BERPacket v, po_identifier = modifyDNRequestIdentifier\<rparr>) request)
       controls modifyDNResponsePattern CancelDrain ''ldap.modify-dn''"

section \<open>Compare\<close>

definition compareRequestIdentifier :: ident where
  "compareRequestIdentifier = applicationConstructed 14"

record compare_request =
  cm_Entry :: bytes
  cm_Assertion :: assertion
  cm_Extensions :: "unknown_field list"

definition CompareRequest_BERPacket :: "compare_request \<Rightarrow> packet" where
  "CompareRequest_BERPacket v =
     Envelope_Add (map UnknownField_BERPacket (cm_Extensions v))
       (Envelope_Add [AttributeValueAssertion_BERPacket (cm_Assertion v)]
         (Envelope_Add [ber_OctetString (cm_Entry v)] (ber_Constructed compareRequestIdentifier)))"

definition CompareRequest_UnmarshalBER :: "compare_request unmarshaler" where
  "CompareRequest_UnmarshalBER = decode_in compareRequestIdentifier (\<lambda>sc.
     let (Entry, sc) = Read [] LDAPDN_UnmarshalBER sc;
         (Assertion, sc) = Read zero_assertion AttributeValueAssertion_UnmarshalBER sc;
         (Exts, sc) = UnknownFields [] sc
     in ended (Inr \<lparr>cm_Entry = Entry, cm_Assertion = Assertion, cm_Extensions = Exts\<rparr>) sc)"

definition NewCompareOperation :: "compare_request option \<Rightarrow> packet option list \<Rightarrow> goerror + compare_response operation" where
  "NewCompareOperation request controls =
     newOperation ''CompareRequest''
       (map_option (\<lambda>v. \<lparr>po_packet = CompareRequest_BERPacket v, po_identifier = compareRequestIdentifier\<rparr>) request)
       controls compareResponsePattern CancelDrain ''ldap.compare''"

section \<open>Abandon\<close>

definition abandonRequestIdentifier :: ident where
  "abandonRequestIdentifier = applicationPrimitive 16"

datatype abandon_request = AbandonRequest (abandon_Target: int)

definition AbandonRequest_BERPacket :: "abandon_request \<Rightarrow> packet" where
  "AbandonRequest_BERPacket v = ber_IntegerWithIdentifier abandonRequestIdentifier (abandon_Target v)"

definition AbandonRequest_UnmarshalBER :: "abandon_request unmarshaler" where
  "AbandonRequest_UnmarshalBER = decode_with (\<lambda>sc.
     let (Target, sc) = IntegerAs Int32 abandonRequestIdentifier sc
     in checked (if Target \<le> 0 \<or> MaxMessageID < Target
                 then Inl (Errorf ''arden: AbandonRequest target is outside [1, MaxMessageID]'' [])
                 else Inr (AbandonRequest Target)) sc)"

definition NewAbandonOperation :: "abandon_request option \<Rightarrow> packet option list \<Rightarrow> goerror + unit operation" where
  "NewAbandonOperation request controls =
     newOperation ''AbandonRequest''
       (map_option (\<lambda>v. \<lparr>po_packet = AbandonRequest_BERPacket v, po_identifier = abandonRequestIdentifier\<rparr>) request)
       controls NewNoResponsePattern CancelNone ''ldap.abandon''"

section \<open>Round trips\<close>

lemma update_tags:
  "addRequestIdentifier = applicationConstructed 8" "deleteRequestIdentifier = applicationPrimitive 10"
  "modifyRequestIdentifier = applicationConstructed 6" "modifyDNRequestIdentifier = applicationConstructed 12"
  "modifyDNNewSuperiorIdentifier = contextPrimitive 0" "compareRequestIdentifier = applicationConstructed 14"
  "abandonRequestIdentifier = applicationPrimitive 16"
  by (simp_all add: addRequestIdentifier_def deleteRequestIdentifier_def modifyRequestIdentifier_def
      modifyDNRequestIdentifier_def modifyDNNewSuperiorIdentifier_def compareRequestIdentifier_def
      abandonRequestIdentifier_def tag_defs)

definition add_request_ok :: "(bytes \<Rightarrow> bytes) \<Rightarrow> add_request \<Rightarrow> bool" where
  "add_request_ok uni v \<longleftrightarrow> utf8_Valid (ad_Entry v) \<and> attributes_ok uni (ad_Attributes v) \<and> unknowns_ok [] (ad_Extensions v)"

lemma add_request_packet:
  "AddRequest_BERPacket v = Packet (applicationConstructed 8) []
     (ber_OctetString (ad_Entry v) # Attributes_BERPacket (ad_Attributes v) # map UnknownField_BERPacket (ad_Extensions v))
     False False"
  by (simp add: AddRequest_BERPacket_def update_tags)

interpretation ldap_add_request: codec AddRequest_BERPacket "AddRequest_UnmarshalBER uni" "add_request_ok uni" for uni
proof unfold_locales
  fix a :: add_request and r n p ps
  show "add_request_ok uni a \<Longrightarrow> single (AddRequest_BERPacket a)"
    by (simp add: add_request_packet single_Constructed)
  assume a: "add_request_ok uni a" and h: "holds r n (p # ps)" and s: "same_octets p (AddRequest_BERPacket a)"
  note ok = a [unfolded add_request_ok_def] and fs = a [unfolded add_request_ok_def unknowns_ok_def]
  show "AddRequest_UnmarshalBER uni r n = (Inr a, past p r, n + nodes p)"
    unfolding AddRequest_UnmarshalBER_def text_defs update_tags
    by (rule decode_in_accepts [OF h s [unfolded add_request_packet]];
        (simp add: fs ldap_attributes.encodes_single [of uni]; fail)?;
        (erule scope_rules ldap_attributes.accepts_read; (simp add: ok; fail)?)+)
qed

interpretation ldap_delete_request: codec DeleteRequest_BERPacket DeleteRequest_UnmarshalBER "\<lambda>v. utf8_Valid (delete_Entry v)"
proof unfold_locales
  fix a :: delete_request and r n p ps
  have t: "Identifier_Valid (applicationPrimitive 10)" "\<not> id_constructed (applicationPrimitive 10)" by simp_all
  show "single (DeleteRequest_BERPacket a)" by (simp add: DeleteRequest_BERPacket_def update_tags)
  assume "utf8_Valid (delete_Entry a)" "holds r n (p # ps)" "same_octets p (DeleteRequest_BERPacket a)"
  then show "DeleteRequest_UnmarshalBER r n = (Inr a, past p r, n + nodes p)"
    using codec.decode_read [OF text_codec [OF t], of "delete_Entry a" r n p ps "[]" "\<lambda>v. Inr (DeleteRequest v)"]
    by (simp add: DeleteRequest_UnmarshalBER_def DeleteRequest_BERPacket_def update_tags ReadAs_Read LDAPDN_UnmarshalAs_def)
qed

definition change_ok :: "change \<Rightarrow> bool" where
  "change_ok v \<longleftrightarrow> int_range Int64 (ch_Operation v) \<and> attribute_ok (ch_Modification v) \<and> unknowns_ok [] (ch_Extensions v)"

lemma change_packet:
  "Change_BERPacket v = Packet SequenceIdentifier []
     (integerPacket EnumeratedIdentifier (ch_Operation v) # Attribute_BERPacket (ch_Modification v)
       # map UnknownField_BERPacket (ch_Extensions v)) False False"
  by (simp add: Change_BERPacket_def ber_Enumerated_def)

interpretation ldap_change: codec Change_BERPacket Change_UnmarshalBER change_ok
proof unfold_locales
  fix a :: change and r n p ps
  show "change_ok a \<Longrightarrow> single (Change_BERPacket a)"
    by (simp add: change_packet single_Constructed)
  assume a: "change_ok a" and h: "holds r n (p # ps)" and s: "same_octets p (Change_BERPacket a)"
  note ok = a [unfolded change_ok_def] and fs = a [unfolded change_ok_def unknowns_ok_def]
  show "Change_UnmarshalBER r n = (Inr a, past p r, n + nodes p)"
    unfolding Change_UnmarshalBER_def Enumerated_def
    by (rule decode_in_accepts [OF h s [unfolded change_packet]];
        (simp add: fs ldap_attribute.encodes_single integerPacket_def; fail)?;
        (erule scope_rules ldap_attribute.accepts_read; (simp add: ok; fail)?)+)
qed

definition modify_request_ok :: "modify_request \<Rightarrow> bool" where
  "modify_request_ok v \<longleftrightarrow> utf8_Valid (mo_Object v) \<and> list_all change_ok (mo_Changes v) \<and> unknowns_ok [] (mo_Extensions v)"

lemma modify_request_packet:
  "ModifyRequest_BERPacket v = Packet (applicationConstructed 6) []
     (ber_OctetString (mo_Object v) # Packet SequenceIdentifier [] (map Change_BERPacket (mo_Changes v)) False False
       # map UnknownField_BERPacket (mo_Extensions v)) False False"
  by (simp add: ModifyRequest_BERPacket_def update_tags)

interpretation ldap_modify_request: codec ModifyRequest_BERPacket ModifyRequest_UnmarshalBER modify_request_ok
proof unfold_locales
  fix a :: modify_request and r n p ps
  show "modify_request_ok a \<Longrightarrow> single (ModifyRequest_BERPacket a)"
    by (simp add: modify_request_packet single_Constructed)
  assume a: "modify_request_ok a" and h: "holds r n (p # ps)" and s: "same_octets p (ModifyRequest_BERPacket a)"
  note ok = a [unfolded modify_request_ok_def] and fs = a [unfolded modify_request_ok_def unknowns_ok_def]
  show "ModifyRequest_UnmarshalBER r n = (Inr a, past p r, n + nodes p)"
    unfolding ModifyRequest_UnmarshalBER_def text_defs update_tags
    by (rule decode_in_accepts [OF h s [unfolded modify_request_packet]];
        (simp add: fs single_Constructed; fail)?;
        (erule scope_rules ldap_change.accepts_within_all; (simp add: ok; fail)?)+)
qed

definition modifydn_request_ok :: "modifydn_request \<Rightarrow> bool" where
  "modifydn_request_ok v \<longleftrightarrow> utf8_Valid (md_Entry v) \<and> utf8_Valid (md_NewRDN v)
     \<and> (\<forall>s. md_NewSuperior v = Some s \<longrightarrow> utf8_Valid s) \<and> unknowns_ok [contextPrimitive 0] (md_Extensions v)"

lemma modifydn_request_packet:
  "ModifyDNRequest_BERPacket v = Packet (applicationConstructed 12) []
     (ber_OctetString (md_Entry v) # ber_OctetString (md_NewRDN v) # ber_Boolean (md_DeleteOldRDN v)
       # (if md_NewSuperior v \<noteq> None then [ber_Primitive (contextPrimitive 0) (the (md_NewSuperior v))] else [])
       @ map UnknownField_BERPacket (md_Extensions v)) False False"
  by (simp add: ModifyDNRequest_BERPacket_def update_tags implicitOctetsPacket_def Let_def split: option.splits)

interpretation ldap_modifydn_request: codec ModifyDNRequest_BERPacket ModifyDNRequest_UnmarshalBER modifydn_request_ok
proof unfold_locales
  fix a :: modifydn_request and r n p ps
  show "modifydn_request_ok a \<Longrightarrow> single (ModifyDNRequest_BERPacket a)"
    by (simp add: modifydn_request_packet single_Constructed)
  assume a: "modifydn_request_ok a" and h: "holds r n (p # ps)" and s: "same_octets p (ModifyDNRequest_BERPacket a)"
  note ok = a [unfolded modifydn_request_ok_def] and fs = a [unfolded modifydn_request_ok_def unknowns_ok_def]
  have nx: "not_next (contextPrimitive 0) (map UnknownField_BERPacket (md_Extensions a))"
    using ok unknowns_not_next [of "[contextPrimitive 0]"] by auto
  show "ModifyDNRequest_UnmarshalBER r n = (Inr a, past p r, n + nodes p)"
    unfolding ModifyDNRequest_UnmarshalBER_def text_defs update_tags ReadAs_Read
    by (rule decode_in_accepts [OF h s [unfolded modifydn_request_packet]];
        (simp add: fs; fail)?;
        (erule scope_rules; (use ok nx in \<open>auto\<close>; fail)?)+)
qed

definition compare_request_ok :: "compare_request \<Rightarrow> bool" where
  "compare_request_ok v \<longleftrightarrow> utf8_Valid (cm_Entry v) \<and> assertion_ok (cm_Assertion v) \<and> unknowns_ok [] (cm_Extensions v)"

lemma compare_request_packet:
  "CompareRequest_BERPacket v = Packet (applicationConstructed 14) []
     (ber_OctetString (cm_Entry v) # AttributeValueAssertion_BERPacket (cm_Assertion v)
       # map UnknownField_BERPacket (cm_Extensions v)) False False"
  by (simp add: CompareRequest_BERPacket_def update_tags)

interpretation ldap_compare_request: codec CompareRequest_BERPacket CompareRequest_UnmarshalBER compare_request_ok
proof unfold_locales
  fix a :: compare_request and r n p ps
  show "compare_request_ok a \<Longrightarrow> single (CompareRequest_BERPacket a)"
    by (simp add: compare_request_packet single_Constructed)
  assume a: "compare_request_ok a" and h: "holds r n (p # ps)" and s: "same_octets p (CompareRequest_BERPacket a)"
  note ok = a [unfolded compare_request_ok_def] and fs = a [unfolded compare_request_ok_def unknowns_ok_def]
  show "CompareRequest_UnmarshalBER r n = (Inr a, past p r, n + nodes p)"
    unfolding CompareRequest_UnmarshalBER_def LDAPDN_UnmarshalBER_def LDAPDN_UnmarshalAs_def update_tags
    by (rule decode_in_accepts [OF h s [unfolded compare_request_packet]];
        (simp add: fs ldap_assertion.encodes_single; fail)?;
        (erule scope_rules ldap_assertion.accepts_read; (simp add: ok; fail)?)+)
qed

definition abandon_request_ok :: "abandon_request \<Rightarrow> bool" where
  "abandon_request_ok v \<longleftrightarrow> 0 < abandon_Target v \<and> abandon_Target v \<le> MaxMessageID"

interpretation ldap_abandon_request: codec AbandonRequest_BERPacket AbandonRequest_UnmarshalBER abandon_request_ok
proof unfold_locales
  fix a :: abandon_request and r n p ps
  show "single (AbandonRequest_BERPacket a)"
    by (simp add: AbandonRequest_BERPacket_def ber_IntegerWithIdentifier_def integerPacket_def update_tags)
  assume a: "abandon_request_ok a" "holds r n (p # ps)" "same_octets p (AbandonRequest_BERPacket a)"
  have "IntegerAs Int32 (applicationPrimitive 16) (scope_at r None [] n)
      = (abandon_Target a, scope_at (past p r) None [] (n + nodes p))"
    using a by (intro IntegerAs_value)
      (auto simp: AbandonRequest_BERPacket_def ber_IntegerWithIdentifier_def update_tags abandon_request_ok_def
        MaxMessageID_def int_range_def inttype_defs inttype_ok_def)
  then show "AbandonRequest_UnmarshalBER r n = (Inr a, past p r, n + nodes p)"
    unfolding AbandonRequest_UnmarshalBER_def update_tags
    by (intro decode_with_at) (use a(1) in \<open>simp add: abandon_request_ok_def\<close>)
qed

section \<open>Declared operations\<close>

lemma newFramingPattern_ok:
  "spec_ok spec \<Longrightarrow> newFramingPattern spec = Inr \<lparr>fp_continueIDs = rs_Continue spec, fp_completeIDs = rs_Complete spec,
     fp_noResponse = rs_NoResponse spec, fp_valid = True\<rparr>"
  by (simp add: newFramingPattern_Inr)

lemma mustResponsePattern_ok:
  "spec_ok spec \<Longrightarrow> mustResponsePattern unm spec = Some (the (mustResponsePattern unm spec))
    \<and> NewResponsePattern unm spec = Inr (the (mustResponsePattern unm spec))"
  by (simp add: mustResponsePattern_def NewResponsePattern_def newFramingPattern_ok)

lemma nilControl_None: "nilControl i cs = None \<longleftrightarrow> None \<notin> set cs"
  by (induction cs arbitrary: i) auto

text \<open>A declared operation is accepted unless a control is nil.\<close>

lemma newOperation_accepts:
  assumes "spec_ok spec" "id_class (po_identifier p) = ClassApplication" "CancelDrain \<le> mode" "mode \<le> CancelNone" "None \<notin> set controls"
  shows "newOperation name (Some p) controls (the (mustResponsePattern unm spec)) mode label
    = Inr \<lparr>op_Protocol = Some p, op_Controls = controls, op_Responses = the (mustResponsePattern unm spec),
           op_Cancellation = mode, op_Label = label\<rparr>"
proof -
  have "FramingPattern_Valid (rp_framing (the (mustResponsePattern unm spec)))"
    using assms(1) by (simp add: mustResponsePattern_def NewResponsePattern_def FramingPattern_Valid_def newFramingPattern_ok)
  moreover have "\<not> mode < CancelDrain" "\<not> CancelNone < mode" using assms(3,4) by simp_all
  moreover have "nilControl 0 controls = None" using assms(5) by (simp add: nilControl_None)
  ultimately show ?thesis
    using assms(2) application_valid [OF assms(2)]
    by (simp add: newOperation_def Operation_Validate_def UntypedOperation_Validate_def Operation_Untyped_def)
qed

section \<open>Properties\<close>

text \<open>Modify requests survive the wire: the object, every change with its operation and values in order, and the
  extensions are decoded from the encoding as they were.\<close>

theorem modify_request_roundtrip:
  assumes "modify_request_ok v" "packet_ok (ModifyRequest_BERPacket v)" "admits lim (Encode (ModifyRequest_BERPacket v))"
    and "re_Protocol r = Encode (ModifyRequest_BERPacket v)"
  shows "UnmarshalProtocol ModifyRequest_UnmarshalBER r lim = Inr v"
  using assms by (rule ldap_modify_request.roundtrip)

definition sample_modify :: modify_request where
  "sample_modify = \<lparr>mo_Object = [0x6F], mo_Changes = [Replace [0x63] [[1], [2]]], mo_Extensions = []\<rparr>"

theorem modify_request_roundtrip_witness:
  "UnmarshalProtocol ModifyRequest_UnmarshalBER
     \<lparr>re_MessageID = 0, re_ProtocolID = zero_identifier, re_Bytes = [], re_Protocol = Encode (ModifyRequest_BERPacket sample_modify),
      re_Controls = [], re_Extensions = []\<rparr> DefaultLimits = Inr sample_modify"
proof -
  let ?bs = "[0x66, 23, 4, 1, 0x6F, 0x30, 18, 0x30, 16, 10, 1, 2, 0x30, 11, 4, 1, 0x63, 0x31, 6, 4, 1, 1, 4, 1, 2] :: bytes"
  have e: "Encode (ModifyRequest_BERPacket sample_modify) = ?bs" by code_simp
  have a: "admits DefaultLimits ?bs"
    unfolding admits_def by (intro conjI; (simp add: DefaultLimits_def; fail)?; code_simp)
  have i: "integerBytes 2 = [2]" by code_simp
  have k: "packet_ok (ModifyRequest_BERPacket sample_modify)"
    by (simp add: modify_request_packet sample_modify_def Replace_def changeBytes_def ModifyReplace_def change_packet
        Attribute_packet packet_ok_eval tag_defs i)
  have v: "modify_request_ok sample_modify"
    by (simp add: modify_request_ok_def sample_modify_def Replace_def changeBytes_def ModifyReplace_def change_ok_def
        attribute_ok_def unknowns_ok_def int_range_def inttype_defs)
  show ?thesis by (rule modify_request_roundtrip [OF v k]) (simp_all add: e a)
qed

text \<open>The update operations can be declared: the package's response patterns are well formed, so
  \<^verbatim>\<open>mustResponsePattern\<close> does not panic, and every add, delete, modify, rename or compare of a request with no nil
  control passes \<^verbatim>\<open>Validate\<close>, waits for one terminal response and drains on cancellation.\<close>

theorem update_operations_valid:
  assumes "None \<notin> set controls"
  shows "NewAddOperation (Some a) controls = Inr \<lparr>op_Protocol = Some \<lparr>po_packet = AddRequest_BERPacket a, po_identifier = addRequestIdentifier\<rparr>,
      op_Controls = controls, op_Responses = addResponsePattern, op_Cancellation = CancelDrain, op_Label = ''ldap.add''\<rparr>
    \<and> NewDeleteOperation (Some d) controls = Inr \<lparr>op_Protocol = Some \<lparr>po_packet = DeleteRequest_BERPacket d, po_identifier = deleteRequestIdentifier\<rparr>,
      op_Controls = controls, op_Responses = deleteResponsePattern, op_Cancellation = CancelDrain, op_Label = ''ldap.delete''\<rparr>
    \<and> NewModifyOperation (Some m) controls = Inr \<lparr>op_Protocol = Some \<lparr>po_packet = ModifyRequest_BERPacket m, po_identifier = modifyRequestIdentifier\<rparr>,
      op_Controls = controls, op_Responses = modifyResponsePattern, op_Cancellation = CancelDrain, op_Label = ''ldap.modify''\<rparr>
    \<and> NewModifyDNOperation (Some n) controls = Inr \<lparr>op_Protocol = Some \<lparr>po_packet = ModifyDNRequest_BERPacket n, po_identifier = modifyDNRequestIdentifier\<rparr>,
      op_Controls = controls, op_Responses = modifyDNResponsePattern, op_Cancellation = CancelDrain, op_Label = ''ldap.modify-dn''\<rparr>
    \<and> NewCompareOperation (Some c) controls = Inr \<lparr>op_Protocol = Some \<lparr>po_packet = CompareRequest_BERPacket c, po_identifier = compareRequestIdentifier\<rparr>,
      op_Controls = controls, op_Responses = compareResponsePattern, op_Cancellation = CancelDrain, op_Label = ''ldap.compare''\<rparr>"
  unfolding NewAddOperation_def NewDeleteOperation_def NewModifyOperation_def NewModifyDNOperation_def NewCompareOperation_def
    addResponsePattern_def deleteResponsePattern_def modifyResponsePattern_def modifyDNResponsePattern_def
    compareResponsePattern_def option.map
  by (intro conjI newOperation_accepts) (simp_all add: assms spec_ok_def update_tags tag_defs cancel_defs)

theorem update_operations_valid_witness:
  "\<exists>op. NewDeleteOperation (Some (DeleteRequest [0x6F])) [] = Inr op \<and> op_Cancellation op = CancelDrain"
  using update_operations_valid [of "[]"] by auto

end
