(* ===== verification/Ldap_Filter.thy ===== *)
theory Ldap_Filter
  imports Ldap_Attributes Protocol
begin

text \<open>
  Search filters (\<^verbatim>\<open>src/rfc4511/filter.go\<close>).

  \<^verbatim>\<open>Filter\<close> is an open interface; the datatype has the alternatives of the package, whose names end in \<open>_filter\<close> where
  HOL has the plain name.  \<^verbatim>\<open>decodeFilter\<close> calls itself through the \<^verbatim>\<open>UnmarshalBER\<close> methods of AND, OR and NOT.  The
  methods therefore take the decoder of their children as an argument, \<open>decodeFilterN\<close> ties the knot with fuel,
  and \<open>decodeFilter\<close> gives it one unit more than there are octets left to read.  \<open>decodeFilter_unfold\<close> shows that
  this is always enough: \<open>decodeFilter\<close> satisfies the source's recursive definition.
\<close>

section \<open>Identifiers\<close>

definition andFilterIdentifier :: ident where "andFilterIdentifier = contextConstructed 0"
definition orFilterIdentifier :: ident where "orFilterIdentifier = contextConstructed 1"
definition notFilterIdentifier :: ident where "notFilterIdentifier = contextConstructed 2"
definition equalityMatchIdentifier :: ident where "equalityMatchIdentifier = contextConstructed 3"
definition substringsIdentifier :: ident where "substringsIdentifier = contextConstructed 4"
definition greaterOrEqualIdentifier :: ident where "greaterOrEqualIdentifier = contextConstructed 5"
definition lessOrEqualIdentifier :: ident where "lessOrEqualIdentifier = contextConstructed 6"
definition presentIdentifier :: ident where "presentIdentifier = contextPrimitive 7"
definition approximateMatchIdentifier :: ident where "approximateMatchIdentifier = contextConstructed 8"
definition extensibleMatchIdentifier :: ident where "extensibleMatchIdentifier = contextConstructed 9"
definition initialSubstringIdentifier :: ident where "initialSubstringIdentifier = contextPrimitive 0"
definition anySubstringIdentifier :: ident where "anySubstringIdentifier = contextPrimitive 1"
definition finalSubstringIdentifier :: ident where "finalSubstringIdentifier = contextPrimitive 2"
definition matchingRuleIdentifier :: ident where "matchingRuleIdentifier = contextPrimitive 1"
definition matchingTypeIdentifier :: ident where "matchingTypeIdentifier = contextPrimitive 2"
definition matchValueIdentifier :: ident where "matchValueIdentifier = contextPrimitive 3"
definition dnAttributesIdentifier :: ident where "dnAttributesIdentifier = contextPrimitive 4"

lemmas filter_tags =
  andFilterIdentifier_def orFilterIdentifier_def notFilterIdentifier_def equalityMatchIdentifier_def
  substringsIdentifier_def greaterOrEqualIdentifier_def lessOrEqualIdentifier_def presentIdentifier_def
  approximateMatchIdentifier_def extensibleMatchIdentifier_def
  initialSubstringIdentifier_def anySubstringIdentifier_def finalSubstringIdentifier_def
  matchingRuleIdentifier_def matchingTypeIdentifier_def matchValueIdentifier_def dnAttributesIdentifier_def

section \<open>Filters\<close>

record substring_filter =
  sf_Type :: bytes
  sf_Initial :: "bytes option"
  sf_Any :: "bytes list"
  sf_Final :: "bytes option"
  sf_Extensions :: "unknown_field list"

record extensible_match =
  em_MatchingRule :: "bytes option"
  em_Type :: "bytes option"
  em_MatchValue :: bytes
  em_DNAttributes :: bool
  em_Extensions :: "unknown_field list"

datatype filter =
  And_filter "filter list"
| Or_filter "filter list"
| Not_filter filter
| EqualityMatch assertion
| Substrings substring_filter
| GreaterOrEqual assertion
| LessOrEqual assertion
| Present bytes
| ApproximateMatch assertion
| ExtensibleMatch extensible_match
| UnknownFilter unknown_field

definition Equal :: "bytes \<Rightarrow> bytes \<Rightarrow> filter" where
  "Equal attr v = EqualityMatch \<lparr>av_Type = attr, av_Value = v, av_Extensions = []\<rparr>"

definition EqualBytes :: "bytes \<Rightarrow> bytes \<Rightarrow> filter" where
  "EqualBytes attr v = EqualityMatch \<lparr>av_Type = attr, av_Value = v, av_Extensions = []\<rparr>"

definition Has :: "bytes \<Rightarrow> filter" where
  "Has attr = Present attr"

definition All_filter :: "filter list \<Rightarrow> filter" where
  "All_filter fs = And_filter fs"

definition Any_filter :: "filter list \<Rightarrow> filter" where
  "Any_filter fs = Or_filter fs"

definition Negate :: "filter \<Rightarrow> filter" where
  "Negate f = Not_filter f"

definition FilterIdentifier :: "filter \<Rightarrow> ident" where
  "FilterIdentifier f =
     (case f of
        And_filter _ \<Rightarrow> andFilterIdentifier
      | Or_filter _ \<Rightarrow> orFilterIdentifier
      | Not_filter _ \<Rightarrow> notFilterIdentifier
      | EqualityMatch _ \<Rightarrow> equalityMatchIdentifier
      | Substrings _ \<Rightarrow> substringsIdentifier
      | GreaterOrEqual _ \<Rightarrow> greaterOrEqualIdentifier
      | LessOrEqual _ \<Rightarrow> lessOrEqualIdentifier
      | Present _ \<Rightarrow> presentIdentifier
      | ApproximateMatch _ \<Rightarrow> approximateMatchIdentifier
      | ExtensibleMatch _ \<Rightarrow> extensibleMatchIdentifier
      | UnknownFilter u \<Rightarrow> uf_identifier u)"

section \<open>Packets\<close>

definition SubstringFilter_BERPacket :: "substring_filter \<Rightarrow> packet" where
  "SubstringFilter_BERPacket f =
     (let parts = ber_Sequence;
          parts = (case sf_Initial f of
                     None \<Rightarrow> parts
                   | Some v \<Rightarrow> Envelope_Add [implicitOctetsPacket initialSubstringIdentifier v] parts);
          parts = Envelope_Add (map (implicitOctetsPacket anySubstringIdentifier) (sf_Any f)) parts;
          parts = (case sf_Final f of
                     None \<Rightarrow> parts
                   | Some v \<Rightarrow> Envelope_Add [implicitOctetsPacket finalSubstringIdentifier v] parts);
          parts = Envelope_Add (map UnknownField_BERPacket (sf_Extensions f)) parts
      in Envelope_Add [parts] (Envelope_Add [ber_OctetString (sf_Type f)] (ber_Constructed substringsIdentifier)))"

definition ExtensibleMatch_BERPacket :: "extensible_match \<Rightarrow> packet" where
  "ExtensibleMatch_BERPacket f =
     (let env = ber_Constructed extensibleMatchIdentifier;
          env = (case em_MatchingRule f of
                   None \<Rightarrow> env
                 | Some v \<Rightarrow> Envelope_Add [implicitOctetsPacket matchingRuleIdentifier v] env);
          env = (case em_Type f of
                   None \<Rightarrow> env
                 | Some v \<Rightarrow> Envelope_Add [implicitOctetsPacket matchingTypeIdentifier v] env);
          env = Envelope_Add [implicitOctetsPacket matchValueIdentifier (em_MatchValue f)] env;
          env = (if em_DNAttributes f
                 then Envelope_Add [implicitBooleanPacket dnAttributesIdentifier True] env else env)
      in Envelope_Add (map UnknownField_BERPacket (em_Extensions f)) env)"

fun Filter_BERPacket :: "filter \<Rightarrow> packet" where
  "Filter_BERPacket (And_filter fs) = Envelope_Add (map Filter_BERPacket fs) (ber_Constructed andFilterIdentifier)"
| "Filter_BERPacket (Or_filter fs) = Envelope_Add (map Filter_BERPacket fs) (ber_Constructed orFilterIdentifier)"
| "Filter_BERPacket (Not_filter f) = Envelope_Add [Filter_BERPacket f] (ber_Constructed notFilterIdentifier)"
| "Filter_BERPacket (EqualityMatch a) = assertionFilterPacket equalityMatchIdentifier a"
| "Filter_BERPacket (Substrings s) = SubstringFilter_BERPacket s"
| "Filter_BERPacket (GreaterOrEqual a) = assertionFilterPacket greaterOrEqualIdentifier a"
| "Filter_BERPacket (LessOrEqual a) = assertionFilterPacket lessOrEqualIdentifier a"
| "Filter_BERPacket (Present attr) = ber_Primitive presentIdentifier attr"
| "Filter_BERPacket (ApproximateMatch a) = assertionFilterPacket approximateMatchIdentifier a"
| "Filter_BERPacket (ExtensibleMatch m) = ExtensibleMatch_BERPacket m"
| "Filter_BERPacket (UnknownFilter u) = ber_Encoded (uf_raw u)"

section \<open>Decoders\<close>

text \<open>The nil interface value that stands in the field after a failed read; a decoder that failed never returns it.\<close>

definition nil_filter :: filter where
  "nil_filter = And_filter []"

definition And_UnmarshalBER :: "filter unmarshaler \<Rightarrow> filter unmarshaler" where
  "And_UnmarshalBER decode = decode_in andFilterIdentifier (\<lambda>sc.
     let (Filters, sc) = AllUsing nil_filter decode sc
     in ended (if length Filters = 0 then Inl (Errorf ''arden: AND filter requires at least one child'' [])
               else Inr (And_filter Filters)) sc)"

definition Or_UnmarshalBER :: "filter unmarshaler \<Rightarrow> filter unmarshaler" where
  "Or_UnmarshalBER decode = decode_in orFilterIdentifier (\<lambda>sc.
     let (Filters, sc) = AllUsing nil_filter decode sc
     in ended (if length Filters = 0 then Inl (Errorf ''arden: OR filter requires at least one child'' [])
               else Inr (Or_filter Filters)) sc)"

definition Not_UnmarshalBER :: "filter unmarshaler \<Rightarrow> filter unmarshaler" where
  "Not_UnmarshalBER decode = decode_in notFilterIdentifier (\<lambda>sc.
     let (Filter, sc) = Using nil_filter decode sc
     in ended (Inr (Not_filter Filter)) sc)"

definition EqualityMatch_UnmarshalBER :: "filter unmarshaler" where
  "EqualityMatch_UnmarshalBER = decode_with (\<lambda>sc.
     let (Assertion, sc) = ReadAs zero_assertion AttributeValueAssertion_UnmarshalAs equalityMatchIdentifier sc
     in checked (Inr (EqualityMatch Assertion)) sc)"

definition GreaterOrEqual_UnmarshalBER :: "filter unmarshaler" where
  "GreaterOrEqual_UnmarshalBER = decode_with (\<lambda>sc.
     let (Assertion, sc) = ReadAs zero_assertion AttributeValueAssertion_UnmarshalAs greaterOrEqualIdentifier sc
     in checked (Inr (GreaterOrEqual Assertion)) sc)"

definition LessOrEqual_UnmarshalBER :: "filter unmarshaler" where
  "LessOrEqual_UnmarshalBER = decode_with (\<lambda>sc.
     let (Assertion, sc) = ReadAs zero_assertion AttributeValueAssertion_UnmarshalAs lessOrEqualIdentifier sc
     in checked (Inr (LessOrEqual Assertion)) sc)"

definition ApproximateMatch_UnmarshalBER :: "filter unmarshaler" where
  "ApproximateMatch_UnmarshalBER = decode_with (\<lambda>sc.
     let (Assertion, sc) = ReadAs zero_assertion AttributeValueAssertion_UnmarshalAs approximateMatchIdentifier sc
     in checked (Inr (ApproximateMatch Assertion)) sc)"

definition Present_UnmarshalBER :: "filter unmarshaler" where
  "Present_UnmarshalBER = decode_with (\<lambda>sc.
     let (Attribute, sc) = ReadAs [] AttributeDescription_UnmarshalAs presentIdentifier sc
     in checked (case requireNonEmpty ''present attribute description'' Attribute of
                   Some e \<Rightarrow> Inl e
                 | None \<Rightarrow> Inr (Present Attribute)) sc)"

text \<open>The scope \<^verbatim>\<open>parts\<close> of a substring filter.\<close>

definition substringParts ::
    "scope \<Rightarrow> (bytes option \<times> bytes list \<times> bytes option \<times> unknown_field list) \<times> scope" where
  "substringParts parts =
     (let (Initial, parts) = optional initialSubstringIdentifier None
            (some (ReadAs [] AssertionValue_UnmarshalAs initialSubstringIdentifier)) parts;
          (Any, parts) = readWhile anySubstringIdentifier [] (AssertionValue_UnmarshalAs anySubstringIdentifier) [] parts;
          (Final, parts) = optional finalSubstringIdentifier None
            (some (ReadAs [] AssertionValue_UnmarshalAs finalSubstringIdentifier)) parts;
          (Exts, parts) = UnknownFields
            [initialSubstringIdentifier, anySubstringIdentifier, finalSubstringIdentifier] parts
      in ((Initial, Any, Final, Exts), parts))"

definition SubstringFilter_UnmarshalBER :: "filter unmarshaler" where
  "SubstringFilter_UnmarshalBER = decode_in substringsIdentifier (\<lambda>sc.
     let (Type, sc) = Read [] AttributeDescription_UnmarshalBER sc;
         ((Initial, Any, Final, Exts), sc) = Within SequenceIdentifier substringParts sc
     in ended (case requireNonEmpty ''substring attribute description'' Type of
                 Some e \<Rightarrow> Inl e
               | None \<Rightarrow>
                   if Initial = None \<and> length Any = 0 \<and> Final = None
                   then Inl (Errorf ''arden: substring filter requires at least one part'' [])
                   else Inr (Substrings \<lparr>sf_Type = Type, sf_Initial = Initial, sf_Any = Any, sf_Final = Final,
                                         sf_Extensions = Exts\<rparr>)) sc)"

definition ExtensibleMatch_validate :: "extensible_match \<Rightarrow> goerror option" where
  "ExtensibleMatch_validate f =
     (if em_MatchingRule f = None \<and> em_Type f = None
      then Some (Errorf ''arden: extensible match requires a matching rule or type'' [])
      else case (case em_MatchingRule f of Some v \<Rightarrow> requireNonEmpty ''matching rule'' v | None \<Rightarrow> None) of
          Some e \<Rightarrow> Some e
        | None \<Rightarrow> (case em_Type f of Some v \<Rightarrow> requireNonEmpty ''matching type'' v | None \<Rightarrow> None))"

definition ExtensibleMatch_UnmarshalBER :: "filter unmarshaler" where
  "ExtensibleMatch_UnmarshalBER = decode_in extensibleMatchIdentifier (\<lambda>sc.
     let (MatchingRule, sc) = optional matchingRuleIdentifier None
           (some (ReadAs [] MatchingRuleID_UnmarshalAs matchingRuleIdentifier)) sc;
         (Type, sc) = optional matchingTypeIdentifier None
           (some (ReadAs [] AttributeDescription_UnmarshalAs matchingTypeIdentifier)) sc;
         (MatchValue, sc) = ReadAs [] AssertionValue_UnmarshalAs matchValueIdentifier sc;
         (DNAttributes, sc) = optional dnAttributesIdentifier False (BooleanAs dnAttributesIdentifier) sc;
         (Exts, sc) = UnknownFields
           [matchingRuleIdentifier, matchingTypeIdentifier, matchValueIdentifier, dnAttributesIdentifier] sc
     in ended (let decoded = \<lparr>em_MatchingRule = MatchingRule, em_Type = Type, em_MatchValue = MatchValue,
                              em_DNAttributes = DNAttributes, em_Extensions = Exts\<rparr>
               in case ExtensibleMatch_validate decoded of
                    Some e \<Rightarrow> Inl e
                  | None \<Rightarrow> Inr (ExtensibleMatch decoded)) sc)"

text \<open>The \<^verbatim>\<open>switch\<close> of \<^verbatim>\<open>decodeFilter\<close>.\<close>

definition filterChoice :: "filter unmarshaler \<Rightarrow> ident \<Rightarrow> scope \<Rightarrow> filter \<times> scope" where
  "filterChoice decode tag sc =
     (if tag = andFilterIdentifier then Read nil_filter (And_UnmarshalBER decode) sc
      else if tag = orFilterIdentifier then Read nil_filter (Or_UnmarshalBER decode) sc
      else if tag = notFilterIdentifier then Read nil_filter (Not_UnmarshalBER decode) sc
      else if tag = equalityMatchIdentifier then Read nil_filter EqualityMatch_UnmarshalBER sc
      else if tag = substringsIdentifier then Read nil_filter SubstringFilter_UnmarshalBER sc
      else if tag = greaterOrEqualIdentifier then Read nil_filter GreaterOrEqual_UnmarshalBER sc
      else if tag = lessOrEqualIdentifier then Read nil_filter LessOrEqual_UnmarshalBER sc
      else if tag = presentIdentifier then Read nil_filter Present_UnmarshalBER sc
      else if tag = approximateMatchIdentifier then Read nil_filter ApproximateMatch_UnmarshalBER sc
      else if tag = extensibleMatchIdentifier then Read nil_filter ExtensibleMatch_UnmarshalBER sc
      else let sc = (if id_class tag \<noteq> ClassContextSpecific
                     then Fail (Some (Errorf ''arden: filter identifier %s is not context-specific'' [AId tag])) sc
                     else sc);
               (field, sc) = Read zero_unknown UnknownField_UnmarshalBER sc
           in (UnknownFilter field, sc))"

definition decodeFilter_step :: "filter unmarshaler \<Rightarrow> filter unmarshaler" where
  "decodeFilter_step decode = decode_with (\<lambda>sc.
     let (tag, sc) = PeekIdentifier sc;
         (decoded, sc) = filterChoice decode tag sc
     in checked (Inr decoded) sc)"

fun decodeFilterN :: "nat \<Rightarrow> filter unmarshaler" where
  "decodeFilterN 0 r n = (Inl (Errorf ''out of fuel'' []), r, n)"
| "decodeFilterN (Suc k) r n = decodeFilter_step (decodeFilterN k) r n"

definition decodeFilter :: "filter unmarshaler" where
  "decodeFilter r n = decodeFilterN (Suc (Remaining r)) r n"


section \<open>Enough fuel\<close>

text \<open>Decoder operations that take a custom decoder apply it to readers with no more input than their own; inside a
  constructed element there is strictly less.\<close>

definition agree :: "nat \<Rightarrow> 'a unmarshaler \<Rightarrow> 'a unmarshaler \<Rightarrow> bool" where
  "agree k f g \<longleftrightarrow> (\<forall>r n. Remaining r \<le> k \<longrightarrow> f r n = g r n)"

lemma agree_one: "agree (Remaining (sc_reader sc)) f g \<Longrightarrow> one z f sc = one z g sc"
proof -
  assume a: "agree (Remaining (sc_reader sc)) f g"
  obtain ok sc1 where rd: "ready sc = (ok, sc1)" by (metis surj_pair)
  have r: "sc_reader sc1 = sc_reader sc" using ready_reader [OF rd] by simp
  obtain out probe m where read: "ReadElement (sc_reader sc) (sc_elements sc1) = (out, probe, m)" by (metis surj_pair)
  have "f ((sc_reader sc)\<lparr>r_data := take k (r_data (sc_reader sc))\<rparr>) n = g ((sc_reader sc)\<lparr>r_data := take k (r_data (sc_reader sc))\<rparr>) n" for k n
    using a by (simp add: agree_def Remaining_def)
  then show ?thesis by (cases ok; cases out) (simp_all add: one_def rd r read)
qed

lemma agree_Using: "agree (Remaining (sc_reader sc)) f g \<Longrightarrow> Using z f sc = Using z g sc"
  by (auto simp: agree_def Using_def Let_def split: prod.splits bool.splits dest!: ready_reader)

lemma agree_AllLoop: "agree (Remaining (sc_reader sc)) f g \<Longrightarrow> AllLoop z f acc sc = AllLoop z g acc sc"
proof (induction z f acc sc rule: AllLoop.induct)
  case (1 z f acc sc)
  obtain b sc1 where m: "More sc = (b, sc1)" by (metis surj_pair)
  have r1: "sc_reader sc1 = sc_reader sc" using More_reader [OF m] by simp
  obtain v sc2 where o: "one z f sc1 = (v, sc2)" by (metis surj_pair)
  have og: "one z g sc1 = (v, sc2)" using agree_one [of sc1 f g z] "1.prems" o r1 by simp
  have "AllLoop z f (acc @ [v]) sc2 = AllLoop z g (acc @ [v]) sc2" if "b" "sc_err sc2 = None"
  proof (rule "1.IH")
    show "agree (Remaining (sc_reader sc2)) f g"
      using More_one_progress [OF m o that(2)] "1.prems" by (auto simp: agree_def)
  qed (use m o that in auto)
  with m o og show ?case by (cases b) (simp_all add: AllLoop.simps [of z f acc sc] AllLoop.simps [of z g acc sc])
qed

lemma Constructed_shorter:
  assumes "Constructed t sc = (child, sc')" "sc_err sc' = None"
  shows "Remaining (d_reader child) < Remaining (sc_reader sc)"
proof -
  obtain ok sc1 where rd: "ready sc = (ok, sc1)" by (metis surj_pair)
  note rr = ready_reader [OF rd] ready_err [OF rd]
  obtain out r n where c: "Reader_Constructed t (sc_reader sc1) (sc_elements sc1) = (out, r, n)" by (metis surj_pair)
  from assms rd rr c have ok: "ok" "out = Inr (d_reader child)"
    by (auto simp: Constructed_def split: bool.splits sum.splits)
  obtain out2 r2 n2 where e: "ReadElement (sc_reader sc1) (sc_elements sc1) = (out2, r2, n2)" by (metis surj_pair)
  with c ok obtain el where el: "out2 = Inr el" "d_reader child = contentsReader (sc_reader sc1) el"
    by (auto simp: Reader_Constructed_def split: sum.splits if_splits)
  have "length (el_Value el) < Remaining (sc_reader sc1)"
    by (rule ReadElement_progress(1) [OF e [unfolded el(1)]])
  then show ?thesis using rr(1) el(2) by (simp add: contentsReader_def Remaining_def)
qed

lemma Within_cong:
  assumes "\<And>sc'. sc_err sc' \<noteq> None \<or> Remaining (sc_reader sc') < Remaining (sc_reader sc) \<Longrightarrow> body sc' = body' sc'"
  shows "Within t body sc = Within t body' sc"
proof -
  obtain child sc1 where c: "Constructed t sc = (child, sc1)" by (metis surj_pair)
  let ?sc = "\<lparr>sc_decoder = child, sc_err = sc_err sc1, sc_elements = sc_elements sc1\<rparr>"
  have "body ?sc = body' ?sc"
    using Constructed_shorter [OF c] by (intro assms) (auto simp: sc_reader_def)
  then show ?thesis by (simp add: Within_def c)
qed

lemma decode_in_cong:
  assumes "\<And>sc'. sc_err sc' \<noteq> None \<or> Remaining (sc_reader sc') < Remaining r \<Longrightarrow> body sc' = body' sc'"
  shows "decode_in t body r n = decode_in t body' r n"
  unfolding decode_in_def decode_with_def
  by (subst Within_cong [where body' = body']) (auto simp: sc_reader_def NewDecoder_def intro!: assms)

lemma agree_loop:
  assumes "agree k f g" "sc_err sc \<noteq> None \<or> Remaining (sc_reader sc) \<le> k"
  shows "AllUsing z f sc = AllUsing z g sc" "Using z f sc = Using z g sc"
proof -
  have "AllUsing z f sc = AllUsing z g sc \<and> Using z f sc = Using z g sc"
  proof (cases "sc_err sc")
    case None
    then have "agree (Remaining (sc_reader sc)) f g" using assms by (auto simp: agree_def)
    then show ?thesis by (auto simp: AllUsing_def intro: agree_Using agree_AllLoop)
  next
    case (Some e)
    then show ?thesis by (simp only: loop_failed op_failed simp_thms)
  qed
  then show "AllUsing z f sc = AllUsing z g sc" "Using z f sc = Using z g sc" by simp_all
qed

lemma agree_children:
  assumes "agree k f g" "Remaining r \<le> Suc k"
  shows "And_UnmarshalBER f r n = And_UnmarshalBER g r n" "Or_UnmarshalBER f r n = Or_UnmarshalBER g r n"
    "Not_UnmarshalBER f r n = Not_UnmarshalBER g r n"
proof -
  have sh: "sc_err sc \<noteq> None \<or> Remaining (sc_reader sc) \<le> k"
    if "sc_err sc \<noteq> None \<or> Remaining (sc_reader sc) < Remaining r" for sc
    using that assms(2) by auto
  note l = agree_loop [OF assms(1) sh]
  show "And_UnmarshalBER f r n = And_UnmarshalBER g r n"
    unfolding And_UnmarshalBER_def by (rule decode_in_cong, subst l(1)) simp_all
  show "Or_UnmarshalBER f r n = Or_UnmarshalBER g r n"
    unfolding Or_UnmarshalBER_def by (rule decode_in_cong, subst l(1)) simp_all
  show "Not_UnmarshalBER f r n = Not_UnmarshalBER g r n"
    unfolding Not_UnmarshalBER_def by (rule decode_in_cong, subst l(2)) simp_all
qed

lemma agree_step: "agree k f g \<Longrightarrow> agree (Suc k) (decodeFilter_step f) (decodeFilter_step g)"
proof -
  assume fg: "agree k f g"
  note c = agree_children [OF fg]
  have "decodeFilter_step f r n = decodeFilter_step g r n" if r: "Remaining r \<le> Suc k" for r n
  proof -
    let ?sc = "\<lparr>sc_decoder = NewDecoder r, sc_err = None, sc_elements = n\<rparr>"
    obtain tag sc1 where p: "PeekIdentifier ?sc = (tag, sc1)" by (metis surj_pair)
    have "sc_reader sc1 = r" using PeekIdentifier_reader [OF p] by (simp add: sc_reader_def NewDecoder_def)
    then have "filterChoice f tag sc1 = filterChoice g tag sc1"
      unfolding filterChoice_def Read_def using r c by (auto simp: agree_def intro!: agree_one)
    then show ?thesis by (simp add: decodeFilter_step_def decode_with_def p)
  qed
  then show ?thesis by (simp add: agree_def)
qed

lemma agree_step_empty: "agree 0 (decodeFilter_step f) (decodeFilter_step g)"
proof -
  have "decodeFilter_step f r n = decodeFilter_step g r n" if r: "Remaining r = 0" for r n
  proof -
    let ?sc = "\<lparr>sc_decoder = NewDecoder r, sc_err = None, sc_elements = n\<rparr>"
    have "ready ?sc = (True, ?sc)" by (simp add: ready_def decoderReady.simps NewDecoder_def)
    moreover have "Reader_PeekIdentifier r = Inl (decodeError (Offset r) ErrTruncated)"
      using r by (simp add: Reader_PeekIdentifier_def Remaining_def)
    ultimately obtain tag sc1 e where p: "PeekIdentifier ?sc = (tag, sc1)" "sc_err sc1 = Some e"
      by (auto simp: PeekIdentifier_def Using_def Let_def Fail_def sc_reader_def NewDecoder_def with_reader_def)
    have "filterChoice f tag sc1 = filterChoice g tag sc1"
      by (simp add: filterChoice_def Read_def op_failed [OF p(2)])
    then show ?thesis by (simp add: decodeFilter_step_def decode_with_def p(1))
  qed
  then show ?thesis by (simp add: agree_def)
qed

lemma decodeFilterN_agree: "k \<le> j \<Longrightarrow> agree k (decodeFilterN (Suc k)) (decodeFilterN (Suc j))"
proof (induction k arbitrary: j)
  case 0
  show ?case using agree_step_empty by (simp add: agree_def)
next
  case (Suc k)
  then obtain i where "j = Suc i" "k \<le> i" by (cases j) auto
  have "decodeFilterN (Suc m) = decodeFilter_step (decodeFilterN m)" for m by (intro ext) simp
  with agree_step [OF Suc.IH [OF \<open>k \<le> i\<close>]] \<open>j = Suc i\<close> show ?case by simp
qed

lemma decodeFilter_unfold: "decodeFilter r n = decodeFilter_step decodeFilter r n"
proof -
  have "agree (Remaining r) (decodeFilter_step (decodeFilterN (Remaining r))) (decodeFilter_step decodeFilter)"
  proof (cases "Remaining r")
    case 0
    then show ?thesis using agree_step_empty by simp
  next
    case (Suc k)
    have "decodeFilterN (Suc k) r' m = decodeFilter r' m" if "Remaining r' \<le> k" for r' m
      using decodeFilterN_agree [OF that] by (simp add: agree_def decodeFilter_def)
    then have "agree k (decodeFilterN (Remaining r)) decodeFilter" by (simp add: agree_def Suc)
    from agree_step [OF this] show ?thesis by (simp add: Suc)
  qed
  then show ?thesis by (simp add: agree_def decodeFilter_def)
qed


section \<open>Round trip\<close>

text \<open>The filters a decoder can return.\<close>

definition knownFilters :: "ident list" where
  "knownFilters = [andFilterIdentifier, orFilterIdentifier, notFilterIdentifier, equalityMatchIdentifier,
     substringsIdentifier, greaterOrEqualIdentifier, lessOrEqualIdentifier, presentIdentifier,
     approximateMatchIdentifier, extensibleMatchIdentifier]"

definition substring_ok :: "substring_filter \<Rightarrow> bool" where
  "substring_ok s \<longleftrightarrow> sf_Type s \<noteq> [] \<and> utf8_Valid (sf_Type s)
     \<and> (sf_Initial s \<noteq> None \<or> sf_Any s \<noteq> [] \<or> sf_Final s \<noteq> None)
     \<and> unknowns_ok [contextPrimitive 0, contextPrimitive 1, contextPrimitive 2] (sf_Extensions s)"

definition extensible_ok :: "extensible_match \<Rightarrow> bool" where
  "extensible_ok m \<longleftrightarrow> ExtensibleMatch_validate m = None \<and> pred_option utf8_Valid (em_MatchingRule m)
     \<and> pred_option utf8_Valid (em_Type m)
     \<and> unknowns_ok [contextPrimitive 1, contextPrimitive 2, contextPrimitive 3, contextPrimitive 4] (em_Extensions m)"

fun filter_ok :: "filter \<Rightarrow> bool" where
  "filter_ok (And_filter fs) \<longleftrightarrow> fs \<noteq> [] \<and> (\<forall>f \<in> set fs. filter_ok f)"
| "filter_ok (Or_filter fs) \<longleftrightarrow> fs \<noteq> [] \<and> (\<forall>f \<in> set fs. filter_ok f)"
| "filter_ok (Not_filter f) \<longleftrightarrow> filter_ok f"
| "filter_ok (EqualityMatch a) \<longleftrightarrow> assertion_ok a"
| "filter_ok (Substrings s) \<longleftrightarrow> substring_ok s"
| "filter_ok (GreaterOrEqual a) \<longleftrightarrow> assertion_ok a"
| "filter_ok (LessOrEqual a) \<longleftrightarrow> assertion_ok a"
| "filter_ok (Present attr) \<longleftrightarrow> attr \<noteq> [] \<and> utf8_Valid attr"
| "filter_ok (ApproximateMatch a) \<longleftrightarrow> assertion_ok a"
| "filter_ok (ExtensibleMatch m) \<longleftrightarrow> extensible_ok m"
| "filter_ok (UnknownFilter u) \<longleftrightarrow> unknown_ok u \<and> id_class (uf_identifier u) = ClassContextSpecific
     \<and> uf_identifier u \<notin> set knownFilters"

abbreviation decodes_filter :: "filter unmarshaler \<Rightarrow> filter \<Rightarrow> bool" where
  "decodes_filter unm f \<equiv> codec Filter_BERPacket unm ((=) f)"

lemma choice_codec:
  assumes t: "tagged (Filter_BERPacket f) t"
    and c: "\<And>r n p ps. holds r n (p # ps) \<Longrightarrow> same_octets p (Filter_BERPacket f) \<Longrightarrow>
      filterChoice decode t (scope_at r None [] n) = (f, scope_at (past p r) None [] (n + nodes p))"
  shows "decodes_filter (decodeFilter_step decode) f"
proof unfold_locales
  fix a r n p ps
  show "f = a \<Longrightarrow> single (Filter_BERPacket a)" using t by (auto simp: tagged_def single_def)
  assume "f = a" and h: "holds r n (p # ps)" and "same_octets p (Filter_BERPacket a)"
  then have s: "same_octets p (Filter_BERPacket f)" and a: "a = f" by simp_all
  show "decodeFilter_step decode r n = (Inr a, past p r, n + nodes p)"
    unfolding decodeFilter_step_def a by (rule choice_value [where choice = "filterChoice decode", OF h s t]) (rule c [OF h s])
qed

lemma read_codec:
  assumes t: "tagged (Filter_BERPacket f) t" and u: "decodes_filter unm f"
    and "\<And>sc. filterChoice decode t sc = Read nil_filter unm sc"
  shows "decodes_filter (decodeFilter_step decode) f"
  using codec.read_value [OF u refl _ _ finished_None] assms(3) by (intro choice_codec [OF t]) simp

lemma wrapped_codec:
  assumes "codec pkt unm valid" "valid a" "\<And>v. Filter_BERPacket (g v) = pkt v" "e a = Inr (g a)"
  shows "decodes_filter (decode_with (\<lambda>sc. let (v, sc) = Read z unm sc in checked (e v) sc)) (g a)"
proof unfold_locales
  fix f r n p ps
  show "g a = f \<Longrightarrow> single (Filter_BERPacket f)"
    using codec.encodes_single [OF assms(1,2)] assms(3) by auto
  assume "g a = f" "holds r n (p # ps)" "same_octets p (Filter_BERPacket f)"
  then show "decode_with (\<lambda>sc. let (v, sc) = Read z unm sc in checked (e v) sc) r n = (Inr f, past p r, n + nodes p)"
    using codec.decode_read [OF assms(1,2), of r n p ps z e] assms(3,4) by auto
qed

lemma tagged_assertion: "Identifier_Valid t \<Longrightarrow> id_constructed t \<Longrightarrow> tagged (assertionFilterPacket t a) t"
  by (simp add: assertion_packet)

lemma assertion_decodes:
  assumes "assertion_ok a"
  shows "decodes_filter EqualityMatch_UnmarshalBER (EqualityMatch a)"
    "decodes_filter GreaterOrEqual_UnmarshalBER (GreaterOrEqual a)"
    "decodes_filter LessOrEqual_UnmarshalBER (LessOrEqual a)"
    "decodes_filter ApproximateMatch_UnmarshalBER (ApproximateMatch a)"
  unfolding EqualityMatch_UnmarshalBER_def GreaterOrEqual_UnmarshalBER_def LessOrEqual_UnmarshalBER_def
    ApproximateMatch_UnmarshalBER_def ReadAs_Read
  by (rule wrapped_codec [OF assertion_codec]; simp add: assms filter_tags)+

lemma present_decodes:
  "filter_ok (Present attr) \<Longrightarrow> decodes_filter Present_UnmarshalBER (Present attr)"
  unfolding Present_UnmarshalBER_def ReadAs_Read text_defs
  by (rule wrapped_codec [OF text_codec]) (simp_all add: filter_tags requireNonEmpty_def)

text \<open>A decoder of one value, by its body.\<close>

lemma body_codec:
  assumes pk: "Filter_BERPacket f = Packet t [] cs False False" and t: "id_constructed t" "Identifier_Valid t"
    and cs: "list_all single cs"
    and body: "\<And>sc m. stand sc cs [] m \<Longrightarrow> accepts (body sc) (Inr f) [] rs m"
  shows "decodes_filter (decode_in t body) f"
proof unfold_locales
  fix a r n p ps
  show "f = a \<Longrightarrow> single (Filter_BERPacket a)" using pk t single_Constructed by auto
  assume "f = a" and h: "holds r n (p # ps)" and "same_octets p (Filter_BERPacket a)"
  then have "same_octets p (Packet t [] cs False False)" and a: "a = f" by (simp_all add: pk [symmetric])
  from decode_in_accepts [OF h this(1) t cs body] show "decode_in t body r n = (Inr a, past p r, n + nodes p)"
    by (simp add: a)
qed

lemma members_codec:
  assumes "\<And>f. f \<in> set fs \<Longrightarrow> decodes_filter unm f"
  shows "codec Filter_BERPacket unm (\<lambda>f. f \<in> set fs)"
  using codec.encodes_single [OF assms refl] codec.decodes [OF assms refl] by unfold_locales blast+

lemma combined_decodes:
  assumes ch: "\<And>f. f \<in> set fs \<Longrightarrow> decodes_filter unm f" and "fs \<noteq> []"
  shows "decodes_filter (And_UnmarshalBER unm) (And_filter fs)" "decodes_filter (Or_UnmarshalBER unm) (Or_filter fs)"
proof -
  have m: "codec Filter_BERPacket unm (\<lambda>f. f \<in> set fs)" by (rule members_codec) (rule ch)
  have fs: "list_all (\<lambda>f. f \<in> set fs) fs" by (simp add: list_all_iff)
  have s: "list_all single (map Filter_BERPacket fs)" by (rule codec.singles [OF m fs])
  show "decodes_filter (And_UnmarshalBER unm) (And_filter fs)"
    unfolding And_UnmarshalBER_def
    by (rule body_codec [OF _ _ _ s]; (simp add: filter_tags; fail)?;
        erule codec.accepts_all [OF m _ fs], erule accepts_ended, simp add: assms(2))
  show "decodes_filter (Or_UnmarshalBER unm) (Or_filter fs)"
    unfolding Or_UnmarshalBER_def
    by (rule body_codec [OF _ _ _ s]; (simp add: filter_tags; fail)?;
        erule codec.accepts_all [OF m _ fs], erule accepts_ended, simp add: assms(2))
qed

lemma negated_decodes:
  assumes ch: "decodes_filter unm f"
  shows "decodes_filter (Not_UnmarshalBER unm) (Not_filter f)"
  unfolding Not_UnmarshalBER_def
  by (rule body_codec [where cs = "[Filter_BERPacket f]"];
      (simp add: filter_tags codec.encodes_single [OF ch]; fail)?;
      erule codec.accepts_using [OF ch _ refl], erule accepts_ended, simp)

lemma accepts_octets_while:
  assumes "stand sc (map (ber_Primitive t) vs @ cs) res tot" "Identifier_Valid t" "\<not> id_constructed t" "not_next t cs"
    and "\<And>sc'. stand sc' cs res tot \<Longrightarrow> accepts (f vs sc') a ds rs tot"
  shows "accepts (let (y, sc) = readWhile t z (unmarshalLDAPBytes t) [] sc in f y sc) a ds rs tot"
  by (rule codec.accepts_readWhile [OF octets_codec [OF assms(2,3)] assms(1) _ _ assms(4), of f])
    (simp_all add: assms(2,3,5))

lemma substring_parts:
  assumes "stand sc ((if sf_Initial s \<noteq> None then [ber_Primitive (contextPrimitive 0) (the (sf_Initial s))] else [])
      @ map (ber_Primitive (contextPrimitive 1)) (sf_Any s)
      @ (if sf_Final s \<noteq> None then [ber_Primitive (contextPrimitive 2) (the (sf_Final s))] else [])
      @ map UnknownField_BERPacket (sf_Extensions s)) [] tot" and ok: "substring_ok s"
  shows "accepts (substringParts sc) (sf_Initial s, sf_Any s, sf_Final s, sf_Extensions s) []
    [contextPrimitive 0, contextPrimitive 1, contextPrimitive 2] tot"
proof -
  have u: "unknowns_ok [contextPrimitive 0, contextPrimitive 1, contextPrimitive 2] (sf_Extensions s)"
    using ok by (simp add: substring_ok_def)
  note nu = unknowns_not_next [OF u, simplified]
  have nf: "not_next (contextPrimitive k) ((if sf_Final s \<noteq> None then [ber_Primitive (contextPrimitive 2) (the (sf_Final s))] else [])
      @ map UnknownField_BERPacket (sf_Extensions s))" if "k = 0 \<or> k = 1" for k
    using nu that by auto
  have na: "not_next (contextPrimitive 0) (map (ber_Primitive (contextPrimitive 1)) (sf_Any s)
      @ (if sf_Final s \<noteq> None then [ber_Primitive (contextPrimitive 2) (the (sf_Final s))] else [])
      @ map UnknownField_BERPacket (sf_Extensions s))"
    using nf [of 0] by (cases "sf_Any s") auto
  show ?thesis
    unfolding substringParts_def ReadAs_Read text_defs filter_tags
    by (rule accepts_optional_some [OF assms(1)]; (use na in simp; fail)?;
        (erule scope_rules accepts_octets_while accepts_done; (use nf [of 1] in \<open>simp add: u nu\<close>; fail)?)+)
qed

lemma singles_primitive: "Identifier_Valid t \<Longrightarrow> list_all single (map (ber_Primitive t) vs)"
  by (induction vs) auto


lemma Substring_packet:
  "SubstringFilter_BERPacket s = Packet (contextConstructed 4) []
     [ber_OctetString (sf_Type s), Packet SequenceIdentifier []
       ((if sf_Initial s \<noteq> None then [ber_Primitive (contextPrimitive 0) (the (sf_Initial s))] else [])
        @ map (ber_Primitive (contextPrimitive 1)) (sf_Any s)
        @ (if sf_Final s \<noteq> None then [ber_Primitive (contextPrimitive 2) (the (sf_Final s))] else [])
        @ map UnknownField_BERPacket (sf_Extensions s)) False False] False False"
  by (simp add: SubstringFilter_BERPacket_def filter_tags implicitOctetsPacket_def Let_def split: option.splits)

lemma substring_decodes:
  assumes ok: "substring_ok s"
  shows "decodes_filter SubstringFilter_UnmarshalBER (Substrings s)"
proof -
  note u = ok [unfolded substring_ok_def unknowns_ok_def]
  have body: "accepts (let ((Initial, Any, Final, Exts), sc) = Within SequenceIdentifier substringParts sc
     in ended (case requireNonEmpty ''substring attribute description'' (sf_Type s) of
                 Some e \<Rightarrow> Inl e
               | None \<Rightarrow>
                   if Initial = None \<and> length Any = 0 \<and> Final = None
                   then Inl (Errorf ''arden: substring filter requires at least one part'' [])
                   else Inr (Substrings \<lparr>sf_Type = sf_Type s, sf_Initial = Initial, sf_Any = Any, sf_Final = Final,
                                         sf_Extensions = Exts\<rparr>)) sc) (Inr (Substrings s)) [] [] m"
    if st: "stand sc [Packet SequenceIdentifier []
       ((if sf_Initial s \<noteq> None then [ber_Primitive (contextPrimitive 0) (the (sf_Initial s))] else [])
        @ map (ber_Primitive (contextPrimitive 1)) (sf_Any s)
        @ (if sf_Final s \<noteq> None then [ber_Primitive (contextPrimitive 2) (the (sf_Final s))] else [])
        @ map UnknownField_BERPacket (sf_Extensions s)) False False] [] m" for sc m
  proof (rule accepts_within [OF st _ _ _ substring_parts [OF _ ok]])
    fix sc'
    assume st': "stand sc' [] [] m"
    show "accepts ((case (sf_Initial s, sf_Any s, sf_Final s, sf_Extensions s) of (Initial, Any, Final, Exts) \<Rightarrow>
        ended (case requireNonEmpty ''substring attribute description'' (sf_Type s) of
                 Some e \<Rightarrow> Inl e
               | None \<Rightarrow>
                   if Initial = None \<and> length Any = 0 \<and> Final = None
                   then Inl (Errorf ''arden: substring filter requires at least one part'' [])
                   else Inr (Substrings \<lparr>sf_Type = sf_Type s, sf_Initial = Initial, sf_Any = Any, sf_Final = Final,
                                         sf_Extensions = Exts\<rparr>))) sc') (Inr (Substrings s)) [] [] m"
      unfolding prod.case by (rule accepts_ended [OF st']) (use u in \<open>auto simp: requireNonEmpty_def\<close>)
  qed (simp_all add: u singles_primitive)
  show ?thesis
    unfolding SubstringFilter_UnmarshalBER_def filter_tags(5) text_defs
    by (rule body_codec [OF trans [OF Filter_BERPacket.simps(5) Substring_packet]]; (simp add: single_Constructed; fail)?;
        erule ldap_text.accepts_read; (simp add: u; fail)?; erule body)
qed

lemma Extensible_packet:
  "ExtensibleMatch_BERPacket m = Packet (contextConstructed 9) []
     ((if em_MatchingRule m \<noteq> None then [ber_Primitive (contextPrimitive 1) (the (em_MatchingRule m))] else [])
      @ (if em_Type m \<noteq> None then [ber_Primitive (contextPrimitive 2) (the (em_Type m))] else [])
      @ ber_Primitive (contextPrimitive 3) (em_MatchValue m)
      # (if em_DNAttributes m then [ber_Primitive (contextPrimitive 4) [if em_DNAttributes m then 0xFF else 0]] else [])
      @ map UnknownField_BERPacket (em_Extensions m)) False False"
  by (simp add: ExtensibleMatch_BERPacket_def filter_tags implicitOctetsPacket_def implicitBooleanPacket_def Let_def
      split: option.splits)

lemma extensible_decodes:
  assumes ok: "extensible_ok m"
  shows "decodes_filter ExtensibleMatch_UnmarshalBER (ExtensibleMatch m)"
proof -
  note u = ok [unfolded extensible_ok_def]
  note fs = ok [unfolded extensible_ok_def unknowns_ok_def]
  have nu: "\<forall>t \<in> set [contextPrimitive 1, contextPrimitive 2, contextPrimitive 3, contextPrimitive 4].
      not_next t (map UnknownField_BERPacket (em_Extensions m))"
    by (rule unknowns_not_next) (use u in simp)
  have vt: "em_MatchingRule m \<noteq> None \<Longrightarrow> utf8_Valid (the (em_MatchingRule m))"
     "em_Type m \<noteq> None \<Longrightarrow> utf8_Valid (the (em_Type m))" using u by auto
  have fin: "(let decoded = \<lparr>em_MatchingRule = a, em_Type = b, em_MatchValue = em_MatchValue m,
        em_DNAttributes = c, em_Extensions = em_Extensions m\<rparr>
      in case ExtensibleMatch_validate decoded of Some e \<Rightarrow> Inl e | None \<Rightarrow> Inr (ExtensibleMatch decoded))
      = Inr (ExtensibleMatch m)" if "a = em_MatchingRule m" "b = em_Type m" "c = em_DNAttributes m" for a b c
    using u that by (cases m) simp
  show ?thesis
    unfolding ExtensibleMatch_UnmarshalBER_def filter_tags text_defs ReadAs_Read
    by (rule body_codec [OF trans [OF Filter_BERPacket.simps(10) Extensible_packet]]; (simp add: fs; fail)?;
        (erule scope_rules; ((rule fin; simp; fail) | (use nu vt in \<open>simp add: u\<close>; fail))?)+)
qed

lemma unknown_decodes:
  assumes ok: "filter_ok (UnknownFilter u)"
  shows "decodes_filter (decodeFilter_step decode) (UnknownFilter u)"
proof (rule choice_codec)
  have pk: "Filter_BERPacket (UnknownFilter u) = UnknownField_BERPacket u" by (simp add: UnknownField_BERPacket_def)
  have u: "unknown_ok u" using ok by simp
  then show "tagged (Filter_BERPacket (UnknownFilter u)) (uf_identifier u)" unfolding pk by (rule tagged_unknown)
  fix r n p ps
  assume h: "holds r n (p # ps)" and s: "same_octets p (Filter_BERPacket (UnknownFilter u))"
  from ldap_unknown.read_value [OF u h s [unfolded pk] finished_None, of zero_unknown "[]"] ok
  show "filterChoice decode (uf_identifier u) (scope_at r None [] n) = (UnknownFilter u, scope_at (past p r) None [] (n + nodes p))"
    by (simp add: filterChoice_def knownFilters_def)
qed

lemma tagged_filter:
  "tagged (Filter_BERPacket (And_filter fs)) andFilterIdentifier"
  "tagged (Filter_BERPacket (Or_filter fs)) orFilterIdentifier"
  "tagged (Filter_BERPacket (Not_filter f)) notFilterIdentifier"
  "tagged (Filter_BERPacket (EqualityMatch a)) equalityMatchIdentifier"
  "tagged (Filter_BERPacket (Substrings s)) substringsIdentifier"
  "tagged (Filter_BERPacket (GreaterOrEqual a)) greaterOrEqualIdentifier"
  "tagged (Filter_BERPacket (LessOrEqual a)) lessOrEqualIdentifier"
  "tagged (Filter_BERPacket (Present attr)) presentIdentifier"
  "tagged (Filter_BERPacket (ApproximateMatch a)) approximateMatchIdentifier"
  "tagged (Filter_BERPacket (ExtensibleMatch m)) extensibleMatchIdentifier"
  by (simp_all add: filter_tags Substring_packet Extensible_packet assertion_packet)

lemma filter_decodes: "filter_ok f \<Longrightarrow> decodes_filter decodeFilter f"
proof -
  have unfold: "decodeFilter = decodeFilter_step decodeFilter" by (intro ext) (rule decodeFilter_unfold)
  have choices: "filterChoice d andFilterIdentifier sc = Read nil_filter (And_UnmarshalBER d) sc"
    "filterChoice d orFilterIdentifier sc = Read nil_filter (Or_UnmarshalBER d) sc"
    "filterChoice d notFilterIdentifier sc = Read nil_filter (Not_UnmarshalBER d) sc"
    "filterChoice d equalityMatchIdentifier sc = Read nil_filter EqualityMatch_UnmarshalBER sc"
    "filterChoice d substringsIdentifier sc = Read nil_filter SubstringFilter_UnmarshalBER sc"
    "filterChoice d greaterOrEqualIdentifier sc = Read nil_filter GreaterOrEqual_UnmarshalBER sc"
    "filterChoice d lessOrEqualIdentifier sc = Read nil_filter LessOrEqual_UnmarshalBER sc"
    "filterChoice d presentIdentifier sc = Read nil_filter Present_UnmarshalBER sc"
    "filterChoice d approximateMatchIdentifier sc = Read nil_filter ApproximateMatch_UnmarshalBER sc"
    "filterChoice d extensibleMatchIdentifier sc = Read nil_filter ExtensibleMatch_UnmarshalBER sc" for d sc
    by (simp_all add: filterChoice_def filter_tags)
  note step = read_codec [OF tagged_filter(1) _ choices(1)] read_codec [OF tagged_filter(2) _ choices(2)]
    read_codec [OF tagged_filter(3) _ choices(3)] read_codec [OF tagged_filter(4) _ choices(4)]
    read_codec [OF tagged_filter(5) _ choices(5)] read_codec [OF tagged_filter(6) _ choices(6)]
    read_codec [OF tagged_filter(7) _ choices(7)] read_codec [OF tagged_filter(8) _ choices(8)]
    read_codec [OF tagged_filter(9) _ choices(9)] read_codec [OF tagged_filter(10) _ choices(10)]
  show "filter_ok f \<Longrightarrow> decodes_filter decodeFilter f"
  proof (induction f)
    case (And_filter fs)
    then show ?case by (subst unfold, intro step(1) combined_decodes(1)) auto
  next
    case (Or_filter fs)
    then show ?case by (subst unfold, intro step(2) combined_decodes(2)) auto
  next
    case (Not_filter f)
    then show ?case by (subst unfold, intro step(3) negated_decodes) auto
  next
    case (UnknownFilter u)
    then show ?case by (subst unfold, intro unknown_decodes)
  qed (subst unfold, (rule step(4-10)), simp add: assertion_decodes present_decodes substring_decodes extensible_decodes)+
qed

interpretation ldap_filter: codec Filter_BERPacket decodeFilter filter_ok
  using codec.encodes_single [OF filter_decodes refl] codec.decodes [OF filter_decodes refl]
  by unfold_locales blast+

section \<open>Properties\<close>

text \<open>(C10) Filters survive the wire: the octets the serializer writes for a filter, nested to any depth, decode to
  the same filter whenever the limits admit them.\<close>

theorem filter_roundtrip:
  assumes "filter_ok f" "packet_ok (Filter_BERPacket f)" "admits lim (Encode (Filter_BERPacket f))"
    and "re_Protocol r = Encode (Filter_BERPacket f)"
  shows "UnmarshalProtocol decodeFilter r lim = Inr f"
  using assms by (rule ldap_filter.roundtrip)

theorem filter_roundtrip_witness:
  "UnmarshalProtocol decodeFilter
     \<lparr>re_MessageID = 0, re_ProtocolID = zero_identifier, re_Bytes = [], re_Protocol = [0xA0, 4, 0x87, 2, 0x63, 0x6E],
      re_Controls = [], re_Extensions = []\<rparr> DefaultLimits = Inr (And_filter [Present [0x63, 0x6E]])"
proof -
  have e: "Encode (Filter_BERPacket (And_filter [Present [0x63, 0x6E]])) = [0xA0, 4, 0x87, 2, 0x63, 0x6E]" by code_simp
  have a: "admits DefaultLimits [0xA0, 4, 0x87, 2, 0x63, 0x6E]"
    unfolding admits_def by (intro conjI; (simp add: DefaultLimits_def; fail)?; code_simp)
  have k: "packet_ok (Filter_BERPacket (And_filter [Present [0x63, 0x6E]]))"
    by (simp add: filter_tags packet_ok_eval tag_defs)
  show ?thesis by (rule filter_roundtrip [OF _ k]; (simp only: e a response.simps)?) simp
qed

end
