(* ===== verification/Ldap_Search.thy ===== *)
theory Ldap_Search
  imports Ldap_Filter Ldap_Update
begin

text \<open>
  Search (\<^verbatim>\<open>src/rfc4511/search.go\<close>) and the cached attribute selection (\<^verbatim>\<open>src/rfc4511/attribute_selectors.go\<close>).

  A \<^verbatim>\<open>time.Duration\<close> is an \<^verbatim>\<open>int64\<close> count of nanoseconds: its division truncates towards zero (\<open>go_quot\<close>) and its
  multiplication wraps (\<open>int64_mul\<close>).
\<close>

section \<open>Attribute selectors\<close>

record attribute_selectors =
  as_values :: "bytes list"
  as_encoded :: bytes

definition NewAttributeSelectors :: "bytes list \<Rightarrow> attribute_selectors" where
  "NewAttributeSelectors selectors =
     (if length selectors = 0 then \<lparr>as_values = [], as_encoded = []\<rparr>
      else \<lparr>as_values = selectors,
            as_encoded = Encode (Envelope_Add (map AttributeSelector_BERPacket selectors) ber_Sequence)\<rparr>)"

definition AttributeSelectors_Len :: "attribute_selectors \<Rightarrow> nat" where
  "AttributeSelectors_Len v = length (as_values v)"

definition AttributeSelectors_All :: "attribute_selectors \<Rightarrow> bytes list" where
  "AttributeSelectors_All v = as_values v"

definition AttributeSelectors_BERPacket :: "attribute_selectors \<Rightarrow> packet" where
  "AttributeSelectors_BERPacket v =
     (if length (as_encoded v) = 0 then ber_Sequence else ber_Encoded (as_encoded v))"

definition AttributeSelectors_UnmarshalBER :: "attribute_selectors unmarshaler" where
  "AttributeSelectors_UnmarshalBER = decode_in SequenceIdentifier (\<lambda>sc.
     let (vals, sc) = All_values [] AttributeSelector_UnmarshalBER sc
     in ended (Inr (NewAttributeSelectors vals)) sc)"

section \<open>Requests\<close>

definition searchRequestIdentifier :: ident where "searchRequestIdentifier = applicationConstructed 3"
definition searchEntryIdentifier :: ident where "searchEntryIdentifier = applicationConstructed 4"
definition searchDoneIdentifier :: ident where "searchDoneIdentifier = applicationConstructed 5"
definition searchReferenceIdentifier :: ident where "searchReferenceIdentifier = applicationConstructed 19"

lemmas search_tags = searchRequestIdentifier_def searchEntryIdentifier_def searchDoneIdentifier_def
  searchReferenceIdentifier_def

definition DerefNever :: int where "DerefNever = 0"
definition DerefAlways :: int where "DerefAlways = 3"

definition time_Second :: int where "time_Second = 1000000000"

definition go_quot :: "int \<Rightarrow> int \<Rightarrow> int" where
  "go_quot a b = sgn a * sgn b * (\<bar>a\<bar> div \<bar>b\<bar>)"

definition int64_mul :: "int \<Rightarrow> int \<Rightarrow> int" where
  "int64_mul a b = signed_take_bit 63 (a * b)"

record search_request =
  sq_BaseObject :: bytes
  sq_Scope :: int
  sq_DerefAliases :: int
  sq_SizeLimit :: int
  sq_TimeLimit :: int
  sq_TypesOnly :: bool
  sq_Filter :: filter
  sq_Attributes :: attribute_selectors
  sq_Extensions :: "unknown_field list"

definition SearchRequest_BERPacket :: "search_request \<Rightarrow> packet" where
  "SearchRequest_BERPacket v =
     (let timeLimit = go_quot (sq_TimeLimit v) time_Second
      in Envelope_Add (map UnknownField_BERPacket (sq_Extensions v))
           (Envelope_Add [AttributeSelectors_BERPacket (sq_Attributes v)]
             (Envelope_Add [Filter_BERPacket (sq_Filter v)]
               (Envelope_Add
                 [ber_OctetString (sq_BaseObject v), ber_Enumerated (sq_Scope v), ber_Enumerated (sq_DerefAliases v),
                  ber_Integer (sq_SizeLimit v), ber_Integer timeLimit, ber_Boolean (sq_TypesOnly v)]
                 (ber_Constructed searchRequestIdentifier)))))"

definition decodeSearchTimeLimit :: "int unmarshaler" where
  "decodeSearchTimeLimit = decode_with (\<lambda>sc.
     let (seconds, sc) = Integer Int64 sc
     in checked (if seconds > 2147483647 \<or> seconds < go_quot (- (2 ^ 63)) time_Second
                 then Inl (Errorf ''arden: search time limit is outside representable bounds'' [])
                 else Inr (int64_mul seconds time_Second)) sc)"

definition validateDerefAliases :: "int \<Rightarrow> goerror option" where
  "validateDerefAliases v =
     (if v < DerefNever \<or> v > DerefAlways then Some (Errorf ''arden: invalid derefAliases value %d'' [AInt v]) else None)"

definition SearchRequest_UnmarshalBER :: "search_request unmarshaler" where
  "SearchRequest_UnmarshalBER = decode_in searchRequestIdentifier (\<lambda>sc.
     let (BaseObject, sc) = Read [] LDAPDN_UnmarshalBER sc;
         (Scope, sc) = Enumerated Int64 sc;
         (Deref, sc) = Enumerated Int64 sc;
         (SizeLimit, sc) = Integer Uint32 sc;
         (TimeLimit, sc) = Using 0 decodeSearchTimeLimit sc;
         (TypesOnly, sc) = Boolean sc;
         (Filter, sc) = Using nil_filter decodeFilter sc;
         (Attrs, sc) = Read (NewAttributeSelectors []) AttributeSelectors_UnmarshalBER sc;
         (Exts, sc) = UnknownFields [] sc
     in ended (case validateDerefAliases Deref of
                 Some e \<Rightarrow> Inl e
               | None \<Rightarrow>
                   if SizeLimit > 2147483647 then Inl (Errorf ''arden: search size limit is outside maxInt'' [])
                   else Inr \<lparr>sq_BaseObject = BaseObject, sq_Scope = Scope, sq_DerefAliases = Deref,
                             sq_SizeLimit = SizeLimit, sq_TimeLimit = TimeLimit, sq_TypesOnly = TypesOnly,
                             sq_Filter = Filter, sq_Attributes = Attrs, sq_Extensions = Exts\<rparr>) sc)"

section \<open>Results\<close>

record search_entry =
  se_ObjectName :: bytes
  se_Attributes :: attributes
  se_Extensions :: "unknown_field list"

definition SearchResultEntry_BERPacket :: "search_entry \<Rightarrow> packet" where
  "SearchResultEntry_BERPacket v =
     Envelope_Add (map UnknownField_BERPacket (se_Extensions v))
       (Envelope_Add [ber_OctetString (se_ObjectName v), Attributes_BERPacket (se_Attributes v)]
         (ber_Constructed searchEntryIdentifier))"

definition SearchResultEntry_UnmarshalBER :: "(bytes \<Rightarrow> bytes) \<Rightarrow> search_entry unmarshaler" where
  "SearchResultEntry_UnmarshalBER uni = decode_in searchEntryIdentifier (\<lambda>sc.
     let (ObjectName, sc) = Read [] LDAPDN_UnmarshalBER sc;
         (Attrs, sc) = Read None (Attributes_UnmarshalBER uni) sc;
         (Exts, sc) = UnknownFields [] sc
     in ended (Inr \<lparr>se_ObjectName = ObjectName, se_Attributes = Attrs, se_Extensions = Exts\<rparr>) sc)"

record search_reference =
  sr_URIs :: "bytes list"
  sr_Extensions :: "unknown_field list"

definition SearchResultReference_BERPacket :: "search_reference \<Rightarrow> packet" where
  "SearchResultReference_BERPacket v =
     Envelope_Add (map UnknownField_BERPacket (sr_Extensions v))
       (Envelope_Add (map URI_BERPacket (sr_URIs v)) (ber_Constructed searchReferenceIdentifier))"

definition SearchResultReference_UnmarshalBER :: "search_reference unmarshaler" where
  "SearchResultReference_UnmarshalBER = decode_in searchReferenceIdentifier (\<lambda>sc.
     let (URIs, sc) = readWhile OctetStringIdentifier [] URI_UnmarshalBER [] sc;
         (Exts, sc) = UnknownFields [OctetStringIdentifier] sc
     in ended (if length URIs = 0 then Inl (Errorf ''arden: search result reference requires at least one URI'' [])
               else Inr \<lparr>sr_URIs = URIs, sr_Extensions = Exts\<rparr>) sc)"

datatype search_done = SearchResultDone (done_Result: ldap_result)

definition SearchResultDone_BERPacket :: "search_done \<Rightarrow> packet" where
  "SearchResultDone_BERPacket v = resultResponsePacket searchDoneIdentifier (done_Result v)"

definition SearchResultDone_UnmarshalBER :: "search_done unmarshaler" where
  "SearchResultDone_UnmarshalBER = decode_with (\<lambda>sc.
     let (Result, sc) = ReadAs zero_result LDAPResult_UnmarshalAs searchDoneIdentifier sc
     in checked (Inr (SearchResultDone Result)) sc)"

text \<open>\<^verbatim>\<open>SearchResult\<close> holds one alternative, or nil in its zero value.\<close>

datatype search_result_value =
  Search_Entry search_entry
| Search_Reference search_reference
| Search_Done search_done

type_synonym search_result = "search_result_value option"

definition searchChoice :: "(bytes \<Rightarrow> bytes) \<Rightarrow> ident \<Rightarrow> scope \<Rightarrow> search_result \<times> scope" where
  "searchChoice uni tag sc =
     (if tag = searchEntryIdentifier
      then let (v, sc) = Read \<lparr>se_ObjectName = [], se_Attributes = None, se_Extensions = []\<rparr>
                           (SearchResultEntry_UnmarshalBER uni) sc
           in (Some (Search_Entry v), sc)
      else if tag = searchReferenceIdentifier
      then let (v, sc) = Read \<lparr>sr_URIs = [], sr_Extensions = []\<rparr> SearchResultReference_UnmarshalBER sc
           in (Some (Search_Reference v), sc)
      else if tag = searchDoneIdentifier
      then let (v, sc) = Read (SearchResultDone zero_result) SearchResultDone_UnmarshalBER sc
           in (Some (Search_Done v), sc)
      else (None, Fail (Some (Errorf ''arden: unexpected SearchResult identifier %s'' [AId tag])) sc))"

definition SearchResult_UnmarshalBER :: "(bytes \<Rightarrow> bytes) \<Rightarrow> search_result unmarshaler" where
  "SearchResult_UnmarshalBER uni = decode_with (\<lambda>sc.
     let (tag, sc) = PeekIdentifier sc;
         (decoded, sc) = searchChoice uni tag sc
     in checked (Inr decoded) sc)"

definition searchResponsePattern :: "(bytes \<Rightarrow> bytes) \<Rightarrow> search_result response_pattern" where
  "searchResponsePattern uni = the (mustResponsePattern (SearchResult_UnmarshalBER uni)
     \<lparr>rs_Continue = [searchEntryIdentifier, searchReferenceIdentifier], rs_Complete = [searchDoneIdentifier],
      rs_NoResponse = False\<rparr>)"

definition NewSearchOperation ::
    "(bytes \<Rightarrow> bytes) \<Rightarrow> search_request option \<Rightarrow> packet option list \<Rightarrow> goerror + search_result operation" where
  "NewSearchOperation uni request controls =
     newOperation ''SearchRequest''
       (map_option (\<lambda>v. \<lparr>po_packet = SearchRequest_BERPacket v, po_identifier = searchRequestIdentifier\<rparr>) request)
       controls (searchResponsePattern uni) CancelAbandon ''ldap.search''"

section \<open>Round trips\<close>

definition selectors_ok :: "attribute_selectors \<Rightarrow> bool" where
  "selectors_ok v \<longleftrightarrow> v = NewAttributeSelectors (as_values v) \<and> list_all utf8_Valid (as_values v)
     \<and> packet_ok (Envelope_Add (map AttributeSelector_BERPacket (as_values v)) ber_Sequence)"

lemma selectors_octets:
  assumes "selectors_ok v"
  shows "packet_octets (AttributeSelectors_BERPacket v)
    = packet_octets (Packet SequenceIdentifier [] (map ber_OctetString (as_values v)) False False)"
proof -
  let ?p = "Packet SequenceIdentifier [] (map ber_OctetString (as_values v)) False False"
  have a: "AttributeSelector_BERPacket = ber_OctetString" by (intro ext) (simp add: text_defs)
  have p: "packet_octets ?p \<noteq> []" by (simp add: packet_octets_eq tlv_def length_octets_def)
  have "Encode ?p = packet_octets ?p" using assms by (intro Encode_eq) (simp add: selectors_ok_def a)
  moreover have "as_encoded v = (if as_values v = [] then [] else Encode ?p)"
    using arg_cong [OF conjunct1 [OF assms [unfolded selectors_ok_def]], of as_encoded]
    by (simp add: NewAttributeSelectors_def a split: if_splits)
  ultimately show ?thesis
    using p by (auto simp: AttributeSelectors_BERPacket_def ber_Encoded_def packet_octets_eq [of "Packet _ _ _ True _"]
        split: if_splits)
qed

interpretation ldap_selectors: codec AttributeSelectors_BERPacket AttributeSelectors_UnmarshalBER selectors_ok
proof unfold_locales
  fix a :: attribute_selectors and r n p ps
  let ?q = "Packet SequenceIdentifier [] (map ber_OctetString (as_values a)) False False"
  have q: "single ?q" by (simp add: single_Constructed)
  then show "selectors_ok a \<Longrightarrow> single (AttributeSelectors_BERPacket a)"
    by (simp add: single_def selectors_octets)
  assume a: "selectors_ok a" and h: "holds r n (p # ps)" and "same_octets p (AttributeSelectors_BERPacket a)"
  then have s: "same_octets p ?q" by (simp add: same_octets_def selectors_octets)
  have v: "list_all utf8_Valid (as_values a)" "NewAttributeSelectors (as_values a) = a"
    using a by (auto simp: selectors_ok_def)
  have sv: "list_all single (map ber_OctetString (as_values a))" by (simp add: list_all_iff)
  show "AttributeSelectors_UnmarshalBER r n = (Inr a, past p r, n + nodes p)"
    unfolding AttributeSelectors_UnmarshalBER_def text_defs All_values_def
    by (rule decode_in_accepts [OF h s _ _ sv]; (simp; fail)?;
        erule ldap_text.accepts_all; (rule v)?; erule accepts_ended, simp add: v)
qed

text \<open>The time limits a request can carry: whole seconds within the bounds of \<^verbatim>\<open>decodeSearchTimeLimit\<close>.\<close>

definition time_ok :: "int \<Rightarrow> bool" where
  "time_ok t \<longleftrightarrow> (\<exists>s. t = s * 1000000000 \<and> - 9223372036 \<le> s \<and> s \<le> 2147483647)"

lemma go_quot_mult: "0 < b \<Longrightarrow> go_quot (s * b) b = s"
  by (simp add: go_quot_def abs_mult sgn_mult mult_sgn_abs)

lemma minSeconds: "go_quot (- (2 ^ 63)) time_Second = - 9223372036"
  by (simp add: go_quot_def time_Second_def)

lemma int64_mul_exact: "- (2 ^ 63) \<le> a * b \<Longrightarrow> a * b < 2 ^ 63 \<Longrightarrow> int64_mul a b = a * b"
  by (simp add: int64_mul_def signed_take_bit_int_eq_self)

interpretation ldap_time: codec "\<lambda>t. ber_Integer (go_quot t time_Second)" decodeSearchTimeLimit time_ok
proof unfold_locales
  fix a r n p ps
  show "single (ber_Integer (go_quot a time_Second))" by simp
  assume "time_ok a" and h: "holds r n (p # ps)" and sm: "same_octets p (ber_Integer (go_quot a time_Second))"
  then obtain s where s: "a = s * 1000000000" "- 9223372036 \<le> s" "s \<le> 2147483647" by (auto simp: time_ok_def)
  then have q: "go_quot a time_Second = s" by (simp add: time_Second_def go_quot_mult)
  have "IntegerAs Int64 IntegerIdentifier (scope_at r None [] n) = (s, scope_at (past p r) None [] (n + nodes p))"
    using h sm s q by (intro IntegerAs_value) (auto simp: ber_Integer_def int_range_def inttype_defs inttype_ok_def)
  then show "decodeSearchTimeLimit r n = (Inr a, past p r, n + nodes p)"
    unfolding decodeSearchTimeLimit_def Integer_def minSeconds
    by (intro decode_with_at) (use s in \<open>simp add: time_Second_def int64_mul_exact\<close>)
qed

definition search_request_ok :: "search_request \<Rightarrow> bool" where
  "search_request_ok v \<longleftrightarrow> utf8_Valid (sq_BaseObject v) \<and> int_range Int64 (sq_Scope v)
     \<and> 0 \<le> sq_DerefAliases v \<and> sq_DerefAliases v \<le> 3 \<and> 0 \<le> sq_SizeLimit v \<and> sq_SizeLimit v \<le> 2147483647
     \<and> time_ok (sq_TimeLimit v) \<and> filter_ok (sq_Filter v) \<and> selectors_ok (sq_Attributes v)
     \<and> unknowns_ok [] (sq_Extensions v)"

lemma search_request_packet:
  "SearchRequest_BERPacket v = Packet (applicationConstructed 3) []
     (ber_OctetString (sq_BaseObject v) # integerPacket EnumeratedIdentifier (sq_Scope v)
       # integerPacket EnumeratedIdentifier (sq_DerefAliases v) # integerPacket IntegerIdentifier (sq_SizeLimit v)
       # ber_Integer (go_quot (sq_TimeLimit v) time_Second) # ber_Boolean (sq_TypesOnly v)
       # Filter_BERPacket (sq_Filter v) # AttributeSelectors_BERPacket (sq_Attributes v)
       # map UnknownField_BERPacket (sq_Extensions v)) False False"
  by (simp add: SearchRequest_BERPacket_def search_tags ber_Enumerated_def ber_Integer_def Let_def)

interpretation ldap_search_request: codec SearchRequest_BERPacket SearchRequest_UnmarshalBER search_request_ok
proof unfold_locales
  fix a :: search_request and r n p ps
  show "search_request_ok a \<Longrightarrow> single (SearchRequest_BERPacket a)"
    by (simp add: search_request_packet single_Constructed)
  assume a: "search_request_ok a" and h: "holds r n (p # ps)" and s: "same_octets p (SearchRequest_BERPacket a)"
  note ok = a [unfolded search_request_ok_def] and fs = a [unfolded search_request_ok_def unknowns_ok_def]
  have ranges: "int_range Int64 (sq_DerefAliases a)" "int_range Uint32 (sq_SizeLimit a)"
    using ok by (simp_all add: int_range_def inttype_defs)
  have valid: "validateDerefAliases (sq_DerefAliases a) = None"
    using ok by (simp add: validateDerefAliases_def DerefNever_def DerefAlways_def)
  have sz: "\<not> 2147483647 < sq_SizeLimit a" using ok by simp
  show "SearchRequest_UnmarshalBER r n = (Inr a, past p r, n + nodes p)"
    unfolding SearchRequest_UnmarshalBER_def text_defs search_tags Integer_def Enumerated_def
    by (rule decode_in_accepts [OF h s [unfolded search_request_packet]];
        (simp add: fs ldap_filter.encodes_single ldap_selectors.encodes_single integerPacket_def; fail)?;
        (erule scope_rules ldap_time.accepts_using ldap_filter.accepts_using ldap_selectors.accepts_read;
         (simp add: ok ranges valid sz; fail)?)+)
qed

definition search_entry_ok :: "(bytes \<Rightarrow> bytes) \<Rightarrow> search_entry \<Rightarrow> bool" where
  "search_entry_ok uni v \<longleftrightarrow> utf8_Valid (se_ObjectName v) \<and> attributes_ok uni (se_Attributes v) \<and> unknowns_ok [] (se_Extensions v)"

lemma search_entry_packet:
  "SearchResultEntry_BERPacket v = Packet (applicationConstructed 4) []
     (ber_OctetString (se_ObjectName v) # Attributes_BERPacket (se_Attributes v) # map UnknownField_BERPacket (se_Extensions v))
     False False"
  by (simp add: SearchResultEntry_BERPacket_def search_tags)

interpretation ldap_search_entry: codec SearchResultEntry_BERPacket "SearchResultEntry_UnmarshalBER uni" "search_entry_ok uni" for uni
proof unfold_locales
  fix a :: search_entry and r n p ps
  show "search_entry_ok uni a \<Longrightarrow> single (SearchResultEntry_BERPacket a)"
    by (simp add: search_entry_packet single_Constructed)
  assume a: "search_entry_ok uni a" and h: "holds r n (p # ps)" and s: "same_octets p (SearchResultEntry_BERPacket a)"
  note ok = a [unfolded search_entry_ok_def] and fs = a [unfolded search_entry_ok_def unknowns_ok_def]
  show "SearchResultEntry_UnmarshalBER uni r n = (Inr a, past p r, n + nodes p)"
    unfolding SearchResultEntry_UnmarshalBER_def text_defs search_tags
    by (rule decode_in_accepts [OF h s [unfolded search_entry_packet]];
        (simp add: fs ldap_attributes.encodes_single [of uni]; fail)?;
        (erule scope_rules ldap_attributes.accepts_read; (simp add: ok; fail)?)+)
qed

definition search_reference_ok :: "search_reference \<Rightarrow> bool" where
  "search_reference_ok v \<longleftrightarrow> sr_URIs v \<noteq> [] \<and> list_all utf8_Valid (sr_URIs v) \<and> unknowns_ok [OctetStringIdentifier] (sr_Extensions v)"

lemma search_reference_packet:
  "SearchResultReference_BERPacket v = Packet (applicationConstructed 19) []
     (map ber_OctetString (sr_URIs v) @ map UnknownField_BERPacket (sr_Extensions v)) False False"
  by (simp add: SearchResultReference_BERPacket_def search_tags text_defs)

interpretation ldap_search_reference:
  codec SearchResultReference_BERPacket SearchResultReference_UnmarshalBER search_reference_ok
proof unfold_locales
  fix a :: search_reference and r n p ps
  show "search_reference_ok a \<Longrightarrow> single (SearchResultReference_BERPacket a)"
    by (simp add: search_reference_packet single_Constructed)
  assume a: "search_reference_ok a" and h: "holds r n (p # ps)" and s: "same_octets p (SearchResultReference_BERPacket a)"
  note ok = a [unfolded search_reference_ok_def] and fs = a [unfolded search_reference_ok_def unknowns_ok_def]
  have nx: "not_next OctetStringIdentifier (map UnknownField_BERPacket (sr_Extensions a))"
    using ok unknowns_not_next [of "[OctetStringIdentifier]"] by auto
  have sv: "list_all single (map ber_OctetString (sr_URIs a))" by (simp add: list_all_iff)
  show "SearchResultReference_UnmarshalBER r n = (Inr a, past p r, n + nodes p)"
    unfolding SearchResultReference_UnmarshalBER_def text_defs search_tags
    by (rule decode_in_accepts [OF h s [unfolded search_reference_packet]];
        (simp add: fs sv; fail)?;
        (erule ldap_text.accepts_readWhile accepts_unknown_fields accepts_ended; (simp add: ok nx; fail)?)+)
qed

interpretation ldap_search_done: codec SearchResultDone_BERPacket SearchResultDone_UnmarshalBER "\<lambda>v. response_ok (done_Result v)"
  by (rule response_wrapper [where f = SearchResultDone and t = "applicationConstructed 5"])
    (simp_all add: SearchResultDone_BERPacket_def SearchResultDone_UnmarshalBER_def search_tags)

text \<open>The CHOICE of the three, as the packets a server sends.\<close>

definition SearchResult_packet :: "search_result \<Rightarrow> packet" where
  "SearchResult_packet v =
     (case v of
        Some (Search_Entry e) \<Rightarrow> SearchResultEntry_BERPacket e
      | Some (Search_Reference e) \<Rightarrow> SearchResultReference_BERPacket e
      | Some (Search_Done e) \<Rightarrow> SearchResultDone_BERPacket e
      | None \<Rightarrow> ber_Null)"

definition search_result_ok :: "(bytes \<Rightarrow> bytes) \<Rightarrow> search_result \<Rightarrow> bool" where
  "search_result_ok uni v \<longleftrightarrow>
     (case v of
        Some (Search_Entry e) \<Rightarrow> search_entry_ok uni e
      | Some (Search_Reference e) \<Rightarrow> search_reference_ok e
      | Some (Search_Done e) \<Rightarrow> response_ok (done_Result e)
      | None \<Rightarrow> False)"

definition search_tag :: "search_result \<Rightarrow> ident" where
  "search_tag v =
     (case v of
        Some (Search_Entry _) \<Rightarrow> searchEntryIdentifier
      | Some (Search_Reference _) \<Rightarrow> searchReferenceIdentifier
      | _ \<Rightarrow> searchDoneIdentifier)"

interpretation ldap_search_result: codec SearchResult_packet "SearchResult_UnmarshalBER uni" "search_result_ok uni" for uni
proof unfold_locales
  fix a :: search_result and r n p ps
  have t: "tagged (SearchResult_packet a) (search_tag a)" if "search_result_ok uni a"
    using that by (auto simp: search_result_ok_def SearchResult_packet_def search_tag_def search_entry_packet
      search_reference_packet SearchResultDone_BERPacket_def response_packet search_tags
      split: option.splits search_result_value.splits)
  then show "search_result_ok uni a \<Longrightarrow> single (SearchResult_packet a)" by (auto simp: tagged_def single_def)
  assume a: "search_result_ok uni a" and h: "holds r n (p # ps)" and s: "same_octets p (SearchResult_packet a)"
  then obtain v where v: "a = Some v" by (cases a) (auto simp: search_result_ok_def)
  have "searchChoice uni (search_tag a) (scope_at r None [] n) = (a, scope_at (past p r) None [] (n + nodes p))"
  proof (cases v)
    case (Search_Entry e)
    with ldap_search_entry.read_value [OF _ h _ finished_None, of uni e _ "[]"] a s v show ?thesis
      by (simp add: searchChoice_def search_tag_def SearchResult_packet_def search_result_ok_def)
  next
    case (Search_Reference e)
    with ldap_search_reference.read_value [OF _ h _ finished_None, of e _ "[]"] a s v show ?thesis
      by (simp add: searchChoice_def search_tag_def SearchResult_packet_def search_result_ok_def search_tags)
  next
    case (Search_Done e)
    with ldap_search_done.read_value [OF _ h _ finished_None, of e _ "[]"] a s v show ?thesis
      by (simp add: searchChoice_def search_tag_def SearchResult_packet_def search_result_ok_def search_tags)
  qed
  then show "SearchResult_UnmarshalBER uni r n = (Inr a, past p r, n + nodes p)"
    unfolding SearchResult_UnmarshalBER_def
    by (rule choice_value [where choice = "searchChoice uni", OF h s t [OF a]])
qed

section \<open>Properties\<close>

text \<open>(C21) Search requests survive the wire: base, scope, dereferencing, limits, filter, selection and extensions of a
  request are decoded from its encoding as they were, if the limits admit the encoding.\<close>

theorem search_request_roundtrip:
  assumes "search_request_ok v" "packet_ok (SearchRequest_BERPacket v)" "admits lim (Encode (SearchRequest_BERPacket v))"
    and "re_Protocol r = Encode (SearchRequest_BERPacket v)"
  shows "UnmarshalProtocol SearchRequest_UnmarshalBER r lim = Inr v"
  using assms by (rule ldap_search_request.roundtrip)

definition sample_search :: search_request where
  "sample_search = \<lparr>sq_BaseObject = [], sq_Scope = 2, sq_DerefAliases = 0, sq_SizeLimit = 1, sq_TimeLimit = 5000000000,
     sq_TypesOnly = False, sq_Filter = Present [0x63], sq_Attributes = \<lparr>as_values = [], as_encoded = []\<rparr>, sq_Extensions = []\<rparr>"

theorem search_request_roundtrip_witness:
  "UnmarshalProtocol SearchRequest_UnmarshalBER
     \<lparr>re_MessageID = 0, re_ProtocolID = zero_identifier, re_Bytes = [], re_Protocol = Encode (SearchRequest_BERPacket sample_search),
      re_Controls = [], re_Extensions = []\<rparr> DefaultLimits = Inr sample_search"
proof -
  have e: "Encode (SearchRequest_BERPacket sample_search)
      = [0x63, 22, 4, 0, 10, 1, 2, 10, 1, 0, 2, 1, 1, 2, 1, 5, 1, 1, 0, 0x87, 1, 0x63, 0x30, 0]" by code_simp
  have a: "admits DefaultLimits [0x63, 22, 4, 0, 10, 1, 2, 10, 1, 0, 2, 1, 1, 2, 1, 5, 1, 1, 0, 0x87, 1, 0x63, 0x30, 0]"
    unfolding admits_def by (intro conjI; (simp add: DefaultLimits_def; fail)?; code_simp)
  have i: "integerBytes 0 = [0]" "integerBytes 1 = [1]" "integerBytes 2 = [2]" "integerBytes 5 = [5]" by code_simp+
  have q: "go_quot 5000000000 time_Second = 5" by (simp add: go_quot_def time_Second_def)
  have k: "packet_ok (SearchRequest_BERPacket sample_search)"
    by (simp add: search_request_packet sample_search_def q ber_Integer_def filter_tags AttributeSelectors_BERPacket_def
        packet_ok_eval tag_defs i)
  have t: "time_ok 5000000000" unfolding time_ok_def by (intro exI [of _ 5]) simp
  have v: "search_request_ok sample_search"
    using t by (simp add: search_request_ok_def sample_search_def int_range_def inttype_defs selectors_ok_def
        NewAttributeSelectors_def unknowns_ok_def packet_ok_eval)
  show ?thesis by (rule search_request_roundtrip [OF v k]) (simp_all add: e a)
qed

text \<open>The time limit of a decoded search request never overflows: \<^verbatim>\<open>decodeSearchTimeLimit\<close> returns the whole number
  of seconds it read, in nanoseconds, computed without wrap-around, and within the range of \<^verbatim>\<open>time.Duration\<close>.\<close>

theorem time_limit_exact:
  assumes "decodeSearchTimeLimit r n = (Inr t, r', n')"
  shows "\<exists>seconds. t = seconds * 1000000000 \<and> seconds \<le> 2147483647
    \<and> - 9223372036854775808 \<le> t \<and> t \<le> 9223372036854775807
    \<and> fst (Reader_Integer r n) = Inr seconds"
proof -
  let ?sc = "scope_at r None [] n"
  obtain out r1 n1 where ri: "Reader_Integer r n = (out, r1, n1)" by (metis surj_pair)
  have sc: "\<lparr>sc_decoder = NewDecoder r, sc_err = None, sc_elements = n\<rparr> = ?sc" by (simp add: scope_at_def NewDecoder_def)
  have u: "Integer Int64 ?sc = Using 0 Reader_Integer ?sc" by (simp add: Integer_def IntegerAs_def Reader_Integer_def)
  show ?thesis
  proof (cases out)
    case (Inl err)
    then have "\<exists>e. sc_err (snd (Integer Int64 ?sc)) = Some e"
      unfolding u using ri by (simp add: Using_def Fail_def)
    then obtain v sc1 e where i: "Integer Int64 ?sc = (v, sc1)" "sc_err sc1 = Some e" by (metis prod.collapse)
    from assms have False
      by (simp add: decodeSearchTimeLimit_def decode_with_def sc i(1) checked_def op_failed(1) [OF i(2)])
    then show ?thesis ..
  next
    case (Inr seconds)
    then have "Integer Int64 ?sc = (seconds, scope_at r1 None [] n1)" unfolding u using ri by (simp add: Using_at)
    with assms have c: "seconds \<le> 2147483647" "- 9223372036 \<le> seconds" "t = int64_mul seconds time_Second"
      using minSeconds by (auto simp: decodeSearchTimeLimit_def decode_with_def sc split: if_splits)
    then have "t = seconds * 1000000000" by (simp add: time_Second_def int64_mul_exact)
    with c ri Inr show ?thesis by (intro exI [of _ seconds]) simp
  qed
qed

theorem time_limit_exact_witness:
  "fst (decodeSearchTimeLimit \<lparr>r_data = [2, 1, 5], r_pos = 0, r_base = 0, r_depth = 0, r_limits = DefaultLimits\<rparr> 0)
     = Inr 5000000000"
proof -
  let ?r = "\<lparr>r_data = [2, 1, 5], r_pos = 0, r_base = 0, r_depth = 0, r_limits = DefaultLimits\<rparr>"
  have i: "fst (Reader_Integer ?r 0) = Inr 5" by code_simp
  have "\<exists>t. fst (decodeSearchTimeLimit ?r 0) = Inr t" by (rule exI [of _ 5000000000]) code_simp
  then obtain t r' n' where d: "decodeSearchTimeLimit ?r 0 = (Inr t, r', n')" by (metis prod.collapse)
  from time_limit_exact [OF d] i show ?thesis by (auto simp: d)
qed


lemma search_spec_ok: "spec_ok \<lparr>rs_Continue = [searchEntryIdentifier, searchReferenceIdentifier], rs_Complete = [searchDoneIdentifier],
      rs_NoResponse = False\<rparr>"
  by (simp add: spec_ok_def search_tags) (simp add: tag_defs)

text \<open>The stream of a search: its pattern takes entries and references as continuing and the result as terminal,
  and decodes each of the three from the encoding the package gives it.\<close>

theorem search_result_decodes:
  assumes "search_result_ok uni v" "packet_ok (SearchResult_packet v)" "admits lim (Encode (SearchResult_packet v))"
    and "re_Protocol r = Encode (SearchResult_packet v)" "re_ProtocolID r = search_tag v"
  shows "ResponsePattern_Decode (searchResponsePattern uni) r lim = Inr v
    \<and> FramingPattern_Classify (rp_framing (searchResponsePattern uni)) (re_ProtocolID r)
        = (case v of Some (Search_Done _) \<Rightarrow> ClassificationComplete | _ \<Rightarrow> ClassificationContinue)"
proof -
  note must = conjunct2 [OF mustResponsePattern_ok [OF search_spec_ok], of "SearchResult_UnmarshalBER uni"]
  have t: "search_tag v \<in> {searchEntryIdentifier, searchReferenceIdentifier, searchDoneIdentifier}"
    by (auto simp: search_tag_def split: option.splits search_result_value.splits)
  have "ResponsePattern_Decode (searchResponsePattern uni) r lim = Inr v"
    using ldap_search_result.pattern_roundtrip [OF must _ assms(1-4)] assms(5) t by (auto simp: searchResponsePattern_def)
  moreover have "rp_framing (searchResponsePattern uni) = \<lparr>fp_continueIDs = [searchEntryIdentifier, searchReferenceIdentifier],
      fp_completeIDs = [searchDoneIdentifier], fp_noResponse = False, fp_valid = True\<rparr>"
    by (simp add: searchResponsePattern_def mustResponsePattern_def NewResponsePattern_def newFramingPattern_ok [OF search_spec_ok])
  moreover have "v \<noteq> None" using assms(1) by (cases v) (simp_all add: search_result_ok_def)
  ultimately show ?thesis
    using assms(5) by (auto simp: FramingPattern_Classify_def search_tag_def search_tags split: option.splits search_result_value.splits)
qed

theorem search_result_decodes_witness:
  "\<exists>r. ResponsePattern_Decode (searchResponsePattern id) r DefaultLimits
     = Inr (Some (Search_Reference \<lparr>sr_URIs = [[0x75]], sr_Extensions = []\<rparr>))"
proof -
  let ?v = "Some (Search_Reference \<lparr>sr_URIs = [[0x75]], sr_Extensions = []\<rparr>)"
  let ?r = "\<lparr>re_MessageID = 1, re_ProtocolID = search_tag ?v, re_Bytes = [], re_Protocol = Encode (SearchResult_packet ?v),
      re_Controls = [], re_Extensions = []\<rparr>"
  have e: "Encode (SearchResult_packet ?v) = [0x73, 3, 4, 1, 0x75]" by code_simp
  have a: "admits DefaultLimits [0x73, 3, 4, 1, 0x75]"
    unfolding admits_def by (intro conjI; (simp add: DefaultLimits_def; fail)?; code_simp)
  have k: "packet_ok (SearchResult_packet ?v)"
    by (simp add: SearchResult_packet_def search_reference_packet packet_ok_eval tag_defs)
  have v: "search_result_ok id ?v" by (simp add: search_result_ok_def search_reference_ok_def unknowns_ok_def)
  have "ResponsePattern_Decode (searchResponsePattern id) ?r DefaultLimits = Inr ?v"
    using search_result_decodes [OF v k, of DefaultLimits ?r] by (simp add: e a)
  then show ?thesis by blast
qed

end
