(* ===== verification/Ldap_Bind.thy ===== *)
theory Ldap_Bind
  imports Ldap_Update
begin

text \<open>
  Bind and unbind (\<^verbatim>\<open>src/rfc4511/bind.go\<close>).  \<^verbatim>\<open>AuthenticationChoice\<close> is an open interface; the datatype has the
  alternatives of the package.
\<close>

section \<open>Authentication\<close>

definition bindRequestIdentifier :: ident where "bindRequestIdentifier = applicationConstructed 0"
definition bindResponseIdentifier :: ident where "bindResponseIdentifier = applicationConstructed 1"
definition unbindRequestIdentifier :: ident where "unbindRequestIdentifier = applicationPrimitive 2"
definition simpleAuthenticationIdentifier :: ident where "simpleAuthenticationIdentifier = contextPrimitive 0"
definition saslAuthenticationIdentifier :: ident where "saslAuthenticationIdentifier = contextConstructed 3"
definition serverSASLCredentialsIdentifier :: ident where "serverSASLCredentialsIdentifier = contextPrimitive 7"

lemmas bind_tags = bindRequestIdentifier_def bindResponseIdentifier_def unbindRequestIdentifier_def
  simpleAuthenticationIdentifier_def saslAuthenticationIdentifier_def serverSASLCredentialsIdentifier_def

record sasl_authentication =
  sa_Mechanism :: bytes
  sa_Credentials :: bytes
  sa_HasCredentials :: bool
  sa_Extensions :: "unknown_field list"

datatype authentication =
  SimpleAuthentication bytes
| SASLAuthentication sasl_authentication
| UnknownAuthentication unknown_field

definition AuthenticationIdentifier :: "authentication \<Rightarrow> ident" where
  "AuthenticationIdentifier a =
     (case a of
        SimpleAuthentication _ \<Rightarrow> simpleAuthenticationIdentifier
      | SASLAuthentication _ \<Rightarrow> saslAuthenticationIdentifier
      | UnknownAuthentication u \<Rightarrow> uf_identifier u)"

definition SimpleAuthentication_BERPacket :: "bytes \<Rightarrow> packet" where
  "SimpleAuthentication_BERPacket v = ber_Primitive simpleAuthenticationIdentifier v"

definition SimpleAuthentication_UnmarshalBER :: "bytes unmarshaler" where
  "SimpleAuthentication_UnmarshalBER = decode_with (\<lambda>sc.
     let (v, sc) = Primitive simpleAuthenticationIdentifier sc in checked (Inr v) sc)"

definition SASLAuthentication_BERPacket :: "sasl_authentication \<Rightarrow> packet" where
  "SASLAuthentication_BERPacket v =
     (let env = Envelope_Add [ber_OctetString (sa_Mechanism v)] (ber_Constructed saslAuthenticationIdentifier);
          env = (if sa_HasCredentials v then Envelope_Add [ber_OctetString (sa_Credentials v)] env else env)
      in Envelope_Add (map UnknownField_BERPacket (sa_Extensions v)) env)"

definition SASLAuthentication_UnmarshalBER :: "sasl_authentication unmarshaler" where
  "SASLAuthentication_UnmarshalBER = decode_in saslAuthenticationIdentifier (\<lambda>sc.
     let (Mechanism, sc) = Read [] LDAPString_UnmarshalBER sc;
         (Credentials, sc) = optional OctetStringIdentifier None (some OctetString) sc;
         (Exts, sc) = UnknownFields [OctetStringIdentifier] sc
     in ended (case requireNonEmpty ''SASL mechanism'' Mechanism of
                 Some e \<Rightarrow> Inl e
               | None \<Rightarrow> Inr \<lparr>sa_Mechanism = Mechanism,
                   sa_Credentials = (case Credentials of None \<Rightarrow> [] | Some v \<Rightarrow> v),
                   sa_HasCredentials = (Credentials \<noteq> None), sa_Extensions = Exts\<rparr>) sc)"

definition zero_sasl :: sasl_authentication where
  "zero_sasl = \<lparr>sa_Mechanism = [], sa_Credentials = [], sa_HasCredentials = False, sa_Extensions = []\<rparr>"

definition Authentication_BERPacket :: "authentication \<Rightarrow> packet" where
  "Authentication_BERPacket a =
     (case a of
        SimpleAuthentication v \<Rightarrow> SimpleAuthentication_BERPacket v
      | SASLAuthentication v \<Rightarrow> SASLAuthentication_BERPacket v
      | UnknownAuthentication u \<Rightarrow> ber_Encoded (uf_raw u))"

text \<open>The \<^verbatim>\<open>switch\<close> of \<^verbatim>\<open>decodeAuthentication\<close>.\<close>

definition authenticationChoice :: "ident \<Rightarrow> scope \<Rightarrow> authentication \<times> scope" where
  "authenticationChoice tag sc =
     (if tag = simpleAuthenticationIdentifier
      then let (v, sc) = Read [] SimpleAuthentication_UnmarshalBER sc in (SimpleAuthentication v, sc)
      else if tag = saslAuthenticationIdentifier
      then let (v, sc) = Read zero_sasl SASLAuthentication_UnmarshalBER sc in (SASLAuthentication v, sc)
      else let sc = (if id_class tag \<noteq> ClassContextSpecific
                     then Fail (Some (Errorf ''arden: authentication identifier %s is not context-specific'' [AId tag])) sc
                     else sc);
               (field, sc) = Read zero_unknown UnknownField_UnmarshalBER sc
           in (UnknownAuthentication field, sc))"

definition decodeAuthentication :: "authentication unmarshaler" where
  "decodeAuthentication = decode_with (\<lambda>sc.
     let (tag, sc) = PeekIdentifier sc;
         (decoded, sc) = authenticationChoice tag sc
     in checked (Inr decoded) sc)"

section \<open>Bind\<close>

record bind_request =
  br_Version :: int
  br_Name :: bytes
  br_Authentication :: authentication
  br_Extensions :: "unknown_field list"

definition BindRequest_BERPacket :: "bind_request \<Rightarrow> packet" where
  "BindRequest_BERPacket v =
     Envelope_Add (map UnknownField_BERPacket (br_Extensions v))
       (Envelope_Add [Authentication_BERPacket (br_Authentication v)]
         (Envelope_Add [ber_Integer (br_Version v), ber_OctetString (br_Name v)] (ber_Constructed bindRequestIdentifier)))"

definition BindRequest_UnmarshalBER :: "bind_request unmarshaler" where
  "BindRequest_UnmarshalBER = decode_in bindRequestIdentifier (\<lambda>sc.
     let (Version, sc) = Integer Int64 sc;
         (Name, sc) = Read [] LDAPDN_UnmarshalBER sc;
         (Authentication, sc) = Using (SimpleAuthentication []) decodeAuthentication sc;
         (Exts, sc) = UnknownFields [] sc
     in ended (if Version < 1 \<or> 127 < Version
               then Inl (Errorf ''arden: BindRequest version %d is outside [1, 127]'' [AInt Version])
               else Inr \<lparr>br_Version = Version, br_Name = Name, br_Authentication = Authentication,
                         br_Extensions = Exts\<rparr>) sc)"

record bind_response =
  bs_Result :: ldap_result
  bs_ServerSASLCredentials :: bytes
  bs_HasServerSASLCredentials :: bool
  bs_Extensions :: "unknown_field list"

definition BindResponse_BERPacket :: "bind_response \<Rightarrow> packet" where
  "BindResponse_BERPacket v =
     (let env = LDAPResult_addPrefix (bs_Result v) (ber_Constructed bindResponseIdentifier);
          env = (if bs_HasServerSASLCredentials v
                 then Envelope_Add [implicitOctetsPacket serverSASLCredentialsIdentifier (bs_ServerSASLCredentials v)] env
                 else env)
      in Envelope_Add (map UnknownField_BERPacket (bs_Extensions v)) env)"

definition BindResponse_UnmarshalBER :: "bind_response unmarshaler" where
  "BindResponse_UnmarshalBER = decode_in bindResponseIdentifier (\<lambda>sc.
     let (Result, sc) = Embed zero_result LDAPResult_UnmarshalBERFields sc;
         (Credentials, sc) = optional serverSASLCredentialsIdentifier None
           (some (Primitive serverSASLCredentialsIdentifier)) sc;
         (Exts, sc) = UnknownFields [serverSASLCredentialsIdentifier] sc
     in ended (Inr \<lparr>bs_Result = Result,
                    bs_ServerSASLCredentials = (case Credentials of None \<Rightarrow> [] | Some v \<Rightarrow> v),
                    bs_HasServerSASLCredentials = (Credentials \<noteq> None), bs_Extensions = Exts\<rparr>) sc)"

definition bindResponsePattern :: "bind_response response_pattern" where
  "bindResponsePattern = the (mustResponsePattern BindResponse_UnmarshalBER
     \<lparr>rs_Continue = [], rs_Complete = [bindResponseIdentifier], rs_NoResponse = False\<rparr>)"

definition NewBindOperation :: "bind_request option \<Rightarrow> packet option list \<Rightarrow> goerror + bind_response operation" where
  "NewBindOperation request controls =
     newOperation ''BindRequest''
       (map_option (\<lambda>v. \<lparr>po_packet = BindRequest_BERPacket v, po_identifier = bindRequestIdentifier\<rparr>) request)
       controls bindResponsePattern CancelClose ''ldap.bind''"

section \<open>Unbind\<close>

definition UnbindRequest_BERPacket :: packet where
  "UnbindRequest_BERPacket = ber_Primitive unbindRequestIdentifier []"

definition UnbindRequest_UnmarshalBER :: "unit unmarshaler" where
  "UnbindRequest_UnmarshalBER = decode_with (\<lambda>sc.
     let (_, sc) = NullAs unbindRequestIdentifier sc in checked (Inr ()) sc)"

definition NewUnbindOperation :: "unit option \<Rightarrow> packet option list \<Rightarrow> goerror + unit operation" where
  "NewUnbindOperation request controls =
     newOperation ''UnbindRequest''
       (map_option (\<lambda>_. \<lparr>po_packet = UnbindRequest_BERPacket, po_identifier = unbindRequestIdentifier\<rparr>) request)
       controls NewNoResponsePattern CancelClose ''ldap.unbind''"

section \<open>Round trips\<close>

definition sasl_ok :: "sasl_authentication \<Rightarrow> bool" where
  "sasl_ok v \<longleftrightarrow> sa_Mechanism v \<noteq> [] \<and> utf8_Valid (sa_Mechanism v) \<and> (\<not> sa_HasCredentials v \<longrightarrow> sa_Credentials v = [])
     \<and> unknowns_ok [OctetStringIdentifier] (sa_Extensions v)"

lemma sasl_packet:
  "SASLAuthentication_BERPacket v = Packet (contextConstructed 3) []
     (ber_OctetString (sa_Mechanism v)
        # (if sa_HasCredentials v then [ber_OctetString (sa_Credentials v)] else [])
        @ map UnknownField_BERPacket (sa_Extensions v)) False False"
  by (simp add: SASLAuthentication_BERPacket_def bind_tags Let_def)

interpretation ldap_sasl: codec SASLAuthentication_BERPacket SASLAuthentication_UnmarshalBER sasl_ok
proof unfold_locales
  fix a :: sasl_authentication and r n p ps
  show "sasl_ok a \<Longrightarrow> single (SASLAuthentication_BERPacket a)"
    by (simp add: sasl_packet single_Constructed)
  assume a: "sasl_ok a" and h: "holds r n (p # ps)" and s: "same_octets p (SASLAuthentication_BERPacket a)"
  note ok = a [unfolded sasl_ok_def] and fs = a [unfolded sasl_ok_def unknowns_ok_def]
  have nx: "not_next OctetStringIdentifier (map UnknownField_BERPacket (sa_Extensions a))"
    using ok unknowns_not_next [of "[OctetStringIdentifier]"] by auto
  show "SASLAuthentication_UnmarshalBER r n = (Inr a, past p r, n + nodes p)"
    unfolding SASLAuthentication_UnmarshalBER_def text_defs bind_tags
    by (rule decode_in_accepts [OF h s [unfolded sasl_packet]];
        (simp add: fs; fail)?;
        (erule scope_rules; (simp add: ok nx requireNonEmpty_def; fail)?)+)
qed

interpretation ldap_simple: codec SimpleAuthentication_BERPacket SimpleAuthentication_UnmarshalBER "\<lambda>_. True"
  using octets_codec [of "contextPrimitive 0"]
  by (simp add: codec_def SimpleAuthentication_BERPacket_def SimpleAuthentication_UnmarshalBER_def
      unmarshalLDAPBytes_def bind_tags)

definition authentication_ok :: "authentication \<Rightarrow> bool" where
  "authentication_ok a \<longleftrightarrow>
     (case a of
        SimpleAuthentication _ \<Rightarrow> True
      | SASLAuthentication v \<Rightarrow> sasl_ok v
      | UnknownAuthentication u \<Rightarrow> unknown_ok u \<and> id_class (uf_identifier u) = ClassContextSpecific
          \<and> uf_identifier u \<noteq> contextPrimitive 0 \<and> uf_identifier u \<noteq> contextConstructed 3)"

interpretation ldap_authentication: codec Authentication_BERPacket decodeAuthentication authentication_ok
proof unfold_locales
  fix a :: authentication and r n p ps
  have pu: "ber_Encoded (uf_raw u) = UnknownField_BERPacket u" for u by (simp add: UnknownField_BERPacket_def)
  have t: "tagged (Authentication_BERPacket a) (AuthenticationIdentifier a)" if "authentication_ok a"
    using that by (cases a) (simp_all add: authentication_ok_def Authentication_BERPacket_def AuthenticationIdentifier_def
      SimpleAuthentication_BERPacket_def sasl_packet bind_tags pu tagged_unknown)
  then show "authentication_ok a \<Longrightarrow> single (Authentication_BERPacket a)" by (auto simp: tagged_def single_def)
  assume a: "authentication_ok a" and h: "holds r n (p # ps)" and s: "same_octets p (Authentication_BERPacket a)"
  have "authenticationChoice (AuthenticationIdentifier a) (scope_at r None [] n) = (a, scope_at (past p r) None [] (n + nodes p))"
  proof (cases a)
    case (SimpleAuthentication v)
    with ldap_simple.read_value [OF TrueI h, of v None "[]" "[]"] s show ?thesis
      by (simp add: authenticationChoice_def AuthenticationIdentifier_def Authentication_BERPacket_def)
  next
    case (SASLAuthentication v)
    with ldap_sasl.read_value [OF _ h _ finished_None, of v zero_sasl "[]"] a s show ?thesis
      by (simp add: authenticationChoice_def AuthenticationIdentifier_def Authentication_BERPacket_def
          authentication_ok_def bind_tags)
  next
    case (UnknownAuthentication u)
    with ldap_unknown.read_value [OF _ h _ finished_None, of u zero_unknown "[]"] a s show ?thesis
      by (simp add: authenticationChoice_def AuthenticationIdentifier_def Authentication_BERPacket_def
          authentication_ok_def bind_tags pu)
  qed
  then show "decodeAuthentication r n = (Inr a, past p r, n + nodes p)"
    unfolding decodeAuthentication_def by (rule choice_value [where choice = authenticationChoice, OF h s t [OF a]])
qed

definition bind_request_ok :: "bind_request \<Rightarrow> bool" where
  "bind_request_ok v \<longleftrightarrow> 1 \<le> br_Version v \<and> br_Version v \<le> 127 \<and> utf8_Valid (br_Name v)
     \<and> authentication_ok (br_Authentication v) \<and> unknowns_ok [] (br_Extensions v)"

lemma bind_request_packet:
  "BindRequest_BERPacket v = Packet (applicationConstructed 0) []
     (integerPacket IntegerIdentifier (br_Version v) # ber_OctetString (br_Name v)
       # Authentication_BERPacket (br_Authentication v) # map UnknownField_BERPacket (br_Extensions v)) False False"
  by (simp add: BindRequest_BERPacket_def bind_tags ber_Integer_def)

interpretation ldap_bind_request: codec BindRequest_BERPacket BindRequest_UnmarshalBER bind_request_ok
proof unfold_locales
  fix a :: bind_request and r n p ps
  show "bind_request_ok a \<Longrightarrow> single (BindRequest_BERPacket a)"
    by (simp add: bind_request_packet single_Constructed)
  assume a: "bind_request_ok a" and h: "holds r n (p # ps)" and s: "same_octets p (BindRequest_BERPacket a)"
  note ok = a [unfolded bind_request_ok_def] and fs = a [unfolded bind_request_ok_def unknowns_ok_def]
  have iv: "int_range Int64 (br_Version a)" using ok by (simp add: int_range_def inttype_defs)
  show "BindRequest_UnmarshalBER r n = (Inr a, past p r, n + nodes p)"
    unfolding BindRequest_UnmarshalBER_def text_defs Integer_def bindRequestIdentifier_def
    by (rule decode_in_accepts [OF h s [unfolded bind_request_packet]];
        (simp add: fs ldap_authentication.encodes_single integerPacket_def; fail)?;
        (erule scope_rules ldap_authentication.accepts_using;
         (use ok iv in simp; fail)?)+)
qed

definition bind_response_ok :: "bind_response \<Rightarrow> bool" where
  "bind_response_ok v \<longleftrightarrow> result_ok (bs_Result v) \<and> lr_Extensions (bs_Result v) = []
     \<and> (\<not> bs_HasServerSASLCredentials v \<longrightarrow> bs_ServerSASLCredentials v = [])
     \<and> unknowns_ok [contextConstructed 3, contextPrimitive 7] (bs_Extensions v)"

lemma bind_response_packet:
  "BindResponse_BERPacket v = Packet (applicationConstructed 1) []
     (result_prefix (bs_Result v)
        @ (if bs_HasServerSASLCredentials v then [ber_Primitive (contextPrimitive 7) (bs_ServerSASLCredentials v)] else [])
        @ map UnknownField_BERPacket (bs_Extensions v)) False False"
  by (simp add: BindResponse_BERPacket_def bind_tags implicitOctetsPacket_def addPrefix_packet Let_def)

interpretation ldap_bind_response: codec BindResponse_BERPacket BindResponse_UnmarshalBER bind_response_ok
proof unfold_locales
  fix a :: bind_response and r n p ps
  show "bind_response_ok a \<Longrightarrow> single (BindResponse_BERPacket a)"
    by (simp add: bind_response_packet single_Constructed)
  assume a: "bind_response_ok a" and h: "holds r n (p # ps)" and s: "same_octets p (BindResponse_BERPacket a)"
  note ok = a [unfolded bind_response_ok_def] and fs = a [unfolded bind_response_ok_def unknowns_ok_def]
  have nx: "not_next (contextConstructed 3) (map UnknownField_BERPacket (bs_Extensions a))"
    "not_next (contextPrimitive 7) (map UnknownField_BERPacket (bs_Extensions a))"
    using ok unknowns_not_next [of "[contextConstructed 3, contextPrimitive 7]"] by auto
  have r0: "bs_Result a\<lparr>lr_Extensions := []\<rparr> = bs_Result a" using ok by (cases "bs_Result a") simp
  show "BindResponse_UnmarshalBER r n = (Inr a, past p r, n + nodes p)"
    unfolding BindResponse_UnmarshalBER_def bind_tags
    by (rule decode_in_accepts [OF h s [unfolded bind_response_packet]];
        (simp add: fs; fail)?;
        (erule scope_rules accepts_embed_result; (simp add: ok nx r0; fail)?)+)
qed

interpretation ldap_unbind_request: codec "\<lambda>_. UnbindRequest_BERPacket" UnbindRequest_UnmarshalBER "\<lambda>_. True"
proof unfold_locales
  fix a :: unit and r n p ps
  show "single UnbindRequest_BERPacket" by (simp add: UnbindRequest_BERPacket_def bind_tags)
  assume "holds r n (p # ps)" "same_octets p UnbindRequest_BERPacket"
  then have "NullAs (applicationPrimitive 2) (scope_at r None [] n) = ((), scope_at (past p r) None [] (n + nodes p))"
    by (intro NullAs_value) (simp_all add: UnbindRequest_BERPacket_def bind_tags)
  then show "UnbindRequest_UnmarshalBER r n = (Inr a, past p r, n + nodes p)"
    unfolding UnbindRequest_UnmarshalBER_def bind_tags by (intro decode_with_at) simp
qed

section \<open>Properties\<close>

text \<open>Bind requests survive the wire, with simple credentials, SASL credentials present, empty or absent, or an
  unknown authentication choice.\<close>

theorem bind_request_roundtrip:
  assumes "bind_request_ok v" "packet_ok (BindRequest_BERPacket v)" "admits lim (Encode (BindRequest_BERPacket v))"
    and "re_Protocol r = Encode (BindRequest_BERPacket v)"
  shows "UnmarshalProtocol BindRequest_UnmarshalBER r lim = Inr v"
  using assms by (rule ldap_bind_request.roundtrip)

definition sample_bind :: bind_request where
  "sample_bind = \<lparr>br_Version = 3, br_Name = [],
     br_Authentication = SASLAuthentication \<lparr>sa_Mechanism = [0x58], sa_Credentials = [], sa_HasCredentials = True, sa_Extensions = []\<rparr>,
     br_Extensions = []\<rparr>"

theorem bind_request_roundtrip_witness:
  "UnmarshalProtocol BindRequest_UnmarshalBER
     \<lparr>re_MessageID = 0, re_ProtocolID = zero_identifier, re_Bytes = [], re_Protocol = Encode (BindRequest_BERPacket sample_bind),
      re_Controls = [], re_Extensions = []\<rparr> DefaultLimits = Inr sample_bind"
proof -
  have e: "Encode (BindRequest_BERPacket sample_bind) = [0x60, 12, 2, 1, 3, 4, 0, 0xA3, 5, 4, 1, 0x58, 4, 0]" by code_simp
  have a: "admits DefaultLimits [0x60, 12, 2, 1, 3, 4, 0, 0xA3, 5, 4, 1, 0x58, 4, 0]"
    unfolding admits_def by (intro conjI; (simp add: DefaultLimits_def; fail)?; code_simp)
  have i: "integerBytes 3 = [3]" by code_simp
  have k: "packet_ok (BindRequest_BERPacket sample_bind)"
    by (simp add: bind_request_packet sample_bind_def Authentication_BERPacket_def sasl_packet packet_ok_eval tag_defs i)
  have v: "bind_request_ok sample_bind"
    by (simp add: bind_request_ok_def sample_bind_def authentication_ok_def sasl_ok_def unknowns_ok_def)
  show ?thesis by (rule bind_request_roundtrip [OF v k]) (simp_all add: e a)
qed

end
