(* ===== verification/Response.thy ===== *)
theory Response
  imports Protocol
begin

text \<open>
  The LDAPMessage envelope of a response (\<^verbatim>\<open>src/response.go\<close>).

  \<^verbatim>\<open>ParseResponse\<close> copies the message and \<^verbatim>\<open>parseOwnedResponse\<close> keeps it; bytes are values here, so the two are one
  function.  The reader of the envelope and the readers inside it share the element count, which is passed on.
\<close>

definition controlsIdentifier :: ident where
  "controlsIdentifier = \<lparr>id_class = ClassContextSpecific, id_constructed = True, id_number = 0\<rparr>"

lemma SkipElement_shorter:
  "SkipElement r n = (Inr e, r', n') \<Longrightarrow> Remaining r' < Remaining r"
  by (auto simp: SkipElement_def split: sum.splits option.splits prod.splits if_splits dest: ReadElement_progress(2))

text \<open>The loop over the controls and the loop over the trailing extensions.\<close>

function controlsLoop :: "element list \<Rightarrow> reader \<Rightarrow> nat \<Rightarrow> goerror + element list \<times> nat" where
  "controlsLoop acc controls n =
     (if Empty controls then Inr (acc, n)
      else case SkipElement controls n of
          (Inl err, _, _) \<Rightarrow> Inl (Wrapf ''arden: LDAPMessage controls: %w'' [] err)
        | (Inr control, controls', n') \<Rightarrow>
            if el_Identifier control \<noteq> SequenceIdentifier
            then Inl (Errorf ''arden: LDAPMessage control identifier %s is not a SEQUENCE'' [AId (el_Identifier control)])
            else controlsLoop (acc @ [control]) controls' n')"
  by pat_completeness auto
termination
  by (relation "measure (\<lambda>(acc, controls, n). Remaining controls)") (auto dest: SkipElement_shorter [OF sym])

function extensionsLoop :: "element list \<Rightarrow> reader \<Rightarrow> nat \<Rightarrow> goerror + element list" where
  "extensionsLoop acc envelope n =
     (if Empty envelope then Inr acc
      else case Reader_PeekIdentifier envelope of
          Inl err \<Rightarrow> Inl (Wrapf ''arden: LDAPMessage extension: %w'' [] err)
        | Inr tag \<Rightarrow>
            if tag = controlsIdentifier
            then Inl (Errorf ''arden: LDAPMessage has duplicate or out-of-order controls'' [])
            else case SkipElement envelope n of
                (Inl err, _, _) \<Rightarrow> Inl (Wrapf ''arden: LDAPMessage extension: %w'' [] err)
              | (Inr extension, envelope', n') \<Rightarrow> extensionsLoop (acc @ [extension]) envelope' n')"
  by pat_completeness auto
termination
  by (relation "measure (\<lambda>(acc, envelope, n). Remaining envelope)") (auto dest: SkipElement_shorter [OF sym])

declare controlsLoop.simps [simp del] extensionsLoop.simps [simp del]

text \<open>The optional controls: their elements, and the envelope after them.\<close>

definition readControls :: "reader \<Rightarrow> nat \<Rightarrow> goerror + element list \<times> reader \<times> nat" where
  "readControls envelope n =
     (if Empty envelope then Inr ([], envelope, n)
      else case Reader_PeekIdentifier envelope of
          Inl err \<Rightarrow> Inl (Wrapf ''arden: LDAPMessage controls: %w'' [] err)
        | Inr tag \<Rightarrow>
            if tag \<noteq> controlsIdentifier then Inr ([], envelope, n)
            else case Reader_Constructed controlsIdentifier envelope n of
                (Inl err, _, _) \<Rightarrow> Inl (Wrapf ''arden: LDAPMessage controls: %w'' [] err)
              | (Inr controls, envelope', n') \<Rightarrow>
                  (case controlsLoop [] controls n' of
                     Inl err \<Rightarrow> Inl err
                   | Inr (cs, n'') \<Rightarrow> Inr (cs, envelope', n'')))"

text \<open>What follows the envelope's header: message ID, protocol operation, controls, extensions.\<close>

definition parseEnvelope :: "bytes \<Rightarrow> reader \<Rightarrow> nat \<Rightarrow> goerror + response" where
  "parseEnvelope message envelope n =
     (case Reader_Integer envelope n of
        (Inl err, _, _) \<Rightarrow> Inl (Wrapf ''arden: LDAPMessage messageID: %w'' [] err)
      | (Inr messageID, envelope, n) \<Rightarrow>
          if messageID < 0 \<or> MaxMessageID < messageID
          then Inl (Errorf ''arden: LDAPMessage messageID %d is outside [0, %d]'' [AInt messageID, AInt MaxMessageID])
          else case ReadElement envelope n of
              (Inl err, _, _) \<Rightarrow> Inl (Wrapf ''arden: LDAPMessage protocolOp: %w'' [] err)
            | (Inr protocol, envelope, n) \<Rightarrow>
                if id_class (el_Identifier protocol) \<noteq> ClassApplication
                then Inl (Errorf ''arden: LDAPMessage protocolOp identifier %s is not an application identifier''
                            [AId (el_Identifier protocol)])
                else case readControls envelope n of
                    Inl err \<Rightarrow> Inl err
                  | Inr (controls, envelope, n) \<Rightarrow>
                      (case extensionsLoop [] envelope n of
                         Inl err \<Rightarrow> Inl err
                       | Inr extensions \<Rightarrow>
                           Inr \<lparr>re_MessageID = messageID, re_ProtocolID = el_Identifier protocol, re_Bytes = message,
                                re_Protocol = el_Raw protocol, re_Controls = controls, re_Extensions = extensions\<rparr>))"

definition parseOwnedResponse :: "bytes \<Rightarrow> limits \<Rightarrow> goerror + response" where
  "parseOwnedResponse message lim =
     (case NewReader message lim of
        Inl err \<Rightarrow> Inl err
      | Inr r \<Rightarrow>
          (case Reader_Sequence r 0 of
             (Inl err, _, _) \<Rightarrow> Inl (Wrapf ''arden: LDAPMessage: %w'' [] err)
           | (Inr envelope, r, n) \<Rightarrow>
               (case RequireEmpty r of
                  Some err \<Rightarrow> Inl (Wrapf ''arden: LDAPMessage: %w'' [] err)
                | None \<Rightarrow> parseEnvelope message envelope n)))"

definition ParseResponse :: "bytes \<Rightarrow> limits \<Rightarrow> goerror + response" where
  "ParseResponse message lim = parseOwnedResponse message lim"

end
