(* ===== verification/Conn_Errors.thy ===== *)
theory Conn_Errors
  imports Ber_Types
begin

text \<open>
  The public error classes of package \<^verbatim>\<open>arden\<close> (\<^verbatim>\<open>src/errors.go\<close>), how \<^verbatim>\<open>errors.Is\<close> and \<^verbatim>\<open>errors.As\<close> look through them,
  and the error class of a trace (\<^verbatim>\<open>errorClass\<close> of \<^verbatim>\<open>src/trace.go\<close>).

  A Go error is a value of \<open>failure\<close>: one of the sentinels the code compares with, one of the structs of
  \<^verbatim>\<open>errors.go\<close>, an error of package \<^verbatim>\<open>ber\<close> or of the network connection (\<open>Ber\<close>), the list of \<^verbatim>\<open>errors.Join\<close>, or a text of
  \<^verbatim>\<open>errors.New\<close> and \<^verbatim>\<open>fmt.Errorf\<close> without (\<open>Text\<close>) or with (\<open>Wrapped\<close>) a wrapped error.  \<^verbatim>\<open>nil\<close> is \<open>None\<close> of an option.
\<close>

section \<open>Error values\<close>

datatype sentinel =
    ErrClosed
  | ErrTransport
  | ErrProtocol
  | ErrResourceLimit
  | ErrAmbiguousOutcome
  | ErrDefinitelyUnsent
  | ErrEndpointUnavailable
  | ErrSetup
  | ErrProfileMismatch
  | ErrConnectionNotReady
  | ErrInitializationClosed
  | ErrAssociationChange
  | ErrNoticeOfDisconnection
  | Context_Canceled
  | Context_DeadlineExceeded
  | IO_EOF
  | IO_ErrNoProgress
  | Net_ErrClosed

datatype transport_stage = StageDial | StageTLS | StageRead | StageWrite | StagePeerClose

datatype request_outcome = OutcomeNotApplicable | OutcomeDefinitelyUnsent | OutcomeAmbiguous

datatype protocol_error_kind =
  ProtocolFraming | ProtocolEnvelope | ProtocolUnexpectedMessageID | ProtocolUnexpectedIdentifier

datatype setup_stage = SetupAuthentication | SetupInitialization | SetupProfileMismatch

datatype failure =
    Sentinel sentinel
  | TransportError transport_stage request_outcome failure
  | ProtocolError protocol_error_kind int ident "failure option"
  | Limit_Error string int int
  | RouteError string failure
  | SetupError string setup_stage failure
  | ProfileMismatchError "failure option"
  | NoticeError int bytes
  | Join "failure list"
  | Ber goerror
  | Text string "fmt_arg list"
  | Wrapped string "fmt_arg list" failure

section \<open>Inspection\<close>

text \<open>The \<^verbatim>\<open>Is\<close> methods of the error structs.\<close>

fun failure_Is :: "failure \<Rightarrow> sentinel \<Rightarrow> bool" where
  "failure_Is (TransportError stage outcome err) target =
     (target = ErrTransport \<or> (target = ErrDefinitelyUnsent \<and> outcome = OutcomeDefinitelyUnsent)
      \<or> (target = ErrAmbiguousOutcome \<and> outcome = OutcomeAmbiguous))"
| "failure_Is (ProtocolError kind m got err) target = (target = ErrProtocol)"
| "failure_Is (Limit_Error l v m) target = (target = ErrResourceLimit)"
| "failure_Is (RouteError endpoint err) target = (target = ErrEndpointUnavailable)"
| "failure_Is (SetupError endpoint stage err) target = (target = ErrSetup)"
| "failure_Is (ProfileMismatchError err) target = (target = ErrProfileMismatch)"
| "failure_Is (NoticeError code diagnostic) target = (target = ErrNoticeOfDisconnection)"
| "failure_Is err target = False"

text \<open>The error a read on a connection closed by this side returns.\<close>

definition net_ErrClosed :: goerror where
  "net_ErrClosed = NetError ''use of closed network connection''"

definition ber_Is :: "goerror \<Rightarrow> sentinel \<Rightarrow> bool" where
  "ber_Is err target \<longleftrightarrow>
     target = IO_EOF \<and> root_cause err = EOF \<or> target = Net_ErrClosed \<and> root_cause err = net_ErrClosed"

text \<open>\<^verbatim>\<open>errors.Is\<close>: the error itself, its \<^verbatim>\<open>Is\<close> method, or what \<^verbatim>\<open>Unwrap\<close> returns.\<close>

fun errors_Is :: "failure \<Rightarrow> sentinel \<Rightarrow> bool" where
  "errors_Is (Sentinel s) target = (s = target)"
| "errors_Is (TransportError stage outcome err) target =
     (failure_Is (TransportError stage outcome err) target \<or> errors_Is err target)"
| "errors_Is (ProtocolError kind m got err) target =
     (failure_Is (ProtocolError kind m got err) target
      \<or> (case err of None \<Rightarrow> False | Some e \<Rightarrow> errors_Is e target))"
| "errors_Is (RouteError endpoint err) target =
     (failure_Is (RouteError endpoint err) target \<or> errors_Is err target)"
| "errors_Is (SetupError endpoint stage err) target =
     (failure_Is (SetupError endpoint stage err) target \<or> errors_Is err target)"
| "errors_Is (ProfileMismatchError err) target =
     (failure_Is (ProfileMismatchError err) target \<or> (case err of None \<Rightarrow> False | Some e \<Rightarrow> errors_Is e target))"
| "errors_Is (Join errs) target = (\<exists>e \<in> set errs. errors_Is e target)"
| "errors_Is (Ber g) target = ber_Is g target"
| "errors_Is (Wrapped f args err) target = errors_Is err target"
| "errors_Is err target = failure_Is err target"

text \<open>\<^verbatim>\<open>errors.As(err, **TransportError)\<close> and \<^verbatim>\<open>errors.AsType[*SetupError]\<close>: the first such error of the tree, in preorder.\<close>

primrec first_some :: "'a option list \<Rightarrow> 'a option" where
  "first_some [] = None"
| "first_some (x # xs) = (case x of None \<Rightarrow> first_some xs | Some y \<Rightarrow> Some y)"

fun as_TransportError :: "failure \<Rightarrow> (transport_stage \<times> request_outcome \<times> failure) option" where
  "as_TransportError (TransportError stage outcome err) = Some (stage, outcome, err)"
| "as_TransportError (ProtocolError kind m got err) = (case err of None \<Rightarrow> None | Some e \<Rightarrow> as_TransportError e)"
| "as_TransportError (RouteError endpoint err) = as_TransportError err"
| "as_TransportError (SetupError endpoint stage err) = as_TransportError err"
| "as_TransportError (ProfileMismatchError err) = (case err of None \<Rightarrow> None | Some e \<Rightarrow> as_TransportError e)"
| "as_TransportError (Join errs) = first_some (map as_TransportError errs)"
| "as_TransportError (Wrapped f args err) = as_TransportError err"
| "as_TransportError err = None"

fun as_SetupError :: "failure \<Rightarrow> bool" where
  "as_SetupError (SetupError endpoint stage err) = True"
| "as_SetupError (TransportError stage outcome err) = as_SetupError err"
| "as_SetupError (ProtocolError kind m got err) = (case err of None \<Rightarrow> False | Some e \<Rightarrow> as_SetupError e)"
| "as_SetupError (RouteError endpoint err) = as_SetupError err"
| "as_SetupError (ProfileMismatchError err) = (case err of None \<Rightarrow> False | Some e \<Rightarrow> as_SetupError e)"
| "as_SetupError (Join errs) = (\<exists>e \<in> set errs. as_SetupError e)"
| "as_SetupError (Wrapped f args err) = as_SetupError err"
| "as_SetupError err = False"

section \<open>Classes for traces\<close>

definition errorClass :: "failure option \<Rightarrow> string" where
  "errorClass err =
     (case err of
        None \<Rightarrow> ''none''
      | Some e \<Rightarrow>
          if errors_Is e ErrClosed then ''closed''
          else if errors_Is e Context_Canceled then ''canceled''
          else if errors_Is e Context_DeadlineExceeded then ''deadline_exceeded''
          else if errors_Is e ErrNoticeOfDisconnection then ''notice_of_disconnection''
          else if errors_Is e ErrProtocol then ''protocol''
          else if errors_Is e ErrResourceLimit then ''resource_limit''
          else if errors_Is e ErrSetup then ''setup''
          else if errors_Is e ErrEndpointUnavailable then ''endpoint_unavailable''
          else if errors_Is e ErrTransport then ''transport''
          else ''other'')"

section \<open>Read errors\<close>

text \<open>\<^verbatim>\<open>translateBERLimit\<close> and \<^verbatim>\<open>classifyReadError\<close> of \<^verbatim>\<open>src/connection.go\<close> on the errors of the framer and the envelope
  parser; \<open>closing\<close> is the flag of the connection.\<close>

definition translateBERLimit :: "goerror \<Rightarrow> failure" where
  "translateBERLimit err =
     (case as_LimitError err of
        None \<Rightarrow> Ber err
      | Some (l, v, m) \<Rightarrow> Limit_Error (''BER '' @ l) (int v) (int m))"

definition classifyReadError :: "bool \<Rightarrow> goerror \<Rightarrow> failure" where
  "classifyReadError closing err =
     (if closing \<or> ber_Is err Net_ErrClosed then Sentinel ErrClosed
      else if ber_Is err IO_EOF then TransportError StagePeerClose OutcomeNotApplicable (Sentinel IO_EOF)
      else if as_DecodeError err then ProtocolError ProtocolFraming 0 zero_identifier (Some (translateBERLimit err))
      else TransportError StageRead OutcomeNotApplicable (Ber err))"

text \<open>Unless the connection is being closed, a read error is exactly one of closed, protocol failure and
  transport failure, and never claims a request outcome.\<close>

lemma translateBERLimit_Is [simp]:
  "\<not> errors_Is (translateBERLimit err) ErrClosed" "\<not> errors_Is (translateBERLimit err) ErrTransport"
  "\<not> errors_Is (translateBERLimit err) ErrDefinitelyUnsent" "\<not> errors_Is (translateBERLimit err) ErrAmbiguousOutcome"
  by (auto simp: translateBERLimit_def ber_Is_def split: option.splits)

lemma classifyReadError_outcome:
  "\<not> errors_Is (classifyReadError closing err) ErrDefinitelyUnsent"
  "\<not> errors_Is (classifyReadError closing err) ErrAmbiguousOutcome"
  by (auto simp: classifyReadError_def ber_Is_def)

lemma classifyReadError_class:
  "errors_Is (classifyReadError closing err) ErrClosed \<longleftrightarrow> closing \<or> ber_Is err Net_ErrClosed"
  "errors_Is (classifyReadError closing err) ErrProtocol \<longleftrightarrow>
     \<not> (closing \<or> ber_Is err Net_ErrClosed) \<and> \<not> ber_Is err IO_EOF \<and> as_DecodeError err"
  "errors_Is (classifyReadError closing err) ErrTransport \<longleftrightarrow>
     \<not> (closing \<or> ber_Is err Net_ErrClosed) \<and> (ber_Is err IO_EOF \<or> \<not> as_DecodeError err)"
  by (auto simp: classifyReadError_def ber_Is_def)

end
