(* ===== verification/Conn_Types.thy ===== *)
theory Conn_Types
  imports Conn_Errors
begin

text \<open>
  Configuration and lifecycle states of a connection: \<^verbatim>\<open>ConnectionOptions\<close> (\<^verbatim>\<open>src/connection.go\<close>), endpoints, identities and
  policies (\<^verbatim>\<open>src/endpoint.go\<close>) and the transitions of the connection state (\<^verbatim>\<open>src/bootstrap.go\<close>).

  A \<^verbatim>\<open>time.Duration\<close> is its number of nanoseconds.  \<^verbatim>\<open>Endpoint.Transport\<close> and \<^verbatim>\<open>ConnectionPolicy.Cancellation\<close> keep
  their \<^verbatim>\<open>uint8\<close> representation, since a caller may write any value there; the internal connection state is a
  datatype.
\<close>

section \<open>Connection options\<close>

record connection_options =
  BERLimits :: limits
  MaxQueuedResponses :: int
  MaxQueuedResponseBytes :: int
  MaxUnsolicitedResponses :: int
  MaxUnsolicitedResponseBytes :: int
  CancellationWriteTimeout :: int
  CloseTimeout :: int
  InitializationTimeout :: int
  MaxInitializationOperations :: int

definition DefaultConnectionOptions :: connection_options where
  "DefaultConnectionOptions =
     \<lparr>BERLimits = DefaultLimits,
      MaxQueuedResponses = 16,
      MaxQueuedResponseBytes = 4 * 2 ^ 20,
      MaxUnsolicitedResponses = 8,
      MaxUnsolicitedResponseBytes = 1 * 2 ^ 20,
      CancellationWriteTimeout = 5 * 10 ^ 9,
      CloseTimeout = 5 * 10 ^ 9,
      InitializationTimeout = 30 * 10 ^ 9,
      MaxInitializationOperations = 16\<rparr>"

definition zero_limits :: limits where
  "zero_limits = \<lparr>MaxFrameBytes = 0, MaxDepth = 0, MaxElements = 0, MaxIntegerBytes = 0, MaxTagNumber = 0\<rparr>"

text \<open>The first half of \<^verbatim>\<open>normalized\<close>: zero fields receive their defaults.\<close>

definition orDefault :: "int \<Rightarrow> int \<Rightarrow> int" where
  "orDefault v d = (if v = 0 then d else v)"

definition withDefaults :: "connection_options \<Rightarrow> connection_options" where
  "withDefaults opt =
     (let d = DefaultConnectionOptions in
      \<lparr>BERLimits = (if BERLimits opt = zero_limits then BERLimits d else BERLimits opt),
       MaxQueuedResponses = orDefault (MaxQueuedResponses opt) (MaxQueuedResponses d),
       MaxQueuedResponseBytes = orDefault (MaxQueuedResponseBytes opt) (MaxQueuedResponseBytes d),
       MaxUnsolicitedResponses = orDefault (MaxUnsolicitedResponses opt) (MaxUnsolicitedResponses d),
       MaxUnsolicitedResponseBytes = orDefault (MaxUnsolicitedResponseBytes opt) (MaxUnsolicitedResponseBytes d),
       CancellationWriteTimeout = orDefault (CancellationWriteTimeout opt) (CancellationWriteTimeout d),
       CloseTimeout = orDefault (CloseTimeout opt) (CloseTimeout d),
       InitializationTimeout = orDefault (InitializationTimeout opt) (InitializationTimeout d),
       MaxInitializationOperations = orDefault (MaxInitializationOperations opt) (MaxInitializationOperations d)\<rparr>)"

definition normalized :: "connection_options \<Rightarrow> failure + connection_options" where
  "normalized opt =
     (let o1 = withDefaults opt in
      case Limits_Validate (BERLimits o1) of
        Some err \<Rightarrow> Inl (Ber err)
      | None \<Rightarrow>
          if MaxQueuedResponses o1 < 0 then Inl (Text ''arden: MaxQueuedResponses must be positive'' [])
          else if MaxQueuedResponseBytes o1 < 0 then Inl (Text ''arden: MaxQueuedResponseBytes must be positive'' [])
          else if MaxUnsolicitedResponses o1 < 0 then Inl (Text ''arden: MaxUnsolicitedResponses must be positive'' [])
          else if MaxUnsolicitedResponseBytes o1 < 0 then Inl (Text ''arden: MaxUnsolicitedResponseBytes must be positive'' [])
          else if CancellationWriteTimeout o1 < 0 then Inl (Text ''arden: CancellationWriteTimeout must be positive'' [])
          else if CloseTimeout o1 < 0 then Inl (Text ''arden: CloseTimeout must be positive'' [])
          else if InitializationTimeout o1 < 0 then Inl (Text ''arden: InitializationTimeout must be positive'' [])
          else if MaxInitializationOperations o1 < 0 then Inl (Text ''arden: MaxInitializationOperations must be positive'' [])
          else Inr o1)"

definition ConnectionOptions_Validate :: "connection_options \<Rightarrow> failure option" where
  "ConnectionOptions_Validate opt = (case normalized opt of Inl err \<Rightarrow> Some err | Inr _ \<Rightarrow> None)"

text \<open>Every bound is positive.\<close>

definition options_ok :: "connection_options \<Rightarrow> bool" where
  "options_ok opt \<longleftrightarrow> limits_ok (BERLimits opt)
     \<and> list_all (\<lambda>v. 0 < v) [MaxQueuedResponses opt, MaxQueuedResponseBytes opt, MaxUnsolicitedResponses opt,
         MaxUnsolicitedResponseBytes opt, CancellationWriteTimeout opt, CloseTimeout opt,
         InitializationTimeout opt, MaxInitializationOperations opt]"

lemma orDefault_sign [simp]:
  "0 < d \<Longrightarrow> 0 < orDefault v d \<longleftrightarrow> 0 \<le> v"
  "0 < d \<Longrightarrow> orDefault v d < 0 \<longleftrightarrow> v < 0"
  "v \<noteq> 0 \<Longrightarrow> orDefault v d = v"
  by (auto simp: orDefault_def)

lemmas withDefaults_simps = withDefaults_def DefaultConnectionOptions_def Let_def

lemma normalized_Inr: "normalized opt = Inr opt' \<longleftrightarrow> opt' = withDefaults opt \<and> options_ok opt'"
proof (cases "Limits_Validate (BERLimits (withDefaults opt))")
  case (Some err)
  then have "\<not> options_ok (withDefaults opt)" by (simp add: options_ok_def Limits_Validate_None [symmetric])
  with Some show ?thesis by (auto simp: normalized_def Let_def)
next
  case None
  then have "limits_ok (BERLimits (withDefaults opt))" by (simp add: Limits_Validate_None)
  then have ok: "options_ok (withDefaults opt) \<longleftrightarrow> list_all (\<lambda>v. 0 \<le> v) [MaxQueuedResponses opt,
      MaxQueuedResponseBytes opt, MaxUnsolicitedResponses opt, MaxUnsolicitedResponseBytes opt,
      CancellationWriteTimeout opt, CloseTimeout opt, InitializationTimeout opt, MaxInitializationOperations opt]"
    by (simp add: options_ok_def) (simp add: withDefaults_simps)
  have "normalized opt = Inr opt' \<longleftrightarrow> opt' = withDefaults opt \<and> options_ok (withDefaults opt)"
    unfolding ok using None by (auto simp: normalized_def Let_def) (auto simp: withDefaults_simps)
  then show ?thesis by blast
qed

lemma withDefaults_id: "options_ok opt \<Longrightarrow> withDefaults opt = opt"
  by (cases opt) (auto simp: options_ok_def withDefaults_def limits_ok_def zero_limits_def Let_def)

text \<open>Zero never means unbounded: normalized options have only positive bounds, keep every field the caller
  set, take the default for every zero field, and are a fixed point; normalization fails exactly if a field
  is negative or the BER limits, once defaulted, are invalid.\<close>

theorem normalized_correct:
  "case normalized opt of
     Inr opt' \<Rightarrow> options_ok opt' \<and> opt' = withDefaults opt \<and> normalized opt' = Inr opt'
   | Inl _ \<Rightarrow> \<not> options_ok (withDefaults opt)"
proof (cases "normalized opt")
  case (Inr opt')
  then have opt': "opt' = withDefaults opt" "options_ok opt'" unfolding normalized_Inr by blast+
  then have "normalized opt' = Inr opt'" using withDefaults_id [of opt'] by (simp add: normalized_Inr)
  with Inr opt' show ?thesis by simp
next
  case (Inl err)
  then show ?thesis using normalized_Inr [of opt "withDefaults opt"] by auto
qed

section \<open>Endpoints, identities and policies\<close>

definition EndpointID_Validate :: "string \<Rightarrow> failure option" where
  "EndpointID_Validate eid = (if eid = [] then Some (Text ''arden: endpoint ID is empty'' []) else None)"

definition TransportDirectTLS :: byte where "TransportDirectTLS = 0"
definition TransportPlaintext :: byte where "TransportPlaintext = 1"

record endpoint =
  ep_ID :: string
  ep_Address :: string
  ep_ServerName :: string
  ep_Transport :: byte

definition Endpoint_Validate :: "endpoint \<Rightarrow> failure option" where
  "Endpoint_Validate e =
     (case EndpointID_Validate (ep_ID e) of
        Some err \<Rightarrow> Some err
      | None \<Rightarrow>
          if ep_Address e = [] then Some (Text ''arden: endpoint address is empty'' [])
          else if ep_Transport e \<noteq> TransportDirectTLS \<and> ep_Transport e \<noteq> TransportPlaintext
          then Some (Text ''arden: endpoint transport mode is invalid'' [])
          else if ep_Transport e = TransportDirectTLS \<and> ep_ServerName e = []
          then Some (Text ''arden: endpoint TLS server name is empty'' [])
          else None)"

record identity =
  StableID :: string

definition Identity_Validate :: "identity \<Rightarrow> failure option" where
  "Identity_Validate i = (if StableID i = [] then Some (Text ''arden: authentication identity is empty'' []) else None)"

definition CancellationConservative :: byte where "CancellationConservative = 1"
definition CancellationRFC3909 :: byte where "CancellationRFC3909 = 2"

record connection_policy =
  cp_Cancellation :: byte

definition ConnectionPolicy_Validate :: "connection_policy \<Rightarrow> failure option" where
  "ConnectionPolicy_Validate p =
     (if cp_Cancellation p = CancellationConservative \<or> cp_Cancellation p = CancellationRFC3909 then None
      else Some (Text ''arden: setup cancellation policy is invalid'' []))"

section \<open>Connection states\<close>

datatype connection_state =
    stateDialing
  | stateTransportSetup
  | stateAuthenticating
  | stateInitializing
  | stateReady
  | stateDraining
  | stateClosed

datatype operation_scope = operationApplication | operationInitialization

definition advanceConnectionState ::
    "connection_state \<Rightarrow> connection_state \<Rightarrow> failure + connection_state" where
  "advanceConnectionState frm to =
     (let valid = (case frm of
          stateDialing \<Rightarrow> to = stateTransportSetup
        | stateTransportSetup \<Rightarrow> to = stateAuthenticating
        | stateAuthenticating \<Rightarrow> to = stateInitializing
        | stateInitializing \<Rightarrow> to = stateReady
        | stateReady \<Rightarrow> to = stateDraining
        | stateDraining \<Rightarrow> to = stateClosed
        | stateClosed \<Rightarrow> False)
      in if valid \<or> to = stateClosed \<and> frm \<noteq> stateClosed then Inr to
         else Inl (Text ''arden: invalid connection state transition'' []))"

text \<open>The order in which a connection passes through its states.\<close>

primrec state_rank :: "connection_state \<Rightarrow> nat" where
  "state_rank stateDialing = 0"
| "state_rank stateTransportSetup = 1"
| "state_rank stateAuthenticating = 2"
| "state_rank stateInitializing = 3"
| "state_rank stateReady = 4"
| "state_rank stateDraining = 5"
| "state_rank stateClosed = 6"

lemma advanceConnectionState_Inr:
  "advanceConnectionState frm to = Inr st \<longleftrightarrow>
     st = to \<and> (state_rank to = Suc (state_rank frm) \<or> to = stateClosed \<and> frm \<noteq> stateClosed)"
  by (cases frm; cases to) (auto simp: advanceConnectionState_def)

end
