(* ===== verification/Ldap_Extended.thy ===== *)
theory Ldap_Extended
  imports Ldap_Update
begin

text \<open>
  Extended operations (\<^verbatim>\<open>src/rfc4511/extended.go\<close>): requests, responses, intermediate responses, the CHOICE of the two that a
  response stream delivers, and the operation a client runs.
\<close>

section \<open>Requests\<close>

definition extendedRequestIdentifier :: ident where "extendedRequestIdentifier = applicationConstructed 23"
definition extendedResponseIdentifier :: ident where "extendedResponseIdentifier = applicationConstructed 24"
definition intermediateResponseIdentifier :: ident where "intermediateResponseIdentifier = applicationConstructed 25"
definition extendedRequestNameIdentifier :: ident where "extendedRequestNameIdentifier = contextPrimitive 0"
definition extendedRequestValueIdentifier :: ident where "extendedRequestValueIdentifier = contextPrimitive 1"
definition extendedResponseNameIdentifier :: ident where "extendedResponseNameIdentifier = contextPrimitive 10"
definition extendedResponseValueIdentifier :: ident where "extendedResponseValueIdentifier = contextPrimitive 11"
definition intermediateResponseNameIdentifier :: ident where "intermediateResponseNameIdentifier = contextPrimitive 0"
definition intermediateResponseValueIdentifier :: ident where "intermediateResponseValueIdentifier = contextPrimitive 1"

lemmas extended_tags = extendedRequestIdentifier_def extendedResponseIdentifier_def intermediateResponseIdentifier_def
  extendedRequestNameIdentifier_def extendedRequestValueIdentifier_def extendedResponseNameIdentifier_def
  extendedResponseValueIdentifier_def intermediateResponseNameIdentifier_def intermediateResponseValueIdentifier_def

record extended_request =
  er_Name :: bytes
  er_Value :: bytes
  er_HasValue :: bool
  er_Extensions :: "unknown_field list"

definition ExtendedRequest_BERPacket :: "extended_request \<Rightarrow> packet" where
  "ExtendedRequest_BERPacket v =
     (let env = Envelope_Add [implicitOctetsPacket extendedRequestNameIdentifier (er_Name v)]
                  (ber_Constructed extendedRequestIdentifier);
          env = (if er_HasValue v
                 then Envelope_Add [implicitOctetsPacket extendedRequestValueIdentifier (er_Value v)] env else env)
      in Envelope_Add (map UnknownField_BERPacket (er_Extensions v)) env)"

definition ExtendedRequest_UnmarshalBER :: "extended_request unmarshaler" where
  "ExtendedRequest_UnmarshalBER = decode_in extendedRequestIdentifier (\<lambda>sc.
     let (Name, sc) = ReadAs [] LDAPOID_UnmarshalAs extendedRequestNameIdentifier sc;
         (Value, sc) = optional extendedRequestValueIdentifier None (some (Primitive extendedRequestValueIdentifier)) sc;
         (Exts, sc) = UnknownFields [extendedRequestNameIdentifier, extendedRequestValueIdentifier] sc
     in ended (Inr \<lparr>er_Name = Name, er_Value = (case Value of None \<Rightarrow> [] | Some v \<Rightarrow> v),
                    er_HasValue = (Value \<noteq> None), er_Extensions = Exts\<rparr>) sc)"

section \<open>Responses\<close>

record extended_response =
  ex_Result :: ldap_result
  ex_ResponseName :: bytes
  ex_HasResponseName :: bool
  ex_ResponseValue :: bytes
  ex_HasResponseValue :: bool
  ex_Extensions :: "unknown_field list"

definition ExtendedResponse_BERPacket :: "extended_response \<Rightarrow> packet" where
  "ExtendedResponse_BERPacket v =
     (let env = LDAPResult_addPrefix (ex_Result v) (ber_Constructed extendedResponseIdentifier);
          env = (if ex_HasResponseName v
                 then Envelope_Add [implicitOctetsPacket extendedResponseNameIdentifier (ex_ResponseName v)] env else env);
          env = (if ex_HasResponseValue v
                 then Envelope_Add [implicitOctetsPacket extendedResponseValueIdentifier (ex_ResponseValue v)] env else env)
      in Envelope_Add (map UnknownField_BERPacket (ex_Extensions v)) env)"

definition ExtendedResponse_UnmarshalBER :: "extended_response unmarshaler" where
  "ExtendedResponse_UnmarshalBER = decode_in extendedResponseIdentifier (\<lambda>sc.
     let (Result, sc) = Embed zero_result LDAPResult_UnmarshalBERFields sc;
         (Name, sc) = optional extendedResponseNameIdentifier None
           (some (ReadAs [] LDAPOID_UnmarshalAs extendedResponseNameIdentifier)) sc;
         (Value, sc) = optional extendedResponseValueIdentifier None
           (some (Primitive extendedResponseValueIdentifier)) sc;
         (Exts, sc) = UnknownFields [extendedResponseNameIdentifier, extendedResponseValueIdentifier] sc
     in ended (Inr \<lparr>ex_Result = Result,
                    ex_ResponseName = (case Name of None \<Rightarrow> [] | Some v \<Rightarrow> v), ex_HasResponseName = (Name \<noteq> None),
                    ex_ResponseValue = (case Value of None \<Rightarrow> [] | Some v \<Rightarrow> v), ex_HasResponseValue = (Value \<noteq> None),
                    ex_Extensions = Exts\<rparr>) sc)"

record intermediate_response =
  ir_ResponseName :: bytes
  ir_HasResponseName :: bool
  ir_ResponseValue :: bytes
  ir_HasResponseValue :: bool
  ir_Extensions :: "unknown_field list"

definition IntermediateResponse_BERPacket :: "intermediate_response \<Rightarrow> packet" where
  "IntermediateResponse_BERPacket v =
     (let env = ber_Constructed intermediateResponseIdentifier;
          env = (if ir_HasResponseName v
                 then Envelope_Add [implicitOctetsPacket intermediateResponseNameIdentifier (ir_ResponseName v)] env else env);
          env = (if ir_HasResponseValue v
                 then Envelope_Add [implicitOctetsPacket intermediateResponseValueIdentifier (ir_ResponseValue v)] env else env)
      in Envelope_Add (map UnknownField_BERPacket (ir_Extensions v)) env)"

definition IntermediateResponse_UnmarshalBER :: "intermediate_response unmarshaler" where
  "IntermediateResponse_UnmarshalBER = decode_in intermediateResponseIdentifier (\<lambda>sc.
     let (Name, sc) = optional intermediateResponseNameIdentifier None
           (some (ReadAs [] LDAPOID_UnmarshalAs intermediateResponseNameIdentifier)) sc;
         (Value, sc) = optional intermediateResponseValueIdentifier None
           (some (Primitive intermediateResponseValueIdentifier)) sc;
         (Exts, sc) = UnknownFields [intermediateResponseNameIdentifier, intermediateResponseValueIdentifier] sc
     in ended (Inr \<lparr>ir_ResponseName = (case Name of None \<Rightarrow> [] | Some v \<Rightarrow> v), ir_HasResponseName = (Name \<noteq> None),
                    ir_ResponseValue = (case Value of None \<Rightarrow> [] | Some v \<Rightarrow> v), ir_HasResponseValue = (Value \<noteq> None),
                    ir_Extensions = Exts\<rparr>) sc)"

text \<open>\<^verbatim>\<open>ExtendedResult\<close> holds one alternative, or nil in its zero value.\<close>

datatype extended_result_value =
  Extended_Response extended_response
| Intermediate_Response intermediate_response

type_synonym extended_result = "extended_result_value option"

definition zero_extended_response :: extended_response where
  "zero_extended_response = \<lparr>ex_Result = zero_result, ex_ResponseName = [], ex_HasResponseName = False,
     ex_ResponseValue = [], ex_HasResponseValue = False, ex_Extensions = []\<rparr>"

definition zero_intermediate :: intermediate_response where
  "zero_intermediate = \<lparr>ir_ResponseName = [], ir_HasResponseName = False,
     ir_ResponseValue = [], ir_HasResponseValue = False, ir_Extensions = []\<rparr>"

definition extendedChoice :: "ident \<Rightarrow> scope \<Rightarrow> extended_result \<times> scope" where
  "extendedChoice tag sc =
     (if tag = intermediateResponseIdentifier
      then let (v, sc) = Read zero_intermediate IntermediateResponse_UnmarshalBER sc in (Some (Intermediate_Response v), sc)
      else if tag = extendedResponseIdentifier
      then let (v, sc) = Read zero_extended_response ExtendedResponse_UnmarshalBER sc in (Some (Extended_Response v), sc)
      else (None, Fail (Some (Errorf ''arden: unexpected ExtendedResult identifier %s'' [AId tag])) sc))"

definition ExtendedResult_UnmarshalBER :: "extended_result unmarshaler" where
  "ExtendedResult_UnmarshalBER = decode_with (\<lambda>sc.
     let (tag, sc) = PeekIdentifier sc;
         (decoded, sc) = extendedChoice tag sc
     in checked (Inr decoded) sc)"

definition extendedResponsePattern :: "extended_result response_pattern" where
  "extendedResponsePattern = the (mustResponsePattern ExtendedResult_UnmarshalBER
     \<lparr>rs_Continue = [intermediateResponseIdentifier], rs_Complete = [extendedResponseIdentifier], rs_NoResponse = False\<rparr>)"

definition NewExtendedOperation :: "extended_request option \<Rightarrow> packet option list \<Rightarrow> goerror + extended_result operation" where
  "NewExtendedOperation request controls =
     newOperation ''ExtendedRequest''
       (map_option (\<lambda>v. \<lparr>po_packet = ExtendedRequest_BERPacket v, po_identifier = extendedRequestIdentifier\<rparr>) request)
       controls extendedResponsePattern CancelDrain ''ldap.extended''"

text \<open>\<^verbatim>\<open>"1.3.6.1.4.1.1466.20036"\<close> in ASCII.\<close>

definition NoticeOfDisconnectionOID :: bytes where
  "NoticeOfDisconnectionOID = [0x31, 0x2E, 0x33, 0x2E, 0x36, 0x2E, 0x31, 0x2E, 0x34, 0x2E, 0x31, 0x2E,
     0x31, 0x34, 0x36, 0x36, 0x2E, 0x32, 0x30, 0x30, 0x33, 0x36]"

section \<open>Round trips\<close>

definition extended_request_ok :: "extended_request \<Rightarrow> bool" where
  "extended_request_ok v \<longleftrightarrow> oid_ok (er_Name v) \<and> (\<not> er_HasValue v \<longrightarrow> er_Value v = [])
     \<and> unknowns_ok [contextPrimitive 0, contextPrimitive 1] (er_Extensions v)"

lemma extended_request_packet:
  "ExtendedRequest_BERPacket v = Packet (applicationConstructed 23) []
     (ber_Primitive (contextPrimitive 0) (er_Name v)
        # (if er_HasValue v then [ber_Primitive (contextPrimitive 1) (er_Value v)] else [])
        @ map UnknownField_BERPacket (er_Extensions v)) False False"
  by (simp add: ExtendedRequest_BERPacket_def extended_tags implicitOctetsPacket_def Let_def)

interpretation ldap_extended_request: codec ExtendedRequest_BERPacket ExtendedRequest_UnmarshalBER extended_request_ok
proof unfold_locales
  fix a :: extended_request and r n p ps
  show "extended_request_ok a \<Longrightarrow> single (ExtendedRequest_BERPacket a)"
    by (simp add: extended_request_packet single_Constructed)
  assume a: "extended_request_ok a" and h: "holds r n (p # ps)" and s: "same_octets p (ExtendedRequest_BERPacket a)"
  note ok = a [unfolded extended_request_ok_def] and fs = a [unfolded extended_request_ok_def unknowns_ok_def]
  have nx: "not_next (contextPrimitive 1) (map UnknownField_BERPacket (er_Extensions a))"
    using ok unknowns_not_next [of "[contextPrimitive 0, contextPrimitive 1]"] by auto
  show "ExtendedRequest_UnmarshalBER r n = (Inr a, past p r, n + nodes p)"
    unfolding ExtendedRequest_UnmarshalBER_def extended_tags ReadAs_Read
    by (rule decode_in_accepts [OF h s [unfolded extended_request_packet]];
        (simp add: fs; fail)?; (erule scope_rules; (simp add: ok nx; fail)?)+)
qed

definition extended_response_ok :: "extended_response \<Rightarrow> bool" where
  "extended_response_ok v \<longleftrightarrow> result_ok (ex_Result v) \<and> lr_Extensions (ex_Result v) = []
     \<and> (if ex_HasResponseName v then oid_ok (ex_ResponseName v) else ex_ResponseName v = [])
     \<and> (\<not> ex_HasResponseValue v \<longrightarrow> ex_ResponseValue v = [])
     \<and> unknowns_ok [contextConstructed 3, contextPrimitive 10, contextPrimitive 11] (ex_Extensions v)"

lemma extended_response_packet:
  "ExtendedResponse_BERPacket v = Packet (applicationConstructed 24) []
     (result_prefix (ex_Result v)
        @ (if ex_HasResponseName v then [ber_Primitive (contextPrimitive 10) (ex_ResponseName v)] else [])
        @ (if ex_HasResponseValue v then [ber_Primitive (contextPrimitive 11) (ex_ResponseValue v)] else [])
        @ map UnknownField_BERPacket (ex_Extensions v)) False False"
  by (simp add: ExtendedResponse_BERPacket_def extended_tags implicitOctetsPacket_def addPrefix_packet Let_def)

interpretation ldap_extended_response: codec ExtendedResponse_BERPacket ExtendedResponse_UnmarshalBER extended_response_ok
proof unfold_locales
  fix a :: extended_response and r n p ps
  show "extended_response_ok a \<Longrightarrow> single (ExtendedResponse_BERPacket a)"
    by (simp add: extended_response_packet single_Constructed)
  assume a: "extended_response_ok a" and h: "holds r n (p # ps)" and s: "same_octets p (ExtendedResponse_BERPacket a)"
  note ok = a [unfolded extended_response_ok_def] and fs = a [unfolded extended_response_ok_def unknowns_ok_def]
  have nx: "not_next (contextConstructed 3) (map UnknownField_BERPacket (ex_Extensions a))"
    "not_next (contextPrimitive 10) (map UnknownField_BERPacket (ex_Extensions a))"
    "not_next (contextPrimitive 11) (map UnknownField_BERPacket (ex_Extensions a))"
    using ok unknowns_not_next [of "[contextConstructed 3, contextPrimitive 10, contextPrimitive 11]"] by auto
  have r0: "ex_Result a\<lparr>lr_Extensions := []\<rparr> = ex_Result a" using ok by (cases "ex_Result a") simp
  have oid: "ex_HasResponseName a \<Longrightarrow> oid_ok (ex_ResponseName a)" "\<not> ex_HasResponseName a \<Longrightarrow> ex_ResponseName a = []"
    using ok by simp_all
  note ok' = ok [THEN conjunct1] ok [THEN conjunct2, THEN conjunct2, THEN conjunct2]
  show "ExtendedResponse_UnmarshalBER r n = (Inr a, past p r, n + nodes p)"
    unfolding ExtendedResponse_UnmarshalBER_def extended_tags ReadAs_Read
    by (rule decode_in_accepts [OF h s [unfolded extended_response_packet]];
        (simp add: fs; fail)?;
        (erule scope_rules accepts_embed_result; (simp add: ok' nx r0 oid; fail)?)+)
qed

definition intermediate_response_ok :: "intermediate_response \<Rightarrow> bool" where
  "intermediate_response_ok v \<longleftrightarrow>
     (if ir_HasResponseName v then oid_ok (ir_ResponseName v) else ir_ResponseName v = [])
     \<and> (\<not> ir_HasResponseValue v \<longrightarrow> ir_ResponseValue v = [])
     \<and> unknowns_ok [contextPrimitive 0, contextPrimitive 1] (ir_Extensions v)"

lemma intermediate_response_packet:
  "IntermediateResponse_BERPacket v = Packet (applicationConstructed 25) []
     ((if ir_HasResponseName v then [ber_Primitive (contextPrimitive 0) (ir_ResponseName v)] else [])
        @ (if ir_HasResponseValue v then [ber_Primitive (contextPrimitive 1) (ir_ResponseValue v)] else [])
        @ map UnknownField_BERPacket (ir_Extensions v)) False False"
  by (simp add: IntermediateResponse_BERPacket_def extended_tags implicitOctetsPacket_def Let_def)

interpretation ldap_intermediate_response:
  codec IntermediateResponse_BERPacket IntermediateResponse_UnmarshalBER intermediate_response_ok
proof unfold_locales
  fix a :: intermediate_response and r n p ps
  show "intermediate_response_ok a \<Longrightarrow> single (IntermediateResponse_BERPacket a)"
    by (simp add: intermediate_response_packet single_Constructed)
  assume a: "intermediate_response_ok a" and h: "holds r n (p # ps)" and s: "same_octets p (IntermediateResponse_BERPacket a)"
  note ok = a [unfolded intermediate_response_ok_def] and fs = a [unfolded intermediate_response_ok_def unknowns_ok_def]
  have nx: "not_next (contextPrimitive 0) (map UnknownField_BERPacket (ir_Extensions a))"
    "not_next (contextPrimitive 1) (map UnknownField_BERPacket (ir_Extensions a))"
    using ok unknowns_not_next [of "[contextPrimitive 0, contextPrimitive 1]"] by auto
  have oid: "ir_HasResponseName a \<Longrightarrow> oid_ok (ir_ResponseName a)" "\<not> ir_HasResponseName a \<Longrightarrow> ir_ResponseName a = []"
    using ok by simp_all
  note ok' = ok [THEN conjunct2]
  show "IntermediateResponse_UnmarshalBER r n = (Inr a, past p r, n + nodes p)"
    unfolding IntermediateResponse_UnmarshalBER_def extended_tags ReadAs_Read
    by (rule decode_in_accepts [OF h s [unfolded intermediate_response_packet]];
        (simp add: fs; fail)?;
        (erule scope_rules; (simp add: ok' nx oid; fail)?)+)
qed

text \<open>The CHOICE of the two, as the packets a server sends.\<close>

definition ExtendedResult_packet :: "extended_result_value \<Rightarrow> packet" where
  "ExtendedResult_packet v =
     (case v of
        Extended_Response e \<Rightarrow> ExtendedResponse_BERPacket e
      | Intermediate_Response e \<Rightarrow> IntermediateResponse_BERPacket e)"

definition extended_result_ok :: "extended_result_value \<Rightarrow> bool" where
  "extended_result_ok v \<longleftrightarrow>
     (case v of
        Extended_Response e \<Rightarrow> extended_response_ok e
      | Intermediate_Response e \<Rightarrow> intermediate_response_ok e)"

interpretation ldap_extended_result:
  codec "\<lambda>v. ExtendedResult_packet (the v)" ExtendedResult_UnmarshalBER "\<lambda>v. v \<noteq> None \<and> extended_result_ok (the v)"
proof unfold_locales
  fix a :: extended_result and r n p ps
  define t where "t = (case a of Some (Extended_Response _) \<Rightarrow> extendedResponseIdentifier | _ \<Rightarrow> intermediateResponseIdentifier)"
  have t: "tagged (ExtendedResult_packet (the a)) t" if "a \<noteq> None"
    using that by (auto simp: t_def ExtendedResult_packet_def extended_response_packet intermediate_response_packet extended_tags
      split: option.splits extended_result_value.splits)
  then show "a \<noteq> None \<and> extended_result_ok (the a) \<Longrightarrow> single (ExtendedResult_packet (the a))"
    by (auto simp: tagged_def single_def)
  assume a: "a \<noteq> None \<and> extended_result_ok (the a)" and h: "holds r n (p # ps)"
    and s: "same_octets p (ExtendedResult_packet (the a))"
  then obtain v where v: "a = Some v" by (cases a) auto
  have "extendedChoice t (scope_at r None [] n) = (a, scope_at (past p r) None [] (n + nodes p))"
  proof (cases v)
    case (Extended_Response e)
    with ldap_extended_response.read_value [OF _ h _ finished_None, of e _ "[]"] a s v show ?thesis
      by (simp add: extendedChoice_def t_def ExtendedResult_packet_def extended_result_ok_def extended_tags)
  next
    case (Intermediate_Response e)
    with ldap_intermediate_response.read_value [OF _ h _ finished_None, of e _ "[]"] a s v show ?thesis
      by (simp add: extendedChoice_def t_def ExtendedResult_packet_def extended_result_ok_def)
  qed
  then show "ExtendedResult_UnmarshalBER r n = (Inr a, past p r, n + nodes p)"
    unfolding ExtendedResult_UnmarshalBER_def
    by (rule choice_value [where choice = extendedChoice, OF h s t [OF conjunct1 [OF a]]])
qed


section \<open>Properties\<close>

lemma extended_spec_ok: "spec_ok \<lparr>rs_Continue = [intermediateResponseIdentifier], rs_Complete = [extendedResponseIdentifier], rs_NoResponse = False\<rparr>"
  by (simp add: spec_ok_def extended_tags) (simp add: tag_defs)

lemma NewExtendedOperation_ok:
  "None \<notin> set controls \<Longrightarrow> NewExtendedOperation (Some v) controls =
     Inr \<lparr>op_Protocol = Some \<lparr>po_packet = ExtendedRequest_BERPacket v, po_identifier = extendedRequestIdentifier\<rparr>,
          op_Controls = controls, op_Responses = extendedResponsePattern, op_Cancellation = CancelDrain, op_Label = ''ldap.extended''\<rparr>"
  unfolding NewExtendedOperation_def extendedResponsePattern_def option.map
  by (rule newOperation_accepts [OF extended_spec_ok]) (simp_all add: extended_tags tag_defs cancel_defs)

end
