(* ===== verification/Conn_State.thy ===== *)
theory Conn_State
  imports Conn_Types Ldap_Extended Ldap_Bind Ldap_Update Response "HOL-Library.AList"
begin

text \<open>
  The state of a connection and its critical sections (\<^verbatim>\<open>src/connection.go\<close>).

  The record \<open>conn\<close> holds the fields \<^verbatim>\<open>c.mu\<close> protects.  A \<^verbatim>\<open>*pendingOperation\<close> is an address into \<open>cn_heap\<close>, so that the
  map \<^verbatim>\<open>c.pending\<close> and the goroutines working for an operation share one object and the comparisons
  \<^verbatim>\<open>c.pending[p.id] == p\<close> compare addresses.  The maps are association lists without duplicate keys.  A channel
  that is only ever closed is a flag; \<^verbatim>\<open>p.ready\<close>, \<^verbatim>\<open>c.unsolicitedReady\<close> and \<^verbatim>\<open>c.writeToken\<close> have capacity one and are
  flags too; \<^verbatim>\<open>c.idChanged\<close>, closed and replaced on every change, is a generation number.  \<^verbatim>\<open>c.done\<close> is closed together with
  the assignment of \<^verbatim>\<open>c.err\<close> and needs no field of its own.

  One function models one critical section, from \<^verbatim>\<open>c.mu.Lock()\<close> to \<^verbatim>\<open>c.mu.Unlock()\<close>.  \<open>Conn_Machine\<close> composes them.
\<close>

section \<open>State\<close>

datatype trace_event_kind = TraceQueued | TraceWritten | TraceFirstResponse | TraceCanceled | TraceConnectionRetired

record trace_end =
  te_RequestBytes :: u64
  te_ResponseBytes :: u64
  te_Responses :: u64
  te_ErrorClass :: string

text \<open>What is sent to the channel of the operation's observer: kind, bytes and responses of an event, or its end.\<close>

datatype trace_dispatch =
    DispatchEvent trace_event_kind u64 u64
  | DispatchEnd trace_end

record pending_operation =
  pn_id :: int
  pn_pattern :: framing_pattern
  pn_mode :: byte
  pn_ctx :: "failure option"
  pn_observer :: "trace_dispatch list"
  pn_requestBytes :: u64
  pn_responseBytes :: u64
  pn_responses :: u64
  pn_firstResponse :: bool
  pn_writeObserved :: bool
  pn_queue :: "response list"
  pn_queuedBytes :: int
  pn_deliveryErr :: "failure option"
  pn_canceled :: bool
  pn_terminal :: bool
  pn_abandoning :: bool
  pn_writeStarted :: bool
  pn_ready :: bool
  pn_lifecycleDone :: bool

record conn =
  cn_options :: connection_options
  cn_maxID :: int
  cn_state :: connection_state
  cn_closing :: bool
  cn_err :: "failure option"
  cn_identity :: identity
  cn_policy :: connection_policy
  cn_nextID :: int
  cn_idChanged :: nat
  cn_reserved :: "int list"
  cn_pending :: "(int \<times> nat) list"
  cn_tombstones :: "(int \<times> framing_pattern) list"
  cn_unsolicited :: "response list"
  cn_unsolicitedBytes :: int
  cn_unsolicitedReady :: bool
  cn_writeToken :: bool
  cn_heap :: "pending_operation list"

definition newConn ::
    "bool \<Rightarrow> connection_options \<Rightarrow> int \<Rightarrow> connection_state \<Rightarrow> failure + conn" where
  "newConn transport opt maxID st =
     (if \<not> transport then Inl (Text ''arden: nil connection transport'' [])
      else if maxID \<le> 0 \<or> MaxMessageID < maxID then Inl (Text ''arden: invalid message ID limit'' [])
      else if st \<noteq> stateTransportSetup \<and> st \<noteq> stateReady
      then Inl (Text ''arden: invalid initial connection state'' [])
      else case Limits_Validate (BERLimits opt) of
          Some err \<Rightarrow> Inl (Ber err)
        | None \<Rightarrow>
            Inr \<lparr>cn_options = opt, cn_maxID = maxID, cn_state = st, cn_closing = False, cn_err = None,
                 cn_identity = \<lparr>StableID = ''unauthenticated''\<rparr>,
                 cn_policy = \<lparr>cp_Cancellation = CancellationConservative\<rparr>,
                 cn_nextID = 0, cn_idChanged = 0, cn_reserved = [], cn_pending = [], cn_tombstones = [],
                 cn_unsolicited = [], cn_unsolicitedBytes = 0, cn_unsolicitedReady = False,
                 cn_writeToken = True, cn_heap = []\<rparr>)"

text \<open>The object at an address and its update.\<close>

definition op_at :: "conn \<Rightarrow> nat \<Rightarrow> pending_operation" where
  "op_at c a = cn_heap c ! a"

definition upd_op :: "nat \<Rightarrow> (pending_operation \<Rightarrow> pending_operation) \<Rightarrow> conn \<Rightarrow> conn" where
  "upd_op a f c = c\<lparr>cn_heap := (cn_heap c)[a := f (op_at c a)]\<rparr>"

text \<open>\<^verbatim>\<open>c.pending[p.id] == p\<close>.\<close>

definition is_pending :: "conn \<Rightarrow> nat \<Rightarrow> bool" where
  "is_pending c a \<longleftrightarrow> map_of (cn_pending c) (pn_id (op_at c a)) = Some a"

section \<open>Message IDs\<close>

text \<open>The increment of an \<^verbatim>\<open>int32\<close>.\<close>

definition int32_inc :: "int \<Rightarrow> int" where
  "int32_inc n = (n + 1 + 2 ^ 31) mod 2 ^ 32 - 2 ^ 31"

fun tryReserveLoop :: "nat \<Rightarrow> conn \<Rightarrow> int option \<times> conn" where
  "tryReserveLoop 0 c = (None, c)"
| "tryReserveLoop (Suc n) c =
     (let next = int32_inc (cn_nextID c);
          mid = (if cn_maxID c < next \<or> next \<le> 0 then 1 else next);
          c1 = c\<lparr>cn_nextID := mid\<rparr>
      in if mid \<in> set (cn_reserved c1) then tryReserveLoop n c1
         else if map_of (cn_pending c1) mid \<noteq> None then tryReserveLoop n c1
         else if map_of (cn_tombstones c1) mid \<noteq> None then tryReserveLoop n c1
         else (Some mid, c1\<lparr>cn_reserved := mid # cn_reserved c1\<rparr>))"

definition tryReserveMessageIDLocked :: "conn \<Rightarrow> int option \<times> conn" where
  "tryReserveMessageIDLocked c =
     (if int (length (cn_reserved c)) + int (length (cn_pending c)) + int (length (cn_tombstones c)) \<ge> cn_maxID c
      then (None, c)
      else tryReserveLoop (nat (cn_maxID c)) c)"

definition signalIDChangedLocked :: "conn \<Rightarrow> conn" where
  "signalIDChangedLocked c = c\<lparr>cn_idChanged := cn_idChanged c + 1\<rparr>"

definition scopeAllowedLocked :: "operation_scope \<Rightarrow> conn \<Rightarrow> bool" where
  "scopeAllowedLocked scope c =
     (case scope of
        operationApplication \<Rightarrow> cn_state c = stateReady
      | operationInitialization \<Rightarrow> cn_state c = stateAuthenticating \<or> cn_state c = stateInitializing)"

text \<open>The guards \<^verbatim>\<open>reserveMessageID\<close> and \<^verbatim>\<open>installPending\<close> share.\<close>

definition admission :: "operation_scope \<Rightarrow> conn \<Rightarrow> failure option" where
  "admission scope c =
     (case cn_err c of
        Some err \<Rightarrow> Some err
      | None \<Rightarrow>
          if cn_closing c then Some (Sentinel ErrClosed)
          else if \<not> scopeAllowedLocked scope c
          then Some (Sentinel (if scope = operationApplication then ErrConnectionNotReady else ErrInitializationClosed))
          else None)"

text \<open>One round of the loop of \<^verbatim>\<open>reserveMessageID\<close>: an error, an ID, or nothing, in which case the caller waits for a
  new generation.\<close>

definition reserveMessageID :: "operation_scope \<Rightarrow> conn \<Rightarrow> (failure + int option) \<times> conn" where
  "reserveMessageID scope c =
     (case admission scope c of
        Some err \<Rightarrow> (Inl err, c)
      | None \<Rightarrow> (case tryReserveMessageIDLocked c of (mid, c') \<Rightarrow> (Inr mid, c')))"

definition releaseReserved :: "int \<Rightarrow> conn \<Rightarrow> conn" where
  "releaseReserved mid c =
     (if mid \<in> set (cn_reserved c)
      then signalIDChangedLocked (c\<lparr>cn_reserved := filter (\<lambda>i. i \<noteq> mid) (cn_reserved c)\<rparr>)
      else c)"

section \<open>Observers\<close>

definition observer_event :: "trace_event_kind \<Rightarrow> u64 \<Rightarrow> u64 \<Rightarrow> pending_operation \<Rightarrow> pending_operation" where
  "observer_event kind bs rs p = p\<lparr>pn_observer := pn_observer p @ [DispatchEvent kind bs rs]\<rparr>"

definition signalReady :: "pending_operation \<Rightarrow> pending_operation" where
  "signalReady p = p\<lparr>pn_ready := True\<rparr>"

definition finishLifecycle :: "failure option \<Rightarrow> pending_operation \<Rightarrow> pending_operation" where
  "finishLifecycle err p =
     (if pn_lifecycleDone p then p
      else p\<lparr>pn_lifecycleDone := True,
             pn_observer := pn_observer p @
               [DispatchEnd \<lparr>te_RequestBytes = pn_requestBytes p, te_ResponseBytes = pn_responseBytes p,
                             te_Responses = pn_responses p, te_ErrorClass = errorClass err\<rparr>]\<rparr>)"

section \<open>Installing and removing operations\<close>

text \<open>The operation \<^verbatim>\<open>do\<close> allocates, after its \<^verbatim>\<open>TraceQueued\<close> event.\<close>

definition newPending :: "int \<Rightarrow> untyped_operation \<Rightarrow> failure option \<Rightarrow> nat \<Rightarrow> pending_operation" where
  "newPending mid op ctx requestBytes =
     \<lparr>pn_id = mid, pn_pattern = uo_Responses op, pn_mode = uo_Cancellation op, pn_ctx = ctx,
      pn_observer = [DispatchEvent TraceQueued 0 0],
      pn_requestBytes = of_nat requestBytes, pn_responseBytes = 0, pn_responses = 0, pn_firstResponse = False,
      pn_writeObserved = False, pn_queue = [], pn_queuedBytes = 0, pn_deliveryErr = None, pn_canceled = False,
      pn_terminal = False, pn_abandoning = False, pn_writeStarted = False, pn_ready = False,
      pn_lifecycleDone = False\<rparr>"

text \<open>\<^verbatim>\<open>installPending\<close>; the object gets its address when it becomes shared.\<close>

definition installPending :: "pending_operation \<Rightarrow> operation_scope \<Rightarrow> conn \<Rightarrow> (failure + nat) \<times> conn" where
  "installPending p scope c =
     (case admission scope c of
        Some err \<Rightarrow> (Inl err, c)
      | None \<Rightarrow>
          if pn_id p \<notin> set (cn_reserved c) then (Inl (Text ''arden: message ID reservation was lost'' []), c)
          else let a = length (cn_heap c) in
            (Inr a, c\<lparr>cn_reserved := filter (\<lambda>i. i \<noteq> pn_id p) (cn_reserved c),
                      cn_pending := AList.update (pn_id p) a (cn_pending c),
                      cn_heap := cn_heap c @ [p]\<rparr>))"

definition removePending :: "nat \<Rightarrow> conn \<Rightarrow> conn" where
  "removePending a c = c\<lparr>cn_pending := AList.delete (pn_id (op_at c a)) (cn_pending c)\<rparr>"

definition removeDefinitelyUnsent :: "nat \<Rightarrow> failure option \<Rightarrow> conn \<Rightarrow> conn" where
  "removeDefinitelyUnsent a err c =
     (if is_pending c a
      then upd_op a (\<lambda>p. signalReady (finishLifecycle err (p\<lparr>pn_terminal := True\<rparr>)))
             (signalIDChangedLocked (removePending a c))
      else c)"

text \<open>\<^verbatim>\<open>completeNoResponse\<close> is the same section with a nil error.\<close>

definition completeNoResponse :: "nat \<Rightarrow> conn \<Rightarrow> conn" where
  "completeNoResponse a c =
     (if is_pending c a
      then upd_op a (\<lambda>p. signalReady (finishLifecycle None (p\<lparr>pn_terminal := True\<rparr>)))
             (signalIDChangedLocked (removePending a c))
      else c)"

section \<open>Response streams\<close>

text \<open>One round of the loop of \<^verbatim>\<open>responseStream.Next\<close> under the lock: a response, an error, or nothing to return yet.\<close>

definition stream_Next :: "nat \<Rightarrow> conn \<Rightarrow> (failure + response) option \<times> conn" where
  "stream_Next a c =
     (let p = op_at c a in
      case pn_queue p of
        r # rs \<Rightarrow>
          (Some (Inr r),
           upd_op a (\<lambda>p. p\<lparr>pn_queue := rs, pn_queuedBytes := pn_queuedBytes p - int (length (re_Bytes r))\<rparr>) c)
      | [] \<Rightarrow>
          (case pn_deliveryErr p of
             Some err \<Rightarrow> (Some (Inl err), c)
           | None \<Rightarrow> if pn_terminal p then (Some (Inl (Sentinel IO_EOF)), c) else (None, c)))"

text \<open>What a section asks its caller to do after unlocking.\<close>

datatype cancel_action = cancelActionNone | cancelActionAbandon | cancelActionClose

definition cancelAction :: "byte \<Rightarrow> cancel_action" where
  "cancelAction mode =
     (if mode = CancelAbandon then cancelActionAbandon
      else if mode = CancelClose then cancelActionClose else cancelActionNone)"

definition cancelDelivery :: "failure \<Rightarrow> pending_operation \<Rightarrow> pending_operation" where
  "cancelDelivery err p = p\<lparr>pn_deliveryErr := Some err, pn_queue := [], pn_queuedBytes := 0, pn_canceled := True\<rparr>"

definition cancelOperation :: "nat \<Rightarrow> failure \<Rightarrow> conn \<Rightarrow> cancel_action \<times> conn" where
  "cancelOperation a reason c =
     (if pn_terminal (op_at c a) then (cancelActionNone, c)
      else
        let c1 = (if pn_deliveryErr (op_at c a) = None
                  then upd_op a (\<lambda>p. signalReady (observer_event TraceCanceled (pn_responseBytes p) (pn_responses p)
                                        (cancelDelivery reason p))) c
                  else c);
            action = (if is_pending c1 a \<and> \<not> pn_abandoning (op_at c1 a) then cancelAction (pn_mode (op_at c1 a))
                      else cancelActionNone)
        in (action,
            if action = cancelActionAbandon then upd_op a (\<lambda>p. p\<lparr>pn_abandoning := True\<rparr>) c1 else c1))"

section \<open>Retirement\<close>

definition operationRetirementError :: "pending_operation \<Rightarrow> failure \<Rightarrow> failure" where
  "operationRetirementError p err =
     (case as_TransportError err of
        None \<Rightarrow> err
      | Some (stage, outcome, cause) \<Rightarrow>
          TransportError stage (if pn_writeStarted p then OutcomeAmbiguous else OutcomeDefinitelyUnsent) cause)"

text \<open>What the loop of \<^verbatim>\<open>retire\<close> does to one pending operation.\<close>

definition retireOperation :: "failure \<Rightarrow> pending_operation \<Rightarrow> pending_operation" where
  "retireOperation err p =
     (let p1 = (if pn_deliveryErr p = None then p\<lparr>pn_deliveryErr := Some (operationRetirementError p err)\<rparr> else p);
          p2 = (observer_event TraceConnectionRetired (pn_responseBytes p1) (pn_responses p1) p1)\<lparr>pn_terminal := True\<rparr>
      in signalReady (finishLifecycle (pn_deliveryErr p2) p2))"

text \<open>\<^verbatim>\<open>retire\<close>; a nil error is \<open>None\<close>.\<close>

definition retire :: "failure option \<Rightarrow> conn \<Rightarrow> conn" where
  "retire err c =
     (if cn_err c \<noteq> None then c
      else
        let e = (if cn_closing c then Sentinel ErrClosed else (case err of None \<Rightarrow> Sentinel ErrClosed | Some e \<Rightarrow> e));
            c1 = foldr (\<lambda>(mid, a) c. upd_op a (retireOperation e) c) (cn_pending c) c
        in signalIDChangedLocked
             (c1\<lparr>cn_err := Some e, cn_state := stateClosed, cn_reserved := [], cn_pending := [], cn_tombstones := [],
                 cn_unsolicitedReady := True\<rparr>))"

section \<open>Writing\<close>

text \<open>\<^verbatim>\<open>acquireWriter\<close> once it has received the token, with the state of its context; the token is put back on failure.\<close>

definition unsent :: "failure \<Rightarrow> failure" where
  "unsent err = TransportError StageWrite OutcomeDefinitelyUnsent err"

definition acquireWriter :: "failure option \<Rightarrow> conn \<Rightarrow> failure option \<times> conn" where
  "acquireWriter ctx c =
     (case ctx of
        Some err \<Rightarrow> (Some (unsent err), c)
      | None \<Rightarrow>
          (case cn_err c of
             Some err \<Rightarrow> (Some (unsent err), c)
           | None \<Rightarrow>
               if cn_closing c then (Some (unsent (Sentinel ErrClosed)), c)
               else (None, c\<lparr>cn_writeToken := False\<rparr>)))"

definition releaseWriter :: "conn \<Rightarrow> conn" where
  "releaseWriter c = c\<lparr>cn_writeToken := True\<rparr>"

text \<open>The section of \<^verbatim>\<open>writeRequest\<close> between the token and the write.\<close>

definition startWrite :: "nat \<Rightarrow> conn \<Rightarrow> conn" where
  "startWrite a c = (if is_pending c a then upd_op a (\<lambda>p. p\<lparr>pn_writeStarted := True\<rparr>) c else c)"

text \<open>One iteration of the loop of \<^verbatim>\<open>writeAll\<close> ends in one of three ways: the context is done at its top; the context's
  \<^verbatim>\<open>AfterFunc\<close> ran before the write returned \<open>n\<close>; the write returned \<open>n\<close> and an error, with the state of the context
  after it.\<close>

datatype write_outcome =
    CtxDone failure
  | Interrupted nat failure
  | Returned nat "failure option" "failure option"

text \<open>\<^verbatim>\<open>writeAll\<close> returns the number of bytes, the error and the call of \<^verbatim>\<open>retire\<close> it caused: one of its own, made before it returns,
  or one of the context's \<^verbatim>\<open>AfterFunc\<close>, which runs in its own goroutine.  \<^verbatim>\<open>Write\<close> returns \<^verbatim>\<open>0 <= n\<close> (\<^verbatim>\<open>io.Writer\<close>), and an
  iteration that goes on has written something, which ends the loop.\<close>

datatype retire_call = NoRetire | RetireHere failure | RetireByContext failure

function writeLoop :: "(nat \<Rightarrow> write_outcome) \<Rightarrow> nat \<Rightarrow> nat \<Rightarrow> nat \<Rightarrow> nat \<times> failure option \<times> retire_call" where
  "writeLoop env len i sent =
     (if \<not> sent < len then (sent, None, NoRetire)
      else case env i of
          CtxDone err \<Rightarrow>
            (let t = TransportError StageWrite (if sent \<noteq> 0 then OutcomeAmbiguous else OutcomeDefinitelyUnsent) err
             in (sent, Some t, if sent \<noteq> 0 then RetireHere t else NoRetire))
        | Interrupted n err \<Rightarrow>
            (let t = TransportError StageWrite OutcomeAmbiguous err in (sent + n, Some t, RetireByContext t))
        | Returned n err ctx \<Rightarrow>
            (let sent' = sent + n;
                 err' = (if err = None \<and> n = 0 then Some (Sentinel IO_ErrNoProgress) else err)
             in case err' of
                  None \<Rightarrow> writeLoop env len (i + 1) sent'
                | Some e \<Rightarrow>
                    let t = TransportError StageWrite
                              (if sent' \<noteq> 0 \<or> ctx \<noteq> None then OutcomeAmbiguous else OutcomeDefinitelyUnsent)
                              (case ctx of None \<Rightarrow> e | Some ce \<Rightarrow> ce)
                    in (sent', Some t, RetireHere t)))"
  by pat_completeness auto
termination
  by (relation "measure (\<lambda>(env, len, i, sent). len - sent)") (auto split: if_splits)

declare writeLoop.simps [simp del]

definition writeAll :: "(nat \<Rightarrow> write_outcome) \<Rightarrow> bytes \<Rightarrow> nat \<times> failure option \<times> retire_call" where
  "writeAll env message = writeLoop env (length message) 0 0"

section \<open>Abandon\<close>

text \<open>The three sections of \<^verbatim>\<open>sendAbandon\<close> around its write: nothing to do, no ID left, or the reserved ID; the switch of
  the target to a tombstone once the writer is held.\<close>

definition sendAbandon_begin :: "nat \<Rightarrow> conn \<Rightarrow> (failure + int option) \<times> conn" where
  "sendAbandon_begin a c =
     (if \<not> is_pending c a \<or> cn_err c \<noteq> None \<or> cn_closing c then (Inr None, c)
      else case tryReserveMessageIDLocked c of
          (None, c') \<Rightarrow> (Inl (Limit_Error ''message IDs'' (cn_maxID c + 1) (cn_maxID c)), c')
        | (Some mid, c') \<Rightarrow> (Inr (Some mid), c'))"

definition sendAbandon_entomb :: "nat \<Rightarrow> conn \<Rightarrow> bool \<times> conn" where
  "sendAbandon_entomb a c =
     (if \<not> is_pending c a \<or> cn_err c \<noteq> None \<or> cn_closing c then (False, c)
      else
        let p = op_at c a in
        (True, upd_op a (\<lambda>p. signalReady (finishLifecycle (pn_deliveryErr p) p))
                 ((removePending a c)\<lparr>cn_tombstones := AList.update (pn_id p) (pn_pattern p) (cn_tombstones c)\<rparr>)))"

definition encodeInternalRequest :: "int \<Rightarrow> packet \<Rightarrow> bytes" where
  "encodeInternalRequest mid operation = Encode (Envelope_Add [operation] (Envelope_Add [ber_Integer mid] ber_Sequence))"

section \<open>Routing\<close>

definition queueLimit :: "pending_operation \<Rightarrow> int \<Rightarrow> connection_options \<Rightarrow> failure" where
  "queueLimit p sz opt =
     (if int (length (pn_queue p)) = MaxQueuedResponses opt
      then Limit_Error ''operation response queue messages'' (int (length (pn_queue p)) + 1) (MaxQueuedResponses opt)
      else Limit_Error ''operation response queue bytes'' (pn_queuedBytes p + sz) (MaxQueuedResponseBytes opt))"

text \<open>The accounting of \<^verbatim>\<open>route\<close> for a classified response, and its delivery: the operation after it and the action
  overflow asks for.\<close>

definition countResponse :: "response \<Rightarrow> pending_operation \<Rightarrow> pending_operation" where
  "countResponse r p =
     (let p1 = p\<lparr>pn_responseBytes := pn_responseBytes p + of_nat (length (re_Bytes r)), pn_responses := pn_responses p + 1\<rparr>
      in if pn_firstResponse p1 then p1
         else observer_event TraceFirstResponse (pn_responseBytes p1) (pn_responses p1) (p1\<lparr>pn_firstResponse := True\<rparr>))"

definition deliver :: "connection_options \<Rightarrow> bool \<Rightarrow> response \<Rightarrow> pending_operation \<Rightarrow> cancel_action \<times> pending_operation" where
  "deliver opt complete r p =
     (let sz = int (length (re_Bytes r)) in
      if pn_canceled p then (cancelActionNone, p)
      else if int (length (pn_queue p)) = MaxQueuedResponses opt \<or> pn_queuedBytes p + sz > MaxQueuedResponseBytes opt
      then let action = (if complete then cancelActionNone else cancelAction (pn_mode p));
               p1 = cancelDelivery (queueLimit p sz opt) p
           in (action, if action = cancelActionAbandon then p1\<lparr>pn_abandoning := True\<rparr> else p1)
      else (cancelActionNone, p\<lparr>pn_queue := pn_queue p @ [r], pn_queuedBytes := pn_queuedBytes p + sz\<rparr>))"

text \<open>The outcomes of one attempt of \<^verbatim>\<open>route\<close> on a response with a nonzero ID: done, with an error for the reader or an
  \<^verbatim>\<open>Abandon\<close> to start; or the request is not written yet and the reader waits for that or for the end of the
  connection.\<close>

datatype routed = Routed "failure option" | RoutedAbandon nat | AwaitWritten nat

definition unexpectedIdentifier :: "response \<Rightarrow> failure" where
  "unexpectedIdentifier r = ProtocolError ProtocolUnexpectedIdentifier (re_MessageID r) (re_ProtocolID r) None"

definition routePending :: "nat \<Rightarrow> response \<Rightarrow> conn \<Rightarrow> routed \<times> conn" where
  "routePending a r c =
     (let p = op_at c a; cl = FramingPattern_Classify (pn_pattern p) (re_ProtocolID r);
          complete = (cl = ClassificationComplete)
      in if cl = ClassificationInvalid then (Routed (Some (unexpectedIdentifier r)), c)
         else
           let p1 = countResponse r p;
               c1 = (if complete then signalIDChangedLocked (removePending a c) else c);
               p2 = (if complete then p1\<lparr>pn_terminal := True\<rparr> else p1);
               (action, p3) = deliver (cn_options c) complete r p2;
               p4 = signalReady p3;
               p5 = (if complete then finishLifecycle (pn_deliveryErr p4) p4 else p4);
               c2 = upd_op a (\<lambda>_. p5) c1
           in (case action of
                 cancelActionNone \<Rightarrow> (Routed None, c2)
               | cancelActionAbandon \<Rightarrow> (RoutedAbandon a, c2)
               | cancelActionClose \<Rightarrow> (Routed (Some (Limit_Error ''operation response queue'' 1 0)), c2)))"

definition routeID :: "response \<Rightarrow> conn \<Rightarrow> routed \<times> conn" where
  "routeID r c =
     (case map_of (cn_pending c) (re_MessageID r) of
        None \<Rightarrow>
          (case map_of (cn_tombstones c) (re_MessageID r) of
             None \<Rightarrow> (Routed (Some (ProtocolError ProtocolUnexpectedMessageID (re_MessageID r) (re_ProtocolID r) None)), c)
           | Some pattern \<Rightarrow>
               if FramingPattern_Classify pattern (re_ProtocolID r) = ClassificationInvalid
               then (Routed (Some (unexpectedIdentifier r)), c)
               else (Routed None, c))
      | Some a \<Rightarrow>
          if pn_writeObserved (op_at c a) then routePending a r c
          else if cn_err c \<noteq> None then (Routed None, c)
          else (AwaitWritten a, c))"

definition parseNotice :: "bytes \<Rightarrow> limits \<Rightarrow> goerror + failure option" where
  "parseNotice protocol lim =
     (case NewReader protocol lim of
        Inl err \<Rightarrow> Inl err
      | Inr r \<Rightarrow>
          (case ExtendedResponse_UnmarshalBER r 0 of
             (Inl err, _, _) \<Rightarrow> Inl err
           | (Inr resp, r', _) \<Rightarrow>
               (case RequireEmpty r' of
                  Some err \<Rightarrow> Inl err
                | None \<Rightarrow>
                    if \<not> ex_HasResponseName resp \<or> ex_ResponseName resp \<noteq> NoticeOfDisconnectionOID then Inr None
                    else Inr (Some (NoticeError (lr_ResultCode (ex_Result resp)) (lr_DiagnosticMessage (ex_Result resp)))))))"

definition routeUnsolicited :: "response \<Rightarrow> conn \<Rightarrow> failure option \<times> conn" where
  "routeUnsolicited r c =
     (if re_ProtocolID r \<noteq> extendedResponseIdentifier
      then (Some (ProtocolError ProtocolUnexpectedIdentifier 0 (re_ProtocolID r) None), c)
      else case parseNotice (re_Protocol r) (BERLimits (cn_options c)) of
          Inl err \<Rightarrow> (Some (ProtocolError ProtocolEnvelope 0 (re_ProtocolID r) (Some (translateBERLimit err))), c)
        | Inr (Some notice) \<Rightarrow> (Some notice, c)
        | Inr None \<Rightarrow>
            (let n = int (length (cn_unsolicited c)); sz = int (length (re_Bytes r)); opt = cn_options c in
             if n = MaxUnsolicitedResponses opt
             then (Some (Limit_Error ''unsolicited response queue messages'' (n + 1) (MaxUnsolicitedResponses opt)), c)
             else if cn_unsolicitedBytes c + sz > MaxUnsolicitedResponseBytes opt
             then (Some (Limit_Error ''unsolicited response queue bytes'' (cn_unsolicitedBytes c + sz)
                          (MaxUnsolicitedResponseBytes opt)), c)
             else (None, c\<lparr>cn_unsolicited := cn_unsolicited c @ [r], cn_unsolicitedBytes := cn_unsolicitedBytes c + sz,
                           cn_unsolicitedReady := True\<rparr>)))"

definition route :: "response \<Rightarrow> conn \<Rightarrow> routed \<times> conn" where
  "route r c =
     (if re_MessageID r = 0 then (case routeUnsolicited r c of (err, c') \<Rightarrow> (Routed err, c'))
      else routeID r c)"

text \<open>One round of the loop of \<^verbatim>\<open>NextUnsolicited\<close> under the lock.\<close>

definition NextUnsolicited :: "conn \<Rightarrow> (failure + response) option \<times> conn" where
  "NextUnsolicited c =
     (case cn_unsolicited c of
        r # rs \<Rightarrow>
          (Some (Inr r), c\<lparr>cn_unsolicited := rs, cn_unsolicitedBytes := cn_unsolicitedBytes c - int (length (re_Bytes r))\<rparr>)
      | [] \<Rightarrow> (case cn_err c of Some err \<Rightarrow> (Some (Inl err), c) | None \<Rightarrow> (None, c)))"

section \<open>Closing\<close>

text \<open>The first section of \<^verbatim>\<open>CloseContext\<close>: the connection has ended and the call returns, another call is closing it, or
  this call closes it.\<close>

datatype close_begin = CloseReturns "failure option" | CloseWaits | CloseProceeds

definition CloseContext_begin :: "conn \<Rightarrow> close_begin \<times> conn" where
  "CloseContext_begin c =
     (case cn_err c of
        Some err \<Rightarrow> (CloseReturns (if cn_closing c \<or> errors_Is err ErrClosed then None else Some err), c)
      | None \<Rightarrow>
          if cn_closing c then (CloseWaits, c)
          else (CloseProceeds,
                c\<lparr>cn_closing := True,
                  cn_state := (if cn_state c \<noteq> stateClosed then stateDraining else cn_state c)\<rparr>))"

definition CloseContext_result :: "failure option \<Rightarrow> failure option" where
  "CloseContext_result closeErr =
     (case closeErr of
        None \<Rightarrow> None
      | Some err \<Rightarrow> if errors_Is err ErrClosed then None else Some err)"

section \<open>Setup\<close>

definition transition :: "connection_state \<Rightarrow> conn \<Rightarrow> failure option \<times> conn" where
  "transition to c =
     (case cn_err c of
        Some err \<Rightarrow> (Some err, c)
      | None \<Rightarrow>
          (case advanceConnectionState (cn_state c) to of
             Inl err \<Rightarrow> (Some err, c)
           | Inr st \<Rightarrow> (None, c\<lparr>cn_state := st\<rparr>)))"

definition requireInitializationIdle :: "conn \<Rightarrow> failure option" where
  "requireInitializationIdle c =
     (case cn_err c of
        Some err \<Rightarrow> Some err
      | None \<Rightarrow>
          if cn_reserved c \<noteq> [] \<or> cn_pending c \<noteq> [] \<or> cn_tombstones c \<noteq> []
          then Some (Text ''arden: initialization returned with an operation still active'' []) else None)"

definition markReady :: "identity \<Rightarrow> connection_policy \<Rightarrow> conn \<Rightarrow> failure option \<times> conn" where
  "markReady ident policy c =
     (case cn_err c of
        Some err \<Rightarrow> (Some err, c)
      | None \<Rightarrow>
          if cn_state c \<noteq> stateInitializing
          then (Some (Text ''arden: connection did not finish initialization'' []), c)
          else if cn_reserved c \<noteq> [] \<or> cn_pending c \<noteq> [] \<or> cn_tombstones c \<noteq> []
          then (Some (Text ''arden: connection has active initialization work'' []), c)
          else case advanceConnectionState (cn_state c) stateReady of
              Inl err \<Rightarrow> (Some err, c)
            | Inr st \<Rightarrow> (None, c\<lparr>cn_identity := ident, cn_policy := policy, cn_state := st\<rparr>))"

end
