(* ===== verification/Conn_Request.thy ===== *)
theory Conn_Request
  imports Conn_State Ber_Framer
begin

text \<open>
  Requests on the wire (\<^verbatim>\<open>encodeLDAPRequest\<close> and \<^verbatim>\<open>isAssociationChanging\<close> of \<^verbatim>\<open>src/connection.go\<close>), and what the peer's framer and
  envelope parser make of them.

  \<^verbatim>\<open>Validate\<close> has rejected nil controls before a request is encoded; the encoder adds the others.
\<close>

section \<open>Encoding\<close>

definition isAssociationChanging :: "ident \<Rightarrow> bool" where
  "isAssociationChanging tag \<longleftrightarrow> tag = bindRequestIdentifier \<or> tag = unbindRequestIdentifier"

definition requestPacket :: "int \<Rightarrow> protocol_operation \<Rightarrow> packet option list \<Rightarrow> packet" where
  "requestPacket mid p controls =
     (let message = Envelope_Add [po_packet p] (Envelope_Add [ber_Integer mid] ber_Sequence) in
      if controls \<noteq> []
      then Envelope_Add [Envelope_Add (List.map_filter (\<lambda>c. c) controls) (ber_Constructed controlsIdentifier)] message
      else message)"

definition encodeLDAPRequest :: "int \<Rightarrow> protocol_operation \<Rightarrow> packet option list \<Rightarrow> limits \<Rightarrow> failure + bytes" where
  "encodeLDAPRequest mid p controls lim =
     (let encoded = Encode (requestPacket mid p controls) in
      if MaxFrameBytes lim < int (length encoded)
      then Inl (Limit_Error ''request frame bytes'' (int (length encoded)) (MaxFrameBytes lim))
      else case parseOwnedResponse encoded lim of
          Inl err \<Rightarrow> Inl (Wrapped ''arden: request envelope: %w'' [] (Ber err))
        | Inr envelope \<Rightarrow>
            if re_ProtocolID envelope \<noteq> po_identifier p
            then Inl (Text ''arden: encoded request identifier %s does not match declared identifier %s''
                        [AId (re_ProtocolID envelope), AId (po_identifier p)])
            else if length (re_Controls envelope) \<noteq> length controls \<or> re_Extensions envelope \<noteq> []
            then Inl (Text ''arden: request packets must each encode exactly one value'' [])
            else Inr encoded)"

section \<open>Reading an envelope back\<close>

text \<open>An element that was read is the element that was there.\<close>

lemma ReadElement_at:
  assumes "ReadElement r n = (Inr e, r', n')" "unread r = tlv t v @ ts" "Identifier_Valid t" "length v \<le> MaxInt"
  shows "el_Identifier e = t" "el_Value e = v" "el_Raw e = tlv t v" "unread r' = ts" "tag_ok (r_limits r) t"
    "r_limits r' = r_limits r"
proof -
  obtain us where u: "unread r = el_Raw e @ us" "e = element_of r (el_Identifier e) (el_Value e)"
    "tag_ok (r_limits r) (el_Identifier e)" "length (el_Value e) \<le> MaxInt" "r' = advance (length (el_Raw e)) r"
    using ReadElement_inv [OF assms(1)] by blast
  have raw: "el_Raw e = tlv (el_Identifier e) (el_Value e)" using u(2) by (metis element.select_convs(3) element_of_def)
  have eq: "tlv (el_Identifier e) (el_Value e) @ us = tlv t v @ ts" using u(1) assms(2) raw by simp
  have tv: "el_Identifier e = t \<and> el_Value e = v \<and> us = ts"
    using tlv_inj [OF eq _ assms(3) u(4) assms(4)] u(3) by (simp add: tag_ok_def)
  then show "el_Identifier e = t" "el_Value e = v" "el_Raw e = tlv t v" "tag_ok (r_limits r) t" using raw u(3) by simp_all
  show "unread r' = ts" using u(1,5) tv by simp
  show "r_limits r' = r_limits r" using u(5) by simp
qed

lemma Reader_Sequence_at:
  assumes "Reader_Sequence r n = (Inr env, r', n')" "unread r = tlv SequenceIdentifier v @ ts" "length v \<le> MaxInt"
  shows "unread env = v" "tag_ok (r_limits r) SequenceIdentifier" "r_limits env = r_limits r"
proof -
  obtain e r1 n1 where e: "ReadElement r n = (Inr e, r1, n1)" "env = contentsReader r e"
    using assms(1) by (auto simp: Reader_Sequence_def Reader_Constructed_def split: prod.splits sum.splits if_splits)
  show "unread env = v" "tag_ok (r_limits r) SequenceIdentifier" "r_limits env = r_limits r"
    using ReadElement_at [OF e(1) assms(2) _ assms(3)] e(2) by simp_all
qed

lemma Reader_Integer_at:
  assumes "Reader_Integer r n = (Inr x, r', n')" "unread r = tlv IntegerIdentifier (integerBytes v) @ ts"
    and "- (2 ^ 63) \<le> v" "v < 2 ^ 63"
  shows "x = v" "unread r' = ts" "r_limits r' = r_limits r"
proof -
  have len: "length (integerBytes v) \<le> MaxInt" using length_integerBytes [OF assms(3,4)] by simp
  obtain e r1 n1 where e: "ReadElement r n = (Inr e, r1, n1)" "r' = r1"
    "decodeInteger Int64 (el_Value e) (MaxIntegerBytes (r_limits r)) = Inr x"
    using assms(1) by (auto simp: Reader_Integer_def reader_integer_def Reader_Primitive_def
        split: prod.splits sum.splits if_splits)
  note at = ReadElement_at [OF e(1) assms(2) _ len]
  have "integerBytes v \<noteq> []" using integerBytes_spec(2) [of v] assms(3,4) by (simp add: integer_contents_def)
  then have "int (length (integerBytes v)) \<le> MaxIntegerBytes (r_limits r)"
    using e(3) at(2) decodeInteger_limit [of "integerBytes v" "MaxIntegerBytes (r_limits r)"] by (cases "MaxIntegerBytes (r_limits r) < int (length (integerBytes v))") simp_all
  then have "decodeInteger Int64 (integerBytes v) (MaxIntegerBytes (r_limits r)) = Inr v"
    using assms(3,4) by (intro decodeInteger_integerBytes) (simp_all add: int_range_def Int64_def inttype_ok_def)
  then show "x = v" "unread r' = ts" "r_limits r' = r_limits r" using e at by simp_all
qed

section \<open>Requests as the peer sees them\<close>

text \<open>The octets of a request: an integer, the operation, and perhaps the controls.\<close>

definition requestTail :: "packet option list \<Rightarrow> packet list" where
  "requestTail controls =
     (if controls \<noteq> []
      then [Envelope_Add (List.map_filter (\<lambda>c. c) controls) (ber_Constructed controlsIdentifier)] else [])"

lemma requestPacket_eq:
  "requestPacket mid p controls =
     Packet SequenceIdentifier [] (ber_Integer mid # po_packet p # requestTail controls) False False"
  by (simp add: requestPacket_def requestTail_def Let_def Envelope_Add_def ber_Sequence_def ber_Constructed_def universal_ids)

lemma request_octets:
  assumes "packet_ok (requestPacket mid p controls)"
  defines "v \<equiv> tlv IntegerIdentifier (integerBytes mid) @ packet_octets (po_packet p) @ concat (map packet_octets (requestTail controls))"
  shows "Encode (requestPacket mid p controls) = tlv SequenceIdentifier v" "length v \<le> MaxInt"
proof -
  have i: "packet_octets (ber_Integer mid) = tlv IntegerIdentifier (integerBytes mid)"
    by (simp add: packet_octets_eq packet_contents_def ber_Integer_def integerPacket_def ber_Primitive_def universal_ids)
  have c: "packet_contents (requestPacket mid p controls) = v"
    by (simp add: requestPacket_eq packet_contents_def v_def i universal_ids)
  show "Encode (requestPacket mid p controls) = tlv SequenceIdentifier v"
    using Encode_eq [OF assms(1)] c by (simp add: packet_octets_eq [of "requestPacket mid p controls"]) (simp add: requestPacket_eq)
  show "length v \<le> MaxInt" using assms(1) c by (simp add: packet_ok.simps [of "requestPacket mid p controls"]) (simp add: requestPacket_eq)
qed

text \<open>The packets among the controls.\<close>

definition control_packets :: "packet option list \<Rightarrow> packet list" where
  "control_packets controls = List.map_filter (\<lambda>c. c) controls"

lemma SkipElement_at:
  assumes "SkipElement r n = (Inr e, r', n')" "unread r = packet_octets q @ ts" "packet_ok q" "\<not> p_encoded q"
  shows "el_Raw e = packet_octets q" "unread r' = ts"
proof -
  obtain n1 where e: "ReadElement r n = (Inr e, r', n1)"
    using assms(1) by (auto simp: SkipElement_def split: prod.splits sum.splits option.splits)
  have q: "Identifier_Valid (p_identifier q)" "length (packet_contents q) \<le> MaxInt"
    "packet_octets q = tlv (p_identifier q) (packet_contents q)"
    using assms(3,4) by (simp_all add: packet_ok.simps [of q] packet_octets_eq [of q])
  show "el_Raw e = packet_octets q" "unread r' = ts"
    using ReadElement_at [OF e assms(2) [unfolded q(3)] q(1,2)] q(3) by simp_all
qed

lemma controlsLoop_at:
  "controlsLoop acc r n = Inr (cs, n') \<Longrightarrow> unread r = concat (map packet_octets qs) \<Longrightarrow>
     \<forall>q \<in> set qs. packet_ok q \<and> \<not> p_encoded q \<Longrightarrow> map el_Raw cs = map el_Raw acc @ map packet_octets qs"
proof (induction qs arbitrary: acc r n)
  case Nil
  then show ?case by (simp add: controlsLoop.simps [of acc] Empty_def Remaining_unread)
next
  case (Cons q qs)
  have "packet_octets q \<noteq> []" using Cons.prems(3) by (simp add: packet_octets_eq [of q] tlv_def identifier_octets_def Let_def)
  then have "\<not> Empty r" using Cons.prems(2) by (simp add: Empty_def Remaining_unread)
  then obtain e r' n1 where e: "SkipElement r n = (Inr e, r', n1)" "controlsLoop (acc @ [e]) r' n1 = Inr (cs, n')"
    using Cons.prems(1) by (auto simp: controlsLoop.simps [of acc] split: prod.splits sum.splits if_splits)
  have q: "unread r = packet_octets q @ concat (map packet_octets qs)" "packet_ok q" "\<not> p_encoded q" using Cons.prems(2,3) by simp_all
  show ?case using Cons.IH [OF e(2)] SkipElement_at [OF e(1) q] Cons.prems(3) by simp
qed

lemma readControls_at:
  assumes "readControls r n = Inr (cs, r', n')" "unread r = concat (map packet_octets (requestTail controls))"
    and "\<forall>q \<in> set (requestTail controls). packet_ok q" "length cs = length controls"
    and "\<forall>q \<in> set (control_packets controls). \<not> p_encoded q"
  shows "map el_Raw cs = map Encode (control_packets controls)"
proof (cases "controls = []")
  case True
  with assms(4) show ?thesis by (simp add: control_packets_def map_filter_simps)
next
  case False
  let ?qs = "control_packets controls" and ?c = "Packet controlsIdentifier [] (control_packets controls) False False"
  have tail: "requestTail controls = [?c]"
    using False by (simp add: requestTail_def control_packets_def Envelope_Add_def ber_Constructed_def controlsIdentifier_def)
  then have ok: "packet_ok ?c" using assms(3) by simp
  have cid: "id_constructed controlsIdentifier" by (simp add: controlsIdentifier_def)
  have v: "packet_contents ?c = concat (map packet_octets ?qs)" by (simp add: packet_contents_def cid)
  have qs: "\<forall>q \<in> set ?qs. packet_ok q \<and> \<not> p_encoded q" and len: "length (concat (map packet_octets ?qs)) \<le> MaxInt"
    and valid: "Identifier_Valid controlsIdentifier"
    using ok v assms(5) cid by (simp_all add: packet_ok.simps [of ?c] list_all_iff)
  have u: "unread r = tlv controlsIdentifier (concat (map packet_octets ?qs)) @ []"
    using assms(2) tail v by (simp add: packet_octets_eq [of ?c])
  obtain contents r1 n1 n2 where c: "Reader_Constructed controlsIdentifier r n = (Inr contents, r1, n1)"
    "controlsLoop [] contents n1 = Inr (cs, n2)"
    using assms(1,4) False by (auto simp: readControls_def split: prod.splits sum.splits if_splits)
  obtain e r2 n3 where e: "ReadElement r n = (Inr e, r2, n3)" "contents = contentsReader r e"
    using c(1) by (auto simp: Reader_Constructed_def split: prod.splits sum.splits if_splits)
  have "unread contents = concat (map packet_octets ?qs)" using ReadElement_at(2) [OF e(1) u valid len] e(2) by simp
  then have "map el_Raw cs = map packet_octets ?qs" using controlsLoop_at [OF c(2) _ qs] by simp
  also have "\<dots> = map Encode ?qs" using qs by (simp add: Encode_eq)
  finally show ?thesis .
qed

lemma parse_inv:
  assumes "parseOwnedResponse message lim = Inr env"
  obtains r envelope r1 n1 mid e2 n2 protocol e3 n3 where "NewReader message lim = Inr r"
    "Reader_Sequence r 0 = (Inr envelope, r1, n1)" "Reader_Integer envelope n1 = (Inr mid, e2, n2)"
    "ReadElement e2 n2 = (Inr protocol, e3, n3)" "re_MessageID env = mid" "re_ProtocolID env = el_Identifier protocol"
    "re_Protocol env = el_Raw protocol" "\<exists>e4 n4. readControls e3 n3 = Inr (re_Controls env, e4, n4)"
  using assms
  by (auto simp: parseOwnedResponse_def parseEnvelope_def split: sum.splits prod.splits option.splits if_splits)

lemma request_parsed:
  assumes ok: "packet_ok (requestPacket mid p controls)" "- (2 ^ 63) \<le> mid" "mid < 2 ^ 63"
    and parse: "parseOwnedResponse (Encode (requestPacket mid p controls)) lim = Inr env"
  shows "re_MessageID env = mid" "tag_ok lim SequenceIdentifier"
    "\<not> p_encoded (po_packet p) \<Longrightarrow> re_Protocol env = Encode (po_packet p) \<and> re_ProtocolID env = p_identifier (po_packet p)"
    "\<not> p_encoded (po_packet p) \<Longrightarrow> length (re_Controls env) = length controls \<Longrightarrow>
       \<forall>q \<in> set (control_packets controls). \<not> p_encoded q \<Longrightarrow> map el_Raw (re_Controls env) = map Encode (control_packets controls)"
proof -
  let ?q = "po_packet p" and ?rest = "concat (map packet_octets (requestTail controls))"
  let ?v = "tlv IntegerIdentifier (integerBytes mid) @ packet_octets ?q @ ?rest"
  note oct = request_octets [OF ok(1)]
  obtain r envelope r1 n1 mid' e2 n2 protocol e3 n3 where s: "NewReader (Encode (requestPacket mid p controls)) lim = Inr r"
    "Reader_Sequence r 0 = (Inr envelope, r1, n1)" "Reader_Integer envelope n1 = (Inr mid', e2, n2)"
    "ReadElement e2 n2 = (Inr protocol, e3, n3)" "re_MessageID env = mid'" "re_ProtocolID env = el_Identifier protocol"
    "re_Protocol env = el_Raw protocol" "\<exists>e4 n4. readControls e3 n3 = Inr (re_Controls env, e4, n4)"
    using parse by (rule parse_inv)
  have r: "unread r = tlv SequenceIdentifier ?v @ []" "r_limits r = lim"
    using s(1) oct by (auto simp: NewReader_def unread_def split: option.splits if_splits)
  note seq = Reader_Sequence_at [OF s(2) r(1) oct(2)]
  note int = Reader_Integer_at [OF s(3) seq(1) ok(2,3)]
  show "re_MessageID env = mid" using s(5) int(1) by simp
  show "tag_ok lim SequenceIdentifier" using seq(2) r(2) by simp
  assume ne: "\<not> p_encoded ?q"
  have q: "packet_ok ?q" using ok(1) by (simp add: packet_ok.simps [of "requestPacket mid p controls"]) (simp add: requestPacket_eq universal_ids)
  have tail: "\<forall>q \<in> set (requestTail controls). packet_ok q"
    using ok(1) by (simp add: packet_ok.simps [of "requestPacket mid p controls"]) (simp add: requestPacket_eq universal_ids list_all_iff)
  from q have q': "Identifier_Valid (p_identifier ?q)" "length (packet_contents ?q) \<le> MaxInt"
    using ne by (simp_all add: packet_ok.simps [of ?q])
  have u: "unread e2 = tlv (p_identifier ?q) (packet_contents ?q) @ ?rest"
    using int(2) ne by (simp add: packet_octets_eq [of ?q])
  note el = ReadElement_at [OF s(4) u q']
  show "re_Protocol env = Encode ?q \<and> re_ProtocolID env = p_identifier ?q"
    using s(6,7) el(1,3) ne by (simp add: Encode_eq [OF q] packet_octets_eq [of ?q])
  assume "length (re_Controls env) = length controls" "\<forall>q \<in> set (control_packets controls). \<not> p_encoded q"
  then show "map el_Raw (re_Controls env) = map Encode (control_packets controls)"
    using s(8) readControls_at [of e3 n3 _ _ _ controls] el(4) tail by auto
qed

text \<open>(C9) Requests on the wire: what \<^verbatim>\<open>encodeLDAPRequest\<close> returns fits the frame limit; a framer reading it from a stream returns
  exactly these bytes and leaves what follows; the envelope parser accepts them and finds the message ID,
  the declared identifier, as many controls as the operation has and no extension; unless the operation's
  packet is opaque, its encoding is the protocol value the peer receives; and unless it or a control is opaque, the controls the
  peer receives are the encodings of the operation's controls, in their order.\<close>

theorem request_on_the_wire:
  assumes enc: "encodeLDAPRequest mid p controls lim = Inr message"
    and ok: "packet_ok (requestPacket mid p controls)" "0 \<le> mid" "mid \<le> MaxMessageID" "length message \<le> MaxInt"
  shows "int (length message) \<le> MaxFrameBytes lim
    \<and> Framer_Next lim \<lparr>s_bytes = message @ rest, s_end = e\<rparr> = (Got message, \<lparr>s_bytes = rest, s_end = e\<rparr>)
    \<and> (\<exists>env. parseOwnedResponse message lim = Inr env \<and> re_MessageID env = mid \<and> re_ProtocolID env = po_identifier p
         \<and> length (re_Controls env) = length controls \<and> re_Extensions env = []
         \<and> (\<not> p_encoded (po_packet p) \<longrightarrow> re_Protocol env = Encode (po_packet p))
         \<and> (\<not> p_encoded (po_packet p) \<and> (\<forall>c \<in> set controls. \<exists>q. c = Some q \<and> \<not> p_encoded q) \<longrightarrow>
              map el_Raw (re_Controls env) = map (\<lambda>c. Encode (the c)) controls))"
proof -
  from enc obtain env where m: "message = Encode (requestPacket mid p controls)" "int (length message) \<le> MaxFrameBytes lim"
    and env: "parseOwnedResponse message lim = Inr env" "re_ProtocolID env = po_identifier p"
      "length (re_Controls env) = length controls" "re_Extensions env = []"
    by (auto simp: encodeLDAPRequest_def Let_def split: if_splits sum.splits)
  have b: "- (2 ^ 63) \<le> mid" "mid < 2 ^ 63" using ok(2,3) by (simp_all add: MaxMessageID_def)
  note parsed = request_parsed [OF ok(1) b env(1) [unfolded m(1)]]
  have "Framer_Next lim \<lparr>s_bytes = message @ rest, s_end = e\<rparr> = (Got message, \<lparr>s_bytes = rest, s_end = e\<rparr>)"
    using Framer_Next_tlv [of "\<lparr>s_bytes = message @ rest, s_end = e\<rparr>" SequenceIdentifier _ rest lim]
      request_octets(1) [OF ok(1)] m parsed(2) ok(4) by simp
  moreover have "map Encode (control_packets controls) = map (\<lambda>c. Encode (the c)) controls \<and> (\<forall>q \<in> set (control_packets controls). \<not> p_encoded q)"
    if "\<forall>c \<in> set controls. \<exists>q. c = Some q \<and> \<not> p_encoded q"
    using that by (induction controls) (auto simp: control_packets_def map_filter_simps)
  ultimately show ?thesis using m(2) env parsed by (auto 0 3)
qed

definition marked_control :: "byte \<Rightarrow> packet" where
  "marked_control b = Envelope_Add [ber_OctetString [b]] ber_Sequence"

definition controlled_request :: bytes where
  "controlled_request = [0x30, 17, 2, 1, 7, 0x42, 0, 0xA0, 10, 0x30, 3, 4, 1, 0x61, 0x30, 3, 4, 1, 0x62]"

theorem request_on_the_wire_witness:
  "Framer_Next DefaultLimits \<lparr>s_bytes = controlled_request @ [0x30], s_end = EOF\<rparr> = (Got controlled_request, \<lparr>s_bytes = [0x30], s_end = EOF\<rparr>)
   \<and> (\<exists>env. parseOwnedResponse controlled_request DefaultLimits = Inr env
        \<and> map el_Raw (re_Controls env) = [[0x30, 3, 4, 1, 0x61], [0x30, 3, 4, 1, 0x62]])"
proof -
  let ?p = "\<lparr>po_packet = UnbindRequest_BERPacket, po_identifier = unbindRequestIdentifier\<rparr>"
  let ?cs = "[Some (marked_control 0x61), Some (marked_control 0x62)]"
  have e: "encodeLDAPRequest 7 ?p ?cs DefaultLimits = Inr controlled_request" by code_simp
  have i: "integerBytes 7 = [7]" by code_simp
  have k: "packet_ok (requestPacket 7 ?p ?cs)"
    by (simp add: requestPacket_eq requestTail_def UnbindRequest_BERPacket_def packet_ok_eval ber_Integer_def integerPacket_def i bind_tags tag_defs
        marked_control_def Envelope_Add_def ber_Sequence_def ber_Constructed_def ber_OctetString_def ber_Primitive_def map_filter_simps universal_ids
        controlsIdentifier_def)
  have c: "Encode (marked_control 0x61) = [0x30, 3, 4, 1, 0x61]" "Encode (marked_control 0x62) = [0x30, 3, 4, 1, 0x62]" by code_simp+
  have n: "\<not> p_encoded (marked_control b)" "\<not> p_encoded UnbindRequest_BERPacket" for b
    by (simp_all add: marked_control_def Envelope_Add_def ber_Sequence_def ber_Constructed_def UnbindRequest_BERPacket_def ber_Primitive_def)
  show ?thesis
    using request_on_the_wire [OF e k, of "[0x30]" EOF] n by (auto simp: MaxMessageID_def c controlled_request_def)
qed

end
