(* ===== verification/Conn_Ids.thy ===== *)
theory Conn_Ids
  imports Conn_State
begin

text \<open>
  The message ID allocator of a connection: the invariant of the three sets of occupied IDs, the allocator as a
  search in cyclic order, and how every critical section changes the occupied IDs.
\<close>

section \<open>Occupied IDs\<close>

definition occupied :: "conn \<Rightarrow> int list" where
  "occupied c = cn_reserved c @ map fst (cn_pending c) @ map fst (cn_tombstones c)"

definition ids_ok :: "conn \<Rightarrow> bool" where
  "ids_ok c \<longleftrightarrow> 0 < cn_maxID c \<and> cn_maxID c \<le> MaxMessageID \<and> 0 \<le> cn_nextID c \<and> cn_nextID c \<le> cn_maxID c
     \<and> distinct (occupied c) \<and> set (occupied c) \<subseteq> {1..cn_maxID c}"

lemma map_of_neq_None: "map_of xs k \<noteq> None \<longleftrightarrow> k \<in> fst ` set xs"
  by (simp add: map_of_eq_None_iff)

section \<open>The allocator as a search\<close>

lemma mod_succ_le [simp]: "0 < m \<Longrightarrow> a mod m + 1 \<le> m" for m :: int
  using pos_mod_bound [of m a] by linarith

text \<open>The IDs in the order in which they are tried.\<close>

definition candidates :: "nat \<Rightarrow> conn \<Rightarrow> int list" where
  "candidates n c = map (\<lambda>k. (cn_nextID c + int k) mod cn_maxID c + 1) [0..<n]"

lemma next_candidate:
  assumes "0 \<le> cn_nextID c" "cn_nextID c \<le> cn_maxID c" "0 < cn_maxID c" "cn_maxID c \<le> MaxMessageID"
  shows "(if cn_maxID c < int32_inc (cn_nextID c) \<or> int32_inc (cn_nextID c) \<le> 0 then 1 else int32_inc (cn_nextID c))
    = cn_nextID c mod cn_maxID c + 1"
proof (cases "cn_nextID c = cn_maxID c")
  case True
  show ?thesis
  proof (cases "cn_maxID c = MaxMessageID")
    case True
    with \<open>cn_nextID c = cn_maxID c\<close> show ?thesis by (simp add: int32_inc_def MaxMessageID_def)
  next
    case False
    with assms have "int32_inc (cn_maxID c) = cn_maxID c + 1"
      by (simp add: int32_inc_def MaxMessageID_def)
    with True show ?thesis by simp
  qed
next
  case False
  with assms have "int32_inc (cn_nextID c) = cn_nextID c + 1" by (simp add: int32_inc_def MaxMessageID_def)
  with False assms show ?thesis by simp
qed

lemma candidates_Suc:
  assumes "0 < cn_maxID c"
  shows "candidates (Suc n) c = (cn_nextID c mod cn_maxID c + 1)
    # candidates n (c\<lparr>cn_nextID := cn_nextID c mod cn_maxID c + 1\<rparr>)"
proof -
  have "(cn_nextID c mod cn_maxID c + 1 + int k) mod cn_maxID c = (cn_nextID c + (1 + int k)) mod cn_maxID c" for k
    by (metis (no_types, opaque_lifting) add.assoc mod_add_left_eq)
  then show ?thesis
    by (simp add: candidates_def upt_conv_Cons map_Suc_upt [symmetric] del: upt_Suc map_Suc_upt)
qed

text \<open>The loop returns the first candidate that is not occupied.\<close>

lemma tryReserveLoop_find:
  assumes "0 \<le> cn_nextID c" "cn_nextID c \<le> cn_maxID c" "0 < cn_maxID c" "cn_maxID c \<le> MaxMessageID"
  shows "case find (\<lambda>i. i \<notin> set (occupied c)) (candidates n c) of
      Some mid \<Rightarrow> tryReserveLoop n c = (Some mid, c\<lparr>cn_nextID := mid, cn_reserved := mid # cn_reserved c\<rparr>)
    | None \<Rightarrow> fst (tryReserveLoop n c) = None"
  using assms
proof (induction n arbitrary: c)
  case 0
  show ?case by (simp add: candidates_def)
next
  case (Suc n)
  let ?mid = "cn_nextID c mod cn_maxID c + 1"
  let ?c1 = "c\<lparr>cn_nextID := ?mid\<rparr>"
  have b: "0 \<le> cn_nextID ?c1" "cn_nextID ?c1 \<le> cn_maxID ?c1" "0 < cn_maxID ?c1" "cn_maxID ?c1 \<le> MaxMessageID"
    using Suc.prems pos_mod_sign [of "cn_maxID c" "cn_nextID c"] by simp_all
  have o1: "occupied ?c1 = occupied c" by (simp add: occupied_def)
  have un: "tryReserveLoop (Suc n) c = (if ?mid \<in> set (occupied c) then tryReserveLoop n ?c1
      else (Some ?mid, ?c1\<lparr>cn_reserved := ?mid # cn_reserved c\<rparr>))"
    using Suc.prems
    by (simp add: Let_def next_candidate map_of_neq_None occupied_def del: not_None_eq)
  show ?case
    using Suc.IH [OF b] Suc.prems unfolding un o1
    by (auto simp: candidates_Suc split: option.splits)
qed

lemma candidates_all:
  assumes "0 \<le> cn_nextID c" "0 < cn_maxID c"
  shows "set (candidates (nat (cn_maxID c)) c) = {1..cn_maxID c}"
proof
  show "set (candidates (nat (cn_maxID c)) c) \<subseteq> {1..cn_maxID c}"
    using assms pos_mod_sign [of "cn_maxID c"] by (auto simp: candidates_def)
next
  show "{1..cn_maxID c} \<subseteq> set (candidates (nat (cn_maxID c)) c)"
  proof
    fix i assume i: "i \<in> {1..cn_maxID c}"
    let ?k = "nat ((i - 1 - cn_nextID c) mod cn_maxID c)"
    have "(cn_nextID c + (i - 1 - cn_nextID c) mod cn_maxID c) mod cn_maxID c = (i - 1) mod cn_maxID c"
      by (simp add: mod_add_right_eq)
    then have "(cn_nextID c + int ?k) mod cn_maxID c + 1 = i" using i assms by simp
    moreover have "?k < nat (cn_maxID c)" using assms by (simp add: nat_less_iff)
    ultimately show "i \<in> set (candidates (nat (cn_maxID c)) c)"
      unfolding candidates_def set_map set_upt by (intro image_eqI [of _ _ ?k]) simp_all
  qed
qed

lemma find_None_iff_set: "find P xs = None \<longleftrightarrow> (\<forall>x \<in> set xs. \<not> P x)"
  by (auto simp: find_None_iff)

lemma full_iff:
  assumes "ids_ok c"
  shows "int (length (occupied c)) \<ge> cn_maxID c \<longleftrightarrow> {1..cn_maxID c} \<subseteq> set (occupied c)"
proof -
  have len: "length (occupied c) = card (set (occupied c))" using assms by (simp add: ids_ok_def distinct_card)
  have sub: "set (occupied c) \<subseteq> {1..cn_maxID c}" and pos: "0 < cn_maxID c" using assms by (auto simp: ids_ok_def)
  have fin: "finite {1..cn_maxID c}" and card: "card {1..cn_maxID c} = nat (cn_maxID c)" by simp_all
  show ?thesis
  proof
    assume "int (length (occupied c)) \<ge> cn_maxID c"
    with len card have "card {1..cn_maxID c} \<le> card (set (occupied c))" by linarith
    then show "{1..cn_maxID c} \<subseteq> set (occupied c)" using card_seteq [OF fin sub] by simp
  next
    assume "{1..cn_maxID c} \<subseteq> set (occupied c)"
    then have "card {1..cn_maxID c} \<le> card (set (occupied c))" by (intro card_mono) simp_all
    with len card show "int (length (occupied c)) \<ge> cn_maxID c" by linarith
  qed
qed

lemma allocator_correct:
  assumes "ids_ok c"
  shows "case find (\<lambda>i. i \<notin> set (occupied c)) (candidates (nat (cn_maxID c)) c) of
      Some mid \<Rightarrow> tryReserveMessageIDLocked c = (Some mid, c\<lparr>cn_nextID := mid, cn_reserved := mid # cn_reserved c\<rparr>)
        \<and> mid \<in> {1..cn_maxID c} - set (occupied c) \<and> ids_ok (snd (tryReserveMessageIDLocked c))
    | None \<Rightarrow> tryReserveMessageIDLocked c = (None, c) \<and> {1..cn_maxID c} = set (occupied c)"
proof (cases "find (\<lambda>i. i \<notin> set (occupied c)) (candidates (nat (cn_maxID c)) c)")
  case None
  then have "{1..cn_maxID c} \<subseteq> set (occupied c)"
    using candidates_all [of c] assms by (auto simp: find_None_iff_set ids_ok_def)
  moreover from this have "tryReserveMessageIDLocked c = (None, c)"
    using full_iff [OF assms] by (simp add: tryReserveMessageIDLocked_def occupied_def)
  ultimately show ?thesis using None assms by (auto simp: ids_ok_def)
next
  case (Some mid)
  then have mid: "mid \<in> {1..cn_maxID c} - set (occupied c)"
    using candidates_all [of c] assms by (fastforce simp: find_Some_iff ids_ok_def in_set_conv_nth)
  then have "\<not> int (length (occupied c)) \<ge> cn_maxID c" using full_iff [OF assms] by blast
  then have "tryReserveMessageIDLocked c = tryReserveLoop (nat (cn_maxID c)) c"
    by (simp add: tryReserveMessageIDLocked_def occupied_def)
  then have r: "tryReserveMessageIDLocked c = (Some mid, c\<lparr>cn_nextID := mid, cn_reserved := mid # cn_reserved c\<rparr>)"
    using tryReserveLoop_find [of c "nat (cn_maxID c)"] Some assms by (simp add: ids_ok_def)
  have "ids_ok (c\<lparr>cn_nextID := mid, cn_reserved := mid # cn_reserved c\<rparr>)"
    using assms mid by (auto simp: ids_ok_def occupied_def)
  with Some r mid show ?thesis by simp
qed

text \<open>(C32) The allocator against its specification: with a consistent connection it fails exactly if every ID from 1
  to the maximum is reserved, live or tombstoned, and then changes nothing; otherwise it returns the first free
  ID in cyclic order after the last one it returned, marks it reserved, and the connection stays
  consistent.\<close>

theorem tryReserve_correct:
  assumes "ids_ok c"
  shows "case find (\<lambda>i. i \<notin> set (occupied c)) (candidates (nat (cn_maxID c)) c) of
      Some mid \<Rightarrow> tryReserveMessageIDLocked c = (Some mid, c\<lparr>cn_nextID := mid, cn_reserved := mid # cn_reserved c\<rparr>)
        \<and> mid \<in> {1..cn_maxID c} - set (occupied c) \<and> ids_ok (snd (tryReserveMessageIDLocked c))
    | None \<Rightarrow> tryReserveMessageIDLocked c = (None, c) \<and> {1..cn_maxID c} = set (occupied c)"
  by (rule allocator_correct [OF assms])

text \<open>A fresh connection with three message IDs.\<close>

definition sample_conn :: conn where
  "sample_conn = projr (newConn True DefaultConnectionOptions 3 stateReady)"

lemma sample_conn_new: "newConn True DefaultConnectionOptions 3 stateReady = Inr sample_conn"
  by (simp add: sample_conn_def newConn_def MaxMessageID_def DefaultConnectionOptions_def)

theorem tryReserve_correct_witness:
  "fst (tryReserveMessageIDLocked (sample_conn\<lparr>cn_nextID := 3, cn_reserved := [1]\<rparr>)) = Some 2"
proof -
  let ?c = "sample_conn\<lparr>cn_nextID := 3, cn_reserved := [1]\<rparr>"
  have f: "cn_maxID ?c = 3" "occupied ?c = [1]" "cn_nextID ?c = 3"
    by (simp_all add: sample_conn_def newConn_def MaxMessageID_def DefaultConnectionOptions_def occupied_def)
  have "ids_ok ?c" unfolding ids_ok_def f by (simp add: MaxMessageID_def)
  from tryReserve_correct [OF this] show ?thesis
    unfolding f by (simp add: candidates_def f upt_rec del: upt_Suc)
qed

end
