(* ===== verification/Conn_Inv.thy ===== *)
theory Conn_Inv
  imports Conn_Ids
begin

text \<open>
  The invariant of a connection and its preservation by every critical section: the occupied message IDs, the
  pending operations and the objects they point to, the queues with their bounds, the events sent to the
  observers, and the fields that describe the phase of the connection.
\<close>

section \<open>The invariant\<close>

definition queue_bytes :: "response list \<Rightarrow> int" where
  "queue_bytes rs = sum_list (map (\<lambda>r. int (length (re_Bytes r))) rs)"

lemma queue_bytes_simps [simp]:
  "queue_bytes [] = 0" "queue_bytes (r # rs) = int (length (re_Bytes r)) + queue_bytes rs"
  "queue_bytes (rs @ ss) = queue_bytes rs + queue_bytes ss"
  by (simp_all add: queue_bytes_def)

lemma queue_bytes_nonneg [simp]: "0 \<le> queue_bytes rs"
  by (induction rs) auto

text \<open>Every operation: its queue is accounted for and within the bounds, a canceled one keeps no response and
  has an error to deliver, and the dispatches to its observer are bounded by the flags that allowed them.\<close>

definition dispatch_bound :: "pending_operation \<Rightarrow> nat" where
  "dispatch_bound p = 1 + of_bool (pn_writeObserved p) + of_bool (pn_firstResponse p) + of_bool (pn_deliveryErr p \<noteq> None)
     + of_bool (pn_terminal p) + of_bool (pn_lifecycleDone p)"

definition op_ok :: "connection_options \<Rightarrow> pending_operation \<Rightarrow> bool" where
  "op_ok opt p \<longleftrightarrow>
     pn_queuedBytes p = queue_bytes (pn_queue p)
     \<and> int (length (pn_queue p)) \<le> MaxQueuedResponses opt \<and> pn_queuedBytes p \<le> MaxQueuedResponseBytes opt
     \<and> (pn_canceled p \<longrightarrow> pn_queue p = [] \<and> pn_deliveryErr p \<noteq> None)
     \<and> (pn_abandoning p \<longrightarrow> pn_deliveryErr p \<noteq> None)
     \<and> length (pn_observer p) \<le> dispatch_bound p"

text \<open>An operation the map of pending operations holds, and one it holds no longer.\<close>

definition live :: "pending_operation \<Rightarrow> bool" where
  "live p \<longleftrightarrow> \<not> pn_terminal p \<and> \<not> pn_lifecycleDone p \<and> (pn_deliveryErr p \<noteq> None \<longrightarrow> pn_canceled p)"

definition ended_op :: "pending_operation \<Rightarrow> bool" where
  "ended_op p \<longleftrightarrow> pn_lifecycleDone p \<and> (pn_terminal p \<or> pn_deliveryErr p \<noteq> None)"

definition ops_ok :: "conn \<Rightarrow> bool" where
  "ops_ok c \<longleftrightarrow>
     (\<forall>a < length (cn_heap c). op_ok (cn_options c) (op_at c a) \<and> (\<not> is_pending c a \<longrightarrow> ended_op (op_at c a)))
     \<and> (\<forall>(mid, a) \<in> set (cn_pending c). a < length (cn_heap c) \<and> pn_id (op_at c a) = mid \<and> live (op_at c a))"

definition phase_ok :: "conn \<Rightarrow> bool" where
  "phase_ok c \<longleftrightarrow>
     (cn_err c \<noteq> None \<longleftrightarrow> cn_state c = stateClosed)
     \<and> (cn_err c \<noteq> None \<longrightarrow> cn_pending c = [] \<and> cn_tombstones c = [])
     \<and> (cn_err c = None \<longrightarrow> (cn_closing c \<longleftrightarrow> cn_state c = stateDraining))"

definition unsolicited_ok :: "conn \<Rightarrow> bool" where
  "unsolicited_ok c \<longleftrightarrow>
     cn_unsolicitedBytes c = queue_bytes (cn_unsolicited c)
     \<and> int (length (cn_unsolicited c)) \<le> MaxUnsolicitedResponses (cn_options c)
     \<and> cn_unsolicitedBytes c \<le> MaxUnsolicitedResponseBytes (cn_options c)"

definition conn_inv :: "conn \<Rightarrow> bool" where
  "conn_inv c \<longleftrightarrow> options_ok (cn_options c) \<and> ids_ok c \<and> ops_ok c \<and> phase_ok c \<and> unsolicited_ok c"

lemma newConn_inv: "newConn transport opt maxID st = Inr c \<Longrightarrow> options_ok opt \<Longrightarrow> conn_inv c"
  by (auto simp: newConn_def conn_inv_def ids_ok_def occupied_def ops_ok_def phase_ok_def unsolicited_ok_def
      options_ok_def split: if_splits option.splits)

text \<open>What each part depends on.\<close>

lemma ops_ok_frame:
  "cn_options c' = cn_options c \<Longrightarrow> cn_pending c' = cn_pending c \<Longrightarrow> cn_heap c' = cn_heap c \<Longrightarrow> ops_ok c' = ops_ok c"
  by (simp add: ops_ok_def op_at_def is_pending_def)

lemma ids_ok_frame:
  "cn_maxID c' = cn_maxID c \<Longrightarrow> cn_nextID c' = cn_nextID c \<Longrightarrow> occupied c' = occupied c \<Longrightarrow> ids_ok c' = ids_ok c"
  by (simp add: ids_ok_def)

lemma conn_inv_frame:
  assumes "conn_inv c" "cn_options c' = cn_options c" "cn_maxID c' = cn_maxID c" "cn_nextID c' = cn_nextID c"
    and "cn_reserved c' = cn_reserved c" "cn_pending c' = cn_pending c" "cn_tombstones c' = cn_tombstones c"
    and "cn_heap c' = cn_heap c" "phase_ok c'" "unsolicited_ok c'"
  shows "conn_inv c'"
proof -
  have "ops_ok c'" using assms ops_ok_frame [of c' c] by (simp add: conn_inv_def)
  moreover have "ids_ok c'" using assms ids_ok_frame [of c' c] by (simp add: conn_inv_def occupied_def)
  ultimately show ?thesis using assms by (simp add: conn_inv_def)
qed

section \<open>Heap updates\<close>

lemma upd_op_fields [simp]:
  "cn_options (upd_op a f c) = cn_options c" "cn_maxID (upd_op a f c) = cn_maxID c"
  "cn_state (upd_op a f c) = cn_state c" "cn_closing (upd_op a f c) = cn_closing c"
  "cn_err (upd_op a f c) = cn_err c" "cn_nextID (upd_op a f c) = cn_nextID c"
  "cn_idChanged (upd_op a f c) = cn_idChanged c" "cn_reserved (upd_op a f c) = cn_reserved c"
  "cn_pending (upd_op a f c) = cn_pending c" "cn_tombstones (upd_op a f c) = cn_tombstones c"
  "cn_unsolicited (upd_op a f c) = cn_unsolicited c" "cn_unsolicitedBytes (upd_op a f c) = cn_unsolicitedBytes c"
  "cn_writeToken (upd_op a f c) = cn_writeToken c" "length (cn_heap (upd_op a f c)) = length (cn_heap c)"
  by (simp_all add: upd_op_def)

lemma op_at_upd: "op_at (upd_op a f c) b = (if b = a \<and> a < length (cn_heap c) then f (op_at c a) else op_at c b)"
  by (cases "a < length (cn_heap c)") (auto simp: upd_op_def op_at_def nth_list_update list_update_beyond)

lemma removePending_fields [simp]:
  "cn_options (removePending a c) = cn_options c" "cn_maxID (removePending a c) = cn_maxID c"
  "cn_state (removePending a c) = cn_state c" "cn_closing (removePending a c) = cn_closing c"
  "cn_err (removePending a c) = cn_err c" "cn_nextID (removePending a c) = cn_nextID c"
  "cn_idChanged (removePending a c) = cn_idChanged c" "cn_reserved (removePending a c) = cn_reserved c"
  "cn_pending (removePending a c) = AList.delete (pn_id (op_at c a)) (cn_pending c)"
  "cn_tombstones (removePending a c) = cn_tombstones c"
  "cn_unsolicited (removePending a c) = cn_unsolicited c" "cn_unsolicitedBytes (removePending a c) = cn_unsolicitedBytes c"
  "cn_writeToken (removePending a c) = cn_writeToken c" "cn_heap (removePending a c) = cn_heap c"
  "op_at (removePending a c) b = op_at c b"
  by (simp_all add: removePending_def op_at_def)

lemma signalID_fields [simp]:
  "cn_options (signalIDChangedLocked c) = cn_options c" "cn_maxID (signalIDChangedLocked c) = cn_maxID c"
  "cn_state (signalIDChangedLocked c) = cn_state c" "cn_closing (signalIDChangedLocked c) = cn_closing c"
  "cn_err (signalIDChangedLocked c) = cn_err c" "cn_nextID (signalIDChangedLocked c) = cn_nextID c"
  "cn_idChanged (signalIDChangedLocked c) = Suc (cn_idChanged c)" "cn_reserved (signalIDChangedLocked c) = cn_reserved c"
  "cn_pending (signalIDChangedLocked c) = cn_pending c" "cn_tombstones (signalIDChangedLocked c) = cn_tombstones c"
  "cn_unsolicited (signalIDChangedLocked c) = cn_unsolicited c"
  "cn_unsolicitedBytes (signalIDChangedLocked c) = cn_unsolicitedBytes c"
  "cn_writeToken (signalIDChangedLocked c) = cn_writeToken c" "cn_heap (signalIDChangedLocked c) = cn_heap c"
  "op_at (signalIDChangedLocked c) b = op_at c b" "occupied (signalIDChangedLocked c) = occupied c"
  by (simp_all add: signalIDChangedLocked_def op_at_def occupied_def)

lemma upd_op_commute:
  "upd_op a f (signalIDChangedLocked c) = signalIDChangedLocked (upd_op a f c)"
  "upd_op a f (c\<lparr>cn_tombstones := ts\<rparr>) = (upd_op a f c)\<lparr>cn_tombstones := ts\<rparr>"
  by (simp_all add: upd_op_def signalIDChangedLocked_def op_at_def)

lemma conn_inv_signal [simp]: "conn_inv (signalIDChangedLocked c) = conn_inv c"
  by (simp add: conn_inv_def ids_ok_def ops_ok_def phase_ok_def unsolicited_ok_def is_pending_def)

text \<open>The pending entries: one per ID, and the entry of an operation is its own.\<close>

lemma pending_distinct: "ids_ok c \<Longrightarrow> distinct (map fst (cn_pending c))"
  by (simp add: ids_ok_def occupied_def)

lemma is_pending_iff:
  assumes "conn_inv c"
  shows "is_pending c a \<longleftrightarrow> (\<exists>mid. (mid, a) \<in> set (cn_pending c))"
proof -
  have d: "distinct (map fst (cn_pending c))" using assms by (simp add: conn_inv_def pending_distinct)
  show ?thesis
  proof
    assume "is_pending c a"
    then show "\<exists>mid. (mid, a) \<in> set (cn_pending c)" by (auto simp: is_pending_def dest: map_of_SomeD)
  next
    assume "\<exists>mid. (mid, a) \<in> set (cn_pending c)"
    then obtain mid where m: "(mid, a) \<in> set (cn_pending c)" by blast
    then have "pn_id (op_at c a) = mid" using assms by (auto simp: conn_inv_def ops_ok_def)
    with m d show "is_pending c a" by (simp add: is_pending_def)
  qed
qed

lemma is_pendingD:
  assumes "conn_inv c" "is_pending c a"
  shows "a < length (cn_heap c)" "live (op_at c a)" "op_ok (cn_options c) (op_at c a)"
    "(pn_id (op_at c a), a) \<in> set (cn_pending c)"
proof -
  have m: "(pn_id (op_at c a), a) \<in> set (cn_pending c)"
    using assms(2) by (auto simp: is_pending_def dest: map_of_SomeD)
  then show "(pn_id (op_at c a), a) \<in> set (cn_pending c)" .
  from m show "a < length (cn_heap c)" "live (op_at c a)" using assms(1) by (auto simp: conn_inv_def ops_ok_def)
  then show "op_ok (cn_options c) (op_at c a)" using assms(1) by (auto simp: conn_inv_def ops_ok_def)
qed

lemma is_pending_upd:
  "(a < length (cn_heap c) \<Longrightarrow> pn_id (f (op_at c a)) = pn_id (op_at c a)) \<Longrightarrow> is_pending (upd_op a f c) b = is_pending c b"
  by (simp add: is_pending_def op_at_upd)

text \<open>An update of an operation that stays where it is.\<close>

lemma upd_op_inv:
  assumes "conn_inv c"
    and "a < length (cn_heap c) \<Longrightarrow> pn_id (f (op_at c a)) = pn_id (op_at c a)"
    and "a < length (cn_heap c) \<Longrightarrow> op_ok (cn_options c) (op_at c a) \<Longrightarrow> op_ok (cn_options c) (f (op_at c a))"
    and "live (op_at c a) \<Longrightarrow> live (f (op_at c a))"
    and "a < length (cn_heap c) \<Longrightarrow> ended_op (op_at c a) \<Longrightarrow> ended_op (f (op_at c a))"
  shows "conn_inv (upd_op a f c)"
proof -
  have p: "is_pending (upd_op a f c) b = is_pending c b" for b using assms(2) by (rule is_pending_upd)
  have "ops_ok (upd_op a f c)"
    using assms unfolding ops_ok_def p by (auto simp: op_at_upd conn_inv_def ops_ok_def)
  then show ?thesis
    using assms(1) by (simp add: conn_inv_def ids_ok_def occupied_def phase_ok_def unsolicited_ok_def)
qed

text \<open>An update of a pending operation that ends it.\<close>

lemma pendingD:
  assumes "conn_inv c" "(mid, a) \<in> set (cn_pending c)"
  shows "a < length (cn_heap c)" "pn_id (op_at c a) = mid" "live (op_at c a)"
  using assms by (auto simp: conn_inv_def ops_ok_def)

lemma heapD:
  assumes "conn_inv c" "a < length (cn_heap c)"
  shows "op_ok (cn_options c) (op_at c a)" "\<not> is_pending c a \<Longrightarrow> ended_op (op_at c a)"
  using assms by (auto simp: conn_inv_def ops_ok_def)

lemma remove_upd_inv:
  assumes inv: "conn_inv c" and p: "is_pending c a"
    and f: "pn_id (f (op_at c a)) = pn_id (op_at c a)"
    and ok: "op_ok (cn_options c) (op_at c a) \<Longrightarrow> live (op_at c a) \<Longrightarrow> op_ok (cn_options c) (f (op_at c a))"
    and fin: "live (op_at c a) \<Longrightarrow> ended_op (f (op_at c a))"
  shows "conn_inv (upd_op a f (removePending a c))"
proof -
  note pd = is_pendingD [OF inv p]
  let ?c = "upd_op a f (removePending a c)" and ?k = "pn_id (op_at c a)"
  have ids: "pn_id (op_at ?c b) = pn_id (op_at c b)" for b using f by (simp add: op_at_upd)
  have pend: "is_pending ?c b \<longleftrightarrow> is_pending c b \<and> b \<noteq> a" if "b < length (cn_heap c)" for b
  proof -
    have "pn_id (op_at c b) = ?k \<Longrightarrow> is_pending c b \<Longrightarrow> b = a" using p by (simp add: is_pending_def)
    then show ?thesis using p by (auto simp: is_pending_def ids delete_conv)
  qed
  have other: "(mid, b) \<in> set (cn_pending c) \<and> b \<noteq> a" if "(mid, b) \<in> set (cn_pending ?c)" for mid b
    using that pendingD(2) [OF inv, of mid b] by (auto simp: AList.delete_eq)
  have "ops_ok ?c"
    unfolding ops_ok_def
  proof (intro conjI allI impI ballI)
    fix b assume "b < length (cn_heap ?c)"
    then have b: "b < length (cn_heap c)" by simp
    show "op_ok (cn_options ?c) (op_at ?c b)"
      using heapD(1) [OF inv b] pd(2,3) ok by (simp add: op_at_upd)
    assume "\<not> is_pending ?c b"
    then show "ended_op (op_at ?c b)"
      using pend [OF b] heapD(2) [OF inv b] pd(1,2) fin by (cases "b = a") (simp_all add: op_at_upd)
  next
    fix x assume "x \<in> set (cn_pending ?c)"
    moreover obtain mid b where x: "x = (mid, b)" by (cases x)
    ultimately have m: "(mid, b) \<in> set (cn_pending c)" "b \<noteq> a" using other [of mid b] by simp_all
    show "case x of (mid, b) \<Rightarrow> b < length (cn_heap ?c) \<and> pn_id (op_at ?c b) = mid \<and> live (op_at ?c b)"
      using pendingD [OF inv m(1)] m(2) by (simp add: x op_at_upd)
  qed
  moreover have "ids_ok ?c"
    using inv by (auto simp: conn_inv_def ids_ok_def occupied_def delete_keys distinct_removeAll)
  ultimately show ?thesis using inv by (simp add: conn_inv_def phase_ok_def unsolicited_ok_def)
qed

section \<open>Message ID sections\<close>

lemma ids_ok_reserve:
  assumes "ids_ok c" "tryReserveMessageIDLocked c = (res, c')"
  shows "case res of None \<Rightarrow> c' = c
    | Some mid \<Rightarrow> c' = c\<lparr>cn_nextID := mid, cn_reserved := mid # cn_reserved c\<rparr> \<and> mid \<notin> set (occupied c)
        \<and> 1 \<le> mid \<and> mid \<le> cn_maxID c \<and> ids_ok c'"
  using allocator_correct [OF assms(1)] assms(2) by (auto split: option.splits)

lemma tryReserve_inv:
  assumes inv: "conn_inv c" and r: "tryReserveMessageIDLocked c = (res, c')"
  shows "conn_inv c'"
proof (cases res)
  case None
  then show ?thesis using ids_ok_reserve [OF _ r] inv by (simp add: conn_inv_def)
next
  case (Some mid)
  then have c': "c' = c\<lparr>cn_nextID := mid, cn_reserved := mid # cn_reserved c\<rparr>" "ids_ok c'"
    using ids_ok_reserve [OF _ r] inv unfolding conn_inv_def by fastforce+
  have "ops_ok c' = ops_ok c" by (simp add: c'(1) ops_ok_def op_at_def is_pending_def)
  then show ?thesis using inv c' by (simp add: conn_inv_def phase_ok_def unsolicited_ok_def)
qed

lemma reserveMessageID_inv: "conn_inv c \<Longrightarrow> reserveMessageID scope c = (res, c') \<Longrightarrow> conn_inv c'"
  by (auto simp: reserveMessageID_def split: option.splits prod.splits dest: tryReserve_inv)

lemma reserved_subset_inv:
  assumes "conn_inv c" "distinct rs" "set rs \<subseteq> set (cn_reserved c)"
  shows "conn_inv (c\<lparr>cn_reserved := rs\<rparr>)"
proof -
  have "ops_ok (c\<lparr>cn_reserved := rs\<rparr>) = ops_ok c" by (simp add: ops_ok_def op_at_def is_pending_def)
  moreover have "ids_ok (c\<lparr>cn_reserved := rs\<rparr>)"
    using assms by (auto simp: conn_inv_def ids_ok_def occupied_def)
  ultimately show ?thesis using assms by (simp add: conn_inv_def phase_ok_def unsolicited_ok_def)
qed

lemma reserved_distinct: "conn_inv c \<Longrightarrow> distinct (cn_reserved c)"
  by (simp add: conn_inv_def ids_ok_def occupied_def)

lemma releaseReserved_inv: "conn_inv c \<Longrightarrow> conn_inv (releaseReserved mid c)"
  by (simp add: releaseReserved_def reserved_subset_inv reserved_distinct)

lemma update_new: "k \<notin> fst ` set xs \<Longrightarrow> AList.update k v xs = xs @ [(k, v)]"
  by (induction xs) auto

lemma installPending_inv:
  assumes inv: "conn_inv c" and r: "installPending p scope c = (res, c')"
    and p: "op_ok (cn_options c) p" "live p"
  shows "conn_inv c'"
proof (cases res)
  case (Inl err)
  then show ?thesis using r inv by (auto simp: installPending_def Let_def split: option.splits if_splits)
next
  case (Inr a)
  then have adm: "admission scope c = None" and res: "pn_id p \<in> set (cn_reserved c)" and a: "a = length (cn_heap c)"
    and c': "c' = c\<lparr>cn_reserved := filter (\<lambda>i. i \<noteq> pn_id p) (cn_reserved c),
        cn_pending := AList.update (pn_id p) a (cn_pending c), cn_heap := cn_heap c @ [p]\<rparr>"
    using r by (auto simp: installPending_def Let_def split: option.splits if_splits)
  from inv res have new: "pn_id p \<notin> fst ` set (cn_pending c)"
    and bnd: "set (occupied c) \<subseteq> {1..cn_maxID c}" "distinct (occupied c)"
    by (auto simp: conn_inv_def ids_ok_def occupied_def)
  then have upd: "AList.update (pn_id p) a (cn_pending c) = cn_pending c @ [(pn_id p, a)]" by (simp add: update_new)
  have at: "op_at c' b = (if b = a then p else op_at c b)" if "b \<le> a" for b
    using that by (simp add: c' a op_at_def nth_append)
  have none: "map_of (cn_pending c) (pn_id p) = None" using new by (simp add: map_of_eq_None_iff)
  have look: "map_of (cn_pending c') k = (if k = pn_id p then Some a else map_of (cn_pending c) k)" for k
    by (simp add: c' update_conv)
  have pend: "is_pending c' b = (b = a \<or> is_pending c b)" if "b \<le> a" for b
  proof (cases "b = a")
    case True
    then show ?thesis using look at [of a] by (simp add: is_pending_def)
  next
    case False
    then show ?thesis using look at [OF that] none by (cases "pn_id (op_at c b) = pn_id p") (simp_all add: is_pending_def)
  qed
  have "ops_ok c'"
    unfolding ops_ok_def
  proof (intro conjI allI impI ballI)
    fix b assume "b < length (cn_heap c')"
    then have b: "b \<le> a" by (simp add: c' a)
    show "op_ok (cn_options c') (op_at c' b)"
      using b at [OF b] p(1) heapD(1) [OF inv, of b] by (auto simp: c' a)
    assume "\<not> is_pending c' b"
    then show "ended_op (op_at c' b)" using b at [OF b] pend [OF b] heapD(2) [OF inv, of b] by (auto simp: a)
  next
    fix x assume x: "x \<in> set (cn_pending c')"
    show "case x of (mid, b) \<Rightarrow> b < length (cn_heap c') \<and> pn_id (op_at c' b) = mid \<and> live (op_at c' b)"
    proof (cases "x = (pn_id p, a)")
      case True
      then show ?thesis using at [of a] p(2) by (simp add: c' a)
    next
      case False
      with x have "x \<in> set (cn_pending c)" by (simp add: c' upd)
      moreover obtain mid b where xm: "x = (mid, b)" by (cases x)
      ultimately have m: "(mid, b) \<in> set (cn_pending c)" by simp
      have "b < a" using pendingD(1) [OF inv m] by (simp add: a)
      then show ?thesis using pendingD [OF inv m] at [of b] by (simp add: xm c' a)
    qed
  qed
  moreover have "ids_ok c'"
    using inv bnd res by (auto simp: conn_inv_def ids_ok_def occupied_def c' upd)
  moreover have "phase_ok c'"
    using inv adm by (auto simp: conn_inv_def phase_ok_def c' admission_def split: option.splits)
  ultimately show ?thesis using inv by (simp add: conn_inv_def unsolicited_ok_def c')
qed

lemma newPending_ok: "options_ok opt \<Longrightarrow> op_ok opt (newPending mid op ctx n) \<and> live (newPending mid op ctx n)"
  by (simp add: newPending_def op_ok_def live_def options_ok_def dispatch_bound_def)

section \<open>Sections of an operation\<close>

lemmas op_defs = op_ok_def live_def ended_op_def dispatch_bound_def signalReady_def finishLifecycle_def observer_event_def
  cancelDelivery_def

lemma complete_inv:
  assumes "conn_inv c" "is_pending c a"
  shows "conn_inv (upd_op a (\<lambda>p. signalReady (finishLifecycle err (p\<lparr>pn_terminal := True\<rparr>)))
    (signalIDChangedLocked (removePending a c)))"
  using assms by (simp add: upd_op_commute) (rule remove_upd_inv; auto simp: op_defs)

lemma removeDefinitelyUnsent_inv: "conn_inv c \<Longrightarrow> conn_inv (removeDefinitelyUnsent a err c)"
  by (simp add: removeDefinitelyUnsent_def complete_inv)

lemma completeNoResponse_inv: "conn_inv c \<Longrightarrow> conn_inv (completeNoResponse a c)"
  by (simp add: completeNoResponse_def complete_inv)

lemma stream_Next_inv: "conn_inv c \<Longrightarrow> stream_Next a c = (res, c') \<Longrightarrow> conn_inv c'"
  by (auto simp: stream_Next_def Let_def split: list.splits option.splits if_splits intro!: upd_op_inv)
    (auto simp: op_defs)

lemma startWrite_inv: "conn_inv c \<Longrightarrow> conn_inv (startWrite a c)"
  by (auto simp: startWrite_def op_defs intro!: upd_op_inv)

lemma inv_options:
  "conn_inv c \<Longrightarrow> 0 < MaxQueuedResponses (cn_options c) \<and> 0 < MaxQueuedResponseBytes (cn_options c)"
  by (simp add: conn_inv_def options_ok_def)

lemma cancelOperation_inv:
  assumes "conn_inv c" "cancelOperation a reason c = (action, c')"
  shows "conn_inv c'"
proof -
  let ?c1 = "if pn_deliveryErr (op_at c a) = None
    then upd_op a (\<lambda>p. signalReady (observer_event TraceCanceled (pn_responseBytes p) (pn_responses p) (cancelDelivery reason p))) c
    else c"
  have c1: "conn_inv ?c1"
    using assms(1) inv_options [OF assms(1)] by (auto simp: op_defs intro!: upd_op_inv)
  show ?thesis
  proof (cases "pn_terminal (op_at c a)")
    case True
    then show ?thesis using assms by (simp add: cancelOperation_def)
  next
    case False
    have "a < length (cn_heap c) \<Longrightarrow> pn_deliveryErr (op_at ?c1 a) \<noteq> None" by (auto simp: op_at_upd op_defs)
    then have "conn_inv (upd_op a (\<lambda>p. p\<lparr>pn_abandoning := True\<rparr>) ?c1)"
      using c1 by (intro upd_op_inv) (auto simp: op_defs split: if_splits)
    then show ?thesis using assms c1 False by (auto simp: cancelOperation_def Let_def split: if_splits)
  qed
qed

section \<open>Retirement\<close>

text \<open>The loop over the pending operations updates each of them once.\<close>

definition upd_all :: "(int \<times> nat) list \<Rightarrow> (pending_operation \<Rightarrow> pending_operation) \<Rightarrow> conn \<Rightarrow> conn" where
  "upd_all ps f c = foldr (\<lambda>(mid, a) c. upd_op a f c) ps c"

lemma upd_all_simps [simp]:
  "upd_all [] f c = c" "upd_all ((mid, a) # ps) f c = upd_op a f (upd_all ps f c)"
  by (simp_all add: upd_all_def)

lemma upd_all_fields [simp]:
  "cn_options (upd_all ps f c) = cn_options c" "cn_maxID (upd_all ps f c) = cn_maxID c"
  "cn_closing (upd_all ps f c) = cn_closing c" "cn_nextID (upd_all ps f c) = cn_nextID c"
  "cn_idChanged (upd_all ps f c) = cn_idChanged c"
  "cn_unsolicited (upd_all ps f c) = cn_unsolicited c" "cn_unsolicitedBytes (upd_all ps f c) = cn_unsolicitedBytes c"
  "cn_writeToken (upd_all ps f c) = cn_writeToken c" "length (cn_heap (upd_all ps f c)) = length (cn_heap c)"
  by (induction ps) (auto simp: upd_all_def)

lemma op_at_upd_all:
  "distinct (map snd ps) \<Longrightarrow> snd ` set ps \<subseteq> {..<length (cn_heap c)} \<Longrightarrow>
     op_at (upd_all ps f c) b = (if b \<in> snd ` set ps then f (op_at c b) else op_at c b)"
proof (induction ps)
  case (Cons x ps)
  obtain mid a where x: "x = (mid, a)" by (cases x)
  from Cons.IH Cons.prems have
    IH: "op_at (upd_all ps f c) b = (if b \<in> snd ` set ps then f (op_at c b) else op_at c b)"
    by simp
  from Cons.prems Cons.IH have a: "a \<notin> snd ` set ps" "a < length (cn_heap c)" by (simp_all add: x)
  show ?case
  proof (cases "b = a")
    case True
    with a IH show ?thesis by (simp add: x op_at_upd)
  next
    case False
    with IH show ?thesis by (simp add: x op_at_upd)
  qed
qed simp

lemma pending_addresses:
  assumes "conn_inv c"
  shows "distinct (map snd (cn_pending c))" "snd ` set (cn_pending c) \<subseteq> {..<length (cn_heap c)}"
proof -
  have d: "distinct (map fst (cn_pending c))" using assms by (simp add: conn_inv_def pending_distinct)
  have "inj_on snd (set (cn_pending c))"
  proof (rule inj_onI)
    fix x y assume xy: "x \<in> set (cn_pending c)" "y \<in> set (cn_pending c)" "snd x = snd y"
    have "pn_id (op_at c (snd z)) = fst z" if "z \<in> set (cn_pending c)" for z
      using pendingD(2) [OF assms, of "fst z" "snd z"] that by simp
    from this [OF xy(1)] this [OF xy(2)] have "pn_id (op_at c (snd x)) = fst x" "pn_id (op_at c (snd y)) = fst y" .
    with xy(3) show "x = y" by (simp add: prod_eq_iff)
  qed
  then show "distinct (map snd (cn_pending c))" using d by (simp add: distinct_map)
  show "snd ` set (cn_pending c) \<subseteq> {..<length (cn_heap c)}" using pendingD(1) [OF assms] by auto
qed

text \<open>The connection after a retirement that took effect.\<close>

definition retirementError :: "failure option \<Rightarrow> conn \<Rightarrow> failure" where
  "retirementError err c =
     (if cn_closing c then Sentinel ErrClosed else (case err of None \<Rightarrow> Sentinel ErrClosed | Some e \<Rightarrow> e))"

lemma retire_eq:
  assumes "cn_err c = None"
  shows "retire err c = signalIDChangedLocked ((upd_all (cn_pending c) (retireOperation (retirementError err c)) c)
    \<lparr>cn_err := Some (retirementError err c), cn_state := stateClosed, cn_reserved := [], cn_pending := [],
     cn_tombstones := [], cn_unsolicitedReady := True\<rparr>)"
  using assms by (simp add: retire_def Let_def upd_all_def retirementError_def)

lemma retire_op:
  assumes "conn_inv c" "cn_err c = None"
  shows "op_at (retire err c) a =
    (if is_pending c a then retireOperation (retirementError err c) (op_at c a) else op_at c a)"
proof -
  have "op_at (retire err c) a = op_at (upd_all (cn_pending c) (retireOperation (retirementError err c)) c) a"
    by (simp add: retire_eq [OF assms(2)]) (simp add: op_at_def)
  also have "\<dots> = (if a \<in> snd ` set (cn_pending c) then retireOperation (retirementError err c) (op_at c a) else op_at c a)"
    by (rule op_at_upd_all [OF pending_addresses [OF assms(1)]])
  also have "a \<in> snd ` set (cn_pending c) \<longleftrightarrow> is_pending c a"
    by (force simp: is_pending_iff [OF assms(1)])
  finally show ?thesis .
qed

lemma retireOperation_facts [simp]:
  "pn_id (retireOperation e p) = pn_id p" "pn_ctx (retireOperation e p) = pn_ctx p"
  "pn_terminal (retireOperation e p)" "pn_lifecycleDone (retireOperation e p)" "pn_ready (retireOperation e p)"
  "pn_writeObserved (retireOperation e p) = pn_writeObserved p" "pn_queue (retireOperation e p) = pn_queue p"
  "pn_deliveryErr (retireOperation e p) =
     Some (case pn_deliveryErr p of None \<Rightarrow> operationRetirementError p e | Some d \<Rightarrow> d)"
  by (auto simp: retireOperation_def Let_def op_defs split: option.splits)

lemma retireOperation_ok: "op_ok opt p \<Longrightarrow> live p \<Longrightarrow> op_ok opt (retireOperation e p)"
  by (auto simp: retireOperation_def Let_def op_defs)

lemma retire_again: "cn_err c \<noteq> None \<Longrightarrow> retire err c = c"
  by (simp add: retire_def)

lemma retire_effect:
  assumes "cn_err c = None"
  shows "cn_err (retire err c) = Some (retirementError err c)" "cn_state (retire err c) = stateClosed"
    "cn_pending (retire err c) = []" "cn_reserved (retire err c) = []" "cn_tombstones (retire err c) = []"
    "cn_idChanged (retire err c) = Suc (cn_idChanged c)" "cn_unsolicitedReady (retire err c)"
  by (simp_all add: retire_eq [OF assms]) (simp_all add: signalIDChangedLocked_def)

lemma retire_same [simp]:
  "length (cn_heap (retire err c)) = length (cn_heap c)" "cn_writeToken (retire err c) = cn_writeToken c"
  "cn_options (retire err c) = cn_options c" "cn_closing (retire err c) = cn_closing c"
  "cn_unsolicited (retire err c) = cn_unsolicited c" "cn_unsolicitedBytes (retire err c) = cn_unsolicitedBytes c"
  "cn_maxID (retire err c) = cn_maxID c" "cn_nextID (retire err c) = cn_nextID c"
  by (cases "cn_err c = None"; simp add: retire_eq retire_again)+

lemma retire_inv:
  assumes inv: "conn_inv c"
  shows "conn_inv (retire err c)"
proof (cases "cn_err c")
  case (Some e)
  then show ?thesis using inv by (simp add: retire_again)
next
  case None
  note f = retire_effect [OF None] retire_same
  have "ops_ok (retire err c)"
    unfolding ops_ok_def f
  proof (intro conjI allI impI)
    fix a assume a: "a < length (cn_heap c)"
    show "op_ok (cn_options c) (op_at (retire err c) a)"
      using retire_op [OF inv None] heapD(1) [OF inv a] is_pendingD(2) [OF inv] retireOperation_ok by simp
    show "ended_op (op_at (retire err c) a)"
      using retire_op [OF inv None] heapD(2) [OF inv a] by (simp add: ended_op_def)
  qed simp
  moreover have "ids_ok (retire err c)" using inv by (simp add: conn_inv_def ids_ok_def occupied_def f)
  ultimately show ?thesis using inv by (simp add: conn_inv_def phase_ok_def unsolicited_ok_def f)
qed

section \<open>Abandon\<close>

lemma sendAbandon_begin_inv: "conn_inv c \<Longrightarrow> sendAbandon_begin a c = (res, c') \<Longrightarrow> conn_inv c'"
  by (auto simp: sendAbandon_begin_def split: if_splits prod.splits option.splits dest: tryReserve_inv)

lemma tombstone_inv:
  assumes "conn_inv c" "cn_err c = None" "mid \<notin> set (occupied c)" "mid \<in> {1..cn_maxID c}"
  shows "conn_inv (c\<lparr>cn_tombstones := AList.update mid pat (cn_tombstones c)\<rparr>)"
proof -
  let ?c = "c\<lparr>cn_tombstones := AList.update mid pat (cn_tombstones c)\<rparr>"
  have "AList.update mid pat (cn_tombstones c) = cn_tombstones c @ [(mid, pat)]"
    using assms(3) by (intro update_new) (auto simp: occupied_def)
  then have "ids_ok ?c" using assms by (auto simp: conn_inv_def ids_ok_def occupied_def)
  moreover have "ops_ok ?c = ops_ok c" by (simp add: ops_ok_def op_at_def is_pending_def)
  ultimately show ?thesis using assms(1,2) by (simp add: conn_inv_def phase_ok_def unsolicited_ok_def)
qed

lemma sendAbandon_entomb_inv:
  assumes inv: "conn_inv c" and r: "sendAbandon_entomb a c = (res, c')" and d: "pn_deliveryErr (op_at c a) \<noteq> None"
  shows "conn_inv c'"
proof (cases "\<not> is_pending c a \<or> cn_err c \<noteq> None \<or> cn_closing c")
  case True
  then show ?thesis using inv r by (auto simp: sendAbandon_entomb_def)
next
  case False
  let ?f = "\<lambda>p. signalReady (finishLifecycle (pn_deliveryErr p) p)" and ?k = "pn_id (op_at c a)"
  let ?c1 = "upd_op a ?f (removePending a c)"
  have c1: "conn_inv ?c1" using inv False d by (intro remove_upd_inv) (auto simp: op_defs)
  have "?k \<in> set (occupied c)" using is_pendingD(4) [OF inv, of a] False by (force simp: occupied_def)
  then have k: "?k \<in> {1..cn_maxID c}" "?k \<notin> set (cn_reserved c)" "?k \<notin> fst ` set (cn_tombstones c)"
    using inv is_pendingD(4) [OF inv, of a] False by (auto simp: conn_inv_def ids_ok_def occupied_def rev_image_eqI)
  then have "?k \<notin> set (occupied ?c1)" by (auto simp: occupied_def AList.delete_eq)
  then have "conn_inv (?c1\<lparr>cn_tombstones := AList.update ?k (pn_pattern (op_at c a)) (cn_tombstones ?c1)\<rparr>)"
    using c1 False k(1) by (intro tombstone_inv) simp_all
  then show ?thesis using r False by (auto simp: sendAbandon_entomb_def Let_def upd_op_commute)
qed

section \<open>Routing\<close>

lemma countResponse_facts [simp]:
  "pn_id (countResponse r p) = pn_id p" "pn_terminal (countResponse r p) = pn_terminal p"
  "pn_lifecycleDone (countResponse r p) = pn_lifecycleDone p" "pn_deliveryErr (countResponse r p) = pn_deliveryErr p"
  "pn_canceled (countResponse r p) = pn_canceled p" "pn_queue (countResponse r p) = pn_queue p"
  "pn_queuedBytes (countResponse r p) = pn_queuedBytes p" "pn_mode (countResponse r p) = pn_mode p"
  "pn_writeObserved (countResponse r p) = pn_writeObserved p" "pn_ctx (countResponse r p) = pn_ctx p"
  by (simp_all add: countResponse_def Let_def observer_event_def)

lemma countResponse_ok: "op_ok opt p \<Longrightarrow> op_ok opt (countResponse r p)"
  by (auto simp: countResponse_def Let_def op_defs)

lemma deliver_facts:
  assumes "deliver opt complete r p = (action, p')"
  shows "pn_id p' = pn_id p" "pn_terminal p' = pn_terminal p" "pn_lifecycleDone p' = pn_lifecycleDone p"
    "pn_writeObserved p' = pn_writeObserved p" "pn_ctx p' = pn_ctx p"
    "action = cancelActionAbandon \<Longrightarrow> pn_deliveryErr p' \<noteq> None"
    "pn_deliveryErr p \<noteq> None \<Longrightarrow> pn_deliveryErr p' \<noteq> None"
  using assms by (auto simp: deliver_def Let_def cancelDelivery_def split: if_splits)

lemma cancelDelivery_ok:
  "op_ok opt p \<Longrightarrow> 0 < MaxQueuedResponses opt \<Longrightarrow> 0 < MaxQueuedResponseBytes opt \<Longrightarrow> op_ok opt (cancelDelivery err p)"
  by (cases "pn_deliveryErr p") (simp_all add: cancelDelivery_def op_ok_def dispatch_bound_def)

lemma deliver_ok:
  assumes d: "deliver opt complete r p = (action, p')" and ok: "op_ok opt p" "0 < MaxQueuedResponses opt" "0 < MaxQueuedResponseBytes opt"
    "pn_deliveryErr p \<noteq> None \<longrightarrow> pn_canceled p"
  shows "op_ok opt p'" "pn_deliveryErr p' \<noteq> None \<longrightarrow> pn_canceled p'"
proof -
  let ?sz = "int (length (re_Bytes r))"
  let ?full = "int (length (pn_queue p)) = MaxQueuedResponses opt \<or> pn_queuedBytes p + ?sz > MaxQueuedResponseBytes opt"
  let ?p1 = "cancelDelivery (queueLimit p ?sz opt) p"
  consider "pn_canceled p" "p' = p" | "\<not> pn_canceled p" ?full "p' = ?p1 \<or> p' = ?p1\<lparr>pn_abandoning := True\<rparr>"
    | "\<not> pn_canceled p" "\<not> ?full" "p' = p\<lparr>pn_queue := pn_queue p @ [r], pn_queuedBytes := pn_queuedBytes p + ?sz\<rparr>"
    using d by (auto simp: deliver_def Let_def split: if_splits)
  then have "op_ok opt p' \<and> (pn_deliveryErr p' \<noteq> None \<longrightarrow> pn_canceled p')"
  proof cases
    case 2
    have "op_ok opt ?p1" by (rule cancelDelivery_ok [OF ok(1-3)])
    then have "op_ok opt (?p1\<lparr>pn_abandoning := True\<rparr>)" by (simp add: op_ok_def dispatch_bound_def cancelDelivery_def)
    with \<open>op_ok opt ?p1\<close> 2(3) show ?thesis by (auto simp: cancelDelivery_def)
  next
    case 3
    then show ?thesis using ok by (simp add: op_ok_def dispatch_bound_def)
  qed (use ok in simp)
  then show "op_ok opt p'" "pn_deliveryErr p' \<noteq> None \<longrightarrow> pn_canceled p'" by blast+
qed

lemma terminal_ok: "op_ok opt p \<Longrightarrow> op_ok opt (p\<lparr>pn_terminal := True\<rparr>)"
  by (cases "pn_terminal p") (simp_all add: op_ok_def dispatch_bound_def)

lemma signalReady_ok [simp]: "op_ok opt (signalReady p) = op_ok opt p"
  by (simp add: op_ok_def dispatch_bound_def signalReady_def)

lemma finishLifecycle_ok: "op_ok opt p \<Longrightarrow> op_ok opt (finishLifecycle err p)"
  by (auto simp: op_ok_def dispatch_bound_def finishLifecycle_def)

lemma finishLifecycle_facts [simp]:
  "pn_id (finishLifecycle err p) = pn_id p" "pn_terminal (finishLifecycle err p) = pn_terminal p"
  "pn_lifecycleDone (finishLifecycle err p)" "pn_deliveryErr (finishLifecycle err p) = pn_deliveryErr p"
  "pn_writeObserved (finishLifecycle err p) = pn_writeObserved p" "pn_ctx (finishLifecycle err p) = pn_ctx p"
  "pn_queue (finishLifecycle err p) = pn_queue p" "pn_ready (finishLifecycle err p) = pn_ready p"
  by (simp_all add: finishLifecycle_def)

lemma signalReady_facts [simp]:
  "pn_id (signalReady p) = pn_id p" "pn_terminal (signalReady p) = pn_terminal p"
  "pn_lifecycleDone (signalReady p) = pn_lifecycleDone p" "pn_deliveryErr (signalReady p) = pn_deliveryErr p"
  "pn_canceled (signalReady p) = pn_canceled p" "pn_writeObserved (signalReady p) = pn_writeObserved p"
  "pn_ctx (signalReady p) = pn_ctx p" "pn_queue (signalReady p) = pn_queue p" "pn_ready (signalReady p)"
  by (simp_all add: signalReady_def)

lemma routePending_inv:
  assumes inv: "conn_inv c" and p: "is_pending c a" and r: "routePending a r c = (res, c')"
  shows "conn_inv c'"
proof -
  let ?p = "op_at c a" and ?opt = "cn_options c"
  let ?cl = "FramingPattern_Classify (pn_pattern ?p) (re_ProtocolID r)"
  let ?complete = "?cl = ClassificationComplete"
  let ?p2 = "if ?complete then countResponse r ?p\<lparr>pn_terminal := True\<rparr> else countResponse r ?p"
  obtain action p3 where d: "deliver ?opt ?complete r ?p2 = (action, p3)" by (cases "deliver ?opt ?complete r ?p2")
  note pd = is_pendingD [OF inv p] and opt = inv_options [OF inv]
  have live: "\<not> pn_terminal ?p" "\<not> pn_lifecycleDone ?p" "pn_deliveryErr ?p \<noteq> None \<longrightarrow> pn_canceled ?p"
    using pd(2) by (auto simp: live_def)
  have p2: "op_ok ?opt ?p2" using countResponse_ok [OF pd(3), of r] terminal_ok by simp
  have p2': "pn_deliveryErr ?p2 \<noteq> None \<longrightarrow> pn_canceled ?p2" using live(3) by simp
  note df = deliver_facts [OF d] and dk = deliver_ok [OF d p2 conjunct1 [OF opt] conjunct2 [OF opt] p2']
  show ?thesis
  proof (cases "?cl = ClassificationInvalid")
    case True
    then show ?thesis using r inv by (simp add: routePending_def Let_def)
  next
    case False
    let ?p5 = "if ?complete then finishLifecycle (pn_deliveryErr p3) (signalReady p3) else signalReady p3"
    have c': "c' = upd_op a (\<lambda>_. ?p5) (if ?complete then signalIDChangedLocked (removePending a c) else c)"
      using r d False by (auto simp: routePending_def Let_def signalReady_def split: cancel_action.splits)
    have id5: "pn_id ?p5 = pn_id ?p" using df(1) by simp
    have ok5: "op_ok ?opt ?p5" using dk(1) finishLifecycle_ok by simp
    show ?thesis
    proof (cases ?complete)
      case True
      have "conn_inv (upd_op a (\<lambda>_. ?p5) (removePending a c))"
        using inv p id5 ok5 df(2) True by (intro remove_upd_inv) (simp_all add: ended_op_def)
      moreover have "c' = signalIDChangedLocked (upd_op a (\<lambda>_. ?p5) (removePending a c))"
        unfolding c' upd_op_commute(1) [symmetric] using True by simp
      ultimately show ?thesis by simp
    next
      case False
      have l5: "live ?p5" using False dk(2) df(2,3) live by (simp add: live_def)
      have "conn_inv (upd_op a (\<lambda>_. ?p5) c)"
      proof (rule upd_op_inv [OF inv])
        show "ended_op (op_at c a) \<Longrightarrow> ended_op ?p5" using live(2) by (simp add: ended_op_def)
      qed (rule id5 ok5 l5)+
      then show ?thesis using False by (simp add: c')
    qed
  qed
qed

lemma pending_lookup:
  assumes "conn_inv c" "map_of (cn_pending c) mid = Some a"
  shows "is_pending c a" "pn_id (op_at c a) = mid"
proof -
  have "(mid, a) \<in> set (cn_pending c)" using assms(2) by (rule map_of_SomeD)
  then show "is_pending c a" "pn_id (op_at c a) = mid" using is_pending_iff [OF assms(1)] pendingD(2) [OF assms(1)] by auto
qed

lemma routeID_inv:
  assumes inv: "conn_inv c" and r: "routeID r c = (res, c')"
  shows "conn_inv c'"
proof (cases "map_of (cn_pending c) (re_MessageID r)")
  case None
  then show ?thesis using inv r by (auto simp: routeID_def split: option.splits if_splits)
next
  case (Some a)
  then show ?thesis
    using inv r routePending_inv [OF inv pending_lookup(1) [OF inv Some]] by (auto simp: routeID_def split: if_splits)
qed

lemma routeUnsolicited_effect:
  assumes "routeUnsolicited r c = (res, c')"
  shows "c' = c \<or> int (length (cn_unsolicited c)) \<noteq> MaxUnsolicitedResponses (cn_options c)
    \<and> cn_unsolicitedBytes c + int (length (re_Bytes r)) \<le> MaxUnsolicitedResponseBytes (cn_options c)
    \<and> c' = c\<lparr>cn_unsolicited := cn_unsolicited c @ [r],
           cn_unsolicitedBytes := cn_unsolicitedBytes c + int (length (re_Bytes r)), cn_unsolicitedReady := True\<rparr>"
  using assms unfolding routeUnsolicited_def Let_def by (simp split: if_split_asm sum.split_asm option.split_asm)

lemma routeUnsolicited_inv:
  assumes inv: "conn_inv c" and r: "routeUnsolicited r c = (res, c')"
  shows "conn_inv c'"
proof (cases "c' = c")
  case False
  note eff = routeUnsolicited_effect [OF r]
  have "phase_ok c'" "unsolicited_ok c'" using inv False eff by (auto simp: conn_inv_def phase_ok_def unsolicited_ok_def)
  then show ?thesis using False eff by (intro conn_inv_frame [OF inv]) auto
qed (use inv in simp)

lemma route_inv: "conn_inv c \<Longrightarrow> route r c = (res, c') \<Longrightarrow> conn_inv c'"
  by (auto simp: route_def split: if_splits prod.splits dest: routeID_inv routeUnsolicited_inv)

lemma NextUnsolicited_inv:
  assumes inv: "conn_inv c" and r: "NextUnsolicited c = (res, c')"
  shows "conn_inv c'"
proof (cases "cn_unsolicited c")
  case Nil
  then show ?thesis using inv r by (auto simp: NextUnsolicited_def split: option.splits)
next
  case (Cons x xs)
  then have c': "c' = c\<lparr>cn_unsolicited := xs, cn_unsolicitedBytes := cn_unsolicitedBytes c - int (length (re_Bytes x))\<rparr>"
    using r by (simp add: NextUnsolicited_def)
  have "phase_ok c'" "unsolicited_ok c'" using inv Cons by (simp_all add: c' conn_inv_def phase_ok_def unsolicited_ok_def)
  then show ?thesis by (intro conn_inv_frame [OF inv]) (simp_all add: c')
qed

section \<open>Closing and setup\<close>

lemma writer_inv [simp]: "conn_inv (c\<lparr>cn_writeToken := b\<rparr>) = conn_inv c"
  by (simp add: conn_inv_def ids_ok_def occupied_def phase_ok_def unsolicited_ok_def
      ops_ok_frame [of "c\<lparr>cn_writeToken := b\<rparr>" c])

lemma acquireWriter_inv: "conn_inv c \<Longrightarrow> acquireWriter ctx c = (res, c') \<Longrightarrow> conn_inv c'"
  by (auto simp: acquireWriter_def split: option.splits if_splits)

lemma releaseWriter_inv [simp]: "conn_inv (releaseWriter c) = conn_inv c"
  by (simp add: releaseWriter_def)

lemma phaseD: "conn_inv c \<Longrightarrow> cn_err c = None \<Longrightarrow> cn_state c \<noteq> stateClosed \<and> (cn_closing c \<longleftrightarrow> cn_state c = stateDraining)"
  by (simp add: conn_inv_def phase_ok_def)

lemma CloseContext_begin_inv:
  assumes inv: "conn_inv c" and r: "CloseContext_begin c = (res, c')"
  shows "conn_inv c'"
proof (cases "cn_err c = None \<and> \<not> cn_closing c")
  case True
  then have c': "c' = c\<lparr>cn_closing := True, cn_state := stateDraining\<rparr>"
    using r phaseD [OF inv] by (simp add: CloseContext_begin_def)
  have "phase_ok c'" "unsolicited_ok c'" using inv True by (auto simp: c' conn_inv_def phase_ok_def unsolicited_ok_def)
  then show ?thesis by (intro conn_inv_frame [OF inv]) (simp_all add: c')
next
  case False
  then show ?thesis using inv r by (auto simp: CloseContext_begin_def split: option.splits if_splits)
qed

lemma transition_inv:
  assumes inv: "conn_inv c" and r: "transition to c = (res, c')" and to: "to \<in> {stateAuthenticating, stateInitializing}"
  shows "conn_inv c'"
proof (cases "c' = c")
  case False
  then have e: "cn_err c = None" and rank: "state_rank to = Suc (state_rank (cn_state c))" and c': "c' = c\<lparr>cn_state := to\<rparr>"
    using r to by (auto simp: transition_def advanceConnectionState_Inr split: option.splits sum.splits)
  then have "\<not> cn_closing c" using phaseD [OF inv] to by auto
  then have "phase_ok c'" "unsolicited_ok c'" using inv e to by (auto simp: c' conn_inv_def phase_ok_def unsolicited_ok_def)
  then show ?thesis by (intro conn_inv_frame [OF inv]) (simp_all add: c')
qed (use inv in simp)

lemma markReady_inv:
  assumes inv: "conn_inv c" and r: "markReady i pol c = (res, c')"
  shows "conn_inv c'"
proof (cases "c' = c")
  case False
  then have e: "cn_err c = None" and st: "cn_state c = stateInitializing"
    and c': "c' = c\<lparr>cn_identity := i, cn_policy := pol, cn_state := stateReady\<rparr>"
    using r by (auto simp: markReady_def advanceConnectionState_Inr split: option.splits sum.splits if_splits)
  then have "phase_ok c'" "unsolicited_ok c'" using inv by (auto simp: conn_inv_def phase_ok_def unsolicited_ok_def)
  then show ?thesis by (intro conn_inv_frame [OF inv]) (simp_all add: c')
qed (use inv in simp)

end
