(* ===== verification/Conn_Evolve.thy ===== *)
theory Conn_Evolve
  imports Conn_Inv
begin

text \<open>
  How a critical section changes the objects of a connection: what is decided stays decided, and whatever makes an
  answer available to the consumer of a stream signals it.
\<close>

section \<open>Evolution of operations\<close>

text \<open>\<^verbatim>\<open>Next\<close> has something to return.\<close>

definition avail :: "pending_operation \<Rightarrow> bool" where
  "avail p \<longleftrightarrow> pn_queue p \<noteq> [] \<or> pn_deliveryErr p \<noteq> None \<or> pn_terminal p"

text \<open>A context's error is one of two values.\<close>

definition ctx_error :: "failure \<Rightarrow> bool" where
  "ctx_error e \<longleftrightarrow> e = Sentinel Context_Canceled \<or> e = Sentinel Context_DeadlineExceeded"

definition ctx_ends :: "pending_operation \<Rightarrow> pending_operation \<Rightarrow> bool" where
  "ctx_ends p p' \<longleftrightarrow> pn_ctx p' = pn_ctx p \<or> pn_ctx p = None \<and> (\<exists>e. pn_ctx p' = Some e \<and> ctx_error e)"

lemma ctx_ends_same [simp]: "pn_ctx p' = pn_ctx p \<Longrightarrow> ctx_ends p p'"
  by (simp add: ctx_ends_def)

lemma ctx_ends_trans: "ctx_ends p q \<Longrightarrow> ctx_ends q r \<Longrightarrow> ctx_ends p r"
  by (auto simp: ctx_ends_def)

definition op_evolves :: "pending_operation \<Rightarrow> pending_operation \<Rightarrow> bool" where
  "op_evolves p p' \<longleftrightarrow>
     pn_id p' = pn_id p \<and> pn_pattern p' = pn_pattern p \<and> pn_mode p' = pn_mode p \<and> pn_writeObserved p' = pn_writeObserved p
     \<and> (pn_deliveryErr p \<noteq> None \<longrightarrow> pn_deliveryErr p' = pn_deliveryErr p)
     \<and> (pn_terminal p \<longrightarrow> pn_terminal p') \<and> (pn_lifecycleDone p \<longrightarrow> pn_lifecycleDone p')
     \<and> ctx_ends p p' \<and> (pn_ready p \<longrightarrow> pn_ready p') \<and> (avail p' \<longrightarrow> avail p \<or> pn_ready p')"

lemma op_evolves_refl [simp]: "op_evolves p p"
  by (simp add: op_evolves_def)

lemma op_evolves_trans: "op_evolves p q \<Longrightarrow> op_evolves q r \<Longrightarrow> op_evolves p r"
  using ctx_ends_trans [of p q r] by (auto simp: op_evolves_def)

definition evolves :: "conn \<Rightarrow> conn \<Rightarrow> bool" where
  "evolves c c' \<longleftrightarrow>
     length (cn_heap c) \<le> length (cn_heap c') \<and> (\<forall>a < length (cn_heap c). op_evolves (op_at c a) (op_at c' a))
     \<and> (cn_err c \<noteq> None \<longrightarrow> cn_err c' = cn_err c) \<and> (cn_closing c \<longrightarrow> cn_closing c')
     \<and> cn_options c' = cn_options c \<and> cn_maxID c' = cn_maxID c"

lemma evolves_refl [simp]: "evolves c c"
  by (simp add: evolves_def)

lemma evolves_trans: "evolves c d \<Longrightarrow> evolves d e \<Longrightarrow> evolves c e"
  by (auto simp: evolves_def intro: op_evolves_trans)

lemma evolves_frame:
  "cn_heap c' = cn_heap c \<Longrightarrow> cn_err c' = cn_err c \<Longrightarrow> (cn_closing c \<longrightarrow> cn_closing c') \<Longrightarrow> cn_options c' = cn_options c \<Longrightarrow>
     cn_maxID c' = cn_maxID c \<Longrightarrow> evolves c c'"
  by (simp add: evolves_def op_at_def)

lemma evolves_upd: "(a < length (cn_heap c) \<Longrightarrow> op_evolves (op_at c a) (f (op_at c a))) \<Longrightarrow> evolves c (upd_op a f c)"
  by (simp add: evolves_def op_at_upd)

lemma evolves_signal [simp]: "evolves c (signalIDChangedLocked c') = evolves c c'"
  by (simp add: evolves_def)

lemma evolves_remove_upd:
  "(a < length (cn_heap c) \<Longrightarrow> op_evolves (op_at c a) (f (op_at c a))) \<Longrightarrow> evolves c (upd_op a f (removePending a c))"
  by (simp add: evolves_def op_at_upd)

section \<open>Sections\<close>

text \<open>The allocator touches nothing but the cursor and the reservations.\<close>

definition same_but_ids :: "conn \<Rightarrow> conn \<Rightarrow> bool" where
  "same_but_ids c c' \<longleftrightarrow> (\<exists>i rs. c' = c\<lparr>cn_nextID := i, cn_reserved := rs\<rparr>)"

lemma same_but_ids_trans: "same_but_ids (c\<lparr>cn_nextID := i\<rparr>) c' \<Longrightarrow> same_but_ids c c'"
  by (auto simp: same_but_ids_def)

lemma tryReserveLoop_same: "same_but_ids c (snd (tryReserveLoop n c))"
proof (induction n arbitrary: c)
  case 0
  show ?case by (cases c) (auto simp: same_but_ids_def)
next
  case (Suc n)
  let ?next = "int32_inc (cn_nextID c)"
  let ?mid = "if cn_maxID c < ?next \<or> ?next \<le> 0 then 1 else ?next"
  have "snd (tryReserveLoop (Suc n) c) = snd (tryReserveLoop n (c\<lparr>cn_nextID := ?mid\<rparr>))
      \<or> snd (tryReserveLoop (Suc n) c) = c\<lparr>cn_nextID := ?mid, cn_reserved := ?mid # cn_reserved c\<rparr>"
    by (simp add: Let_def)
  then show ?case using same_but_ids_trans [OF Suc.IH] by (auto simp: same_but_ids_def)
qed

lemma tryReserve_same:
  "tryReserveMessageIDLocked c = (res, c') \<Longrightarrow> cn_heap c' = cn_heap c \<and> cn_err c' = cn_err c \<and> cn_closing c' = cn_closing c
     \<and> cn_options c' = cn_options c \<and> cn_maxID c' = cn_maxID c \<and> cn_writeToken c' = cn_writeToken c
     \<and> cn_pending c' = cn_pending c \<and> cn_tombstones c' = cn_tombstones c \<and> cn_state c' = cn_state c
     \<and> cn_idChanged c' = cn_idChanged c"
  using tryReserveLoop_same [of c "nat (cn_maxID c)"]
  by (cases "tryReserveLoop (nat (cn_maxID c)) c")
    (auto simp: tryReserveMessageIDLocked_def same_but_ids_def split: if_splits)

lemma tryReserve_evolves: "tryReserveMessageIDLocked c = (res, c') \<Longrightarrow> evolves c c'"
  by (rule evolves_frame) (auto dest: tryReserve_same)

lemma reserveMessageID_evolves: "reserveMessageID scope c = (res, c') \<Longrightarrow> evolves c c'"
  by (auto simp: reserveMessageID_def split: option.splits prod.splits dest: tryReserve_evolves)

lemma releaseReserved_evolves [simp]: "evolves c (releaseReserved mid c)"
  by (rule evolves_frame) (simp_all add: releaseReserved_def)

lemma installPending_evolves: "installPending p scope c = (res, c') \<Longrightarrow> evolves c c'"
  by (auto simp: installPending_def Let_def evolves_def op_at_def nth_append split: option.splits if_splits)

lemma finish_evolves: "op_evolves p (signalReady (finishLifecycle err (p\<lparr>pn_terminal := True\<rparr>)))"
  by (auto simp: op_evolves_def avail_def signalReady_def finishLifecycle_def)

lemma removeDefinitelyUnsent_evolves [simp]: "evolves c (removeDefinitelyUnsent a err c)"
  by (simp add: removeDefinitelyUnsent_def upd_op_commute evolves_remove_upd finish_evolves)

lemma completeNoResponse_evolves [simp]: "evolves c (completeNoResponse a c)"
  by (simp add: completeNoResponse_def upd_op_commute evolves_remove_upd finish_evolves)

lemma stream_Next_evolves: "stream_Next a c = (res, c') \<Longrightarrow> evolves c c'"
  by (auto simp: stream_Next_def Let_def op_evolves_def avail_def split: list.splits option.splits if_splits intro!: evolves_upd)

lemma startWrite_evolves [simp]: "evolves c (startWrite a c)"
  by (auto simp: startWrite_def op_evolves_def avail_def intro!: evolves_upd)

lemma cancelOperation_evolves:
  assumes "cancelOperation a reason c = (action, c')"
  shows "evolves c c'"
proof -
  let ?c1 = "if pn_deliveryErr (op_at c a) = None
    then upd_op a (\<lambda>p. signalReady (observer_event TraceCanceled (pn_responseBytes p) (pn_responses p) (cancelDelivery reason p))) c
    else c"
  have c1: "evolves c ?c1"
    by (auto simp: op_evolves_def avail_def signalReady_def observer_event_def cancelDelivery_def intro!: evolves_upd)
  have "evolves ?c1 (upd_op a (\<lambda>p. p\<lparr>pn_abandoning := True\<rparr>) ?c1)"
    by (rule evolves_upd) (simp add: op_evolves_def avail_def)
  then have "evolves c (upd_op a (\<lambda>p. p\<lparr>pn_abandoning := True\<rparr>) ?c1)" by (rule evolves_trans [OF c1])
  with c1 show ?thesis using assms by (auto simp: cancelOperation_def Let_def split: if_splits)
qed

lemma retireOperation_evolves: "op_evolves p (retireOperation e p)"
  by (auto simp: op_evolves_def avail_def retireOperation_def Let_def signalReady_def finishLifecycle_def observer_event_def)

lemma retire_evolves:
  assumes "conn_inv c"
  shows "evolves c (retire err c)"
proof (cases "cn_err c = None")
  case True
  then show ?thesis using retire_op [OF assms True] by (simp add: evolves_def retireOperation_evolves)
qed (simp add: retire_again)

lemma acquireWriter_evolves: "acquireWriter ctx c = (res, c') \<Longrightarrow> evolves c c'"
  by (rule evolves_frame) (auto simp: acquireWriter_def split: option.splits if_splits)

lemma releaseWriter_evolves [simp]: "evolves c (releaseWriter c') = evolves c c'"
  by (simp add: evolves_def releaseWriter_def op_at_def)

lemma sendAbandon_begin_evolves: "sendAbandon_begin a c = (res, c') \<Longrightarrow> evolves c c'"
  by (auto simp: sendAbandon_begin_def split: if_splits prod.splits option.splits dest: tryReserve_evolves)

lemma sendAbandon_entomb_evolves:
  assumes "sendAbandon_entomb a c = (res, c')" "pn_deliveryErr (op_at c a) \<noteq> None"
  shows "evolves c c'"
proof (cases "c' = c")
  case False
  let ?f = "\<lambda>p. signalReady (finishLifecycle (pn_deliveryErr p) p)"
  have "evolves c (upd_op a ?f (removePending a c))"
    using assms(2) by (intro evolves_remove_upd) (auto simp: op_evolves_def avail_def signalReady_def finishLifecycle_def)
  then have "evolves c ((upd_op a ?f (removePending a c))\<lparr>cn_tombstones := ts\<rparr>)" for ts
    by (simp add: evolves_def op_at_def)
  then show ?thesis using assms(1) False
    by (auto simp: sendAbandon_entomb_def Let_def upd_op_commute split: if_splits)
qed simp

lemma deliver_evolves:
  assumes "deliver opt complete r p = (action, p')" "pn_deliveryErr p \<noteq> None \<longrightarrow> pn_canceled p"
  shows "pn_deliveryErr p \<noteq> None \<longrightarrow> pn_deliveryErr p' = pn_deliveryErr p"
    "pn_pattern p' = pn_pattern p" "pn_mode p' = pn_mode p" "pn_ready p' = pn_ready p"
  using assms by (auto simp: deliver_def Let_def cancelDelivery_def split: if_splits)

lemma countResponse_same [simp]:
  "pn_pattern (countResponse r p) = pn_pattern p" "pn_ready (countResponse r p) = pn_ready p"
  by (simp_all add: countResponse_def Let_def observer_event_def)

lemma finish_same [simp]:
  "pn_pattern (finishLifecycle err p) = pn_pattern p" "pn_mode (finishLifecycle err p) = pn_mode p"
  "pn_pattern (signalReady p) = pn_pattern p" "pn_mode (signalReady p) = pn_mode p"
  by (simp_all add: finishLifecycle_def signalReady_def)

lemma routePending_evolves:
  assumes inv: "conn_inv c" and p: "is_pending c a" and r: "routePending a r c = (res, c')"
  shows "evolves c c'"
proof -
  let ?p = "op_at c a" and ?opt = "cn_options c"
  let ?cl = "FramingPattern_Classify (pn_pattern ?p) (re_ProtocolID r)"
  let ?complete = "?cl = ClassificationComplete"
  let ?p2 = "if ?complete then countResponse r ?p\<lparr>pn_terminal := True\<rparr> else countResponse r ?p"
  obtain action p3 where d: "deliver ?opt ?complete r ?p2 = (action, p3)" by (cases "deliver ?opt ?complete r ?p2")
  have "pn_deliveryErr ?p2 \<noteq> None \<longrightarrow> pn_canceled ?p2" using is_pendingD(2) [OF inv p] by (simp add: live_def)
  note de = deliver_evolves [OF d this] deliver_facts [OF d]
  let ?p5 = "if ?complete then finishLifecycle (pn_deliveryErr p3) (signalReady p3) else signalReady p3"
  have "op_evolves ?p ?p5" using de by (simp add: op_evolves_def)
  then have "evolves c (upd_op a (\<lambda>_. ?p5) (removePending a c))" "evolves c (upd_op a (\<lambda>_. ?p5) c)"
    by (auto intro!: evolves_remove_upd evolves_upd)
  moreover have "c' = c \<or> c' = signalIDChangedLocked (upd_op a (\<lambda>_. ?p5) (removePending a c)) \<or> c' = upd_op a (\<lambda>_. ?p5) c"
    using r d by (auto simp: routePending_def Let_def signalReady_def upd_op_commute split: cancel_action.splits if_splits)
  ultimately show ?thesis by auto
qed

lemma route_evolves:
  assumes inv: "conn_inv c" and r: "route r c = (res, c')"
  shows "evolves c c'"
proof (cases "re_MessageID r = 0")
  case True
  then obtain err where "routeUnsolicited r c = (err, c')" using r by (auto simp: route_def split: prod.splits)
  from routeUnsolicited_effect [OF this] show ?thesis by (auto intro!: evolves_frame)
next
  case False
  then have id: "routeID r c = (res, c')" using r by (simp add: route_def)
  show ?thesis
  proof (cases "map_of (cn_pending c) (re_MessageID r)")
    case None
    then show ?thesis using id by (auto simp: routeID_def split: option.splits if_splits)
  next
    case (Some a)
    then show ?thesis
      using id routePending_evolves [OF inv pending_lookup(1) [OF inv Some]] by (auto simp: routeID_def split: if_splits)
  qed
qed

lemma NextUnsolicited_evolves: "NextUnsolicited c = (res, c') \<Longrightarrow> evolves c c'"
  by (rule evolves_frame) (auto simp: NextUnsolicited_def split: list.splits option.splits)

lemma CloseContext_begin_evolves: "CloseContext_begin c = (res, c') \<Longrightarrow> evolves c c'"
  by (rule evolves_frame) (auto simp: CloseContext_begin_def split: option.splits if_splits)

lemma transition_evolves: "transition to c = (res, c') \<Longrightarrow> evolves c c'"
  by (rule evolves_frame) (auto simp: transition_def split: option.splits sum.splits)

lemma markReady_evolves: "markReady i pol c = (res, c') \<Longrightarrow> evolves c c'"
  by (rule evolves_frame) (auto simp: markReady_def split: option.splits sum.splits if_splits)

section \<open>Growth\<close>

text \<open>What also a wakeup respects, which takes the signal away.\<close>

definition op_grows :: "pending_operation \<Rightarrow> pending_operation \<Rightarrow> bool" where
  "op_grows p p' \<longleftrightarrow>
     pn_id p' = pn_id p \<and> pn_pattern p' = pn_pattern p \<and> pn_mode p' = pn_mode p
     \<and> pn_writeObserved p' = pn_writeObserved p
     \<and> (pn_deliveryErr p \<noteq> None \<longrightarrow> pn_deliveryErr p' = pn_deliveryErr p)
     \<and> (pn_terminal p \<longrightarrow> pn_terminal p') \<and> (pn_lifecycleDone p \<longrightarrow> pn_lifecycleDone p') \<and> ctx_ends p p'"

definition grows :: "conn \<Rightarrow> conn \<Rightarrow> bool" where
  "grows c c' \<longleftrightarrow>
     length (cn_heap c) \<le> length (cn_heap c') \<and> (\<forall>a < length (cn_heap c). op_grows (op_at c a) (op_at c' a))
     \<and> (cn_err c \<noteq> None \<longrightarrow> cn_err c' = cn_err c) \<and> (cn_closing c \<longrightarrow> cn_closing c')
     \<and> cn_options c' = cn_options c \<and> cn_maxID c' = cn_maxID c"

lemma evolves_grows: "evolves c c' \<Longrightarrow> grows c c'"
  by (auto simp: evolves_def grows_def op_evolves_def op_grows_def)

lemma grows_upd: "(a < length (cn_heap c) \<Longrightarrow> op_grows (op_at c a) (f (op_at c a))) \<Longrightarrow> grows c (upd_op a f c)"
  by (auto simp: grows_def op_at_upd op_grows_def)

lemma op_grows_refl [simp]: "op_grows p p"
  by (simp add: op_grows_def)

lemma grows_refl [simp]: "grows c c"
  by (simp add: grows_def)

lemma op_grows_trans: "op_grows p q \<Longrightarrow> op_grows q r \<Longrightarrow> op_grows p r"
  using ctx_ends_trans [of p q r] by (auto simp: op_grows_def)

lemma grows_trans: "grows c d \<Longrightarrow> grows d e \<Longrightarrow> grows c e"
  unfolding grows_def by (auto intro: op_grows_trans)

end
