(* ===== verification/Conn_Machine.thy ===== *)
theory Conn_Machine
  imports Conn_Evolve Conn_Request "HOL-Library.Multiset"
begin

text \<open>
  The goroutines of a connection (\<^verbatim>\<open>Conn.do\<close>, \<^verbatim>\<open>watchOperation\<close>, \<^verbatim>\<open>sendAbandon\<close>, \<^verbatim>\<open>readLoop\<close>, \<^verbatim>\<open>CloseContext\<close>, the response streams and
  setup) as one transition system.

  A state is the connection and the multiset of the activities in progress.  An activity is a goroutine or call at
  one of its points outside the lock, named after what it does next.  A step is one critical section, one receive
  from a channel or one call of \<^verbatim>\<open>writeAll\<close>; steps of different activities interleave freely.  The environment
  chooses the operations, the responses that arrive, when contexts end and what the transport's writes return.
  A stream has one consumer, which may be blocked in \<^verbatim>\<open>Next\<close> (\<open>Blocked\<close>): it goes on when it receives the operation's signal
  (\<open>stream_wake\<close>) or gives up when the context of its own call ends, which may be at any time (\<open>stream_leave\<close>).
\<close>

section \<open>Activities\<close>

datatype activity =
    DoReserved int untyped_operation operation_scope
  | DoQueued nat bytes
  | DoHolding nat bytes
  | DoWriting nat bytes
  | DoWritten nat nat
  | DoFailed nat nat failure
  | DoReturning nat
  | Watching nat
  | Blocked nat
  | Retiring failure
  | AbandonStarting nat
  | AbandonReserved nat int
  | AbandonHolding nat int
  | AbandonWriting int bytes
  | AbandonWritten int "failure option"
  | Reading
  | ReaderWaits response nat
  | CloseWaiting
  | CloseHolding
  | CloseWriting int bytes
  | CloseWritten int

type_synonym machine = "conn \<times> activity multiset"

text \<open>What \<^verbatim>\<open>writeAll\<close> did with the connection: its own call of \<^verbatim>\<open>retire\<close>, or the one of the context's goroutine.\<close>

definition retireHere :: "retire_call \<Rightarrow> conn \<Rightarrow> conn" where
  "retireHere ret c = (case ret of RetireHere e \<Rightarrow> retire (Some e) c | _ \<Rightarrow> c)"

definition retireTask :: "retire_call \<Rightarrow> activity multiset" where
  "retireTask ret = (case ret of RetireByContext e \<Rightarrow> {#Retiring e#} | _ \<Rightarrow> {#})"

text \<open>What follows the section of \<^verbatim>\<open>cancelOperation\<close>, of \<^verbatim>\<open>route\<close>, and the end of \<^verbatim>\<open>sendAbandon\<close>.\<close>

definition cancelTask :: "nat \<Rightarrow> cancel_action \<Rightarrow> activity multiset" where
  "cancelTask a action =
     (case action of
        cancelActionNone \<Rightarrow> {#}
      | cancelActionAbandon \<Rightarrow> {#AbandonStarting a#}
      | cancelActionClose \<Rightarrow> {#Retiring (Sentinel ErrClosed)#})"

definition readerTask :: "response \<Rightarrow> routed \<Rightarrow> activity multiset" where
  "readerTask r res =
     (case res of
        Routed None \<Rightarrow> {#Reading#}
      | Routed (Some err) \<Rightarrow> {#Retiring err#}
      | RoutedAbandon a \<Rightarrow> {#Reading, AbandonStarting a#}
      | AwaitWritten a \<Rightarrow> {#ReaderWaits r a#})"

definition errorTask :: "failure option \<Rightarrow> activity multiset" where
  "errorTask err = (case err of None \<Rightarrow> {#} | Some e \<Rightarrow> {#Retiring e#})"

text \<open>The errors of a network connection are not errors of this package.\<close>

fun outcome_ok :: "write_outcome \<Rightarrow> bool" where
  "outcome_ok (CtxDone e) = ctx_error e"
| "outcome_ok (Interrupted n e) = ctx_error e"
| "outcome_ok (Returned n err ctx) =
     ((case err of None \<Rightarrow> True | Some e \<Rightarrow> (\<exists>g. e = Ber g)) \<and> (case ctx of None \<Rightarrow> True | Some e \<Rightarrow> ctx_error e))"

text \<open>The error \<^verbatim>\<open>acquireWriter\<close> can return: its context is done, the connection has ended, or it is closing.\<close>

definition writer_refused :: "failure option \<Rightarrow> conn \<Rightarrow> failure \<Rightarrow> bool" where
  "writer_refused ctx c err \<longleftrightarrow>
     (\<exists>e. err = unsent e \<and> (ctx = Some e \<or> cn_err c = Some e))
     \<or> cn_writeToken c \<and> fst (acquireWriter ctx c) = Some err"

section \<open>Steps\<close>

inductive conn_step :: "machine \<Rightarrow> machine \<Rightarrow> bool" where
  do_reserve: "UntypedOperation_Validate op = None \<Longrightarrow> uo_Protocol op = Some p \<Longrightarrow>
    \<not> (scope = operationApplication \<and> isAssociationChanging (po_identifier p)) \<Longrightarrow>
    reserveMessageID scope c = (Inr (Some mid), c') \<Longrightarrow>
    conn_step (c, T) (c', add_mset (DoReserved mid op scope) T)"
| do_give_up: "conn_step (c, add_mset (DoReserved mid op scope) T) (releaseReserved mid c, T)"
| do_install: "uo_Protocol op = Some p \<Longrightarrow>
    encodeLDAPRequest mid p (uo_Controls op) (BERLimits (cn_options c)) = Inr message \<Longrightarrow>
    installPending (newPending mid op None (length message)) scope c = (Inr a, c') \<Longrightarrow>
    conn_step (c, add_mset (DoReserved mid op scope) T) (c', add_mset (DoQueued a message) T)"
| ctx_done: "a < length (cn_heap c) \<Longrightarrow> pn_ctx (op_at c a) = None \<Longrightarrow> ctx_error e \<Longrightarrow>
    conn_step (c, T) (upd_op a (\<lambda>p. p\<lparr>pn_ctx := Some e\<rparr>) c, T)"
| do_refused: "writer_refused (pn_ctx (op_at c a)) c err \<Longrightarrow>
    conn_step (c, add_mset (DoQueued a message) T) (c, add_mset (DoFailed a 0 err) T)"
| do_acquire: "cn_writeToken c \<Longrightarrow> acquireWriter (pn_ctx (op_at c a)) c = (None, c') \<Longrightarrow>
    conn_step (c, add_mset (DoQueued a message) T) (c', add_mset (DoHolding a message) T)"
| do_start: "conn_step (c, add_mset (DoHolding a message) T) (startWrite a c, add_mset (DoWriting a message) T)"
| do_write: "writeAll env message = (n, None, ret) \<Longrightarrow> \<forall>i. outcome_ok (env i) \<Longrightarrow>
    conn_step (c, add_mset (DoWriting a message) T) (releaseWriter c, add_mset (DoWritten a n) T)"
| do_write_fails: "writeAll env message = (n, Some err, ret) \<Longrightarrow> \<forall>i. outcome_ok (env i) \<Longrightarrow>
    conn_step (c, add_mset (DoWriting a message) T)
      (releaseWriter (retireHere ret c), add_mset (DoFailed a n err) (retireTask ret + T))"
| do_failed: "conn_step (c, add_mset (DoFailed a n err) T)
    (if n = 0 \<and> \<not> errors_Is err ErrAmbiguousOutcome then removeDefinitelyUnsent a (Some err) c else c, T)"
| do_observed: "conn_step (c, add_mset (DoWritten a n) T)
    (upd_op a (\<lambda>p. (observer_event TraceWritten (of_nat n) 0 p)\<lparr>pn_writeObserved := True\<rparr>) c,
     add_mset (DoReturning a) T)"
| do_no_response: "FramingPattern_NoResponse (pn_pattern (op_at c a)) \<Longrightarrow>
    conn_step (c, add_mset (DoReturning a) T) (completeNoResponse a c, T)"
| do_return: "\<not> FramingPattern_NoResponse (pn_pattern (op_at c a)) \<Longrightarrow>
    conn_step (c, add_mset (DoReturning a) T) (c, add_mset (Watching a) T)"
| watch_cancel: "pn_ctx (op_at c a) = Some e \<Longrightarrow> cancelOperation a e c = (action, c') \<Longrightarrow>
    conn_step (c, add_mset (Watching a) T) (c', cancelTask a action + T)"
| watch_end: "pn_lifecycleDone (op_at c a) \<or> cn_err c \<noteq> None \<Longrightarrow> conn_step (c, add_mset (Watching a) T) (c, T)"
| stream_cancel: "a < length (cn_heap c) \<Longrightarrow> pn_writeObserved (op_at c a) \<Longrightarrow>
    reason = Sentinel ErrClosed \<or> pn_ctx (op_at c a) = Some reason \<Longrightarrow> cancelOperation a reason c = (action, c') \<Longrightarrow>
    conn_step (c, T) (c', cancelTask a action + T)"
| stream_next: "a < length (cn_heap c) \<Longrightarrow> pn_writeObserved (op_at c a) \<Longrightarrow> Blocked a \<notin># T \<Longrightarrow>
    stream_Next a c = (Some res, c') \<Longrightarrow> conn_step (c, T) (c', T)"
| stream_block: "a < length (cn_heap c) \<Longrightarrow> pn_writeObserved (op_at c a) \<Longrightarrow> Blocked a \<notin># T \<Longrightarrow>
    stream_Next a c = (None, c') \<Longrightarrow> conn_step (c, T) (c', add_mset (Blocked a) T)"
| stream_wake: "pn_ready (op_at c a) \<Longrightarrow>
    conn_step (c, add_mset (Blocked a) T) (upd_op a (\<lambda>p. p\<lparr>pn_ready := False\<rparr>) c, T)"
| stream_leave: "conn_step (c, add_mset (Blocked a) T) (c, T)"
| retiring: "conn_step (c, add_mset (Retiring e) T) (retire (Some e) c, T)"
| abandon_nothing: "sendAbandon_begin a c = (Inr None, c') \<Longrightarrow> conn_step (c, add_mset (AbandonStarting a) T) (c', T)"
| abandon_no_id: "sendAbandon_begin a c = (Inl err, c') \<Longrightarrow>
    conn_step (c, add_mset (AbandonStarting a) T) (c', add_mset (Retiring err) T)"
| abandon_begin: "sendAbandon_begin a c = (Inr (Some mid), c') \<Longrightarrow>
    conn_step (c, add_mset (AbandonStarting a) T) (c', add_mset (AbandonReserved a mid) T)"
| abandon_refused: "ctx = None \<or> ctx = Some (Sentinel Context_DeadlineExceeded) \<Longrightarrow> writer_refused ctx c err \<Longrightarrow>
    conn_step (c, add_mset (AbandonReserved a mid) T)
      (releaseReserved mid c, errorTask (if errors_Is err ErrClosed then None else Some err) + T)"
| abandon_acquire: "cn_writeToken c \<Longrightarrow> acquireWriter None c = (None, c') \<Longrightarrow>
    conn_step (c, add_mset (AbandonReserved a mid) T) (c', add_mset (AbandonHolding a mid) T)"
| abandon_stale: "sendAbandon_entomb a c = (False, c') \<Longrightarrow>
    conn_step (c, add_mset (AbandonHolding a mid) T) (releaseWriter c', add_mset (AbandonWritten mid None) T)"
| abandon_entomb: "sendAbandon_entomb a c = (True, c') \<Longrightarrow>
    message = encodeInternalRequest mid (AbandonRequest_BERPacket (AbandonRequest (pn_id (op_at c a)))) \<Longrightarrow>
    conn_step (c, add_mset (AbandonHolding a mid) T) (c', add_mset (AbandonWriting mid message) T)"
| abandon_write: "writeAll env message = (n, res, ret) \<Longrightarrow> \<forall>i. outcome_ok (env i) \<Longrightarrow>
    conn_step (c, add_mset (AbandonWriting mid message) T)
      (releaseWriter (retireHere ret c), add_mset (AbandonWritten mid res) (retireTask ret + T))"
| abandon_done: "conn_step (c, add_mset (AbandonWritten mid res) T) (releaseReserved mid c, errorTask res + T)"
| read: "parseOwnedResponse message (BERLimits (cn_options c)) = Inr r \<Longrightarrow> route r c = (res, c') \<Longrightarrow>
    conn_step (c, add_mset Reading T) (c', readerTask r res + T)"
| read_frame_fails: "conn_step (c, add_mset Reading T) (c, add_mset (Retiring (classifyReadError (cn_closing c) err)) T)"
| read_envelope_fails: "parseOwnedResponse message (BERLimits (cn_options c)) = Inl err \<Longrightarrow>
    conn_step (c, add_mset Reading T)
      (c, add_mset (Retiring (ProtocolError ProtocolEnvelope 0 zero_identifier (Some (translateBERLimit err)))) T)"
| read_resume: "pn_writeObserved (op_at c a) \<Longrightarrow> route r c = (res, c') \<Longrightarrow>
    conn_step (c, add_mset (ReaderWaits r a) T) (c', readerTask r res + T)"
| read_stop: "cn_err c \<noteq> None \<Longrightarrow> conn_step (c, add_mset (ReaderWaits r a) T) (c, add_mset Reading T)"
| unsolicited_next: "NextUnsolicited c = (Some res, c') \<Longrightarrow> conn_step (c, T) (c', T)"
| close_begin: "CloseContext_begin c = (CloseProceeds, c') \<Longrightarrow> conn_step (c, T) (c', add_mset CloseWaiting T)"
| close_acquire: "cn_writeToken c \<Longrightarrow>
    conn_step (c, add_mset CloseWaiting T) (c\<lparr>cn_writeToken := False\<rparr>, add_mset CloseHolding T)"
| close_skip: "conn_step (c, add_mset CloseWaiting T) (c, add_mset (Retiring (Sentinel ErrClosed)) T)"
| close_reserve: "tryReserveMessageIDLocked c = (Some mid, c') \<Longrightarrow> message = encodeInternalRequest mid UnbindRequest_BERPacket \<Longrightarrow>
    conn_step (c, add_mset CloseHolding T) (c', add_mset (CloseWriting mid message) T)"
| close_no_id: "tryReserveMessageIDLocked c = (None, c') \<Longrightarrow>
    conn_step (c, add_mset CloseHolding T) (releaseWriter c', add_mset (Retiring (Sentinel ErrClosed)) T)"
| close_write: "writeAll env message = (n, res, ret) \<Longrightarrow> \<forall>i. outcome_ok (env i) \<Longrightarrow>
    conn_step (c, add_mset (CloseWriting mid message) T) (retireHere ret c, add_mset (CloseWritten mid) (retireTask ret + T))"
| close_done: "conn_step (c, add_mset (CloseWritten mid) T)
    (releaseWriter (releaseReserved mid c), add_mset (Retiring (Sentinel ErrClosed)) T)"
| setup_transition: "to = stateAuthenticating \<or> to = stateInitializing \<Longrightarrow> transition to c = (None, c') \<Longrightarrow> conn_step (c, T) (c', T)"
| setup_ready: "markReady i pol c = (None, c') \<Longrightarrow> conn_step (c, T) (c', T)"

section \<open>The basic invariant\<close>

text \<open>The operations an activity refers to, and the target of an \<^verbatim>\<open>Abandon\<close>.\<close>

fun refers :: "activity \<Rightarrow> nat set" where
  "refers (DoQueued a message) = {a}"
| "refers (DoHolding a message) = {a}"
| "refers (DoWriting a message) = {a}"
| "refers (DoWritten a n) = {a}"
| "refers (DoFailed a n err) = {a}"
| "refers (DoReturning a) = {a}"
| "refers (Watching a) = {a}"
| "refers (Blocked a) = {a}"
| "refers (AbandonStarting a) = {a}"
| "refers (AbandonReserved a mid) = {a}"
| "refers (AbandonHolding a mid) = {a}"
| "refers (ReaderWaits r a) = {a}"
| "refers t = {}"

fun abandons :: "activity \<Rightarrow> nat set" where
  "abandons (AbandonStarting a) = {a}"
| "abandons (AbandonReserved a mid) = {a}"
| "abandons (AbandonHolding a mid) = {a}"
| "abandons t = {}"

text \<open>The operation an activity is about to write; its caller has not been told yet.\<close>

fun writes :: "activity \<Rightarrow> nat set" where
  "writes (DoQueued a message) = {a}"
| "writes (DoHolding a message) = {a}"
| "writes (DoWriting a message) = {a}"
| "writes (DoWritten a n) = {a}"
| "writes t = {}"

definition writers :: "activity multiset \<Rightarrow> nat \<Rightarrow> nat" where
  "writers T a = size (filter_mset (\<lambda>t. a \<in> writes t) T)"

lemma writers_simps [simp]:
  "writers {#} a = 0" "writers (add_mset t T) a = of_bool (a \<in> writes t) + writers T a"
  "writers (S + T) a = writers S a + writers T a"
  by (auto simp: writers_def)

definition activity_ok :: "conn \<Rightarrow> activity \<Rightarrow> bool" where
  "activity_ok c t \<longleftrightarrow> (\<forall>a \<in> refers t. a < length (cn_heap c)) \<and> (\<forall>a \<in> abandons t. pn_deliveryErr (op_at c a) \<noteq> None)
     \<and> (\<forall>a \<in> writes t. \<not> pn_writeObserved (op_at c a))"

definition base_inv :: "machine \<Rightarrow> bool" where
  "base_inv s \<longleftrightarrow> conn_inv (fst s) \<and> (\<forall>t \<in># snd s. activity_ok (fst s) t) \<and> (\<forall>a. writers (snd s) a \<le> 1)"

lemma activity_ok_grows: "activity_ok c t \<Longrightarrow> grows c c' \<Longrightarrow> activity_ok c' t"
  by (cases t) (auto simp: activity_ok_def grows_def op_grows_def)

lemma tasks_simps [simp]:
  "writers (retireTask ret) a = 0" "writers (cancelTask b action) a = 0" "writers (errorTask err) a = 0"
  "writers (readerTask r res) a = 0"
  by (simp_all add: retireTask_def cancelTask_def errorTask_def readerTask_def
      split: retire_call.splits cancel_action.splits option.splits routed.splits)

lemma tasks_ok [simp]:
  "t \<in># retireTask ret \<Longrightarrow> activity_ok c t" "t \<in># errorTask err \<Longrightarrow> activity_ok c t"
  by (auto simp: retireTask_def errorTask_def activity_ok_def split: retire_call.splits option.splits)

lemma no_writer: "writers T a = 0 \<longleftrightarrow> (\<forall>t \<in># T. a \<notin> writes t)"
  by (auto simp: writers_def)

text \<open>A context that ends, the end of a write, and a wakeup change no part of the invariant.\<close>

lemma ctx_done_inv: "conn_inv c \<Longrightarrow> conn_inv (upd_op a (\<lambda>p. p\<lparr>pn_ctx := Some e\<rparr>) c)"
  by (rule upd_op_inv) (simp_all add: op_defs)

lemma wake_inv: "conn_inv c \<Longrightarrow> conn_inv (upd_op a (\<lambda>p. p\<lparr>pn_ready := False\<rparr>) c)"
  by (rule upd_op_inv) (simp_all add: op_defs)

lemma observed_inv:
  "conn_inv c \<Longrightarrow> \<not> pn_writeObserved (op_at c a) \<Longrightarrow>
     conn_inv (upd_op a (\<lambda>p. (observer_event TraceWritten n 0 p)\<lparr>pn_writeObserved := True\<rparr>) c)"
  by (rule upd_op_inv) (auto simp: op_defs)

lemma cancelTask_ok:
  assumes "cancelOperation a e c = (action, c')" "a < length (cn_heap c)" "t \<in># cancelTask a action"
  shows "activity_ok c' t"
proof -
  have "pn_deliveryErr (op_at c' a) \<noteq> None" if "action = cancelActionAbandon"
    using assms(1,2) that
    by (auto simp: cancelOperation_def Let_def op_at_upd op_defs split: if_splits)
  moreover have "length (cn_heap c') = length (cn_heap c)"
    using assms(1) by (auto simp: cancelOperation_def Let_def split: if_splits)
  ultimately show ?thesis
    using assms(2,3) by (auto simp: cancelTask_def activity_ok_def split: cancel_action.splits)
qed

lemma routed_abandon:
  assumes "routePending a r c = (RoutedAbandon b, c')" "a < length (cn_heap c)"
  shows "b = a \<and> pn_deliveryErr (op_at c' a) \<noteq> None"
  using assms
  by (auto simp: routePending_def Let_def op_at_upd finishLifecycle_def signalReady_def
      split: if_splits prod.splits cancel_action.splits dest: deliver_facts(6))

lemma readerTask_ok:
  assumes inv: "conn_inv c" and r: "route r c = (res, c')" and t: "t \<in># readerTask r res"
  shows "activity_ok c' t"
proof -
  note ev = route_evolves [OF inv r]
  have abandon: "b < length (cn_heap c') \<and> pn_deliveryErr (op_at c' b) \<noteq> None" if res: "res = RoutedAbandon b" for b
  proof -
    obtain a where m: "map_of (cn_pending c) (re_MessageID r) = Some a" "routePending a r c = (RoutedAbandon b, c')"
      using r res by (auto simp: route_def routeID_def split: if_splits option.splits prod.splits)
    have "a < length (cn_heap c)" using is_pendingD(1) [OF inv pending_lookup(1) [OF inv m(1)]] .
    with routed_abandon [OF m(2)] ev show ?thesis by (auto simp: evolves_def)
  qed
  have wait: "b < length (cn_heap c')" if "res = AwaitWritten b" for b
  proof -
    have "map_of (cn_pending c) (re_MessageID r) = Some b"
      using r that by (auto simp: route_def routeID_def routePending_def Let_def
          split: if_splits option.splits prod.splits cancel_action.splits)
    then have "b < length (cn_heap c)" using is_pendingD(1) [OF inv pending_lookup(1) [OF inv]] by blast
    then show ?thesis using ev by (auto simp: evolves_def)
  qed
  from t abandon wait show ?thesis
    by (auto simp: readerTask_def activity_ok_def split: routed.splits option.splits)
qed

text \<open>The part of every step that concerns the connection.\<close>

lemmas section_inv = reserveMessageID_inv releaseReserved_inv installPending_inv removeDefinitelyUnsent_inv completeNoResponse_inv
  stream_Next_inv startWrite_inv cancelOperation_inv retire_inv sendAbandon_begin_inv sendAbandon_entomb_inv route_inv
  NextUnsolicited_inv acquireWriter_inv CloseContext_begin_inv transition_inv markReady_inv tryReserve_inv
  ctx_done_inv wake_inv

lemmas section_evolves = reserveMessageID_evolves installPending_evolves stream_Next_evolves cancelOperation_evolves
  retire_evolves acquireWriter_evolves sendAbandon_begin_evolves sendAbandon_entomb_evolves route_evolves
  NextUnsolicited_evolves CloseContext_begin_evolves transition_evolves markReady_evolves tryReserve_evolves

lemma retireHere_inv: "conn_inv c \<Longrightarrow> conn_inv (retireHere ret c)"
  by (simp add: retireHere_def retire_inv split: retire_call.splits)

lemma retireHere_evolves: "conn_inv c \<Longrightarrow> evolves c (retireHere ret c)"
  by (simp add: retireHere_def retire_evolves split: retire_call.splits)

lemma token_evolves [simp]: "evolves c (c\<lparr>cn_writeToken := b\<rparr>)"
  by (rule evolves_frame) simp_all

lemma step_conn_inv:
  assumes "conn_step s s'" "base_inv s"
  shows "conn_inv (fst s')"
  using assms
proof (cases rule: conn_step.cases)
  case (do_install op p mid c message scope a c' T)
  then have c: "conn_inv c" using assms(2) by (simp add: base_inv_def)
  then have "options_ok (cn_options c)" by (simp add: conn_inv_def)
  then have "conn_inv c'" using installPending_inv [OF c do_install(5)] newPending_ok by blast
  then show ?thesis using do_install by simp
qed (auto simp: base_inv_def activity_ok_def observed_inv retireHere_inv dest: section_inv)

text \<open>A step lets the connection evolve, unless it wakes a consumer or reports a written request.\<close>

lemma ctx_done_evolves: "ctx_error e \<Longrightarrow> pn_ctx (op_at c a) = None \<Longrightarrow> evolves c (upd_op a (\<lambda>p. p\<lparr>pn_ctx := Some e\<rparr>) c)"
  by (rule evolves_upd) (simp add: op_evolves_def avail_def ctx_ends_def)

lemma wake_grows: "grows c (upd_op a (\<lambda>p. p\<lparr>pn_ready := False\<rparr>) c)"
  by (rule grows_upd) (simp add: op_grows_def)

lemma abandon_target: "base_inv (c, add_mset (AbandonHolding a mid) T) \<Longrightarrow> pn_deliveryErr (op_at c a) \<noteq> None"
  by (simp add: base_inv_def activity_ok_def)

lemma evolves_release: "conn_inv c \<Longrightarrow> evolves c (releaseWriter (releaseReserved mid c))"
  by simp

lemma step_evolves:
  assumes "conn_step s s'" "base_inv s"
  shows "evolves (fst s) (fst s')
    \<or> (\<exists>a T c. s = (c, add_mset (Blocked a) T) \<and> s' = (upd_op a (\<lambda>p. p\<lparr>pn_ready := False\<rparr>) c, T))
    \<or> (\<exists>a n T c. s = (c, add_mset (DoWritten a n) T)
    \<and> s' = (upd_op a (\<lambda>p. (observer_event TraceWritten (of_nat n) 0 p)\<lparr>pn_writeObserved := True\<rparr>) c,
            add_mset (DoReturning a) T))"
  using assms
proof (cases rule: conn_step.cases)
  case (abandon_stale a c c' mid T)
  then show ?thesis
    using assms(2) abandon_target sendAbandon_entomb_evolves by (intro disjI1) fastforce
next
  case (abandon_entomb a c c' message mid T)
  then show ?thesis
    using assms(2) abandon_target sendAbandon_entomb_evolves by (intro disjI1) fastforce
next
  case (do_observed c a n T)
  then show ?thesis by blast
next
  case (stream_wake c a T)
  then show ?thesis by blast
qed (auto simp: base_inv_def ctx_done_evolves retireHere_evolves dest: section_evolves)

lemma step_grows:
  assumes "conn_step s s'" "base_inv s"
  shows "grows (fst s) (fst s') \<or> (\<exists>a n T c. s = (c, add_mset (DoWritten a n) T)
    \<and> s' = (upd_op a (\<lambda>p. (observer_event TraceWritten (of_nat n) 0 p)\<lparr>pn_writeObserved := True\<rparr>) c,
            add_mset (DoReturning a) T))"
  using step_evolves [OF assms] evolves_grows wake_grows by fastforce

text \<open>The activities after a step.\<close>

lemma old_activity:
  assumes "base_inv s" "grows (fst s) c'" "t \<in># snd s"
  shows "activity_ok c' t"
  using assms by (auto simp: base_inv_def intro: activity_ok_grows)

lemma fresh_writer:
  assumes "base_inv (c, T)" "length (cn_heap c) \<le> a"
  shows "writers T a = 0"
proof -
  have "writes t \<subseteq> refers t" for t by (cases t) auto
  then show ?thesis using assms unfolding no_writer base_inv_def activity_ok_def by fastforce
qed

lemma activity_ok_always [simp]:
  "activity_ok c (DoReserved mid op scope)" "activity_ok c (Retiring e)" "activity_ok c (AbandonWriting mid message)"
  "activity_ok c (AbandonWritten mid err)" "activity_ok c Reading" "activity_ok c CloseWaiting" "activity_ok c CloseHolding"
  "activity_ok c (CloseWriting mid message)" "activity_ok c (CloseWritten mid)"
  by (simp_all add: activity_ok_def)

lemma activity_ok_next:
  "activity_ok c (DoQueued a message) \<Longrightarrow> activity_ok c (DoFailed a n err)"
  "activity_ok c (DoQueued a message) \<Longrightarrow> activity_ok c (DoHolding a message')"
  "activity_ok c (DoHolding a message) \<Longrightarrow> activity_ok c (DoWriting a message')"
  "activity_ok c (DoWriting a message) \<Longrightarrow> activity_ok c (DoWritten a n)"
  "activity_ok c (DoWriting a message) \<Longrightarrow> activity_ok c (DoFailed a n err)"
  "activity_ok c (DoReturning a) \<Longrightarrow> activity_ok c (Watching a)"
  "activity_ok c (AbandonStarting a) \<Longrightarrow> activity_ok c (AbandonReserved a mid)"
  "activity_ok c (AbandonReserved a mid) \<Longrightarrow> activity_ok c (AbandonHolding a mid')"
  "a < length (cn_heap c) \<Longrightarrow> activity_ok c (Blocked a)"
  by (simp_all add: activity_ok_def)

lemma step_activities:
  assumes st: "conn_step s s'" and inv: "base_inv s" and grows: "grows (fst s) (fst s')"
  shows "\<forall>t \<in># snd s'. activity_ok (fst s') t"
proof -
  note old = old_activity [OF inv grows]
  have ci: "conn_inv (fst s)" using inv by (simp add: base_inv_def)
  from st show ?thesis
  proof (cases rule: conn_step.cases)
    case (do_install op p mid c message scope a c' T)
    then have a: "a = length (cn_heap c)" "length (cn_heap c') = Suc a" "op_at c' a = newPending mid op None (length message)"
      by (auto simp: installPending_def Let_def op_at_def split: option.splits if_splits)
    have "activity_ok c' (DoQueued a message)" using a by (simp add: activity_ok_def newPending_def)
    then show ?thesis using do_install old by auto
  next
    case (watch_cancel c a e action c' T)
    then have "a < length (cn_heap c)" using inv by (simp add: base_inv_def activity_ok_def)
    then show ?thesis using watch_cancel old cancelTask_ok [OF watch_cancel(4)] by auto
  next
    case (stream_cancel a c reason action c' T)
    then show ?thesis using old cancelTask_ok [OF stream_cancel(6)] by auto
  next
    case (stream_block a c T c')
    then have "a < length (cn_heap c')" using grows by (simp add: grows_def)
    then show ?thesis using stream_block old by (auto intro: activity_ok_next)
  next
    case (read message c r res c' T)
    then show ?thesis using old ci readerTask_ok [OF _ read(4)] by auto
  next
    case (read_resume c a r res c' T)
    then show ?thesis using old ci readerTask_ok [OF _ read_resume(4)] by auto
  next
    case (do_write env message n ret c a T)
    then have "activity_ok (fst s') (DoWritten a n)" using old [of "DoWriting a message"] by (simp add: activity_ok_def)
    then show ?thesis using do_write old by auto
  next
    case (do_observed c a n T)
    then have "activity_ok (fst s') (DoReturning a)" using old [of "DoWritten a n"] by (simp add: activity_ok_def)
    then show ?thesis using do_observed old by auto
  qed (use old in \<open>auto intro: activity_ok_next\<close>)
qed

lemma step_writers:
  assumes st: "conn_step s s'" and inv: "base_inv s"
  shows "\<forall>a. writers (snd s') a \<le> 1"
proof -
  have w: "writers (snd s) a \<le> 1" for a using inv by (simp add: base_inv_def)
  from st show ?thesis
  proof (cases rule: conn_step.cases)
    case (do_install op p mid c message scope a c' T)
    then have "a = length (cn_heap c)" by (auto simp: installPending_def Let_def split: option.splits if_splits)
    then have "writers T a = 0" using fresh_writer [of c "snd s" a] inv do_install by simp
    then show ?thesis using do_install w by simp
  qed (use w in \<open>auto intro: add_leD2\<close>)
qed

lemma step_base_inv:
  assumes st: "conn_step s s'" and inv: "base_inv s"
  shows "base_inv s'"
proof -
  note c' = step_conn_inv [OF st inv] and w' = step_writers [OF st inv]
  from step_grows [OF st inv] have "\<forall>t \<in># snd s'. activity_ok (fst s') t"
  proof
    assume "grows (fst s) (fst s')"
    then show ?thesis by (rule step_activities [OF st inv])
  next
    assume "\<exists>a n T c. s = (c, add_mset (DoWritten a n) T)
      \<and> s' = (upd_op a (\<lambda>p. (observer_event TraceWritten (of_nat n) 0 p)\<lparr>pn_writeObserved := True\<rparr>) c,
              add_mset (DoReturning a) T)"
    then obtain a n T c where s: "s = (c, add_mset (DoWritten a n) T)"
      "s' = (upd_op a (\<lambda>p. (observer_event TraceWritten (of_nat n) 0 p)\<lparr>pn_writeObserved := True\<rparr>) c, add_mset (DoReturning a) T)"
      by blast
    then have a: "writers T a = 0" "a < length (cn_heap c)"
      using inv by (auto simp: base_inv_def activity_ok_def dest: spec [of _ a])
    have "activity_ok (fst s') t" if "t \<in># T" for t
    proof -
      have ok: "activity_ok c t" using that inv s by (simp add: base_inv_def)
      have "a \<notin> writes t" using a(1) that by (simp add: no_writer)
      with ok show ?thesis using s(2) by (cases t) (auto simp: activity_ok_def op_at_upd observer_event_def)
    qed
    moreover have "activity_ok (fst s') (DoReturning a)" using a s by (simp add: activity_ok_def)
    ultimately show ?thesis using s by auto
  qed
  with c' w' show ?thesis by (simp add: base_inv_def)
qed

end
