(* ===== verification/Conn_Safety.thy ===== *)
theory Conn_Safety
  imports Conn_Machine
begin

text \<open>
  What the transition system of a connection guarantees: one writer at a time, no reservation lost or leaked, no
  lost wakeup of a consumer, no operation left pending after its caller was told that it failed.
\<close>

section \<open>Sections that leave the writer and the reservations alone\<close>

definition quiet :: "conn \<Rightarrow> conn \<Rightarrow> bool" where
  "quiet c c' \<longleftrightarrow> cn_writeToken c' = cn_writeToken c \<and> cn_reserved c' = cn_reserved c \<and> cn_err c' = cn_err c"

lemma quiet_refl [simp]: "quiet c c"
  by (simp add: quiet_def)

lemma quiet_upd [simp]: "quiet c (upd_op a f c') = quiet c c'"
  by (simp add: quiet_def)

lemma quiet_signal [simp]: "quiet c (signalIDChangedLocked c') = quiet c c'"
  by (simp add: quiet_def)

lemma quiet_remove [simp]: "quiet c (removePending a c') = quiet c c'"
  by (simp add: quiet_def)

lemma quiet_sections:
  "quiet c (removeDefinitelyUnsent a err c)" "quiet c (completeNoResponse a c)" "quiet c (startWrite a c)"
  "stream_Next a c = (res1, c') \<Longrightarrow> quiet c c'"
  "cancelOperation a e c = (action, c') \<Longrightarrow> quiet c c'"
  "NextUnsolicited c = (res2, c') \<Longrightarrow> quiet c c'"
  "CloseContext_begin c = (res3, c') \<Longrightarrow> quiet c c'"
  "transition to c = (res4, c') \<Longrightarrow> quiet c c'"
  "markReady i pol c = (res5, c') \<Longrightarrow> quiet c c'"
  by (auto simp: removeDefinitelyUnsent_def completeNoResponse_def startWrite_def)
    (auto simp: stream_Next_def cancelOperation_def NextUnsolicited_def CloseContext_begin_def transition_def
      markReady_def Let_def quiet_def split: list.splits option.splits if_splits sum.splits)

lemma quiet_entomb: "sendAbandon_entomb a c = (res, c') \<Longrightarrow> quiet c c'"
  by (auto simp: sendAbandon_entomb_def Let_def quiet_def split: if_splits)

lemma quiet_routePending: "routePending a r c = (res, c') \<Longrightarrow> quiet c c'"
  by (auto simp: routePending_def Let_def split: if_splits prod.splits cancel_action.splits)

lemma quiet_route: "route r c = (res, c') \<Longrightarrow> quiet c c'"
proof (cases "re_MessageID r = 0")
  case True
  assume "route r c = (res, c')"
  with True obtain err where "routeUnsolicited r c = (err, c')" by (auto simp: route_def split: prod.splits)
  from routeUnsolicited_effect [OF this] show ?thesis by (auto simp: quiet_def)
next
  case False
  assume "route r c = (res, c')"
  with False show ?thesis
    by (auto simp: route_def routeID_def dest: quiet_routePending split: option.splits if_splits)
qed

text \<open>The other sections.\<close>

lemma retireHere_fields [simp]: "cn_writeToken (retireHere ret c) = cn_writeToken c"
  by (simp add: retireHere_def split: retire_call.splits)

lemma retireHere_err: "cn_err (retireHere ret c) = None \<Longrightarrow> retireHere ret c = c"
  by (cases "cn_err c") (auto simp: retireHere_def retire_effect retire_again split: retire_call.splits)

lemma releaseReserved_fields [simp]:
  "cn_writeToken (releaseReserved mid c) = cn_writeToken c" "cn_err (releaseReserved mid c) = cn_err c"
  "cn_reserved (releaseReserved mid c) = filter (\<lambda>i. i \<noteq> mid) (cn_reserved c)"
  by (simp_all add: releaseReserved_def) (metis (mono_tags, lifting) filter_True)

lemma releaseWriter_fields [simp]:
  "cn_writeToken (releaseWriter c)" "cn_err (releaseWriter c) = cn_err c" "cn_reserved (releaseWriter c) = cn_reserved c"
  by (simp_all add: releaseWriter_def)

lemma acquireWriter_None: "acquireWriter ctx c = (None, c') \<Longrightarrow> c' = c\<lparr>cn_writeToken := False\<rparr>"
  by (simp add: acquireWriter_def split: option.split_asm if_split_asm)

lemma quiet_fields [simp]:
  "cn_writeToken (startWrite a c) = cn_writeToken c" "cn_writeToken (removeDefinitelyUnsent a err c) = cn_writeToken c"
  "cn_writeToken (completeNoResponse a c) = cn_writeToken c"
  "cn_reserved (startWrite a c) = cn_reserved c" "cn_reserved (removeDefinitelyUnsent a err c) = cn_reserved c"
  "cn_reserved (completeNoResponse a c) = cn_reserved c"
  "cn_err (startWrite a c) = cn_err c" "cn_err (removeDefinitelyUnsent a err c) = cn_err c"
  "cn_err (completeNoResponse a c) = cn_err c"
  using quiet_sections(1) [of c a err] quiet_sections(2) [of c a] quiet_sections(3) [of c a] by (simp_all add: quiet_def)

lemma installPending_fields:
  "installPending p scope c = (Inr a, c') \<Longrightarrow> cn_writeToken c' = cn_writeToken c \<and> cn_err c' = cn_err c
     \<and> cn_reserved c' = filter (\<lambda>i. i \<noteq> pn_id p) (cn_reserved c) \<and> pn_id p \<in> set (cn_reserved c)"
  by (auto simp: installPending_def Let_def split: option.splits if_splits)

lemma reserve_fields:
  assumes "ids_ok c" "tryReserveMessageIDLocked c = (res, c')"
  shows "cn_writeToken c' = cn_writeToken c" "cn_err c' = cn_err c"
    "cn_reserved c' = (case res of None \<Rightarrow> cn_reserved c | Some mid \<Rightarrow> mid # cn_reserved c)"
  using ids_ok_reserve [OF assms] by (auto split: option.splits)

section \<open>One writer\<close>

fun holds_writer :: "activity \<Rightarrow> bool" where
  "holds_writer (DoHolding a message) = True"
| "holds_writer (DoWriting a message) = True"
| "holds_writer (AbandonHolding a mid) = True"
| "holds_writer (AbandonWriting mid message) = True"
| "holds_writer CloseHolding = True"
| "holds_writer (CloseWriting mid message) = True"
| "holds_writer (CloseWritten mid) = True"
| "holds_writer t = False"

definition holders :: "activity multiset \<Rightarrow> nat" where
  "holders T = size (filter_mset holds_writer T)"

lemma holders_simps [simp]:
  "holders {#} = 0" "holders (add_mset t T) = of_bool (holds_writer t) + holders T" "holders (S + T) = holders S + holders T"
  by (simp_all add: holders_def)

lemma task_holders [simp]:
  "holders (retireTask ret) = 0" "holders (cancelTask b action) = 0" "holders (errorTask err) = 0" "holders (readerTask r res) = 0"
  by (simp_all add: retireTask_def cancelTask_def errorTask_def readerTask_def
      split: retire_call.splits cancel_action.splits option.splits routed.splits)

definition writer_inv :: "machine \<Rightarrow> bool" where
  "writer_inv s \<longleftrightarrow> holders (snd s) + of_bool (cn_writeToken (fst s)) = 1"

lemma reserveMessageID_fields:
  assumes "ids_ok c" "reserveMessageID scope c = (Inr (Some mid), c')"
  shows "cn_writeToken c' = cn_writeToken c \<and> cn_err c' = cn_err c \<and> cn_reserved c' = mid # cn_reserved c"
  using assms reserve_fields [OF assms(1)] by (auto simp: reserveMessageID_def split: option.splits prod.splits)

lemma sendAbandon_begin_fields:
  assumes "ids_ok c" "sendAbandon_begin a c = (res, c')"
  shows "cn_writeToken c' = cn_writeToken c \<and> cn_err c' = cn_err c
    \<and> cn_reserved c' = (case res of Inr (Some mid) \<Rightarrow> mid # cn_reserved c | _ \<Rightarrow> cn_reserved c)"
  using assms reserve_fields [OF assms(1)] by (auto simp: sendAbandon_begin_def split: option.splits prod.splits if_splits)

lemma quiet_token: "quiet c c' \<Longrightarrow> cn_writeToken c' = cn_writeToken c"
  by (simp add: quiet_def)

lemma step_writer_inv:
  assumes st: "conn_step s s'" and b: "base_inv s" and w: "writer_inv s"
  shows "writer_inv s'"
proof -
  have ids: "ids_ok (fst s)" using b by (simp add: base_inv_def conn_inv_def)
  from st show ?thesis
    using w ids
    by (cases rule: conn_step.cases)
      (auto simp: writer_inv_def reserve_fields sendAbandon_begin_fields
        dest: acquireWriter_None installPending_fields reserveMessageID_fields quiet_sections(4-) [THEN quiet_token]
        quiet_entomb [THEN quiet_token] quiet_route [THEN quiet_token])
qed

section \<open>Reservations\<close>

text \<open>The message IDs the activities in progress have reserved and not yet used or released.\<close>

fun held_id :: "activity \<Rightarrow> int multiset" where
  "held_id (DoReserved mid op scope) = {#mid#}"
| "held_id (AbandonReserved a mid) = {#mid#}"
| "held_id (AbandonHolding a mid) = {#mid#}"
| "held_id (AbandonWriting mid message) = {#mid#}"
| "held_id (AbandonWritten mid err) = {#mid#}"
| "held_id (CloseWriting mid message) = {#mid#}"
| "held_id (CloseWritten mid) = {#mid#}"
| "held_id t = {#}"

definition held :: "activity multiset \<Rightarrow> int multiset" where
  "held T = \<Sum>\<^sub># (image_mset held_id T)"

lemma held_simps [simp]:
  "held {#} = {#}" "held (add_mset t T) = held_id t + held T" "held (S + T) = held S + held T"
  by (simp_all add: held_def)

lemma task_held [simp]:
  "held (retireTask ret) = {#}" "held (cancelTask b action) = {#}" "held (errorTask err) = {#}" "held (readerTask r res) = {#}"
  by (simp_all add: retireTask_def cancelTask_def errorTask_def readerTask_def
      split: retire_call.splits cancel_action.splits option.splits routed.splits)

definition reserved_inv :: "machine \<Rightarrow> bool" where
  "reserved_inv s \<longleftrightarrow> (cn_err (fst s) = None \<longrightarrow> mset (cn_reserved (fst s)) = held (snd s))"

lemma mset_release:
  assumes "distinct xs" "mset xs = add_mset m M"
  shows "filter_mset (\<lambda>i. i \<noteq> m) (mset xs) = M"
proof -
  have "count (mset xs) m \<le> 1" using assms(1) by (simp add: distinct_count_atmost_1)
  then have "m \<notin># M" using assms(2) by (simp add: not_in_iff)
  then have "filter_mset (\<lambda>i. i \<noteq> m) M = M" by (auto simp: filter_mset_eq_conv)
  then show ?thesis using assms(2) by simp
qed

lemma quiet_reserved: "quiet c c' \<Longrightarrow> cn_reserved c' = cn_reserved c \<and> cn_err c' = cn_err c"
  by (simp add: quiet_def)

lemma step_reserved_inv:
  assumes st: "conn_step s s'" and b: "base_inv s" and r: "reserved_inv s"
  shows "reserved_inv s'"
proof (cases "cn_err (fst s')")
  case (Some e)
  then show ?thesis by (simp add: reserved_inv_def)
next
  case None
  have ids: "ids_ok (fst s)" and d: "distinct (cn_reserved (fst s))"
    using b by (auto simp: base_inv_def conn_inv_def ids_ok_def occupied_def)
  note rel = mset_release [OF d]
  from step_grows [OF st b] None have e: "cn_err (fst s) = None" by (auto simp: grows_def)
  then have m: "mset (cn_reserved (fst s)) = held (snd s)" using r by (simp add: reserved_inv_def)
  from st show ?thesis
  proof (cases rule: conn_step.cases)
    case (do_install op p mid c message scope a c' T)
    then show ?thesis
      using installPending_fields [OF do_install(5)] m rel by (simp add: reserved_inv_def newPending_def)
  next
    case (do_write_fails env message n err ret c a T)
    then show ?thesis using m None retireHere_err [of ret c] by (simp add: reserved_inv_def)
  next
    case (abandon_write env message n res ret c mid T)
    then show ?thesis using m None retireHere_err [of ret c] by (simp add: reserved_inv_def)
  next
    case (close_write env message n res ret c mid T)
    then show ?thesis using m None retireHere_err [of ret c] by (simp add: reserved_inv_def)
  next
    case (retiring c ea T)
    then show ?thesis using None e by (simp add: retire_effect)
  qed (use m ids rel in \<open>auto simp: reserved_inv_def reserve_fields sendAbandon_begin_fields
      dest: acquireWriter_None reserveMessageID_fields quiet_sections(4-) [THEN quiet_reserved]
      quiet_entomb [THEN quiet_reserved] quiet_route [THEN quiet_reserved]\<close>)
qed

end
