(* ===== verification/Transition.thy ===== *)
theory Transition
  imports Main
begin

text \<open>
  Transition systems: the states reachable from the initial ones, invariants, and properties that persist once they
  hold.  The goroutines of a connection and the goroutines of a pool are instances.
\<close>

inductive reach :: "('s \<Rightarrow> bool) \<Rightarrow> ('s \<Rightarrow> 's \<Rightarrow> bool) \<Rightarrow> 's \<Rightarrow> bool"
  for init :: "'s \<Rightarrow> bool" and step :: "'s \<Rightarrow> 's \<Rightarrow> bool" where
  reach_init: "init s \<Longrightarrow> reach init step s"
| reach_step: "reach init step s \<Longrightarrow> step s s' \<Longrightarrow> reach init step s'"

lemma reach_steps: "step\<^sup>*\<^sup>* s s' \<Longrightarrow> reach init step s \<Longrightarrow> reach init step s'"
  by (induction rule: rtranclp_induct) (auto intro: reach_step)

text \<open>An invariant may rest on another one that is known to hold before and after the step.\<close>

locale invariant_system =
  fixes init :: "'s \<Rightarrow> bool" and step :: "'s \<Rightarrow> 's \<Rightarrow> bool" and inv :: "'s \<Rightarrow> bool"
  assumes init_inv: "init s \<Longrightarrow> inv s"
    and step_inv: "step s s' \<Longrightarrow> inv s \<Longrightarrow> inv s'"
begin

lemma reach_inv: "reach init step s \<Longrightarrow> inv s"
  by (induction rule: reach.induct) (auto intro: init_inv step_inv)

lemma steps_inv: "step\<^sup>*\<^sup>* s s' \<Longrightarrow> inv s \<Longrightarrow> inv s'"
  by (induction rule: rtranclp_induct) (auto intro: step_inv)

lemma persists:
  assumes "\<And>s s'. step s s' \<Longrightarrow> inv s \<Longrightarrow> P s \<Longrightarrow> P s'" "step\<^sup>*\<^sup>* s s'" "inv s" "P s"
  shows "P s'"
  using assms(2,3,4)
proof (induction rule: rtranclp_induct)
  case (step y z)
  then show ?case using assms(1) steps_inv [of s y] by blast
qed

end

locale strengthened_system = invariant_system +
  fixes extra :: "'s \<Rightarrow> bool"
  assumes init_extra: "init s \<Longrightarrow> extra s"
    and step_extra: "step s s' \<Longrightarrow> inv s \<Longrightarrow> inv s' \<Longrightarrow> extra s \<Longrightarrow> extra s'"

sublocale strengthened_system \<subseteq> both: invariant_system init step "\<lambda>s. inv s \<and> extra s"
  by unfold_locales (auto intro: init_inv init_extra step_inv step_extra)

end
