(* ===== verification/Conn_Live.thy ===== *)
theory Conn_Live
  imports Conn_Safety Transition
begin

text \<open>
  Progress of a connection: a retirement once decided is carried out, a consumer is never left waiting for an answer that
  is there, a failed write ends the connection or removes the operation, and every pending operation has somebody
  working for it.
\<close>

section \<open>The end of a connection\<close>

text \<open>An activity that ends the connection, and a connection that has ended or has such an activity.\<close>

fun ends :: "activity \<Rightarrow> bool" where
  "ends (Retiring e) = True"
| "ends CloseWaiting = True"
| "ends CloseHolding = True"
| "ends (CloseWriting mid message) = True"
| "ends (CloseWritten mid) = True"
| "ends t = False"

definition ending :: "machine \<Rightarrow> bool" where
  "ending s \<longleftrightarrow> cn_err (fst s) \<noteq> None \<or> (\<exists>t \<in># snd s. ends t)"

lemma ending_err: "cn_err c \<noteq> None \<Longrightarrow> ending (c, T)"
  by (simp add: ending_def)

lemma ending_task: "t \<in># T \<Longrightarrow> ends t \<Longrightarrow> ending (c, T)"
  by (auto simp: ending_def)

lemma retire_ends: "cn_err (retire err c) \<noteq> None"
  by (cases "cn_err c") (simp_all add: retire_effect retire_again)

lemma step_err:
  assumes "conn_step s s'" "base_inv s" "cn_err (fst s) \<noteq> None"
  shows "cn_err (fst s') = cn_err (fst s)"
  using step_grows [OF assms(1,2)] assms(3) by (auto simp: grows_def)

lemma step_ending:
  assumes st: "conn_step s s'" and b: "base_inv s" and e: "ending s"
  shows "ending s'"
proof (cases "cn_err (fst s)")
  case (Some err)
  then show ?thesis using step_err [OF st b] by (simp add: ending_def)
next
  case None
  with e obtain t where t: "t \<in># snd s" "ends t" by (auto simp: ending_def)
  from st show ?thesis
    by (cases rule: conn_step.cases) (use t in \<open>auto simp: ending_def retire_ends\<close>)
qed

text \<open>Every activity that ends the connection can go on to do so, whatever else happens.\<close>

definition ended :: "machine \<Rightarrow> bool" where
  "ended s \<longleftrightarrow> cn_err (fst s) \<noteq> None"

definition can_end :: "machine \<Rightarrow> bool" where
  "can_end s \<longleftrightarrow> (\<exists>s'. conn_step\<^sup>*\<^sup>* s s' \<and> ended s')"

lemma can_end_step: "conn_step s t \<Longrightarrow> can_end t \<Longrightarrow> can_end s"
  unfolding can_end_def using converse_rtranclp_into_rtranclp by metis

lemma ended_can_end: "ended s \<Longrightarrow> can_end s"
  unfolding can_end_def by blast

lemma retiring_can_end [simp]: "can_end (c, add_mset (Retiring e) T)"
  by (rule can_end_step [OF conn_step.retiring], rule ended_can_end) (simp only: ended_def fst_conv retire_ends not_False_eq_True)

lemma close_written_can_end [simp]: "can_end (c, add_mset (CloseWritten mid) T)"
  by (rule can_end_step [OF conn_step.close_done]) simp

lemma close_writing_can_end [simp]: "can_end (c, add_mset (CloseWriting mid message) T)"
proof -
  let ?env = "\<lambda>i. CtxDone (Sentinel Context_DeadlineExceeded)"
  obtain n res ret where w: "writeAll ?env message = (n, res, ret)" by (cases "writeAll ?env message")
  show ?thesis by (rule can_end_step [OF conn_step.close_write [OF w]]) (simp_all add: ctx_error_def)
qed

lemma close_holding_can_end [simp]: "can_end (c, add_mset CloseHolding T)"
proof (cases "tryReserveMessageIDLocked c")
  case (Pair res c')
  show ?thesis
  proof (cases res)
    case None
    show ?thesis by (rule can_end_step [OF conn_step.close_no_id [OF Pair [unfolded None]]]) simp
  next
    case (Some mid)
    show ?thesis by (rule can_end_step [OF conn_step.close_reserve [OF Pair [unfolded Some] refl]]) simp
  qed
qed

lemma close_waiting_can_end [simp]: "can_end (c, add_mset CloseWaiting T)"
  by (rule can_end_step [OF conn_step.close_skip]) simp

lemma ending_can_end:
  assumes "ending s"
  shows "can_end s"
proof (cases "ended s")
  case False
  then obtain t T where "snd s = add_mset t T" "ends t"
    using assms by (auto simp: ending_def ended_def dest: multi_member_split)
  then show ?thesis by (cases s; cases t) auto
qed (rule ended_can_end)

section \<open>What a section leaves alone\<close>

text \<open>Closing begins in one place only; an operation becomes pending when it is installed, and is marked for an \<^verbatim>\<open>Abandon\<close>
  only where its sender is started, which the set \<open>A\<close> names.\<close>

definition settles :: "nat set \<Rightarrow> conn \<Rightarrow> conn \<Rightarrow> bool" where
  "settles A c c' \<longleftrightarrow> cn_closing c' = cn_closing c \<and> length (cn_heap c') = length (cn_heap c) \<and> (\<forall>a < length (cn_heap c). is_pending c' a \<longrightarrow>
     is_pending c a \<and> (pn_abandoning (op_at c' a) \<longrightarrow> pn_abandoning (op_at c a) \<or> a \<in> A))"

lemma settles_refl [simp]: "settles A c c"
  by (simp add: settles_def)

lemma settles_frame:
  "cn_closing c' = cn_closing c \<Longrightarrow> cn_pending c' = cn_pending c \<Longrightarrow> cn_heap c' = cn_heap c \<Longrightarrow> settles A c c'"
  by (simp add: settles_def is_pending_def op_at_def)

lemma settles_same:
  "settles A c (signalIDChangedLocked c') = settles A c c'" "settles A c (releaseWriter c') = settles A c c'"
  "settles A c (c'\<lparr>cn_tombstones := ts\<rparr>) = settles A c c'" "settles A c (c'\<lparr>cn_writeToken := b\<rparr>) = settles A c c'"
  "settles A c (c'\<lparr>cn_reserved := rs\<rparr>) = settles A c c'"
  by (simp_all add: settles_def is_pending_def op_at_def signalIDChangedLocked_def releaseWriter_def)

lemmas [simp] = settles_same

lemma settles_upd:
  "pn_id (f (op_at c a)) = pn_id (op_at c a) \<Longrightarrow>
     pn_abandoning (f (op_at c a)) \<longrightarrow> pn_abandoning (op_at c a) \<or> a \<in> A \<Longrightarrow> settles A c (upd_op a f c)"
  by (auto simp: settles_def is_pending_def op_at_upd)

lemma is_pending_remove: "is_pending (removePending a c) b \<longleftrightarrow> is_pending c b \<and> pn_id (op_at c b) \<noteq> pn_id (op_at c a)"
  by (auto simp: is_pending_def removePending_def op_at_def AList.delete_conv')

lemma settles_remove:
  assumes "pn_id (f (op_at c a)) = pn_id (op_at c a)"
  shows "settles A c (upd_op a f (removePending a c))"
proof -
  have "is_pending (upd_op a f (removePending a c)) b \<longleftrightarrow> is_pending c b \<and> pn_id (op_at c b) \<noteq> pn_id (op_at c a)" for b
    using assms is_pending_upd [of a "removePending a c" f b] by (simp add: is_pending_remove)
  then show ?thesis by (auto simp: settles_def op_at_upd)
qed

lemma settles_reserve: "tryReserveMessageIDLocked c = (res, c') \<Longrightarrow> settles A c c'"
  by (rule settles_frame) (auto dest: tryReserve_same)

lemma settles_reserveMessageID: "reserveMessageID scope c = (res, c') \<Longrightarrow> settles A c c'"
  by (auto simp: reserveMessageID_def split: option.splits prod.splits dest: settles_reserve)

lemma settles_release [simp]: "settles A c (releaseReserved mid c)"
  by (simp add: releaseReserved_def)

definition installs :: "nat \<Rightarrow> conn \<Rightarrow> conn \<Rightarrow> bool" where
  "installs a c c' \<longleftrightarrow> cn_closing c' = cn_closing c \<and> a = length (cn_heap c) \<and> length (cn_heap c') = Suc a
     \<and> (\<exists>mid op n. op_at c' a = newPending mid op None n)
     \<and> (\<forall>b < a. op_at c' b = op_at c b \<and> (is_pending c' b \<longrightarrow> is_pending c b))"

lemma install_installs:
  assumes "installPending (newPending mid op None n) scope c = (Inr a, c')"
  shows "installs a c c'"
proof -
  let ?p = "newPending mid op None n"
  have "cn_closing c' = cn_closing c" "cn_heap c' = cn_heap c @ [?p]" "a = length (cn_heap c)"
    "map_of (cn_pending c') = (map_of (cn_pending c))(pn_id ?p \<mapsto> length (cn_heap c))"
    using assms by (auto simp: installPending_def Let_def AList.update_conv' split: option.splits if_splits)
  then show ?thesis by (auto simp: installs_def is_pending_def op_at_def nth_append)
qed

lemma settles_sections [simp]:
  "settles A c (removeDefinitelyUnsent a err c)" "settles A c (completeNoResponse a c)" "settles A c (startWrite a c)"
  by (simp_all add: removeDefinitelyUnsent_def completeNoResponse_def startWrite_def upd_op_commute settles_remove settles_upd)

lemma settles_stream_Next: "stream_Next a c = (res, c') \<Longrightarrow> settles A c c'"
  by (auto simp: stream_Next_def Let_def intro!: settles_upd split: list.splits option.splits if_splits)

lemma settles_frames:
  "acquireWriter ctx c = (res1, c') \<Longrightarrow> settles A c c'"
  "NextUnsolicited c = (res2, c') \<Longrightarrow> settles A c c'"
  "transition to c = (res3, c') \<Longrightarrow> settles A c c'"
  "markReady i pol c = (res4, c') \<Longrightarrow> settles A c c'"
  by (auto simp: acquireWriter_def NextUnsolicited_def transition_def markReady_def intro!: settles_frame
      split: list.splits option.splits if_splits sum.splits)

lemma settles_retire [simp]: "settles A c (retire err c)"
  by (cases "cn_err c") (simp_all add: settles_def is_pending_def retire_effect retire_again)

lemma settles_retireHere [simp]: "settles A c (retireHere ret c)"
  by (simp add: retireHere_def split: retire_call.splits)

lemma settles_begin: "sendAbandon_begin a c = (res, c') \<Longrightarrow> settles A c c'"
  by (auto simp: sendAbandon_begin_def split: if_splits prod.splits option.splits dest: settles_reserve)

lemma settles_entomb:
  assumes "sendAbandon_entomb a c = (res, c')"
  shows "settles A c c'"
proof -
  let ?f = "\<lambda>p. signalReady (finishLifecycle (pn_deliveryErr p) p)"
  have "settles A c ((upd_op a ?f (removePending a c))\<lparr>cn_tombstones := ts\<rparr>)" for ts by (simp add: settles_remove)
  then show ?thesis using assms by (auto simp: sendAbandon_entomb_def Let_def upd_op_commute split: if_splits)
qed

lemma settles_cancel:
  assumes "cancelOperation a reason c = (action, c')"
  shows "settles (if action = cancelActionAbandon then {a} else {}) c c'"
proof -
  let ?f = "\<lambda>p. signalReady (observer_event TraceCanceled (pn_responseBytes p) (pn_responses p) (cancelDelivery reason p))"
  define c1 where "c1 = (if pn_deliveryErr (op_at c a) = None then upd_op a ?f c else c)"
  have 1: "settles A c c1" for A
    unfolding c1_def by (auto simp: signalReady_def observer_event_def cancelDelivery_def intro!: settles_upd)
  have 2: "settles {a} c (upd_op a (\<lambda>p. p\<lparr>pn_abandoning := True\<rparr>) c1)"
    using 1 [of "{a}"] is_pending_upd [of a c1 "\<lambda>p. p\<lparr>pn_abandoning := True\<rparr>"] by (auto simp: settles_def op_at_upd)
  show ?thesis
  proof (cases "pn_terminal (op_at c a)")
    case False
    with assms [unfolded cancelOperation_def Let_def, folded c1_def]
    have "c' = (if action = cancelActionAbandon then upd_op a (\<lambda>p. p\<lparr>pn_abandoning := True\<rparr>) c1 else c1)" by auto
    then show ?thesis using 1 2 by simp
  qed (use assms in \<open>simp add: cancelOperation_def\<close>)
qed

lemma deliver_abandoning:
  "deliver opt complete r p = (action, p') \<Longrightarrow> pn_abandoning p' \<Longrightarrow> pn_abandoning p \<or> action = cancelActionAbandon"
  by (auto simp: deliver_def Let_def cancelDelivery_def split: if_splits)

lemma countResponse_abandoning [simp]: "pn_abandoning (countResponse r p) = pn_abandoning p"
  by (simp add: countResponse_def Let_def observer_event_def)

lemma settles_routePending:
  assumes "routePending a r c = (res, c')"
  shows "settles (if res = RoutedAbandon a then {a} else {}) c c'"
proof -
  let ?p = "op_at c a"
  let ?cl = "FramingPattern_Classify (pn_pattern ?p) (re_ProtocolID r)"
  let ?complete = "?cl = ClassificationComplete"
  let ?p2 = "if ?complete then countResponse r ?p\<lparr>pn_terminal := True\<rparr> else countResponse r ?p"
  obtain action p3 where d: "deliver (cn_options c) ?complete r ?p2 = (action, p3)"
    by (cases "deliver (cn_options c) ?complete r ?p2")
  let ?p5 = "if ?complete then finishLifecycle (pn_deliveryErr p3) (signalReady p3) else signalReady p3"
  have ab: "pn_abandoning ?p5 \<Longrightarrow> pn_abandoning ?p \<or> action = cancelActionAbandon"
    using deliver_abandoning [OF d] by (auto simp: signalReady_def finishLifecycle_def split: if_splits)
  have id: "pn_id ?p5 = pn_id ?p" using deliver_facts [OF d] by simp
  have "settles A c (upd_op a (\<lambda>_. ?p5) (removePending a c))" for A using id by (rule settles_remove)
  moreover have "settles (if action = cancelActionAbandon then {a} else {}) c (upd_op a (\<lambda>_. ?p5) c)"
    using id ab by (intro settles_upd) auto
  moreover have "res = RoutedAbandon a" if "action = cancelActionAbandon" "?cl \<noteq> ClassificationInvalid"
    using assms d that by (auto simp: routePending_def Let_def split: cancel_action.splits if_splits)
  moreover have "c' = c \<or> ?cl \<noteq> ClassificationInvalid
      \<and> (c' = signalIDChangedLocked (upd_op a (\<lambda>_. ?p5) (removePending a c)) \<or> c' = upd_op a (\<lambda>_. ?p5) c)"
    using assms d by (auto simp: routePending_def Let_def signalReady_def upd_op_commute split: cancel_action.splits if_splits)
  ultimately show ?thesis by (auto split: if_splits) (auto simp: settles_def)
qed

lemma settles_mono: "settles A c c' \<Longrightarrow> A \<subseteq> B \<Longrightarrow> settles B c c'"
  by (auto simp: settles_def)

lemma settles_more: "settles {a. AbandonStarting a \<in># S} c c' \<Longrightarrow> settles {a. AbandonStarting a \<in># S + T} c c'"
  by (erule settles_mono) auto

lemma routed_target: "routePending a r c = (RoutedAbandon b, c') \<Longrightarrow> b = a"
  by (auto simp: routePending_def Let_def split: if_splits prod.splits cancel_action.splits)

lemma settles_route:
  assumes "route r c = (res, c')"
  shows "settles {a. AbandonStarting a \<in># readerTask r res} c c'"
proof (cases "re_MessageID r = 0")
  case True
  then obtain err where "routeUnsolicited r c = (err, c')" using assms by (auto simp: route_def split: prod.splits)
  from routeUnsolicited_effect [OF this] show ?thesis by (auto intro!: settles_frame)
next
  case False
  have "settles {b. AbandonStarting b \<in># readerTask r res} c c'" if rp: "routePending a r c = (res, c')" for a
    by (rule settles_mono [OF settles_routePending [OF rp]]) (auto simp: readerTask_def)
  then show ?thesis using assms False by (auto simp: route_def routeID_def split: option.splits if_splits)
qed

lemma settles_cancelTask:
  assumes "cancelOperation a reason c = (action, c')"
  shows "settles {b. AbandonStarting b \<in># cancelTask a action} c c'"
  by (rule settles_mono [OF settles_cancel [OF assms]]) (auto simp: cancelTask_def)

lemmas settles_all = settles_reserve settles_reserveMessageID settles_stream_Next settles_frames
  settles_begin settles_entomb

lemma step_settles:
  assumes st: "conn_step s s'"
  shows "settles {a. AbandonStarting a \<in># snd s'} (fst s) (fst s')
    \<or> (\<exists>c c' T. s = (c, T) \<and> s' = (c', add_mset CloseWaiting T) \<and> CloseContext_begin c = (CloseProceeds, c'))
    \<or> (\<exists>c c' T mid op scope a message. s = (c, add_mset (DoReserved mid op scope) T) \<and> s' = (c', add_mset (DoQueued a message) T)
        \<and> installs a c c')"
  using st
proof (cases rule: conn_step.cases)
  case (do_install op p mid c message scope a c' T)
  then show ?thesis using install_installs by blast
next
  case (watch_cancel c a e action c' T)
  then show ?thesis using settles_more [OF settles_cancelTask [OF watch_cancel(4)]] by (intro disjI1) simp
next
  case (stream_cancel a c reason action c' T)
  then show ?thesis using settles_more [OF settles_cancelTask [OF stream_cancel(6)]] by (intro disjI1) simp
next
  case (read message c r res c' T)
  then show ?thesis using settles_more [OF settles_route [OF read(4)]] by (intro disjI1) simp
next
  case (read_resume c a r res c' T)
  then show ?thesis using settles_more [OF settles_route [OF read_resume(4)]] by (intro disjI1) simp
next
  case (ctx_done a c e T)
  then show ?thesis by (simp add: settles_upd)
next
  case (do_observed c a n T)
  then show ?thesis by (simp add: settles_upd observer_event_def)
next
  case (stream_wake c a T)
  then show ?thesis by (simp add: settles_upd)
next
  case (abandon_stale a c c' mid T)
  then show ?thesis using settles_entomb by simp
next
  case (close_begin c c' T)
  then show ?thesis by blast
next
  case (close_done c mid T)
  then show ?thesis by simp
qed (auto dest: settles_all)

section \<open>Closing, reading, failing\<close>

definition closing_inv :: "machine \<Rightarrow> bool" where
  "closing_inv s \<longleftrightarrow> (cn_closing (fst s) \<longrightarrow> ending s)"

lemma step_closing_inv:
  assumes st: "conn_step s s'" and b: "base_inv s" and inv: "closing_inv s"
  shows "closing_inv s'"
proof -
  from step_settles [OF st] have "cn_closing (fst s') \<longrightarrow> cn_closing (fst s) \<or> (\<exists>t \<in># snd s'. ends t)"
    by (auto simp: settles_def installs_def)
  then show ?thesis using inv step_ending [OF st b] by (auto simp: closing_inv_def ending_def)
qed

text \<open>What \<^verbatim>\<open>writeAll\<close> reports: everything was written; or the outcome is ambiguous, and the connection is retired; or nothing was
  written, and the outcome is definitely unsent.\<close>

lemma foreign_error: "ctx_error e \<or> (\<exists>g. e = Ber g) \<or> e = Sentinel IO_ErrNoProgress \<Longrightarrow>
    \<not> errors_Is e ErrAmbiguousOutcome \<and> \<not> errors_Is e ErrDefinitelyUnsent"
  by (auto simp: ctx_error_def ber_Is_def)

definition write_report :: "nat \<Rightarrow> nat \<times> failure option \<times> retire_call \<Rightarrow> bool" where
  "write_report len report =
     (case report of (n, res, ret) \<Rightarrow>
        (case res of
           None \<Rightarrow> len \<le> n \<and> ret = NoRetire
         | Some err \<Rightarrow> (errors_Is err ErrAmbiguousOutcome \<and> ret \<noteq> NoRetire \<or> errors_Is err ErrDefinitelyUnsent \<and> n = 0)
             \<and> errors_Is err ErrAmbiguousOutcome \<noteq> errors_Is err ErrDefinitelyUnsent
             \<and> (ret = RetireHere err \<or> ret = RetireByContext err \<or> ret = NoRetire)))"

lemma outcome_ok_cause:
  "outcome_ok (Returned n err ctx) \<Longrightarrow> (if err = None \<and> n = 0 then Some (Sentinel IO_ErrNoProgress) else err) = Some e \<Longrightarrow>
     \<not> errors_Is (case ctx of None \<Rightarrow> e | Some ce \<Rightarrow> ce) ErrAmbiguousOutcome
     \<and> \<not> errors_Is (case ctx of None \<Rightarrow> e | Some ce \<Rightarrow> ce) ErrDefinitelyUnsent"
  by (rule foreign_error) (auto split: option.splits if_splits)

lemma writeLoop_report:
  assumes "\<forall>i. outcome_ok (env i)"
  shows "write_report len (writeLoop env len i sent)"
  using assms
proof (induction env len i sent rule: writeLoop.induct)
  case (1 env len i sent)
  have ok: "outcome_ok (env i)" using 1(2) by blast
  show ?case
  proof (cases "sent < len")
    case False
    then show ?thesis by (simp add: writeLoop.simps [of env len i sent] write_report_def)
  next
    case True
    show ?thesis
    proof (cases "env i")
      case (Returned n err ctx)
      let ?err = "if err = None \<and> n = 0 then Some (Sentinel IO_ErrNoProgress) else err"
      show ?thesis
      proof (cases ?err)
        case None
        then have "write_report len (writeLoop env len (i + 1) (sent + n))"
          using 1(1) [of n err ctx "sent + n" ?err] True Returned 1(2) by simp
        then show ?thesis using True Returned None by (simp add: writeLoop.simps [of env len i sent] Let_def split: if_splits)
      next
        case (Some e)
        then show ?thesis
          using True Returned outcome_ok_cause [of n err ctx e] ok
          by (simp add: writeLoop.simps [of env len i sent] Let_def write_report_def)
      qed
    qed (use True ok in \<open>auto simp: writeLoop.simps [of env len i sent] Let_def write_report_def foreign_error\<close>)
  qed
qed

lemma writeAll_report: "\<forall>i. outcome_ok (env i) \<Longrightarrow> write_report (length message) (writeAll env message)"
  unfolding writeAll_def by (rule writeLoop_report)

text \<open>The contexts of operations end with a context's error, and an operation whose request may have reached the server is
  not removed without ending the connection.\<close>

definition failing_inv :: "machine \<Rightarrow> bool" where
  "failing_inv s \<longleftrightarrow>
     (\<forall>a < length (cn_heap (fst s)). \<forall>e. pn_ctx (op_at (fst s) a) = Some e \<longrightarrow> ctx_error e)
     \<and> (\<forall>a n err. DoFailed a n err \<in># snd s \<longrightarrow> n \<noteq> 0 \<or> errors_Is err ErrAmbiguousOutcome \<longrightarrow> ending s)"

lemma refused_ambiguous:
  assumes "writer_refused ctx c err" "errors_Is err ErrAmbiguousOutcome" "\<forall>e. ctx = Some e \<longrightarrow> ctx_error e"
  shows "cn_err c \<noteq> None"
  using assms foreign_error
  by (auto simp: writer_refused_def unsent_def acquireWriter_def split: option.splits if_splits)

lemma step_contexts:
  assumes st: "conn_step s s'" and b: "base_inv s"
    and ctx: "\<forall>a < length (cn_heap (fst s)). \<forall>e. pn_ctx (op_at (fst s) a) = Some e \<longrightarrow> ctx_error e"
  shows "\<forall>a < length (cn_heap (fst s')). \<forall>e. pn_ctx (op_at (fst s') a) = Some e \<longrightarrow> ctx_error e"
proof -
  have "\<forall>a < length (cn_heap (fst s)). ctx_ends (op_at (fst s) a) (op_at (fst s') a)"
    using step_grows [OF st b] by (auto simp: grows_def op_grows_def op_at_upd observer_event_def)
  then have old: "\<forall>a < length (cn_heap (fst s)). \<forall>e. pn_ctx (op_at (fst s') a) = Some e \<longrightarrow> ctx_error e"
    using ctx by (fastforce simp: ctx_ends_def)
  from step_settles [OF st] have "length (cn_heap (fst s')) = length (cn_heap (fst s))
      \<or> length (cn_heap (fst s')) = Suc (length (cn_heap (fst s))) \<and> pn_ctx (op_at (fst s') (length (cn_heap (fst s)))) = None"
    by (auto simp: settles_def installs_def CloseContext_begin_def newPending_def split: option.splits if_splits)
  with old show ?thesis by (auto simp: less_Suc_eq)
qed

lemma step_failing_inv:
  assumes st: "conn_step s s'" and b: "base_inv s" and inv: "failing_inv s"
  shows "failing_inv s'"
proof -
  have ctx: "\<forall>a < length (cn_heap (fst s)). \<forall>e. pn_ctx (op_at (fst s) a) = Some e \<longrightarrow> ctx_error e"
    using inv by (simp add: failing_inv_def)
  have "ending s'" if f: "DoFailed a n err \<in># snd s'" "n \<noteq> 0 \<or> errors_Is err ErrAmbiguousOutcome" for a n err
  proof (cases "DoFailed a n err \<in># snd s")
    case True
    then show ?thesis using inv f(2) step_ending [OF st b] by (auto simp: failing_inv_def)
  next
    case False
    from st show ?thesis
    proof (cases rule: conn_step.cases)
      case (do_refused c b err' message T)
      then have "b < length (cn_heap c)" using \<open>base_inv s\<close> by (simp add: base_inv_def activity_ok_def)
      then show ?thesis using do_refused False f ctx refused_ambiguous [of "pn_ctx (op_at c b)" c err]
        by (auto simp: ending_def)
    next
      case (do_write_fails env message n' err' ret c b T)
      then have "write_report (length message) (n', Some err', ret)" using writeAll_report [of env message] by simp
      then show ?thesis using do_write_fails False f
        by (auto simp: ending_def write_report_def retireHere_def retireTask_def retire_ends)
    qed (use False f in \<open>auto simp: cancelTask_def readerTask_def errorTask_def retireTask_def
        split: cancel_action.splits routed.splits option.splits retire_call.splits if_splits\<close>)
  qed
  then show ?thesis using step_contexts [OF st b ctx] by (simp add: failing_inv_def)
qed

text \<open>The goroutine of \<^verbatim>\<open>readLoop\<close> runs until the connection is ending.\<close>

fun reads :: "activity \<Rightarrow> bool" where
  "reads Reading = True"
| "reads (ReaderWaits r a) = True"
| "reads t = False"

definition reader_inv :: "machine \<Rightarrow> bool" where
  "reader_inv s \<longleftrightarrow> (\<exists>t \<in># snd s. reads t) \<or> ending s"

lemma readerTask_reads: "(\<exists>t \<in># readerTask r res. reads t \<or> ends t)"
  by (auto simp: readerTask_def split: routed.splits option.splits)

lemma step_reader_inv:
  assumes st: "conn_step s s'" and b: "base_inv s" and inv: "reader_inv s"
  shows "reader_inv s'"
proof (cases "ending s")
  case True
  then show ?thesis using step_ending [OF st b] by (simp add: reader_inv_def)
next
  case False
  then obtain t where t: "t \<in># snd s" "reads t" using inv by (auto simp: reader_inv_def)
  from st show ?thesis
  proof (cases rule: conn_step.cases)
    case (read message c r res c' T)
    then show ?thesis using readerTask_reads [of r res] by (auto simp: reader_inv_def ending_def)
  next
    case (read_resume c a r res c' T)
    then show ?thesis using readerTask_reads [of r res] by (auto simp: reader_inv_def ending_def)
  qed (use t in \<open>auto simp: reader_inv_def ending_def\<close>)
qed

section \<open>No lost wakeup\<close>

text \<open>A consumer blocked in \<^verbatim>\<open>Next\<close> is signalled when there is something to return.\<close>

definition blocked_inv :: "machine \<Rightarrow> bool" where
  "blocked_inv s \<longleftrightarrow> (\<forall>a. count (snd s) (Blocked a) \<le> 1
     \<and> (Blocked a \<in># snd s \<longrightarrow> avail (op_at (fst s) a) \<longrightarrow> pn_ready (op_at (fst s) a)))"

lemma task_blocked [simp]:
  "Blocked a \<notin># retireTask ret" "Blocked a \<notin># cancelTask b action" "Blocked a \<notin># errorTask err" "Blocked a \<notin># readerTask r res"
  by (simp_all add: retireTask_def cancelTask_def errorTask_def readerTask_def
      split: retire_call.splits cancel_action.splits option.splits routed.splits)

lemma task_blocked_count [simp]:
  "count (retireTask ret) (Blocked a) = 0" "count (cancelTask b action) (Blocked a) = 0"
  "count (errorTask err) (Blocked a) = 0" "count (readerTask r res) (Blocked a) = 0"
  by (simp_all add: count_eq_zero_iff)

lemma step_blocked_count:
  assumes "conn_step s s'"
  shows "count (snd s') (Blocked a) \<le> count (snd s) (Blocked a)
    \<or> \<not> avail (op_at (fst s') a) \<and> count (snd s) (Blocked a) = 0 \<and> count (snd s') (Blocked a) = 1"
  using assms
proof (cases rule: conn_step.cases)
  case (stream_block b c T c')
  then have "\<not> avail (op_at c' b)"
    by (auto simp: stream_Next_def Let_def avail_def split: list.splits option.splits if_splits)
  then show ?thesis using stream_block by (auto simp: not_in_iff)
qed auto

lemma step_blocked_inv:
  assumes st: "conn_step s s'" and b: "base_inv s" and inv: "blocked_inv s"
  shows "blocked_inv s'"
proof -
  have in_range: "a < length (cn_heap (fst s))" if "Blocked a \<in># snd s" for a
    using b that by (auto simp: base_inv_def activity_ok_def)
  have "count (snd s') (Blocked a) \<le> 1
      \<and> (Blocked a \<in># snd s' \<longrightarrow> avail (op_at (fst s') a) \<longrightarrow> pn_ready (op_at (fst s') a))" for a
  proof -
    have le: "count (snd s) (Blocked a) \<le> 1" and sig: "Blocked a \<in># snd s \<longrightarrow> avail (op_at (fst s) a) \<longrightarrow> pn_ready (op_at (fst s) a)"
      using inv by (auto simp: blocked_inv_def)
    from step_blocked_count [OF st, of a] show ?thesis
    proof
      assume c: "count (snd s') (Blocked a) \<le> count (snd s) (Blocked a)"
      then have old: "Blocked a \<in># snd s" if "Blocked a \<in># snd s'" using that
        by (simp only: count_greater_zero_iff [symmetric])
      have "avail (op_at (fst s') a) \<longrightarrow> pn_ready (op_at (fst s') a)" if bl: "Blocked a \<in># snd s'"
        using step_evolves [OF st b]
      proof (elim disjE exE conjE)
        assume "evolves (fst s) (fst s')"
        then show ?thesis using sig in_range [OF old [OF bl]] old [OF bl] by (simp add: evolves_def op_evolves_def) blast
      next
        fix d T c1 assume s: "s = (c1, add_mset (Blocked d) T)" "s' = (upd_op d (\<lambda>p. p\<lparr>pn_ready := False\<rparr>) c1, T)"
        have "0 < count T (Blocked a)" using s bl by simp
        then have "d \<noteq> a" using s(1) le by (auto simp: count_eq_zero_iff)
        then show ?thesis using s sig old [OF bl] by (simp add: op_at_upd)
      next
        fix d n T c1 assume s: "s = (c1, add_mset (DoWritten d n) T)"
          "s' = (upd_op d (\<lambda>p. (observer_event TraceWritten (of_nat n) 0 p)\<lparr>pn_writeObserved := True\<rparr>) c1, add_mset (DoReturning d) T)"
        then show ?thesis using sig old [OF bl] by (auto simp: op_at_upd observer_event_def avail_def)
      qed
      then show ?thesis using c le by auto
    qed auto
  qed
  then show ?thesis by (simp add: blocked_inv_def)
qed

section \<open>Every pending operation is looked after\<close>

text \<open>An operation marked for an \<^verbatim>\<open>Abandon\<close> has its sender, unless the connection is ending.\<close>

definition abandoning_inv :: "machine \<Rightarrow> bool" where
  "abandoning_inv s \<longleftrightarrow> (\<forall>a. is_pending (fst s) a \<longrightarrow> pn_abandoning (op_at (fst s) a) \<longrightarrow>
     (\<exists>t \<in># snd s. a \<in> abandons t) \<or> ending s)"

text \<open>The call of \<^verbatim>\<open>do\<close> or the goroutine of \<^verbatim>\<open>watchOperation\<close> that works for an operation.\<close>

fun serves :: "activity \<Rightarrow> nat set" where
  "serves (DoQueued a message) = {a}"
| "serves (DoHolding a message) = {a}"
| "serves (DoWriting a message) = {a}"
| "serves (DoWritten a n) = {a}"
| "serves (DoFailed a n err) = {a}"
| "serves (DoReturning a) = {a}"
| "serves (Watching a) = {a}"
| "serves t = {}"

definition supervised_inv :: "machine \<Rightarrow> bool" where
  "supervised_inv s \<longleftrightarrow> (\<forall>a. is_pending (fst s) a \<longrightarrow>
     (\<exists>t \<in># snd s. a \<in> serves t) \<or> pn_deliveryErr (op_at (fst s) a) \<noteq> None \<or> ending s)"

lemma refused_closed:
  assumes "writer_refused ctx c err" "errors_Is err ErrClosed" "ctx = None \<or> ctx = Some (Sentinel Context_DeadlineExceeded)"
  shows "cn_err c \<noteq> None \<or> cn_closing c"
  using assms by (auto simp: writer_refused_def unsent_def acquireWriter_def split: option.splits if_splits)

text \<open>How the sender of an \<^verbatim>\<open>Abandon\<close> leaves.\<close>

lemma is_pending_frame [simp]:
  "is_pending (c\<lparr>cn_tombstones := ts\<rparr>) a = is_pending c a" "is_pending (signalIDChangedLocked c) a = is_pending c a"
  "is_pending (releaseWriter c) a = is_pending c a" "is_pending (c\<lparr>cn_reserved := rs\<rparr>) a = is_pending c a"
  by (simp_all add: is_pending_def op_at_def signalIDChangedLocked_def releaseWriter_def)

lemma closing_frame [simp]: "cn_closing (releaseWriter c) = cn_closing c"
  by (simp add: releaseWriter_def)

lemma entomb_effect:
  "sendAbandon_entomb a c = (True, c') \<Longrightarrow> \<not> is_pending c' a"
  "sendAbandon_entomb a c = (False, c') \<Longrightarrow> \<not> is_pending c' a \<or> cn_err c' \<noteq> None \<or> cn_closing c'"
  by (auto simp: sendAbandon_entomb_def Let_def is_pending_upd is_pending_remove split: if_splits)

lemma begin_nothing: "sendAbandon_begin a c = (Inr None, c') \<Longrightarrow> c' = c \<and> (\<not> is_pending c a \<or> cn_err c \<noteq> None \<or> cn_closing c)"
  by (simp add: sendAbandon_begin_def split: if_split_asm prod.split_asm option.split_asm)

lemma abandon_leaves:
  assumes st: "conn_step s s'" and "t \<in># snd s" "a \<in> abandons t"
  shows "(\<exists>t \<in># snd s'. a \<in> abandons t \<or> ends t) \<or> \<not> is_pending (fst s') a \<or> cn_err (fst s') \<noteq> None \<or> cn_closing (fst s')"
  using st
proof (cases rule: conn_step.cases)
  case (abandon_nothing b c c' T)
  then show ?thesis using assms(2,3) begin_nothing [OF abandon_nothing(3)] by auto
next
  case (abandon_refused ctx c err b mid T)
  then show ?thesis
    using assms(2,3) refused_closed [OF abandon_refused(4) _ abandon_refused(3)]
    by (cases "errors_Is err ErrClosed") (auto simp: errorTask_def releaseReserved_def)
next
  case (abandon_stale b c c' mid T)
  then show ?thesis using assms(2,3) entomb_effect(2) [OF abandon_stale(3)] by auto
next
  case (abandon_entomb b c c' message mid T)
  then show ?thesis using assms(2,3) entomb_effect(1) [OF abandon_entomb(3)] by auto
qed (use assms(2,3) in auto)

lemma step_abandoning_inv:
  assumes st: "conn_step s s'" and b: "base_inv s" and b': "base_inv s'" and cl: "closing_inv s'" and inv: "abandoning_inv s"
  shows "abandoning_inv s'"
  unfolding abandoning_inv_def
proof (intro allI impI)
  fix a assume p: "is_pending (fst s') a" "pn_abandoning (op_at (fst s') a)"
  then have "a < length (cn_heap (fst s'))" using b' is_pendingD(1) by (simp add: base_inv_def)
  with p step_settles [OF st]
  have "is_pending (fst s) a \<and> pn_abandoning (op_at (fst s) a) \<or> AbandonStarting a \<in># snd s'"
    by (auto simp: settles_def installs_def less_Suc_eq newPending_def CloseContext_begin_def is_pending_def op_at_def
        split: option.splits if_splits)
  then show "(\<exists>t \<in># snd s'. a \<in> abandons t) \<or> ending s'"
  proof
    assume "is_pending (fst s) a \<and> pn_abandoning (op_at (fst s) a)"
    then consider t where "t \<in># snd s" "a \<in> abandons t" | "ending s" using inv by (auto simp: abandoning_inv_def)
    then show ?thesis
    proof cases
      case 1
      from abandon_leaves [OF st 1] p cl show ?thesis by (auto simp: closing_inv_def ending_def)
    qed (use step_ending [OF st b] in blast)
  qed force
qed

lemma remove_effect [simp]: "\<not> is_pending (removeDefinitelyUnsent a err c) a" "\<not> is_pending (completeNoResponse a c) a"
  by (auto simp: removeDefinitelyUnsent_def completeNoResponse_def is_pending_upd is_pending_remove signalReady_def finishLifecycle_def)

lemma cancel_delivers: "cancelOperation a e c = (action, c') \<Longrightarrow> a < length (cn_heap c) \<Longrightarrow>
    pn_terminal (op_at c a) \<or> pn_deliveryErr (op_at c' a) \<noteq> None"
  by (auto simp: cancelOperation_def Let_def op_at_upd op_defs split: if_splits)

lemma server_leaves:
  assumes st: "conn_step s s'" and b: "base_inv s" and f: "failing_inv s" and t: "t \<in># snd s" "a \<in> serves t" and p: "is_pending (fst s) a"
  shows "(\<exists>t \<in># snd s'. a \<in> serves t) \<or> pn_deliveryErr (op_at (fst s') a) \<noteq> None \<or> \<not> is_pending (fst s') a \<or> ending s'"
proof -
  have live: "live (op_at (fst s) a)" and len: "a < length (cn_heap (fst s))"
    using b p is_pendingD(1,2) by (auto simp: base_inv_def)
  from st show ?thesis
  proof (cases rule: conn_step.cases)
    case (do_failed c b n err T)
    then have "n \<noteq> 0 \<or> errors_Is err ErrAmbiguousOutcome \<longrightarrow> ending s'"
      using f step_ending [OF st \<open>base_inv s\<close>] by (auto simp: failing_inv_def)
    then show ?thesis using do_failed t by (cases "b = a") auto
  next
    case (watch_cancel c b e action c' T)
    then show ?thesis using t live len cancel_delivers [OF watch_cancel(4)] by (cases "b = a") (auto simp: live_def)
  next
    case (watch_end c b T)
    then show ?thesis using t live by (cases "b = a") (auto simp: live_def ending_def)
  next
    case (do_no_response c b T)
    then show ?thesis using t by (cases "b = a") auto
  qed (use t in auto)
qed

lemma step_supervised_inv:
  assumes st: "conn_step s s'" and b: "base_inv s" and b': "base_inv s'" and f: "failing_inv s" and inv: "supervised_inv s"
  shows "supervised_inv s'"
  unfolding supervised_inv_def
proof (intro allI impI)
  fix a assume p: "is_pending (fst s') a"
  then have "a < length (cn_heap (fst s'))" using b' is_pendingD(1) by (simp add: base_inv_def)
  with p step_settles [OF st] have "is_pending (fst s) a \<or> (\<exists>t \<in># snd s'. a \<in> serves t)"
    by (auto simp: settles_def installs_def less_Suc_eq CloseContext_begin_def is_pending_def op_at_def
        split: option.splits if_splits)
  then show "(\<exists>t \<in># snd s'. a \<in> serves t) \<or> pn_deliveryErr (op_at (fst s') a) \<noteq> None \<or> ending s'"
  proof
    assume old: "is_pending (fst s) a"
    then have len: "a < length (cn_heap (fst s))" using b is_pendingD(1) by (simp add: base_inv_def)
    consider t where "t \<in># snd s" "a \<in> serves t" | "pn_deliveryErr (op_at (fst s) a) \<noteq> None" | "ending s"
      using inv old by (auto simp: supervised_inv_def)
    then show ?thesis
    proof cases
      case 1
      from server_leaves [OF st b f 1 old] p show ?thesis by blast
    next
      case 2
      then have "pn_deliveryErr (op_at (fst s') a) \<noteq> None"
        using step_grows [OF st b] len by (auto simp: grows_def op_grows_def op_at_upd observer_event_def)
      then show ?thesis by blast
    qed (use step_ending [OF st b] in blast)
  qed blast
qed

end
