(* ===== verification/Conn_Wake.thy ===== *)
theory Conn_Wake
  imports Conn_Live
begin

text \<open>
  Message IDs over the life of a connection: a change that frees one starts a new generation, which wakes the callers
  waiting for an ID, and the ID of an abandoned request stays out of use until the connection ends.
\<close>

definition ids_move :: "conn \<Rightarrow> conn \<Rightarrow> bool" where
  "ids_move c c' \<longleftrightarrow>
     (cn_idChanged c' = cn_idChanged c \<longrightarrow> set (occupied c) \<subseteq> set (occupied c'))
     \<and> cn_idChanged c \<le> cn_idChanged c' \<and> (cn_err c' = None \<longrightarrow> fst ` set (cn_tombstones c) \<subseteq> fst ` set (cn_tombstones c'))"

lemma ids_move_refl [simp]: "ids_move c c"
  by (simp add: ids_move_def)

lemma ids_move_frame:
  "cn_idChanged c' = cn_idChanged c \<Longrightarrow> cn_pending c' = cn_pending c \<Longrightarrow> cn_tombstones c' = cn_tombstones c \<Longrightarrow>
     set (cn_reserved c) \<subseteq> set (cn_reserved c') \<Longrightarrow> ids_move c c'"
  by (auto simp: ids_move_def occupied_def)

lemma ids_move_upd [simp]: "ids_move c (upd_op a f c') = ids_move c c'"
  by (simp add: ids_move_def occupied_def upd_op_def)

lemma ids_move_token [simp]:
  "ids_move c (releaseWriter c') = ids_move c c'" "ids_move c (c'\<lparr>cn_writeToken := b\<rparr>) = ids_move c c'"
  by (simp_all add: ids_move_def occupied_def releaseWriter_def)

text \<open>A new generation frees whatever it likes.\<close>

lemma ids_move_signal:
  "cn_idChanged c' = cn_idChanged c \<Longrightarrow> cn_tombstones c' = cn_tombstones c \<Longrightarrow> ids_move c (signalIDChangedLocked c')"
  by (simp add: ids_move_def signalIDChangedLocked_def)

lemma ids_move_reserve:
  assumes "ids_ok c" "tryReserveMessageIDLocked c = (res, c')"
  shows "ids_move c c'"
  by (rule ids_move_frame) (use tryReserve_same [OF assms(2)] reserve_fields [OF assms] in \<open>auto split: option.splits\<close>)

lemma ids_move_reserveMessageID: "ids_ok c \<Longrightarrow> reserveMessageID scope c = (res, c') \<Longrightarrow> ids_move c c'"
  by (auto simp: reserveMessageID_def split: option.splits prod.splits dest: ids_move_reserve)

lemma ids_move_release [simp]: "ids_move c (releaseReserved mid c)"
  by (simp add: releaseReserved_def ids_move_signal)

lemma ids_move_install: "installPending p scope c = (res, c') \<Longrightarrow> ids_move c c'"
  by (auto simp: installPending_def Let_def ids_move_def occupied_def dom_update split: option.splits if_splits) force

lemma remove_same [simp]: "cn_idChanged (removePending a c) = cn_idChanged c" "cn_tombstones (removePending a c) = cn_tombstones c"
  by (simp_all add: removePending_def)

lemma ids_move_sections [simp]:
  "ids_move c (removeDefinitelyUnsent a err c)" "ids_move c (completeNoResponse a c)" "ids_move c (startWrite a c)"
  by (simp_all add: removeDefinitelyUnsent_def completeNoResponse_def startWrite_def ids_move_signal)

lemma ids_move_frames:
  "stream_Next a c = (res1, c') \<Longrightarrow> ids_move c c'"
  "acquireWriter ctx c = (res2, c') \<Longrightarrow> ids_move c c'"
  "NextUnsolicited c = (res3, c') \<Longrightarrow> ids_move c c'"
  "CloseContext_begin c = (res4, c') \<Longrightarrow> ids_move c c'"
  "transition to c = (res5, c') \<Longrightarrow> ids_move c c'"
  "markReady i pol c = (res6, c') \<Longrightarrow> ids_move c c'"
  by (auto simp: stream_Next_def acquireWriter_def NextUnsolicited_def CloseContext_begin_def transition_def markReady_def
      Let_def intro!: ids_move_frame split: list.splits option.splits if_splits sum.splits)

lemma ids_move_cancel:
  assumes "cancelOperation a e c = (action, c')"
  shows "ids_move c c'"
  using assms by (simp add: cancelOperation_def Let_def split: if_split_asm; hypsubst?; simp)

lemma ids_move_retire [simp]: "ids_move c (retire err c)"
  by (cases "cn_err c") (simp_all add: ids_move_def retire_effect retire_again)

lemma ids_move_retireHere [simp]: "ids_move c (retireHere ret c)"
  by (simp add: retireHere_def split: retire_call.splits)

lemma ids_move_begin: "ids_ok c \<Longrightarrow> sendAbandon_begin a c = (res, c') \<Longrightarrow> ids_move c c'"
  by (auto simp: sendAbandon_begin_def split: if_splits prod.splits option.splits dest: ids_move_reserve)

lemma ids_move_entomb:
  assumes "sendAbandon_entomb a c = (res, c')"
  shows "ids_move c c'"
proof -
  let ?p = "op_at c a"
  let ?c = "(removePending a c)\<lparr>cn_tombstones := AList.update (pn_id ?p) (pn_pattern ?p) (cn_tombstones c)\<rparr>"
  have "ids_move c ?c"
    by (auto simp: ids_move_def occupied_def dom_update removePending_def AList.delete_eq)
  then show ?thesis using assms by (auto simp: sendAbandon_entomb_def Let_def split: if_splits)
qed

lemma ids_move_routePending: "routePending a r c = (res, c') \<Longrightarrow> ids_move c c'"
  by (auto simp: routePending_def Let_def ids_move_signal split: if_splits prod.splits cancel_action.splits)

lemma ids_move_route:
  assumes "route r c = (res, c')"
  shows "ids_move c c'"
proof (cases "re_MessageID r = 0")
  case True
  then obtain err where "routeUnsolicited r c = (err, c')" using assms by (auto simp: route_def split: prod.splits)
  from routeUnsolicited_effect [OF this] show ?thesis by (auto intro!: ids_move_frame)
next
  case False
  then show ?thesis using assms by (auto simp: route_def routeID_def dest: ids_move_routePending split: option.splits if_splits)
qed

lemmas ids_move_all = ids_move_reserve ids_move_reserveMessageID ids_move_install ids_move_frames ids_move_cancel
  ids_move_begin ids_move_entomb ids_move_route

lemma ids_move_close:
  "ids_ok c \<Longrightarrow> tryReserveMessageIDLocked c = (res, c') \<Longrightarrow> ids_move c (releaseWriter c')"
  by (simp add: ids_move_reserve)

lemma step_ids_move:
  assumes st: "conn_step s s'" and b: "base_inv s"
  shows "ids_move (fst s) (fst s')"
proof -
  have "ids_ok (fst s)" using b by (simp add: base_inv_def conn_inv_def)
  with st show ?thesis by (cases rule: conn_step.cases) (auto dest: ids_move_all)
qed

end
