(* ===== verification/Connection.thy ===== *)
theory Connection
  imports Conn_Wake
begin

text \<open>
  The theorems about connections (\<^verbatim>\<open>src/connection.go\<close>): what holds in every state the goroutines of a connection can
  reach, in every interleaving.
\<close>

section \<open>Reachable states\<close>

text \<open>\<^verbatim>\<open>newObservedConnWithState\<close> with normalized options, after which \<^verbatim>\<open>readLoop\<close> runs.\<close>

definition conn_init :: "machine \<Rightarrow> bool" where
  "conn_init s \<longleftrightarrow> (\<exists>given opt maxID st. normalized given = Inr opt \<and> newConn True opt maxID st = Inr (fst s) \<and> snd s = {#Reading#})"

lemma init_fields:
  assumes "conn_init s"
  shows "conn_inv (fst s)" "snd s = {#Reading#}" "cn_writeToken (fst s)" "cn_reserved (fst s) = []" "\<not> cn_closing (fst s)"
    "cn_heap (fst s) = []" "cn_pending (fst s) = []" "cn_err (fst s) = None"
proof -
  obtain given opt maxID st where n: "normalized given = Inr opt" "newConn True opt maxID st = Inr (fst s)" "snd s = {#Reading#}"
    using assms by (auto simp: conn_init_def)
  then show "conn_inv (fst s)" "snd s = {#Reading#}" using newConn_inv normalized_Inr by blast+
  obtain c T where s: "s = (c, T)" by fastforce
  show "cn_writeToken (fst s)" "cn_reserved (fst s) = []" "\<not> cn_closing (fst s)"
    "cn_heap (fst s) = []" "cn_pending (fst s) = []" "cn_err (fst s) = None"
    using n(2) unfolding s fst_conv by (auto simp: newConn_def split: if_splits option.splits)
qed

interpretation conn_sys: invariant_system conn_init conn_step base_inv
proof unfold_locales
  fix s assume "conn_init s"
  then show "base_inv s" by (simp add: base_inv_def init_fields)
qed (rule step_base_inv)

definition readers :: "activity multiset \<Rightarrow> nat" where
  "readers T = size (filter_mset reads T)"

lemma readers_simps [simp]:
  "readers {#} = 0" "readers (add_mset t T) = of_bool (reads t) + readers T" "readers (S + T) = readers S + readers T"
  by (simp_all add: readers_def)

lemma task_readers [simp]: "readers (retireTask ret) = 0" "readers (cancelTask b action) = 0" "readers (errorTask err) = 0"
  by (simp_all add: retireTask_def cancelTask_def errorTask_def
      split: retire_call.splits cancel_action.splits option.splits)

lemma readerTask_readers: "readers (readerTask r res) \<le> 1"
  by (simp add: readerTask_def split: routed.splits option.splits)

lemma step_readers:
  assumes "conn_step s s'"
  shows "readers (snd s') \<le> readers (snd s)"
  using assms readerTask_readers by (cases rule: conn_step.cases) auto

text \<open>Everything the transition system maintains beyond the basic invariant.\<close>

definition machine_inv :: "machine \<Rightarrow> bool" where
  "machine_inv s \<longleftrightarrow> writer_inv s \<and> reserved_inv s \<and> closing_inv s \<and> failing_inv s \<and> reader_inv s \<and> readers (snd s) \<le> 1
     \<and> blocked_inv s \<and> abandoning_inv s \<and> supervised_inv s"

lemma init_machine_inv:
  assumes "conn_init s"
  shows "machine_inv s"
  using init_fields [OF assms]
  by (simp add: machine_inv_def writer_inv_def reserved_inv_def closing_inv_def failing_inv_def reader_inv_def blocked_inv_def
      abandoning_inv_def supervised_inv_def is_pending_def)

lemma step_machine_inv:
  assumes st: "conn_step s s'" and b: "base_inv s" "base_inv s'" and inv: "machine_inv s"
  shows "machine_inv s'"
proof -
  have cl: "closing_inv s'" using step_closing_inv [OF st b(1)] inv by (simp add: machine_inv_def)
  show ?thesis
    using inv cl step_writer_inv [OF st b(1)] step_reserved_inv [OF st b(1)] step_failing_inv [OF st b(1)]
      step_reader_inv [OF st b(1)] step_readers [OF st] step_blocked_inv [OF st b(1)] step_abandoning_inv [OF st b cl]
      step_supervised_inv [OF st b]
    by (simp add: machine_inv_def)
qed

interpretation machine: strengthened_system conn_init conn_step base_inv machine_inv
  by unfold_locales (auto intro: init_machine_inv step_machine_inv)

abbreviation reachable :: "machine \<Rightarrow> bool" where
  "reachable \<equiv> reach conn_init conn_step"

lemma reachable_inv: "reachable s \<Longrightarrow> base_inv s \<and> machine_inv s"
  by (rule machine.both.reach_inv)

section \<open>A run\<close>

text \<open>A deletion that gets message ID 1, and a response with this ID.\<close>

definition sample_op :: untyped_operation where
  "sample_op = \<lparr>uo_Protocol = Some \<lparr>po_packet = DeleteRequest_BERPacket (DeleteRequest []), po_identifier = deleteRequestIdentifier\<rparr>,
     uo_Controls = [], uo_Responses = \<lparr>fp_continueIDs = [], fp_completeIDs = [deleteResponseIdentifier], fp_noResponse = False, fp_valid = True\<rparr>,
     uo_Cancellation = CancelAbandon, uo_Label = []\<rparr>"

definition sample_request :: bytes where
  "sample_request = [0x30, 5, 2, 1, 1, 0x4a, 0]"

definition sample_reply :: bytes where
  "sample_reply = [0x30, 12, 2, 1, 1, 0x6b, 7, 10, 1, 0, 4, 0, 4, 0]"

definition sample_response :: response where
  "sample_response = projr (parseOwnedResponse sample_reply DefaultLimits)"

definition run_reserved :: conn where
  "run_reserved = snd (reserveMessageID operationApplication sample_conn)"

definition run_installed :: conn where
  "run_installed = snd (installPending (newPending 1 sample_op None (length sample_request)) operationApplication run_reserved)"

lemma run_parse: "parseOwnedResponse sample_reply DefaultLimits = Inr sample_response"
  by code_simp

lemma run_reserve: "reserveMessageID operationApplication sample_conn = (Inr (Some 1), run_reserved)"
  by code_simp

lemma run_encode: "encodeLDAPRequest 1 (the (uo_Protocol sample_op)) (uo_Controls sample_op) (BERLimits (cn_options run_reserved)) = Inr sample_request"
  by code_simp

lemma run_install: "installPending (newPending 1 sample_op None (length sample_request)) operationApplication run_reserved = (Inr 0, run_installed)"
  by code_simp

lemma run_await: "route sample_response run_installed = (AwaitWritten 0, run_installed)"
  by code_simp

lemma run_valid: "UntypedOperation_Validate sample_op = None"
  by code_simp

lemma sample_reachable: "reachable (sample_conn, {#Reading#})"
proof (rule reach_init)
  have "options_ok DefaultConnectionOptions" by code_simp
  then have "normalized DefaultConnectionOptions = Inr DefaultConnectionOptions"
    by (simp add: normalized_Inr withDefaults_id)
  then show "conn_init (sample_conn, {#Reading#})" unfolding conn_init_def using sample_conn_new by auto
qed

lemma run_start: "reachable (run_installed, {#DoQueued 0 sample_request, Reading#})"
proof -
  have "conn_step (sample_conn, {#Reading#}) (run_reserved, {#DoReserved 1 sample_op operationApplication, Reading#})"
    by (rule conn_step.do_reserve [OF run_valid _ _ run_reserve]) (auto simp: sample_op_def isAssociationChanging_def update_tags bind_tags tag_defs)
  moreover have "conn_step (run_reserved, {#DoReserved 1 sample_op operationApplication, Reading#}) (run_installed, {#DoQueued 0 sample_request, Reading#})"
    by (rule conn_step.do_install [OF _ run_encode]) (use run_install in \<open>auto simp: sample_op_def\<close>)
  ultimately show ?thesis using sample_reachable reach_step by metis
qed

section \<open>Safety\<close>

text \<open>(C1) In every reachable state the message IDs in use lie between 1 and the limit and no two of them coincide, whether reserved,
  pending or tombstoned; every operation's queue and the unsolicited queue are within their configured counts and
  bytes, with the byte counters exact; and an observer receives at most six dispatches, fewer than the eight its
  channel holds, so that no send to it blocks.\<close>

theorem connection_bounds:
  assumes "reachable (c, T)"
  shows "distinct (occupied c) \<and> set (occupied c) \<subseteq> {1..cn_maxID c} \<and> cn_maxID c \<le> MaxMessageID
    \<and> (\<forall>p \<in> set (cn_heap c). pn_queuedBytes p = queue_bytes (pn_queue p)
         \<and> int (length (pn_queue p)) \<le> MaxQueuedResponses (cn_options c)
         \<and> pn_queuedBytes p \<le> MaxQueuedResponseBytes (cn_options c) \<and> length (pn_observer p) \<le> 6)
    \<and> cn_unsolicitedBytes c = queue_bytes (cn_unsolicited c)
    \<and> int (length (cn_unsolicited c)) \<le> MaxUnsolicitedResponses (cn_options c)
    \<and> cn_unsolicitedBytes c \<le> MaxUnsolicitedResponseBytes (cn_options c)"
proof -
  have inv: "conn_inv c" using reachable_inv [OF assms] by (simp add: base_inv_def)
  have "op_ok (cn_options c) p" if "p \<in> set (cn_heap c)" for p
    using inv that by (auto simp: conn_inv_def ops_ok_def op_at_def in_set_conv_nth)
  moreover have "dispatch_bound p \<le> 6" for p by (simp add: dispatch_bound_def)
  ultimately have "\<forall>p \<in> set (cn_heap c). pn_queuedBytes p = queue_bytes (pn_queue p)
         \<and> int (length (pn_queue p)) \<le> MaxQueuedResponses (cn_options c)
         \<and> pn_queuedBytes p \<le> MaxQueuedResponseBytes (cn_options c) \<and> length (pn_observer p) \<le> 6"
    unfolding op_ok_def by (meson le_trans)
  with inv show ?thesis unfolding conn_inv_def ids_ok_def unsolicited_ok_def by blast
qed

theorem connection_bounds_witness: "length (pn_observer (op_at run_installed 0)) \<le> 6"
proof -
  have "op_at run_installed 0 \<in> set (cn_heap run_installed)" by code_simp
  then show ?thesis using connection_bounds [OF run_start] by blast
qed

text \<open>(C2) At most one activity holds the write token, and exactly one does unless the token is free; while the connection
  lives, the reserved message IDs are exactly those held by calls in progress, so that none is leaked or lost; at
  most one goroutine reads.\<close>

theorem connection_ownership:
  assumes "reachable (c, T)"
  shows "holders T + of_bool (cn_writeToken c) = 1 \<and> (cn_err c = None \<longrightarrow> mset (cn_reserved c) = held T) \<and> readers T \<le> 1"
  using reachable_inv [OF assms] by (simp add: machine_inv_def writer_inv_def reserved_inv_def)

theorem connection_ownership_witness: "cn_writeToken run_installed \<and> cn_reserved run_installed = []"
proof -
  have "cn_err run_installed = None" by code_simp
  then show ?thesis using connection_ownership [OF run_start] by (cases "cn_writeToken run_installed") simp_all
qed

section \<open>Message IDs\<close>

lemma ids_move_trans:
  assumes "ids_move c d" "ids_move d e" "cn_err e = None \<longrightarrow> cn_err d = None"
  shows "ids_move c e"
proof -
  have le: "cn_idChanged c \<le> cn_idChanged d" "cn_idChanged d \<le> cn_idChanged e" using assms(1,2) by (simp_all add: ids_move_def)
  have "set (occupied c) \<subseteq> set (occupied e)" if "cn_idChanged e = cn_idChanged c"
  proof -
    have "cn_idChanged d = cn_idChanged c" "cn_idChanged e = cn_idChanged d" using le that by simp_all
    then show ?thesis using assms(1,2) unfolding ids_move_def by blast
  qed
  then show ?thesis using le assms unfolding ids_move_def by (meson order_trans)
qed

lemma step_same:
  assumes "conn_step s s'" "base_inv s"
  shows "cn_maxID (fst s') = cn_maxID (fst s)" "cn_err (fst s) = Some e \<Longrightarrow> cn_err (fst s') = Some e"
  using step_grows [OF assms] by (auto simp: grows_def)

lemma steps_same:
  assumes "conn_step\<^sup>*\<^sup>* s s'" "base_inv s"
  shows "cn_maxID (fst s') = cn_maxID (fst s) \<and> (\<forall>e. cn_err (fst s) = Some e \<longrightarrow> cn_err (fst s') = Some e)
    \<and> ids_move (fst s) (fst s')"
  using assms
proof (induction rule: rtranclp_induct)
  case (step t u)
  have b: "base_inv t" using conn_sys.steps_inv [OF step(1,4)] .
  have "cn_err (fst u) = None \<longrightarrow> cn_err (fst t) = None" using step_same(2) [OF step(2) b] by fastforce
  with step(3) [OF step(4)] step_same [OF step(2) b] step_ids_move [OF step(2) b] show ?case
    using ids_move_trans by metis
qed simp

text \<open>(C14) A caller that found no free message ID misses no change: as long as no new generation has begun, there is still no free
  ID.  And the ID of an abandoned request, tombstoned, is neither reserved nor pending again while the connection
  lives.\<close>

theorem message_id_reuse:
  assumes "reachable (c, T)" "conn_step\<^sup>*\<^sup>* (c, T) (c', T')"
  shows "(fst (tryReserveMessageIDLocked c) = None \<longrightarrow> cn_idChanged c' = cn_idChanged c \<longrightarrow> fst (tryReserveMessageIDLocked c') = None)
    \<and> (mid \<in> fst ` set (cn_tombstones c) \<longrightarrow> cn_err c' = None \<longrightarrow> mid \<notin> set (cn_reserved c') \<and> mid \<notin> fst ` set (cn_pending c'))"
proof -
  have b: "base_inv (c, T)" using reachable_inv [OF assms(1)] by blast
  have b': "base_inv (c', T')" using conn_sys.steps_inv [OF assms(2) b] .
  have same: "cn_maxID c' = cn_maxID c" "ids_move c c'" using steps_same [OF assms(2) b] by simp_all
  have ok: "ids_ok c" "ids_ok c'" using b b' by (auto simp: base_inv_def conn_inv_def)
  have full: "fst (tryReserveMessageIDLocked d) = None \<longleftrightarrow> {1..cn_maxID d} \<subseteq> set (occupied d)" if "ids_ok d" for d
    using allocator_correct [OF that] by (auto split: option.splits)
  have "fst (tryReserveMessageIDLocked c') = None"
    if "fst (tryReserveMessageIDLocked c) = None" "cn_idChanged c' = cn_idChanged c"
    using that same full [OF ok(1)] full [OF ok(2)] by (auto simp: ids_move_def)
  moreover have "mid \<notin> set (cn_reserved c') \<and> mid \<notin> fst ` set (cn_pending c')"
    if "mid \<in> fst ` set (cn_tombstones c)" "cn_err c' = None"
  proof -
    have "mid \<in> fst ` set (cn_tombstones c')" using same(2) that by (auto simp: ids_move_def)
    then show ?thesis using ok(2) by (auto simp: ids_ok_def occupied_def)
  qed
  ultimately show ?thesis by blast
qed

definition run_full :: conn where
  "run_full = snd (reserveMessageID operationApplication (snd (reserveMessageID operationApplication run_installed)))"

lemma run_full_reachable:
  "\<exists>T. reachable (run_full, T)"
proof -
  let ?c = "snd (reserveMessageID operationApplication run_installed)"
  have 1: "reserveMessageID operationApplication run_installed = (Inr (Some 2), ?c)" by code_simp
  have 2: "reserveMessageID operationApplication ?c = (Inr (Some 3), run_full)" by code_simp
  have step: "conn_step (c, T) (c', add_mset (DoReserved mid sample_op operationApplication) T)"
    if "reserveMessageID operationApplication c = (Inr (Some mid), c')" for c T mid c'
    by (rule conn_step.do_reserve [OF run_valid _ _ that]) (auto simp: sample_op_def isAssociationChanging_def update_tags bind_tags tag_defs)
  show ?thesis using reach_step [OF reach_step [OF run_start step [OF 1]] step [OF 2]] by blast
qed

theorem message_id_reuse_witness:
  "fst (tryReserveMessageIDLocked (upd_op 0 (\<lambda>p. p\<lparr>pn_ctx := Some (Sentinel Context_Canceled)\<rparr>) run_full)) = None"
proof -
  let ?c = "upd_op 0 (\<lambda>p. p\<lparr>pn_ctx := Some (Sentinel Context_Canceled)\<rparr>) run_full"
  obtain T where T: "reachable (run_full, T)" using run_full_reachable by blast
  have "0 < length (cn_heap run_full)" "pn_ctx (op_at run_full 0) = None" by code_simp+
  then have "conn_step\<^sup>*\<^sup>* (run_full, T) (?c, T)"
    by (intro r_into_rtranclp conn_step.ctx_done) (simp_all add: ctx_error_def)
  note reuse = message_id_reuse [OF T this]
  have "fst (tryReserveMessageIDLocked run_full) = None" by code_simp
  with reuse show ?thesis by simp
qed

section \<open>Liveness\<close>

lemma ended_avail:
  assumes "conn_inv c" "a < length (cn_heap c)" "cn_err c \<noteq> None \<or> \<not> is_pending c a"
  shows "avail (op_at c a)"
proof -
  have "\<not> is_pending c a" using assms(1,3) by (auto simp: conn_inv_def phase_ok_def is_pending_def)
  then show ?thesis using assms(1,2) by (auto simp: conn_inv_def ops_ok_def ended_op_def avail_def)
qed

lemma avail_Next: "avail (op_at c a) \<Longrightarrow> fst (stream_Next a c) \<noteq> None"
  by (auto simp: avail_def stream_Next_def Let_def split: list.splits option.splits)

text \<open>(C12) No wakeup is lost: whenever a consumer is blocked in \<^verbatim>\<open>Next\<close> and a response is queued, its operation is canceled,
  completed or no longer pending, or the connection has ended, the operation's signal is set.  Receiving it is a step of the
  consumer, and the round it then makes returns: with a response, an error or the end of the stream.\<close>

theorem no_lost_wakeup:
  assumes "reachable (c, add_mset (Blocked a) T)"
    and "avail (op_at c a) \<or> cn_err c \<noteq> None \<or> \<not> is_pending c a"
  defines "c' \<equiv> upd_op a (\<lambda>p. p\<lparr>pn_ready := False\<rparr>) c"
  shows "pn_ready (op_at c a) \<and> conn_step (c, add_mset (Blocked a) T) (c', T) \<and> fst (stream_Next a c') \<noteq> None"
proof -
  have inv: "conn_inv c" "a < length (cn_heap c)" "blocked_inv (c, add_mset (Blocked a) T)"
    using reachable_inv [OF assms(1)] by (auto simp: base_inv_def activity_ok_def machine_inv_def)
  have av: "avail (op_at c a)" using assms(2) ended_avail [OF inv(1,2)] by blast
  then have ready: "pn_ready (op_at c a)" using inv(3) by (auto simp: blocked_inv_def)
  then have "conn_step (c, add_mset (Blocked a) T) (c', T)" unfolding c'_def by (rule conn_step.stream_wake)
  moreover have "avail (op_at c' a)" using av inv(2) by (simp add: c'_def op_at_upd avail_def)
  ultimately show ?thesis using ready avail_Next by blast
qed

text \<open>The run goes on: the request is written, the consumer blocks, the response arrives.\<close>

definition run_written :: conn where
  "run_written = upd_op 0 (\<lambda>p. (observer_event TraceWritten (of_nat 7) 0 p)\<lparr>pn_writeObserved := True\<rparr>)
     (releaseWriter (startWrite 0 (snd (acquireWriter None run_installed))))"

definition run_delivered :: conn where
  "run_delivered = snd (route sample_response run_written)"

lemma run_writing: "reachable (run_written, {#Watching 0, Reading#})"
proof -
  let ?c1 = "snd (acquireWriter None run_installed)"
  have f: "cn_writeToken run_installed" "pn_ctx (op_at run_installed 0) = None" "acquireWriter None run_installed = (None, ?c1)"
    "writeAll (\<lambda>i. Returned 7 None None) sample_request = (7, None, NoRetire)"
    "\<not> FramingPattern_NoResponse (pn_pattern (op_at run_written 0))"
    by code_simp+
  have "conn_step (run_installed, {#DoQueued 0 sample_request, Reading#}) (?c1, {#DoHolding 0 sample_request, Reading#})"
    using f(1-3) by (intro conn_step.do_acquire) simp_all
  moreover have "conn_step (?c1, {#DoHolding 0 sample_request, Reading#}) (startWrite 0 ?c1, {#DoWriting 0 sample_request, Reading#})"
    by (rule conn_step.do_start)
  moreover have "conn_step (startWrite 0 ?c1, {#DoWriting 0 sample_request, Reading#}) (releaseWriter (startWrite 0 ?c1), {#DoWritten 0 7, Reading#})"
    by (rule conn_step.do_write [OF f(4)]) simp
  moreover have "conn_step (releaseWriter (startWrite 0 ?c1), {#DoWritten 0 7, Reading#}) (run_written, {#DoReturning 0, Reading#})"
    unfolding run_written_def by (rule conn_step.do_observed)
  moreover have "conn_step (run_written, {#DoReturning 0, Reading#}) (run_written, {#Watching 0, Reading#})"
    by (rule conn_step.do_return [OF f(5)])
  ultimately show ?thesis using reach_step [OF reach_step [OF reach_step [OF reach_step [OF reach_step [OF run_start]]]]] by metis
qed

lemma run_blocked: "reachable (run_delivered, {#Blocked 0, Reading, Watching 0#})"
proof -
  have f: "0 < length (cn_heap run_written)" "pn_writeObserved (op_at run_written 0)" "stream_Next 0 run_written = (None, run_written)"
    "route sample_response run_written = (Routed None, run_delivered)" "BERLimits (cn_options run_written) = DefaultLimits"
    by code_simp+
  have "conn_step (run_written, {#Watching 0, Reading#}) (run_written, {#Blocked 0, Watching 0, Reading#})"
    using f(1-3) by (intro conn_step.stream_block) simp_all
  moreover have "conn_step (run_written, {#Reading, Blocked 0, Watching 0#}) (run_delivered, readerTask sample_response (Routed None) + {#Blocked 0, Watching 0#})"
    by (rule conn_step.read [where message = sample_reply, OF _ f(4)]) (simp add: f(5) run_parse)
  ultimately show ?thesis using reach_step [OF reach_step [OF run_writing]] by (simp add: readerTask_def add_mset_commute)
qed

theorem no_lost_wakeup_witness:
  "pn_ready (op_at run_delivered 0)
   \<and> fst (stream_Next 0 (upd_op 0 (\<lambda>p. p\<lparr>pn_ready := False\<rparr>) run_delivered)) = Some (Inr sample_response)"
proof -
  have "avail (op_at run_delivered 0)" by code_simp
  then have "pn_ready (op_at run_delivered 0)" using no_lost_wakeup [OF run_blocked] by blast
  moreover have "fst (stream_Next 0 (upd_op 0 (\<lambda>p. p\<lparr>pn_ready := False\<rparr>) run_delivered)) = Some (Inr sample_response)" by code_simp
  ultimately show ?thesis by blast
qed

text \<open>(C16) Every pending operation is looked after: its call or its watcher is still there; or its consumer has been told of a
  cancellation or an overflow, and if an \<^verbatim>\<open>Abandon\<close> is due its sender is there; or the connection is ending.  A reader runs
  unless the connection is ending, and a connection that is ending can always go on to its end.\<close>

theorem operations_looked_after:
  assumes "reachable (c, T)"
  shows "(is_pending c a \<longrightarrow>
        (\<exists>t \<in># T. a \<in> serves t)
        \<or> pn_deliveryErr (op_at c a) \<noteq> None \<and> (pn_abandoning (op_at c a) \<longrightarrow> (\<exists>t \<in># T. a \<in> abandons t)) \<or> ending (c, T))
    \<and> ((\<exists>t \<in># T. reads t) \<or> ending (c, T)) \<and> (cn_closing c \<longrightarrow> ending (c, T)) \<and> (ending (c, T) \<longrightarrow> can_end (c, T))"
  using reachable_inv [OF assms] ending_can_end
  unfolding machine_inv_def supervised_inv_def abandoning_inv_def reader_inv_def closing_inv_def by (metis fst_conv snd_conv)

theorem operations_looked_after_witness:
  "(\<exists>t \<in># {#DoQueued 0 sample_request, Reading#}. 0 \<in> serves t) \<or> pn_deliveryErr (op_at run_installed 0) \<noteq> None
     \<or> ending (run_installed, {#DoQueued 0 sample_request, Reading#})"
proof -
  have "is_pending run_installed 0" by code_simp
  then show ?thesis using operations_looked_after [OF run_start, of 0] by blast
qed

section \<open>Outcomes\<close>

text \<open>(C4) \<^verbatim>\<open>writeAll\<close> terminates and tells the truth about the request: without an error all of it was written and the connection
  lives on; otherwise the error is exactly one of definitely unsent, and then no byte was accepted, and ambiguous, and then the
  connection is being retired with this very error.\<close>

theorem writeAll_outcome:
  assumes "\<forall>i. outcome_ok (env i)"
  shows "case writeAll env message of (n, res, ret) \<Rightarrow>
     (case res of
        None \<Rightarrow> length message \<le> n \<and> ret = NoRetire
      | Some err \<Rightarrow>
          (if errors_Is err ErrAmbiguousOutcome
           then \<not> errors_Is err ErrDefinitelyUnsent \<and> (ret = RetireHere err \<or> ret = RetireByContext err)
           else errors_Is err ErrDefinitelyUnsent \<and> n = 0))"
  using writeAll_report [OF assms, of message]
  by (auto simp: write_report_def split: prod.splits option.splits)

theorem writeAll_outcome_witness:
  "case writeAll (\<lambda>i. if i = 0 then Returned 1 None None else CtxDone (Sentinel Context_Canceled)) [1, 2] of (n, res, ret) \<Rightarrow>
     n = 1 \<and> (\<exists>err. res = Some err \<and> errors_Is err ErrAmbiguousOutcome \<and> ret = RetireHere err)"
proof -
  let ?env = "\<lambda>i. if i = 0 then Returned 1 None None else CtxDone (Sentinel Context_Canceled)"
  let ?e = "TransportError StageWrite OutcomeAmbiguous (Sentinel Context_Canceled)"
  have "\<forall>i. outcome_ok (?env i)" by (simp add: ctx_error_def)
  moreover have "writeAll ?env [1, 2] = (1, Some ?e, RetireHere ?e)" by code_simp
  ultimately show ?thesis using writeAll_outcome [of ?env "[1, 2]"] by simp
qed

lemma retirement_transport:
  assumes "as_TransportError err = Some (stage, outcome, cause)" "\<not> errors_Is cause ErrAmbiguousOutcome" "\<not> errors_Is cause ErrDefinitelyUnsent"
  shows "errors_Is (operationRetirementError p err) ErrAmbiguousOutcome = pn_writeStarted p"
    "errors_Is (operationRetirementError p err) ErrDefinitelyUnsent = (\<not> pn_writeStarted p)"
  using assms by (auto simp: operationRetirementError_def)

text \<open>(C15) Retirement happens once and reaches everybody: the first error stays; no message ID remains in use; every
  operation that was pending is terminal, finished and signalled, and its consumer gets, after the responses already
  queued, the error it was canceled with or the reason of the retirement; an operation that was not pending is left as it
  was.  If the reason is a transport failure that claims no outcome of its own, the consumer is told that the outcome is
  ambiguous if its write had started and that nothing was sent otherwise.  If the reason holds no transport failure (the connection was
  closed, the peer broke the protocol or a limit, or it announced the disconnection), the consumer gets the reason as it is, whether the
  request was written or not; this is not what \<^verbatim>\<open>docs/protocol-inventory.md\<close> says of any connection loss.\<close>

theorem retirement_reaches_everybody:
  assumes inv: "conn_inv c" and none: "cn_err c = None" and e: "e = retirementError err c"
  shows "cn_err (retire err c) = Some e \<and> occupied (retire err c) = [] \<and> retire other (retire err c) = retire err c
    \<and> (\<forall>a. if is_pending c a
           then let p = op_at c a; p' = op_at (retire err c) a in
             pn_terminal p' \<and> pn_lifecycleDone p' \<and> pn_ready p' \<and> pn_queue p' = pn_queue p
             \<and> pn_deliveryErr p' = Some (case pn_deliveryErr p of None \<Rightarrow> operationRetirementError p e | Some d \<Rightarrow> d)
           else op_at (retire err c) a = op_at c a)
    \<and> (\<forall>p stage outcome cause. as_TransportError e = Some (stage, outcome, cause) \<longrightarrow>
         \<not> errors_Is cause ErrAmbiguousOutcome \<longrightarrow> \<not> errors_Is cause ErrDefinitelyUnsent \<longrightarrow>
         errors_Is (operationRetirementError p e) ErrAmbiguousOutcome = pn_writeStarted p
         \<and> errors_Is (operationRetirementError p e) ErrDefinitelyUnsent = (\<not> pn_writeStarted p))
    \<and> (\<forall>p. as_TransportError e = None \<longrightarrow> operationRetirementError p e = e)"
proof -
  note eff = retire_effect [OF none, of err]
  have "retire other (retire err c) = retire err c" using eff(1) by (intro retire_again) simp
  then show ?thesis
    using eff retire_op [OF inv none, of err] retirement_transport [of e] unfolding e
    by (simp add: occupied_def Let_def operationRetirementError_def)
qed

theorem retirement_reaches_everybody_witness:
  "let e = TransportError StageRead OutcomeNotApplicable (Sentinel IO_EOF) in
   pn_deliveryErr (op_at (retire (Some e) run_written) 0) = Some (TransportError StageRead OutcomeAmbiguous (Sentinel IO_EOF))"
proof -
  let ?e = "TransportError StageRead OutcomeNotApplicable (Sentinel IO_EOF)"
  have inv: "conn_inv run_written" using reachable_inv [OF run_writing] by (simp add: base_inv_def)
  have f: "cn_err run_written = None" "?e = retirementError (Some ?e) run_written" "is_pending run_written 0"
    "pn_deliveryErr (op_at run_written 0) = None"
    "operationRetirementError (op_at run_written 0) ?e = TransportError StageRead OutcomeAmbiguous (Sentinel IO_EOF)"
    by code_simp+
  note r = retirement_reaches_everybody [OF inv f(1,2), THEN conjunct2, THEN conjunct2, THEN conjunct2, THEN conjunct1, THEN spec [of _ 0]]
  show ?thesis using r f(3-5) by (simp add: Let_def)
qed

section \<open>Two findings\<close>

text \<open>The error \<^verbatim>\<open>acquireWriter\<close> returns on a connection that was retired by an ambiguous write is both definitely unsent and ambiguous,
  where the contract promises exactly one of the two.\<close>

theorem refused_with_two_outcomes:
  "errors_Is (unsent (TransportError StageWrite OutcomeAmbiguous cause)) ErrDefinitelyUnsent
   \<and> errors_Is (unsent (TransportError StageWrite OutcomeAmbiguous cause)) ErrAmbiguousOutcome"
  by (simp add: unsent_def)

text \<open>A reader that waits for the write of a request whose call has returned.\<close>

definition stalled :: "response \<Rightarrow> nat \<Rightarrow> machine \<Rightarrow> bool" where
  "stalled r a s \<longleftrightarrow> cn_err (fst s) \<noteq> None
     \<or> ReaderWaits r a \<in># snd s \<and> a < length (cn_heap (fst s)) \<and> \<not> pn_writeObserved (op_at (fst s) a) \<and> writers (snd s) a = 0"

lemma step_stalled:
  assumes st: "conn_step s s'" and b: "base_inv s" and "stalled r a s"
  shows "stalled r a s'"
proof (cases "cn_err (fst s)")
  case (Some e)
  then show ?thesis using step_same(2) [OF st b] by (simp add: stalled_def)
next
  case None
  then have h: "ReaderWaits r a \<in># snd s" "a < length (cn_heap (fst s))" "\<not> pn_writeObserved (op_at (fst s) a)" "writers (snd s) a = 0"
    using assms(3) by (auto simp: stalled_def)
  have w: "a < length (cn_heap (fst s')) \<and> \<not> pn_writeObserved (op_at (fst s') a)"
    using step_grows [OF st b] h by (auto simp: grows_def op_grows_def op_at_upd observer_event_def)
  from st have "cn_err (fst s') \<noteq> None \<or> ReaderWaits r a \<in># snd s' \<and> writers (snd s') a = 0"
  proof (cases rule: conn_step.cases)
    case (do_install op p mid c message scope d c' T)
    then have "d = length (cn_heap c)" by (auto simp: installPending_def Let_def split: option.splits if_splits)
    then show ?thesis using h do_install by auto
  next
    case (read_resume c d r' res c' T)
    then show ?thesis using h by auto
  next
    case (read_stop c r' d T)
    then show ?thesis using None by simp
  qed (use h in auto)
  with w show ?thesis by (auto simp: stalled_def)
qed

text \<open>The context of a queued request ends while the reader, which has got a response with its message ID, waits for it to be
  written.  The call returns without writing and nobody reports the write any more.\<close>

definition run_canceled :: conn where
  "run_canceled = removeDefinitelyUnsent 0 (Some (unsent (Sentinel Context_Canceled)))
     (upd_op 0 (\<lambda>p. p\<lparr>pn_ctx := Some (Sentinel Context_Canceled)\<rparr>) run_installed)"

lemma run_stalled: "reachable (run_canceled, {#ReaderWaits sample_response 0#})"
proof -
  let ?c = "upd_op 0 (\<lambda>p. p\<lparr>pn_ctx := Some (Sentinel Context_Canceled)\<rparr>) run_installed"
  let ?e = "unsent (Sentinel Context_Canceled)"
  have f: "BERLimits (cn_options run_installed) = DefaultLimits" "0 < length (cn_heap run_installed)"
    "pn_ctx (op_at run_installed 0) = None" "pn_ctx (op_at ?c 0) = Some (Sentinel Context_Canceled)"
    "\<not> errors_Is ?e ErrAmbiguousOutcome"
    by code_simp+
  have "conn_step (run_installed, {#Reading, DoQueued 0 sample_request#})
      (run_installed, readerTask sample_response (AwaitWritten 0) + {#DoQueued 0 sample_request#})"
    by (rule conn_step.read [where message = sample_reply, OF _ run_await]) (simp add: f(1) run_parse)
  then have 1: "conn_step (run_installed, {#DoQueued 0 sample_request, Reading#})
      (run_installed, {#DoQueued 0 sample_request, ReaderWaits sample_response 0#})"
    by (simp add: readerTask_def add_mset_commute)
  have 2: "conn_step (run_installed, {#DoQueued 0 sample_request, ReaderWaits sample_response 0#})
      (?c, {#DoQueued 0 sample_request, ReaderWaits sample_response 0#})"
    by (rule conn_step.ctx_done [OF f(2,3)]) (simp add: ctx_error_def)
  have 3: "conn_step (?c, {#DoQueued 0 sample_request, ReaderWaits sample_response 0#}) (?c, {#DoFailed 0 0 ?e, ReaderWaits sample_response 0#})"
    by (rule conn_step.do_refused, unfold writer_refused_def f(4)) blast
  have 4: "conn_step (?c, {#DoFailed 0 0 ?e, ReaderWaits sample_response 0#}) (run_canceled, {#ReaderWaits sample_response 0#})"
    using conn_step.do_failed [of ?c 0 0 ?e] f(5) by (simp add: run_canceled_def)
  show ?thesis by (rule reach_step [OF reach_step [OF reach_step [OF reach_step [OF run_start 1] 2] 3] 4])
qed

definition always :: "(machine \<Rightarrow> bool) \<Rightarrow> machine \<Rightarrow> bool" where
  "always P s \<longleftrightarrow> (\<forall>s'. conn_step\<^sup>*\<^sup>* s s' \<longrightarrow> P s')"

text \<open>The connection has ended or its only reader is the one that waits.\<close>

definition stuck :: "response \<Rightarrow> nat \<Rightarrow> machine \<Rightarrow> bool" where
  "stuck r a s \<longleftrightarrow> cn_err (fst s) \<noteq> None \<or> ReaderWaits r a \<in># snd s \<and> Reading \<notin># snd s"

lemma unwritten_stuck:
  assumes reach: "reachable (c, T)" and "ReaderWaits r a \<in># T" "\<not> pn_writeObserved (op_at c a)" "writers T a = 0"
  shows "always (stuck r a) (c, T)"
proof (unfold always_def stuck_def, intro allI impI)
  fix s' assume st: "conn_step\<^sup>*\<^sup>* (c, T) s'"
  have "a < length (cn_heap c)" using reachable_inv [OF reach] assms(2) by (auto simp: base_inv_def activity_ok_def)
  then have "stalled r a (c, T)" using assms(2-4) by (simp add: stalled_def)
  then have "stalled r a s'"
    using conn_sys.persists [where P = "stalled r a", OF _ st] step_stalled reachable_inv [OF reach] by blast
  moreover have "readers (snd s') \<le> 1"
    using reachable_inv [OF reach_steps [OF st reach]] by (simp add: machine_inv_def)
  moreover have "2 \<le> readers U" if "ReaderWaits r a \<in># U" "Reading \<in># U" for U
  proof -
    obtain V where V: "U = add_mset (ReaderWaits r a) V" using \<open>ReaderWaits r a \<in># U\<close> by (blast dest: multi_member_split)
    then obtain W where "V = add_mset Reading W" using \<open>Reading \<in># U\<close> by (auto dest: multi_member_split)
    then show ?thesis using V by simp
  qed
  ultimately show "cn_err (fst s') \<noteq> None \<or> ReaderWaits r a \<in># snd s' \<and> Reading \<notin># snd s'"
    by (fastforce simp: stalled_def)
qed

text \<open>(C33) The reader can be stalled by a request that is never written.  Whenever the reader waits for the write of an operation
  and no call is left that could report it, then, whatever happens, the reader never again gets to a response of any operation before
  the connection has ended.  This does happen: there is a reachable state of a living connection, not closing, in which the waiting
  reader is the only activity, so nothing is retiring the connection, and the operation it waits for is no longer pending and was
  never begun to be written.\<close>

theorem reader_can_stall:
  "(\<exists>c r a. reachable (c, {#ReaderWaits r a#}) \<and> cn_err c = None \<and> \<not> cn_closing c
      \<and> \<not> is_pending c a \<and> \<not> pn_writeStarted (op_at c a) \<and> \<not> pn_writeObserved (op_at c a))
   \<and> (reachable (c, T) \<and> ReaderWaits r a \<in># T \<and> \<not> pn_writeObserved (op_at c a) \<and> writers T a = 0 \<longrightarrow> always (stuck r a) (c, T))"
proof (intro conjI impI)
  have "cn_err run_canceled = None \<and> \<not> cn_closing run_canceled \<and> \<not> is_pending run_canceled 0
    \<and> \<not> pn_writeStarted (op_at run_canceled 0) \<and> \<not> pn_writeObserved (op_at run_canceled 0)" by code_simp
  then show "\<exists>c r a. reachable (c, {#ReaderWaits r a#}) \<and> cn_err c = None \<and> \<not> cn_closing c
      \<and> \<not> is_pending c a \<and> \<not> pn_writeStarted (op_at c a) \<and> \<not> pn_writeObserved (op_at c a)"
    using run_stalled by blast
qed (blast intro: unwritten_stuck)

theorem reader_can_stall_witness:
  "always (stuck sample_response 0) (run_canceled, {#ReaderWaits sample_response 0#})"
proof -
  have "\<not> pn_writeObserved (op_at run_canceled 0)" by code_simp
  then show ?thesis
    using reader_can_stall [of run_canceled "{#ReaderWaits sample_response 0#}" sample_response 0] run_stalled by simp
qed

end
