(* ===== verification/Pool_Types.thy ===== *)
theory Pool_Types
  imports Complex_Main Conn_Types
begin

text \<open>
  Options and selections of a pool (\<^verbatim>\<open>src/pool/options.go\<close>, \<^verbatim>\<open>src/pool/selection.go\<close>).  Durations are integers of nanoseconds.  A
  \<^verbatim>\<open>float64\<close> is a rational number or not a number.
\<close>

section \<open>Options\<close>

datatype float64 = Finite rat | NaN

text \<open>Comparisons with a constant; all of them are false of \<^verbatim>\<open>NaN\<close>.\<close>

fun float_less :: "float64 \<Rightarrow> rat \<Rightarrow> bool" where
  "float_less (Finite x) y = (x < y)"
| "float_less NaN y = False"

fun float_greater :: "float64 \<Rightarrow> rat \<Rightarrow> bool" where
  "float_greater (Finite x) y = (y < x)"
| "float_greater NaN y = False"

record pool_options =
  MaxConnectionsPerEndpoint :: int
  MaxInFlightPerConnection :: int
  MaxWaiters :: int
  IdleLifetime :: int
  MaximumLifetime :: int
  ShutdownTimeout :: int
  BackoffInitial :: int
  BackoffMaximum :: int
  BackoffJitter :: float64

definition DefaultOptions :: pool_options where
  "DefaultOptions =
     \<lparr>MaxConnectionsPerEndpoint = 2, MaxInFlightPerConnection = 8, MaxWaiters = 128,
      IdleLifetime = 300000000000, MaximumLifetime = 1800000000000, ShutdownTimeout = 5000000000,
      BackoffInitial = 100000000, BackoffMaximum = 30000000000, BackoffJitter = Finite (1 / 5)\<rparr>"

text \<open>The first half of \<^verbatim>\<open>normalized\<close>.\<close>

definition poolDefaults :: "pool_options \<Rightarrow> pool_options" where
  "poolDefaults opt =
     (let d = DefaultOptions in
      \<lparr>MaxConnectionsPerEndpoint = orDefault (MaxConnectionsPerEndpoint opt) (MaxConnectionsPerEndpoint d),
       MaxInFlightPerConnection = orDefault (MaxInFlightPerConnection opt) (MaxInFlightPerConnection d),
       MaxWaiters = orDefault (MaxWaiters opt) (MaxWaiters d),
       IdleLifetime = orDefault (IdleLifetime opt) (IdleLifetime d),
       MaximumLifetime = orDefault (MaximumLifetime opt) (MaximumLifetime d),
       ShutdownTimeout = orDefault (ShutdownTimeout opt) (ShutdownTimeout d),
       BackoffInitial = orDefault (BackoffInitial opt) (BackoffInitial d),
       BackoffMaximum = orDefault (BackoffMaximum opt) (BackoffMaximum d),
       BackoffJitter = (if BackoffJitter opt = Finite 0 then BackoffJitter d else BackoffJitter opt)\<rparr>)"

definition Options_normalized :: "pool_options \<Rightarrow> failure + pool_options" where
  "Options_normalized opt =
     (let o1 = poolDefaults opt in
      if MaxConnectionsPerEndpoint o1 < 0 then Inl (Text ''pool: MaxConnectionsPerEndpoint must be positive'' [])
      else if MaxInFlightPerConnection o1 < 0 then Inl (Text ''pool: MaxInFlightPerConnection must be positive'' [])
      else if MaxWaiters o1 < 0 then Inl (Text ''pool: MaxWaiters must be positive'' [])
      else if IdleLifetime o1 < 0 then Inl (Text ''pool: IdleLifetime must be positive'' [])
      else if MaximumLifetime o1 < 0 then Inl (Text ''pool: MaximumLifetime must be positive'' [])
      else if ShutdownTimeout o1 < 0 then Inl (Text ''pool: ShutdownTimeout must be positive'' [])
      else if BackoffInitial o1 < 0 then Inl (Text ''pool: BackoffInitial must be positive'' [])
      else if BackoffMaximum o1 < 0 then Inl (Text ''pool: BackoffMaximum must be positive'' [])
      else if BackoffMaximum o1 < BackoffInitial o1
      then Inl (Text ''pool: BackoffMaximum must not be less than BackoffInitial'' [])
      else if float_less (BackoffJitter o1) 0 \<or> float_greater (BackoffJitter o1) 1
      then Inl (Text ''pool: BackoffJitter must be between zero and one'' [])
      else Inr o1)"

definition Options_Validate :: "pool_options \<Rightarrow> failure option" where
  "Options_Validate opt = (case Options_normalized opt of Inl err \<Rightarrow> Some err | Inr _ \<Rightarrow> None)"

text \<open>Every bound is positive, the backoff range is not empty; a jitter that is a number is between zero and one.\<close>

definition pool_options_ok :: "pool_options \<Rightarrow> bool" where
  "pool_options_ok opt \<longleftrightarrow>
     list_all (\<lambda>v. 0 < v) [MaxConnectionsPerEndpoint opt, MaxInFlightPerConnection opt, MaxWaiters opt, IdleLifetime opt,
       MaximumLifetime opt, ShutdownTimeout opt, BackoffInitial opt, BackoffMaximum opt]
     \<and> BackoffInitial opt \<le> BackoffMaximum opt
     \<and> (case BackoffJitter opt of NaN \<Rightarrow> True | Finite x \<Rightarrow> 0 < x \<and> x \<le> 1)"

lemma poolDefaults_nonzero:
  "MaxConnectionsPerEndpoint (poolDefaults opt) \<noteq> 0" "MaxInFlightPerConnection (poolDefaults opt) \<noteq> 0"
  "MaxWaiters (poolDefaults opt) \<noteq> 0" "IdleLifetime (poolDefaults opt) \<noteq> 0" "MaximumLifetime (poolDefaults opt) \<noteq> 0"
  "ShutdownTimeout (poolDefaults opt) \<noteq> 0" "BackoffInitial (poolDefaults opt) \<noteq> 0" "BackoffMaximum (poolDefaults opt) \<noteq> 0"
  "BackoffJitter (poolDefaults opt) \<noteq> Finite 0"
  by (simp_all add: poolDefaults_def DefaultOptions_def orDefault_def Let_def)

lemma Options_normalized_Inr:
  "Options_normalized opt = Inr opt' \<longleftrightarrow> opt' = poolDefaults opt \<and> pool_options_ok opt'"
proof -
  let ?o = "poolDefaults opt"
  have jitter: "float_less (BackoffJitter ?o) 0 \<or> float_greater (BackoffJitter ?o) 1 \<longleftrightarrow>
      \<not> (case BackoffJitter ?o of NaN \<Rightarrow> True | Finite x \<Rightarrow> 0 < x \<and> x \<le> 1)"
    using poolDefaults_nonzero(9) [of opt] by (cases "BackoffJitter ?o") auto
  have sign: "v < 0 \<longleftrightarrow> \<not> 0 < v" if "v \<noteq> 0" for v :: int using that by auto
  have "Options_normalized opt = (if pool_options_ok ?o then Inr ?o else Options_normalized opt)"
    by (simp add: Options_normalized_def Let_def jitter pool_options_ok_def)
  moreover have "pool_options_ok ?o" if "Options_normalized opt = Inr opt'"
    using that
    by (simp add: Options_normalized_def Let_def jitter sign [OF poolDefaults_nonzero(1)] sign [OF poolDefaults_nonzero(2)]
        sign [OF poolDefaults_nonzero(3)] sign [OF poolDefaults_nonzero(4)] sign [OF poolDefaults_nonzero(5)]
        sign [OF poolDefaults_nonzero(6)] sign [OF poolDefaults_nonzero(7)] sign [OF poolDefaults_nonzero(8)]
        pool_options_ok_def not_less split: if_split_asm)
  ultimately show ?thesis by (metis Inr_inject)
qed

section \<open>Selections\<close>

definition SelectionAny :: byte where "SelectionAny = 1"
definition SelectionExactEndpoint :: byte where "SelectionExactEndpoint = 2"

record selection =
  sl_kind :: byte
  sl_endpoint :: string

definition pool_Any :: selection where
  "pool_Any = \<lparr>sl_kind = SelectionAny, sl_endpoint = []\<rparr>"

definition pool_Endpoint :: "string \<Rightarrow> failure + selection" where
  "pool_Endpoint eid =
     (case EndpointID_Validate eid of
        Some err \<Rightarrow> Inl err
      | None \<Rightarrow> Inr \<lparr>sl_kind = SelectionExactEndpoint, sl_endpoint = eid\<rparr>)"

definition Selection_EndpointID :: "selection \<Rightarrow> string \<times> bool" where
  "Selection_EndpointID s = (sl_endpoint s, sl_kind s = SelectionExactEndpoint)"

definition Selection_Validate :: "selection \<Rightarrow> failure option" where
  "Selection_Validate s =
     (if sl_kind s = SelectionAny then None
      else if sl_kind s = SelectionExactEndpoint then EndpointID_Validate (sl_endpoint s)
      else Some (Text ''pool: invalid endpoint selection'' []))"

end
