(* ===== verification/Pool_State.thy ===== *)
theory Pool_State
  imports Pool_Types
begin

text \<open>
  The state of a pool and its critical sections (\<^verbatim>\<open>src/pool/pool.go\<close>, \<^verbatim>\<open>src/pool/lease.go\<close>, \<^verbatim>\<open>src/pool/stats.go\<close>).

  A \<^verbatim>\<open>*pooledConnection\<close> is an address into \<open>pl_heap\<close>, an \<^verbatim>\<open>*endpointState\<close> an index into \<open>pl_order\<close>, which \<^verbatim>\<open>p.endpoints\<close> looks up by
  endpoint ID, a \<^verbatim>\<open>*Lease\<close> an index into \<open>pl_leases\<close>.  \<^verbatim>\<open>p.changed\<close>, closed and replaced on every signal, is a generation
  number; \<^verbatim>\<open>p.ctx\<close> is done exactly when \<^verbatim>\<open>p.closing\<close> is set.  Of the \<^verbatim>\<open>arden.Conn\<close> of a pooled connection the pool sees its endpoint
  and whether it is done (\<open>pc_done\<close>).  Times are integers, zero is the zero \<^verbatim>\<open>time.Time\<close>; clock readings are arguments.  The
  profile has the type the pool is instantiated with.

  One function models one critical section, from \<^verbatim>\<open>p.mu.Lock()\<close> to \<^verbatim>\<open>p.mu.Unlock()\<close>.
\<close>

section \<open>State\<close>

record pooled_connection =
  pc_endpoint :: nat
  pc_done :: bool
  pc_created :: int
  pc_lastIdle :: int
  pc_inFlight :: int
  pc_leased :: bool
  pc_draining :: bool
  pc_broken :: bool
  pc_retiring :: bool

record 'p endpoint_state =
  es_Endpoint :: endpoint
  es_ValidateProfile :: "('p \<Rightarrow> 'p \<Rightarrow> failure option) option"
  es_identity :: identity
  es_profile :: 'p
  es_policy :: connection_policy
  es_connections :: "nat list"
  es_dialing :: int
  es_waiters :: int
  es_failures :: u64
  es_backoff :: int
  es_nextDial :: int
  es_replacing :: bool

record lease =
  ls_connection :: nat
  ls_closed :: bool
  ls_inFlight :: int

record 'p pool =
  pl_options :: pool_options
  pl_closing :: bool
  pl_closed :: bool
  pl_waiters :: int
  pl_selectionSeq :: u64
  pl_changed :: nat
  pl_order :: "'p endpoint_state list"
  pl_heap :: "pooled_connection list"
  pl_leases :: "lease list"

definition upd_pc :: "nat \<Rightarrow> (pooled_connection \<Rightarrow> pooled_connection) \<Rightarrow> 'p pool \<Rightarrow> 'p pool" where
  "upd_pc a f p = p\<lparr>pl_heap := (pl_heap p)[a := f (pl_heap p ! a)]\<rparr>"

definition upd_ep :: "nat \<Rightarrow> ('p endpoint_state \<Rightarrow> 'p endpoint_state) \<Rightarrow> 'p pool \<Rightarrow> 'p pool" where
  "upd_ep e f p = p\<lparr>pl_order := (pl_order p)[e := f (pl_order p ! e)]\<rparr>"

definition upd_lease :: "nat \<Rightarrow> (lease \<Rightarrow> lease) \<Rightarrow> 'p pool \<Rightarrow> 'p pool" where
  "upd_lease l f p = p\<lparr>pl_leases := (pl_leases p)[l := f (pl_leases p ! l)]\<rparr>"

definition signalLocked :: "'p pool \<Rightarrow> 'p pool" where
  "signalLocked p = p\<lparr>pl_changed := pl_changed p + 1\<rparr>"

definition unregisterWaiterLocked :: "nat option \<Rightarrow> bool \<Rightarrow> 'p pool \<Rightarrow> 'p pool" where
  "unregisterWaiterLocked endpoint registered p =
     (if \<not> registered then p
      else let p1 = p\<lparr>pl_waiters := pl_waiters p - 1\<rparr> in
        case endpoint of None \<Rightarrow> p1 | Some e \<Rightarrow> upd_ep e (\<lambda>s. s\<lparr>es_waiters := es_waiters s - 1\<rparr>) p1)"

definition removeConnectionIfUnusedLocked :: "nat \<Rightarrow> nat \<Rightarrow> 'p pool \<Rightarrow> 'p pool" where
  "removeConnectionIfUnusedLocked e target p =
     (let t = pl_heap p ! target in
      if pc_inFlight t \<noteq> 0 \<or> pc_leased t \<or> (\<not> pc_broken t \<and> \<not> pc_retiring t) then p
      else upd_ep e (\<lambda>s. s\<lparr>es_connections := remove1 target (es_connections s)\<rparr>) p)"

definition removeEverywhere :: "nat \<Rightarrow> 'p pool \<Rightarrow> 'p pool" where
  "removeEverywhere target p = fold (\<lambda>e. removeConnectionIfUnusedLocked e target) [0..<length (pl_order p)] p"

section \<open>Selecting\<close>

definition selected_endpoints :: "nat option \<Rightarrow> 'p pool \<Rightarrow> nat list" where
  "selected_endpoints exact p = (case exact of None \<Rightarrow> [0..<length (pl_order p)] | Some e \<Rightarrow> [e])"

text \<open>One candidate in the loops of \<^verbatim>\<open>selectConnectionLocked\<close> and \<^verbatim>\<open>selectDialEndpointLocked\<close>: the least load so far and those who have it.\<close>

definition considerCandidate :: "int \<Rightarrow> 'a \<Rightarrow> int \<times> 'a list \<Rightarrow> int \<times> 'a list" where
  "considerCandidate load x acc =
     (let (minimum, candidates) = acc;
          (minimum', candidates') = (if load < minimum then (load, []) else (minimum, candidates))
      in (minimum', if load = minimum' then candidates' @ [x] else candidates'))"

definition pickCandidate :: "'a list \<Rightarrow> 'p pool \<Rightarrow> 'a option \<times> 'p pool" where
  "pickCandidate candidates p =
     (if candidates = [] then (None, p)
      else (Some (candidates ! (unat (pl_selectionSeq p) mod length candidates)),
            p\<lparr>pl_selectionSeq := pl_selectionSeq p + 1\<rparr>))"

definition selectConnectionStep :: "bool \<Rightarrow> 'p pool \<Rightarrow> nat \<Rightarrow> int \<times> nat list \<Rightarrow> int \<times> nat list" where
  "selectConnectionStep lease p a acc =
     (let c = pl_heap p ! a in
      if pc_broken c \<or> pc_draining c \<or> pc_leased c then acc
      else if lease then (if pc_inFlight c \<noteq> 0 then acc else considerCandidate (pc_inFlight c) a acc)
      else if pc_inFlight c \<ge> MaxInFlightPerConnection (pl_options p) then acc
      else considerCandidate (pc_inFlight c) a acc)"

definition selectConnectionLocked :: "nat option \<Rightarrow> bool \<Rightarrow> 'p pool \<Rightarrow> nat option \<times> 'p pool" where
  "selectConnectionLocked exact lease p =
     (let addresses = concat (map (\<lambda>e. es_connections (pl_order p ! e)) (selected_endpoints exact p));
          (minimum, candidates) = fold (selectConnectionStep lease p) addresses (MaxInFlightPerConnection (pl_options p) + 1, [])
      in pickCandidate candidates p)"

definition connection_live :: "pooled_connection \<Rightarrow> bool" where
  "connection_live c \<longleftrightarrow> \<not> pc_broken c \<and> \<not> pc_draining c"

definition live_count :: "'p pool \<Rightarrow> nat \<Rightarrow> int" where
  "live_count p e = int (length (filter (\<lambda>a. connection_live (pl_heap p ! a)) (es_connections (pl_order p ! e))))"

text \<open>The accumulator also carries \<^verbatim>\<open>earliest\<close>.\<close>

definition selectDialStep :: "int \<Rightarrow> 'p pool \<Rightarrow> nat \<Rightarrow> int \<times> (int \<times> nat list) \<Rightarrow> int \<times> (int \<times> nat list)" where
  "selectDialStep now p e acc =
     (let s = pl_order p ! e; (earliest, best) = acc; live = es_dialing s + live_count p e in
      if live \<ge> MaxConnectionsPerEndpoint (pl_options p) then acc
      else if es_nextDial s > now
      then (if earliest = 0 \<or> es_nextDial s < earliest then es_nextDial s else earliest, best)
      else (earliest, considerCandidate live e best))"

definition selectDialEndpointLocked :: "nat option \<Rightarrow> int \<Rightarrow> 'p pool \<Rightarrow> (nat option \<times> int) \<times> 'p pool" where
  "selectDialEndpointLocked exact now p =
     (let (earliest, minimum, candidates) =
            fold (selectDialStep now p) (selected_endpoints exact p) (0, (MaxConnectionsPerEndpoint (pl_options p) + 1, []));
          (selected, p') = pickCandidate candidates p
      in ((selected, if selected = None then earliest else 0), p'))"

section \<open>Dialing\<close>

record 'p setup_result =
  sr_Identity :: identity
  sr_Profile :: 'p
  sr_Policy :: connection_policy

definition freshConnection :: "nat \<Rightarrow> int \<Rightarrow> pooled_connection" where
  "freshConnection e now =
     \<lparr>pc_endpoint = e, pc_done = False, pc_created = now, pc_lastIdle = now, pc_inFlight = 0,
      pc_leased = False, pc_draining = False, pc_broken = False, pc_retiring = False\<rparr>"

text \<open>\<^verbatim>\<open>dialEndpoint\<close> on the result of \<^verbatim>\<open>setupEndpoint\<close>.\<close>

definition dialEndpoint ::
    "nat \<Rightarrow> 'p endpoint_state \<Rightarrow> int \<Rightarrow> failure + 'p setup_result \<Rightarrow> failure + pooled_connection" where
  "dialEndpoint e s now setup =
     (case setup of
        Inl err \<Rightarrow> Inl err
      | Inr r \<Rightarrow>
          let mismatch = (\<lambda>err. SetupError (ep_ID (es_Endpoint s)) SetupProfileMismatch err);
              fresh = freshConnection e now
          in if sr_Identity r \<noteq> es_identity s \<or> sr_Policy r \<noteq> es_policy s then Inl (mismatch (Sentinel ErrProfileMismatch))
             else case es_ValidateProfile s of
                 Some validate \<Rightarrow>
                   (case validate (es_profile s) (sr_Profile r) of
                      Some err \<Rightarrow> Inl (mismatch (ProfileMismatchError (Some err)))
                    | None \<Rightarrow> Inr fresh)
               | None \<Rightarrow>
                   if es_profile s \<noteq> sr_Profile r then Inl (mismatch (Sentinel ErrProfileMismatch)) else Inr fresh)"

text \<open>The product of an \<^verbatim>\<open>int64\<close> and two.\<close>

definition int64_double :: "int \<Rightarrow> int" where
  "int64_double n = (2 * n + 2 ^ 63) mod 2 ^ 64 - 2 ^ 63"

text \<open>The delay, the backoff with a random jitter, is an argument.\<close>

definition nextBackoff :: "pool_options \<Rightarrow> int \<Rightarrow> int" where
  "nextBackoff opt backoff =
     (if backoff = 0 then BackoffInitial opt
      else let b = int64_double backoff in if b > BackoffMaximum opt then BackoffMaximum opt else b)"

definition recordDialFailureLocked :: "nat \<Rightarrow> int \<Rightarrow> int \<Rightarrow> 'p pool \<Rightarrow> 'p pool" where
  "recordDialFailureLocked e now delay p =
     upd_ep e (\<lambda>s. s\<lparr>es_failures := es_failures s + 1, es_backoff := nextBackoff (pl_options p) (es_backoff s),
                     es_nextDial := now + delay\<rparr>) p"

section \<open>Acquiring\<close>

text \<open>One round of the loop of \<^verbatim>\<open>acquire\<close>: a connection, an endpoint to dial, a wait for a change or the given time, or an
  error; and whether the caller is registered as a waiter.\<close>

datatype acquire_round =
    Acquired nat
  | MustDial nat
  | MustWait int
  | AcquireFails failure

definition acquireRound :: "nat option \<Rightarrow> bool \<Rightarrow> bool \<Rightarrow> int \<Rightarrow> 'p pool \<Rightarrow> (acquire_round \<times> bool) \<times> 'p pool" where
  "acquireRound exact lease registered now p =
     (if pl_closing p then ((AcquireFails (Sentinel ErrClosed), False), unregisterWaiterLocked exact registered p)
      else case selectConnectionLocked exact lease p of
          (Some a, p1) \<Rightarrow>
            ((Acquired a, False),
             unregisterWaiterLocked exact registered
               (upd_pc a (\<lambda>c. if lease then c\<lparr>pc_leased := True\<rparr> else c\<lparr>pc_inFlight := pc_inFlight c + 1\<rparr>) p1))
        | (None, p1) \<Rightarrow>
            (case selectDialEndpointLocked exact now p1 of
               ((Some e, _), p2) \<Rightarrow>
                 ((MustDial e, registered), signalLocked (upd_ep e (\<lambda>s. s\<lparr>es_dialing := es_dialing s + 1\<rparr>) p2))
             | ((None, waitUntil), p2) \<Rightarrow>
                 if registered then ((MustWait waitUntil, True), p2)
                 else if pl_waiters p2 = MaxWaiters (pl_options p2)
                 then ((AcquireFails (Limit_Error ''pool waiters'' (pl_waiters p2 + 1) (MaxWaiters (pl_options p2))), False), p2)
                 else
                   let p3 = p2\<lparr>pl_waiters := pl_waiters p2 + 1\<rparr>
                   in ((MustWait waitUntil, True),
                       case exact of None \<Rightarrow> p3 | Some e \<Rightarrow> upd_ep e (\<lambda>s. s\<lparr>es_waiters := es_waiters s + 1\<rparr>) p3)))"

text \<open>The section after a dial, in \<^verbatim>\<open>acquire\<close> and in \<^verbatim>\<open>replace\<close>: the new connection, one that came too late, or the failure.
  A connection that came too late is not put on the heap here; the source marks it retiring and closes it.  It is never in circulation.\<close>

datatype dialed = DialAdded nat | DialTooLate | DialFailed failure

definition finishDial :: "nat \<Rightarrow> failure + pooled_connection \<Rightarrow> int \<Rightarrow> int \<Rightarrow> 'p pool \<Rightarrow> dialed \<times> 'p pool" where
  "finishDial e result now delay p =
     (let p1 = upd_ep e (\<lambda>s. s\<lparr>es_dialing := es_dialing s - 1\<rparr>) p in
      case result of
        Inl err \<Rightarrow> (DialFailed err, signalLocked (recordDialFailureLocked e now delay p1))
      | Inr c \<Rightarrow>
          if pl_closing p1 then (DialTooLate, signalLocked p1)
          else let a = length (pl_heap p1) in
            (DialAdded a,
             signalLocked (upd_ep e (\<lambda>s. s\<lparr>es_connections := es_connections s @ [a], es_backoff := 0, es_nextDial := 0\<rparr>)
                             (p1\<lparr>pl_heap := pl_heap p1 @ [c]\<rparr>))))"

text \<open>What \<^verbatim>\<open>acquire\<close> does after a failed dial: it returns an error, or goes on if it may use another endpoint.\<close>

definition afterFailedDial :: "failure option \<Rightarrow> nat option \<Rightarrow> failure \<Rightarrow> 'p pool \<Rightarrow> failure option" where
  "afterFailedDial ctx exact dialErr p =
     (case ctx of
        Some err \<Rightarrow> Some err
      | None \<Rightarrow>
          (case exact of
             Some e \<Rightarrow> Some (RouteError (ep_ID (es_Endpoint (pl_order p ! e))) dialErr)
           | None \<Rightarrow> None))"

section \<open>Replacing\<close>

definition endpointHasLiveConnectionLocked :: "nat \<Rightarrow> 'p pool \<Rightarrow> bool" where
  "endpointHasLiveConnectionLocked e p = list_ex (\<lambda>a. connection_live (pl_heap p ! a)) (es_connections (pl_order p ! e))"

definition startReplacement :: "nat \<Rightarrow> 'p pool \<Rightarrow> bool \<times> 'p pool" where
  "startReplacement e p =
     (if pl_closing p \<or> es_replacing (pl_order p ! e) \<or> endpointHasLiveConnectionLocked e p then (False, p)
      else (True, upd_ep e (\<lambda>s. s\<lparr>es_replacing := True\<rparr>) p))"

datatype replace_round = ReplaceStops | ReplaceDials | ReplaceWaits int

definition replaceRound :: "nat \<Rightarrow> int \<Rightarrow> 'p pool \<Rightarrow> replace_round \<times> 'p pool" where
  "replaceRound e now p =
     (if pl_closing p \<or> endpointHasLiveConnectionLocked e p then (ReplaceStops, p)
      else let wait = es_nextDial (pl_order p ! e) - now in
        if wait \<le> 0 then (ReplaceDials, signalLocked (upd_ep e (\<lambda>s. s\<lparr>es_dialing := es_dialing s + 1\<rparr>) p))
        else (ReplaceWaits wait, p))"

text \<open>The deferred section of \<^verbatim>\<open>replace\<close>.\<close>

definition replaceDone :: "nat \<Rightarrow> 'p pool \<Rightarrow> 'p pool" where
  "replaceDone e p = signalLocked (upd_ep e (\<lambda>s. s\<lparr>es_replacing := False\<rparr>) p)"

text \<open>The section of \<^verbatim>\<open>watchConnection\<close> once the connection is done: the endpoint is replaced unless the end was intended.\<close>

definition watchConnection :: "nat \<Rightarrow> nat \<Rightarrow> 'p pool \<Rightarrow> bool \<times> 'p pool" where
  "watchConnection e a p =
     (let p1 = upd_pc a (\<lambda>c. c\<lparr>pc_broken := True, pc_leased := False\<rparr>) p;
          p2 = signalLocked (removeConnectionIfUnusedLocked e a p1)
      in (\<not> (pl_closing p2 \<or> pc_retiring (pl_heap p2 ! a)), p2))"

section \<open>Releasing\<close>

text \<open>The result tells whether the connection is to be closed.\<close>

definition releaseOperation :: "nat \<Rightarrow> int \<Rightarrow> 'p pool \<Rightarrow> bool \<times> 'p pool" where
  "releaseOperation a now p =
     (let p1 = upd_pc a (\<lambda>c. if pc_inFlight c > 0 then c\<lparr>pc_inFlight := pc_inFlight c - 1\<rparr> else c) p;
          c1 = pl_heap p1 ! a;
          idle = (pc_inFlight c1 = 0);
          close = (idle \<and> pc_draining c1 \<and> \<not> pc_leased c1);
          p2 = (if idle then upd_pc a (\<lambda>c. c\<lparr>pc_lastIdle := now\<rparr>) p1 else p1);
          p3 = (if close then upd_pc a (\<lambda>c. c\<lparr>pc_retiring := True\<rparr>) p2 else p2)
      in (close, signalLocked (removeEverywhere a p3)))"

section \<open>Leases\<close>

text \<open>One round of the loop of \<^verbatim>\<open>acquireOperation\<close>.\<close>

datatype lease_round = LeaseAcquired | LeaseMustWait | LeaseFails failure

definition acquireOperation :: "nat \<Rightarrow> bool \<Rightarrow> 'p pool \<Rightarrow> (lease_round \<times> bool) \<times> 'p pool" where
  "acquireOperation l registered p =
     (let ls = pl_leases p ! l; a = ls_connection ls; c = pl_heap p ! a in
      if ls_closed ls \<or> pl_closing p
      then ((LeaseFails (Sentinel ErrClosed), False), unregisterWaiterLocked None registered p)
      else if pc_broken c \<or> pc_done c
      then ((LeaseFails (RouteError (ep_ID (es_Endpoint (pl_order p ! pc_endpoint c))) (Sentinel ErrEndpointUnavailable)), False),
            unregisterWaiterLocked None registered p)
      else if ls_inFlight ls < MaxInFlightPerConnection (pl_options p)
      then ((LeaseAcquired, False),
            signalLocked (unregisterWaiterLocked None registered
              (upd_pc a (\<lambda>c. c\<lparr>pc_inFlight := pc_inFlight c + 1\<rparr>)
                (upd_lease l (\<lambda>s. s\<lparr>ls_inFlight := ls_inFlight s + 1\<rparr>) p))))
      else if registered then ((LeaseMustWait, True), p)
      else if pl_waiters p = MaxWaiters (pl_options p)
      then ((LeaseFails (Limit_Error ''pool waiters'' (pl_waiters p + 1) (MaxWaiters (pl_options p))), False), p)
      else ((LeaseMustWait, True), p\<lparr>pl_waiters := pl_waiters p + 1\<rparr>))"

definition releaseLeaseOperation :: "nat \<Rightarrow> int \<Rightarrow> 'p pool \<Rightarrow> bool \<times> 'p pool" where
  "releaseLeaseOperation l now p =
     (let ls = pl_leases p ! l; a = ls_connection ls;
          p0 = upd_lease l (\<lambda>s. if ls_inFlight s > 0 then s\<lparr>ls_inFlight := ls_inFlight s - 1\<rparr> else s) p;
          p1 = upd_pc a (\<lambda>c. if pc_inFlight c > 0 then c\<lparr>pc_inFlight := pc_inFlight c - 1\<rparr> else c) p0;
          idle = (pc_inFlight (pl_heap p1 ! a) = 0);
          p2 = (if idle then upd_pc a (\<lambda>c. c\<lparr>pc_lastIdle := now, pc_leased := pc_leased c \<and> \<not> ls_closed ls\<rparr>) p1 else p1);
          c2 = pl_heap p2 ! a;
          close = (idle \<and> pc_draining c2 \<and> \<not> pc_leased c2);
          p3 = (if close then upd_pc a (\<lambda>c. c\<lparr>pc_retiring := True\<rparr>) p2 else p2)
      in (close, signalLocked (removeEverywhere a p3)))"

text \<open>The body of \<^verbatim>\<open>Close\<close>, which \<^verbatim>\<open>l.once\<close> runs at most once.\<close>

definition Lease_Close :: "nat \<Rightarrow> int \<Rightarrow> 'p pool \<Rightarrow> bool \<times> 'p pool" where
  "Lease_Close l now p =
     (let ls = pl_leases p ! l; a = ls_connection ls;
          p1 = upd_lease l (\<lambda>s. s\<lparr>ls_closed := True\<rparr>) p;
          free = (ls_inFlight ls = 0);
          p2 = (if free then upd_pc a (\<lambda>c. c\<lparr>pc_leased := False, pc_lastIdle := now\<rparr>) p1 else p1);
          close = (free \<and> pc_draining (pl_heap p2 ! a));
          p3 = (if close then upd_pc a (\<lambda>c. c\<lparr>pc_retiring := True\<rparr>) p2 else p2)
      in (close, signalLocked (removeEverywhere a p3)))"

section \<open>Maintenance\<close>

text \<open>The inner loop of \<^verbatim>\<open>retireExpired\<close> for one connection; the accumulator holds the live connections of the endpoint, those to
  close and whether to replace the endpoint.\<close>

definition retireStep :: "int \<Rightarrow> nat \<Rightarrow> int \<times> nat list \<times> bool \<times> 'p pool \<Rightarrow> int \<times> nat list \<times> bool \<times> 'p pool" where
  "retireStep now a acc =
     (let (live, closes, replace, p) = acc; c = pl_heap p ! a in
      if pc_broken c \<or> pc_draining c \<or> pc_leased c then acc
      else
        let expired = (now - pc_created c \<ge> MaximumLifetime (pl_options p));
            idle = (pc_inFlight c = 0 \<and> live > 1 \<and> now - pc_lastIdle c \<ge> IdleLifetime (pl_options p))
        in if \<not> expired \<and> \<not> idle then acc
           else
             let live' = live - 1;
                 p' = upd_pc a (\<lambda>c. c\<lparr>pc_draining := True, pc_retiring := pc_retiring c \<or> pc_inFlight c = 0\<rparr>) p
             in (live', if pc_inFlight c = 0 then closes @ [a] else closes, replace \<or> expired \<and> live' = 0, p'))"

definition retireEndpoint :: "int \<Rightarrow> nat \<Rightarrow> nat list \<times> nat list \<times> 'p pool \<Rightarrow> nat list \<times> nat list \<times> 'p pool" where
  "retireEndpoint now e acc =
     (let (closes, replaces, p) = acc;
          (live, closes', replace, p') = fold (retireStep now) (es_connections (pl_order p ! e)) (live_count p e, closes, False, p)
      in (closes', if replace then replaces @ [e] else replaces, p'))"

definition retireExpired :: "int \<Rightarrow> 'p pool \<Rightarrow> nat list \<times> nat list \<times> 'p pool" where
  "retireExpired now p =
     (if pl_closing p then ([], [], p)
      else let (closes, replaces, p') = fold (retireEndpoint now) [0..<length (pl_order p)] ([], [], p)
        in (closes, replaces, signalLocked p'))"

section \<open>Closing\<close>

definition PoolClose_begin :: "'p pool \<Rightarrow> bool \<times> 'p pool" where
  "PoolClose_begin p =
     (if pl_closed p then (False, p)
      else (True, if pl_closing p then p else signalLocked (p\<lparr>pl_closing := True\<rparr>)))"

definition active_work :: "'p pool \<Rightarrow> int" where
  "active_work p =
     sum_list (map (\<lambda>s. sum_list (map (\<lambda>a. pc_inFlight (pl_heap p ! a) + (if pc_leased (pl_heap p ! a) then 1 else 0))
                                      (es_connections s))) (pl_order p))"

definition PoolClose_all :: "'p pool \<Rightarrow> nat list \<times> 'p pool" where
  "PoolClose_all p =
     (let addresses = concat (map es_connections (pl_order p))
      in (addresses, fold (\<lambda>a. upd_pc a (\<lambda>c. c\<lparr>pc_retiring := True\<rparr>)) addresses p))"

definition PoolClose_end :: "'p pool \<Rightarrow> 'p pool" where
  "PoolClose_end p = signalLocked (p\<lparr>pl_closed := True\<rparr>)"

section \<open>Errors of routed operations\<close>

definition routeFailure :: "failure \<Rightarrow> bool" where
  "routeFailure err \<longleftrightarrow> errors_Is err ErrTransport \<or> errors_Is err ErrProtocol \<or> errors_Is err ErrNoticeOfDisconnection
     \<or> errors_Is err ErrClosed"

text \<open>The error of \<^verbatim>\<open>Do\<close> and of \<^verbatim>\<open>trackedStream.Next\<close>; the endpoint is empty unless it was selected exactly.\<close>

definition routedError :: "string \<Rightarrow> failure \<Rightarrow> failure" where
  "routedError routed err = (if routed \<noteq> [] \<and> routeFailure err then RouteError routed err else err)"

section \<open>Construction and entry points\<close>

record 'p endpoint_config =
  ec_Endpoint :: endpoint
  ec_ValidateProfile :: "('p \<Rightarrow> 'p \<Rightarrow> failure option) option"

definition findEndpoint :: "string \<Rightarrow> 'p pool \<Rightarrow> nat option" where
  "findEndpoint eid p = find (\<lambda>e. ep_ID (es_Endpoint (pl_order p ! e)) = eid) [0..<length (pl_order p)]"

definition newEndpointState :: "'p endpoint_config \<Rightarrow> 'p setup_result \<Rightarrow> nat \<Rightarrow> 'p endpoint_state" where
  "newEndpointState config r a =
     \<lparr>es_Endpoint = ec_Endpoint config, es_ValidateProfile = ec_ValidateProfile config, es_identity = sr_Identity r,
      es_profile = sr_Profile r, es_policy = sr_Policy r, es_connections = [a], es_dialing = 0, es_waiters = 0,
      es_failures = 0, es_backoff = 0, es_nextDial = 0, es_replacing = False\<rparr>"

text \<open>The loop of \<^verbatim>\<open>New\<close> over the configurations, each with the result of its \<^verbatim>\<open>setupEndpoint\<close>.  On an error the caller closes the
  connections made so far and drops the pool.\<close>

fun newPoolLoop :: "('p endpoint_config \<times> (failure + 'p setup_result)) list \<Rightarrow> int \<Rightarrow> 'p pool \<Rightarrow> failure + 'p pool" where
  "newPoolLoop [] now p = Inr p"
| "newPoolLoop ((config, setup) # rest) now p =
     (case Endpoint_Validate (ec_Endpoint config) of
        Some err \<Rightarrow> Inl err
      | None \<Rightarrow>
          if findEndpoint (ep_ID (ec_Endpoint config)) p \<noteq> None then Inl (Text ''pool: duplicate endpoint ID'' [])
          else case setup of
              Inl err \<Rightarrow> Inl (RouteError (ep_ID (ec_Endpoint config)) err)
            | Inr r \<Rightarrow>
                newPoolLoop rest now
                  (p\<lparr>pl_order := pl_order p @ [newEndpointState config r (length (pl_heap p))],
                     pl_heap := pl_heap p @ [freshConnection (length (pl_order p)) now]\<rparr>))"

definition newPool ::
    "bool \<Rightarrow> ('p endpoint_config \<times> (failure + 'p setup_result)) list \<Rightarrow> pool_options \<Rightarrow> int \<Rightarrow> failure + 'p pool" where
  "newPool ctx endpoints opt now =
     (if \<not> ctx then Inl (Text ''pool: nil construction context'' [])
      else if endpoints = [] then Inl (Text ''pool: no endpoints configured'' [])
      else case Options_normalized opt of
          Inl err \<Rightarrow> Inl err
        | Inr opt' \<Rightarrow>
            newPoolLoop endpoints now
              \<lparr>pl_options = opt', pl_closing = False, pl_closed = False, pl_waiters = 0, pl_selectionSeq = 0, pl_changed = 0,
               pl_order = [], pl_heap = [], pl_leases = []\<rparr>)"

text \<open>What precedes the loop of \<^verbatim>\<open>acquire\<close>: the endpoint if one is selected exactly.\<close>

definition acquire_begin :: "bool \<Rightarrow> selection \<Rightarrow> 'p pool \<Rightarrow> failure + nat option" where
  "acquire_begin ctx sel p =
     (if \<not> ctx then Inl (Text ''pool: nil acquisition context'' [])
      else case Selection_Validate sel of
          Some err \<Rightarrow> Inl err
        | None \<Rightarrow>
            let (eid, isExact) = Selection_EndpointID sel in
            if \<not> isExact then Inr None
            else case findEndpoint eid p of
                None \<Rightarrow> Inl (RouteError eid (Sentinel ErrEndpointUnavailable))
              | Some e \<Rightarrow> Inr (Some e))"

text \<open>\<^verbatim>\<open>Lease\<close> once it has a connection.\<close>

definition newLease :: "nat \<Rightarrow> 'p pool \<Rightarrow> nat \<times> 'p pool" where
  "newLease a p =
     (length (pl_leases p), p\<lparr>pl_leases := pl_leases p @ [\<lparr>ls_connection = a, ls_closed = False, ls_inFlight = 0\<rparr>]\<rparr>)"

section \<open>Statistics\<close>

record endpoint_stats =
  et_Endpoint :: string
  et_Address :: string
  et_Healthy :: bool
  et_Connections :: int
  et_InFlight :: int
  et_Leases :: int
  et_Dialing :: int
  et_Waiters :: int
  et_Failures :: u64

record pool_stats =
  st_Connections :: int
  st_InFlight :: int
  st_Waiters :: int
  st_Dialing :: int
  st_Closing :: bool
  st_Endpoints :: "endpoint_stats list"

record connection_stats =
  cs_Endpoint :: string
  cs_InFlight :: int
  cs_Leased :: bool
  cs_Draining :: bool
  cs_Age :: int
  cs_IdleFor :: int

definition unbroken :: "'p pool \<Rightarrow> 'p endpoint_state \<Rightarrow> pooled_connection list" where
  "unbroken p s = filter (\<lambda>c. \<not> pc_broken c) (map (\<lambda>a. pl_heap p ! a) (es_connections s))"

definition endpointStats :: "'p pool \<Rightarrow> 'p endpoint_state \<Rightarrow> endpoint_stats" where
  "endpointStats p s =
     (let cs = unbroken p s in
      \<lparr>et_Endpoint = ep_ID (es_Endpoint s), et_Address = ep_Address (es_Endpoint s), et_Healthy = (cs \<noteq> []),
       et_Connections = int (length cs), et_InFlight = sum_list (map pc_inFlight cs),
       et_Leases = int (length (filter pc_leased cs)), et_Dialing = es_dialing s, et_Waiters = es_waiters s,
       et_Failures = es_failures s\<rparr>)"

definition Pool_Stats :: "'p pool \<Rightarrow> pool_stats" where
  "Pool_Stats p =
     (let es = map (endpointStats p) (pl_order p) in
      \<lparr>st_Connections = sum_list (map et_Connections es), st_InFlight = sum_list (map et_InFlight es),
       st_Waiters = pl_waiters p, st_Dialing = sum_list (map et_Dialing es), st_Closing = pl_closing p, st_Endpoints = es\<rparr>)"

definition ConnectionStats :: "int \<Rightarrow> 'p pool \<Rightarrow> connection_stats list" where
  "ConnectionStats now p =
     concat (map (\<lambda>s. map (\<lambda>c. \<lparr>cs_Endpoint = ep_ID (es_Endpoint s), cs_InFlight = pc_inFlight c, cs_Leased = pc_leased c,
                              cs_Draining = pc_draining c, cs_Age = now - pc_created c, cs_IdleFor = now - pc_lastIdle c\<rparr>)
                       (unbroken p s)) (pl_order p))"

end
