(* ===== verification/Pool_Select.thy ===== *)
theory Pool_Select
  imports Pool_State
begin

text \<open>
  Selection in a pool: the connection chosen is usable and has the least load of all usable ones, and none is chosen only if
  there is none.  The same for the endpoint to dial.
\<close>

section \<open>The least loaded candidates\<close>

lemma fold_consider:
  assumes "\<forall>x \<in> set cs. load x = m" "cs \<noteq> [] \<or> (\<forall>x \<in> set xs. load x < m)"
  shows "\<exists>m' cs'. fold (\<lambda>x. considerCandidate (load x) x) xs (m, cs) = (m', cs')
    \<and> (\<forall>x \<in> set cs'. load x = m' \<and> x \<in> set (cs @ xs)) \<and> (\<forall>x \<in> set (cs @ xs). m' \<le> load x) \<and> (cs' = [] \<longrightarrow> cs @ xs = [])"
  using assms
proof (induction xs arbitrary: m cs)
  case (Cons x xs)
  show ?case
  proof (cases "load x < m")
    case True
    then have step: "considerCandidate (load x) x (m, cs) = (load x, [x])" by (simp add: considerCandidate_def)
    obtain m' cs' where f: "fold (\<lambda>x. considerCandidate (load x) x) xs (load x, [x]) = (m', cs')"
      "\<forall>y \<in> set cs'. load y = m' \<and> y \<in> set ([x] @ xs)" "\<forall>y \<in> set ([x] @ xs). m' \<le> load y" "cs' = [] \<longrightarrow> [x] @ xs = []"
      using Cons.IH [of "[x]" "load x"] by auto
    have "\<forall>y \<in> set cs. m' \<le> load y" using f(3) True Cons.prems(1) by fastforce
    then show ?thesis using step f by (intro exI [of _ m'] exI [of _ cs']) auto
  next
    case False
    then have ne: "cs \<noteq> []" using Cons.prems(2) by auto
    define ds where "ds = (if load x = m then cs @ [x] else cs)"
    have step: "considerCandidate (load x) x (m, cs) = (m, ds)" using False by (simp add: considerCandidate_def ds_def)
    have ds: "\<forall>y \<in> set ds. load y = m" "ds \<noteq> []" using Cons.prems(1) ne by (auto simp: ds_def)
    obtain m' cs' where f: "fold (\<lambda>x. considerCandidate (load x) x) xs (m, ds) = (m', cs')"
      "\<forall>y \<in> set cs'. load y = m' \<and> y \<in> set (ds @ xs)" "\<forall>y \<in> set (ds @ xs). m' \<le> load y" "cs' = [] \<longrightarrow> ds @ xs = []"
      using Cons.IH [of ds m] ds by blast
    have "hd ds \<in> set ds" using ds(2) by simp
    then have "m' \<le> m" using f(3) ds(1) by fastforce
    then have "m' \<le> load x" "\<forall>y \<in> set cs. m' \<le> load y" using False Cons.prems(1) by auto
    moreover have "set ds \<subseteq> set (cs @ x # xs)" by (auto simp: ds_def)
    ultimately show ?thesis
      using step f ds(2) by (intro exI [of _ m'] exI [of _ cs']) auto
  qed
qed auto

lemma least_loaded:
  assumes "\<forall>x \<in> set xs. load x < m"
  obtains m' cs where "fold (\<lambda>x. considerCandidate (load x) x) xs (m, []) = (m', cs)"
    "\<forall>x \<in> set cs. x \<in> set xs \<and> (\<forall>y \<in> set xs. load x \<le> load y)" "cs = [] \<longleftrightarrow> xs = []"
  using fold_consider [of "[]" load m xs] assms by fastforce

lemma pickCandidate_cases:
  assumes "pickCandidate cs p = (res, p')"
  shows "(cs = [] \<and> res = None \<and> p' = p)
    \<or> (\<exists>x \<in> set cs. res = Some x \<and> p' = p\<lparr>pl_selectionSeq := pl_selectionSeq p + 1\<rparr>)"
  using assms by (auto simp: pickCandidate_def split: if_splits intro: nth_mem)

section \<open>Connections\<close>

definition usable :: "bool \<Rightarrow> 'p pool \<Rightarrow> nat \<Rightarrow> bool" where
  "usable lease p a \<longleftrightarrow> (let c = pl_heap p ! a in
     \<not> pc_broken c \<and> \<not> pc_draining c \<and> \<not> pc_leased c
     \<and> (if lease then pc_inFlight c = 0 else pc_inFlight c < MaxInFlightPerConnection (pl_options p)))"

definition in_circulation :: "nat option \<Rightarrow> 'p pool \<Rightarrow> nat \<Rightarrow> bool" where
  "in_circulation exact p a \<longleftrightarrow> (\<exists>e \<in> set (selected_endpoints exact p). a \<in> set (es_connections (pl_order p ! e)))"

lemma selectConnectionStep_eq:
  "selectConnectionStep lease p a = (if usable lease p a then considerCandidate (pc_inFlight (pl_heap p ! a)) a else id)"
  by (rule ext) (auto simp: selectConnectionStep_def usable_def Let_def)

lemma selectConnectionLocked_spec:
  assumes "selectConnectionLocked exact lease p = (res, p')" "0 < MaxInFlightPerConnection (pl_options p)"
  shows "case res of
      Some a \<Rightarrow> in_circulation exact p a \<and> usable lease p a \<and> p' = p\<lparr>pl_selectionSeq := pl_selectionSeq p + 1\<rparr>
        \<and> (\<forall>b. in_circulation exact p b \<longrightarrow> usable lease p b \<longrightarrow> pc_inFlight (pl_heap p ! a) \<le> pc_inFlight (pl_heap p ! b))
    | None \<Rightarrow> p' = p \<and> (\<forall>b. in_circulation exact p b \<longrightarrow> \<not> usable lease p b)"
proof -
  let ?all = "concat (map (\<lambda>e. es_connections (pl_order p ! e)) (selected_endpoints exact p))"
  let ?xs = "filter (usable lease p) ?all" and ?load = "\<lambda>a. pc_inFlight (pl_heap p ! a)"
  have set: "set ?xs = {a. in_circulation exact p a \<and> usable lease p a}" by (auto simp: in_circulation_def)
  have "\<forall>x \<in> set ?xs. ?load x < MaxInFlightPerConnection (pl_options p) + 1"
    using assms(2) by (auto simp: usable_def Let_def split: if_splits)
  then obtain m' cs where f: "fold (\<lambda>x. considerCandidate (?load x) x) ?xs (MaxInFlightPerConnection (pl_options p) + 1, []) = (m', cs)"
    "\<forall>x \<in> set cs. x \<in> set ?xs \<and> (\<forall>y \<in> set ?xs. ?load x \<le> ?load y)" "cs = [] \<longleftrightarrow> ?xs = []"
    by (rule least_loaded)
  have "selectConnectionStep lease p = (\<lambda>a. if usable lease p a then considerCandidate (?load a) a else id)"
    by (rule ext) (simp add: selectConnectionStep_eq)
  then have "pickCandidate cs p = (res, p')"
    using assms(1) f(1) by (simp add: selectConnectionLocked_def fold_filter)
  from pickCandidate_cases [OF this] show ?thesis
  proof
    assume "cs = [] \<and> res = None \<and> p' = p"
    then show ?thesis using f(3) set by (auto simp: filter_empty_conv)
  next
    assume "\<exists>x \<in> set cs. res = Some x \<and> p' = p\<lparr>pl_selectionSeq := pl_selectionSeq p + 1\<rparr>"
    then show ?thesis using f(2) unfolding set by auto
  qed
qed

section \<open>Endpoints to dial\<close>

definition dialable :: "int \<Rightarrow> 'p pool \<Rightarrow> nat \<Rightarrow> bool" where
  "dialable now p e \<longleftrightarrow>
     es_dialing (pl_order p ! e) + live_count p e < MaxConnectionsPerEndpoint (pl_options p) \<and> es_nextDial (pl_order p ! e) \<le> now"

lemma snd_selectDialStep:
  "snd (selectDialStep now p e acc) =
     (if dialable now p e then considerCandidate (es_dialing (pl_order p ! e) + live_count p e) e (snd acc) else snd acc)"
  by (auto simp: selectDialStep_def dialable_def Let_def split: prod.splits)

lemma snd_fold_selectDial:
  "snd (fold (selectDialStep now p) es acc) =
     fold (\<lambda>e. considerCandidate (es_dialing (pl_order p ! e) + live_count p e) e) (filter (dialable now p) es) (snd acc)"
  by (induction es arbitrary: acc) (simp_all add: snd_selectDialStep)

lemma selectDialEndpointLocked_spec:
  assumes "selectDialEndpointLocked exact now p = ((res, till), p')"
  shows "case res of
      Some e \<Rightarrow> e \<in> set (selected_endpoints exact p) \<and> dialable now p e \<and> p' = p\<lparr>pl_selectionSeq := pl_selectionSeq p + 1\<rparr>
        \<and> (\<forall>d \<in> set (selected_endpoints exact p). dialable now p d \<longrightarrow>
             es_dialing (pl_order p ! e) + live_count p e \<le> es_dialing (pl_order p ! d) + live_count p d)
    | None \<Rightarrow> p' = p \<and> (\<forall>d \<in> set (selected_endpoints exact p). \<not> dialable now p d)"
proof -
  let ?es = "selected_endpoints exact p" and ?load = "\<lambda>e. es_dialing (pl_order p ! e) + live_count p e"
  let ?m = "MaxConnectionsPerEndpoint (pl_options p) + 1"
  have "\<forall>e \<in> set (filter (dialable now p) ?es). ?load e < ?m" by (auto simp: dialable_def)
  then obtain m' cs where f: "fold (\<lambda>e. considerCandidate (?load e) e) (filter (dialable now p) ?es) (?m, []) = (m', cs)"
    "\<forall>x \<in> set cs. x \<in> set (filter (dialable now p) ?es) \<and> (\<forall>y \<in> set (filter (dialable now p) ?es). ?load x \<le> ?load y)"
    "cs = [] \<longleftrightarrow> filter (dialable now p) ?es = []"
    by (rule least_loaded)
  obtain earliest where "fold (selectDialStep now p) ?es (0, (?m, [])) = (earliest, m', cs)"
    using snd_fold_selectDial [of now p ?es "(0, (?m, []))"] f(1) by (metis snd_conv surj_pair)
  then have "pickCandidate cs p = (res, p')"
    using assms by (auto simp: selectDialEndpointLocked_def split: prod.splits)
  from pickCandidate_cases [OF this] show ?thesis
  proof
    assume "cs = [] \<and> res = None \<and> p' = p"
    then show ?thesis using f(3) by (auto simp: filter_empty_conv)
  next
    assume "\<exists>x \<in> set cs. res = Some x \<and> p' = p\<lparr>pl_selectionSeq := pl_selectionSeq p + 1\<rparr>"
    then show ?thesis using f(2) by auto
  qed
qed

end
