(* ===== verification/Pool_Machine.thy ===== *)
theory Pool_Machine
  imports Pool_Select Transition "HOL-Library.Multiset"
begin

text \<open>
  The goroutines of a pool and its callers as one transition system, in the manner of \<open>Conn_Machine\<close>: a state is the pool and the
  multiset of the activities in progress, a step is one critical section or one receive from a channel.  The environment
  chooses the callers, what a dial returns, when connections break, and the readings of the clock, which are not before the zero
  time.  A replacer that waits for its timer, a drain that waits for a change and a maintenance goroutine between two ticks are no
  steps of their own: they look again, and nothing has changed in between that the step itself does not read.
\<close>

section \<open>Activities\<close>

text \<open>A call of \<^verbatim>\<open>acquire\<close> has an exact endpoint or none, wants a lease or not, and is registered as a waiter or not.\<close>

datatype pool_activity =
    Acquiring "nat option" bool bool
  | AcquireWaits "nat option" bool nat int
  | AcquireDials "nat option" bool bool nat
  | InUse nat
  | LeaseAcquiring nat bool
  | LeaseWaits nat nat
  | LeaseInUse nat
  | WatchingConn nat
  | StartsReplacement nat "(nat option \<times> bool \<times> bool) option"
  | Replaces nat
  | ReplaceDialing nat
  | ReplaceEnds nat
  | ClosesConn nat
  | PoolDrains
  | PoolAwaits

type_synonym 'p pool_machine = "'p pool \<times> pool_activity multiset"

text \<open>The call of \<^verbatim>\<open>acquire\<close> that goes on after it has started a replacement.\<close>

definition continueAcquire :: "(nat option \<times> bool \<times> bool) option \<Rightarrow> pool_activity multiset" where
  "continueAcquire k = (case k of None \<Rightarrow> {#} | Some (exact, lease, registered) \<Rightarrow> {#Acquiring exact lease registered#})"

definition closeTask :: "bool \<Rightarrow> nat \<Rightarrow> pool_activity multiset" where
  "closeTask close a = (if close then {#ClosesConn a#} else {#})"

text \<open>The members of \<^verbatim>\<open>p.wg\<close>.\<close>

fun in_group :: "pool_activity \<Rightarrow> bool" where
  "in_group (WatchingConn a) = True"
| "in_group (Replaces e) = True"
| "in_group (ReplaceDialing e) = True"
| "in_group (ReplaceEnds e) = True"
| "in_group t = False"

section \<open>Steps\<close>

inductive pool_step :: "'p pool_machine \<Rightarrow> 'p pool_machine \<Rightarrow> bool" where
  acquire_starts: "acquire_begin True sel p = Inr exact \<Longrightarrow> pool_step (p, T) (p, add_mset (Acquiring exact lease False) T)"
| acquire_got: "acquireRound exact False registered now p = ((Acquired a, registered'), p') \<Longrightarrow>
    pool_step (p, add_mset (Acquiring exact False registered) T) (p', add_mset (InUse a) T)"
| acquire_lease: "acquireRound exact True registered now p = ((Acquired a, registered'), p1) \<Longrightarrow> newLease a p1 = (l, p') \<Longrightarrow>
    pool_step (p, add_mset (Acquiring exact True registered) T) (p', T)"
| acquire_dials: "acquireRound exact lease registered now p = ((MustDial e, registered'), p') \<Longrightarrow>
    pool_step (p, add_mset (Acquiring exact lease registered) T) (p', add_mset (AcquireDials exact lease registered' e) T)"
| acquire_waits: "0 \<le> now \<Longrightarrow> acquireRound exact lease registered now p = ((MustWait till, registered'), p') \<Longrightarrow>
    pool_step (p, add_mset (Acquiring exact lease registered) T) (p', add_mset (AcquireWaits exact lease (pl_changed p') till) T)"
| acquire_fails: "acquireRound exact lease registered now p = ((AcquireFails err, registered'), p') \<Longrightarrow>
    pool_step (p, add_mset (Acquiring exact lease registered) T) (p', T)"
| acquire_wakes: "g \<noteq> pl_changed p \<or> till \<noteq> 0 \<Longrightarrow>
    pool_step (p, add_mset (AcquireWaits exact lease g till) T) (p, add_mset (Acquiring exact lease True) T)"
| acquire_canceled: "pool_step (p, add_mset (AcquireWaits exact lease g till) T) (unregisterWaiterLocked exact True p, T)"
| acquire_dialed: "finishDial e (dialEndpoint e (pl_order p ! e) now setup) now delay p = (DialAdded a, p') \<Longrightarrow>
    pool_step (p, add_mset (AcquireDials exact lease registered e) T)
      (p', add_mset (Acquiring exact lease registered) (add_mset (WatchingConn a) T))"
| acquire_dialed_late: "finishDial e (dialEndpoint e (pl_order p ! e) now setup) now delay p = (DialTooLate, p') \<Longrightarrow>
    pool_step (p, add_mset (AcquireDials exact lease registered e) T) (p', T)"
| acquire_dial_failed: "finishDial e (dialEndpoint e (pl_order p ! e) now setup) now delay p = (DialFailed err, p') \<Longrightarrow>
    k = (if afterFailedDial ctx exact err p' = None then Some (exact, lease, registered) else None) \<Longrightarrow>
    pool_step (p, add_mset (AcquireDials exact lease registered e) T) (p', add_mset (StartsReplacement e k) T)"
| operation_ends: "releaseOperation a now p = (close, p') \<Longrightarrow>
    pool_step (p, add_mset (InUse a) T) (p', closeTask close a + T)"
| lease_operation: "l < length (pl_leases p) \<Longrightarrow> pool_step (p, T) (p, add_mset (LeaseAcquiring l False) T)"
| lease_got: "acquireOperation l registered p = ((LeaseAcquired, registered'), p') \<Longrightarrow>
    pool_step (p, add_mset (LeaseAcquiring l registered) T) (p', add_mset (LeaseInUse l) T)"
| lease_waits: "acquireOperation l registered p = ((LeaseMustWait, registered'), p') \<Longrightarrow>
    pool_step (p, add_mset (LeaseAcquiring l registered) T) (p', add_mset (LeaseWaits l (pl_changed p')) T)"
| lease_fails: "acquireOperation l registered p = ((LeaseFails err, registered'), p') \<Longrightarrow>
    pool_step (p, add_mset (LeaseAcquiring l registered) T) (p', T)"
| lease_wakes: "g \<noteq> pl_changed p \<or> pc_done (pl_heap p ! ls_connection (pl_leases p ! l)) \<Longrightarrow>
    pool_step (p, add_mset (LeaseWaits l g) T) (p, add_mset (LeaseAcquiring l True) T)"
| lease_canceled: "pool_step (p, add_mset (LeaseWaits l g) T) (unregisterWaiterLocked None True p, T)"
| lease_operation_ends: "releaseLeaseOperation l now p = (close, p') \<Longrightarrow>
    pool_step (p, add_mset (LeaseInUse l) T) (p', closeTask close (ls_connection (pl_leases p ! l)) + T)"
| lease_close: "l < length (pl_leases p) \<Longrightarrow> \<not> ls_closed (pl_leases p ! l) \<Longrightarrow> Lease_Close l now p = (close, p') \<Longrightarrow>
    pool_step (p, T) (p', closeTask close (ls_connection (pl_leases p ! l)) + T)"
| conn_breaks: "a < length (pl_heap p) \<Longrightarrow> pool_step (p, T) (upd_pc a (\<lambda>c. c\<lparr>pc_done := True\<rparr>) p, T)"
| conn_closes: "pool_step (p, add_mset (ClosesConn a) T) (upd_pc a (\<lambda>c. c\<lparr>pc_done := True\<rparr>) p, T)"
| watch_ends: "pc_done (pl_heap p ! a) \<Longrightarrow> watchConnection (pc_endpoint (pl_heap p ! a)) a p = (replace, p') \<Longrightarrow>
    pool_step (p, add_mset (WatchingConn a) T)
      (p', (if replace then {#StartsReplacement (pc_endpoint (pl_heap p ! a)) None#} else {#}) + T)"
| replacement_starts: "startReplacement e p = (started, p') \<Longrightarrow>
    pool_step (p, add_mset (StartsReplacement e k) T)
      (p', (if started then {#Replaces e#} else {#}) + continueAcquire k + T)"
| replace_stops: "replaceRound e now p = (ReplaceStops, p') \<Longrightarrow>
    pool_step (p, add_mset (Replaces e) T) (p', add_mset (ReplaceEnds e) T)"
| replace_dials: "replaceRound e now p = (ReplaceDials, p') \<Longrightarrow>
    pool_step (p, add_mset (Replaces e) T) (p', add_mset (ReplaceDialing e) T)"
| replace_dialed: "finishDial e (dialEndpoint e (pl_order p ! e) now setup) now delay p = (DialAdded a, p') \<Longrightarrow>
    pool_step (p, add_mset (ReplaceDialing e) T) (p', add_mset (ReplaceEnds e) (add_mset (WatchingConn a) T))"
| replace_dialed_late: "finishDial e (dialEndpoint e (pl_order p ! e) now setup) now delay p = (DialTooLate, p') \<Longrightarrow>
    pool_step (p, add_mset (ReplaceDialing e) T) (p', add_mset (ReplaceEnds e) T)"
| replace_dial_failed: "finishDial e (dialEndpoint e (pl_order p ! e) now setup) now delay p = (DialFailed err, p') \<Longrightarrow>
    pool_step (p, add_mset (ReplaceDialing e) T) (p', add_mset (Replaces e) T)"
| replace_ends: "pool_step (p, add_mset (ReplaceEnds e) T) (replaceDone e p, T)"
| maintenance: "retireExpired now p = (closes, replaces, p') \<Longrightarrow>
    pool_step (p, T) (p', mset (map ClosesConn closes) + mset (map (\<lambda>e. StartsReplacement e None) replaces) + T)"
| close_starts: "PoolDrains \<notin># T \<Longrightarrow> PoolAwaits \<notin># T \<Longrightarrow> PoolClose_begin p = (True, p') \<Longrightarrow>
    pool_step (p, T) (p', add_mset PoolDrains T)"
| close_all: "PoolClose_all p = (closes, p') \<Longrightarrow>
    pool_step (p, add_mset PoolDrains T) (p', add_mset PoolAwaits (mset (map ClosesConn closes) + T))"
| close_ends: "\<forall>t \<in># T. \<not> in_group t \<Longrightarrow> pool_step (p, add_mset PoolAwaits T) (PoolClose_end p, T)"

definition pool_init :: "'p pool_machine \<Rightarrow> bool" where
  "pool_init s \<longleftrightarrow> (\<exists>endpoints opt now. newPool True endpoints opt now = Inr (fst s)
     \<and> snd s = mset (map WatchingConn [0..<length (pl_heap (fst s))]))"

end
