(* ===== verification/Pool_Inv.thy ===== *)
theory Pool_Inv
  imports Pool_Machine
begin

text \<open>
  What the sections of a pool change, and the basic invariant of its transition system: every address, endpoint and lease
  that is mentioned exists.
\<close>

section \<open>Updates\<close>

lemma upd_pc_fields [simp]:
  "pl_options (upd_pc a f p) = pl_options p" "pl_closing (upd_pc a f p) = pl_closing p" "pl_closed (upd_pc a f p) = pl_closed p"
  "pl_waiters (upd_pc a f p) = pl_waiters p" "pl_selectionSeq (upd_pc a f p) = pl_selectionSeq p"
  "pl_changed (upd_pc a f p) = pl_changed p" "pl_order (upd_pc a f p) = pl_order p" "pl_leases (upd_pc a f p) = pl_leases p"
  "pl_heap (upd_pc a f p) = (pl_heap p)[a := f (pl_heap p ! a)]"
  by (simp_all add: upd_pc_def)

lemma upd_ep_fields [simp]:
  "pl_options (upd_ep e g p) = pl_options p" "pl_closing (upd_ep e g p) = pl_closing p" "pl_closed (upd_ep e g p) = pl_closed p"
  "pl_waiters (upd_ep e g p) = pl_waiters p" "pl_selectionSeq (upd_ep e g p) = pl_selectionSeq p"
  "pl_changed (upd_ep e g p) = pl_changed p" "pl_heap (upd_ep e g p) = pl_heap p" "pl_leases (upd_ep e g p) = pl_leases p"
  "pl_order (upd_ep e g p) = (pl_order p)[e := g (pl_order p ! e)]"
  by (simp_all add: upd_ep_def)

lemma upd_lease_fields [simp]:
  "pl_options (upd_lease l h p) = pl_options p" "pl_closing (upd_lease l h p) = pl_closing p" "pl_closed (upd_lease l h p) = pl_closed p"
  "pl_waiters (upd_lease l h p) = pl_waiters p" "pl_selectionSeq (upd_lease l h p) = pl_selectionSeq p"
  "pl_changed (upd_lease l h p) = pl_changed p" "pl_heap (upd_lease l h p) = pl_heap p" "pl_order (upd_lease l h p) = pl_order p"
  "pl_leases (upd_lease l h p) = (pl_leases p)[l := h (pl_leases p ! l)]"
  by (simp_all add: upd_lease_def)

lemma signalLocked_fields [simp]:
  "pl_options (signalLocked p) = pl_options p" "pl_closing (signalLocked p) = pl_closing p" "pl_closed (signalLocked p) = pl_closed p"
  "pl_waiters (signalLocked p) = pl_waiters p" "pl_selectionSeq (signalLocked p) = pl_selectionSeq p"
  "pl_changed (signalLocked p) = Suc (pl_changed p)" "pl_heap (signalLocked p) = pl_heap p" "pl_order (signalLocked p) = pl_order p"
  "pl_leases (signalLocked p) = pl_leases p"
  by (simp_all add: signalLocked_def)

lemma nth_upd: "j < length xs \<Longrightarrow> xs[i := v] ! j = (if i = j then v else xs ! j)"
  by (cases "i = j") auto

text \<open>A section that at most takes connections out of circulation and counts waiters.\<close>

definition shrinks :: "'p pool \<Rightarrow> 'p pool \<Rightarrow> bool" where
  "shrinks p p' \<longleftrightarrow> length (pl_order p') = length (pl_order p)
     \<and> (\<forall>e < length (pl_order p). mset (es_connections (pl_order p' ! e)) \<subseteq># mset (es_connections (pl_order p ! e))
          \<and> es_dialing (pl_order p' ! e) = es_dialing (pl_order p ! e) \<and> es_replacing (pl_order p' ! e) = es_replacing (pl_order p ! e)
          \<and> es_nextDial (pl_order p' ! e) = es_nextDial (pl_order p ! e))"

lemma shrinks_refl [simp]: "shrinks p p"
  by (simp add: shrinks_def)

lemma shrinks_order: "pl_order p' = pl_order p \<Longrightarrow> shrinks p p'"
  by (simp add: shrinks_def)

lemma shrinks_trans: "shrinks p q \<Longrightarrow> shrinks q r \<Longrightarrow> shrinks p r"
  by (auto simp: shrinks_def intro: subset_mset.order_trans)

lemma shrinks_same [simp]:
  "shrinks p (upd_pc a f q) = shrinks p q" "shrinks p (upd_lease l h q) = shrinks p q" "shrinks p (signalLocked q) = shrinks p q"
  "shrinks p (q\<lparr>pl_waiters := w\<rparr>) = shrinks p q" "shrinks p (q\<lparr>pl_selectionSeq := n\<rparr>) = shrinks p q"
  "shrinks p (q\<lparr>pl_closing := b\<rparr>) = shrinks p q" "shrinks p (q\<lparr>pl_closed := b\<rparr>) = shrinks p q"
  "shrinks p (q\<lparr>pl_leases := ls\<rparr>) = shrinks p q"
  by (simp_all add: shrinks_def)

lemma shrinks_upd:
  "mset (es_connections (g (pl_order p ! e))) \<subseteq># mset (es_connections (pl_order p ! e)) \<Longrightarrow>
     es_dialing (g (pl_order p ! e)) = es_dialing (pl_order p ! e) \<Longrightarrow> es_replacing (g (pl_order p ! e)) = es_replacing (pl_order p ! e) \<Longrightarrow>
     es_nextDial (g (pl_order p ! e)) = es_nextDial (pl_order p ! e) \<Longrightarrow> shrinks p (upd_ep e g p)"
  by (auto simp: shrinks_def nth_upd)

lemma unregister_fields [simp]:
  "pl_options (unregisterWaiterLocked x reg p) = pl_options p" "pl_closing (unregisterWaiterLocked x reg p) = pl_closing p"
  "pl_closed (unregisterWaiterLocked x reg p) = pl_closed p"
  "pl_waiters (unregisterWaiterLocked x reg p) = pl_waiters p - of_bool reg"
  "pl_changed (unregisterWaiterLocked x reg p) = pl_changed p"
  "pl_heap (unregisterWaiterLocked x reg p) = pl_heap p" "pl_leases (unregisterWaiterLocked x reg p) = pl_leases p"
  "length (pl_order (unregisterWaiterLocked x reg p)) = length (pl_order p)"
  by (simp_all add: unregisterWaiterLocked_def Let_def split: option.splits)

lemma shrinks_unregister [simp]: "shrinks p (unregisterWaiterLocked x reg p)"
  by (auto simp: unregisterWaiterLocked_def Let_def split: option.splits intro!: shrinks_trans [OF _ shrinks_upd])

text \<open>Removal takes connections out of circulation and changes nothing else.\<close>

lemma remove_fields [simp]:
  "pl_options (removeConnectionIfUnusedLocked e a p) = pl_options p" "pl_closing (removeConnectionIfUnusedLocked e a p) = pl_closing p"
  "pl_closed (removeConnectionIfUnusedLocked e a p) = pl_closed p"
  "pl_waiters (removeConnectionIfUnusedLocked e a p) = pl_waiters p" "pl_changed (removeConnectionIfUnusedLocked e a p) = pl_changed p"
  "pl_heap (removeConnectionIfUnusedLocked e a p) = pl_heap p" "pl_leases (removeConnectionIfUnusedLocked e a p) = pl_leases p"
  "length (pl_order (removeConnectionIfUnusedLocked e a p)) = length (pl_order p)"
  by (simp_all add: removeConnectionIfUnusedLocked_def Let_def)

lemma shrinks_remove [simp]: "shrinks p (removeConnectionIfUnusedLocked e a p)"
  by (auto simp: removeConnectionIfUnusedLocked_def Let_def intro!: shrinks_upd)

lemma removeAll_fields:
  "shrinks p (fold (\<lambda>e. removeConnectionIfUnusedLocked e a) es p)
   \<and> pl_options (fold (\<lambda>e. removeConnectionIfUnusedLocked e a) es p) = pl_options p
   \<and> pl_closing (fold (\<lambda>e. removeConnectionIfUnusedLocked e a) es p) = pl_closing p
   \<and> pl_closed (fold (\<lambda>e. removeConnectionIfUnusedLocked e a) es p) = pl_closed p
   \<and> pl_waiters (fold (\<lambda>e. removeConnectionIfUnusedLocked e a) es p) = pl_waiters p
   \<and> pl_changed (fold (\<lambda>e. removeConnectionIfUnusedLocked e a) es p) = pl_changed p
   \<and> pl_heap (fold (\<lambda>e. removeConnectionIfUnusedLocked e a) es p) = pl_heap p
   \<and> pl_leases (fold (\<lambda>e. removeConnectionIfUnusedLocked e a) es p) = pl_leases p"
proof (induction es arbitrary: p)
  case (Cons e es)
  show ?case using Cons [of "removeConnectionIfUnusedLocked e a p"] by (auto intro: shrinks_trans [OF shrinks_remove])
qed simp

lemma removeEverywhere_fields [simp]:
  "shrinks p (removeEverywhere a p)" "pl_options (removeEverywhere a p) = pl_options p"
  "pl_closing (removeEverywhere a p) = pl_closing p" "pl_closed (removeEverywhere a p) = pl_closed p"
  "pl_waiters (removeEverywhere a p) = pl_waiters p" "pl_changed (removeEverywhere a p) = pl_changed p"
  "pl_heap (removeEverywhere a p) = pl_heap p" "pl_leases (removeEverywhere a p) = pl_leases p"
  using removeAll_fields [of p a "[0..<length (pl_order p)]"] by (simp_all add: removeEverywhere_def)

section \<open>What the sections do\<close>

text \<open>A section that leaves the connections and the leases alone.\<close>

definition same_use :: "'p pool \<Rightarrow> 'p pool \<Rightarrow> bool" where
  "same_use p p' \<longleftrightarrow> pl_heap p' = pl_heap p \<and> pl_leases p' = pl_leases p \<and> pl_options p' = pl_options p"

lemma acquireRound_Acquired:
  assumes "acquireRound exact lease reg now p = ((Acquired a, reg'), p')" "0 < MaxInFlightPerConnection (pl_options p)"
  shows "in_circulation exact p a \<and> usable lease p a \<and> \<not> pl_closing p \<and> shrinks p p' \<and> pl_leases p' = pl_leases p
    \<and> pl_options p' = pl_options p \<and> pl_waiters p' = pl_waiters p - of_bool reg \<and> pl_changed p' = pl_changed p \<and> pl_closing p' = pl_closing p
    \<and> pl_heap p' = (pl_heap p)[a := (if lease then (pl_heap p ! a)\<lparr>pc_leased := True\<rparr>
                                     else (pl_heap p ! a)\<lparr>pc_inFlight := pc_inFlight (pl_heap p ! a) + 1\<rparr>)]"
proof -
  obtain res p1 where sel: "selectConnectionLocked exact lease p = (res, p1)" by (cases "selectConnectionLocked exact lease p")
  note spec = selectConnectionLocked_spec [OF sel assms(2)]
  have "\<not> pl_closing p" "res = Some a" "p' = unregisterWaiterLocked exact reg
      (upd_pc a (\<lambda>c. if lease then c\<lparr>pc_leased := True\<rparr> else c\<lparr>pc_inFlight := pc_inFlight c + 1\<rparr>) p1)"
    using assms(1) sel by (auto simp: acquireRound_def Let_def split: if_splits option.splits prod.splits)
  moreover have "shrinks p (unregisterWaiterLocked exact reg q)" if "shrinks p q" for q
    using that by (rule shrinks_trans) simp
  ultimately show ?thesis using spec by auto
qed

lemma acquireRound_other:
  assumes "acquireRound exact lease reg now p = ((r, reg'), p')" "0 < MaxInFlightPerConnection (pl_options p)" "\<forall>a. r \<noteq> Acquired a"
  shows "same_use p p' \<and> pl_closing p' = pl_closing p \<and> (\<not> pl_closing p \<longrightarrow> (\<forall>b. in_circulation exact p b \<longrightarrow> \<not> usable lease p b))
    \<and> (case r of
         MustDial e \<Rightarrow> e \<in> set (selected_endpoints exact p) \<and> dialable now p e \<and> reg' = reg \<and> pl_waiters p' = pl_waiters p
           \<and> pl_order p' = (pl_order p)[e := (pl_order p ! e)\<lparr>es_dialing := es_dialing (pl_order p ! e) + 1\<rparr>]
           \<and> pl_changed p' = Suc (pl_changed p)
       | MustWait till \<Rightarrow> reg' \<and> pl_waiters p' = pl_waiters p + of_bool (\<not> reg) \<and> (\<not> reg \<longrightarrow> pl_waiters p \<noteq> MaxWaiters (pl_options p))
           \<and> shrinks p p' \<and> pl_changed p' = pl_changed p \<and> \<not> pl_closing p
       | AcquireFails err \<Rightarrow> \<not> reg' \<and> pl_waiters p' = pl_waiters p - of_bool reg \<and> shrinks p p' \<and> pl_changed p' = pl_changed p
       | Acquired a \<Rightarrow> False)"
proof -
  obtain res p1 where sel: "selectConnectionLocked exact lease p = (res, p1)" by (cases "selectConnectionLocked exact lease p")
  obtain d till p2 where dial: "selectDialEndpointLocked exact now p1 = ((d, till), p2)"
    by (metis surj_pair)
  note spec = selectConnectionLocked_spec [OF sel assms(2)] and dspec = selectDialEndpointLocked_spec [OF dial]
  show ?thesis
  proof (cases "pl_closing p")
    case True
    then show ?thesis using assms(1) by (auto simp: acquireRound_def same_use_def)
  next
    case False
    then have res: "res = None" using assms(1,3) sel by (auto simp: acquireRound_def split: option.splits)
    then have p1: "p1 = p" using spec by simp
    show ?thesis
    proof (cases d)
      case (Some e)
      then show ?thesis using assms(1) False sel res p1 dial dspec spec by (auto simp: acquireRound_def same_use_def)
    next
      case None
      then have "p2 = p" using dspec p1 by simp
      moreover have "shrinks p (upd_ep e (\<lambda>s. s\<lparr>es_waiters := es_waiters s + 1\<rparr>) (p\<lparr>pl_waiters := w\<rparr>))" for e w
        by (rule shrinks_trans [OF _ shrinks_upd]) simp_all
      ultimately show ?thesis using assms(1) False sel res p1 dial None spec
        by (auto simp: acquireRound_def same_use_def Let_def split: if_splits option.splits)
    qed
  qed
qed

text \<open>What the invariants see of a connection: its operations, whether it is leased, broken and draining, its endpoint.\<close>

definition core :: "pooled_connection \<Rightarrow> int \<times> bool \<times> bool \<times> bool \<times> nat" where
  "core c = (pc_inFlight c, pc_leased c, pc_broken c, pc_draining c, pc_endpoint c)"

definition cores :: "'p pool \<Rightarrow> (int \<times> bool \<times> bool \<times> bool \<times> nat) list" where
  "cores p = map core (pl_heap p)"

lemma cores_length [simp]: "length (cores p) = length (pl_heap p)"
  by (simp add: cores_def)

lemma cores_heap: "pl_heap p' = pl_heap p \<Longrightarrow> cores p' = cores p"
  by (simp add: cores_def)

lemma cores_upd [simp]: "cores (upd_pc a f p) = (cores p)[a := core (f (pl_heap p ! a))]"
  by (simp add: cores_def map_update)

lemma cores_same [simp]:
  "cores (upd_ep e g p) = cores p" "cores (upd_lease l h p) = cores p" "cores (signalLocked p) = cores p"
  "cores (unregisterWaiterLocked x reg p) = cores p" "cores (removeConnectionIfUnusedLocked e a p) = cores p"
  "cores (removeEverywhere a p) = cores p"
  by (simp_all add: cores_def)

lemma cores_refresh: "a < length (pl_heap p) \<Longrightarrow> (cores p)[a := core (pl_heap p ! a)] = cores p"
  by (metis cores_def cores_length list_update_id nth_map)

lemma shrinks_removeEverywhere: "shrinks p q \<Longrightarrow> shrinks p (removeEverywhere a q)"
  by (erule shrinks_trans [OF _ removeEverywhere_fields(1)])

lemma shrinks_removeOne: "shrinks p q \<Longrightarrow> shrinks p (removeConnectionIfUnusedLocked e a q)"
  by (erule shrinks_trans [OF _ shrinks_remove])

lemma shrinks_unregistered: "shrinks p q \<Longrightarrow> shrinks p (unregisterWaiterLocked x reg q)"
  by (erule shrinks_trans [OF _ shrinks_unregister])

lemma finishDial_effect:
  assumes "finishDial e (dialEndpoint e s now setup) now delay p = (r, p')" "e < length (pl_order p)"
  shows "pl_leases p' = pl_leases p \<and> pl_options p' = pl_options p \<and> pl_waiters p' = pl_waiters p
    \<and> pl_changed p' = Suc (pl_changed p) \<and> pl_closing p' = pl_closing p
    \<and> (case r of
         DialAdded a \<Rightarrow> a = length (pl_heap p) \<and> pl_heap p' = pl_heap p @ [freshConnection e now]
           \<and> pl_order p' = (pl_order p)[e := (pl_order p ! e)\<lparr>es_dialing := es_dialing (pl_order p ! e) - 1,
               es_connections := es_connections (pl_order p ! e) @ [a], es_backoff := 0, es_nextDial := 0\<rparr>]
       | DialTooLate \<Rightarrow> pl_heap p' = pl_heap p
           \<and> pl_order p' = (pl_order p)[e := (pl_order p ! e)\<lparr>es_dialing := es_dialing (pl_order p ! e) - 1\<rparr>]
       | DialFailed err \<Rightarrow> pl_heap p' = pl_heap p
           \<and> pl_order p' = (pl_order p)[e := (pl_order p ! e)\<lparr>es_dialing := es_dialing (pl_order p ! e) - 1,
               es_failures := es_failures (pl_order p ! e) + 1,
               es_backoff := nextBackoff (pl_options p) (es_backoff (pl_order p ! e)), es_nextDial := now + delay\<rparr>])"
proof -
  have "c = freshConnection e now" if "dialEndpoint e s now setup = Inr c" for c
    using that by (auto simp: dialEndpoint_def Let_def split: sum.splits if_splits option.splits)
  then show ?thesis
    using assms by (auto simp: finishDial_def Let_def recordDialFailureLocked_def split: sum.splits if_splits)
qed

lemma releaseOperation_effect:
  assumes "releaseOperation a now p = (close, p')" "a < length (pl_heap p)" "0 < pc_inFlight (pl_heap p ! a)"
  shows "pl_leases p' = pl_leases p \<and> pl_options p' = pl_options p \<and> pl_waiters p' = pl_waiters p \<and> shrinks p p'
    \<and> pl_changed p' = Suc (pl_changed p) \<and> pl_closing p' = pl_closing p
    \<and> cores p' = (cores p)[a := core ((pl_heap p ! a)\<lparr>pc_inFlight := pc_inFlight (pl_heap p ! a) - 1\<rparr>)]"
  using assms by (auto simp: releaseOperation_def Let_def shrinks_removeEverywhere core_def split: if_splits)

lemma watchConnection_effect:
  assumes "watchConnection e a p = (replace, p')" "a < length (pl_heap p)"
  shows "pl_leases p' = pl_leases p \<and> pl_options p' = pl_options p \<and> pl_waiters p' = pl_waiters p \<and> shrinks p p'
    \<and> pl_changed p' = Suc (pl_changed p) \<and> pl_closing p' = pl_closing p
    \<and> cores p' = (cores p)[a := core ((pl_heap p ! a)\<lparr>pc_broken := True, pc_leased := False\<rparr>)]"
  using assms by (auto simp: watchConnection_def Let_def shrinks_removeOne)

lemma acquireOperation_effect:
  assumes "acquireOperation l reg p = ((r, reg'), p')"
  shows "pl_options p' = pl_options p \<and> shrinks p p' \<and> pl_closing p' = pl_closing p
    \<and> (case r of
         LeaseAcquired \<Rightarrow> \<not> reg' \<and> \<not> ls_closed (pl_leases p ! l) \<and> \<not> pl_closing p
           \<and> ls_inFlight (pl_leases p ! l) < MaxInFlightPerConnection (pl_options p) \<and> pl_waiters p' = pl_waiters p - of_bool reg
           \<and> pl_leases p' = (pl_leases p)[l := (pl_leases p ! l)\<lparr>ls_inFlight := ls_inFlight (pl_leases p ! l) + 1\<rparr>]
           \<and> pl_changed p' = Suc (pl_changed p)
           \<and> (let a = ls_connection (pl_leases p ! l) in
                pl_heap p' = (pl_heap p)[a := (pl_heap p ! a)\<lparr>pc_inFlight := pc_inFlight (pl_heap p ! a) + 1\<rparr>])
       | LeaseMustWait \<Rightarrow> reg' \<and> same_use p p' \<and> pl_waiters p' = pl_waiters p + of_bool (\<not> reg)
           \<and> (\<not> reg \<longrightarrow> pl_waiters p \<noteq> MaxWaiters (pl_options p)) \<and> pl_changed p' = pl_changed p
       | LeaseFails err \<Rightarrow> \<not> reg' \<and> same_use p p' \<and> pl_waiters p' = pl_waiters p - of_bool reg \<and> pl_changed p' = pl_changed p)"
  using assms
  by (auto simp: acquireOperation_def Let_def same_use_def shrinks_unregistered split: if_splits)

lemma releaseLeaseOperation_effect:
  assumes "releaseLeaseOperation l now p = (close, p')" "l < length (pl_leases p)" "0 < ls_inFlight (pl_leases p ! l)"
    "a = ls_connection (pl_leases p ! l)" "a < length (pl_heap p)" "0 < pc_inFlight (pl_heap p ! a)"
  shows "pl_options p' = pl_options p \<and> pl_waiters p' = pl_waiters p \<and> shrinks p p'
    \<and> pl_changed p' = Suc (pl_changed p) \<and> pl_closing p' = pl_closing p
    \<and> pl_leases p' = (pl_leases p)[l := (pl_leases p ! l)\<lparr>ls_inFlight := ls_inFlight (pl_leases p ! l) - 1\<rparr>]
    \<and> cores p' = (cores p)[a := core ((pl_heap p ! a)\<lparr>pc_inFlight := pc_inFlight (pl_heap p ! a) - 1,
         pc_leased := pc_leased (pl_heap p ! a) \<and> \<not> (pc_inFlight (pl_heap p ! a) = 1 \<and> ls_closed (pl_leases p ! l))\<rparr>)]"
  using assms by (auto simp: releaseLeaseOperation_def Let_def shrinks_removeEverywhere core_def split: if_splits)

lemma Lease_Close_effect:
  assumes "Lease_Close l now p = (close, p')" "a = ls_connection (pl_leases p ! l)" "a < length (pl_heap p)"
  shows "pl_options p' = pl_options p \<and> pl_waiters p' = pl_waiters p \<and> shrinks p p'
    \<and> pl_changed p' = Suc (pl_changed p) \<and> pl_closing p' = pl_closing p
    \<and> pl_leases p' = (pl_leases p)[l := (pl_leases p ! l)\<lparr>ls_closed := True\<rparr>]
    \<and> cores p' = (cores p)[a := core ((pl_heap p ! a)\<lparr>pc_leased := pc_leased (pl_heap p ! a) \<and> ls_inFlight (pl_leases p ! l) \<noteq> 0\<rparr>)]"
  using assms cores_refresh [of a p]
  by (auto simp: Lease_Close_def Let_def shrinks_removeEverywhere core_def split: if_splits)

text \<open>Maintenance and closing mark connections.\<close>

definition marks :: "'p pool \<Rightarrow> 'p pool \<Rightarrow> bool" where
  "marks p p' \<longleftrightarrow> pl_leases p' = pl_leases p \<and> pl_options p' = pl_options p \<and> pl_waiters p' = pl_waiters p \<and> pl_order p' = pl_order p
     \<and> pl_closing p' = pl_closing p \<and> length (pl_heap p') = length (pl_heap p)
     \<and> (\<forall>a < length (pl_heap p). pc_inFlight (pl_heap p' ! a) = pc_inFlight (pl_heap p ! a)
          \<and> pc_leased (pl_heap p' ! a) = pc_leased (pl_heap p ! a) \<and> pc_broken (pl_heap p' ! a) = pc_broken (pl_heap p ! a)
          \<and> pc_endpoint (pl_heap p' ! a) = pc_endpoint (pl_heap p ! a) \<and> (pc_draining (pl_heap p ! a) \<longrightarrow> pc_draining (pl_heap p' ! a)))"

lemma marks_refl [simp]: "marks p p"
  by (simp add: marks_def)

lemma marks_trans: "marks p q \<Longrightarrow> marks q r \<Longrightarrow> marks p r"
  by (simp add: marks_def)

lemma marks_upd:
  "pc_inFlight (f (pl_heap p ! a)) = pc_inFlight (pl_heap p ! a) \<Longrightarrow> pc_leased (f (pl_heap p ! a)) = pc_leased (pl_heap p ! a) \<Longrightarrow>
     pc_broken (f (pl_heap p ! a)) = pc_broken (pl_heap p ! a) \<Longrightarrow> pc_endpoint (f (pl_heap p ! a)) = pc_endpoint (pl_heap p ! a) \<Longrightarrow>
     (pc_draining (pl_heap p ! a) \<longrightarrow> pc_draining (f (pl_heap p ! a))) \<Longrightarrow> marks p (upd_pc a f p)"
  by (auto simp: marks_def nth_upd)

lemma retireStep_marks: "marks p (snd (snd (snd (retireStep now a (live, closes, replace, p)))))"
  by (auto simp: retireStep_def Let_def intro!: marks_upd)

lemma retireSteps_marks:
  "marks p (snd (snd (snd (fold (retireStep now) as (live, closes, replace, p)))))"
proof (induction as arbitrary: live closes replace p)
  case (Cons a as)
  obtain live' closes' replace' p' where st: "retireStep now a (live, closes, replace, p) = (live', closes', replace', p')"
    by (metis prod_cases4)
  have "marks p p'" using retireStep_marks [of p now a live closes replace] st by simp
  then show ?case using Cons [of p' live' closes' replace'] st by (auto intro: marks_trans)
qed simp

lemma retireEndpoint_marks: "marks p (snd (snd (retireEndpoint now e (closes, replaces, p))))"
  using retireSteps_marks [of p now "es_connections (pl_order p ! e)" "live_count p e" closes False]
  by (auto simp: retireEndpoint_def split: prod.splits)

lemma retireEndpoints_marks: "marks p (snd (snd (fold (retireEndpoint now) es (closes, replaces, p))))"
proof (induction es arbitrary: closes replaces p)
  case (Cons e es)
  obtain closes' replaces' p' where st: "retireEndpoint now e (closes, replaces, p) = (closes', replaces', p')"
    by (metis prod_cases3)
  have "marks p p'" using retireEndpoint_marks [of p now e closes replaces] st by simp
  then show ?case using Cons [of p' closes' replaces'] st by (auto intro: marks_trans)
qed simp

lemma marks_signal [simp]: "marks p (signalLocked q) = marks p q"
  by (simp add: marks_def)

lemma retireExpired_marks: "retireExpired now p = (closes, replaces, p') \<Longrightarrow> marks p p'"
  using retireEndpoints_marks [of p now "[0..<length (pl_order p)]" "[]" "[]"]
  by (auto simp: retireExpired_def split: if_splits prod.splits)

lemma PoolClose_marks: "PoolClose_all p = (closes, p') \<Longrightarrow> marks p p'"
proof -
  have "marks p (fold (\<lambda>a. upd_pc a (\<lambda>c. c\<lparr>pc_retiring := True\<rparr>)) as p)" for as
  proof (induction as arbitrary: p)
    case (Cons a as)
    have "marks p (upd_pc a (\<lambda>c. c\<lparr>pc_retiring := True\<rparr>) p)" by (rule marks_upd) simp_all
    then show ?case using Cons [of "upd_pc a (\<lambda>c. c\<lparr>pc_retiring := True\<rparr>) p"] by (simp add: marks_trans)
  qed simp
  then show "PoolClose_all p = (closes, p') \<Longrightarrow> marks p p'" by (auto simp: PoolClose_all_def Let_def)
qed

lemma done_marks: "marks p (upd_pc a (\<lambda>c. c\<lparr>pc_done := True\<rparr>) p)"
  by (rule marks_upd) simp_all

section \<open>Everything mentioned exists\<close>

definition exact_ok :: "'p pool \<Rightarrow> nat option \<Rightarrow> bool" where
  "exact_ok p exact \<longleftrightarrow> (\<forall>e. exact = Some e \<longrightarrow> e < length (pl_order p))"

fun names_ok :: "'p pool \<Rightarrow> pool_activity \<Rightarrow> bool" where
  "names_ok p (Acquiring exact lease registered) = exact_ok p exact"
| "names_ok p (AcquireWaits exact lease g till) = exact_ok p exact"
| "names_ok p (AcquireDials exact lease registered e) = (exact_ok p exact \<and> e < length (pl_order p))"
| "names_ok p (InUse a) = (a < length (pl_heap p))"
| "names_ok p (LeaseAcquiring l registered) = (l < length (pl_leases p))"
| "names_ok p (LeaseWaits l g) = (l < length (pl_leases p))"
| "names_ok p (LeaseInUse l) = (l < length (pl_leases p))"
| "names_ok p (WatchingConn a) = (a < length (pl_heap p))"
| "names_ok p (StartsReplacement e k) =
     (e < length (pl_order p) \<and> (case k of None \<Rightarrow> True | Some (exact, _) \<Rightarrow> exact_ok p exact))"
| "names_ok p (Replaces e) = (e < length (pl_order p))"
| "names_ok p (ReplaceDialing e) = (e < length (pl_order p))"
| "names_ok p (ReplaceEnds e) = (e < length (pl_order p))"
| "names_ok p (ClosesConn a) = (a < length (pl_heap p))"
| "names_ok p PoolDrains = True"
| "names_ok p PoolAwaits = True"

definition pool_ok :: "'p pool \<Rightarrow> bool" where
  "pool_ok p \<longleftrightarrow> pool_options_ok (pl_options p)
     \<and> (\<forall>e < length (pl_order p). \<forall>a \<in> set (es_connections (pl_order p ! e)). a < length (pl_heap p) \<and> pc_endpoint (pl_heap p ! a) = e)
     \<and> (\<forall>a < length (pl_heap p). pc_endpoint (pl_heap p ! a) < length (pl_order p))
     \<and> (\<forall>l < length (pl_leases p). ls_connection (pl_leases p ! l) < length (pl_heap p))"

definition pool_base :: "'p pool_machine \<Rightarrow> bool" where
  "pool_base s \<longleftrightarrow> pool_ok (fst s) \<and> (\<forall>t \<in># snd s. names_ok (fst s) t)"

text \<open>Pools only grow.\<close>

definition pool_grows :: "'p pool \<Rightarrow> 'p pool \<Rightarrow> bool" where
  "pool_grows p p' \<longleftrightarrow> length (pl_order p') = length (pl_order p) \<and> length (pl_heap p) \<le> length (pl_heap p')
     \<and> length (pl_leases p) \<le> length (pl_leases p')"

lemma names_ok_grows: "names_ok p t \<Longrightarrow> pool_grows p p' \<Longrightarrow> names_ok p' t"
  by (cases t) (auto simp: pool_grows_def exact_ok_def split: option.splits)

lemma pool_ok_fields:
  assumes "pool_ok p"
  shows "0 < MaxInFlightPerConnection (pl_options p)" "0 < MaxConnectionsPerEndpoint (pl_options p)" "0 < MaxWaiters (pl_options p)"
  using assms by (auto simp: pool_ok_def pool_options_ok_def)

text \<open>A change of the connections' states and of the endpoints' circulation.\<close>

lemma pool_ok_step:
  assumes "pool_ok p" "pl_options p' = pl_options p" "shrinks p p'" "length (pl_heap p') = length (pl_heap p)"
    "\<forall>a < length (pl_heap p). pc_endpoint (pl_heap p' ! a) = pc_endpoint (pl_heap p ! a)"
    "length (pl_leases p') = length (pl_leases p)" "\<forall>l < length (pl_leases p). ls_connection (pl_leases p' ! l) = ls_connection (pl_leases p ! l)"
  shows "pool_ok p' \<and> pool_grows p p'"
proof -
  have "set (es_connections (pl_order p' ! e)) \<subseteq> set (es_connections (pl_order p ! e))" if "e < length (pl_order p)" for e
    using assms(3) that set_mset_mono [of "mset (es_connections (pl_order p' ! e))" "mset (es_connections (pl_order p ! e))"]
    by (auto simp: shrinks_def)
  then have "\<forall>e < length (pl_order p). \<forall>a \<in> set (es_connections (pl_order p' ! e)). a < length (pl_heap p) \<and> pc_endpoint (pl_heap p ! a) = e"
    using assms(1) unfolding pool_ok_def by blast
  then show ?thesis using assms by (simp add: pool_ok_def pool_grows_def shrinks_def)
qed

lemma cores_update:
  assumes "cores p' = (cores p)[a := core c]"
  shows "length (pl_heap p') = length (pl_heap p)"
    "b < length (pl_heap p) \<Longrightarrow> pc_inFlight (pl_heap p' ! b) = pc_inFlight (if b = a then c else pl_heap p ! b)"
    "b < length (pl_heap p) \<Longrightarrow> pc_leased (pl_heap p' ! b) = pc_leased (if b = a then c else pl_heap p ! b)"
    "b < length (pl_heap p) \<Longrightarrow> pc_broken (pl_heap p' ! b) = pc_broken (if b = a then c else pl_heap p ! b)"
    "b < length (pl_heap p) \<Longrightarrow> pc_draining (pl_heap p' ! b) = pc_draining (if b = a then c else pl_heap p ! b)"
    "b < length (pl_heap p) \<Longrightarrow> pc_endpoint (pl_heap p' ! b) = pc_endpoint (if b = a then c else pl_heap p ! b)"
proof -
  show len: "length (pl_heap p') = length (pl_heap p)" using assms by (metis cores_length length_list_update)
  have "core (pl_heap p' ! b) = core (if b = a then c else pl_heap p ! b)" if "b < length (pl_heap p)" for b
  proof -
    have "core (pl_heap p' ! b) = (cores p)[a := core c] ! b" using assms that len by (metis cores_def nth_map)
    then show ?thesis using that by (simp add: nth_upd) (simp add: cores_def)
  qed
  then show
    "b < length (pl_heap p) \<Longrightarrow> pc_inFlight (pl_heap p' ! b) = pc_inFlight (if b = a then c else pl_heap p ! b)"
    "b < length (pl_heap p) \<Longrightarrow> pc_leased (pl_heap p' ! b) = pc_leased (if b = a then c else pl_heap p ! b)"
    "b < length (pl_heap p) \<Longrightarrow> pc_broken (pl_heap p' ! b) = pc_broken (if b = a then c else pl_heap p ! b)"
    "b < length (pl_heap p) \<Longrightarrow> pc_draining (pl_heap p' ! b) = pc_draining (if b = a then c else pl_heap p ! b)"
    "b < length (pl_heap p) \<Longrightarrow> pc_endpoint (pl_heap p' ! b) = pc_endpoint (if b = a then c else pl_heap p ! b)"
    unfolding core_def by blast+
qed

lemma cores_endpoint:
  assumes "cores p' = (cores p)[a := core c]" "pc_endpoint c = pc_endpoint (pl_heap p ! a)"
  shows "length (pl_heap p') = length (pl_heap p) \<and> (\<forall>b < length (pl_heap p). pc_endpoint (pl_heap p' ! b) = pc_endpoint (pl_heap p ! b))"
  using cores_update(1,6) [OF assms(1)] assms(2) by simp

lemma pool_ok_cores:
  assumes "pool_ok p" "pl_options p' = pl_options p" "shrinks p p'" "cores p' = (cores p)[a := core c]" "pc_endpoint c = pc_endpoint (pl_heap p ! a)"
    "length (pl_leases p') = length (pl_leases p)" "\<forall>l < length (pl_leases p). ls_connection (pl_leases p' ! l) = ls_connection (pl_leases p ! l)"
  shows "pool_ok p' \<and> pool_grows p p'"
  using pool_ok_step [OF assms(1-3) _ _ assms(6,7)] cores_endpoint [OF assms(4,5)] by blast

lemma pool_ok_same_use: "pool_ok p \<Longrightarrow> same_use p p' \<Longrightarrow> shrinks p p' \<Longrightarrow> pool_ok p' \<and> pool_grows p p'"
  by (rule pool_ok_step) (simp_all add: same_use_def)

lemma pool_ok_marks: "pool_ok p \<Longrightarrow> marks p p' \<Longrightarrow> pool_ok p' \<and> pool_grows p p'"
  by (rule pool_ok_step) (simp_all add: marks_def shrinks_order)

end
