(* ===== verification/Pool_Base.thy ===== *)
theory Pool_Base
  imports Pool_Inv
begin

text \<open>The basic invariant holds in every reachable state of a pool.\<close>

lemma acquire_ok:
  assumes "pool_ok p" "acquireRound exact lease reg now p = ((Acquired a, reg'), p')" "exact_ok p exact"
  shows "pool_ok p' \<and> pool_grows p p' \<and> a < length (pl_heap p)"
proof -
  note eff = acquireRound_Acquired [OF assms(2) pool_ok_fields(1) [OF assms(1)]]
  have a: "a < length (pl_heap p)"
    using eff assms(1,3)
    by (auto simp: in_circulation_def selected_endpoints_def pool_ok_def exact_ok_def split: option.splits)
  have "pool_ok p' \<and> pool_grows p p'"
    by (rule pool_ok_step [OF assms(1)]) (use eff in \<open>auto simp: nth_upd\<close>)
  with a show ?thesis by blast
qed

lemma new_lease_ok: "pool_ok p \<Longrightarrow> newLease a p = (l, p') \<Longrightarrow> a < length (pl_heap p) \<Longrightarrow> pool_ok p' \<and> pool_grows p p'"
  by (auto simp: newLease_def pool_ok_def pool_grows_def nth_append less_Suc_eq)

lemma acquire_other_ok:
  assumes "pool_ok p" "acquireRound exact lease reg now p = ((r, reg'), p')" "exact_ok p exact" "\<forall>a. r \<noteq> Acquired a"
  shows "pool_ok p' \<and> pool_grows p p' \<and> (\<forall>e. r = MustDial e \<longrightarrow> e < length (pl_order p))"
proof -
  note eff = acquireRound_other [OF assms(2) pool_ok_fields(1) [OF assms(1)] assms(4)]
  show ?thesis
  proof (cases r)
    case (MustDial e)
    then have o: "pl_order p' = (pl_order p)[e := (pl_order p ! e)\<lparr>es_dialing := es_dialing (pl_order p ! e) + 1\<rparr>]"
      and e: "e < length (pl_order p)" and u: "same_use p p'"
      using eff assms(3) by (auto simp: selected_endpoints_def exact_ok_def split: option.splits)
    have "es_connections (pl_order p' ! d) = es_connections (pl_order p ! d)" if "d < length (pl_order p)" for d
      using that o by (simp add: nth_upd)
    then show ?thesis using o e u assms(1) MustDial by (auto simp: pool_ok_def pool_grows_def same_use_def)
  qed (use eff pool_ok_same_use [OF assms(1)] in auto)
qed

lemma finishDial_ok:
  assumes "pool_ok p" "finishDial e (dialEndpoint e s now su) now delay p = (r, p')" "e < length (pl_order p)"
  shows "pool_ok p' \<and> pool_grows p p' \<and> (\<forall>a. r = DialAdded a \<longrightarrow> a < length (pl_heap p'))"
proof -
  note eff = finishDial_effect [OF assms(2,3)]
  have c: "es_connections (pl_order p' ! d) = es_connections (pl_order p ! d) @ (case r of DialAdded a \<Rightarrow> if d = e then [a] else [] | _ \<Rightarrow> [])"
    if "d < length (pl_order p)" for d using that eff by (auto simp: nth_upd split: dialed.splits)
  have o: "length (pl_order p') = length (pl_order p)" using eff by (auto split: dialed.splits)
  show ?thesis
  proof (cases r)
    case (DialAdded a)
    then have h: "pl_heap p' = pl_heap p @ [freshConnection e now]" "a = length (pl_heap p)" using eff by auto
    have "\<forall>d < length (pl_order p). \<forall>b \<in> set (es_connections (pl_order p' ! d)). b < length (pl_heap p') \<and> pc_endpoint (pl_heap p' ! b) = d"
      using c DialAdded h assms(1) by (auto simp: pool_ok_def nth_append freshConnection_def split: if_splits)
    then show ?thesis using h DialAdded o eff assms(1,3)
      by (auto simp: pool_ok_def pool_grows_def nth_append freshConnection_def less_Suc_eq)
  qed (use c o eff assms(1) in \<open>auto simp: pool_ok_def pool_grows_def\<close>)
qed

lemma upd_ep_ok:
  "pool_ok p \<Longrightarrow> es_connections (g (pl_order p ! e)) = es_connections (pl_order p ! e) \<Longrightarrow>
     pool_ok (upd_ep e g p) \<and> pool_grows p (upd_ep e g p)"
  by (auto simp: pool_ok_def pool_grows_def nth_upd split: if_splits)

lemma signal_ok [simp]: "pool_ok (signalLocked p) = pool_ok p" "pool_grows q (signalLocked p) = pool_grows q p"
  by (simp_all add: pool_ok_def pool_grows_def)

lemma replace_ok:
  "pool_ok p \<Longrightarrow> startReplacement e p = (b, p') \<Longrightarrow> pool_ok p' \<and> pool_grows p p'"
  "pool_ok p \<Longrightarrow> replaceRound e now p = (r, p') \<Longrightarrow> pool_ok p' \<and> pool_grows p p'"
  "pool_ok p \<Longrightarrow> pool_ok (replaceDone e p) \<and> pool_grows p (replaceDone e p)"
  by (auto simp: startReplacement_def replaceRound_def replaceDone_def Let_def pool_grows_def upd_ep_ok split: if_splits)

lemma close_ok:
  "pool_ok p \<Longrightarrow> PoolClose_begin p = (b, p') \<Longrightarrow> pool_ok p' \<and> pool_grows p p'"
  "pool_ok p \<Longrightarrow> pool_ok (PoolClose_end p) \<and> pool_grows p (PoolClose_end p)"
  by (auto simp: PoolClose_begin_def PoolClose_end_def pool_ok_def pool_grows_def split: if_splits)

text \<open>Maintenance closes and replaces only what exists.\<close>

lemma retireStep_closes:
  assumes "set closes \<subseteq> S" "set as \<subseteq> S"
  shows "set (fst (snd (fold (retireStep now) as (live, closes, replace, p)))) \<subseteq> S"
  using assms
proof (induction as arbitrary: live closes replace p)
  case (Cons a as)
  obtain live' closes' replace' p' where st: "retireStep now a (live, closes, replace, p) = (live', closes', replace', p')"
    by (metis prod_cases4)
  then have "set closes' \<subseteq> S" using Cons.prems by (auto simp: retireStep_def Let_def split: if_splits)
  then show ?case using Cons.IH [of closes' live' replace' p'] Cons.prems st by simp
qed simp

lemma retireEndpoints_closes:
  assumes "pool_ok p" "set es \<subseteq> {..<length (pl_order p)}" "set closes \<subseteq> {..<length (pl_heap p)}" "set replaces \<subseteq> {..<length (pl_order p)}"
    "fold (retireEndpoint now) es (closes, replaces, p) = (closes', replaces', p')"
  shows "set closes' \<subseteq> {..<length (pl_heap p)} \<and> set replaces' \<subseteq> {..<length (pl_order p)}"
  using assms
proof (induction es arbitrary: closes replaces p)
  case (Cons e es)
  obtain live cl rp q where f: "fold (retireStep now) (es_connections (pl_order p ! e)) (live_count p e, closes, False, p) = (live, cl, rp, q)"
    by (metis prod_cases4)
  then have st: "retireEndpoint now e (closes, replaces, p) = (cl, if rp then replaces @ [e] else replaces, q)"
    by (simp add: retireEndpoint_def)
  have m: "marks p q" using retireEndpoint_marks [of p now e closes replaces] st by simp
  have len: "length (pl_heap q) = length (pl_heap p)" "length (pl_order q) = length (pl_order p)" using m by (simp_all add: marks_def)
  have ok: "pool_ok q" using pool_ok_marks [OF Cons.prems(1) m] by blast
  have "set (es_connections (pl_order p ! e)) \<subseteq> {..<length (pl_heap p)}" using Cons.prems(1,2) by (auto simp: pool_ok_def)
  then have cl: "set cl \<subseteq> {..<length (pl_heap p)}" using retireStep_closes [OF Cons.prems(3)] f by (metis fst_conv snd_conv)
  have "fold (retireEndpoint now) es (cl, if rp then replaces @ [e] else replaces, q) = (closes', replaces', p')"
    using Cons.prems(5) st by simp
  from Cons.IH [OF ok _ _ _ this] show ?case using Cons.prems(2,4) cl unfolding len by auto
qed simp

lemma retireExpired_ok:
  assumes "pool_ok p" "retireExpired now p = (closes, replaces, p')"
  shows "pool_ok p' \<and> pool_grows p p' \<and> set closes \<subseteq> {..<length (pl_heap p)} \<and> set replaces \<subseteq> {..<length (pl_order p)}"
proof -
  have "set closes \<subseteq> {..<length (pl_heap p)} \<and> set replaces \<subseteq> {..<length (pl_order p)}"
  proof (cases "pl_closing p")
    case False
    then obtain q where "fold (retireEndpoint now) [0..<length (pl_order p)] ([], [], p) = (closes, replaces, q)"
      using assms(2) by (auto simp: retireExpired_def split: prod.splits)
    from retireEndpoints_closes [OF assms(1) _ _ _ this] show ?thesis by (simp add: atLeast0LessThan)
  qed (use assms(2) in \<open>auto simp: retireExpired_def\<close>)
  then show ?thesis using pool_ok_marks [OF assms(1) retireExpired_marks [OF assms(2)]] by blast
qed

lemma close_all_ok:
  assumes "pool_ok p" "PoolClose_all p = (closes, p')"
  shows "pool_ok p' \<and> pool_grows p p' \<and> set closes \<subseteq> {..<length (pl_heap p)}"
  using pool_ok_marks [OF assms(1) PoolClose_marks [OF assms(2)]] assms
  by (auto simp: PoolClose_all_def Let_def pool_ok_def in_set_conv_nth) (metis in_set_conv_nth)

section \<open>Operations in flight\<close>

text \<open>The operations a connection carries, its own and those of its lease, are counted.\<close>

fun uses :: "'p pool \<Rightarrow> nat \<Rightarrow> pool_activity \<Rightarrow> bool" where
  "uses p a (InUse b) = (b = a)"
| "uses p a (LeaseInUse l) = (ls_connection (pl_leases p ! l) = a)"
| "uses p a t = False"

definition users :: "'p pool \<Rightarrow> pool_activity multiset \<Rightarrow> nat \<Rightarrow> nat" where
  "users p T a = size (filter_mset (uses p a) T)"

lemma users_simps [simp]:
  "users p {#} a = 0" "users p (add_mset t T) a = of_bool (uses p a t) + users p T a" "users p (S + T) a = users p S a + users p T a"
  by (simp_all add: users_def)

definition use_inv :: "'p pool_machine \<Rightarrow> bool" where
  "use_inv s \<longleftrightarrow>
     (\<forall>a < length (pl_heap (fst s)). pc_inFlight (pl_heap (fst s) ! a) = int (users (fst s) (snd s) a))
     \<and> (\<forall>l < length (pl_leases (fst s)). ls_inFlight (pl_leases (fst s) ! l) = int (count (snd s) (LeaseInUse l)))"

lemma in_use_positive: "use_inv (p, add_mset (InUse a) T) \<Longrightarrow> a < length (pl_heap p) \<Longrightarrow> 0 < pc_inFlight (pl_heap p ! a)"
  by (simp add: use_inv_def)

lemma lease_in_use_positive:
  assumes "use_inv (p, add_mset (LeaseInUse l) T)" "l < length (pl_leases p)" "pool_ok p"
  shows "0 < ls_inFlight (pl_leases p ! l)" "0 < pc_inFlight (pl_heap p ! ls_connection (pl_leases p ! l))"
    "ls_connection (pl_leases p ! l) < length (pl_heap p)"
  using assms by (auto simp: use_inv_def pool_ok_def)

lemma in_use_ok:
  "pool_ok p \<Longrightarrow> watchConnection e a p = (b, p') \<Longrightarrow> a < length (pl_heap p) \<Longrightarrow> pool_ok p' \<and> pool_grows p p'"
  "pool_ok p \<Longrightarrow> releaseOperation a now p = (b, p') \<Longrightarrow> a < length (pl_heap p) \<Longrightarrow> 0 < pc_inFlight (pl_heap p ! a) \<Longrightarrow>
     pool_ok p' \<and> pool_grows p p'"
  using pool_ok_cores [of p p'] watchConnection_effect [of e a p b p'] releaseOperation_effect [of a now p b p'] by auto

lemma acquireOperation_ok:
  assumes "pool_ok p" "acquireOperation l reg p = ((r, reg'), p')"
  shows "pool_ok p' \<and> pool_grows p p'"
  by (rule pool_ok_step [OF assms(1)])
    (use acquireOperation_effect [OF assms(2)] in \<open>auto simp: nth_upd Let_def same_use_def split: lease_round.splits\<close>)

lemma lease_ok:
  assumes "pool_ok p" "l < length (pl_leases p)"
  shows "Lease_Close l now p = (b, p') \<Longrightarrow> pool_ok p' \<and> pool_grows p p'"
    "releaseLeaseOperation l now p = (b, p') \<Longrightarrow> 0 < ls_inFlight (pl_leases p ! l) \<Longrightarrow>
       0 < pc_inFlight (pl_heap p ! ls_connection (pl_leases p ! l)) \<Longrightarrow> pool_ok p' \<and> pool_grows p p'"
proof -
  have a: "ls_connection (pl_leases p ! l) < length (pl_heap p)" using assms by (simp add: pool_ok_def)
  show "pool_ok p' \<and> pool_grows p p'" if "Lease_Close l now p = (b, p')"
  proof -
    note eff = Lease_Close_effect [OF that refl a]
    then have "cores p' = (cores p)[ls_connection (pl_leases p ! l) := core ((pl_heap p ! ls_connection (pl_leases p ! l))
        \<lparr>pc_leased := pc_leased (pl_heap p ! ls_connection (pl_leases p ! l)) \<and> ls_inFlight (pl_leases p ! l) \<noteq> 0\<rparr>)]" by blast
    from pool_ok_cores [OF assms(1) _ _ this] show ?thesis using eff by (auto simp: nth_upd)
  qed
  show "pool_ok p' \<and> pool_grows p p'"
    if r: "releaseLeaseOperation l now p = (b, p')" "0 < ls_inFlight (pl_leases p ! l)" "0 < pc_inFlight (pl_heap p ! ls_connection (pl_leases p ! l))"
  proof -
    note eff = releaseLeaseOperation_effect [OF r(1) assms(2) r(2) refl a r(3)]
    then obtain c where "cores p' = (cores p)[ls_connection (pl_leases p ! l) := core c]"
      "pc_endpoint c = pc_endpoint (pl_heap p ! ls_connection (pl_leases p ! l))" by fastforce
    from pool_ok_cores [OF assms(1) _ _ this] show ?thesis using eff by (auto simp: nth_upd)
  qed
qed

lemma lease_in_use_ok:
  assumes "pool_ok p" "use_inv (p, add_mset (LeaseInUse l) T)" "l < length (pl_leases p)" "releaseLeaseOperation l now p = (b, p')"
  shows "pool_ok p' \<and> pool_grows p p'"
  using lease_ok(2) [OF assms(1,3,4)] lease_in_use_positive [OF assms(2,3,1)] by blast

lemma unregister_ok: "pool_ok p \<Longrightarrow> pool_ok (unregisterWaiterLocked x reg p) \<and> pool_grows p (unregisterWaiterLocked x reg p)"
  by (rule pool_ok_step) simp_all

section \<open>Preservation\<close>

lemma find_upt: "find P [0..<n] = Some e \<Longrightarrow> e < n"
  by (auto simp: find_Some_iff)

lemma acquire_begin_ok: "acquire_begin True sel p = Inr exact \<Longrightarrow> exact_ok p exact"
  by (auto simp: acquire_begin_def exact_ok_def findEndpoint_def Let_def split: option.splits prod.splits if_splits dest: find_upt)

lemma step_pool_ok:
  assumes st: "pool_step s s'" and base: "pool_base s" and use: "use_inv s"
  shows "pool_ok (fst s') \<and> pool_grows (fst s) (fst s')"
proof -
  have ok: "pool_ok (fst s)" and names: "\<forall>t \<in># snd s. names_ok (fst s) t" using base by (auto simp: pool_base_def)
  have refl: "pool_ok (fst s) \<and> pool_grows (fst s) (fst s)" using ok by (simp add: pool_grows_def)
  from st show ?thesis
  proof (cases rule: pool_step.cases)
    case (acquire_got exact registered now p a registered' p' T)
    then show ?thesis using ok names acquire_ok [OF _ acquire_got(3)] by auto
  next
    case (acquire_lease exact registered now p a registered' p1 l p' T)
    then have p1: "pool_ok p1 \<and> pool_grows p p1 \<and> a < length (pl_heap p)" using ok names acquire_ok [OF _ acquire_lease(3)] by auto
    then have "a < length (pl_heap p1)" by (auto simp: pool_grows_def)
    then show ?thesis using acquire_lease p1 new_lease_ok [of p1 a l p'] by (auto simp: pool_grows_def)
  next
    case (acquire_dials exact lease registered now p e registered' p' T)
    then show ?thesis using ok names acquire_other_ok [OF _ acquire_dials(3)] by auto
  next
    case (acquire_waits now exact lease registered p till registered' p' T)
    then show ?thesis using ok names acquire_other_ok [OF _ acquire_waits(4)] by auto
  next
    case (acquire_fails exact lease registered now p err registered' p' T)
    then show ?thesis using ok names acquire_other_ok [OF _ acquire_fails(3)] by auto
  next
    case (acquire_dialed e p now su delay a p' exact lease registered T)
    then show ?thesis using ok names finishDial_ok [OF _ acquire_dialed(3)] by auto
  next
    case (acquire_dialed_late e p now su delay p' exact lease registered T)
    then show ?thesis using ok names finishDial_ok [OF _ acquire_dialed_late(3)] by auto
  next
    case (acquire_dial_failed e p now su delay err p' k ctx exact lease registered T)
    then show ?thesis using ok names finishDial_ok [OF _ acquire_dial_failed(3)] by auto
  next
    case (replace_dialed e p now su delay a p' T)
    then show ?thesis using ok names finishDial_ok [OF _ replace_dialed(3)] by auto
  next
    case (replace_dialed_late e p now su delay p' T)
    then show ?thesis using ok names finishDial_ok [OF _ replace_dialed_late(3)] by auto
  next
    case (replace_dial_failed e p now su delay err p' T)
    then show ?thesis using ok names finishDial_ok [OF _ replace_dial_failed(3)] by auto
  next
    case (operation_ends a now p close p' T)
    then show ?thesis using ok names use in_use_ok(2) [OF _ operation_ends(3)] in_use_positive [of p a T] by auto
  next
    case (lease_operation_ends l now p close p' T)
    then show ?thesis using ok names use lease_in_use_ok [OF _ _ _ lease_operation_ends(3)] by auto
  next
    case (lease_close l p now close p' T)
    then show ?thesis using ok lease_ok(1) [of p l now close p'] by simp
  next
    case (watch_ends p a replace p' T)
    then show ?thesis using ok names in_use_ok(1) [OF _ watch_ends(4)] by auto
  next
    case (maintenance now p closes replaces p' T)
    then show ?thesis using ok retireExpired_ok [OF _ maintenance(3)] by auto
  next
    case (close_all p closes p' T)
    then show ?thesis using ok close_all_ok [OF _ close_all(3)] by auto
  next
    case (conn_breaks a p T)
    then show ?thesis using ok pool_ok_marks [OF _ done_marks] by auto
  next
    case (conn_closes p a T)
    then show ?thesis using ok pool_ok_marks [OF _ done_marks] by auto
  next
    case (lease_got l registered p registered' p' T)
    then show ?thesis using ok acquireOperation_ok [OF _ lease_got(3)] by simp
  next
    case (lease_waits l registered p registered' p' T)
    then show ?thesis using ok acquireOperation_ok [OF _ lease_waits(3)] by simp
  next
    case (lease_fails l registered p err registered' p' T)
    then show ?thesis using ok acquireOperation_ok [OF _ lease_fails(3)] by simp
  next
    case (replacement_starts e p started p' k T)
    then show ?thesis using ok replace_ok(1) [OF _ replacement_starts(3)] by simp
  next
    case (replace_stops e now p p' T)
    then show ?thesis using ok replace_ok(2) [OF _ replace_stops(3)] by simp
  next
    case (replace_dials e now p p' T)
    then show ?thesis using ok replace_ok(2) [OF _ replace_dials(3)] by simp
  next
    case (close_starts T p p')
    then show ?thesis using ok close_ok(1) [OF _ close_starts(5)] by simp
  next
    case (close_ends T p)
    then show ?thesis using ok close_ok(2) by simp
  next
    case (replace_ends p e T)
    then show ?thesis using ok replace_ok(3) by simp
  next
    case (acquire_canceled p exact lease g till T)
    then show ?thesis using ok unregister_ok [of p exact True] by simp
  next
    case (lease_canceled p l g T)
    then show ?thesis using ok unregister_ok [of p None True] by simp
  qed (use refl in simp_all)
qed

lemma exact_ok_grows: "exact_ok p x \<Longrightarrow> pool_grows p p' \<Longrightarrow> exact_ok p' x"
  by (simp add: exact_ok_def pool_grows_def)

lemma continue_ok: "t \<in># continueAcquire k \<Longrightarrow> names_ok p (StartsReplacement e k) \<Longrightarrow> names_ok p t"
  by (auto simp: continueAcquire_def split: option.splits prod.splits)

lemma closeTask_ok: "t \<in># closeTask b a \<Longrightarrow> a < length (pl_heap p) \<Longrightarrow> names_ok p t"
  by (auto simp: closeTask_def split: if_splits)

lemma step_pool_base:
  assumes st: "pool_step s s'" and base: "pool_base s" and use: "use_inv s"
  shows "pool_base s'"
proof -
  note ok' = step_pool_ok [OF st base use]
  have ok: "pool_ok (fst s)" and names: "\<forall>t \<in># snd s. names_ok (fst s) t" using base by (auto simp: pool_base_def)
  have old: "\<forall>t \<in># snd s. names_ok (fst s') t" using names ok' names_ok_grows by blast
  have g: "length (pl_heap (fst s)) \<le> length (pl_heap (fst s'))" "length (pl_order (fst s')) = length (pl_order (fst s))"
    using ok' by (auto simp: pool_grows_def)
  from st have "\<forall>t \<in># snd s'. names_ok (fst s') t"
  proof (cases rule: pool_step.cases)
    case (acquire_starts sel p exact T lease)
    then show ?thesis using old acquire_begin_ok by auto
  next
    case (acquire_got exact registered now p a registered' p' T)
    then show ?thesis using old g ok names acquire_ok [OF _ acquire_got(3)] by auto
  next
    case (acquire_dials exact lease registered now p e registered' p' T)
    then show ?thesis using old g ok names acquire_other_ok [OF _ acquire_dials(3)] by auto
  next
    case (acquire_dialed e p now su delay a p' exact lease registered T)
    then show ?thesis using old ok names finishDial_ok [OF _ acquire_dialed(3)] by auto
  next
    case (replace_dialed e p now su delay a p' T)
    then show ?thesis using old ok names finishDial_ok [OF _ replace_dialed(3)] by auto
  next
    case (operation_ends a now p close p' T)
    then show ?thesis using old by (auto dest: closeTask_ok)
  next
    case (lease_operation_ends l now p close p' T)
    have "ls_connection (pl_leases p ! l) < length (pl_heap p')" using lease_operation_ends ok names g(1) by (auto simp: pool_ok_def)
    then show ?thesis using lease_operation_ends old by (auto dest: closeTask_ok)
  next
    case (lease_close l p now close p' T)
    have "ls_connection (pl_leases p ! l) < length (pl_heap p')" using lease_close ok g(1) by (auto simp: pool_ok_def)
    then show ?thesis using lease_close old by (auto dest: closeTask_ok)
  next
    case (watch_ends p a replace p' T)
    then have "pc_endpoint (pl_heap p ! a) < length (pl_order p')" using ok names g(2) by (auto simp: pool_ok_def)
    then show ?thesis using watch_ends old by auto
  next
    case (replacement_starts e p started p' k T)
    then show ?thesis using old by (auto dest: continue_ok)
  next
    case (maintenance now p closes replaces p' T)
    then show ?thesis using old g ok retireExpired_ok [OF _ maintenance(3)] by auto
  next
    case (close_all p closes p' T)
    then show ?thesis using old g ok close_all_ok [OF _ close_all(3)] by auto
  qed (use old in auto)
  with ok' show ?thesis by (simp add: pool_base_def)
qed

end
