(* ===== verification/Pool_Use.thy ===== *)
theory Pool_Use
  imports Pool_Base
begin

text \<open>
  Who uses a connection of a pool: the operations in flight are counted exactly and bounded, and a leased connection belongs
  to its lease alone.
\<close>

section \<open>Leases that hold a connection\<close>

definition holding :: "lease \<Rightarrow> bool" where
  "holding ls \<longleftrightarrow> \<not> ls_closed ls \<or> 0 < ls_inFlight ls"

definition lease_inv :: "'p pool_machine \<Rightarrow> bool" where
  "lease_inv s \<longleftrightarrow>
     (\<forall>l < length (pl_leases (fst s)). holding (pl_leases (fst s) ! l) \<longrightarrow>
        InUse (ls_connection (pl_leases (fst s) ! l)) \<notin># snd s
        \<and> (pc_leased (pl_heap (fst s) ! ls_connection (pl_leases (fst s) ! l)) \<or> pc_broken (pl_heap (fst s) ! ls_connection (pl_leases (fst s) ! l)))
        \<and> (\<forall>m < length (pl_leases (fst s)). holding (pl_leases (fst s) ! m) \<longrightarrow>
             ls_connection (pl_leases (fst s) ! m) = ls_connection (pl_leases (fst s) ! l) \<longrightarrow> m = l))
     \<and> (\<forall>a < length (pl_heap (fst s)). pc_leased (pl_heap (fst s) ! a) \<longrightarrow>
          (\<exists>l < length (pl_leases (fst s)). holding (pl_leases (fst s) ! l) \<and> ls_connection (pl_leases (fst s) ! l) = a))
     \<and> (\<forall>a < length (pl_heap (fst s)). pc_inFlight (pl_heap (fst s) ! a) \<le> MaxInFlightPerConnection (pl_options (fst s)))"

lemma lease_invD:
  assumes "lease_inv (p, T)" "l < length (pl_leases p)" "holding (pl_leases p ! l)"
  shows "InUse (ls_connection (pl_leases p ! l)) \<notin># T"
    "pc_leased (pl_heap p ! ls_connection (pl_leases p ! l)) \<or> pc_broken (pl_heap p ! ls_connection (pl_leases p ! l))"
    "m < length (pl_leases p) \<Longrightarrow> holding (pl_leases p ! m) \<Longrightarrow> ls_connection (pl_leases p ! m) = ls_connection (pl_leases p ! l) \<Longrightarrow> m = l"
  using assms by (auto simp: lease_inv_def)

text \<open>A held connection carries the operations of its lease and no others.\<close>

lemma held_load:
  assumes "pool_base (p, T)" "use_inv (p, T)" "lease_inv (p, T)" "l < length (pl_leases p)" "holding (pl_leases p ! l)"
    "a = ls_connection (pl_leases p ! l)"
  shows "pc_inFlight (pl_heap p ! a) = ls_inFlight (pl_leases p ! l)"
proof -
  have a: "a < length (pl_heap p)" using assms(1,4,6) by (auto simp: pool_base_def pool_ok_def)
  have "uses p a t \<longleftrightarrow> t = LeaseInUse l" if "t \<in># T" for t
  proof (cases t)
    case (LeaseInUse m)
    then have m: "m < length (pl_leases p)" using assms(1) that by (auto simp: pool_base_def)
    have "0 < count T t" using that by simp
    then have "0 < ls_inFlight (pl_leases p ! m)" using assms(2) m LeaseInUse by (simp add: use_inv_def)
    then have "holding (pl_leases p ! m)" by (simp add: holding_def)
    then show ?thesis using lease_invD(3) [OF assms(3-5) m] LeaseInUse assms(6) by auto
  qed (use that lease_invD(1) [OF assms(3-5)] assms(6) in auto)
  then have "filter_mset (uses p a) T = filter_mset (\<lambda>t. t = LeaseInUse l) T" by (intro filter_mset_cong) auto
  then have "users p T a = count T (LeaseInUse l)" by (simp add: users_def filter_eq_replicate_mset)
  then show ?thesis using assms(2,4) a by (simp add: use_inv_def)
qed

lemma unheld:
  assumes "lease_inv (p, T)" "\<not> pc_leased (pl_heap p ! a)" "\<not> pc_broken (pl_heap p ! a)" "l < length (pl_leases p)" "holding (pl_leases p ! l)"
  shows "ls_connection (pl_leases p ! l) \<noteq> a"
  using lease_invD(2) [OF assms(1,4,5)] assms(2,3) by auto

section \<open>Sections that leave the use alone\<close>

fun is_busy :: "pool_activity \<Rightarrow> bool" where
  "is_busy (InUse a) = True"
| "is_busy (LeaseInUse l) = True"
| "is_busy t = False"

definition busy :: "pool_activity multiset \<Rightarrow> pool_activity multiset" where
  "busy T = filter_mset is_busy T"

lemma busy_simps [simp]:
  "busy {#} = {#}" "busy (add_mset t T) = (if is_busy t then add_mset t (busy T) else busy T)" "busy (S + T) = busy S + busy T"
  by (simp_all add: busy_def)

lemma busy_tasks [simp]:
  "busy (continueAcquire k) = {#}" "busy (closeTask b a) = {#}" "busy (mset (map ClosesConn as)) = {#}"
  "busy (mset (map (\<lambda>e. StartsReplacement e None) es)) = {#}" "busy (image_mset ClosesConn M) = {#}"
  "busy (image_mset (\<lambda>e. StartsReplacement e None) N) = {#}"
  by (auto simp: busy_def continueAcquire_def closeTask_def filter_mset_eq_conv split: option.splits)

lemma busy_users: "users p (busy T) a = users p T a"
proof -
  have "uses p a t \<Longrightarrow> is_busy t" for t by (cases t) auto
  then show ?thesis by (simp add: users_def busy_def filter_filter_mset) (metis (mono_tags, lifting) filter_mset_cong)
qed

lemma busy_count [simp]: "count (busy T) (LeaseInUse l) = count T (LeaseInUse l)" "InUse a \<in># busy T \<longleftrightarrow> InUse a \<in># T"
  by (simp_all add: busy_def)

definition keeps_use :: "'p pool \<Rightarrow> 'p pool \<Rightarrow> bool" where
  "keeps_use p p' \<longleftrightarrow> pl_leases p' = pl_leases p \<and> pl_options p' = pl_options p \<and> length (pl_heap p') = length (pl_heap p)
     \<and> (\<forall>a < length (pl_heap p). pc_inFlight (pl_heap p' ! a) = pc_inFlight (pl_heap p ! a)
          \<and> pc_leased (pl_heap p' ! a) = pc_leased (pl_heap p ! a) \<and> pc_broken (pl_heap p' ! a) = pc_broken (pl_heap p ! a))"

lemma keeps_use_refl [simp]: "keeps_use p p"
  by (simp add: keeps_use_def)

lemma keeps_use_same: "same_use p p' \<Longrightarrow> keeps_use p p'"
  by (simp add: keeps_use_def same_use_def)

lemma keeps_use_marks: "marks p p' \<Longrightarrow> keeps_use p p'"
  by (simp add: keeps_use_def marks_def)

lemma users_leases: "pl_leases p' = pl_leases p \<Longrightarrow> users p' T a = users p T a"
proof -
  assume l: "pl_leases p' = pl_leases p"
  have "uses p' a = uses p a" by (rule ext, rename_tac t, case_tac t) (simp_all add: l)
  then show ?thesis by (simp add: users_def)
qed

lemma use_frame:
  assumes "use_inv (p, T)" "lease_inv (p, T)" "pool_ok p" "keeps_use p p'" "busy T' = busy T"
  shows "use_inv (p', T') \<and> lease_inv (p', T')"
proof -
  have l: "pl_leases p' = pl_leases p" using assms(4) by (simp add: keeps_use_def)
  have u: "users p' T' a = users p T a" for a
    using busy_users [of p' T' a] busy_users [of p T a] assms(5) users_leases [OF l, of "busy T" a] by simp
  have c: "count T' (LeaseInUse m) = count T (LeaseInUse m)" "InUse a \<in># T' \<longleftrightarrow> InUse a \<in># T" for m a
    using assms(5) busy_count by metis+
  have conn: "\<forall>m < length (pl_leases p). ls_connection (pl_leases p ! m) < length (pl_heap p)" using assms(3) by (simp add: pool_ok_def)
  show ?thesis
    using assms(1,2,4) conn by (simp add: use_inv_def lease_inv_def keeps_use_def u c)
qed

section \<open>Sections that change the use\<close>

text \<open>One more or one less operation on a connection.\<close>

lemma use_operation:
  assumes "use_inv (p, T)" "pl_leases p' = pl_leases p" "cores p' = (cores p)[a := core c]"
    "pc_inFlight c = pc_inFlight (pl_heap p ! a) + d" "\<forall>b. int (users p T' b) = int (users p T b) + (if b = a then d else 0)"
    "\<forall>l. count T' (LeaseInUse l) = count T (LeaseInUse l)"
  shows "use_inv (p', T')"
  using assms cores_update(1,2) [OF assms(3)] users_leases [OF assms(2)] by (auto simp: use_inv_def)

lemma core_list: "pl_heap p' = (pl_heap p)[a := c] \<Longrightarrow> cores p' = (cores p)[a := core c]"
  by (simp add: cores_def map_update)

lemma acquire_use:
  assumes inv: "pool_base (p, add_mset (Acquiring exact False reg) T)" "use_inv (p, add_mset (Acquiring exact False reg) T)"
      "lease_inv (p, add_mset (Acquiring exact False reg) T)"
    and r: "acquireRound exact False reg now p = ((Acquired a, reg'), p')"
  shows "use_inv (p', add_mset (InUse a) T) \<and> lease_inv (p', add_mset (InUse a) T)"
proof -
  have ok: "pool_ok p" and ex: "exact_ok p exact" using inv(1) by (auto simp: pool_base_def)
  note eff = acquireRound_Acquired [OF r pool_ok_fields(1) [OF ok]]
  have a: "a < length (pl_heap p)" using acquire_ok [OF ok r ex] by blast
  let ?c = "(pl_heap p ! a)\<lparr>pc_inFlight := pc_inFlight (pl_heap p ! a) + 1\<rparr>"
  have c: "cores p' = (cores p)[a := core ?c]" using eff by (intro core_list) simp
  have u: "\<not> pc_leased (pl_heap p ! a)" "\<not> pc_broken (pl_heap p ! a)" "pc_inFlight (pl_heap p ! a) < MaxInFlightPerConnection (pl_options p)"
    using eff by (auto simp: usable_def Let_def)
  have conn: "\<forall>m < length (pl_leases p). ls_connection (pl_leases p ! m) < length (pl_heap p)" using ok by (simp add: pool_ok_def)
  have "use_inv (p', add_mset (InUse a) T)"
    by (rule use_operation [OF inv(2) _ c, where d = 1]) (use eff in auto)
  moreover have "lease_inv (p', add_mset (InUse a) T)"
    using inv(3) eff unheld [OF inv(3) u(1,2)] conn u(3) a
    by (auto simp: lease_inv_def nth_upd)
  ultimately show ?thesis by blast
qed

lemma release_use:
  assumes inv: "pool_base (p, add_mset (InUse a) T)" "use_inv (p, add_mset (InUse a) T)" "lease_inv (p, add_mset (InUse a) T)"
    and r: "releaseOperation a now p = (close, p')" and T': "busy T' = busy T"
  shows "use_inv (p', T') \<and> lease_inv (p', T')"
proof -
  have ok: "pool_ok p" and a: "a < length (pl_heap p)" using inv(1) by (auto simp: pool_base_def)
  note eff = releaseOperation_effect [OF r a in_use_positive [OF inv(2) a]]
  let ?c = "(pl_heap p ! a)\<lparr>pc_inFlight := pc_inFlight (pl_heap p ! a) - 1\<rparr>"
  have c: "cores p' = (cores p)[a := core ?c]" using eff by blast
  have conn: "\<forall>m < length (pl_leases p). ls_connection (pl_leases p ! m) < length (pl_heap p)" using ok by (simp add: pool_ok_def)
  have "users p T' b = users p T b" for b using busy_users [of p T' b] busy_users [of p T b] T' by simp
  moreover have b: "count T' (LeaseInUse l) = count T (LeaseInUse l)" "InUse b \<in># T' \<longleftrightarrow> InUse b \<in># T" for l b
    using T' busy_count by metis+
  ultimately have "use_inv (p', T')"
    by (intro use_operation [OF inv(2) _ c, where d = "- 1"]) (use eff in auto)
  moreover have "lease_inv (p', T')"
    using inv(3) eff conn cores_update [OF c] by (auto simp: lease_inv_def b)
  ultimately show ?thesis by blast
qed

lemma watch_use:
  assumes inv: "pool_base (p, add_mset (WatchingConn a) T)" "use_inv (p, add_mset (WatchingConn a) T)" "lease_inv (p, add_mset (WatchingConn a) T)"
    and r: "watchConnection e a p = (replace, p')" and T': "busy T' = busy T"
  shows "use_inv (p', T') \<and> lease_inv (p', T')"
proof -
  have ok: "pool_ok p" and a: "a < length (pl_heap p)" using inv(1) by (auto simp: pool_base_def)
  note eff = watchConnection_effect [OF r a]
  let ?c = "(pl_heap p ! a)\<lparr>pc_broken := True, pc_leased := False\<rparr>"
  have c: "cores p' = (cores p)[a := core ?c]" using eff by blast
  have conn: "\<forall>m < length (pl_leases p). ls_connection (pl_leases p ! m) < length (pl_heap p)" using ok by (simp add: pool_ok_def)
  have "users p T' b = users p T b" for b using busy_users [of p T' b] busy_users [of p T b] T' by simp
  moreover have b: "count T' (LeaseInUse l) = count T (LeaseInUse l)" "InUse b \<in># T' \<longleftrightarrow> InUse b \<in># T" for l b
    using T' busy_count by metis+
  ultimately have "use_inv (p', T')"
    by (intro use_operation [OF inv(2) _ c, where d = 0]) (use eff in auto)
  moreover have "lease_inv (p', T')"
    using inv(3) eff conn cores_update [OF c] by (auto simp: lease_inv_def b)
  ultimately show ?thesis by blast
qed

lemma added_use:
  assumes inv: "pool_base (p, T)" "use_inv (p, T)" "lease_inv (p, T)"
    and r: "finishDial e (dialEndpoint e s now su) now delay p = (d, p')" and e: "e < length (pl_order p)" and T': "busy T' = busy T"
  shows "use_inv (p', T') \<and> lease_inv (p', T')"
proof -
  have ok: "pool_ok p" using inv(1) by (auto simp: pool_base_def)
  note eff = finishDial_effect [OF r e]
  have conn: "\<forall>m < length (pl_leases p). ls_connection (pl_leases p ! m) < length (pl_heap p)" using ok by (simp add: pool_ok_def)
  have l: "pl_leases p' = pl_leases p" using eff by blast
  have u: "users p' T' b = users p T b" for b
    using busy_users [of p' T' b] busy_users [of p T b] T' users_leases [OF l, of "busy T" b] by simp
  have b: "count T' (LeaseInUse l) = count T (LeaseInUse l)" "InUse b \<in># T' \<longleftrightarrow> InUse b \<in># T" for l b
    using T' busy_count by metis+
  have "uses p (length (pl_heap p)) t \<Longrightarrow> t \<notin># T" for t
    using inv(1) conn by (cases t) (force simp: pool_base_def)+
  then have fresh: "users p T (length (pl_heap p)) = 0" by (auto simp: users_def)
  show ?thesis
  proof (cases d)
    case (DialAdded a)
    then have h: "pl_heap p' = pl_heap p @ [freshConnection e now]" using eff by auto
    have "use_inv (p', T')"
      using inv(2) l fresh h by (auto simp: use_inv_def u b nth_append freshConnection_def less_Suc_eq)
    moreover have "lease_inv (p', T')"
      using inv(3) l h eff conn pool_ok_fields(1) [OF ok] by (auto simp: lease_inv_def b nth_append freshConnection_def less_Suc_eq)
    ultimately show ?thesis by blast
  next
    case DialTooLate
    then have "keeps_use p p'" using eff by (simp add: keeps_use_def)
    then show ?thesis by (rule use_frame [OF inv(2,3) ok _ T'])
  next
    case (DialFailed err)
    then have "keeps_use p p'" using eff by (simp add: keeps_use_def)
    then show ?thesis by (rule use_frame [OF inv(2,3) ok _ T'])
  qed
qed

lemma lease_use:
  assumes inv: "pool_base (p, add_mset (Acquiring exact True reg) T)" "use_inv (p, add_mset (Acquiring exact True reg) T)"
      "lease_inv (p, add_mset (Acquiring exact True reg) T)"
    and r: "acquireRound exact True reg now p = ((Acquired a, reg'), p1)" "newLease a p1 = (l, p')"
  shows "use_inv (p', T) \<and> lease_inv (p', T)"
proof -
  have ok: "pool_ok p" and ex: "exact_ok p exact" using inv(1) by (auto simp: pool_base_def)
  note eff = acquireRound_Acquired [OF r(1) pool_ok_fields(1) [OF ok]]
  have a: "a < length (pl_heap p)" using acquire_ok [OF ok r(1) ex] by blast
  let ?c = "(pl_heap p ! a)\<lparr>pc_leased := True\<rparr>"
  have u: "\<not> pc_leased (pl_heap p ! a)" "\<not> pc_broken (pl_heap p ! a)" "pc_inFlight (pl_heap p ! a) = 0"
    using eff by (auto simp: usable_def Let_def)
  have h: "pl_heap p' = (pl_heap p)[a := ?c]" "pl_options p' = pl_options p"
    "pl_leases p' = pl_leases p @ [\<lparr>ls_connection = a, ls_closed = False, ls_inFlight = 0\<rparr>]"
    using eff r(2) by (auto simp: newLease_def)
  have conn: "\<forall>m < length (pl_leases p). ls_connection (pl_leases p ! m) < length (pl_heap p)" using ok by (simp add: pool_ok_def)
  have none: "users p T a = 0" using inv(2) a u(3) by (simp add: use_inv_def)
  then have no_use: "InUse a \<notin># T" by (auto simp: users_def)
  have same: "uses p' b t = uses p b t" if "t \<in># T" for t b
    using inv(1) that h(3) by (cases t) (auto simp: pool_base_def nth_append)
  then have us: "users p' T b = users p T b" for b unfolding users_def by (metis (mono_tags, lifting) filter_mset_cong)
  have new: "count T (LeaseInUse (length (pl_leases p))) = 0"
    using inv(1) by (auto simp: pool_base_def count_eq_zero_iff)
  have "use_inv (p', T)"
    using inv(2) h new by (auto simp: use_inv_def us nth_append nth_upd less_Suc_eq)
  moreover have "lease_inv (p', T)"
    using inv(3) h conn unheld [OF inv(3) u(1,2)] no_use a u(3)
    by (auto simp: lease_inv_def nth_append nth_upd less_Suc_eq holding_def)
  ultimately show ?thesis by blast
qed

text \<open>Leases that keep their connections and at most let them go.\<close>

lemma lease_inv_change:
  assumes inv: "lease_inv (p, T)" and len: "length (pl_leases p') = length (pl_leases p)" "length (pl_heap p') = length (pl_heap p)"
    and conn: "\<And>m. m < length (pl_leases p) \<Longrightarrow> ls_connection (pl_leases p' ! m) = ls_connection (pl_leases p ! m)"
    and hold: "\<And>m. m < length (pl_leases p) \<Longrightarrow> holding (pl_leases p' ! m) \<Longrightarrow> holding (pl_leases p ! m)"
    and use: "\<And>b. InUse b \<in># T' \<Longrightarrow> InUse b \<in># T"
    and held: "\<And>m. m < length (pl_leases p) \<Longrightarrow> holding (pl_leases p' ! m) \<Longrightarrow>
      pc_leased (pl_heap p' ! ls_connection (pl_leases p ! m)) \<or> pc_broken (pl_heap p' ! ls_connection (pl_leases p ! m))"
    and leased: "\<And>b m. b < length (pl_heap p) \<Longrightarrow> pc_leased (pl_heap p' ! b) \<Longrightarrow> m < length (pl_leases p) \<Longrightarrow>
      pc_leased (pl_heap p ! b) \<and> (holding (pl_leases p ! m) \<longrightarrow> ls_connection (pl_leases p ! m) = b \<longrightarrow> holding (pl_leases p' ! m))"
    and leased0: "\<And>b. b < length (pl_heap p) \<Longrightarrow> pc_leased (pl_heap p' ! b) \<Longrightarrow> pc_leased (pl_heap p ! b)"
    and bound: "\<And>b. b < length (pl_heap p) \<Longrightarrow> pc_inFlight (pl_heap p' ! b) \<le> MaxInFlightPerConnection (pl_options p')"
  shows "lease_inv (p', T')"
  unfolding lease_inv_def fst_conv snd_conv len
proof (intro conjI allI impI)
  fix l assume l: "l < length (pl_leases p)" "holding (pl_leases p' ! l)"
  note D = lease_invD [OF inv l(1) hold [OF l]]
  show "InUse (ls_connection (pl_leases p' ! l)) \<notin># T'" using D(1) use conn l(1) by auto
  show "pc_leased (pl_heap p' ! ls_connection (pl_leases p' ! l)) \<or> pc_broken (pl_heap p' ! ls_connection (pl_leases p' ! l))"
    using held [OF l] conn [OF l(1)] by simp
  fix m assume "m < length (pl_leases p)" "holding (pl_leases p' ! m)" "ls_connection (pl_leases p' ! m) = ls_connection (pl_leases p' ! l)"
  then show "m = l" using D(3) [of m] hold conn l(1) by auto
next
  fix b assume b: "b < length (pl_heap p)" "pc_leased (pl_heap p' ! b)"
  then obtain l where l: "l < length (pl_leases p)" "holding (pl_leases p ! l)" "ls_connection (pl_leases p ! l) = b"
    using inv leased0 by (auto simp: lease_inv_def)
  then show "\<exists>l < length (pl_leases p). holding (pl_leases p' ! l) \<and> ls_connection (pl_leases p' ! l) = b"
    using leased [OF b l(1)] conn by auto
qed (rule bound)

lemma uses_update:
  "ls_connection (f (pl_leases p ! l)) = ls_connection (pl_leases p ! l) \<Longrightarrow> pl_leases p' = (pl_leases p)[l := f (pl_leases p ! l)] \<Longrightarrow>
     users p' T b = users p T b"
proof -
  assume f: "ls_connection (f (pl_leases p ! l)) = ls_connection (pl_leases p ! l)" "pl_leases p' = (pl_leases p)[l := f (pl_leases p ! l)]"
  have "ls_connection (pl_leases p' ! m) = ls_connection (pl_leases p ! m)" for m
    using f by (cases "m = l"; cases "l < length (pl_leases p)") (auto simp: list_update_beyond)
  then have "uses p' b = uses p b" by (intro ext, rename_tac t, case_tac t) simp_all
  then show ?thesis by (simp add: users_def)
qed

lemma lease_operation_use:
  assumes inv: "pool_base (p, add_mset (LeaseAcquiring l reg) T)" "use_inv (p, add_mset (LeaseAcquiring l reg) T)"
      "lease_inv (p, add_mset (LeaseAcquiring l reg) T)"
    and r: "acquireOperation l reg p = ((LeaseAcquired, reg'), p')"
  shows "use_inv (p', add_mset (LeaseInUse l) T) \<and> lease_inv (p', add_mset (LeaseInUse l) T)"
proof -
  have ok: "pool_ok p" and l: "l < length (pl_leases p)" using inv(1) by (auto simp: pool_base_def)
  define a where "a = ls_connection (pl_leases p ! l)"
  have a: "a < length (pl_heap p)" using ok l by (simp add: pool_ok_def a_def)
  have conn: "\<forall>m < length (pl_leases p). ls_connection (pl_leases p ! m) < length (pl_heap p)" using ok by (simp add: pool_ok_def)
  have eff: "pl_leases p' = (pl_leases p)[l := (pl_leases p ! l)\<lparr>ls_inFlight := ls_inFlight (pl_leases p ! l) + 1\<rparr>]"
    "pl_heap p' = (pl_heap p)[a := (pl_heap p ! a)\<lparr>pc_inFlight := pc_inFlight (pl_heap p ! a) + 1\<rparr>]"
    "pl_options p' = pl_options p" "\<not> ls_closed (pl_leases p ! l)" "ls_inFlight (pl_leases p ! l) < MaxInFlightPerConnection (pl_options p)"
    using acquireOperation_effect [OF r] by (auto simp: Let_def a_def)
  have hold: "holding (pl_leases p ! l)" using eff(4) by (simp add: holding_def)
  have load: "pc_inFlight (pl_heap p ! a) = ls_inFlight (pl_leases p ! l)" by (rule held_load [OF inv l hold a_def])
  have us: "users p' T b = users p T b" for b using uses_update [of "\<lambda>s. s\<lparr>ls_inFlight := ls_inFlight s + 1\<rparr>"] eff(1) by simp
  have ua: "uses p' b (LeaseInUse l) \<longleftrightarrow> b = a" for b using eff(1) l by (auto simp: a_def nth_upd)
  have "use_inv (p', add_mset (LeaseInUse l) T)"
    using inv(2) eff(1,2) us ua by (auto simp: use_inv_def nth_upd)
  moreover have h: "holding (pl_leases p' ! m) = holding (pl_leases p ! m)" "ls_connection (pl_leases p' ! m) = ls_connection (pl_leases p ! m)"
    if "m < length (pl_leases p)" for m
    using that eff(1,4) by (auto simp: nth_upd holding_def)
  have "lease_inv (p', add_mset (LeaseInUse l) T)"
  proof (rule lease_inv_change [OF inv(3)])
    fix m assume m: "m < length (pl_leases p)" "holding (pl_leases p' ! m)"
    then show "pc_leased (pl_heap p' ! ls_connection (pl_leases p ! m)) \<or> pc_broken (pl_heap p' ! ls_connection (pl_leases p ! m))"
      using lease_invD(2) [OF inv(3), of m] h conn eff(2) by (auto simp: nth_upd)
  next
    fix b assume "b < length (pl_heap p)"
    then show "pc_inFlight (pl_heap p' ! b) \<le> MaxInFlightPerConnection (pl_options p')"
      using inv(3) eff(2,3,5) load by (auto simp: lease_inv_def nth_upd)
  qed (use h eff in \<open>auto simp: nth_upd split: if_splits\<close>)
  ultimately show ?thesis by blast
qed

lemma lease_close_use:
  assumes inv: "pool_base (p, T)" "use_inv (p, T)" "lease_inv (p, T)" and l: "l < length (pl_leases p)" "\<not> ls_closed (pl_leases p ! l)"
    and r: "Lease_Close l now p = (close, p')" and T': "busy T' = busy T"
  shows "use_inv (p', T') \<and> lease_inv (p', T')"
proof -
  have ok: "pool_ok p" using inv(1) by (auto simp: pool_base_def)
  define a where "a = ls_connection (pl_leases p ! l)"
  have a: "a < length (pl_heap p)" using ok l by (simp add: pool_ok_def a_def)
  have conn: "\<forall>m < length (pl_leases p). ls_connection (pl_leases p ! m) < length (pl_heap p)" using ok by (simp add: pool_ok_def)
  note eff = Lease_Close_effect [OF r a_def a]
  then have c: "cores p' = (cores p)[a := core ((pl_heap p ! a)\<lparr>pc_leased := pc_leased (pl_heap p ! a) \<and> ls_inFlight (pl_leases p ! l) \<noteq> 0\<rparr>)]"
    by blast
  have ls: "pl_leases p' = (pl_leases p)[l := (pl_leases p ! l)\<lparr>ls_closed := True\<rparr>]" using eff by blast
  have hold: "holding (pl_leases p ! l)" using l(2) by (simp add: holding_def)
  note D = lease_invD [OF inv(3) l(1) hold, folded a_def]
  have pos: "0 \<le> ls_inFlight (pl_leases p ! l)" using inv(2) l(1) by (simp add: use_inv_def)
  have us: "users p' T' b = users p T b" for b
    using uses_update [of "\<lambda>s. s\<lparr>ls_closed := True\<rparr>" p l p' "busy T" b] ls busy_users [of p' T' b] busy_users [of p T b] T' by simp
  have b: "count T' (LeaseInUse m) = count T (LeaseInUse m)" "InUse b \<in># T' \<longleftrightarrow> InUse b \<in># T" for m b
    using T' busy_count by metis+
  have "use_inv (p', T')"
    using inv(2) ls cores_update(1,2) [OF c] by (auto simp: use_inv_def us b nth_upd)
  moreover have h: "holding (pl_leases p' ! m) \<longleftrightarrow> holding (pl_leases p ! m) \<and> (m = l \<longrightarrow> ls_inFlight (pl_leases p ! l) \<noteq> 0)"
    "ls_connection (pl_leases p' ! m) = ls_connection (pl_leases p ! m)"
    if "m < length (pl_leases p)" for m
    using that ls hold pos by (auto simp: nth_upd holding_def)
  have "lease_inv (p', T')"
  proof (rule lease_inv_change [OF inv(3)])
    fix m assume m: "m < length (pl_leases p)" "holding (pl_leases p' ! m)"
    then have hm: "holding (pl_leases p ! m)" "m = l \<longrightarrow> ls_inFlight (pl_leases p ! l) \<noteq> 0" using h by auto
    have "ls_connection (pl_leases p ! m) = a \<longrightarrow> m = l" using D(3) [OF m(1) hm(1)] by blast
    then show "pc_leased (pl_heap p' ! ls_connection (pl_leases p ! m)) \<or> pc_broken (pl_heap p' ! ls_connection (pl_leases p ! m))"
      using lease_invD(2) [OF inv(3) m(1) hm(1)] conn m(1) cores_update(3,4) [OF c] hm(2) by (auto split: if_splits)
  next
    fix b' m assume "b' < length (pl_heap p)" "pc_leased (pl_heap p' ! b')" "m < length (pl_leases p)"
    then show "pc_leased (pl_heap p ! b') \<and> (holding (pl_leases p ! m) \<longrightarrow> ls_connection (pl_leases p ! m) = b' \<longrightarrow> holding (pl_leases p' ! m))"
      using cores_update(3) [OF c, of b'] h by (auto simp: a_def split: if_splits)
  qed (use h ls b cores_update [OF c] inv(3) eff in \<open>auto simp: lease_inv_def split: if_splits\<close>)
  ultimately show ?thesis by blast
qed

lemma lease_release_use:
  assumes inv: "pool_base (p, add_mset (LeaseInUse l) T)" "use_inv (p, add_mset (LeaseInUse l) T)" "lease_inv (p, add_mset (LeaseInUse l) T)"
    and r: "releaseLeaseOperation l now p = (close, p')" and T': "busy T' = busy T"
  shows "use_inv (p', T') \<and> lease_inv (p', T')"
proof -
  have ok: "pool_ok p" and l: "l < length (pl_leases p)" using inv(1) by (auto simp: pool_base_def)
  define a where "a = ls_connection (pl_leases p ! l)"
  note pos = lease_in_use_positive [OF inv(2) l ok, folded a_def]
  have conn: "\<forall>m < length (pl_leases p). ls_connection (pl_leases p ! m) < length (pl_heap p)" using ok by (simp add: pool_ok_def)
  note eff = releaseLeaseOperation_effect [OF r l pos(1) a_def pos(3,2)]
  have hold: "holding (pl_leases p ! l)" using pos(1) by (simp add: holding_def)
  have load: "pc_inFlight (pl_heap p ! a) = ls_inFlight (pl_leases p ! l)" by (rule held_load [OF inv l hold a_def])
  note D = lease_invD [OF inv(3) l hold, folded a_def]
  let ?last = "ls_inFlight (pl_leases p ! l) = 1 \<and> ls_closed (pl_leases p ! l)"
  have c: "cores p' = (cores p)[a := core ((pl_heap p ! a)\<lparr>pc_inFlight := ls_inFlight (pl_leases p ! l) - 1,
      pc_leased := pc_leased (pl_heap p ! a) \<and> \<not> ?last\<rparr>)]"
    using eff by (simp add: load)
  have ls: "pl_leases p' = (pl_leases p)[l := (pl_leases p ! l)\<lparr>ls_inFlight := ls_inFlight (pl_leases p ! l) - 1\<rparr>]" using eff by blast
  have us: "users p' T' b = users p T b" for b
    using uses_update [of "\<lambda>s. s\<lparr>ls_inFlight := ls_inFlight s - 1\<rparr>" p l p' "busy T" b] ls busy_users [of p' T' b] busy_users [of p T b] T' by simp
  have b: "count T' (LeaseInUse m) = count T (LeaseInUse m)" "InUse b \<in># T' \<longleftrightarrow> InUse b \<in># T" for m b
    using T' busy_count by metis+
  have "use_inv (p', T')"
    using inv(2) ls cores_update(1,2) [OF c] load pos(3) l by (auto simp: use_inv_def us b nth_upd a_def [symmetric])
  moreover have h: "holding (pl_leases p' ! m) \<longleftrightarrow> holding (pl_leases p ! m) \<and> (m = l \<longrightarrow> \<not> ?last)"
    "ls_connection (pl_leases p' ! m) = ls_connection (pl_leases p ! m)"
    if "m < length (pl_leases p)" for m
    using that ls pos(1) by (auto simp: nth_upd holding_def)
  have "lease_inv (p', T')"
  proof (rule lease_inv_change [OF inv(3)])
    fix m assume m: "m < length (pl_leases p)" "holding (pl_leases p' ! m)"
    then have hm: "holding (pl_leases p ! m)" "m = l \<longrightarrow> \<not> ?last" using h by auto
    have "ls_connection (pl_leases p ! m) = a \<longrightarrow> m = l" using D(3) [OF m(1) hm(1)] by blast
    then show "pc_leased (pl_heap p' ! ls_connection (pl_leases p ! m)) \<or> pc_broken (pl_heap p' ! ls_connection (pl_leases p ! m))"
      using lease_invD(2) [OF inv(3) m(1) hm(1)] conn m(1) cores_update(3,4) [OF c] hm(2) by (auto split: if_splits)
  next
    fix b' m assume "b' < length (pl_heap p)" "pc_leased (pl_heap p' ! b')" "m < length (pl_leases p)"
    then show "pc_leased (pl_heap p ! b') \<and> (holding (pl_leases p ! m) \<longrightarrow> ls_connection (pl_leases p ! m) = b' \<longrightarrow> holding (pl_leases p' ! m))"
      using cores_update(3) [OF c, of b'] h by (auto simp: a_def split: if_splits)
  next
    fix b' assume b': "b' < length (pl_heap p)"
    then have "pc_inFlight (pl_heap p ! b') \<le> MaxInFlightPerConnection (pl_options p)" using inv(3) by (auto simp: lease_inv_def)
    then show "pc_inFlight (pl_heap p' ! b') \<le> MaxInFlightPerConnection (pl_options p')"
      using cores_update(2) [OF c b'] eff load by (auto split: if_splits)
  qed (use h ls b cores_update [OF c] in \<open>auto split: if_splits\<close>)
  ultimately show ?thesis by blast
qed

section \<open>Preservation\<close>

lemma step_use_inv:
  assumes st: "pool_step s s'" and base: "pool_base s" and inv: "use_inv s" "lease_inv s"
  shows "use_inv s' \<and> lease_inv s'"
proof -
  have ok: "pool_ok (fst s)" using base by (simp add: pool_base_def)
  have frame: "use_inv (p', T') \<and> lease_inv (p', T')" if "s = (p, T)" "keeps_use p p'" "busy T' = busy T" for p T p' T'
    using use_frame [of p T p' T'] inv ok that by simp
  have other: "keeps_use p p'" if "acquireRound exact lease reg now p = ((r, reg'), p')" "s = (p, T)" "\<forall>a. r \<noteq> Acquired a" for exact lease reg now p r reg' p' T
    using acquireRound_other [OF that(1) pool_ok_fields(1)] ok that by (intro keeps_use_same) simp
  have dial: "use_inv (p', T') \<and> lease_inv (p', T')"
    if "s = (p, T)" "finishDial e (dialEndpoint e (pl_order p ! e) now su) now delay p = (d, p')" "e < length (pl_order p)" "busy T' = busy T"
    for p T e now su delay d p' T'
    using added_use [OF _ _ _ that(2-4)] base inv that(1) by simp
  from st show ?thesis
  proof (cases rule: pool_step.cases)
    case (acquire_got exact registered now p a registered' p' T)
    then show ?thesis using acquire_use base inv by simp
  next
    case (acquire_lease exact registered now p a registered' p1 l p' T)
    then show ?thesis using lease_use base inv by simp
  next
    case (acquire_dials exact lease registered now p e registered' p' T)
    show ?thesis unfolding acquire_dials(2)
      by (rule frame [OF acquire_dials(1) other [OF acquire_dials(3) acquire_dials(1)]]) simp_all
  next
    case (acquire_waits now exact lease registered p till registered' p' T)
    show ?thesis unfolding acquire_waits(2)
      by (rule frame [OF acquire_waits(1) other [OF acquire_waits(4) acquire_waits(1)]]) simp_all
  next
    case (acquire_fails exact lease registered now p err registered' p' T)
    show ?thesis unfolding acquire_fails(2)
      by (rule frame [OF acquire_fails(1) other [OF acquire_fails(3) acquire_fails(1)]]) simp_all
  next
    case (acquire_dialed e p now su delay a p' exact lease registered T)
    show ?thesis unfolding acquire_dialed(2) by (rule dial [OF acquire_dialed(1,3)]) (use base in \<open>auto simp: pool_base_def acquire_dialed(1)\<close>)
  next
    case (acquire_dialed_late e p now su delay p' exact lease registered T)
    show ?thesis unfolding acquire_dialed_late(2) by (rule dial [OF acquire_dialed_late(1,3)]) (use base in \<open>auto simp: pool_base_def acquire_dialed_late(1)\<close>)
  next
    case (acquire_dial_failed e p now su delay err p' k ctx exact lease registered T)
    show ?thesis unfolding acquire_dial_failed(2) by (rule dial [OF acquire_dial_failed(1,3)]) (use base in \<open>auto simp: pool_base_def acquire_dial_failed(1)\<close>)
  next
    case (replace_dialed e p now su delay a p' T)
    show ?thesis unfolding replace_dialed(2) by (rule dial [OF replace_dialed(1,3)]) (use base in \<open>auto simp: pool_base_def replace_dialed(1)\<close>)
  next
    case (replace_dialed_late e p now su delay p' T)
    show ?thesis unfolding replace_dialed_late(2) by (rule dial [OF replace_dialed_late(1,3)]) (use base in \<open>auto simp: pool_base_def replace_dialed_late(1)\<close>)
  next
    case (replace_dial_failed e p now su delay err p' T)
    show ?thesis unfolding replace_dial_failed(2) by (rule dial [OF replace_dial_failed(1,3)]) (use base in \<open>auto simp: pool_base_def replace_dial_failed(1)\<close>)
  next
    case (operation_ends a now p close p' T)
    then show ?thesis using release_use [OF _ _ _ operation_ends(3)] base inv by simp
  next
    case (lease_got l registered p registered' p' T)
    then show ?thesis using lease_operation_use base inv by simp
  next
    case (lease_waits l registered p registered' p' T)
    then show ?thesis using frame [OF lease_waits(1) keeps_use_same] acquireOperation_effect [OF lease_waits(3)] by simp
  next
    case (lease_fails l registered p err registered' p' T)
    then show ?thesis using frame [OF lease_fails(1) keeps_use_same] acquireOperation_effect [OF lease_fails(3)] by simp
  next
    case (lease_operation_ends l now p close p' T)
    then show ?thesis using lease_release_use [OF _ _ _ lease_operation_ends(3)] base inv by simp
  next
    case (lease_close l p now close p' T)
    then show ?thesis using lease_close_use [OF _ _ _ lease_close(3-5)] base inv by simp
  next
    case (watch_ends p a replace p' T)
    then show ?thesis using watch_use [OF _ _ _ watch_ends(4)] base inv by simp
  next
    case (maintenance now p closes replaces p' T)
    show ?thesis unfolding maintenance(2)
      by (rule frame [OF maintenance(1) keeps_use_marks [OF retireExpired_marks [OF maintenance(3)]]]) simp
  next
    case (close_all p closes p' T)
    show ?thesis unfolding close_all(2)
      by (rule frame [OF close_all(1) keeps_use_marks [OF PoolClose_marks [OF close_all(3)]]]) simp
  next
    case (conn_breaks a p T)
    show ?thesis unfolding conn_breaks(2) by (rule frame [OF conn_breaks(1) keeps_use_marks [OF done_marks]]) simp
  next
    case (conn_closes p a T)
    show ?thesis unfolding conn_closes(2) by (rule frame [OF conn_closes(1) keeps_use_marks [OF done_marks]]) simp
  next
    case (replacement_starts e p started p' k T)
    have "same_use p p'" using replacement_starts(3) by (auto simp: startReplacement_def same_use_def split: if_splits)
    then show ?thesis unfolding replacement_starts(2) by (intro frame [OF replacement_starts(1) keeps_use_same]) simp_all
  next
    case (replace_stops e now p p' T)
    have "same_use p p'" using replace_stops(3) by (auto simp: replaceRound_def same_use_def Let_def split: if_splits)
    then show ?thesis unfolding replace_stops(2) by (intro frame [OF replace_stops(1) keeps_use_same]) simp_all
  next
    case (replace_dials e now p p' T)
    have "same_use p p'" using replace_dials(3) by (auto simp: replaceRound_def same_use_def Let_def split: if_splits)
    then show ?thesis unfolding replace_dials(2) by (intro frame [OF replace_dials(1) keeps_use_same]) simp_all
  next
    case (close_starts T p p')
    have "same_use p p'" using close_starts(5) by (auto simp: PoolClose_begin_def same_use_def split: if_splits)
    then show ?thesis unfolding close_starts(2) by (intro frame [OF close_starts(1) keeps_use_same]) simp_all
  next
    case (acquire_starts sel p exact T lease)
    show ?thesis unfolding acquire_starts(2)
      by (rule frame [OF acquire_starts(1)]) (simp_all add: keeps_use_def replaceDone_def PoolClose_end_def)
  next
    case (acquire_wakes g p till exact lease T)
    show ?thesis unfolding acquire_wakes(2)
      by (rule frame [OF acquire_wakes(1)]) (simp_all add: keeps_use_def replaceDone_def PoolClose_end_def)
  next
    case (acquire_canceled p exact lease g till T)
    show ?thesis unfolding acquire_canceled(2)
      by (rule frame [OF acquire_canceled(1)]) (simp_all add: keeps_use_def replaceDone_def PoolClose_end_def)
  next
    case (lease_operation l p T)
    show ?thesis unfolding lease_operation(2)
      by (rule frame [OF lease_operation(1)]) (simp_all add: keeps_use_def replaceDone_def PoolClose_end_def)
  next
    case (lease_wakes g p l T)
    show ?thesis unfolding lease_wakes(2)
      by (rule frame [OF lease_wakes(1)]) (simp_all add: keeps_use_def replaceDone_def PoolClose_end_def)
  next
    case (lease_canceled p l g T)
    show ?thesis unfolding lease_canceled(2)
      by (rule frame [OF lease_canceled(1)]) (simp_all add: keeps_use_def replaceDone_def PoolClose_end_def)
  next
    case (replace_ends p e T)
    show ?thesis unfolding replace_ends(2)
      by (rule frame [OF replace_ends(1)]) (simp_all add: keeps_use_def replaceDone_def PoolClose_end_def)
  next
    case (close_ends T p)
    show ?thesis unfolding close_ends(2)
      by (rule frame [OF close_ends(1)]) (simp_all add: keeps_use_def replaceDone_def PoolClose_end_def)
  qed
qed

end
