(* ===== verification/Pool_Capacity.thy ===== *)
theory Pool_Capacity
  imports Pool_Use
begin

text \<open>
  Capacity of a pool: how many connections an endpoint can have, how many callers can wait, and that a waiting caller
  misses no change.
\<close>

section \<open>Connections per endpoint\<close>

fun dials :: "pool_activity \<Rightarrow> nat set" where
  "dials (AcquireDials exact lease registered e) = {e}"
| "dials t = {}"

fun replaces :: "pool_activity \<Rightarrow> nat set" where
  "replaces (Replaces e) = {e}"
| "replaces (ReplaceDialing e) = {e}"
| "replaces (ReplaceEnds e) = {e}"
| "replaces t = {}"

definition dialers :: "pool_activity multiset \<Rightarrow> nat \<Rightarrow> nat" where
  "dialers T e = size (filter_mset (\<lambda>t. e \<in> dials t) T)"

definition replacers :: "pool_activity multiset \<Rightarrow> nat \<Rightarrow> nat" where
  "replacers T e = size (filter_mset (\<lambda>t. e \<in> replaces t) T)"

lemma dialers_simps [simp]:
  "dialers {#} e = 0" "dialers (add_mset t T) e = of_bool (e \<in> dials t) + dialers T e" "dialers (S + T) e = dialers S e + dialers T e"
  "replacers {#} e = 0" "replacers (add_mset t T) e = of_bool (e \<in> replaces t) + replacers T e"
  "replacers (S + T) e = replacers S e + replacers T e"
  by (simp_all add: dialers_def replacers_def)

lemma tasks_dial [simp]:
  "dialers (continueAcquire k) e = 0" "dialers (closeTask b a) e = 0" "dialers (image_mset ClosesConn M) e = 0"
  "dialers (image_mset (\<lambda>d. StartsReplacement d None) N) e = 0"
  "replacers (continueAcquire k) e = 0" "replacers (closeTask b a) e = 0" "replacers (image_mset ClosesConn M) e = 0"
  "replacers (image_mset (\<lambda>d. StartsReplacement d None) N) e = 0"
  "count (continueAcquire k) (ReplaceDialing e) = 0" "count (closeTask b a) (ReplaceDialing e) = 0"
  "count (image_mset ClosesConn M) (ReplaceDialing e) = 0" "count (image_mset (\<lambda>d. StartsReplacement d None) N) (ReplaceDialing e) = 0"
  by (auto simp: dialers_def replacers_def continueAcquire_def closeTask_def count_eq_zero_iff split: option.splits)

definition endpoint_load :: "'p pool \<Rightarrow> nat \<Rightarrow> int" where
  "endpoint_load p e = es_dialing (pl_order p ! e) + live_count p e"

text \<open>The dials in progress are counted, an endpoint has at most one replacer, and the connections of an endpoint exceed their
  maximum by at most one.\<close>

definition dial_inv :: "'p pool_machine \<Rightarrow> bool" where
  "dial_inv s \<longleftrightarrow> (\<forall>e < length (pl_order (fst s)).
     es_dialing (pl_order (fst s) ! e) = int (dialers (snd s) e) + int (count (snd s) (ReplaceDialing e))
     \<and> replacers (snd s) e = of_bool (es_replacing (pl_order (fst s) ! e))
     \<and> int (dialers (snd s) e) \<le> MaxConnectionsPerEndpoint (pl_options (fst s))
     \<and> endpoint_load (fst s) e \<le> MaxConnectionsPerEndpoint (pl_options (fst s)) + 1)"

lemma live_count_mset: "live_count p e = int (size (filter_mset (\<lambda>a. connection_live (pl_heap p ! a)) (mset (es_connections (pl_order p ! e)))))"
  by (simp add: live_count_def flip: mset_filter)

lemma live_count_nonneg [simp]: "0 \<le> live_count p e"
  by (simp add: live_count_def)

lemma live_count_mono:
  assumes "shrinks p p'" "pool_ok p" "\<forall>a < length (pl_heap p). connection_live (pl_heap p' ! a) \<longrightarrow> connection_live (pl_heap p ! a)"
    "e < length (pl_order p)"
  shows "live_count p' e \<le> live_count p e"
proof -
  let ?cs = "mset (es_connections (pl_order p ! e))" and ?cs' = "mset (es_connections (pl_order p' ! e))"
  have sub: "?cs' \<subseteq># ?cs" using assms(1,4) by (simp add: shrinks_def)
  have len: "\<forall>a \<in># ?cs. a < length (pl_heap p)" using assms(2,4) by (simp add: pool_ok_def)
  have "filter_mset (\<lambda>a. connection_live (pl_heap p' ! a)) ?cs' \<subseteq># filter_mset (\<lambda>a. connection_live (pl_heap p ! a)) ?cs"
    using assms(3) len mset_subset_eqD [OF sub] by (intro filter_mset_mono_strong [OF sub]) blast
  then show ?thesis unfolding live_count_mset using size_mset_mono by fastforce
qed

lemma dial_frame:
  assumes "dial_inv (p, T)" "pool_ok p" "shrinks p p'" "pl_options p' = pl_options p"
    "\<forall>a < length (pl_heap p). connection_live (pl_heap p' ! a) \<longrightarrow> connection_live (pl_heap p ! a)"
    "\<forall>e. dialers T' e = dialers T e" "\<forall>e. replacers T' e = replacers T e" "\<forall>e. count T' (ReplaceDialing e) = count T (ReplaceDialing e)"
  shows "dial_inv (p', T')"
proof -
  have "live_count p' e \<le> live_count p e" if "e < length (pl_order p)" for e using live_count_mono [OF assms(3,2,5) that] .
  then show ?thesis using assms by (fastforce simp: dial_inv_def endpoint_load_def shrinks_def)
qed

lemma live_cores: "cores p' = (cores p)[a := core c] \<Longrightarrow> (connection_live c \<longrightarrow> connection_live (pl_heap p ! a)) \<Longrightarrow>
    \<forall>b < length (pl_heap p). connection_live (pl_heap p' ! b) \<longrightarrow> connection_live (pl_heap p ! b)"
  using cores_update(4,5) [of p' p a c] by (auto simp: connection_live_def split: if_splits)

lemma live_marks: "marks p p' \<Longrightarrow> \<forall>b < length (pl_heap p). connection_live (pl_heap p' ! b) \<longrightarrow> connection_live (pl_heap p ! b)"
  by (auto simp: marks_def connection_live_def)

text \<open>An update of one endpoint that leaves its connections alone.\<close>

lemma live_count_order: "pl_heap p' = pl_heap p \<Longrightarrow> es_connections (pl_order p' ! e) = es_connections (pl_order p ! e) \<Longrightarrow> live_count p' e = live_count p e"
  by (simp add: live_count_def)

lemma dialing_counts:
  assumes "dial_inv (p, T)" "e < length (pl_order p)"
  shows "es_dialing (pl_order p ! e) = int (dialers T e) + int (count T (ReplaceDialing e))"
    "replacers T e = of_bool (es_replacing (pl_order p ! e))" "int (dialers T e) \<le> MaxConnectionsPerEndpoint (pl_options p)"
    "es_dialing (pl_order p ! e) + live_count p e \<le> MaxConnectionsPerEndpoint (pl_options p) + 1"
  using assms by (auto simp: dial_inv_def endpoint_load_def)

lemma dial_update:
  assumes inv: "dial_inv (p, T)" and same: "pl_heap p' = pl_heap p" "pl_options p' = pl_options p" "pl_order p' = (pl_order p)[e := s]"
    and s: "es_connections s = es_connections (pl_order p ! e)"
    and other: "\<forall>d. d \<noteq> e \<longrightarrow> dialers T' d = dialers T d \<and> replacers T' d = replacers T d \<and> count T' (ReplaceDialing d) = count T (ReplaceDialing d)"
    and new: "e < length (pl_order p) \<Longrightarrow> es_dialing s = int (dialers T' e) + int (count T' (ReplaceDialing e))
      \<and> replacers T' e = of_bool (es_replacing s) \<and> int (dialers T' e) \<le> MaxConnectionsPerEndpoint (pl_options p)
      \<and> es_dialing s + live_count p e \<le> MaxConnectionsPerEndpoint (pl_options p) + 1"
  shows "dial_inv (p', T')"
proof -
  have lc: "live_count p' d = live_count p d" if "d < length (pl_order p)" for d
    using that same(3) s by (intro live_count_order [OF same(1)]) (simp add: nth_upd)
  show ?thesis unfolding dial_inv_def fst_conv snd_conv
  proof (intro allI impI)
    fix d assume "d < length (pl_order p')"
    then have d: "d < length (pl_order p)" using same(3) by simp
    show "es_dialing (pl_order p' ! d) = int (dialers T' d) + int (count T' (ReplaceDialing d))
        \<and> replacers T' d = of_bool (es_replacing (pl_order p' ! d)) \<and> int (dialers T' d) \<le> MaxConnectionsPerEndpoint (pl_options p')
        \<and> endpoint_load p' d \<le> MaxConnectionsPerEndpoint (pl_options p') + 1"
    proof (cases "d = e")
      case True
      then show ?thesis using new d lc [OF d] same by (simp add: endpoint_load_def)
    next
      case False
      then show ?thesis using dialing_counts [OF inv d] other d lc [OF d] same by (simp add: endpoint_load_def)
    qed
  qed
qed

lemma no_live: "\<not> endpointHasLiveConnectionLocked e p \<Longrightarrow> live_count p e = 0"
  by (auto simp: endpointHasLiveConnectionLocked_def live_count_def list_ex_iff filter_empty_conv)

lemma one_replacer: "dial_inv (p, add_mset t T) \<Longrightarrow> e < length (pl_order p) \<Longrightarrow> e \<in> replaces t \<Longrightarrow>
    es_replacing (pl_order p ! e) \<and> replacers T e = 0 \<and> count T (ReplaceDialing e) = 0"
proof -
  assume inv: "dial_inv (p, add_mset t T)" "e < length (pl_order p)" "e \<in> replaces t"
  have "replacers (add_mset t T) e = of_bool (es_replacing (pl_order p ! e))" using dialing_counts(2) [OF inv(1,2)] .
  then have r: "es_replacing (pl_order p ! e)" "replacers T e = 0" using inv(3) by (cases "es_replacing (pl_order p ! e)"; simp)+
  have "ReplaceDialing e \<notin># T" using r(2) by (auto simp: replacers_def)
  then show ?thesis using r by (simp add: count_eq_zero_iff)
qed

text \<open>The end of a dial.\<close>

lemma dialed_inv:
  assumes inv: "dial_inv (p, T)" and ok: "pool_ok p" and e: "e < length (pl_order p)"
    and r: "finishDial e (dialEndpoint e s now su) now delay p = (d, p')"
    and other: "\<forall>x. x \<noteq> e \<longrightarrow> dialers T' x = dialers T x \<and> replacers T' x = replacers T x \<and> count T' (ReplaceDialing x) = count T (ReplaceDialing x)"
    and this_one: "int (dialers T' e) + int (count T' (ReplaceDialing e)) = int (dialers T e) + int (count T (ReplaceDialing e)) - 1"
      "replacers T' e = replacers T e" "dialers T' e \<le> dialers T e"
  shows "dial_inv (p', T')"
proof -
  note eff = finishDial_effect [OF r e] and c = dialing_counts [OF inv e]
  show ?thesis
  proof (cases d)
    case (DialAdded a)
    then have h: "pl_heap p' = pl_heap p @ [freshConnection e now]" "a = length (pl_heap p)" "pl_options p' = pl_options p"
      "pl_order p' = (pl_order p)[e := (pl_order p ! e)\<lparr>es_dialing := es_dialing (pl_order p ! e) - 1,
         es_connections := es_connections (pl_order p ! e) @ [a], es_backoff := 0, es_nextDial := 0\<rparr>]"
      using eff by auto
    have old: "filter (\<lambda>a. connection_live (pl_heap p' ! a)) (es_connections (pl_order p ! x))
        = filter (\<lambda>a. connection_live (pl_heap p ! a)) (es_connections (pl_order p ! x))" if "x < length (pl_order p)" for x
      using ok that h(1) by (intro filter_cong) (auto simp: pool_ok_def nth_append)
    have live: "live_count p' x = live_count p x + of_bool (x = e)" if "x < length (pl_order p)" for x
      using old [OF that] that h e by (auto simp: live_count_def nth_upd nth_append connection_live_def freshConnection_def)
    show ?thesis unfolding dial_inv_def fst_conv snd_conv
    proof (intro allI impI)
      fix x assume "x < length (pl_order p')"
      then have x: "x < length (pl_order p)" using h(4) by simp
      show "es_dialing (pl_order p' ! x) = int (dialers T' x) + int (count T' (ReplaceDialing x))
          \<and> replacers T' x = of_bool (es_replacing (pl_order p' ! x)) \<and> int (dialers T' x) \<le> MaxConnectionsPerEndpoint (pl_options p')
          \<and> endpoint_load p' x \<le> MaxConnectionsPerEndpoint (pl_options p') + 1"
      proof (cases "x = e")
        case True
        then show ?thesis using c this_one h(3,4) live [OF x] e by (simp add: endpoint_load_def)
      next
        case False
        then show ?thesis using dialing_counts [OF inv x] other h(3,4) live [OF x] by (simp add: endpoint_load_def)
      qed
    qed
  next
    case DialTooLate
    then have o: "pl_order p' = (pl_order p)[e := (pl_order p ! e)\<lparr>es_dialing := es_dialing (pl_order p ! e) - 1\<rparr>]" using eff by simp
    from dial_update [OF inv _ _ o _ other] show ?thesis using DialTooLate eff c this_one by auto
  next
    case (DialFailed err)
    then have o: "pl_order p' = (pl_order p)[e := (pl_order p ! e)\<lparr>es_dialing := es_dialing (pl_order p ! e) - 1,
        es_failures := es_failures (pl_order p ! e) + 1,
        es_backoff := nextBackoff (pl_options p) (es_backoff (pl_order p ! e)), es_nextDial := now + delay\<rparr>]" using eff by simp
    from dial_update [OF inv _ _ o _ other] show ?thesis using DialFailed eff c this_one by auto
  qed
qed

lemma step_dial_inv:
  assumes st: "pool_step s s'" and base: "pool_base s" and use: "use_inv s" and inv: "dial_inv s"
  shows "dial_inv s'"
proof -
  have ok: "pool_ok (fst s)" using base by (simp add: pool_base_def)
  have frame: "dial_inv (p', T')" if "s = (p, T)" "shrinks p p'" "pl_options p' = pl_options p"
      "\<forall>a < length (pl_heap p). connection_live (pl_heap p' ! a) \<longrightarrow> connection_live (pl_heap p ! a)"
      "\<forall>e. dialers T' e = dialers T e" "\<forall>e. replacers T' e = replacers T e" "\<forall>e. count T' (ReplaceDialing e) = count T (ReplaceDialing e)"
    for p T p' T'
    using dial_frame [of p T p' T'] inv ok that by simp
  from st show ?thesis
  proof (cases rule: pool_step.cases)
    case (acquire_starts sel p exact T lease)
    show ?thesis unfolding acquire_starts(2)
      by (rule frame [OF acquire_starts(1)]) simp_all
  next
    case (acquire_wakes g p till exact lease T)
    show ?thesis unfolding acquire_wakes(2)
      by (rule frame [OF acquire_wakes(1)]) simp_all
  next
    case (acquire_canceled p exact lease g till T)
    show ?thesis unfolding acquire_canceled(2)
      by (rule frame [OF acquire_canceled(1)]) simp_all
  next
    case (lease_operation l p T)
    show ?thesis unfolding lease_operation(2)
      by (rule frame [OF lease_operation(1)]) simp_all
  next
    case (lease_wakes g p l T)
    show ?thesis unfolding lease_wakes(2)
      by (rule frame [OF lease_wakes(1)]) simp_all
  next
    case (lease_canceled p l g T)
    show ?thesis unfolding lease_canceled(2)
      by (rule frame [OF lease_canceled(1)]) simp_all
  next
    case (acquire_got exact registered now p a registered' p' T)
    have eff: "shrinks p p'" "pl_options p' = pl_options p" "cores p' = (cores p)[a := core ((pl_heap p ! a)\<lparr>pc_inFlight := pc_inFlight (pl_heap p ! a) + 1\<rparr>)]"
      using acquireRound_Acquired [OF acquire_got(3) pool_ok_fields(1)] ok acquire_got(1) by (auto intro: core_list)
    show ?thesis unfolding acquire_got(2)
      by (rule frame [OF acquire_got(1) eff(1,2) live_cores [OF eff(3)]]) (simp_all add: connection_live_def)
  next
    case (acquire_lease exact registered now p a registered' p1 l p' T)
    have eff: "shrinks p p1" "pl_options p1 = pl_options p" "cores p1 = (cores p)[a := core ((pl_heap p ! a)\<lparr>pc_leased := True\<rparr>)]"
      using acquireRound_Acquired [OF acquire_lease(3) pool_ok_fields(1)] ok acquire_lease(1) by (auto intro: core_list)
    have "shrinks p p'" "pl_options p' = pl_options p" "cores p' = (cores p)[a := core ((pl_heap p ! a)\<lparr>pc_leased := True\<rparr>)]"
      using acquire_lease(4) eff by (auto simp: newLease_def cores_def)
    note eff' = this
    show ?thesis unfolding acquire_lease(2)
      by (rule frame [OF acquire_lease(1) eff'(1,2) live_cores [OF eff'(3)]]) (simp_all add: connection_live_def)
  next
    case (acquire_dials exact lease registered now p e registered' p' T)
    have eff: "same_use p p'" "dialable now p e" "pl_order p' = (pl_order p)[e := (pl_order p ! e)\<lparr>es_dialing := es_dialing (pl_order p ! e) + 1\<rparr>]"
      using acquireRound_other [OF acquire_dials(3) pool_ok_fields(1)] ok acquire_dials(1) by auto
    have inv': "dial_inv (p, add_mset (Acquiring exact lease registered) T)" using inv acquire_dials(1) by simp
    have "1 + int (dialers T e) \<le> MaxConnectionsPerEndpoint (pl_options p)" if "e < length (pl_order p)"
    proof -
      have "es_dialing (pl_order p ! e) = int (dialers T e) + int (count T (ReplaceDialing e))" using dialing_counts(1) [OF inv' that] by simp
      then show ?thesis using eff(2) live_count_nonneg [of p e] unfolding dialable_def by linarith
    qed
    then show ?thesis unfolding acquire_dials(2)
      by (intro dial_update [OF inv' _ _ eff(3)])
        (use eff(1,2) dialing_counts [OF inv'] in \<open>auto simp: same_use_def dialable_def\<close>)
  next
    case (acquire_waits now exact lease registered p till registered' p' T)
    have eff: "same_use p p'" "shrinks p p'"
      using acquireRound_other [OF acquire_waits(4) pool_ok_fields(1)] ok acquire_waits(1) by auto
    show ?thesis unfolding acquire_waits(2)
      by (rule frame [OF acquire_waits(1) eff(2)]) (use eff(1) in \<open>simp_all add: same_use_def\<close>)
  next
    case (acquire_fails exact lease registered now p err registered' p' T)
    have eff: "same_use p p'" "shrinks p p'"
      using acquireRound_other [OF acquire_fails(3) pool_ok_fields(1)] ok acquire_fails(1) by auto
    show ?thesis unfolding acquire_fails(2)
      by (rule frame [OF acquire_fails(1) eff(2)]) (use eff(1) in \<open>simp_all add: same_use_def\<close>)
  next
    case (acquire_dialed e p now su delay a p' exact lease registered T)
    have e: "e < length (pl_order p)" using base acquire_dialed(1) by (simp add: pool_base_def)
    show ?thesis unfolding acquire_dialed(2)
      by (rule dialed_inv [OF inv [unfolded acquire_dialed(1)] _ e acquire_dialed(3)]) (use ok acquire_dialed(1) in auto)
  next
    case (acquire_dialed_late e p now su delay p' exact lease registered T)
    have e: "e < length (pl_order p)" using base acquire_dialed_late(1) by (simp add: pool_base_def)
    show ?thesis unfolding acquire_dialed_late(2)
      by (rule dialed_inv [OF inv [unfolded acquire_dialed_late(1)] _ e acquire_dialed_late(3)]) (use ok acquire_dialed_late(1) in auto)
  next
    case (acquire_dial_failed e p now su delay err p' k ctx exact lease registered T)
    have e: "e < length (pl_order p)" using base acquire_dial_failed(1) by (simp add: pool_base_def)
    show ?thesis unfolding acquire_dial_failed(2)
      by (rule dialed_inv [OF inv [unfolded acquire_dial_failed(1)] _ e acquire_dial_failed(3)]) (use ok acquire_dial_failed(1) in auto)
  next
    case (replace_dialed e p now su delay a p' T)
    have e: "e < length (pl_order p)" using base replace_dialed(1) by (simp add: pool_base_def)
    show ?thesis unfolding replace_dialed(2)
      by (rule dialed_inv [OF inv [unfolded replace_dialed(1)] _ e replace_dialed(3)]) (use ok replace_dialed(1) in auto)
  next
    case (replace_dialed_late e p now su delay p' T)
    have e: "e < length (pl_order p)" using base replace_dialed_late(1) by (simp add: pool_base_def)
    show ?thesis unfolding replace_dialed_late(2)
      by (rule dialed_inv [OF inv [unfolded replace_dialed_late(1)] _ e replace_dialed_late(3)]) (use ok replace_dialed_late(1) in auto)
  next
    case (replace_dial_failed e p now su delay err p' T)
    have e: "e < length (pl_order p)" using base replace_dial_failed(1) by (simp add: pool_base_def)
    show ?thesis unfolding replace_dial_failed(2)
      by (rule dialed_inv [OF inv [unfolded replace_dial_failed(1)] _ e replace_dial_failed(3)]) (use ok replace_dial_failed(1) in auto)
  next
    case (operation_ends a now p close p' T)
    have "a < length (pl_heap p)" "0 < pc_inFlight (pl_heap p ! a)"
      using base use operation_ends(1) in_use_positive [of p a T] by (auto simp: pool_base_def)
    note eff = releaseOperation_effect [OF operation_ends(3) this]
    then have c: "cores p' = (cores p)[a := core ((pl_heap p ! a)\<lparr>pc_inFlight := pc_inFlight (pl_heap p ! a) - 1\<rparr>)]" by blast
    show ?thesis unfolding operation_ends(2)
      by (rule frame [OF operation_ends(1) _ _ live_cores [OF c]]) (use eff in \<open>auto simp: connection_live_def\<close>)
  next
    case (lease_got l registered p registered' p' T)
    have eff: "shrinks p p'" "pl_options p' = pl_options p"
      "pl_heap p' = (pl_heap p)[ls_connection (pl_leases p ! l) := (pl_heap p ! ls_connection (pl_leases p ! l))
         \<lparr>pc_inFlight := pc_inFlight (pl_heap p ! ls_connection (pl_leases p ! l)) + 1\<rparr>]"
      using acquireOperation_effect [OF lease_got(3)] by (auto simp: Let_def)
    show ?thesis unfolding lease_got(2)
      by (rule frame [OF lease_got(1) eff(1,2) live_cores [OF core_list [OF eff(3)]]]) (simp_all add: connection_live_def)
  next
    case (lease_waits l registered p registered' p' T)
    have eff: "shrinks p p'" "same_use p p'" using acquireOperation_effect [OF lease_waits(3)] by auto
    show ?thesis unfolding lease_waits(2)
      by (rule frame [OF lease_waits(1) eff(1)]) (use eff(2) in \<open>simp_all add: same_use_def\<close>)
  next
    case (lease_fails l registered p err registered' p' T)
    have eff: "shrinks p p'" "same_use p p'" using acquireOperation_effect [OF lease_fails(3)] by auto
    show ?thesis unfolding lease_fails(2)
      by (rule frame [OF lease_fails(1) eff(1)]) (use eff(2) in \<open>simp_all add: same_use_def\<close>)
  next
    case (lease_operation_ends l now p close p' T)
    have l: "l < length (pl_leases p)" using base lease_operation_ends(1) by (auto simp: pool_base_def)
    have "use_inv (p, add_mset (LeaseInUse l) T)" "pool_ok p" using use ok lease_operation_ends(1) by auto
    note pos = lease_in_use_positive [OF this(1) l this(2)]
    note eff = releaseLeaseOperation_effect [OF lease_operation_ends(3) l pos(1) refl pos(3,2)]
    then obtain c where c: "cores p' = (cores p)[ls_connection (pl_leases p ! l) := core c]"
      "pc_broken c = pc_broken (pl_heap p ! ls_connection (pl_leases p ! l))" "pc_draining c = pc_draining (pl_heap p ! ls_connection (pl_leases p ! l))"
      by fastforce
    show ?thesis unfolding lease_operation_ends(2)
      by (rule frame [OF lease_operation_ends(1) _ _ live_cores [OF c(1)]]) (use eff c in \<open>auto simp: connection_live_def\<close>)
  next
    case (lease_close l p now close p' T)
    have "ls_connection (pl_leases p ! l) < length (pl_heap p)" using ok lease_close(1,3) by (auto simp: pool_ok_def)
    note eff = Lease_Close_effect [OF lease_close(5) refl this]
    then obtain c where c: "cores p' = (cores p)[ls_connection (pl_leases p ! l) := core c]"
      "pc_broken c = pc_broken (pl_heap p ! ls_connection (pl_leases p ! l))" "pc_draining c = pc_draining (pl_heap p ! ls_connection (pl_leases p ! l))"
      by fastforce
    show ?thesis unfolding lease_close(2)
      by (rule frame [OF lease_close(1) _ _ live_cores [OF c(1)]]) (use eff c in \<open>auto simp: connection_live_def\<close>)
  next
    case (watch_ends p a replace p' T)
    have "a < length (pl_heap p)" using base watch_ends(1) by (auto simp: pool_base_def)
    note eff = watchConnection_effect [OF watch_ends(4) this]
    then have c: "cores p' = (cores p)[a := core ((pl_heap p ! a)\<lparr>pc_broken := True, pc_leased := False\<rparr>)]" by blast
    show ?thesis unfolding watch_ends(2)
      by (rule frame [OF watch_ends(1) _ _ live_cores [OF c]]) (use eff in \<open>auto simp: connection_live_def\<close>)
  next
    case (maintenance now p closes replaces p' T)
    note m = retireExpired_marks [OF maintenance(3)]
    show ?thesis unfolding maintenance(2)
      by (rule frame [OF maintenance(1) shrinks_order _ live_marks [OF m]]) (use m in \<open>simp_all add: marks_def\<close>)
  next
    case (close_all p closes p' T)
    note m = PoolClose_marks [OF close_all(3)]
    show ?thesis unfolding close_all(2)
      by (rule frame [OF close_all(1) shrinks_order _ live_marks [OF m]]) (use m in \<open>simp_all add: marks_def\<close>)
  next
    case (conn_breaks a p T)
    show ?thesis unfolding conn_breaks(2)
      by (rule frame [OF conn_breaks(1) _ _ live_marks [OF done_marks]]) simp_all
  next
    case (conn_closes p a T)
    show ?thesis unfolding conn_closes(2)
      by (rule frame [OF conn_closes(1) _ _ live_marks [OF done_marks]]) simp_all
  next
    case (close_starts T p p')
    then show ?thesis unfolding close_starts(2)
      by (intro frame [OF close_starts(1)]) (auto simp: PoolClose_begin_def split: if_splits)
  next
    case (close_ends T p)
    show ?thesis unfolding close_ends(2) by (rule frame [OF close_ends(1)]) (simp_all add: PoolClose_end_def)
  next
    case (replacement_starts e p started p' k T)
    have e: "e < length (pl_order p)" using base replacement_starts(1) by (simp add: pool_base_def)
    have inv': "dial_inv (p, add_mset (StartsReplacement e k) T)" using inv replacement_starts(1) by simp
    show ?thesis
    proof (cases started)
      case True
      then have o: "pl_order p' = (pl_order p)[e := (pl_order p ! e)\<lparr>es_replacing := True\<rparr>]" "\<not> es_replacing (pl_order p ! e)"
        "pl_heap p' = pl_heap p" "pl_options p' = pl_options p"
        using replacement_starts(3) by (auto simp: startReplacement_def split: if_splits)
      show ?thesis unfolding replacement_starts(2)
        by (rule dial_update [OF inv' o(3,4,1)]) (use True o(2) dialing_counts [OF inv' e] in auto)
    next
      case False
      then have "p' = p" using replacement_starts(3) by (auto simp: startReplacement_def split: if_splits)
      then show ?thesis unfolding replacement_starts(2) using False by (intro frame [OF replacement_starts(1)]) simp_all
    qed
  next
    case (replace_stops e now p p' T)
    then have "p' = p" by (auto simp: replaceRound_def Let_def split: if_splits)
    then show ?thesis unfolding replace_stops(2) by (intro frame [OF replace_stops(1)]) auto
  next
    case (replace_dials e now p p' T)
    have e: "e < length (pl_order p)" using base replace_dials(1) by (simp add: pool_base_def)
    have inv': "dial_inv (p, add_mset (Replaces e) T)" using inv replace_dials(1) by simp
    have o: "pl_order p' = (pl_order p)[e := (pl_order p ! e)\<lparr>es_dialing := es_dialing (pl_order p ! e) + 1\<rparr>]"
      "pl_heap p' = pl_heap p" "pl_options p' = pl_options p" "live_count p e = 0"
      using replace_dials(3) by (auto simp: replaceRound_def Let_def no_live split: if_splits)
    show ?thesis unfolding replace_dials(2)
      by (rule dial_update [OF inv' o(2,3,1)]) (use o(4) dialing_counts [OF inv' e] one_replacer [OF inv' e] in auto)
  next
    case (replace_ends p e T)
    have e: "e < length (pl_order p)" using base replace_ends(1) by (simp add: pool_base_def)
    have inv': "dial_inv (p, add_mset (ReplaceEnds e) T)" using inv replace_ends(1) by simp
    have o: "pl_order (replaceDone e p) = (pl_order p)[e := (pl_order p ! e)\<lparr>es_replacing := False\<rparr>]" by (simp add: replaceDone_def)
    show ?thesis unfolding replace_ends(2)
      by (rule dial_update [OF inv' _ _ o])
        (use dialing_counts [OF inv' e] one_replacer [OF inv' e] in \<open>auto simp: replaceDone_def\<close>)
  qed
qed

end
