(* ===== verification/Pool_Wait.thy ===== *)
theory Pool_Wait
  imports Pool_Capacity
begin

text \<open>
  Callers waiting for a pool: their number is bounded, and none of them misses a change that would let it go on.
\<close>

section \<open>The number of waiters\<close>

fun is_registered :: "pool_activity \<Rightarrow> bool" where
  "is_registered (Acquiring exact lease registered) = registered"
| "is_registered (AcquireWaits exact lease g till) = True"
| "is_registered (AcquireDials exact lease registered e) = registered"
| "is_registered (LeaseAcquiring l registered) = registered"
| "is_registered (LeaseWaits l g) = True"
| "is_registered (StartsReplacement e k) = (case k of None \<Rightarrow> False | Some (_, _, registered) \<Rightarrow> registered)"
| "is_registered t = False"

definition registered :: "pool_activity multiset \<Rightarrow> nat" where
  "registered T = size (filter_mset is_registered T)"

lemma registered_simps [simp]:
  "registered {#} = 0" "registered (add_mset t T) = of_bool (is_registered t) + registered T"
  "registered (S + T) = registered S + registered T"
  by (simp_all add: registered_def)

lemma registered_tasks [simp]:
  "registered (continueAcquire k) = (case k of None \<Rightarrow> 0 | Some (_, _, r) \<Rightarrow> of_bool r)" "registered (closeTask b a) = 0"
  "registered (image_mset ClosesConn M) = 0" "registered (image_mset (\<lambda>d. StartsReplacement d None) N) = 0"
  by (auto simp: registered_def continueAcquire_def closeTask_def split: option.splits)

text \<open>The counter of waiters exceeds the registered callers by at least \<open>k\<close>; what it exceeds them by never gets less.\<close>

definition waiters_inv :: "nat \<Rightarrow> 'p pool_machine \<Rightarrow> bool" where
  "waiters_inv k s \<longleftrightarrow> int k + int (registered (snd s)) \<le> pl_waiters (fst s) \<and> pl_waiters (fst s) \<le> MaxWaiters (pl_options (fst s))"

lemma simple_waiters:
  "startReplacement e p = (b, p') \<Longrightarrow> pl_waiters p' = pl_waiters p \<and> pl_options p' = pl_options p"
  "replaceRound e now p = (r, p') \<Longrightarrow> pl_waiters p' = pl_waiters p \<and> pl_options p' = pl_options p"
  "pl_waiters (replaceDone e p) = pl_waiters p" "pl_options (replaceDone e p) = pl_options p"
  "PoolClose_begin p = (c, p') \<Longrightarrow> pl_waiters p' = pl_waiters p \<and> pl_options p' = pl_options p"
  "pl_waiters (PoolClose_end p) = pl_waiters p" "pl_options (PoolClose_end p) = pl_options p"
  "newLease a p = (l, p') \<Longrightarrow> pl_waiters p' = pl_waiters p \<and> pl_options p' = pl_options p"
  by (auto simp: startReplacement_def replaceRound_def replaceDone_def PoolClose_begin_def PoolClose_end_def newLease_def Let_def
      split: if_splits)

lemma step_waiters_inv:
  assumes st: "pool_step s s'" and base: "pool_base s" and use: "use_inv s" and inv: "waiters_inv k s"
  shows "waiters_inv k s'"
proof -
  have ok: "pool_ok (fst s)" using base by (simp add: pool_base_def)
  have max: "0 < MaxInFlightPerConnection (pl_options (fst s))" using pool_ok_fields [OF ok] by blast
  have inv': "int k + int (registered (snd s)) \<le> pl_waiters (fst s)" "pl_waiters (fst s) \<le> MaxWaiters (pl_options (fst s))"
    using inv by (auto simp: waiters_inv_def)
  have keep: "waiters_inv k (p', T')" if "s = (p, T)" "pl_waiters p' = pl_waiters p" "pl_options p' = pl_options p" "registered T' \<le> registered T" for p T p' T'
    using that inv by (auto simp: waiters_inv_def)
  from st show ?thesis
  proof (cases rule: pool_step.cases)
    case (acquire_got exact registered now p a registered' p' T)
    then show ?thesis using acquireRound_Acquired [OF acquire_got(3)] max inv' by (auto simp: waiters_inv_def)
  next
    case (acquire_lease exact registered now p a registered' p1 l p' T)
    then show ?thesis using acquireRound_Acquired [OF acquire_lease(3)] max inv' simple_waiters(8) [OF acquire_lease(4)]
      by (auto simp: waiters_inv_def)
  next
    case (acquire_dials exact lease registered now p e registered' p' T)
    then show ?thesis using acquireRound_other [OF acquire_dials(3)] max inv' by (auto simp: waiters_inv_def same_use_def)
  next
    case (acquire_waits now exact lease registered p till registered' p' T)
    then show ?thesis using acquireRound_other [OF acquire_waits(4)] max inv'
      by (cases registered) (auto simp: waiters_inv_def same_use_def)
  next
    case (acquire_fails exact lease registered now p err registered' p' T)
    then show ?thesis using acquireRound_other [OF acquire_fails(3)] max inv' by (auto simp: waiters_inv_def same_use_def)
  next
    case (acquire_dialed e p now su delay a p' exact lease registered T)
    have "e < length (pl_order p)" using base acquire_dialed(1) by (simp add: pool_base_def)
    then show ?thesis unfolding acquire_dialed(2) using finishDial_effect [OF acquire_dialed(3)] by (intro keep [OF acquire_dialed(1)]) auto
  next
    case (acquire_dialed_late e p now su delay p' exact lease registered T)
    have "e < length (pl_order p)" using base acquire_dialed_late(1) by (simp add: pool_base_def)
    then show ?thesis unfolding acquire_dialed_late(2) using finishDial_effect [OF acquire_dialed_late(3)] by (intro keep [OF acquire_dialed_late(1)]) auto
  next
    case (acquire_dial_failed e p now su delay err p' m ctx exact lease registered T)
    have "e < length (pl_order p)" using base acquire_dial_failed(1) by (simp add: pool_base_def)
    then show ?thesis unfolding acquire_dial_failed(2) using finishDial_effect [OF acquire_dial_failed(3)] acquire_dial_failed(4)
      by (intro keep [OF acquire_dial_failed(1)]) (auto split: if_splits)
  next
    case (replace_dialed e p now su delay a p' T)
    have "e < length (pl_order p)" using base replace_dialed(1) by (simp add: pool_base_def)
    then show ?thesis unfolding replace_dialed(2) using finishDial_effect [OF replace_dialed(3)] by (intro keep [OF replace_dialed(1)]) auto
  next
    case (replace_dialed_late e p now su delay p' T)
    have "e < length (pl_order p)" using base replace_dialed_late(1) by (simp add: pool_base_def)
    then show ?thesis unfolding replace_dialed_late(2) using finishDial_effect [OF replace_dialed_late(3)] by (intro keep [OF replace_dialed_late(1)]) auto
  next
    case (replace_dial_failed e p now su delay err p' T)
    have "e < length (pl_order p)" using base replace_dial_failed(1) by (simp add: pool_base_def)
    then show ?thesis unfolding replace_dial_failed(2) using finishDial_effect [OF replace_dial_failed(3)] by (intro keep [OF replace_dial_failed(1)]) auto
  next
    case (operation_ends a now p close p' T)
    have "a < length (pl_heap p)" "0 < pc_inFlight (pl_heap p ! a)"
      using base use operation_ends(1) in_use_positive [of p a T] by (auto simp: pool_base_def)
    then show ?thesis unfolding operation_ends(2) using releaseOperation_effect [OF operation_ends(3)] by (intro keep [OF operation_ends(1)]) auto
  next
    case (lease_got l registered p registered' p' T)
    then show ?thesis using acquireOperation_effect [OF lease_got(3)] inv' by (auto simp: waiters_inv_def)
  next
    case (lease_waits l registered p registered' p' T)
    then show ?thesis using acquireOperation_effect [OF lease_waits(3)] inv' by (cases registered) (auto simp: waiters_inv_def)
  next
    case (lease_fails l registered p err registered' p' T)
    then show ?thesis using acquireOperation_effect [OF lease_fails(3)] inv' by (auto simp: waiters_inv_def)
  next
    case (lease_operation_ends l now p close p' T)
    have l: "l < length (pl_leases p)" using base lease_operation_ends(1) by (auto simp: pool_base_def)
    have "use_inv (p, add_mset (LeaseInUse l) T)" "pool_ok p" using use ok lease_operation_ends(1) by auto
    note pos = lease_in_use_positive [OF this(1) l this(2)]
    show ?thesis unfolding lease_operation_ends(2)
      using releaseLeaseOperation_effect [OF lease_operation_ends(3) l pos(1) refl pos(3,2)] by (intro keep [OF lease_operation_ends(1)]) auto
  next
    case (lease_close l p now close p' T)
    have "ls_connection (pl_leases p ! l) < length (pl_heap p)" using ok lease_close(1,3) by (auto simp: pool_ok_def)
    then show ?thesis unfolding lease_close(2) using Lease_Close_effect [OF lease_close(5) refl] by (intro keep [OF lease_close(1)]) auto
  next
    case (watch_ends p a replace p' T)
    have "a < length (pl_heap p)" using base watch_ends(1) by (auto simp: pool_base_def)
    then show ?thesis unfolding watch_ends(2) using watchConnection_effect [OF watch_ends(4)] by (intro keep [OF watch_ends(1)]) auto
  next
    case (maintenance now p closes replaces p' T)
    show ?thesis unfolding maintenance(2) using retireExpired_marks [OF maintenance(3)] by (intro keep [OF maintenance(1)]) (auto simp: marks_def)
  next
    case (close_all p closes p' T)
    show ?thesis unfolding close_all(2) using PoolClose_marks [OF close_all(3)] by (intro keep [OF close_all(1)]) (auto simp: marks_def)
  next
    case (replacement_starts e p started p' m T)
    show ?thesis unfolding replacement_starts(2) using simple_waiters(1) [OF replacement_starts(3)]
      by (intro keep [OF replacement_starts(1)]) (auto split: option.splits)
  next
    case (replace_stops e now p p' T)
    show ?thesis unfolding replace_stops(2) using simple_waiters(2) [OF replace_stops(3)] by (intro keep [OF replace_stops(1)]) auto
  next
    case (replace_dials e now p p' T)
    show ?thesis unfolding replace_dials(2) using simple_waiters(2) [OF replace_dials(3)] by (intro keep [OF replace_dials(1)]) auto
  next
    case (close_starts T p p')
    show ?thesis unfolding close_starts(2) using simple_waiters(5) [OF close_starts(5)] by (intro keep [OF close_starts(1)]) auto
  qed (use inv' in \<open>auto simp: waiters_inv_def simple_waiters(3,4,6,7)\<close>)
qed

section \<open>No lost wakeup\<close>

text \<open>A caller that waits without a timer has found every endpoint it may use full.\<close>

lemma earliest_zero:
  assumes "0 \<le> now" "fst (fold (selectDialStep now p) es acc) = 0"
  shows "fst acc = 0 \<and> (\<forall>e \<in> set es. MaxConnectionsPerEndpoint (pl_options p) \<le> endpoint_load p e \<or> es_nextDial (pl_order p ! e) \<le> now)"
  using assms(2)
proof (induction es arbitrary: acc)
  case (Cons e es)
  have IH: "fst (selectDialStep now p e acc) = 0"
    "\<forall>d \<in> set es. MaxConnectionsPerEndpoint (pl_options p) \<le> endpoint_load p d \<or> es_nextDial (pl_order p ! d) \<le> now"
    using Cons.IH [of "selectDialStep now p e acc"] Cons.prems by auto
  from IH(1) have "fst acc = 0 \<and> (MaxConnectionsPerEndpoint (pl_options p) \<le> endpoint_load p e \<or> es_nextDial (pl_order p ! e) \<le> now)"
    using assms(1) by (auto simp: selectDialStep_def Let_def endpoint_load_def split: prod.splits if_splits)
  with IH(2) show ?case by simp
qed simp

lemma selectDial_full:
  assumes "selectDialEndpointLocked exact now p = ((None, 0), p')" "0 \<le> now"
  shows "\<forall>e \<in> set (selected_endpoints exact p). MaxConnectionsPerEndpoint (pl_options p) \<le> endpoint_load p e"
proof -
  obtain earliest m cs where f: "fold (selectDialStep now p) (selected_endpoints exact p) (0, (MaxConnectionsPerEndpoint (pl_options p) + 1, [])) = (earliest, m, cs)"
    by (metis prod_cases3)
  have "earliest = 0" using assms(1) f by (auto simp: selectDialEndpointLocked_def split: prod.splits)
  then have 1: "\<forall>e \<in> set (selected_endpoints exact p). MaxConnectionsPerEndpoint (pl_options p) \<le> endpoint_load p e \<or> es_nextDial (pl_order p ! e) \<le> now"
    using earliest_zero [OF assms(2), of p "selected_endpoints exact p" "(0, (MaxConnectionsPerEndpoint (pl_options p) + 1, []))"] f by simp
  have 2: "\<forall>e \<in> set (selected_endpoints exact p). \<not> dialable now p e" using selectDialEndpointLocked_spec [OF assms(1)] by simp
  show ?thesis
  proof
    fix e assume "e \<in> set (selected_endpoints exact p)"
    then show "MaxConnectionsPerEndpoint (pl_options p) \<le> endpoint_load p e" using 1 2 by (force simp: dialable_def endpoint_load_def)
  qed
qed

text \<open>What a waiting caller has seen.\<close>

definition must_wait :: "nat option \<Rightarrow> bool \<Rightarrow> int \<Rightarrow> 'p pool \<Rightarrow> bool" where
  "must_wait exact lease till p \<longleftrightarrow> \<not> pl_closing p \<and> (\<forall>a. in_circulation exact p a \<longrightarrow> \<not> usable lease p a)
     \<and> (till = 0 \<longrightarrow> (\<forall>e \<in> set (selected_endpoints exact p). MaxConnectionsPerEndpoint (pl_options p) \<le> endpoint_load p e))"

definition wait_inv :: "'p pool_machine \<Rightarrow> bool" where
  "wait_inv s \<longleftrightarrow> (\<forall>exact lease g till. AcquireWaits exact lease g till \<in># snd s \<longrightarrow>
     g \<le> pl_changed (fst s) \<and> (g = pl_changed (fst s) \<longrightarrow> must_wait exact lease till (fst s)))"

text \<open>A section that signals nothing and gives nobody anything to go on with.\<close>

definition calm :: "'p pool \<Rightarrow> 'p pool \<Rightarrow> bool" where
  "calm p p' \<longleftrightarrow> pl_changed p' = pl_changed p \<and> pl_closing p' = pl_closing p \<and> pl_options p' = pl_options p
     \<and> length (pl_order p') = length (pl_order p) \<and> length (pl_heap p') = length (pl_heap p)
     \<and> (\<forall>e < length (pl_order p). es_connections (pl_order p' ! e) = es_connections (pl_order p ! e)
          \<and> es_dialing (pl_order p' ! e) = es_dialing (pl_order p ! e))
     \<and> (\<forall>a < length (pl_heap p). pc_broken (pl_heap p' ! a) = pc_broken (pl_heap p ! a) \<and> pc_draining (pl_heap p' ! a) = pc_draining (pl_heap p ! a)
          \<and> (pc_leased (pl_heap p ! a) \<longrightarrow> pc_leased (pl_heap p' ! a)) \<and> pc_inFlight (pl_heap p ! a) \<le> pc_inFlight (pl_heap p' ! a))"

lemma calm_refl [simp]: "calm p p"
  by (simp add: calm_def)

lemma selected_in_range: "exact_ok p exact \<Longrightarrow> e \<in> set (selected_endpoints exact p) \<Longrightarrow> e < length (pl_order p)"
  by (auto simp: selected_endpoints_def exact_ok_def split: option.splits)

lemma calm_waits:
  assumes "calm p p'" "pool_ok p" "\<forall>a < length (pl_heap p). 0 \<le> pc_inFlight (pl_heap p ! a)" "exact_ok p exact" "must_wait exact lease till p"
  shows "must_wait exact lease till p'"
proof -
  have sel: "selected_endpoints exact p' = selected_endpoints exact p"
    using assms(1) by (simp add: selected_endpoints_def calm_def split: option.splits)
  have circ: "in_circulation exact p' a \<longleftrightarrow> in_circulation exact p a" for a
    using assms(1) selected_in_range [OF assms(4)] by (auto simp: in_circulation_def sel calm_def)
  have range: "a < length (pl_heap p)" if "in_circulation exact p a" for a
    using that assms(2) selected_in_range [OF assms(4)] by (auto simp: in_circulation_def pool_ok_def)
  have "usable lease p a" if "in_circulation exact p a" "usable lease p' a" for a
  proof -
    have a: "a < length (pl_heap p)" using range [OF that(1)] .
    have "pc_broken (pl_heap p' ! a) = pc_broken (pl_heap p ! a)" "pc_draining (pl_heap p' ! a) = pc_draining (pl_heap p ! a)"
      "pc_leased (pl_heap p ! a) \<longrightarrow> pc_leased (pl_heap p' ! a)" "pc_inFlight (pl_heap p ! a) \<le> pc_inFlight (pl_heap p' ! a)"
      "pl_options p' = pl_options p" "0 \<le> pc_inFlight (pl_heap p ! a)"
      using assms(1,3) a by (simp_all add: calm_def)
    then show ?thesis using that(2) by (auto simp: usable_def Let_def split: if_splits)
  qed
  moreover have "endpoint_load p' e = endpoint_load p e" if "e \<in> set (selected_endpoints exact p)" for e
  proof -
    have e: "e < length (pl_order p)" using selected_in_range [OF assms(4) that] .
    have "filter (\<lambda>a. connection_live (pl_heap p' ! a)) (es_connections (pl_order p ! e))
        = filter (\<lambda>a. connection_live (pl_heap p ! a)) (es_connections (pl_order p ! e))"
      using assms(1,2) e by (intro filter_cong) (auto simp: pool_ok_def calm_def connection_live_def)
    then show ?thesis using assms(1) e by (simp add: endpoint_load_def live_count_def calm_def)
  qed
  moreover have "pl_closing p' = pl_closing p" "pl_options p' = pl_options p" using assms(1) by (simp_all add: calm_def)
  ultimately show ?thesis using assms(5) circ unfolding must_wait_def sel by (metis (no_types, lifting))
qed

lemma calm_trans:
  assumes "calm p q" "calm q r"
  shows "calm p r"
proof -
  have "pc_inFlight (pl_heap p ! a) \<le> pc_inFlight (pl_heap r ! a)" if "a < length (pl_heap p)" for a
    using assms that order_trans [of "pc_inFlight (pl_heap p ! a)" "pc_inFlight (pl_heap q ! a)"] by (simp add: calm_def)
  then show ?thesis using assms by (simp add: calm_def)
qed

lemma calm_fields [simp]:
  "calm p (q\<lparr>pl_waiters := w\<rparr>) = calm p q" "calm p (q\<lparr>pl_selectionSeq := n\<rparr>) = calm p q" "calm p (q\<lparr>pl_leases := ls\<rparr>) = calm p q"
  by (simp_all add: calm_def)

lemma calm_endpoint: "es_connections (g (pl_order p ! e)) = es_connections (pl_order p ! e) \<Longrightarrow>
    es_dialing (g (pl_order p ! e)) = es_dialing (pl_order p ! e) \<Longrightarrow> calm p (upd_ep e g p)"
  by (auto simp: calm_def nth_upd)

lemma calm_connection: "pc_broken (f (pl_heap p ! a)) = pc_broken (pl_heap p ! a) \<Longrightarrow> pc_draining (f (pl_heap p ! a)) = pc_draining (pl_heap p ! a) \<Longrightarrow>
    (pc_leased (pl_heap p ! a) \<longrightarrow> pc_leased (f (pl_heap p ! a))) \<Longrightarrow> pc_inFlight (pl_heap p ! a) \<le> pc_inFlight (f (pl_heap p ! a)) \<Longrightarrow>
    calm p (upd_pc a f p)"
  by (auto simp: calm_def nth_upd)

lemma calm_unregister: "calm p (unregisterWaiterLocked x reg p)"
proof (cases reg)
  case True
  have "calm p (upd_ep e (\<lambda>s. s\<lparr>es_waiters := es_waiters s - 1\<rparr>) (p\<lparr>pl_waiters := w\<rparr>))" for e w
    by (rule calm_trans [OF _ calm_endpoint]) simp_all
  then show ?thesis using True by (simp add: unregisterWaiterLocked_def Let_def split: option.splits)
qed (simp add: unregisterWaiterLocked_def)

lemma calm_acquire:
  assumes "acquireRound exact lease reg now p = ((r, reg'), p')" "0 < MaxInFlightPerConnection (pl_options p)" "\<forall>e. r \<noteq> MustDial e"
  shows "calm p p'"
proof -
  obtain res p1 where sel: "selectConnectionLocked exact lease p = (res, p1)" by (cases "selectConnectionLocked exact lease p")
  obtain d till p2 where dial: "selectDialEndpointLocked exact now p1 = ((d, till), p2)" by (metis surj_pair)
  note spec = selectConnectionLocked_spec [OF sel assms(2)] and dspec = selectDialEndpointLocked_spec [OF dial]
  have up: "calm q (upd_pc a (\<lambda>c. if lease then c\<lparr>pc_leased := True\<rparr> else c\<lparr>pc_inFlight := pc_inFlight c + 1\<rparr>) q)" for a and q :: "'a pool"
    by (rule calm_connection) auto
  have reg: "calm p (upd_ep e (\<lambda>s. s\<lparr>es_waiters := es_waiters s + 1\<rparr>) (p\<lparr>pl_waiters := w\<rparr>))" for e w
    by (rule calm_trans [OF _ calm_endpoint]) simp_all
  show ?thesis
  proof (cases "pl_closing p")
    case True
    then show ?thesis using assms(1) calm_unregister by (auto simp: acquireRound_def)
  next
    case open_pool: False
    show ?thesis
    proof (cases res)
      case (Some a)
      then have "calm p p1" using spec by simp
      then have "calm p (upd_pc a (\<lambda>c. if lease then c\<lparr>pc_leased := True\<rparr> else c\<lparr>pc_inFlight := pc_inFlight c + 1\<rparr>) p1)"
        using up calm_trans by blast
      then have "calm p (unregisterWaiterLocked exact reg (upd_pc a (\<lambda>c. if lease then c\<lparr>pc_leased := True\<rparr> else c\<lparr>pc_inFlight := pc_inFlight c + 1\<rparr>) p1))"
        by (rule calm_trans [OF _ calm_unregister])
      then show ?thesis using assms(1) open_pool sel Some by (simp add: acquireRound_def)
    next
      case None
      then have p1: "p1 = p" using spec by simp
      show ?thesis
      proof (cases d)
        case (Some e)
        then show ?thesis using assms(1,3) open_pool sel None dial by (auto simp: acquireRound_def)
      next
        case no_dial: None
        then have "p2 = p" using dspec p1 by simp
        then show ?thesis using assms(1) open_pool sel None dial no_dial reg p1
          by (auto simp: acquireRound_def Let_def split: if_splits option.splits)
      qed
    qed
  qed
qed

lemma waits_seen:
  assumes "acquireRound exact lease reg now p = ((MustWait till, reg'), p')" "0 < MaxInFlightPerConnection (pl_options p)" "0 \<le> now"
  shows "must_wait exact lease till p"
proof -
  obtain res p1 where sel: "selectConnectionLocked exact lease p = (res, p1)" by (cases "selectConnectionLocked exact lease p")
  obtain d t p2 where dial: "selectDialEndpointLocked exact now p1 = ((d, t), p2)" by (metis surj_pair)
  have f: "\<not> pl_closing p" "res = None" "d = None" "till = t"
    using assms(1) sel dial by (auto simp: acquireRound_def Let_def split: if_splits option.splits)
  have p1: "p1 = p" "\<forall>b. in_circulation exact p b \<longrightarrow> \<not> usable lease p b" using selectConnectionLocked_spec [OF sel assms(2)] f(2) by auto
  have "\<forall>e \<in> set (selected_endpoints exact p). MaxConnectionsPerEndpoint (pl_options p) \<le> endpoint_load p e" if "till = 0"
    using selectDial_full [OF _ assms(3)] dial f p1(1) that by blast
  then show ?thesis using f(1) p1(2) by (simp add: must_wait_def)
qed

lemma calm_startReplacement: "startReplacement e p = (b, p') \<Longrightarrow> calm p p'"
proof -
  have "calm p (upd_ep e (\<lambda>s. s\<lparr>es_replacing := True\<rparr>) p)" by (rule calm_endpoint) simp_all
  then show "startReplacement e p = (b, p') \<Longrightarrow> calm p p'" unfolding startReplacement_def by (metis calm_refl prod.inject)
qed

lemma calm_newLease: "newLease a p = (l, p') \<Longrightarrow> calm p p'"
  by (metis calm_fields(3) calm_refl newLease_def prod.inject)

lemma calm_done: "calm p (upd_pc a (\<lambda>c. c\<lparr>pc_done := True\<rparr>) p)"
  by (rule calm_connection) simp_all

lemma calm_operation: "acquireOperation l reg p = ((r, reg'), p') \<Longrightarrow> r \<noteq> LeaseAcquired \<Longrightarrow> calm p p'"
  by (auto simp: acquireOperation_def Let_def calm_unregister split: if_splits)

lemma calm_close_all: "PoolClose_all p = (closes, p') \<Longrightarrow> calm p p'"
proof -
  have "calm p (fold (\<lambda>a. upd_pc a (\<lambda>c. c\<lparr>pc_retiring := True\<rparr>)) as p)" for as
  proof (induction as arbitrary: p)
    case (Cons a as)
    have "calm p (upd_pc a (\<lambda>c. c\<lparr>pc_retiring := True\<rparr>) p)" by (rule calm_connection) simp_all
    then show ?case using Cons [of "upd_pc a (\<lambda>c. c\<lparr>pc_retiring := True\<rparr>) p"] by (simp add: calm_trans)
  qed simp
  then show "PoolClose_all p = (closes, p') \<Longrightarrow> calm p p'" by (auto simp: PoolClose_all_def Let_def)
qed

lemma retireSteps_changed:
  "pl_changed (snd (snd (snd (fold (retireStep now) as (live, closes, replace, p))))) = pl_changed p"
  by (rule fold_invariant [where P = "\<lambda>acc. pl_changed (snd (snd (snd acc))) = pl_changed p" and Q = "\<lambda>_. True"])
    (auto simp: retireStep_def Let_def)

lemma retireEndpoints_changed: "pl_changed (snd (snd (fold (retireEndpoint now) es (closes, rs, p)))) = pl_changed p"
proof (rule fold_invariant [where P = "\<lambda>acc. pl_changed (snd (snd acc)) = pl_changed p" and Q = "\<lambda>_. True"])
  fix e and acc :: "nat list \<times> nat list \<times> 'a pool"
  assume "pl_changed (snd (snd acc)) = pl_changed p"
  then show "pl_changed (snd (snd (retireEndpoint now e acc))) = pl_changed p"
    using retireSteps_changed [of now "es_connections (pl_order (snd (snd acc)) ! e)" "live_count (snd (snd acc)) e" "fst acc" False "snd (snd acc)"]
    by (auto simp: retireEndpoint_def split: prod.splits)
qed simp_all

text \<open>Every section signals or is calm.\<close>

definition seen :: "'p pool \<Rightarrow> 'p pool \<Rightarrow> bool" where
  "seen p p' \<longleftrightarrow> pl_changed p < pl_changed p' \<or> calm p p'"

lemma seen_retireExpired: "retireExpired now p = (closes, rs, p') \<Longrightarrow> seen p p'"
  using retireEndpoints_changed [of now "[0..<length (pl_order p)]" "[]" "[]" p]
  by (cases "pl_closing p") (auto simp: seen_def retireExpired_def split: prod.splits)

lemma seen_refl [simp]: "seen p p"
  by (simp add: seen_def)

lemma seen_signal: "pl_changed q = pl_changed p \<Longrightarrow> seen p (signalLocked q)"
  by (simp add: seen_def)

lemma seen_PoolClose_begin: "seen p (snd (PoolClose_begin p))"
  by (simp add: PoolClose_begin_def seen_signal)

lemma seen_replaceRound: "seen p (snd (replaceRound e now p))"
  by (simp add: replaceRound_def Let_def seen_signal)

lemma seen_releases:
  "seen p (snd (releaseOperation a now p))" "seen p (snd (releaseLeaseOperation l now p))" "seen p (snd (Lease_Close l now p))"
  "seen p (snd (watchConnection e a p))"
  by (simp_all add: releaseOperation_def releaseLeaseOperation_def Lease_Close_def watchConnection_def Let_def seen_def
      if_distrib [of pl_changed] del: upd_pc_fields(9))

lemma seen_ends [simp]: "seen p (replaceDone e p)" "seen p (PoolClose_end p)"
  by (simp_all add: seen_def replaceDone_def PoolClose_end_def)

lemma seen_acquire:
  assumes "acquireRound exact lease reg now p = ((r, reg'), p')" "0 < MaxInFlightPerConnection (pl_options p)"
  shows "seen p p'"
proof (cases "\<exists>e. r = MustDial e")
  case True
  then show ?thesis using acquireRound_other [OF assms] by (auto simp: seen_def)
next
  case False
  then show ?thesis using calm_acquire [OF assms] by (simp add: seen_def)
qed

lemma seen_operation: "acquireOperation l reg p = ((r, reg'), p') \<Longrightarrow> seen p p'"
  using calm_operation acquireOperation_effect by (cases "r = LeaseAcquired") (fastforce simp: seen_def)+

lemma wait_inv_step:
  assumes base: "pool_base (p, T)" and use: "use_inv (p, T)" and inv: "wait_inv (p, T)" and seen: "seen p p'"
    and new: "\<And>exact lease g till. AcquireWaits exact lease g till \<in># T' \<Longrightarrow>
      AcquireWaits exact lease g till \<in># T \<or> g = pl_changed p' \<and> must_wait exact lease till p'"
  shows "wait_inv (p', T')"
proof -
  have "g \<le> pl_changed p' \<and> (g = pl_changed p' \<longrightarrow> must_wait exact lease till p')"
    if T: "AcquireWaits exact lease g till \<in># T" for exact lease g till
  proof -
    have g: "g \<le> pl_changed p" "g = pl_changed p \<Longrightarrow> must_wait exact lease till p" using inv T by (auto simp: wait_inv_def)
    show ?thesis
    proof (cases "pl_changed p < pl_changed p'")
      case False
      then have c: "calm p p'" using seen by (simp add: seen_def)
      moreover have "exact_ok p exact" "pool_ok p" using base T by (auto simp: pool_base_def)
      moreover have "\<forall>a < length (pl_heap p). 0 \<le> pc_inFlight (pl_heap p ! a)" using use by (auto simp: use_inv_def)
      moreover have "pl_changed p' = pl_changed p" using c by (simp add: calm_def)
      ultimately show ?thesis using g calm_waits by fastforce
    qed (use g in simp)
  qed
  then show ?thesis using new by (auto simp: wait_inv_def) blast+
qed

lemma step_wait_inv:
  assumes st: "pool_step s s'" and base: "pool_base s" and use: "use_inv s" and inv: "wait_inv s"
  shows "wait_inv s'"
proof -
  have max: "0 < MaxInFlightPerConnection (pl_options (fst s))" using base pool_ok_fields [of "fst s"] by (simp add: pool_base_def)
  have go: "wait_inv (p', T')" if "s = (p, T)" "seen p p'"
    "\<And>exact lease g till. AcquireWaits exact lease g till \<in># T' \<Longrightarrow>
      AcquireWaits exact lease g till \<in># T \<or> g = pl_changed p' \<and> must_wait exact lease till p'" for p T p' T'
    using wait_inv_step [OF base [unfolded that(1)] use [unfolded that(1)] inv [unfolded that(1)] that(2,3)] .
  from st show ?thesis
  proof (cases rule: pool_step.cases)
    case (acquire_starts sel p exact T lease)
    show ?thesis unfolding acquire_starts(2) by (rule go [OF acquire_starts(1)]) auto
  next
    case (acquire_got exact registered now p a registered' p' T)
    have "seen p p'" using seen_acquire [OF acquire_got(3)] max acquire_got(1) by simp
    then show ?thesis unfolding acquire_got(2) by (rule go [OF acquire_got(1)]) auto
  next
    case (acquire_lease exact registered now p a registered' p1 l p' T)
    have "pl_changed p' = pl_changed p1" using acquire_lease(4) by (auto simp: newLease_def)
    then have "seen p p'" using seen_acquire [OF acquire_lease(3)] calm_newLease [OF acquire_lease(4)] max acquire_lease(1)
      by (auto simp: seen_def intro: calm_trans)
    then show ?thesis unfolding acquire_lease(2) by (rule go [OF acquire_lease(1)]) auto
  next
    case (acquire_dials exact lease registered now p e registered' p' T)
    have "seen p p'" using seen_acquire [OF acquire_dials(3)] max acquire_dials(1) by simp
    then show ?thesis unfolding acquire_dials(2) by (rule go [OF acquire_dials(1)]) auto
  next
    case (acquire_waits now exact lease registered p till registered' p' T)
    have m: "0 < MaxInFlightPerConnection (pl_options p)" using max acquire_waits(1) by simp
    have c: "calm p p'" using calm_acquire [OF acquire_waits(4) m] by simp
    have "must_wait exact lease till p'"
    proof (rule calm_waits [OF c _ _ _ waits_seen [OF acquire_waits(4) m acquire_waits(3)]])
      show "pool_ok p" "exact_ok p exact" using base acquire_waits(1) by (auto simp: pool_base_def)
      show "\<forall>a < length (pl_heap p). 0 \<le> pc_inFlight (pl_heap p ! a)" using use acquire_waits(1) by (auto simp: use_inv_def)
    qed
    then show ?thesis unfolding acquire_waits(2) using seen_acquire [OF acquire_waits(4) m] by (intro go [OF acquire_waits(1)]) auto
  next
    case (acquire_fails exact lease registered now p err registered' p' T)
    have "seen p p'" using seen_acquire [OF acquire_fails(3)] max acquire_fails(1) by simp
    then show ?thesis unfolding acquire_fails(2) by (rule go [OF acquire_fails(1)]) auto
  next
    case (acquire_wakes g p till exact lease T)
    show ?thesis unfolding acquire_wakes(2) by (rule go [OF acquire_wakes(1)]) auto
  next
    case (acquire_canceled p exact lease g till T)
    show ?thesis unfolding acquire_canceled(2) by (rule go [OF acquire_canceled(1)]) (auto simp: seen_def calm_unregister)
  next
    case (acquire_dialed e p now su delay a p' exact lease registered T)
    have "e < length (pl_order p)" using base acquire_dialed(1) by (simp add: pool_base_def)
    then have "seen p p'" using finishDial_effect [OF acquire_dialed(3)] by (simp add: seen_def)
    then show ?thesis unfolding acquire_dialed(2) by (rule go [OF acquire_dialed(1)]) auto
  next
    case (acquire_dialed_late e p now su delay p' exact lease registered T)
    have "e < length (pl_order p)" using base acquire_dialed_late(1) by (simp add: pool_base_def)
    then have "seen p p'" using finishDial_effect [OF acquire_dialed_late(3)] by (simp add: seen_def)
    then show ?thesis unfolding acquire_dialed_late(2) by (rule go [OF acquire_dialed_late(1)]) auto
  next
    case (acquire_dial_failed e p now su delay err p' m ctx exact lease registered T)
    have "e < length (pl_order p)" using base acquire_dial_failed(1) by (simp add: pool_base_def)
    then have "seen p p'" using finishDial_effect [OF acquire_dial_failed(3)] by (simp add: seen_def)
    then show ?thesis unfolding acquire_dial_failed(2) by (rule go [OF acquire_dial_failed(1)]) auto
  next
    case (operation_ends a now p close p' T)
    have "seen p p'" using seen_releases(1) [of p a now] operation_ends(3) by simp
    then show ?thesis unfolding operation_ends(2) by (rule go [OF operation_ends(1)]) (auto simp: closeTask_def split: if_split_asm)
  next
    case (lease_operation l p T)
    show ?thesis unfolding lease_operation(2) by (rule go [OF lease_operation(1)]) auto
  next
    case (lease_got l registered p registered' p' T)
    show ?thesis unfolding lease_got(2) by (rule go [OF lease_got(1) seen_operation [OF lease_got(3)]]) auto
  next
    case (lease_waits l registered p registered' p' T)
    show ?thesis unfolding lease_waits(2) by (rule go [OF lease_waits(1) seen_operation [OF lease_waits(3)]]) auto
  next
    case (lease_fails l registered p err registered' p' T)
    show ?thesis unfolding lease_fails(2) by (rule go [OF lease_fails(1) seen_operation [OF lease_fails(3)]]) auto
  next
    case (lease_wakes g p l T)
    show ?thesis unfolding lease_wakes(2) by (rule go [OF lease_wakes(1)]) auto
  next
    case (lease_canceled p l g T)
    show ?thesis unfolding lease_canceled(2) by (rule go [OF lease_canceled(1)]) (auto simp: seen_def calm_unregister)
  next
    case (lease_operation_ends l now p close p' T)
    have "seen p p'" using seen_releases(2) [of p l now] lease_operation_ends(3) by simp
    then show ?thesis unfolding lease_operation_ends(2) by (rule go [OF lease_operation_ends(1)]) (auto simp: closeTask_def split: if_split_asm)
  next
    case (lease_close l p now close p' T)
    have "seen p p'" using seen_releases(3) [of p l now] lease_close(5) by simp
    then show ?thesis unfolding lease_close(2) by (rule go [OF lease_close(1)]) (auto simp: closeTask_def split: if_split_asm)
  next
    case (conn_breaks a p T)
    show ?thesis unfolding conn_breaks(2) by (rule go [OF conn_breaks(1)]) (auto simp: seen_def calm_done)
  next
    case (conn_closes p a T)
    show ?thesis unfolding conn_closes(2) by (rule go [OF conn_closes(1)]) (auto simp: seen_def calm_done)
  next
    case (watch_ends p a replace p' T)
    have "seen p p'" using seen_releases(4) [of p "pc_endpoint (pl_heap p ! a)" a] watch_ends(4) by simp
    then show ?thesis unfolding watch_ends(2) by (rule go [OF watch_ends(1)]) (auto split: if_split_asm)
  next
    case (replacement_starts e p started p' m T)
    have "seen p p'" using calm_startReplacement [OF replacement_starts(3)] by (simp add: seen_def)
    then show ?thesis unfolding replacement_starts(2)
      by (rule go [OF replacement_starts(1)]) (auto simp: continueAcquire_def split: if_split_asm option.splits)
  next
    case (replace_stops e now p p' T)
    show ?thesis unfolding replace_stops(2) using seen_replaceRound [of p e now] replace_stops(3) by (intro go [OF replace_stops(1)]) auto
  next
    case (replace_dials e now p p' T)
    show ?thesis unfolding replace_dials(2) using seen_replaceRound [of p e now] replace_dials(3) by (intro go [OF replace_dials(1)]) auto
  next
    case (replace_dialed e p now su delay a p' T)
    have "e < length (pl_order p)" using base replace_dialed(1) by (simp add: pool_base_def)
    then have "seen p p'" using finishDial_effect [OF replace_dialed(3)] by (simp add: seen_def)
    then show ?thesis unfolding replace_dialed(2) by (rule go [OF replace_dialed(1)]) auto
  next
    case (replace_dialed_late e p now su delay p' T)
    have "e < length (pl_order p)" using base replace_dialed_late(1) by (simp add: pool_base_def)
    then have "seen p p'" using finishDial_effect [OF replace_dialed_late(3)] by (simp add: seen_def)
    then show ?thesis unfolding replace_dialed_late(2) by (rule go [OF replace_dialed_late(1)]) auto
  next
    case (replace_dial_failed e p now su delay err p' T)
    have "e < length (pl_order p)" using base replace_dial_failed(1) by (simp add: pool_base_def)
    then have "seen p p'" using finishDial_effect [OF replace_dial_failed(3)] by (simp add: seen_def)
    then show ?thesis unfolding replace_dial_failed(2) by (rule go [OF replace_dial_failed(1)]) auto
  next
    case (replace_ends p e T)
    show ?thesis unfolding replace_ends(2) by (rule go [OF replace_ends(1)]) auto
  next
    case (maintenance now p closes rs p' T)
    show ?thesis unfolding maintenance(2) by (rule go [OF maintenance(1) seen_retireExpired [OF maintenance(3)]]) auto
  next
    case (close_starts T p p')
    show ?thesis unfolding close_starts(2) using seen_PoolClose_begin [of p] close_starts(5) by (intro go [OF close_starts(1)]) auto
  next
    case (close_all p closes p' T)
    show ?thesis unfolding close_all(2) using calm_close_all [OF close_all(3)] by (intro go [OF close_all(1)]) (auto simp: seen_def)
  next
    case (close_ends T p)
    show ?thesis unfolding close_ends(2) by (rule go [OF close_ends(1)]) auto
  qed
qed

end
