(* ===== verification/Pool.thy ===== *)
theory Pool
  imports Pool_Wait
begin

text \<open>
  The pool: its transition system satisfies the invariants of the preceding theories in every reachable state, hence the
  theorems about exclusive use, capacity and waiting below.  Runs from construction to concrete states show that the
  states the theorems speak about occur, and two behaviours that are not intended.
\<close>

section \<open>The initial state\<close>

definition fresh_pool :: "int \<Rightarrow> 'p pool \<Rightarrow> bool" where
  "fresh_pool now p \<longleftrightarrow> pl_leases p = [] \<and> pl_waiters p = 0 \<and> \<not> pl_closing p \<and> length (pl_heap p) = length (pl_order p)
     \<and> (\<forall>e < length (pl_order p). pl_heap p ! e = freshConnection e now \<and> es_connections (pl_order p ! e) = [e]
          \<and> es_dialing (pl_order p ! e) = 0 \<and> \<not> es_replacing (pl_order p ! e))"

lemma newPoolLoop_fresh: "newPoolLoop cs now p = Inr p' \<Longrightarrow> fresh_pool now p \<Longrightarrow> fresh_pool now p' \<and> pl_options p' = pl_options p"
proof (induction cs now p rule: newPoolLoop.induct)
  case (2 config su rest now p)
  obtain r where ok: "Endpoint_Validate (ec_Endpoint config) = None" "\<not> findEndpoint (ep_ID (ec_Endpoint config)) p \<noteq> None" "su = Inr r"
    using 2(2) by (auto split: option.splits if_splits sum.splits)
  let ?p = "p\<lparr>pl_order := pl_order p @ [newEndpointState config r (length (pl_heap p))],
              pl_heap := pl_heap p @ [freshConnection (length (pl_order p)) now]\<rparr>"
  have "fresh_pool now ?p" using 2(3) by (auto simp: fresh_pool_def nth_append newEndpointState_def less_Suc_eq)
  moreover have "newPoolLoop rest now ?p = Inr p'" using 2(2) ok by simp
  ultimately show ?case using 2(1) [OF ok] by simp
qed simp

lemma pool_init_fresh:
  assumes "pool_init (p, T)"
  obtains now where "fresh_pool now p" "pool_options_ok (pl_options p)" "T = mset (map WatchingConn [0..<length (pl_order p)])"
proof -
  obtain endpoints opt now where new: "newPool True endpoints opt now = Inr p" "T = mset (map WatchingConn [0..<length (pl_heap p)])"
    using assms by (auto simp: pool_init_def)
  obtain opt' where n: "Options_normalized opt = Inr opt'" using new(1) by (auto simp: newPool_def split: sum.splits if_splits)
  let ?p = "\<lparr>pl_options = opt', pl_closing = False, pl_closed = False, pl_waiters = 0, pl_selectionSeq = 0, pl_changed = 0,
    pl_order = [], pl_heap = [], pl_leases = []\<rparr>"
  have "newPoolLoop endpoints now ?p = Inr p" using new(1) n by (simp add: newPool_def split: if_splits)
  moreover have "fresh_pool now ?p" by (simp add: fresh_pool_def)
  ultimately have "fresh_pool now p \<and> pl_options p = opt'" using newPoolLoop_fresh by fastforce
  moreover have "pool_options_ok opt'" using n Options_normalized_Inr by blast
  moreover have "length (pl_heap p) = length (pl_order p)" if "fresh_pool now p" using that by (simp add: fresh_pool_def)
  ultimately show ?thesis using that [of now] new(2) by metis
qed

text \<open>Nobody uses, dials or waits at first.\<close>

lemma watchers_idle [simp]:
  "users p (image_mset WatchingConn M) a = 0" "count (image_mset WatchingConn M) (LeaseInUse l) = 0" "dialers (image_mset WatchingConn M) e = 0"
  "replacers (image_mset WatchingConn M) e = 0" "count (image_mset WatchingConn M) (ReplaceDialing e) = 0" "registered (image_mset WatchingConn M) = 0"
  by (auto simp: users_def dialers_def replacers_def registered_def count_eq_zero_iff)

lemma pool_init_inv:
  assumes "pool_init s"
  shows "pool_base s \<and> use_inv s \<and> lease_inv s" and "dial_inv s \<and> waiters_inv 0 s \<and> wait_inv s"
proof -
  obtain p T where s: "s = (p, T)" by (cases s)
  obtain now where f: "fresh_pool now p" "pool_options_ok (pl_options p)" "T = mset (map WatchingConn [0..<length (pl_order p)])"
    using pool_init_fresh assms s by metis
  have pos: "0 < MaxConnectionsPerEndpoint (pl_options p)" "0 < MaxInFlightPerConnection (pl_options p)" "0 < MaxWaiters (pl_options p)"
    using f(2) by (simp_all add: pool_options_ok_def)
  have T: "T = image_mset WatchingConn (mset [0..<length (pl_order p)])" using f(3) by simp
  have e: "pl_heap p ! e = freshConnection e now" "es_connections (pl_order p ! e) = [e]" "es_dialing (pl_order p ! e) = 0"
    "\<not> es_replacing (pl_order p ! e)" if "e < length (pl_order p)" for e
    using f(1) that by (auto simp: fresh_pool_def)
  have l: "pl_leases p = []" "pl_waiters p = 0" "length (pl_heap p) = length (pl_order p)" using f(1) by (auto simp: fresh_pool_def)
  have "pool_base s" using e l f(2) by (auto simp: s pool_base_def pool_ok_def T freshConnection_def)
  moreover have "use_inv s" "lease_inv s" using e l pos by (auto simp: s use_inv_def lease_inv_def T freshConnection_def)
  ultimately show "pool_base s \<and> use_inv s \<and> lease_inv s" by blast
  have "live_count p d \<le> 1" if "d < length (pl_order p)" for d using e [OF that] by (simp add: live_count_def)
  then have "live_count p d \<le> MaxConnectionsPerEndpoint (pl_options p) + 1" if "d < length (pl_order p)" for d using pos(1) that by force
  then have "dial_inv s" using e l pos by (auto simp: s dial_inv_def T endpoint_load_def)
  moreover have "waiters_inv 0 s" "wait_inv s" using l pos by (auto simp: s waiters_inv_def wait_inv_def T)
  ultimately show "dial_inv s \<and> waiters_inv 0 s \<and> wait_inv s" by blast
qed

section \<open>Invariants of the reachable states\<close>

interpretation pool_sys: invariant_system pool_init pool_step "\<lambda>s. pool_base s \<and> use_inv s \<and> lease_inv s"
  by unfold_locales (use pool_init_inv(1) step_pool_base step_use_inv in blast)+

interpretation pool_full: strengthened_system pool_init pool_step "\<lambda>s. pool_base s \<and> use_inv s \<and> lease_inv s"
  "\<lambda>s. dial_inv s \<and> waiters_inv 0 s \<and> wait_inv s"
  by unfold_locales (use pool_init_inv(2) step_dial_inv step_waiters_inv step_wait_inv in blast)+

abbreviation pool_reachable :: "'p pool_machine \<Rightarrow> bool" where
  "pool_reachable \<equiv> reach pool_init pool_step"

lemma pool_reachable_inv:
  assumes "pool_reachable (p, T)"
  shows "pool_base (p, T)" "use_inv (p, T)" "lease_inv (p, T)" "dial_inv (p, T)" "waiters_inv 0 (p, T)" "wait_inv (p, T)"
  using pool_full.both.reach_inv [OF assms] by auto

section \<open>Runs\<close>

text \<open>A pool of one endpoint that allows one connection and one operation on it.\<close>

definition sample_endpoint :: endpoint where
  "sample_endpoint = \<lparr>ep_ID = ''a'', ep_Address = ''h:636'', ep_ServerName = ''h'', ep_Transport = TransportDirectTLS\<rparr>"

definition sample_setup :: "failure + unit setup_result" where
  "sample_setup = Inr \<lparr>sr_Identity = \<lparr>StableID = ''u''\<rparr>, sr_Profile = (), sr_Policy = \<lparr>cp_Cancellation = CancellationConservative\<rparr>\<rparr>"

definition sample_options :: pool_options where
  "sample_options = DefaultOptions\<lparr>MaxConnectionsPerEndpoint := 1, MaxInFlightPerConnection := 1\<rparr>"

definition sample_pool :: "unit pool" where
  "sample_pool = projr (newPool True [(\<lparr>ec_Endpoint = sample_endpoint, ec_ValidateProfile = None\<rparr>, sample_setup)] sample_options 1)"

definition sample_used :: "unit pool" where
  "sample_used = snd (acquireRound None False False 2 sample_pool)"

definition sample_waiting :: "unit pool" where
  "sample_waiting = snd (acquireRound (Some 0) False False 2 sample_used)"

definition sample_broken :: "unit pool" where
  "sample_broken = snd (watchConnection 0 0 (upd_pc 0 (\<lambda>c. c\<lparr>pc_done := True\<rparr>) sample_waiting))"

definition sample_dialing :: "unit pool" where
  "sample_dialing = snd (acquireRound (Some 0) False True 3 sample_broken)"

definition sample_failed :: "unit pool" where
  "sample_failed = snd (finishDial 0 (dialEndpoint 0 (pl_order sample_dialing ! 0) 4 (Inl (Sentinel ErrTransport))) 4 5 sample_dialing)"

definition sample_replacing :: "unit pool" where
  "sample_replacing = snd (replaceRound 0 3 (snd (startReplacement 0 sample_dialing)))"

definition sample_added :: "unit pool" where
  "sample_added = snd (finishDial 0 (dialEndpoint 0 (pl_order sample_replacing ! 0) 4 sample_setup) 4 0 sample_replacing)"

definition sample_exceeded :: "unit pool" where
  "sample_exceeded = snd (finishDial 0 (dialEndpoint 0 (pl_order sample_added ! 0) 4 sample_setup) 4 0 sample_added)"

definition sample_leased :: "unit pool" where
  "sample_leased = snd (newLease 0 (snd (acquireRound None True False 2 sample_pool)))"

lemma pool_reach_step:
  assumes "pool_reachable (p, T)" "pool_step (p, T') s'" "T = T'"
  shows "pool_reachable s'"
  using reach_step assms by metis

lemma run_new: "pool_reachable (sample_pool, {#WatchingConn 0#})"
proof (rule reach_init)
  have "newPool True [(\<lparr>ec_Endpoint = sample_endpoint, ec_ValidateProfile = None\<rparr>, sample_setup)] sample_options 1 = Inr sample_pool"
    by code_simp
  moreover have "length (pl_heap sample_pool) = 1" by code_simp
  ultimately show "pool_init (sample_pool, {#WatchingConn 0#})" by (auto simp: pool_init_def)
qed

lemma run_used: "pool_reachable (sample_used, {#InUse 0, WatchingConn 0#})"
proof -
  have "pool_step (sample_pool, {#WatchingConn 0#}) (sample_pool, {#Acquiring None False False, WatchingConn 0#})"
    by (rule acquire_starts [of pool_Any]) code_simp
  then have "pool_reachable (sample_pool, {#Acquiring None False False, WatchingConn 0#})" using run_new reach_step by metis
  moreover have "acquireRound None False False 2 sample_pool = ((Acquired 0, False), sample_used)" by code_simp
  ultimately show ?thesis using reach_step acquire_got by metis
qed

lemma run_waiting: "pool_reachable (sample_waiting, {#AcquireWaits (Some 0) False 0 0, InUse 0, WatchingConn 0#})"
proof -
  have "acquire_begin True \<lparr>sl_kind = SelectionExactEndpoint, sl_endpoint = ''a''\<rparr> sample_used = Inr (Some 0)" by code_simp
  note r1 = pool_reach_step [OF run_used acquire_starts [OF this] refl]
  have "acquireRound (Some 0) False False 2 sample_used = ((MustWait 0, True), sample_waiting)" by code_simp
  note r2 = pool_reach_step [OF r1 acquire_waits [OF _ this] refl]
  have "pl_changed sample_waiting = 0" by code_simp
  with r2 show ?thesis by simp
qed

lemma run_broken: "pool_reachable (sample_broken, {#AcquireWaits (Some 0) False 0 0, StartsReplacement 0 None, InUse 0#})"
proof -
  define q where "q = upd_pc 0 (\<lambda>c. c\<lparr>pc_done := True\<rparr>) sample_waiting"
  have "0 < length (pl_heap sample_waiting)" by code_simp
  from pool_reach_step [OF run_waiting pool_step.conn_breaks [OF this] refl]
  have r1: "pool_reachable (q, {#AcquireWaits (Some 0) False 0 0, InUse 0, WatchingConn 0#})" by (simp only: q_def)
  have e: "pc_endpoint (pl_heap q ! 0) = 0" unfolding q_def by code_simp
  have "pc_done (pl_heap q ! 0)" "watchConnection (pc_endpoint (pl_heap q ! 0)) 0 q = (True, sample_broken)" unfolding q_def by code_simp+
  from pool_reach_step [OF r1 watch_ends [OF this, of "{#AcquireWaits (Some 0) False 0 0, InUse 0#}"]]
  show ?thesis unfolding e by (simp add: add_mset_commute)
qed

lemma run_dialing: "pool_reachable (sample_dialing, {#AcquireDials (Some 0) False True 0, StartsReplacement 0 None, InUse 0#})"
proof -
  have "(0::nat) \<noteq> pl_changed sample_broken \<or> (0::int) \<noteq> 0" by code_simp
  note r1 = pool_reach_step [OF run_broken acquire_wakes [OF this] refl]
  have "acquireRound (Some 0) False True 3 sample_broken = ((MustDial 0, True), sample_dialing)" by code_simp
  from pool_reach_step [OF r1 acquire_dials [OF this] refl] show ?thesis .
qed

lemma run_exceeded: "pool_reachable (sample_exceeded, {#ReplaceEnds 0, WatchingConn 2, Acquiring (Some 0) False True, WatchingConn 1, InUse 0#})"
proof -
  define q where "q = snd (startReplacement 0 sample_dialing)"
  have "startReplacement 0 sample_dialing = (True, q)" unfolding q_def by code_simp
  from pool_reach_step [OF run_dialing replacement_starts [OF this, of None "{#AcquireDials (Some 0) False True 0, InUse 0#}"]]
  have r1: "pool_reachable (q, {#Replaces 0, AcquireDials (Some 0) False True 0, InUse 0#})"
    by (simp add: continueAcquire_def add_mset_commute)
  have "replaceRound 0 3 q = (ReplaceDials, sample_replacing)" unfolding q_def by code_simp
  note r2 = pool_reach_step [OF r1 replace_dials [OF this] refl]
  have "finishDial 0 (dialEndpoint 0 (pl_order sample_replacing ! 0) 4 sample_setup) 4 0 sample_replacing = (DialAdded 1, sample_added)"
    by code_simp
  note r3 = pool_reach_step [OF r2 acquire_dialed [OF this] add_mset_commute]
  have "finishDial 0 (dialEndpoint 0 (pl_order sample_added ! 0) 4 sample_setup) 4 0 sample_added = (DialAdded 2, sample_exceeded)"
    by code_simp
  from pool_reach_step [OF r3 replace_dialed [OF this, of "{#Acquiring (Some 0) False True, WatchingConn 1, InUse 0#}"]]
  show ?thesis by (simp add: add_mset_commute)
qed

lemma run_leased: "pool_reachable (sample_leased, {#WatchingConn 0#})"
proof -
  have "pool_step (sample_pool, {#WatchingConn 0#}) (sample_pool, {#Acquiring None True False, WatchingConn 0#})"
    by (rule acquire_starts [of pool_Any]) code_simp
  then have "pool_reachable (sample_pool, {#Acquiring None True False, WatchingConn 0#})" using run_new reach_step by metis
  moreover have "acquireRound None True False 2 sample_pool = ((Acquired 0, False), snd (acquireRound None True False 2 sample_pool))" by code_simp
  moreover have "newLease 0 (snd (acquireRound None True False 2 sample_pool)) = (0, sample_leased)" by code_simp
  ultimately show ?thesis using pool_reach_step [OF _ acquire_lease refl] by blast
qed

section \<open>Properties\<close>

text \<open>(C3) In every reachable state the load of each connection is the number of operations in progress on it, within the maximum, so no
  slot is lost or given twice.  A connection held by a lease is used by no operation of another caller and by no other lease, and its
  load is the number of operations of the lease.\<close>

theorem pool_exclusive_use:
  assumes "pool_reachable (p, T)"
  shows "(\<forall>a < length (pl_heap p). pc_inFlight (pl_heap p ! a) = int (users p T a)
        \<and> int (users p T a) \<le> MaxInFlightPerConnection (pl_options p))
    \<and> (\<forall>l < length (pl_leases p). holding (pl_leases p ! l) \<longrightarrow>
        InUse (ls_connection (pl_leases p ! l)) \<notin># T
        \<and> pc_inFlight (pl_heap p ! ls_connection (pl_leases p ! l)) = int (count T (LeaseInUse l))
        \<and> (\<forall>m < length (pl_leases p). holding (pl_leases p ! m) \<and> ls_connection (pl_leases p ! m) = ls_connection (pl_leases p ! l) \<longrightarrow> m = l))"
proof -
  note inv = pool_reachable_inv [OF assms]
  have "ls_inFlight (pl_leases p ! l) = int (count T (LeaseInUse l))" if "l < length (pl_leases p)" for l
    using inv(2) that by (simp add: use_inv_def)
  moreover have "pc_inFlight (pl_heap p ! a) = int (users p T a)" "pc_inFlight (pl_heap p ! a) \<le> MaxInFlightPerConnection (pl_options p)"
    if "a < length (pl_heap p)" for a using inv(2,3) that by (simp_all add: use_inv_def lease_inv_def)
  ultimately show ?thesis using held_load [OF inv(1-3)] lease_invD [OF inv(3)] by metis
qed

theorem pool_exclusive_use_witness:
  "pc_inFlight (pl_heap sample_used ! 0) = 1 \<and> pc_inFlight (pl_heap sample_leased ! ls_connection (pl_leases sample_leased ! 0)) = 0"
proof -
  have "0 < length (pl_heap sample_used)" by code_simp
  then have "pc_inFlight (pl_heap sample_used ! 0) = int (users sample_used {#InUse 0, WatchingConn 0#} 0)"
    using pool_exclusive_use [OF run_used] by blast
  moreover have "0 < length (pl_leases sample_leased)" "holding (pl_leases sample_leased ! 0)" by code_simp+
  then have "pc_inFlight (pl_heap sample_leased ! ls_connection (pl_leases sample_leased ! 0)) = int (count {#WatchingConn 0#} (LeaseInUse 0))"
    using pool_exclusive_use [OF run_leased] by blast
  ultimately show ?thesis by simp
qed

text \<open>(C11) In every reachable state the dials of an endpoint are exactly those its goroutines have in progress, at most one goroutine replaces
  it, and its live connections and dials exceed the configured maximum by at most one, the dial of the replacement.  The counter
  of waiters is within its limit and counts at least the callers that are registered.\<close>

theorem pool_capacity:
  assumes "pool_reachable (p, T)"
  shows "(\<forall>e < length (pl_order p). es_dialing (pl_order p ! e) = int (dialers T e) + int (count T (ReplaceDialing e))
        \<and> replacers T e \<le> 1
        \<and> es_dialing (pl_order p ! e) + live_count p e \<le> MaxConnectionsPerEndpoint (pl_options p) + 1)
    \<and> int (registered T) \<le> pl_waiters p \<and> pl_waiters p \<le> MaxWaiters (pl_options p)"
  using pool_reachable_inv(4,5) [OF assms] by (auto simp: dial_inv_def waiters_inv_def endpoint_load_def)

theorem pool_capacity_witness: "es_dialing (pl_order sample_dialing ! 0) = 1 \<and> 1 \<le> pl_waiters sample_waiting"
proof -
  have "0 < length (pl_order sample_dialing)" by code_simp
  then have "es_dialing (pl_order sample_dialing ! 0) = int (dialers {#AcquireDials (Some 0) False True 0, StartsReplacement 0 None, InUse 0#} 0)
      + int (count {#AcquireDials (Some 0) False True 0, StartsReplacement 0 None, InUse 0#} (ReplaceDialing 0))"
    using pool_capacity [OF run_dialing] by blast
  then show ?thesis using pool_capacity [OF run_waiting] by simp
qed

text \<open>(C36) The maximum number of connections of an endpoint is exceeded in a reachable state: a caller dials a replacement for a broken
  connection, the replacer, which does not count dials in progress, dials another, and both enter circulation although one is the
  maximum.\<close>

theorem pool_capacity_exceeded:
  "pool_reachable (sample_exceeded, {#ReplaceEnds 0, WatchingConn 2, Acquiring (Some 0) False True, WatchingConn 1, InUse 0#})
   \<and> live_count sample_exceeded 0 = 2 \<and> MaxConnectionsPerEndpoint (pl_options sample_exceeded) = 1"
proof -
  have "live_count sample_exceeded 0 = 2" "MaxConnectionsPerEndpoint (pl_options sample_exceeded) = 1" by code_simp+
  then show ?thesis using run_exceeded by simp
qed

lemma slot_stays_lost:
  assumes "pool_reachable (p, T)" "int (registered T) < pl_waiters p" "pool_step\<^sup>*\<^sup>* (p, T) (p', T')"
  shows "int (registered T') < pl_waiters p'"
proof -
  have "waiters_inv 1 (p, T)" using assms(2) pool_reachable_inv(5) [OF assms(1)] by (simp add: waiters_inv_def)
  then have "waiters_inv 1 (p', T')"
    using pool_sys.persists [of "waiters_inv 1", OF _ assms(3)] pool_reachable_inv(1-3) [OF assms(1)] step_waiters_inv by blast
  then show ?thesis by (simp add: waiters_inv_def)
qed

lemma finishDial_failed:
  "finishDial e (Inl err) now delay p = (DialFailed err, snd (finishDial e (Inl err) now delay p))"
  "pl_waiters (snd (finishDial e (Inl err) now delay p)) = pl_waiters p"
  by (simp_all add: finishDial_def Let_def recordDialFailureLocked_def signalLocked_def upd_ep_def)

text \<open>(C35) A slot of the waiters is lost: if the dial of a caller that is registered as a waiter fails and \<^verbatim>\<open>acquire\<close> then returns an error
  (its context has ended, or it asked for this endpoint), the caller is gone, the counter is not decremented, and from then on, for
  ever and whatever happens, the counter exceeds the number of the callers that are registered.\<close>

theorem waiter_slot_lost:
  assumes "pool_reachable (p, add_mset (AcquireDials exact lease True e) T)"
    and "dialEndpoint e (pl_order p ! e) now setup = Inl err"
    and "p1 = snd (finishDial e (Inl err) now delay p)" "afterFailedDial ctx exact err p1 \<noteq> None"
  shows "pool_step (p, add_mset (AcquireDials exact lease True e) T) (p1, add_mset (StartsReplacement e None) T)
    \<and> pl_waiters p1 = pl_waiters p
    \<and> (\<forall>p' T'. pool_step\<^sup>*\<^sup>* (p1, add_mset (StartsReplacement e None) T) (p', T') \<longrightarrow> int (registered T') < pl_waiters p')"
proof -
  have "finishDial e (dialEndpoint e (pl_order p ! e) now setup) now delay p = (DialFailed err, p1)"
    unfolding assms(2,3) by (rule finishDial_failed(1))
  then have st: "pool_step (p, add_mset (AcquireDials exact lease True e) T) (p1, add_mset (StartsReplacement e None) T)"
    by (rule acquire_dial_failed [where ctx = ctx]) (simp add: assms(4))
  have w: "pl_waiters p1 = pl_waiters p" unfolding assms(3) by (rule finishDial_failed(2))
  have "int (registered (add_mset (AcquireDials exact lease True e) T)) \<le> pl_waiters p"
    using pool_reachable_inv(5) [OF assms(1)] by (simp add: waiters_inv_def)
  then have "int (registered (add_mset (StartsReplacement e None) T)) < pl_waiters p1" using w by simp
  then show ?thesis using st w slot_stays_lost [OF pool_reach_step [OF assms(1) st refl]] by blast
qed

theorem waiter_slot_lost_witness:
  "registered {#StartsReplacement 0 None, StartsReplacement 0 None, InUse 0#} = 0 \<and> 0 < pl_waiters sample_failed"
proof -
  have d: "dialEndpoint 0 (pl_order sample_dialing ! 0) 4 (Inl (Sentinel ErrTransport)) = Inl (Sentinel ErrTransport)" by code_simp
  have p1: "sample_failed = snd (finishDial 0 (Inl (Sentinel ErrTransport)) 4 5 sample_dialing)" unfolding sample_failed_def d ..
  have "afterFailedDial None (Some 0) (Sentinel ErrTransport) sample_failed \<noteq> None" by (simp add: afterFailedDial_def)
  from waiter_slot_lost [OF run_dialing d p1 this] show ?thesis by fastforce
qed

text \<open>(C13) No wakeup is lost: a caller of \<^verbatim>\<open>acquire\<close> that waits and has not been signalled since could not go on if it looked again.  The
  pool is open, no connection in circulation is usable for it, and unless it has a timer all the endpoints it may use are at their
  maximum.\<close>

theorem pool_no_lost_wakeup:
  assumes "pool_reachable (p, T)" "AcquireWaits exact lease g till \<in># T" "g = pl_changed p"
  shows "\<not> pl_closing p \<and> (\<forall>a. in_circulation exact p a \<longrightarrow> \<not> usable lease p a)
    \<and> (till = 0 \<longrightarrow> (\<forall>e \<in> set (selected_endpoints exact p).
         MaxConnectionsPerEndpoint (pl_options p) \<le> es_dialing (pl_order p ! e) + live_count p e))"
  using pool_reachable_inv(6) [OF assms(1)] assms(2,3) by (auto simp: wait_inv_def must_wait_def endpoint_load_def)

theorem pool_no_lost_wakeup_witness: "1 \<le> es_dialing (pl_order sample_waiting ! 0) + live_count sample_waiting 0"
proof -
  have g: "0 = pl_changed sample_waiting" by code_simp
  have "MaxConnectionsPerEndpoint (pl_options sample_waiting) = 1" by code_simp
  then show ?thesis using pool_no_lost_wakeup [OF run_waiting _ g, of "Some 0" False 0] by (simp add: selected_endpoints_def)
qed

text \<open>(C34) The connection \<^verbatim>\<open>selectConnectionLocked\<close> returns is in circulation at a selected endpoint, usable, and no usable one carries less;
  it returns none only if there is none.\<close>

theorem selectConnection_least_loaded:
  assumes "selectConnectionLocked exact lease p = (res, p')" "0 < MaxInFlightPerConnection (pl_options p)"
  shows "case res of
      Some a \<Rightarrow> in_circulation exact p a \<and> usable lease p a
        \<and> (\<forall>b. in_circulation exact p b \<and> usable lease p b \<longrightarrow> pc_inFlight (pl_heap p ! a) \<le> pc_inFlight (pl_heap p ! b))
    | None \<Rightarrow> (\<forall>b. in_circulation exact p b \<longrightarrow> \<not> usable lease p b)"
  using selectConnectionLocked_spec [OF assms] by (cases res) auto

theorem selectConnection_least_loaded_witness: "usable True sample_pool 0"
proof -
  have "selectConnectionLocked None True sample_pool = (Some 0, snd (selectConnectionLocked None True sample_pool))"
    "0 < MaxInFlightPerConnection (pl_options sample_pool)" by code_simp+
  from selectConnection_least_loaded [OF this] show ?thesis by simp
qed

text \<open>A dialed connection enters circulation exactly if its setup succeeded with the identity and the policy frozen at construction and a
  profile that the validator accepts, or, without a validator, that equals the frozen one; all else is an error.\<close>

lemma dialEndpoint_frozen:
  "dialEndpoint e s now su = Inr c \<longleftrightarrow>
     c = freshConnection e now \<and> (\<exists>r. su = Inr r \<and> sr_Identity r = es_identity s \<and> sr_Policy r = es_policy s
       \<and> (case es_ValidateProfile s of Some v \<Rightarrow> v (es_profile s) (sr_Profile r) = None | None \<Rightarrow> sr_Profile r = es_profile s))"
  by (cases su) (auto simp: dialEndpoint_def Let_def split: option.splits)

text \<open>With a maximum below \<open>2 ^ 62\<close> ns (146 years) the backoff after \<open>n + 1\<close> failures in a row is the initial one doubled \<open>n\<close> times, capped at the
  maximum; it does not overflow.\<close>

theorem nextBackoff_doubles:
  assumes "pool_options_ok opt" "BackoffMaximum opt < 2 ^ 62"
  shows "(nextBackoff opt ^^ Suc n) 0 = min (BackoffMaximum opt) (BackoffInitial opt * 2 ^ n)"
proof (induction n)
  case 0
  then show ?case using assms(1) by (simp add: nextBackoff_def pool_options_ok_def)
next
  case (Suc n)
  define b where "b = min (BackoffMaximum opt) (BackoffInitial opt * 2 ^ n)"
  have pos: "0 < BackoffInitial opt" "0 < BackoffMaximum opt" using assms(1) by (auto simp: pool_options_ok_def)
  then have b: "0 < b" "b < 2 ^ 62" using assms(2) by (auto simp: b_def)
  then have "int64_double b = 2 * b" by (simp add: int64_double_def)
  moreover have "min (BackoffMaximum opt) (2 * b) = min (BackoffMaximum opt) (BackoffInitial opt * 2 ^ Suc n)"
    using pos by (auto simp: b_def min_def)
  moreover have "nextBackoff opt b = min (BackoffMaximum opt) (int64_double b)" using b(1) by (simp add: nextBackoff_def Let_def min_def)
  ultimately have "nextBackoff opt b = min (BackoffMaximum opt) (BackoffInitial opt * 2 ^ Suc n)" by simp
  then show ?case using Suc by (simp add: b_def)
qed

theorem nextBackoff_doubles_witness: "(nextBackoff DefaultOptions ^^ 4) 0 = 800000000"
proof -
  have "pool_options_ok DefaultOptions" by (simp add: pool_options_ok_def DefaultOptions_def)
  moreover have "BackoffMaximum DefaultOptions < 2 ^ 62" by (simp add: DefaultOptions_def)
  ultimately show ?thesis using nextBackoff_doubles [of DefaultOptions 3] by (simp add: DefaultOptions_def numeral_eq_Suc)
qed

end
