(* ===== verification/Entry.thy ===== *)
theory Entry
  imports Ldap_Collection
begin

text \<open>
  Entries (\<^verbatim>\<open>src/entry.go\<close>): a name and a collection of attributes.  A Go string holds arbitrary bytes, so text and raw values are both octets.
  \<open>uni\<close> is the lower-casing of descriptions that are not ASCII.
\<close>

record entry =
  en_DN :: bytes
  en_Attributes :: attributes

definition NewEntry :: "bytes \<Rightarrow> entry" where
  "NewEntry dn = \<lparr>en_DN = dn, en_Attributes = None\<rparr>"

definition Entry_Set :: "(bytes \<Rightarrow> bytes) \<Rightarrow> bytes \<Rightarrow> bytes list \<Rightarrow> entry \<Rightarrow> entry" where
  "Entry_Set uni name vals e =
     e\<lparr>en_Attributes := Attributes_Set uni \<lparr>at_Type = name, at_Values = vals, at_Extensions = []\<rparr> (en_Attributes e)\<rparr>"

definition Entry_SetBytes :: "(bytes \<Rightarrow> bytes) \<Rightarrow> bytes \<Rightarrow> bytes list \<Rightarrow> entry \<Rightarrow> entry" where
  "Entry_SetBytes uni name vals e =
     e\<lparr>en_Attributes := Attributes_Set uni \<lparr>at_Type = name, at_Values = vals, at_Extensions = []\<rparr> (en_Attributes e)\<rparr>"

definition Entry_Values :: "(bytes \<Rightarrow> bytes) \<Rightarrow> bytes \<Rightarrow> entry \<Rightarrow> bytes list" where
  "Entry_Values uni name e = at_Values (fst (Attributes_Lookup uni name (en_Attributes e)))"

definition Entry_RawValue :: "(bytes \<Rightarrow> bytes) \<Rightarrow> bytes \<Rightarrow> entry \<Rightarrow> bytes option" where
  "Entry_RawValue uni name e = (case at_Values (fst (Attributes_Lookup uni name (en_Attributes e))) of [] \<Rightarrow> None | v # _ \<Rightarrow> Some v)"

definition Entry_Value :: "(bytes \<Rightarrow> bytes) \<Rightarrow> bytes \<Rightarrow> entry \<Rightarrow> bytes" where
  "Entry_Value uni name e = (case Entry_RawValue uni name e of None \<Rightarrow> [] | Some v \<Rightarrow> v)"

definition Entry_Contains :: "(bytes \<Rightarrow> bytes) \<Rightarrow> bytes \<Rightarrow> bytes \<Rightarrow> entry \<Rightarrow> bool" where
  "Entry_Contains uni name v e = list_ex (\<lambda>candidate. candidate = v) (at_Values (fst (Attributes_Lookup uni name (en_Attributes e))))"

section \<open>Properties\<close>

lemma NewEntry_inv: "attrs_inv uni (en_Attributes (NewEntry dn))"
  by (simp add: NewEntry_def attrs.invar_empty)

lemma Entry_Set_inv: "attrs_inv uni (en_Attributes e) \<Longrightarrow> attrs_inv uni (en_Attributes (Entry_Set uni name vals e))"
  by (simp add: Entry_Set_def attrs.invar_update)

text \<open>What is set is read back under every spelling of the name, and other attributes are as before.\<close>

lemma Entry_Values_Set:
  assumes "attrs_inv uni (en_Attributes e)"
  shows "Entry_Values uni d (Entry_Set uni name vals e) = (if Key uni d = Key uni name then vals else Entry_Values uni d e)"
  using attrs.lookup_update [OF assms, of "Key uni d" "\<lparr>at_Type = name, at_Values = vals, at_Extensions = []\<rparr>"]
  by (simp add: Entry_Values_def Entry_Set_def Lookup_attrs split: option.splits)

lemma Entry_Contains_Values: "Entry_Contains uni name v e \<longleftrightarrow> v \<in> set (Entry_Values uni name e)"
  by (simp add: Entry_Contains_def Entry_Values_def list_ex_iff)

lemma Entry_Value_Values: "Entry_Value uni name e = (case Entry_Values uni name e of [] \<Rightarrow> [] | v # _ \<Rightarrow> v)"
  by (simp add: Entry_Value_def Entry_RawValue_def Entry_Values_def split: list.splits)

end
