(* ===== verification/Client.thy ===== *)
theory Client
  imports Entry Ldap_Update Ldap_Search Conn_Errors "HOL-Library.Monad_Syntax"
begin

text \<open>
  The ordinary LDAP client (\<^verbatim>\<open>src/client.go\<close>): executors and errors, controls, typed streams, operations with a single response.

  The \<^verbatim>\<open>Executor\<close> and the \<^verbatim>\<open>ResponseStream\<close>s it returns are interfaces, implemented by connections, pools and leases; here they are
  the functions of a record that act on a state of any type.  A context is not passed: its end is one of the errors these
  functions return.
\<close>

section \<open>Executors and errors\<close>

record ('x, 's) executor_api =
  ex_Do :: "untyped_operation \<Rightarrow> 'x \<Rightarrow> (failure + 's) \<times> 'x"
  ex_Next :: "'s \<Rightarrow> 'x \<Rightarrow> (failure + response) \<times> 'x"
  ex_Close :: "'s \<Rightarrow> 'x \<Rightarrow> failure option \<times> 'x"

record ('x, 's) client =
  cl_executor :: "('x, 's) executor_api"
  cl_limits :: limits

definition NewClient :: "('x, 's) executor_api \<Rightarrow> ('x, 's) client" where
  "NewClient ex = \<lparr>cl_executor = ex, cl_limits = DefaultLimits\<rparr>"

datatype client_error =
    Failed failure
  | Result_Error string ldap_result "control list"
  | ErrNotFound

definition ResultNoSuchObject :: int where
  "ResultNoSuchObject = 32"

text \<open>\<^verbatim>\<open>errors.Is\<close> with \<^verbatim>\<open>ErrNotFound\<close> and with the sentinels of the other packages.\<close>

fun is_ErrNotFound :: "client_error \<Rightarrow> bool" where
  "is_ErrNotFound ErrNotFound = True"
| "is_ErrNotFound (Result_Error name res cs) = (lr_ResultCode res = ResultNoSuchObject)"
| "is_ErrNotFound (Failed err) = False"

fun client_Is :: "client_error \<Rightarrow> sentinel \<Rightarrow> bool" where
  "client_Is (Failed err) target = errors_Is err target"
| "client_Is err target = False"

definition requireSuccess :: "string \<Rightarrow> ldap_result \<Rightarrow> control list \<Rightarrow> client_error option" where
  "requireSuccess name res cs = (if lr_ResultCode res = ResultSuccess then None else Some (Result_Error name res cs))"

text \<open>A \<^verbatim>\<open>RequestOption\<close> is a control or nil; an \<^verbatim>\<open>ExecuteOption\<close> a set of accepted codes or nil, of which the last one counts.\<close>

definition requestControls :: "control option list \<Rightarrow> packet option list" where
  "requestControls options = map (\<lambda>c. Some (Control_BERPacket c)) (List.map_filter id options)"

definition acceptedCodes :: "int list option list \<Rightarrow> int list" where
  "acceptedCodes options = fold (\<lambda>option accepted. case option of None \<Rightarrow> accepted | Some codes \<Rightarrow> codes) options [ResultSuccess]"

section \<open>Controls\<close>

fun decodeControls :: "element list \<Rightarrow> limits \<Rightarrow> goerror + control list" where
  "decodeControls [] lim = Inr []"
| "decodeControls (e # es) lim =
     (case NewReader (el_Raw e) lim of
        Inl err \<Rightarrow> Inl err
      | Inr reader \<Rightarrow>
          (case Control_UnmarshalBER reader 0 of
             (Inl err, _, _) \<Rightarrow> Inl err
           | (Inr c, reader', _) \<Rightarrow>
               (case RequireEmpty reader' of
                  Some err \<Rightarrow> Inl err
                | None \<Rightarrow> (case decodeControls es lim of Inl err \<Rightarrow> Inl err | Inr cs \<Rightarrow> Inr (c # cs)))))"

text \<open>\<^verbatim>\<open>"1.2.840.113556.1.4.319"\<close> in ASCII.\<close>

definition pagedResultsOID :: bytes where
  "pagedResultsOID = [0x31, 0x2E, 0x32, 0x2E, 0x38, 0x34, 0x30, 0x2E, 0x31, 0x31, 0x33, 0x35, 0x35, 0x36, 0x2E, 0x31,
     0x2E, 0x34, 0x2E, 0x33, 0x31, 0x39]"

definition newPagedResultsControl :: "int \<Rightarrow> bytes \<Rightarrow> control" where
  "newPagedResultsControl sz cookie =
     \<lparr>co_Type = pagedResultsOID, co_Criticality = False,
      co_Value = Encode (Envelope_Add [ber_Integer sz, ber_OctetString cookie] ber_Sequence), co_HasValue = True, co_Extensions = []\<rparr>"

text \<open>The loop body of \<^verbatim>\<open>pagedResultsCookie\<close> for the control it looks for.\<close>

definition decodeCookie :: "bytes \<Rightarrow> limits \<Rightarrow> goerror + bytes" where
  "decodeCookie bs lim =
     (case NewReader bs lim of
        Inl err \<Rightarrow> Inl err
      | Inr reader \<Rightarrow>
          (case Reader_Sequence reader 0 of
             (Inl err, _, _) \<Rightarrow> Inl err
           | (Inr contents, reader', n) \<Rightarrow>
               (case Reader_Integer contents n of
                  (Inl err, _, _) \<Rightarrow> Inl err
                | (Inr _, contents', n') \<Rightarrow>
                    (case Reader_OctetString contents' n' of
                       (Inl err, _, _) \<Rightarrow> Inl err
                     | (Inr cookie, contents'', _) \<Rightarrow>
                         (case RequireEmpty contents'' of
                            Some err \<Rightarrow> Inl err
                          | None \<Rightarrow> (case RequireEmpty reader' of Some err \<Rightarrow> Inl err | None \<Rightarrow> Inr cookie))))))"

definition pagedResultsCookie :: "control list \<Rightarrow> limits \<Rightarrow> goerror + bytes" where
  "pagedResultsCookie controls lim =
     (case find (\<lambda>c. co_Type c = pagedResultsOID) controls of
        None \<Rightarrow> Inl (Errorf ''arden: paged-results response control is missing'' [])
      | Some c \<Rightarrow> decodeCookie (co_Value c) lim)"

section \<open>Typed streams\<close>

record ('a, 's) decoded_stream =
  ds_stream :: 's
  ds_responses :: "'a response_pattern"
  ds_limits :: limits
  ds_closed :: bool

definition ExecuteStream :: "('x, 's) client \<Rightarrow> 'a operation \<Rightarrow> 'x \<Rightarrow> (client_error + ('a, 's) decoded_stream) \<times> 'x" where
  "ExecuteStream cl op x =
     (case ex_Do (cl_executor cl) (Operation_Untyped op) x of
        (Inl err, x') \<Rightarrow> (Inl (Failed err), x')
      | (Inr s, x') \<Rightarrow> (Inr \<lparr>ds_stream = s, ds_responses = op_Responses op, ds_limits = cl_limits cl, ds_closed = False\<rparr>, x'))"

definition DecodedStream_Next :: "('x, 's) client \<Rightarrow> ('a, 's) decoded_stream \<Rightarrow> 'x \<Rightarrow> (client_error + 'a \<times> control list) \<times> 'x" where
  "DecodedStream_Next cl s x =
     (if ds_closed s then (Inl (Failed (Text ''arden: decoded response stream is closed'' [])), x)
      else case ex_Next (cl_executor cl) (ds_stream s) x of
          (Inl err, x') \<Rightarrow> (Inl (Failed err), x')
        | (Inr response, x') \<Rightarrow>
            (case ResponsePattern_Decode (ds_responses s) response (ds_limits s) of
               Inl err \<Rightarrow> (Inl (Failed (Ber err)), x')
             | Inr decoded \<Rightarrow>
                 (case decodeControls (re_Controls response) (ds_limits s) of
                    Inl err \<Rightarrow> (Inl (Failed (Ber err)), x')
                  | Inr controls \<Rightarrow> (Inr (decoded, controls), x'))))"

definition requireEnd :: "('x, 's) client \<Rightarrow> ('a, 's) decoded_stream \<Rightarrow> string \<Rightarrow> 'x \<Rightarrow> client_error option \<times> 'x" where
  "requireEnd cl s unexpected x =
     (case DecodedStream_Next cl s x of
        (Inl err, x') \<Rightarrow> (if client_Is err IO_EOF then None else Some err, x')
      | (Inr _, x') \<Rightarrow> (Some (Failed (Text unexpected [])), x'))"

definition DecodedStream_Close ::
    "('x, 's) client \<Rightarrow> ('a, 's) decoded_stream \<Rightarrow> 'x \<Rightarrow> failure option \<times> ('a, 's) decoded_stream \<times> 'x" where
  "DecodedStream_Close cl s x =
     (if ds_closed s then (None, s, x)
      else let (err, x') = ex_Close (cl_executor cl) (ds_stream s) x in (err, s\<lparr>ds_closed := True\<rparr>, x'))"

section \<open>Operations with a single response\<close>

text \<open>\<^verbatim>\<open>strings.CutPrefix\<close> with the prefix \<^verbatim>\<open>"ldap."\<close>.\<close>

definition operationName :: "string \<Rightarrow> string" where
  "operationName label = (if take 5 label = ''ldap.'' then drop 5 label else label)"

text \<open>The results of \<^verbatim>\<open>ExecuteSingle\<close>: an error without a response, a rejected result, which returns the response together with the error, or a
  response.  \<^verbatim>\<open>LDAPResult\<close> of the response type is an argument.\<close>

datatype 'a single_result =
    SingleFailed client_error
  | SingleRejected 'a "control list" client_error
  | SingleAccepted 'a "control list"

fun single_error :: "'a single_result \<Rightarrow> client_error option" where
  "single_error (SingleFailed err) = Some err"
| "single_error (SingleRejected v cs err) = Some err"
| "single_error (SingleAccepted v cs) = None"

definition singleResponse ::
    "('x, 's) client \<Rightarrow> ('a \<Rightarrow> ldap_result) \<Rightarrow> string \<Rightarrow> int list \<Rightarrow> ('a, 's) decoded_stream \<Rightarrow> 'x
     \<Rightarrow> 'a single_result \<times> 'x" where
  "singleResponse cl LDAPResult label accepted s x =
     (case DecodedStream_Next cl s x of
        (Inl err, x') \<Rightarrow> (SingleFailed err, x')
      | (Inr (decoded, controls), x') \<Rightarrow>
          (case requireEnd cl s ''arden: single-response operation returned more than one response'' x' of
             (Some err, x'') \<Rightarrow> (SingleFailed err, x'')
           | (None, x'') \<Rightarrow>
               (if lr_ResultCode (LDAPResult decoded) \<in> set accepted then SingleAccepted decoded controls
                else SingleRejected decoded controls (Result_Error (operationName label) (LDAPResult decoded) controls), x'')))"

definition ExecuteSingle ::
    "('x, 's) client \<Rightarrow> ('a \<Rightarrow> ldap_result) \<Rightarrow> 'a operation \<Rightarrow> int list option list \<Rightarrow> 'x
     \<Rightarrow> 'a single_result \<times> 'x" where
  "ExecuteSingle cl LDAPResult op options x =
     (case ExecuteStream cl op x of
        (Inl err, x') \<Rightarrow> (SingleFailed err, x')
      | (Inr s, x') \<Rightarrow>
          let (res, x1) = singleResponse cl LDAPResult (op_Label op) (acceptedCodes options) s x';
              (_, _, x2) = DecodedStream_Close cl s x1
          in (res, x2))"

text \<open>The common end of the operations that return only an error.\<close>

definition runSingle ::
    "('x, 's) client \<Rightarrow> ('a \<Rightarrow> ldap_result) \<Rightarrow> goerror + 'a operation \<Rightarrow> 'x \<Rightarrow> client_error option \<times> 'x" where
  "runSingle cl LDAPResult operation x =
     (case operation of
        Inl err \<Rightarrow> (Some (Failed (Ber err)), x)
      | Inr op \<Rightarrow> (case ExecuteSingle cl LDAPResult op [] x of (res, x') \<Rightarrow> (single_error res, x')))"

definition Client_Add :: "('x, 's) client \<Rightarrow> entry option \<Rightarrow> control option list \<Rightarrow> 'x \<Rightarrow> client_error option \<times> 'x" where
  "Client_Add cl e options x =
     (case e of
        None \<Rightarrow> (Some (Failed (Text ''arden: nil Add entry'' [])), x)
      | Some e' \<Rightarrow>
          runSingle cl add_Result
            (NewAddOperation (Some \<lparr>ad_Entry = en_DN e', ad_Attributes = en_Attributes e', ad_Extensions = []\<rparr>) (requestControls options)) x)"

definition ModifyWithOptions ::
    "('x, 's) client \<Rightarrow> bytes \<Rightarrow> change list \<Rightarrow> control option list \<Rightarrow> 'x \<Rightarrow> client_error option \<times> 'x" where
  "ModifyWithOptions cl dn changes options x =
     runSingle cl modify_Result
       (NewModifyOperation (Some \<lparr>mo_Object = dn, mo_Changes = changes, mo_Extensions = []\<rparr>) (requestControls options)) x"

definition Client_Modify :: "('x, 's) client \<Rightarrow> bytes \<Rightarrow> change list \<Rightarrow> 'x \<Rightarrow> client_error option \<times> 'x" where
  "Client_Modify cl dn changes x = ModifyWithOptions cl dn changes [] x"

definition Client_Delete :: "('x, 's) client \<Rightarrow> bytes \<Rightarrow> control option list \<Rightarrow> 'x \<Rightarrow> client_error option \<times> 'x" where
  "Client_Delete cl dn options x =
     runSingle cl delete_Result (NewDeleteOperation (Some (DeleteRequest dn)) (requestControls options)) x"

definition Client_ModifyDN ::
    "('x, 's) client \<Rightarrow> bytes \<Rightarrow> bytes \<Rightarrow> bool \<Rightarrow> bytes \<Rightarrow> control option list \<Rightarrow> 'x \<Rightarrow> client_error option \<times> 'x" where
  "Client_ModifyDN cl dn newRDN deleteOldRDN newSuperior options x =
     runSingle cl modifyDN_Result
       (NewModifyDNOperation
          (Some \<lparr>md_Entry = dn, md_NewRDN = newRDN, md_DeleteOldRDN = deleteOldRDN,
                 md_NewSuperior = (if newSuperior \<noteq> [] then Some newSuperior else None), md_Extensions = []\<rparr>)
          (requestControls options)) x"

definition Client_compare ::
    "('x, 's) client \<Rightarrow> bytes \<Rightarrow> bytes \<Rightarrow> bytes \<Rightarrow> control option list \<Rightarrow> 'x \<Rightarrow> (client_error + bool) \<times> 'x" where
  "Client_compare cl dn attr v options x =
     (case NewCompareOperation
             (Some \<lparr>cm_Entry = dn, cm_Assertion = \<lparr>av_Type = attr, av_Value = v, av_Extensions = []\<rparr>, cm_Extensions = []\<rparr>)
             (requestControls options) of
        Inl err \<Rightarrow> (Inl (Failed (Ber err)), x)
      | Inr op \<Rightarrow>
          (case ExecuteSingle cl compare_Result op [Some [ResultCompareFalse, ResultCompareTrue]] x of
             (SingleFailed err, x') \<Rightarrow> (Inl err, x')
           | (SingleRejected _ _ err, x') \<Rightarrow> (Inl err, x')
           | (SingleAccepted resp _, x') \<Rightarrow>
               ((if lr_ResultCode (compare_Result resp) = ResultCompareTrue then Inr True
                 else if lr_ResultCode (compare_Result resp) = ResultCompareFalse then Inr False
                 else Inl (Failed (Text ''arden: Compare returned an accepted non-Compare result code'' []))), x')))"

end
