(* ===== verification/Conn_Setup.thy ===== *)
theory Conn_Setup
  imports Conn_State Transition
begin

text \<open>
  Setting up a connection (\<^verbatim>\<open>src/bootstrap.go\<close>, \<^verbatim>\<open>Dialer\<close> of \<^verbatim>\<open>src/connection.go\<close>): the session through which authentication and
  initialization run their operations, the order of the stages, and the dialer.

  Authentication and the initializer are interfaces; here they are functions on the session and the connection, which may do with
  them whatever the other goroutines allow.  \<open>env\<close> is what happens to the connection before a stage looks at it again, \<open>ctx\<close> what the
  setup context reports then, both by the number of the stage.
\<close>

section \<open>Initialization sessions\<close>

text \<open>The streams a session handed out are numbered; \<open>is_released\<close> are those whose contexts have been canceled.\<close>

record init_session =
  is_active :: bool
  is_operations :: int
  is_maxOps :: int
  is_created :: nat
  is_streams :: "nat list"
  is_released :: "nat list"

definition newInitializationSession :: "int \<Rightarrow> init_session" where
  "newInitializationSession maxOps =
     \<lparr>is_active = True, is_operations = 0, is_maxOps = maxOps, is_created = 0, is_streams = [], is_released = []\<rparr>"

text \<open>\<^verbatim>\<open>once.Do\<close> with \<^verbatim>\<open>releaseLocked\<close>, after the stream is deleted from the session.\<close>

definition session_release :: "nat \<Rightarrow> init_session \<Rightarrow> init_session" where
  "session_release i s =
     (if i \<in> set (is_released s) then s
      else s\<lparr>is_streams := filter (\<lambda>j. j \<noteq> i) (is_streams s), is_released := is_released s @ [i]\<rparr>)"

text \<open>\<^verbatim>\<open>Do\<close>: whether the context and the operation are there, the state of the setup context, whether the operation has no response, and the
  error of \<^verbatim>\<open>conn.do\<close>.\<close>

definition session_Do :: "bool \<Rightarrow> bool \<Rightarrow> failure option \<Rightarrow> bool \<Rightarrow> failure option \<Rightarrow> init_session \<Rightarrow> (failure + nat) \<times> init_session" where
  "session_Do ctx operation setupErr noResponse doErr s =
     (if \<not> ctx then (Inl (Text ''arden: nil initialization operation context'' []), s)
      else if \<not> operation then (Inl (Text ''arden: nil initialization operation'' []), s)
      else if \<not> is_active s then (Inl (Sentinel ErrInitializationClosed), s)
      else case setupErr of
          Some err \<Rightarrow> (Inl err, s)
        | None \<Rightarrow>
            if is_operations s = is_maxOps s
            then (Inl (Limit_Error ''initialization operations'' (is_operations s + 1) (is_maxOps s)), s)
            else
              let s1 = s\<lparr>is_operations := is_operations s + 1\<rparr> in
              case doErr of
                Some err \<Rightarrow> (Inl err, s1)
              | None \<Rightarrow>
                  let i = is_created s1; s2 = s1\<lparr>is_created := i + 1, is_streams := is_streams s1 @ [i]\<rparr>
                  in (Inr i, if noResponse then session_release i s2 else s2))"

definition session_deactivate :: "init_session \<Rightarrow> init_session" where
  "session_deactivate s =
     (if \<not> is_active s then s else fold session_release (is_streams s) (s\<lparr>is_active := False, is_streams := []\<rparr>))"

text \<open>\<^verbatim>\<open>Next\<close> of a stream, with what the stream underneath returns.\<close>

definition initStream_Next :: "framing_pattern \<Rightarrow> nat \<Rightarrow> failure + response \<Rightarrow> init_session \<Rightarrow> (failure + response) \<times> init_session" where
  "initStream_Next pattern i res s =
     (res,
      case res of
        Inl err \<Rightarrow> if errors_Is err IO_EOF then session_release i s else s
      | Inr response \<Rightarrow>
          if FramingPattern_Classify pattern (re_ProtocolID response) = ClassificationComplete then session_release i s else s)"

definition initStream_Close :: "nat \<Rightarrow> failure option \<Rightarrow> init_session \<Rightarrow> failure option \<times> init_session" where
  "initStream_Close i err s = (err, session_release i s)"

section \<open>The stages\<close>

type_synonym setup_world = "init_session \<times> conn"

record 'a authentication_method =
  au_ValidateEndpoint :: "(endpoint \<Rightarrow> failure option) option"
  au_Begin :: "endpoint \<Rightarrow> failure option \<times> 'a option"
  au_Authenticate :: "'a \<Rightarrow> setup_world \<Rightarrow> (failure + identity) \<times> 'a \<times> setup_world"
  au_Close :: "'a \<Rightarrow> failure option"

definition unauthenticatedIdentity :: string where
  "unauthenticatedIdentity = ''unauthenticated''"

text \<open>\<^verbatim>\<open>errors.Join\<close> of two errors at least one of which is not nil.\<close>

definition errors_Join :: "failure option \<Rightarrow> failure option \<Rightarrow> failure" where
  "errors_Join a b = Join (List.map_filter id [a, b])"

definition authenticate :: "'a authentication_method option \<Rightarrow> endpoint \<Rightarrow> setup_world \<Rightarrow> (failure + identity) \<times> setup_world" where
  "authenticate auth ep w =
     (case auth of
        None \<Rightarrow> (Inr \<lparr>StableID = unauthenticatedIdentity\<rparr>, w)
      | Some au \<Rightarrow>
          (case au_Begin au ep of
             (Some beginErr, None) \<Rightarrow> (Inl beginErr, w)
           | (None, None) \<Rightarrow> (Inl (Text ''arden: authentication returned a nil authenticator'' []), w)
           | (Some beginErr, Some a) \<Rightarrow> (Inl (errors_Join (Some beginErr) (au_Close au a)), w)
           | (None, Some a) \<Rightarrow>
               (case au_Authenticate au a w of
                  (Inl authErr, a', w') \<Rightarrow> (Inl (errors_Join (Some authErr) (au_Close au a')), w')
                | (Inr ident, a', w') \<Rightarrow>
                    (case au_Close au a' of
                       Some closeErr \<Rightarrow> (Inl (errors_Join None (Some closeErr)), w')
                     | None \<Rightarrow> (Inr ident, w')))))"

definition setupFailure :: "string \<Rightarrow> setup_stage \<Rightarrow> failure \<Rightarrow> failure" where
  "setupFailure eid stage err = (if as_SetupError err then err else SetupError eid stage err)"

type_synonym 'p initializer = "setup_world \<Rightarrow> (failure + 'p \<times> connection_policy) \<times> setup_world"

text \<open>The stages of \<^verbatim>\<open>initialize\<close>, in reverse order of their calls.  The last one makes the connection ready.\<close>

definition publish ::
    "(nat \<Rightarrow> conn \<Rightarrow> conn) \<Rightarrow> (nat \<Rightarrow> failure option) \<Rightarrow> string \<Rightarrow> identity \<Rightarrow> 'p option \<Rightarrow> connection_policy \<Rightarrow> setup_world
     \<Rightarrow> (failure + identity \<times> 'p option) \<times> setup_world" where
  "publish env ctx eid ident profile policy w =
     (let (s, c0) = w; failed = (\<lambda>err. Inl (setupFailure eid SetupInitialization err)) in
      case ctx 1 of
        Some err \<Rightarrow> (failed err, w)
      | None \<Rightarrow>
          (case ConnectionPolicy_Validate policy of
             Some err \<Rightarrow> (failed err, w)
           | None \<Rightarrow>
               let c = env 3 c0 in
               case requireInitializationIdle c of
                 Some err \<Rightarrow> (failed err, (s, c))
               | None \<Rightarrow>
                   let s' = session_deactivate s in
                   (case markReady ident policy (env 4 c) of
                      (Some err, c') \<Rightarrow> (failed err, (s', c'))
                    | (None, c') \<Rightarrow> (Inr (ident, profile), (s', c')))))"

definition runInitializer ::
    "(nat \<Rightarrow> conn \<Rightarrow> conn) \<Rightarrow> (nat \<Rightarrow> failure option) \<Rightarrow> string \<Rightarrow> 'p initializer option \<Rightarrow> identity \<Rightarrow> setup_world
     \<Rightarrow> (failure + identity \<times> 'p option) \<times> setup_world" where
  "runInitializer env ctx eid initializer ident w =
     (let (s, c0) = w in
      case transition stateInitializing (env 2 c0) of
        (Some err, c) \<Rightarrow> (Inl (setupFailure eid SetupInitialization err), (s, c))
      | (None, c) \<Rightarrow>
          (case initializer of
             None \<Rightarrow> publish env ctx eid ident None \<lparr>cp_Cancellation = CancellationConservative\<rparr> (s, c)
           | Some f \<Rightarrow>
               (case f (s, c) of
                  (Inl err, w') \<Rightarrow>
                    (Inl (setupFailure eid (if errors_Is err ErrProfileMismatch then SetupProfileMismatch else SetupInitialization) err), w')
                | (Inr (profile, policy), w') \<Rightarrow> publish env ctx eid ident (Some profile) policy w')))"

definition setupStages ::
    "(nat \<Rightarrow> conn \<Rightarrow> conn) \<Rightarrow> (nat \<Rightarrow> failure option) \<Rightarrow> 'a authentication_method option \<Rightarrow> endpoint \<Rightarrow> 'p initializer option \<Rightarrow> setup_world
     \<Rightarrow> (failure + identity \<times> 'p option) \<times> setup_world" where
  "setupStages env ctx auth ep initializer w =
     (let (s, c0) = w; failed = (\<lambda>err. Inl (setupFailure (ep_ID ep) SetupAuthentication err)) in
      case transition stateAuthenticating (env 0 c0) of
        (Some err, c) \<Rightarrow> (failed err, (s, c))
      | (None, c) \<Rightarrow>
          (case authenticate auth ep (s, c) of
             (Inl err, w1) \<Rightarrow> (failed err, w1)
           | (Inr ident, w1) \<Rightarrow>
               (case ctx 0 of
                  Some err \<Rightarrow> (failed err, w1)
                | None \<Rightarrow>
                    (case Identity_Validate ident of
                       Some err \<Rightarrow> (failed err, w1)
                     | None \<Rightarrow>
                         let (s1, c1) = w1; c2 = env 1 c1 in
                         case requireInitializationIdle c2 of
                           Some err \<Rightarrow> (failed err, (s1, c2))
                         | None \<Rightarrow> runInitializer env ctx (ep_ID ep) initializer ident (s1, c2)))))"

text \<open>\<^verbatim>\<open>initialize\<close> with its deferred calls: the session is deactivated and a failure retires the connection.\<close>

definition Dialer_initialize ::
    "(nat \<Rightarrow> conn \<Rightarrow> conn) \<Rightarrow> (nat \<Rightarrow> failure option) \<Rightarrow> 'a authentication_method option \<Rightarrow> endpoint \<Rightarrow> 'p initializer option \<Rightarrow> conn
     \<Rightarrow> (failure + identity \<times> 'p option) \<times> setup_world" where
  "Dialer_initialize env ctx auth ep initializer c =
     (let s = newInitializationSession (MaxInitializationOperations (cn_options c));
          (res, s1, c1) = setupStages env ctx auth ep initializer (s, c);
          s2 = session_deactivate s1
      in (res, s2, case res of Inl err \<Rightarrow> retire (Some err) c1 | Inr _ \<Rightarrow> c1))"

section \<open>Dialing\<close>

text \<open>The transport of a connection.\<close>

datatype wire = RawConn | TLSConn string

text \<open>How far \<^verbatim>\<open>dial\<close> came, and what it does before it has a transport; \<^verbatim>\<open>DialContext\<close> and the TLS handshake with a server name are arguments that return their error.\<close>

datatype dial_stage = NoTransport | Transport wire

definition dial_preflight ::
    "bool \<Rightarrow> endpoint \<Rightarrow> connection_options \<Rightarrow> 'a authentication_method option \<Rightarrow> failure + connection_options" where
  "dial_preflight ctx ep opt auth =
     (if \<not> ctx then Inl (Text ''arden: nil dial context'' [])
      else case Endpoint_Validate ep of
          Some err \<Rightarrow> Inl err
        | None \<Rightarrow>
            (case normalized opt of
               Inl err \<Rightarrow> Inl err
             | Inr opt' \<Rightarrow>
                 (case (case auth of None \<Rightarrow> None | Some au \<Rightarrow> au_ValidateEndpoint au) of
                    None \<Rightarrow> Inr opt'
                  | Some v \<Rightarrow> (case v ep of Some err \<Rightarrow> Inl (SetupError (ep_ID ep) SetupAuthentication err) | None \<Rightarrow> Inr opt'))))"

definition dial_transport :: "failure option \<Rightarrow> (string \<Rightarrow> failure option) \<Rightarrow> endpoint \<Rightarrow> failure + wire" where
  "dial_transport netErr handshake ep =
     (case netErr of
        Some err \<Rightarrow> Inl (TransportError StageDial OutcomeNotApplicable err)
      | None \<Rightarrow>
          if ep_Transport ep = TransportDirectTLS
          then (case handshake (ep_ServerName ep) of
                  Some err \<Rightarrow> Inl (TransportError StageTLS OutcomeNotApplicable err)
                | None \<Rightarrow> Inr (TLSConn (ep_ServerName ep)))
          else Inr RawConn)"

definition Dialer_dial ::
    "bool \<Rightarrow> connection_options \<Rightarrow> failure option \<Rightarrow> (string \<Rightarrow> failure option) \<Rightarrow> (nat \<Rightarrow> conn \<Rightarrow> conn) \<Rightarrow> (nat \<Rightarrow> failure option)
     \<Rightarrow> 'a authentication_method option \<Rightarrow> endpoint \<Rightarrow> 'p initializer option \<Rightarrow> dial_stage \<times> (failure + conn \<times> identity \<times> 'p option)" where
  "Dialer_dial hasCtx opt netErr handshake env ctx auth ep initializer =
     (case dial_preflight hasCtx ep opt auth of
        Inl err \<Rightarrow> (NoTransport, Inl err)
      | Inr opt' \<Rightarrow>
          (case dial_transport netErr handshake ep of
             Inl err \<Rightarrow> (NoTransport, Inl err)
           | Inr transport \<Rightarrow>
               (Transport transport,
                case advanceConnectionState stateDialing stateTransportSetup of
                  Inl err \<Rightarrow> Inl err
                | Inr st \<Rightarrow>
                    (case newConn True opt' MaxMessageID st of
                       Inl err \<Rightarrow> Inl err
                     | Inr c \<Rightarrow>
                         (case Dialer_initialize env ctx auth ep initializer c of
                            (Inl err, _, _) \<Rightarrow> Inl err
                          | (Inr (ident, profile), _, c') \<Rightarrow> Inr (c', ident, profile))))))"

text \<open>\<^verbatim>\<open>Dial\<close> has no initializer; \<^verbatim>\<open>Bootstrap\<close> needs one, and reads identity and policy back from the connection.\<close>

definition Dial ::
    "bool \<Rightarrow> connection_options \<Rightarrow> failure option \<Rightarrow> (string \<Rightarrow> failure option) \<Rightarrow> (nat \<Rightarrow> conn \<Rightarrow> conn) \<Rightarrow> (nat \<Rightarrow> failure option)
     \<Rightarrow> 'a authentication_method option \<Rightarrow> endpoint \<Rightarrow> dial_stage \<times> (failure + conn)" where
  "Dial hasCtx opt netErr handshake env ctx auth ep =
     (case Dialer_dial hasCtx opt netErr handshake env ctx auth ep (None :: unit initializer option) of
        (stage, Inl err) \<Rightarrow> (stage, Inl err)
      | (stage, Inr (c, _, _)) \<Rightarrow> (stage, Inr c))"

record 'p bootstrap_result =
  sr_Conn :: conn
  sr_Endpoint :: endpoint
  sr_Identity :: identity
  sr_Profile :: "'p option"
  sr_Policy :: connection_policy

definition Bootstrap ::
    "bool \<Rightarrow> connection_options \<Rightarrow> failure option \<Rightarrow> (string \<Rightarrow> failure option) \<Rightarrow> (nat \<Rightarrow> conn \<Rightarrow> conn) \<Rightarrow> (nat \<Rightarrow> failure option)
     \<Rightarrow> 'a authentication_method option \<Rightarrow> endpoint \<Rightarrow> 'p initializer option \<Rightarrow> dial_stage \<times> (failure + 'p bootstrap_result)" where
  "Bootstrap hasCtx opt netErr handshake env ctx auth ep initializer =
     (case initializer of
        None \<Rightarrow> (NoTransport, Inl (Text ''arden: nil initializer'' []))
      | Some f \<Rightarrow>
          (case Dialer_dial hasCtx opt netErr handshake env ctx auth ep (Some f) of
             (stage, Inl err) \<Rightarrow> (stage, Inl err)
           | (stage, Inr (c, _, typedProfile)) \<Rightarrow>
               (stage, Inr \<lparr>sr_Conn = c, sr_Endpoint = ep, sr_Identity = cn_identity c, sr_Profile = typedProfile,
                           sr_Policy = cn_policy c\<rparr>)))"

section \<open>The life of a session\<close>

inductive session_step :: "init_session \<Rightarrow> init_session \<Rightarrow> bool" where
  step_Do: "session_Do ctx operation setupErr noResponse doErr s = (res, s') \<Longrightarrow> session_step s s'"
| step_Next: "i < is_created s \<Longrightarrow> initStream_Next pattern i res s = (res', s') \<Longrightarrow> session_step s s'"
| step_Close: "i < is_created s \<Longrightarrow> initStream_Close i err s = (err', s') \<Longrightarrow> session_step s s'"
| step_deactivate: "session_step s (session_deactivate s)"

definition session_init :: "int \<Rightarrow> init_session \<Rightarrow> bool" where
  "session_init maxOps s \<longleftrightarrow> s = newInitializationSession maxOps"

definition session_inv :: "int \<Rightarrow> init_session \<Rightarrow> bool" where
  "session_inv maxOps s \<longleftrightarrow> is_maxOps s = maxOps \<and> int (is_created s) \<le> is_operations s \<and> (0 \<le> maxOps \<longrightarrow> is_operations s \<le> maxOps)
     \<and> distinct (is_streams s @ is_released s) \<and> set (is_streams s @ is_released s) = {..<is_created s} \<and> (is_active s \<or> is_streams s = [])"

lemma release_keeps [simp]:
  "is_active (session_release i s) = is_active s" "is_maxOps (session_release i s) = is_maxOps s"
  "is_created (session_release i s) = is_created s" "is_operations (session_release i s) = is_operations s"
  by (simp_all add: session_release_def)

lemma release_inv:
  assumes "session_inv k s" "i < is_created s"
  shows "session_inv k (session_release i s)"
proof (cases "i \<in> set (is_released s)")
  case False
  have inv: "distinct (is_streams s @ is_released s)" "set (is_streams s) \<union> set (is_released s) = {..<is_created s}"
    using assms(1) by (simp_all add: session_inv_def)
  have i: "i \<in> set (is_streams s)" using inv(2) assms(2) False by blast
  have "distinct (filter (\<lambda>j. j \<noteq> i) (is_streams s) @ is_released s @ [i])" using inv(1) False by auto
  moreover have "set (filter (\<lambda>j. j \<noteq> i) (is_streams s) @ is_released s @ [i]) = {..<is_created s}" using inv(2) i by auto
  moreover have "is_active s \<or> filter (\<lambda>j. j \<noteq> i) (is_streams s) = []" using assms(1) by (auto simp: session_inv_def)
  ultimately show ?thesis using assms(1) False by (simp add: session_inv_def session_release_def)
qed (use assms in \<open>simp add: session_release_def\<close>)

text \<open>Releasing all the streams of a session that was emptied.\<close>

lemma release_all:
  assumes "distinct (is @ is_released s)"
  shows "fold session_release is (s\<lparr>is_streams := []\<rparr>) = s\<lparr>is_streams := [], is_released := is_released s @ is\<rparr>"
  using assms
proof (induction "is" arbitrary: s)
  case (Cons i js)
  have "session_release i (s\<lparr>is_streams := []\<rparr>) = (s\<lparr>is_released := is_released s @ [i]\<rparr>)\<lparr>is_streams := []\<rparr>"
    using Cons.prems by (simp add: session_release_def)
  then show ?case using Cons.IH [of "s\<lparr>is_released := is_released s @ [i]\<rparr>"] Cons.prems by auto
qed simp

lemma deactivate_inv: "session_inv k s \<Longrightarrow> session_inv k (session_deactivate s)"
proof (cases "is_active s")
  case True
  assume inv: "session_inv k s"
  then have "session_deactivate s = s\<lparr>is_active := False, is_streams := [], is_released := is_released s @ is_streams s\<rparr>"
    using True release_all [of "is_streams s" "s\<lparr>is_active := False\<rparr>"] by (simp add: session_deactivate_def session_inv_def)
  then show ?thesis using inv by (auto simp: session_inv_def)
qed (simp add: session_deactivate_def)

lemma deactivate_inactive [simp]: "\<not> is_active (session_deactivate s)"
proof -
  have "is_active (fold session_release is t) = is_active t" for "is" t by (induction "is" arbitrary: t) simp_all
  then show ?thesis by (simp add: session_deactivate_def)
qed

interpretation init_sessions: invariant_system "session_init k" session_step "session_inv k" for k
proof
  fix s assume "session_init k s"
  then show "session_inv k s" by (auto simp: session_init_def newInitializationSession_def session_inv_def)
next
  fix s s' assume "session_step s s'" and inv: "session_inv k s"
  then show "session_inv k s'"
  proof cases
    case (step_Do ctx operation setupErr noResponse doErr res)
    define t where "t = s\<lparr>is_operations := is_operations s + 1, is_created := is_created s + 1, is_streams := is_streams s @ [is_created s]\<rparr>"
    have t: "session_inv k t" if "is_active s" "is_operations s \<noteq> is_maxOps s" using inv that by (auto simp: session_inv_def t_def)
    have r: "session_inv k (session_release (is_created s) t)" if "is_active s" "is_operations s \<noteq> is_maxOps s"
      using t [OF that] by (rule release_inv) (simp add: t_def)
    have o: "session_inv k (s\<lparr>is_operations := is_operations s + 1\<rparr>)" if "is_operations s \<noteq> is_maxOps s"
      using inv that by (auto simp: session_inv_def)
    have "s' = s \<or> is_active s \<and> is_operations s \<noteq> is_maxOps s \<and>
        (s' = s\<lparr>is_operations := is_operations s + 1\<rparr> \<or> s' = t \<or> s' = session_release (is_created s) t)"
      using step_Do by (simp add: session_Do_def Let_def t_def split: if_split_asm option.splits)
    then show ?thesis using inv t r o by blast
  next
    case (step_Next i pattern res res')
    then show ?thesis using inv release_inv by (auto simp: initStream_Next_def split: sum.splits if_splits)
  next
    case (step_Close i err err')
    then show ?thesis using inv release_inv by (auto simp: initStream_Close_def)
  next
    case step_deactivate
    then show ?thesis using deactivate_inv inv by simp
  qed
qed

section \<open>Properties\<close>

lemma as_SetupError_Is: "as_SetupError err \<Longrightarrow> errors_Is err ErrSetup"
  by (induction err rule: as_SetupError.induct) (auto split: option.splits)

lemma setupFailure_Is: "errors_Is (setupFailure eid stage err) ErrSetup"
  by (simp add: setupFailure_def as_SetupError_Is)

text \<open>(C39) A session admits no more operations than its limit, however it is used.  Every stream it handed out is either registered or has had
  its context released, exactly once; and once the session is deactivated all are released and no operation starts.\<close>

theorem init_session_bounded:
  assumes "0 \<le> k" "reach (session_init k) session_step s"
  shows "is_operations s \<le> k \<and> int (is_created s) \<le> is_operations s
    \<and> distinct (is_streams s @ is_released s) \<and> set (is_streams s @ is_released s) = {..<is_created s}
    \<and> (\<not> is_active s \<longrightarrow> set (is_released s) = {..<is_created s}
         \<and> (\<forall>setupErr noResponse doErr. session_Do True True setupErr noResponse doErr s = (Inl (Sentinel ErrInitializationClosed), s)))"
proof -
  have "session_inv k s" using init_sessions.reach_inv [OF assms(2)] .
  then have inv: "is_operations s \<le> k" "int (is_created s) \<le> is_operations s" "distinct (is_streams s @ is_released s)"
      "set (is_streams s @ is_released s) = {..<is_created s}" "is_active s \<or> is_streams s = []"
    using assms(1) unfolding session_inv_def by blast+
  moreover have "set (is_released s) = {..<is_created s}" if "\<not> is_active s" using inv(4,5) that by simp
  ultimately show ?thesis by (simp add: session_Do_def)
qed

definition used_session :: init_session where
  "used_session = session_deactivate (snd (session_Do True True None False None (snd (session_Do True True None True None (newInitializationSession 2)))))"

theorem init_session_bounded_witness: "set (is_released used_session) = {..<2} \<and> is_operations used_session \<le> 2"
proof -
  let ?s0 = "newInitializationSession 2"
  let ?s1 = "snd (session_Do True True None True None ?s0)"
  let ?s2 = "snd (session_Do True True None False None ?s1)"
  have "reach (session_init 2) session_step ?s0" by (rule reach_init) (simp add: session_init_def)
  then have "reach (session_init 2) session_step ?s1" by (rule reach_step) (rule step_Do, rule prod.collapse [symmetric])
  then have "reach (session_init 2) session_step ?s2" by (rule reach_step) (rule step_Do, rule prod.collapse [symmetric])
  then have "reach (session_init 2) session_step used_session" unfolding used_session_def by (rule reach_step) (rule step_deactivate)
  then have "is_operations used_session \<le> 2" "\<not> is_active used_session \<Longrightarrow> set (is_released used_session) = {..<is_created used_session}"
    using init_session_bounded [of 2 used_session] by simp_all
  moreover have "is_created used_session = 2" "\<not> is_active used_session" by code_simp+
  ultimately show ?thesis by simp
qed

lemma markReady_effect:
  assumes "markReady ident policy c = (None, c')"
  shows "cn_err c' = None \<and> cn_state c' = stateReady \<and> cn_identity c' = ident \<and> cn_policy c' = policy
    \<and> cn_reserved c' = [] \<and> cn_pending c' = [] \<and> cn_tombstones c' = []"
  using assms by (auto simp: markReady_def advanceConnectionState_Inr split: option.splits if_splits sum.splits)

definition ready_for :: "identity \<Rightarrow> conn \<Rightarrow> bool" where
  "ready_for ident c \<longleftrightarrow> cn_err c = None \<and> cn_state c = stateReady \<and> cn_identity c = ident \<and> ConnectionPolicy_Validate (cn_policy c) = None
     \<and> cn_reserved c = [] \<and> cn_pending c = [] \<and> cn_tombstones c = []"

lemma publish_outcome:
  assumes "publish env ctx eid ident profile policy w = (res, s, c)"
  shows "case res of Inl err \<Rightarrow> errors_Is err ErrSetup | Inr (i, p) \<Rightarrow> i = ident \<and> ready_for ident c"
  using assms
  by (auto simp: publish_def Let_def ready_for_def setupFailure_Is split: prod.splits option.splits dest!: markReady_effect)

lemma runInitializer_outcome:
  assumes "runInitializer env ctx eid initializer ident w = (res, s, c)"
  shows "case res of Inl err \<Rightarrow> errors_Is err ErrSetup | Inr (i, p) \<Rightarrow> i = ident \<and> ready_for ident c"
  using assms
  by (auto simp: runInitializer_def setupFailure_Is split: prod.splits option.splits sum.splits dest!: publish_outcome)

lemma setupStages_outcome:
  assumes "setupStages env ctx auth ep initializer w = (res, s, c)"
  shows "case res of Inl err \<Rightarrow> errors_Is err ErrSetup | Inr (i, p) \<Rightarrow> Identity_Validate i = None \<and> ready_for i c"
  using assms
  by (auto simp: setupStages_def Let_def setupFailure_Is split: prod.splits option.splits sum.splits dest!: runInitializer_outcome)

text \<open>The identity is the one authentication returned.\<close>

lemma publish_Inr: "publish env ctx eid ident profile policy w = (Inr (i, p), w') \<Longrightarrow> i = ident"
  by (auto simp: publish_def Let_def split: prod.splits option.splits)

lemma runInitializer_Inr: "runInitializer env ctx eid initializer ident w = (Inr (i, p), w') \<Longrightarrow> i = ident"
  by (auto simp: runInitializer_def split: prod.splits option.splits sum.splits dest!: publish_Inr)

lemma setupStages_identity: "setupStages env ctx auth ep initializer w = (Inr (i, p), w') \<Longrightarrow> \<exists>w0. fst (authenticate auth ep w0) = Inr i"
  by (auto simp: setupStages_def Let_def split: prod.splits option.splits sum.splits dest!: runInitializer_Inr) (metis fst_conv)

lemma initialize_identity: "Dialer_initialize env ctx auth ep initializer c = (Inr (i, p), w') \<Longrightarrow> \<exists>w0. fst (authenticate auth ep w0) = Inr i"
  by (auto simp: Dialer_initialize_def Let_def split: prod.splits dest!: setupStages_identity)

lemma authenticate_Inr:
  "fst (authenticate (Some au) ep w) = Inr i \<Longrightarrow>
     \<exists>a a' w'. au_Begin au ep = (None, Some a) \<and> au_Authenticate au a w = (Inr i, a', w')"
  by (auto simp: authenticate_def split: prod.splits option.splits sum.splits)

lemma setup_result:
  assumes "Dialer_initialize env ctx auth ep initializer c = (res, s, c')"
  shows "\<not> is_active s \<and>
    (case res of
       Inl err \<Rightarrow> errors_Is err ErrSetup \<and> cn_err c' \<noteq> None
     | Inr (ident, profile) \<Rightarrow>
         StableID ident \<noteq> [] \<and> cn_err c' = None \<and> cn_state c' = stateReady \<and> cn_identity c' = ident
         \<and> ConnectionPolicy_Validate (cn_policy c') = None \<and> cn_reserved c' = [] \<and> cn_pending c' = [] \<and> cn_tombstones c' = [])"
proof -
  let ?s = "newInitializationSession (MaxInitializationOperations (cn_options c))"
  obtain r1 s1 c1 where st: "setupStages env ctx auth ep initializer (?s, c) = (r1, s1, c1)" by (metis prod_cases3)
  have res: "res = r1" "s = session_deactivate s1" "c' = (case r1 of Inl err \<Rightarrow> retire (Some err) c1 | Inr _ \<Rightarrow> c1)"
    using assms st by (auto simp: Dialer_initialize_def Let_def)
  have "cn_err (retire e c1) \<noteq> None" for e by (simp add: retire_def Let_def signalIDChangedLocked_def)
  then show ?thesis using setupStages_outcome [OF st] res
    by (auto simp: ready_for_def Identity_Validate_def split: sum.splits if_splits)
qed

lemma setup_ready:
  assumes "Dialer_initialize env ctx auth ep initializer c = (Inr (ident, profile), s, c')"
  shows "cn_identity c' = ident \<and> cn_state c' = stateReady \<and> cn_err c' = None"
  using setup_result [OF assms] by simp

text \<open>(C6) Setting up a connection has two outcomes, whatever authentication, the initializer and the other goroutines do.  On success the
  connection is ready, alive, idle, and has the identity returned, which is not empty, and a valid policy.  Otherwise the
  error is a setup error and the connection is retired.  In both cases the session is closed.\<close>

theorem setup_outcome:
  assumes "Dialer_initialize env ctx auth ep initializer c = (res, s, c')"
  shows "\<not> is_active s \<and>
    (case res of
       Inl err \<Rightarrow> errors_Is err ErrSetup \<and> cn_err c' \<noteq> None
     | Inr (ident, profile) \<Rightarrow>
         StableID ident \<noteq> [] \<and> cn_err c' = None \<and> cn_state c' = stateReady \<and> cn_identity c' = ident
         \<and> ConnectionPolicy_Validate (cn_policy c') = None \<and> cn_reserved c' = [] \<and> cn_pending c' = [] \<and> cn_tombstones c' = [])"
  by (rule setup_result [OF assms])

text \<open>A connection fresh from its transport, and its setup without authentication.\<close>

definition fresh_conn :: conn where
  "fresh_conn = projr (newConn True DefaultConnectionOptions 3 stateTransportSetup)"

definition fresh_endpoint :: endpoint where
  "fresh_endpoint = \<lparr>ep_ID = ''a'', ep_Address = ''b:389'', ep_ServerName = [], ep_Transport = TransportPlaintext\<rparr>"

definition fresh_setup :: "(failure + identity \<times> unit option) \<times> setup_world" where
  "fresh_setup = Dialer_initialize (\<lambda>_. id) (\<lambda>_. None) (None :: unit authentication_method option) fresh_endpoint None fresh_conn"

theorem setup_outcome_witness:
  "cn_state (snd (snd fresh_setup)) = stateReady \<and> \<not> is_active (fst (snd fresh_setup))
    \<and> cn_identity (snd (snd fresh_setup)) = \<lparr>StableID = unauthenticatedIdentity\<rparr>"
proof -
  obtain res s c where f: "fresh_setup = (res, s, c)" by (metis prod_cases3)
  have "fst fresh_setup = Inr (\<lparr>StableID = unauthenticatedIdentity\<rparr>, None)" by code_simp
  then have "res = Inr (\<lparr>StableID = unauthenticatedIdentity\<rparr>, None)" using f by (metis fst_conv)
  then show ?thesis using setup_outcome [OF f [unfolded fresh_setup_def]] unfolding f by simp
qed

end
