(* ===== verification/Auth.thy ===== *)
theory Auth
  imports Client Conn_Setup Ldap_Bind
begin

text \<open>
  Bind authentication (\<^verbatim>\<open>src/auth/auth.go\<close>, \<^verbatim>\<open>src/auth/simple.go\<close>): anonymous and simple binds, run over an initialization session, and
  what the dialer does with them.  The session is an executor on a world of any type; contexts are whether they are there and
  what they report.
\<close>

section \<open>One bind\<close>

text \<open>\<open>ba_array\<close> is the array behind the slice of credentials, which outlives it.\<close>

record bind_authenticator =
  ba_identity :: identity
  ba_name :: bytes
  ba_credentials :: bytes
  ba_array :: bytes
  ba_used :: bool
  ba_closed :: bool

definition anonymousStableID :: string where
  "anonymousStableID = ''anonymous''"

definition BindError :: "int \<Rightarrow> failure" where
  "BindError code = Text ''arden/auth: Bind failed with LDAP result code %d'' [AInt code]"

definition bindRequest :: "bind_authenticator \<Rightarrow> bind_request" where
  "bindRequest a = \<lparr>br_Version = 3, br_Name = ba_name a, br_Authentication = SimpleAuthentication (ba_credentials a), br_Extensions = []\<rparr>"

text \<open>What \<^verbatim>\<open>Authenticate\<close> does with the stream of the bind.\<close>

definition bindResult ::
    "('x, 's) executor_api \<Rightarrow> identity \<Rightarrow> bind_response operation \<Rightarrow> 's \<Rightarrow> 'x \<Rightarrow> (failure + identity) \<times> 'x" where
  "bindResult session ident operation stream x =
     (case ex_Next session stream x of
        (Inl err, x1) \<Rightarrow> (Inl err, x1)
      | (Inr response, x1) \<Rightarrow>
          (case ResponsePattern_Decode (op_Responses operation) response DefaultLimits of
             Inl err \<Rightarrow> (Inl (Ber err), x1)
           | Inr bindResponse \<Rightarrow>
               if lr_ResultCode (bs_Result bindResponse) \<noteq> ResultSuccess
               then (Inl (BindError (lr_ResultCode (bs_Result bindResponse))), x1)
               else
                 (case ex_Next session stream x1 of
                    (Inr _, x2) \<Rightarrow> (Inl (Text ''arden/auth: Bind returned more than one response'' []), x2)
                  | (Inl err, x2) \<Rightarrow> if errors_Is err IO_EOF then (Inr ident, x2) else (Inl err, x2))))"

definition Authenticate ::
    "bool \<Rightarrow> ('x, 's) executor_api option \<Rightarrow> bind_authenticator \<Rightarrow> 'x \<Rightarrow> (failure + identity) \<times> bind_authenticator \<times> 'x" where
  "Authenticate ctx session a x =
     (if \<not> ctx then (Inl (Text ''arden/auth: nil authentication context'' []), a, x)
      else case session of
          None \<Rightarrow> (Inl (Text ''arden/auth: nil initialization session'' []), a, x)
        | Some ses \<Rightarrow>
            if ba_closed a then (Inl (Text ''arden/auth: authenticator is closed'' []), a, x)
            else if ba_used a then (Inl (Text ''arden/auth: authenticator was already used'' []), a, x)
            else
              let a1 = a\<lparr>ba_used := True\<rparr> in
              case NewBindOperation (Some (bindRequest a1)) [] of
                Inl err \<Rightarrow> (Inl (Ber err), a1, x)
              | Inr operation \<Rightarrow>
                  (case ex_Do ses (Operation_Untyped operation) x of
                     (Inl err, x1) \<Rightarrow> (Inl err, a1, x1)
                   | (Inr stream, x1) \<Rightarrow>
                       let (res, x2) = bindResult ses (ba_identity a1) operation stream x1 in (res, a1, x2)))"

definition Authenticator_Close :: "bind_authenticator \<Rightarrow> failure option \<times> bind_authenticator" where
  "Authenticator_Close a =
     (if ba_closed a then (None, a)
      else (None, a\<lparr>ba_closed := True, ba_array := replicate (length (ba_credentials a)) 0, ba_name := [], ba_credentials := []\<rparr>))"

section \<open>The two methods\<close>

definition Anonymous_Begin :: "bool \<Rightarrow> failure option \<Rightarrow> endpoint \<Rightarrow> failure + bind_authenticator" where
  "Anonymous_Begin ctx ctxErr ep =
     (if \<not> ctx then Inl (Text ''arden/auth: nil authentication context'' [])
      else case ctxErr of
          Some err \<Rightarrow> Inl err
        | None \<Rightarrow> Inr \<lparr>ba_identity = \<lparr>StableID = anonymousStableID\<rparr>, ba_name = [], ba_credentials = [], ba_array = [],
                       ba_used = False, ba_closed = False\<rparr>)"

record simple_bind =
  sb_identity :: identity
  sb_bindDN :: bytes
  sb_credentials :: bytes

definition NewSimpleBind :: "string \<Rightarrow> bytes \<Rightarrow> bytes \<Rightarrow> failure + simple_bind" where
  "NewSimpleBind stableID bindDN credentials =
     (let ident = \<lparr>StableID = stableID\<rparr> in
      case Identity_Validate ident of
        Some err \<Rightarrow> Inl err
      | None \<Rightarrow>
          if bindDN = [] then Inl (Text ''arden/auth: Simple Bind DN is empty; use Anonymous for anonymous authentication'' [])
          else if \<not> utf8_Valid bindDN then Inl (Text ''arden/auth: Simple Bind DN is not valid UTF-8'' [])
          else if credentials = [] then Inl (Text ''arden/auth: Simple Bind credentials are empty'' [])
          else Inr \<lparr>sb_identity = ident, sb_bindDN = bindDN, sb_credentials = credentials\<rparr>)"

definition SimpleBind_ValidateEndpoint :: "endpoint \<Rightarrow> failure option" where
  "SimpleBind_ValidateEndpoint ep =
     (if ep_Transport ep \<noteq> TransportDirectTLS then Some (Text ''arden/auth: Simple Bind requires direct TLS'' []) else None)"

definition SimpleBind_Begin :: "simple_bind \<Rightarrow> bool \<Rightarrow> failure option \<Rightarrow> endpoint \<Rightarrow> failure + bind_authenticator" where
  "SimpleBind_Begin b ctx ctxErr ep =
     (if \<not> ctx then Inl (Text ''arden/auth: nil authentication context'' [])
      else case ctxErr of
          Some err \<Rightarrow> Inl err
        | None \<Rightarrow>
            (case SimpleBind_ValidateEndpoint ep of
               Some err \<Rightarrow> Inl err
             | None \<Rightarrow> Inr \<lparr>ba_identity = sb_identity b, ba_name = sb_bindDN b, ba_credentials = sb_credentials b,
                            ba_array = sb_credentials b, ba_used = False, ba_closed = False\<rparr>))"

text \<open>The methods as the dialer sees them, over a session that runs operations on the connection being set up.\<close>

definition bind_method ::
    "(setup_world, 's) executor_api \<Rightarrow> (endpoint \<Rightarrow> failure option) option \<Rightarrow> (endpoint \<Rightarrow> failure + bind_authenticator)
     \<Rightarrow> bind_authenticator authentication_method" where
  "bind_method session validator start =
     \<lparr>au_ValidateEndpoint = validator,
      au_Begin = (\<lambda>ep. case start ep of Inl err \<Rightarrow> (Some err, None) | Inr a \<Rightarrow> (None, Some a)),
      au_Authenticate = Authenticate True (Some session),
      au_Close = (\<lambda>a. fst (Authenticator_Close a))\<rparr>"

definition AnonymousMethod :: "(setup_world, 's) executor_api \<Rightarrow> failure option \<Rightarrow> bind_authenticator authentication_method" where
  "AnonymousMethod session ctxErr = bind_method session None (Anonymous_Begin True ctxErr)"

definition SimpleBindMethod ::
    "(setup_world, 's) executor_api \<Rightarrow> failure option \<Rightarrow> simple_bind \<Rightarrow> bind_authenticator authentication_method" where
  "SimpleBindMethod session ctxErr b = bind_method session (Some SimpleBind_ValidateEndpoint) (SimpleBind_Begin b True ctxErr)"

section \<open>Methods that need TLS\<close>

text \<open>An authentication method that accepts only endpoints with direct TLS, and authenticates as one identity only.\<close>

locale tls_only_method =
  fixes au :: "'a authentication_method" and validator :: "endpoint \<Rightarrow> failure option" and self :: identity
  assumes validates: "au_ValidateEndpoint au = Some validator"
    and needs_tls: "validator ep = None \<Longrightarrow> ep_Transport ep = TransportDirectTLS"
    and only_self: "au_Begin au ep = (None, Some a) \<Longrightarrow> au_Authenticate au a w = (Inr ident, a', w') \<Longrightarrow> ident = self"
begin

lemma dial_secure:
  assumes "Dialer_dial hasCtx opt netErr handshake env ctx (Some au) ep initializer = (stage, res)"
  shows "(stage = NoTransport \<and> (\<exists>err. res = Inl err)) \<or>
    (stage = Transport (TLSConn (ep_ServerName ep)) \<and> ep_ServerName ep \<noteq> [] \<and> handshake (ep_ServerName ep) = None \<and>
     (\<forall>c ident profile. res = Inr (c, ident, profile) \<longrightarrow>
        ident = self \<and> cn_identity c = ident \<and> cn_state c = stateReady \<and> cn_err c = None))"
proof (cases stage)
  case NoTransport
  then show ?thesis using assms by (auto simp: Dialer_dial_def split: sum.splits)
next
  case (Transport w)
  obtain opt' where pre: "dial_preflight hasCtx ep opt (Some au) = Inr opt'" and tr: "dial_transport netErr handshake ep = Inr w"
    using assms Transport by (auto simp: Dialer_dial_def split: sum.splits)
  have v: "Endpoint_Validate ep = None" "validator ep = None"
    using pre by (auto simp: dial_preflight_def validates split: if_splits option.splits sum.splits)
  then have tls: "ep_Transport ep = TransportDirectTLS" "ep_ServerName ep \<noteq> []"
    using needs_tls by (auto simp: Endpoint_Validate_def split: if_splits option.splits)
  have w: "w = TLSConn (ep_ServerName ep)" "handshake (ep_ServerName ep) = None"
    using tr tls(1) by (auto simp: dial_transport_def split: option.splits)
  have "ident = self \<and> cn_identity c = ident \<and> cn_state c = stateReady \<and> cn_err c = None"
    if r: "res = Inr (c, ident, profile)" for c ident profile
  proof -
    obtain c0 s where init: "Dialer_initialize env ctx (Some au) ep initializer c0 = (Inr (ident, profile), s, c)"
      using assms r pre tr by (auto simp: Dialer_dial_def split: sum.splits prod.splits)
    have "ident = self" using initialize_identity [OF init] authenticate_Inr only_self by blast
    then show ?thesis using setup_ready [OF init] by simp
  qed
  then show ?thesis using Transport w tls(2) by blast
qed

end

section \<open>Binding\<close>

lemma bindResult_Inr:
  "bindResult session ident operation stream x = (Inr i, x') \<longleftrightarrow>
     i = ident \<and> (\<exists>response x1 bindResponse err.
       ex_Next session stream x = (Inr response, x1) \<and> ResponsePattern_Decode (op_Responses operation) response DefaultLimits = Inr bindResponse
       \<and> lr_ResultCode (bs_Result bindResponse) = ResultSuccess \<and> ex_Next session stream x1 = (Inl err, x') \<and> errors_Is err IO_EOF)"
  by (auto simp: bindResult_def split: prod.splits sum.splits if_splits)

lemma Authenticate_refuses:
  assumes "ba_used a \<or> ba_closed a" "Authenticate ctx session a x = (res, a', x')"
  shows "(\<exists>err. res = Inl err) \<and> a' = a \<and> x' = x"
  using assms by (auto simp: Authenticate_def split: option.splits if_splits)

text \<open>The operation of a bind.\<close>

definition bindOperation :: "bind_request \<Rightarrow> bind_response operation" where
  "bindOperation request = \<lparr>op_Protocol = Some \<lparr>po_packet = BindRequest_BERPacket request, po_identifier = bindRequestIdentifier\<rparr>,
     op_Controls = [], op_Responses = bindResponsePattern, op_Cancellation = CancelClose, op_Label = ''ldap.bind''\<rparr>"

lemma bind_operation_made: "NewBindOperation (Some request) [] = Inr (bindOperation request)"
proof -
  have s: "spec_ok \<lparr>rs_Continue = [], rs_Complete = [bindResponseIdentifier], rs_NoResponse = False\<rparr>" by code_simp
  show ?thesis unfolding NewBindOperation_def bindResponsePattern_def bindOperation_def option.map
    by (rule newOperation_accepts [OF s]) (simp_all add: cancel_defs bind_tags tag_defs)
qed

lemma bindRequest_used [simp]: "bindRequest (a\<lparr>ba_used := u\<rparr>) = bindRequest a"
  by (simp add: bindRequest_def)

lemma Authenticate_run:
  assumes "\<not> ba_closed a" "\<not> ba_used a"
  shows "Authenticate True (Some session) a x =
     (case ex_Do session (Operation_Untyped (bindOperation (bindRequest a))) x of
        (Inl err, x1) \<Rightarrow> (Inl err, a\<lparr>ba_used := True\<rparr>, x1)
      | (Inr stream, x1) \<Rightarrow>
          let (res, x2) = bindResult session (ba_identity a) (bindOperation (bindRequest a)) stream x1 in (res, a\<lparr>ba_used := True\<rparr>, x2))"
  using assms by (simp add: Authenticate_def bind_operation_made Let_def split: prod.split sum.split)

text \<open>A session on a server that accepts every bind: it answers once and then ends the stream.\<close>

definition bind_success :: response where
  "bind_success = \<lparr>re_MessageID = 1, re_ProtocolID = bindResponseIdentifier, re_Bytes = [],
     re_Protocol = [0x61, 7, 10, 1, 0, 4, 0, 4, 0], re_Controls = [], re_Extensions = []\<rparr>"

definition accepting_session :: "(setup_world, nat) executor_api" where
  "accepting_session =
     \<lparr>ex_Do = (\<lambda>op (s, c). case session_Do True True None False None s of (res, s') \<Rightarrow> (res, s', c)),
      ex_Next = (\<lambda>i (s, c).
        if i \<in> set (is_released s) then (Inl (Sentinel IO_EOF), s, c)
        else case initStream_Next (rp_framing bindResponsePattern) i (Inr bind_success) s of (res, s') \<Rightarrow> (res, s', c)),
      ex_Close = (\<lambda>i (s, c). case initStream_Close i None s of (res, s') \<Rightarrow> (res, s', c))\<rparr>"

definition sample_simple_bind :: simple_bind where
  "sample_simple_bind = \<lparr>sb_identity = \<lparr>StableID = ''app''\<rparr>, sb_bindDN = [0x63, 0x6E], sb_credentials = [0x73, 0x33]\<rparr>"

definition sample_tls_endpoint :: endpoint where
  "sample_tls_endpoint = \<lparr>ep_ID = ''a'', ep_Address = ''b:636'', ep_ServerName = ''b'', ep_Transport = TransportDirectTLS\<rparr>"

definition sample_dial :: "dial_stage \<times> (failure + conn \<times> identity \<times> unit option)" where
  "sample_dial = Dialer_dial True DefaultConnectionOptions None (\<lambda>_. None) (\<lambda>_. id) (\<lambda>_. None)
     (Some (SimpleBindMethod accepting_session None sample_simple_bind)) sample_tls_endpoint None"

text \<open>(C40) A bind returns an identity exactly when it should: the authenticator is neither used nor closed, the session runs the bind request
  for its name and credentials, the first response decodes to success, and the stream then ends.  The identity is the one
  configured.\<close>

theorem bind_identity:
  "Authenticate ctx session a x = (Inr ident, a', x') \<longleftrightarrow>
     ctx \<and> \<not> ba_closed a \<and> \<not> ba_used a \<and> a' = a\<lparr>ba_used := True\<rparr> \<and> ident = ba_identity a \<and>
     (\<exists>ses stream x1 response x2 bindResponse err.
        session = Some ses \<and> ex_Do ses (Operation_Untyped (bindOperation (bindRequest a))) x = (Inr stream, x1)
        \<and> ex_Next ses stream x1 = (Inr response, x2)
        \<and> ResponsePattern_Decode bindResponsePattern response DefaultLimits = Inr bindResponse
        \<and> lr_ResultCode (bs_Result bindResponse) = ResultSuccess
        \<and> ex_Next ses stream x2 = (Inl err, x') \<and> errors_Is err IO_EOF)"
proof (cases "ctx \<and> \<not> ba_closed a \<and> \<not> ba_used a \<and> session \<noteq> None")
  case True
  then obtain ses where ses: "session = Some ses" by blast
  have pat: "op_Responses (bindOperation (bindRequest a)) = bindResponsePattern" by (simp add: bindOperation_def)
  show ?thesis
  proof (cases "ex_Do ses (Operation_Untyped (bindOperation (bindRequest a))) x")
    case (Pair r x1)
    have "Authenticate ctx session a x = (Inr ident, a', x') \<longleftrightarrow> a' = a\<lparr>ba_used := True\<rparr> \<and>
        (\<exists>stream. r = Inr stream \<and> bindResult ses (ba_identity a) (bindOperation (bindRequest a)) stream x1 = (Inr ident, x'))"
      using True ses Pair by (cases r) (auto simp: Authenticate_run split: prod.splits)
    then show ?thesis using True ses Pair by (simp add: bindResult_Inr pat) blast
  qed
next
  case False
  then show ?thesis by (auto simp: Authenticate_def split: option.splits)
qed

text \<open>The credentials of a simple bind do not outlive its authenticator: closing it zeroes the array they were copied to, whatever the
  bind did, and neither a used nor a closed authenticator runs an operation again.\<close>

theorem credentials_erased:
  fixes session :: "('x, 's) executor_api option" and x :: 'x
  assumes "SimpleBind_Begin b True ctxErr ep = Inr a" "Authenticate ctx session a x = (res, a', x')"
  shows "let a'' = snd (Authenticator_Close a') in
    ba_array a'' = replicate (length (sb_credentials b)) 0 \<and> ba_credentials a'' = [] \<and> ba_name a'' = [] \<and> ba_closed a''
    \<and> Authenticator_Close a'' = (None, a'')
    \<and> (\<forall>ctx' (session' :: ('x, 's) executor_api option) y. \<exists>err. Authenticate ctx' session' a'' y = (Inl err, a'', y))
    \<and> (\<forall>ctx' (session' :: ('x, 's) executor_api option) y. ba_used a' \<longrightarrow> (\<exists>err. Authenticate ctx' session' a' y = (Inl err, a', y)))"
proof -
  have a: "ba_credentials a = sb_credentials b" "\<not> ba_closed a"
    using assms(1) by (auto simp: SimpleBind_Begin_def split: option.splits)
  have "a' = a \<or> a' = a\<lparr>ba_used := True\<rparr>"
    using assms(2) by (auto simp: Authenticate_def Let_def split: option.splits if_splits sum.splits prod.splits)
  then have a': "ba_credentials a' = sb_credentials b" "\<not> ba_closed a'" using a by auto
  have refuse: "\<exists>err. Authenticate ctx' session' a0 y = (Inl err, a0, y)" if "ba_used a0 \<or> ba_closed a0" for ctx' and session' :: "('x, 's) executor_api option" and a0 y
    using Authenticate_refuses [OF that] by (metis prod_cases3)
  show ?thesis using a' refuse by (simp add: Authenticator_Close_def Let_def)
qed

theorem credentials_erased_witness:
  "case SimpleBind_Begin sample_simple_bind True None sample_tls_endpoint of
     Inl err \<Rightarrow> False
   | Inr a \<Rightarrow> ba_array a = [0x73, 0x33] \<and>
       ba_array (snd (Authenticator_Close (fst (snd (Authenticate True (Some accepting_session) a (newInitializationSession 5, fresh_conn)))))) = [0, 0]"
proof -
  define a :: bind_authenticator where "a = \<lparr>ba_identity = \<lparr>StableID = ''app''\<rparr>, ba_name = [0x63, 0x6E], ba_credentials = [0x73, 0x33],
      ba_array = [0x73, 0x33], ba_used = False, ba_closed = False\<rparr>"
  have b: "SimpleBind_Begin sample_simple_bind True None sample_tls_endpoint = Inr a" unfolding a_def by code_simp
  obtain res a' x' where r: "Authenticate True (Some accepting_session) a (newInitializationSession 5, fresh_conn) = (res, a', x')"
    by (metis prod_cases3)
  have "ba_array (snd (Authenticator_Close a')) = replicate (length (sb_credentials sample_simple_bind)) 0"
    using credentials_erased [OF b r] by (simp add: Let_def)
  then show ?thesis using b r by (simp add: a_def sample_simple_bind_def numeral_2_eq_2)
qed

lemma authenticated_identity: "Authenticate ctx session a x = (Inr ident, a', x') \<Longrightarrow> ident = ba_identity a"
  by (auto simp: Authenticate_def Let_def bindResult_Inr split: option.splits if_splits sum.splits prod.splits)

interpretation simple_bind: tls_only_method "SimpleBindMethod session ctxErr b" SimpleBind_ValidateEndpoint "sb_identity b" for session ctxErr b
proof
  show "au_ValidateEndpoint (SimpleBindMethod session ctxErr b) = Some SimpleBind_ValidateEndpoint"
    by (simp add: SimpleBindMethod_def bind_method_def)
  show "ep_Transport ep = TransportDirectTLS" if "SimpleBind_ValidateEndpoint ep = None" for ep
    using that by (auto simp: SimpleBind_ValidateEndpoint_def split: if_splits)
  show "ident = sb_identity b" if "au_Begin (SimpleBindMethod session ctxErr b) ep = (None, Some a)"
    and "au_Authenticate (SimpleBindMethod session ctxErr b) a w = (Inr ident, a', w')" for ep a w ident a' w'
    using that authenticated_identity [of True "Some session" a w ident a' w']
    by (auto simp: SimpleBindMethod_def bind_method_def SimpleBind_Begin_def split: sum.splits option.splits if_splits)
qed

text \<open>(C7) Dialing with a simple bind never sends credentials in the clear: either no transport was opened and dialing failed, or the transport is TLS
  whose handshake succeeded for the server name of the endpoint, which is not empty (what the handshake verifies is up to the TLS
  configuration of the caller).  A connection that is returned is ready and has the
  identity configured.\<close>

theorem simple_bind_secure:
  assumes "NewSimpleBind stableID bindDN credentials = Inr b"
    and "Dialer_dial hasCtx opt netErr handshake env ctx (Some (SimpleBindMethod session ctxErr b)) ep initializer = (stage, res)"
  shows "(stage = NoTransport \<and> (\<exists>err. res = Inl err)) \<or>
    (stage = Transport (TLSConn (ep_ServerName ep)) \<and> ep_ServerName ep \<noteq> [] \<and> handshake (ep_ServerName ep) = None \<and>
     (\<forall>c ident profile. res = Inr (c, ident, profile) \<longrightarrow>
        ident = \<lparr>StableID = stableID\<rparr> \<and> cn_identity c = ident \<and> cn_state c = stateReady \<and> cn_err c = None))"
proof -
  have "sb_identity b = \<lparr>StableID = stableID\<rparr>"
    using assms(1) by (auto simp: NewSimpleBind_def Let_def split: option.splits if_splits)
  then show ?thesis using simple_bind.dial_secure [OF assms(2)] by simp
qed

theorem simple_bind_secure_witness:
  "fst sample_dial = Transport (TLSConn ''b'') \<and> (\<exists>c. snd sample_dial = Inr (c, \<lparr>StableID = ''app''\<rparr>, None) \<and> cn_state c = stateReady)"
proof -
  have new: "NewSimpleBind ''app'' [0x63, 0x6E] [0x73, 0x33] = Inr sample_simple_bind" by code_simp
  have st: "fst sample_dial \<noteq> NoTransport" "map_sum id (\<lambda>(c, i, p). (i, p)) (snd sample_dial) = Inr (\<lparr>StableID = ''app''\<rparr>, None)"
    by code_simp+
  obtain c where c: "snd sample_dial = Inr (c, \<lparr>StableID = ''app''\<rparr>, None)"
    using st(2) by (cases "snd sample_dial") auto
  show ?thesis using simple_bind_secure [OF new prod.collapse [symmetric, of sample_dial, unfolded sample_dial_def]] st(1) c
    unfolding sample_dial_def [symmetric] by (simp add: sample_tls_endpoint_def)
qed

end
