(* ===== verification/Gssapi.thy ===== *)
theory Gssapi
  imports Auth
begin

text \<open>
  GSSAPI authentication (\<^verbatim>\<open>src/auth/gssapi\<close>): the SASL exchange of RFC 4752 over an initialization session.

  The GSS provider is third-party code: its operations are the fields of a record, over a state of their own, which the
  authenticator owns.  It has one name and one security context at most, so handles are whether they are there.  \<open>ctx\<close> is what the context reports, by
  the number of the check: 0 to 5 in \<^verbatim>\<open>Authenticate\<close>, from 6 on two in each round.  Erasing tokens is not modelled.
\<close>

unbundle bit_operations_syntax

section \<open>Errors\<close>

datatype gss_operation =
    OperationNewProvider | OperationImportName | OperationInitContext | OperationContinue | OperationReleaseName
  | OperationUnwrap | OperationWrap | OperationDeleteContext | OperationReleaseProvider

datatype negotiation_step = StepContext | StepSecurityLayer | StepFinalBind

datatype negotiation_failure =
    FailureNilHandle | FailureTooManyRounds | FailureInconsistentContextState | FailureUnexpectedLDAPResult
  | FailureMissingServerCredentials | FailureMissingContextProtection | FailureWrongMechanism | FailureInvalidSecurityOffer
  | FailureEncryptedSecurityOffer | FailureNoAuthenticationOnlyLayer | FailureInvalidServerBuffer
  | FailureEncryptedLayerSelection | FailureUnexpectedFinalCredentials

text \<open>The errors of the exchange; \<open>GSS_Failure\<close> has the major status, if known.\<close>

datatype gss_error =
    Cause failure
  | GSS_Failure gss_operation "32 word option" failure
  | NegotiationError negotiation_step negotiation_failure int byte
  | GSS_Join "gss_error list"

fun is_ErrNegotiation :: "gss_error \<Rightarrow> bool" where
  "is_ErrNegotiation (NegotiationError step f code layers) = True"
| "is_ErrNegotiation (GSS_Join errs) = list_ex is_ErrNegotiation errs"
| "is_ErrNegotiation _ = False"

text \<open>What the error chain of a provider holds: \<^verbatim>\<open>FatalStatus\<close> with its codes, or \<^verbatim>\<open>InfoStatus\<close>.\<close>

datatype gss_status = FatalStatus nat nat | InfoStatus nat

definition majorStatus :: "gss_status option \<Rightarrow> 32 word option" where
  "majorStatus status =
     (case status of
        Some (FatalStatus fatal info) \<Rightarrow> Some (push_bit 16 (of_nat fatal) OR of_nat info)
      | Some (InfoStatus info) \<Rightarrow> Some (of_nat info)
      | None \<Rightarrow> None)"

section \<open>Providers\<close>

record context_info =
  ci_FullyEstablished :: bool
  ci_Flags :: "32 word"
  ci_Mech :: "nat list option"

record 'g gss_provider =
  gp_new :: "failure option \<times> 'g option"
  gp_ImportName :: "string \<Rightarrow> 'g \<Rightarrow> (failure + bool) \<times> 'g"
  gp_InitSecContext :: "'g \<Rightarrow> (failure option \<times> bool) \<times> 'g"
  gp_ReleaseName :: "'g \<Rightarrow> failure option \<times> 'g"
  gp_Continue :: "bytes \<Rightarrow> 'g \<Rightarrow> (failure + bytes \<times> context_info) \<times> 'g"
  gp_ContinueNeeded :: "'g \<Rightarrow> bool"
  gp_Unwrap :: "bytes \<Rightarrow> 'g \<Rightarrow> (failure + bytes \<times> bool) \<times> 'g"
  gp_Wrap :: "bytes \<Rightarrow> 'g \<Rightarrow> (failure + bytes \<times> bool) \<times> 'g"
  gp_Delete :: "'g \<Rightarrow> failure option \<times> 'g"
  gp_Release :: "'g \<Rightarrow> failure option \<times> 'g"
  gp_status :: "failure \<Rightarrow> gss_status option"
  gp_FlagMutual :: "32 word"
  gp_FlagInteg :: "32 word"
  gp_KRB5 :: "nat list"

definition gssError :: "'g gss_provider \<Rightarrow> gss_operation \<Rightarrow> failure \<Rightarrow> gss_error" where
  "gssError p operation err = GSS_Failure operation (majorStatus (gp_status p err)) err"

section \<open>Configuration\<close>

record gss_options =
  go_authorizationID :: bytes
  go_maxRounds :: int

datatype gss_option = WithAuthorizationID bytes | WithMaxContextRounds int

fun applyOption :: "gss_option \<Rightarrow> gss_options \<Rightarrow> failure + gss_options" where
  "applyOption (WithAuthorizationID i) o' =
     (if \<not> utf8_Valid i then Inl (Text ''arden/auth/gssapi: authorization identity is not valid UTF-8'' [])
      else if 0 \<in> set i then Inl (Text ''arden/auth/gssapi: authorization identity contains U+0000'' [])
      else Inr (o'\<lparr>go_authorizationID := i\<rparr>))"
| "applyOption (WithMaxContextRounds rounds) o' =
     (if rounds \<le> 0 then Inl (Text ''arden/auth/gssapi: maximum context rounds must be positive'' [])
      else Inr (o'\<lparr>go_maxRounds := rounds\<rparr>))"

fun applyOptions :: "gss_option option list \<Rightarrow> gss_options \<Rightarrow> failure + gss_options" where
  "applyOptions [] o' = Inr o'"
| "applyOptions (None # opts) o' = Inl (Text ''arden/auth/gssapi: nil option'' [])"
| "applyOptions (Some opt # opts) o' = (case applyOption opt o' of Inl err \<Rightarrow> Inl err | Inr o'' \<Rightarrow> applyOptions opts o'')"

definition defaultMaxContextRounds :: int where
  "defaultMaxContextRounds = 8"

definition ldapServiceName :: string where
  "ldapServiceName = ''ldap''"

record 'g gss_authentication =
  gu_identity :: identity
  gu_provider :: "'g gss_provider"
  gu_authorizationID :: bytes
  gu_maxRounds :: int

definition NewWithProviderFactory ::
    "string \<Rightarrow> 'g gss_provider option \<Rightarrow> gss_option option list \<Rightarrow> failure + 'g gss_authentication" where
  "NewWithProviderFactory stableID factory opts =
     (let ident = \<lparr>StableID = stableID\<rparr> in
      case Identity_Validate ident of
        Some err \<Rightarrow> Inl err
      | None \<Rightarrow>
          (case factory of
             None \<Rightarrow> Inl (Text ''arden/auth/gssapi: nil provider factory'' [])
           | Some p \<Rightarrow>
               (case applyOptions opts \<lparr>go_authorizationID = [], go_maxRounds = defaultMaxContextRounds\<rparr> of
                  Inl err \<Rightarrow> Inl err
                | Inr c \<Rightarrow> Inr \<lparr>gu_identity = ident, gu_provider = p, gu_authorizationID = go_authorizationID c, gu_maxRounds = go_maxRounds c\<rparr>)))"

definition GSS_ValidateEndpoint :: "endpoint \<Rightarrow> failure option" where
  "GSS_ValidateEndpoint ep =
     (if ep_Transport ep \<noteq> TransportDirectTLS
      then Some (Text ''arden/auth/gssapi: GSSAPI authentication-only mode requires direct TLS'' [])
      else if ep_ServerName ep = [] then Some (Text ''arden/auth/gssapi: endpoint TLS server name is empty'' [])
      else None)"

section \<open>The exchange\<close>

text \<open>\<open>ga_state\<close> is the state of the provider; the other handles are whether the authenticator holds them.\<close>

record 'g gss_authenticator =
  ga_identity :: identity
  ga_state :: 'g
  ga_provider :: bool
  ga_target :: string
  ga_authorizationID :: bytes
  ga_maxRounds :: int
  ga_targetName :: bool
  ga_context :: bool
  ga_used :: bool
  ga_closed :: bool

definition releaseErrors :: "'g gss_provider \<Rightarrow> gss_error \<Rightarrow> failure option \<Rightarrow> gss_error" where
  "releaseErrors p err releaseErr =
     GSS_Join (err # (case releaseErr of None \<Rightarrow> [] | Some e \<Rightarrow> [gssError p OperationReleaseProvider e]))"

text \<open>\<^verbatim>\<open>Begin\<close>, with the two checks of the context.  With an error it also returns the state of a provider it released.\<close>

definition GSS_Begin ::
    "'g gss_authentication \<Rightarrow> bool \<Rightarrow> (nat \<Rightarrow> failure option) \<Rightarrow> endpoint \<Rightarrow> (gss_error \<times> 'g option) + 'g gss_authenticator" where
  "GSS_Begin u ctx ctxErr ep =
     (let p = gu_provider u in
      if \<not> ctx then Inl (Cause (Text ''arden/auth/gssapi: nil authentication context'' []), None)
      else case ctxErr 0 of
          Some err \<Rightarrow> Inl (Cause err, None)
        | None \<Rightarrow>
            (case GSS_ValidateEndpoint ep of
               Some err \<Rightarrow> Inl (Cause err, None)
             | None \<Rightarrow>
                 (case gp_new p of
                    (Some err, Some g) \<Rightarrow>
                      (case gp_Release p g of (releaseErr, g') \<Rightarrow> Inl (releaseErrors p (gssError p OperationNewProvider err) releaseErr, Some g'))
                  | (Some err, None) \<Rightarrow> Inl (gssError p OperationNewProvider err, None)
                  | (None, None) \<Rightarrow> Inl (NegotiationError StepContext FailureNilHandle 0 0, None)
                  | (None, Some g) \<Rightarrow>
                      (case ctxErr 1 of
                         Some err \<Rightarrow> (case gp_Release p g of (releaseErr, g') \<Rightarrow> Inl (releaseErrors p (Cause err) releaseErr, Some g'))
                       | None \<Rightarrow>
                           Inr \<lparr>ga_identity = gu_identity u, ga_state = g, ga_provider = True, ga_target = ldapServiceName @ ''@'' @ ep_ServerName ep,
                                ga_authorizationID = gu_authorizationID u, ga_maxRounds = gu_maxRounds u, ga_targetName = False,
                                ga_context = False, ga_used = False, ga_closed = False\<rparr>))))"

record gss_bind =
  gb_code :: int
  gb_credentials :: bytes
  gb_hasCredentials :: bool

text \<open>\<^verbatim>\<open>"GSSAPI"\<close> in ASCII.\<close>

definition gssMechanism :: bytes where
  "gssMechanism = [0x47, 0x53, 0x53, 0x41, 0x50, 0x49]"

definition saslRequest :: "bytes \<Rightarrow> bind_request" where
  "saslRequest token =
     \<lparr>br_Version = 3, br_Name = [],
      br_Authentication = SASLAuthentication \<lparr>sa_Mechanism = gssMechanism, sa_Credentials = token, sa_HasCredentials = True, sa_Extensions = []\<rparr>,
      br_Extensions = []\<rparr>"

definition exchangeBind :: "('x, 's) executor_api \<Rightarrow> bytes \<Rightarrow> 'x \<Rightarrow> (failure + gss_bind) \<times> 'x" where
  "exchangeBind session token x =
     (case NewBindOperation (Some (saslRequest token)) [] of
        Inl err \<Rightarrow> (Inl (Ber err), x)
      | Inr operation \<Rightarrow>
          (case ex_Do session (Operation_Untyped operation) x of
             (Inl err, x1) \<Rightarrow> (Inl err, x1)
           | (Inr stream, x1) \<Rightarrow>
               (case ex_Next session stream x1 of
                  (Inl err, x2) \<Rightarrow> (Inl err, x2)
                | (Inr response, x2) \<Rightarrow>
                    (case ResponsePattern_Decode (op_Responses operation) response DefaultLimits of
                       Inl err \<Rightarrow> (Inl (Ber err), x2)
                     | Inr decoded \<Rightarrow>
                         (case ex_Next session stream x2 of
                            (Inr _, x3) \<Rightarrow> (Inl (Text ''arden/auth/gssapi: Bind returned more than one response'' []), x3)
                          | (Inl err, x3) \<Rightarrow>
                              if errors_Is err IO_EOF
                              then (Inr \<lparr>gb_code = lr_ResultCode (bs_Result decoded), gb_credentials = bs_ServerSASLCredentials decoded,
                                         gb_hasCredentials = bs_HasServerSASLCredentials decoded\<rparr>, x3)
                              else (Inl err, x3))))))"

text \<open>What a round of \<^verbatim>\<open>establishContext\<close> makes of the answer of the server: the error, or the credentials.\<close>

definition roundResult :: "gss_bind \<Rightarrow> gss_error + bytes" where
  "roundResult r =
     (if gb_code r \<noteq> ResultSASLBindInProgress
      then Inl (if gb_code r \<noteq> ResultSuccess then Cause (BindError (gb_code r))
                else NegotiationError StepContext FailureUnexpectedLDAPResult (gb_code r) 0)
      else if \<not> gb_hasCredentials r then Inl (NegotiationError StepContext FailureMissingServerCredentials 0 0)
      else Inr (gb_credentials r))"

text \<open>The loop over the rounds, with those that are left and the number of the next check of the context.\<close>

fun establishLoop ::
    "'g gss_provider \<Rightarrow> ('x, 's) executor_api \<Rightarrow> (nat \<Rightarrow> failure option) \<Rightarrow> nat \<Rightarrow> nat \<Rightarrow> bytes \<Rightarrow> 'g \<Rightarrow> 'x
     \<Rightarrow> (gss_error + bytes \<times> context_info) \<times> 'g \<times> 'x" where
  "establishLoop p session ctx 0 k input g x = (Inl (NegotiationError StepContext FailureTooManyRounds 0 0), g, x)"
| "establishLoop p session ctx (Suc n) k input g x =
     (case ctx k of
        Some err \<Rightarrow> (Inl (Cause err), g, x)
      | None \<Rightarrow>
          (case gp_Continue p input g of
             (Inl err, g1) \<Rightarrow> (Inl (gssError p OperationContinue err), g1, x)
           | (Inr (output, info), g1) \<Rightarrow>
               (case ctx (k + 1) of
                  Some err \<Rightarrow> (Inl (Cause err), g1, x)
                | None \<Rightarrow>
                    let continueNeeded = gp_ContinueNeeded p g1 in
                    if ci_FullyEstablished info = continueNeeded
                    then (Inl (NegotiationError StepContext FailureInconsistentContextState 0 0), g1, x)
                    else case exchangeBind session output x of
                        (Inl err, x1) \<Rightarrow> (Inl (Cause err), g1, x1)
                      | (Inr r, x1) \<Rightarrow>
                          (case roundResult r of
                             Inl err \<Rightarrow> (Inl err, g1, x1)
                           | Inr credentials \<Rightarrow>
                               if \<not> continueNeeded then (Inr (credentials, info), g1, x1)
                               else establishLoop p session ctx n (k + 2) credentials g1 x1))))"

definition validateEstablishedContext :: "'g gss_provider \<Rightarrow> context_info \<Rightarrow> gss_error option" where
  "validateEstablishedContext p info =
     (let required = gp_FlagMutual p OR gp_FlagInteg p in
      if \<not> ci_FullyEstablished info \<or> ci_Flags info AND required \<noteq> required
      then Some (NegotiationError StepContext FailureMissingContextProtection 0 0)
      else if ci_Mech info \<noteq> Some (gp_KRB5 p)
      then Some (NegotiationError StepContext FailureWrongMechanism 0 0)
      else None)"

text \<open>The offer of the server: a bit mask of layers and the size of its buffer.\<close>

definition layerNone :: byte where "layerNone = 1"

definition serverMaxBuffer :: "bytes \<Rightarrow> 32 word" where
  "serverMaxBuffer offer = push_bit 16 (ucast (offer ! 1)) OR push_bit 8 (ucast (offer ! 2)) OR ucast (offer ! 3)"

definition checkOffer :: "bytes \<Rightarrow> bool \<Rightarrow> gss_error option" where
  "checkOffer offer confidential =
     (if confidential then Some (NegotiationError StepSecurityLayer FailureEncryptedSecurityOffer 0 0)
      else if length offer \<noteq> 4 then Some (NegotiationError StepSecurityLayer FailureInvalidSecurityOffer 0 0)
      else if offer ! 0 AND layerNone = 0 then Some (NegotiationError StepSecurityLayer FailureNoAuthenticationOnlyLayer 0 (offer ! 0))
      else if offer ! 0 = layerNone \<and> serverMaxBuffer offer \<noteq> 0
      then Some (NegotiationError StepSecurityLayer FailureInvalidServerBuffer 0 (offer ! 0))
      else None)"

definition layerSelection :: "bytes \<Rightarrow> bytes" where
  "layerSelection authorizationID = [layerNone, 0, 0, 0] @ authorizationID"

text \<open>The last bind, and what comes before it once the context is established.\<close>

definition finalBind :: "('x, 's) executor_api \<Rightarrow> bytes \<Rightarrow> 'x \<Rightarrow> gss_error option \<times> 'x" where
  "finalBind session wrapped x =
     (case exchangeBind session wrapped x of
        (Inl err, x1) \<Rightarrow> (Some (Cause err), x1)
      | (Inr r, x1) \<Rightarrow>
          (if gb_code r \<noteq> ResultSuccess
           then Some (if gb_code r \<noteq> ResultSASLBindInProgress then Cause (BindError (gb_code r))
                      else NegotiationError StepFinalBind FailureUnexpectedLDAPResult (gb_code r) 0)
           else if gb_hasCredentials r \<and> gb_credentials r \<noteq> []
           then Some (NegotiationError StepFinalBind FailureUnexpectedFinalCredentials 0 0)
           else None, x1))"

definition selectLayer ::
    "'g gss_provider \<Rightarrow> ('x, 's) executor_api \<Rightarrow> (nat \<Rightarrow> failure option) \<Rightarrow> bytes \<Rightarrow> bytes \<Rightarrow> 'g \<Rightarrow> 'x \<Rightarrow> gss_error option \<times> 'g \<times> 'x" where
  "selectLayer p session ctx authorizationID serverToken g x =
     (case gp_Unwrap p serverToken g of
        (Inl err, g1) \<Rightarrow> (Some (gssError p OperationUnwrap err), g1, x)
      | (Inr (offer, confidential), g1) \<Rightarrow>
          (case ctx 4 of
             Some err \<Rightarrow> (Some (Cause err), g1, x)
           | None \<Rightarrow>
               (case checkOffer offer confidential of
                  Some err \<Rightarrow> (Some err, g1, x)
                | None \<Rightarrow>
                    (case gp_Wrap p (layerSelection authorizationID) g1 of
                       (Inl err, g2) \<Rightarrow> (Some (gssError p OperationWrap err), g2, x)
                     | (Inr (wrapped, encrypted), g2) \<Rightarrow>
                         (case ctx 5 of
                            Some err \<Rightarrow> (Some (Cause err), g2, x)
                          | None \<Rightarrow>
                              if encrypted then (Some (NegotiationError StepSecurityLayer FailureEncryptedLayerSelection 0 0), g2, x)
                              else case finalBind session wrapped x of (res, x1) \<Rightarrow> (res, g2, x1))))))"

definition negotiate ::
    "'g gss_provider \<Rightarrow> ('x, 's) executor_api \<Rightarrow> (nat \<Rightarrow> failure option) \<Rightarrow> int \<Rightarrow> bytes \<Rightarrow> 'g \<Rightarrow> 'x \<Rightarrow> gss_error option \<times> 'g \<times> 'x" where
  "negotiate p session ctx maxRounds authorizationID g x =
     (case establishLoop p session ctx (nat maxRounds) 6 [] g x of
        (Inl err, g1, x1) \<Rightarrow> (Some err, g1, x1)
      | (Inr (serverToken, info), g1, x1) \<Rightarrow>
          (case validateEstablishedContext p info of
             Some err \<Rightarrow> (Some err, g1, x1)
           | None \<Rightarrow>
               (case ctx 3 of
                  Some err \<Rightarrow> (Some (Cause err), g1, x1)
                | None \<Rightarrow> selectLayer p session ctx authorizationID serverToken g1 x1)))"

text \<open>\<^verbatim>\<open>Authenticate\<close> from the import of the name to the release of the name: the security context.\<close>

definition openContext ::
    "'g gss_provider \<Rightarrow> (nat \<Rightarrow> failure option) \<Rightarrow> 'g gss_authenticator \<Rightarrow> gss_error option \<times> 'g gss_authenticator" where
  "openContext p ctx a0 =
     (case gp_ImportName p (ga_target a0) (ga_state a0) of
        (Inl err, g) \<Rightarrow> (Some (gssError p OperationImportName err), a0\<lparr>ga_state := g\<rparr>)
      | (Inr False, g) \<Rightarrow> (Some (NegotiationError StepContext FailureNilHandle 0 0), a0\<lparr>ga_state := g\<rparr>)
      | (Inr True, g) \<Rightarrow>
          let a1 = a0\<lparr>ga_state := g, ga_targetName := True\<rparr> in
          case ctx 1 of
            Some err \<Rightarrow> (Some (Cause err), a1)
          | None \<Rightarrow>
              (case gp_InitSecContext p (ga_state a1) of
                 ((err, handle), g2) \<Rightarrow>
                   let a2 = a1\<lparr>ga_state := g2, ga_context := ga_context a1 \<or> handle\<rparr> in
                   case err of
                     Some e \<Rightarrow> (Some (gssError p OperationInitContext e), a2)
                   | None \<Rightarrow>
                       if \<not> handle then (Some (NegotiationError StepContext FailureNilHandle 0 0), a2)
                       else
                         let a3 = a2\<lparr>ga_targetName := False\<rparr> in
                         (case gp_ReleaseName p (ga_state a3) of
                            (Some e, g3) \<Rightarrow> (Some (gssError p OperationReleaseName e), a3\<lparr>ga_state := g3\<rparr>)
                          | (None, g3) \<Rightarrow> (map_option Cause (ctx 2), a3\<lparr>ga_state := g3\<rparr>))))"

definition GSS_Authenticate ::
    "'g gss_provider \<Rightarrow> bool \<Rightarrow> (nat \<Rightarrow> failure option) \<Rightarrow> ('x, 's) executor_api option \<Rightarrow> 'g gss_authenticator \<Rightarrow> 'x
     \<Rightarrow> (gss_error + identity) \<times> 'g gss_authenticator \<times> 'x" where
  "GSS_Authenticate p hasCtx ctx session a x =
     (if \<not> hasCtx then (Inl (Cause (Text ''arden/auth/gssapi: nil authentication context'' [])), a, x)
      else case session of
          None \<Rightarrow> (Inl (Cause (Text ''arden/auth/gssapi: nil initialization session'' [])), a, x)
        | Some ses \<Rightarrow>
            if ga_closed a then (Inl (Cause (Text ''arden/auth/gssapi: authenticator is closed'' [])), a, x)
            else if ga_used a then (Inl (Cause (Text ''arden/auth/gssapi: authenticator was already used'' [])), a, x)
            else
              let a1 = a\<lparr>ga_used := True\<rparr> in
              case ctx 0 of
                Some err \<Rightarrow> (Inl (Cause err), a1, x)
              | None \<Rightarrow>
                  (case openContext p ctx a1 of
                     (Some err, a2) \<Rightarrow> (Inl err, a2, x)
                   | (None, a2) \<Rightarrow>
                       (case negotiate p ses ctx (ga_maxRounds a2) (ga_authorizationID a2) (ga_state a2) x of
                          (Some err, g, x1) \<Rightarrow> (Inl err, a2\<lparr>ga_state := g\<rparr>, x1)
                        | (None, g, x1) \<Rightarrow> (Inr (ga_identity a2), a2\<lparr>ga_state := g\<rparr>, x1))))"

text \<open>\<^verbatim>\<open>Close\<close> releases what is held, in this order, and collects the errors.\<close>

definition releaseHandle ::
    "bool \<Rightarrow> ('g \<Rightarrow> failure option \<times> 'g) \<Rightarrow> (failure \<Rightarrow> gss_error) \<Rightarrow> gss_error list \<times> 'g \<Rightarrow> gss_error list \<times> 'g" where
  "releaseHandle held release wrap s =
     (case s of (errs, g) \<Rightarrow>
        if held then (case release g of (None, g') \<Rightarrow> (errs, g') | (Some e, g') \<Rightarrow> (errs @ [wrap e], g')) else (errs, g))"

definition GSS_Close :: "'g gss_provider \<Rightarrow> 'g gss_authenticator \<Rightarrow> gss_error list \<times> 'g gss_authenticator" where
  "GSS_Close p a =
     (if ga_closed a then ([], a)
      else
        let s1 = releaseHandle (ga_context a) (gp_Delete p) (gssError p OperationDeleteContext) ([], ga_state a);
            s2 = releaseHandle (ga_targetName a) (gp_ReleaseName p) (gssError p OperationReleaseName) s1;
            (errs, g) = releaseHandle (ga_provider a) (gp_Release p) (gssError p OperationReleaseProvider) s2
        in (errs, a\<lparr>ga_state := g, ga_closed := True, ga_context := False, ga_targetName := False, ga_provider := False,
                    ga_authorizationID := [], ga_target := []\<rparr>))"

section \<open>The exchange of RFC 4752\<close>

text \<open>A number of rounds that establish the context: in each the provider turns the token of the server into one for the server, which answers that
  the bind is in progress; the last is the one after which the provider needs no more.\<close>

inductive sasl_rounds ::
    "'g gss_provider \<Rightarrow> ('x, 's) executor_api \<Rightarrow> nat \<Rightarrow> bytes \<Rightarrow> 'g \<Rightarrow> 'x \<Rightarrow> bytes \<times> context_info \<Rightarrow> 'g \<Rightarrow> 'x \<Rightarrow> bool" for p session where
  last_round: "gp_Continue p input g = (Inr (token, info), g1) \<Longrightarrow> \<not> gp_ContinueNeeded p g1 \<Longrightarrow> ci_FullyEstablished info \<Longrightarrow>
     exchangeBind session token x = (Inr r, x1) \<Longrightarrow> gb_code r = ResultSASLBindInProgress \<Longrightarrow> gb_hasCredentials r \<Longrightarrow>
     sasl_rounds p session 1 input g x (gb_credentials r, info) g1 x1"
| more_rounds: "gp_Continue p input g = (Inr (token, info'), g1) \<Longrightarrow> gp_ContinueNeeded p g1 \<Longrightarrow> \<not> ci_FullyEstablished info' \<Longrightarrow>
     exchangeBind session token x = (Inr r, x1) \<Longrightarrow> gb_code r = ResultSASLBindInProgress \<Longrightarrow> gb_hasCredentials r \<Longrightarrow>
     sasl_rounds p session n (gb_credentials r) g1 x1 res g2 x2 \<Longrightarrow> sasl_rounds p session (Suc n) input g x res g2 x2"

inductive_cases sasl_rounds_Suc: "sasl_rounds p session (Suc n) input g x res g' x'"

lemma sasl_rounds_pos: "sasl_rounds p session n input g x res g' x' \<Longrightarrow> 0 < n"
  by (induction rule: sasl_rounds.induct) simp_all

lemma roundResult_Inr: "roundResult r = Inr cr \<longleftrightarrow> gb_code r = ResultSASLBindInProgress \<and> gb_hasCredentials r \<and> cr = gb_credentials r"
  by (auto simp: roundResult_def)

lemma less_two_Suc: "(\<forall>j < 2 * Suc n. P (k + j)) \<longleftrightarrow> P k \<and> P (k + 1) \<and> (\<forall>j < 2 * n. P (k + 2 + j))" for P :: "nat \<Rightarrow> bool"
proof
  assume h: "\<forall>j < 2 * Suc n. P (k + j)"
  have "P (k + 2 + j)" if "j < 2 * n" for j using h [rule_format, of "2 + j"] that by (simp add: add.assoc)
  then show "P k \<and> P (k + 1) \<and> (\<forall>j < 2 * n. P (k + 2 + j))" using h [rule_format, of 0] h [rule_format, of 1] by simp
next
  assume h: "P k \<and> P (k + 1) \<and> (\<forall>j < 2 * n. P (k + 2 + j))"
  show "\<forall>j < 2 * Suc n. P (k + j)"
  proof (intro allI impI)
    fix j assume "j < 2 * Suc n"
    then consider "j = 0" | "j = 1" | i where "j = 2 + i" "i < 2 * n" by (metis One_nat_def add_2_eq_Suc add_less_cancel_left mult_Suc_right not0_implies_Suc plus_1_eq_Suc)
    then show "P (k + j)" by cases (use h in \<open>auto simp: add.assoc\<close>)
  qed
qed

lemma establishLoop_sound:
  assumes "establishLoop p session ctx N k input g x = (Inr res, g', x')"
  shows "\<exists>n \<le> N. sasl_rounds p session n input g x res g' x' \<and> (\<forall>j < 2 * n. ctx (k + j) = None)"
  using assms
proof (induction N arbitrary: k input g x)
  case (Suc N)
  obtain token info g1 where c: "gp_Continue p input g = (Inr (token, info), g1)" "ctx k = None" "ctx (k + 1) = None"
    "ci_FullyEstablished info \<noteq> gp_ContinueNeeded p g1"
    using Suc.prems by (auto simp: Let_def split: option.splits prod.splits sum.splits if_splits)
  then obtain r x1 where e: "exchangeBind session token x = (Inr r, x1)" "gb_code r = ResultSASLBindInProgress" "gb_hasCredentials r"
    using Suc.prems by (auto simp: Let_def roundResult_Inr split: prod.splits sum.splits)
  have rr: "roundResult r = Inr (gb_credentials r)" using e by (simp add: roundResult_Inr)
  show ?case
  proof (cases "gp_ContinueNeeded p g1")
    case False
    then have "res = (gb_credentials r, info)" "g' = g1" "x' = x1" using Suc.prems c e rr by simp_all
    then have "sasl_rounds p session 1 input g x res g' x'" using last_round [OF c(1) False _ e] c(4) False by simp
    moreover have "\<forall>j < 2 * 1. ctx (k + j) = None" using less_two_Suc [of 0 "\<lambda>j. ctx j = None" k] c by simp
    ultimately show ?thesis by (intro exI [of _ 1]) simp
  next
    case True
    then have "establishLoop p session ctx N (k + 2) (gb_credentials r) g1 x1 = (Inr res, g', x')" using Suc.prems c e rr by simp
    then obtain n where n: "n \<le> N" "sasl_rounds p session n (gb_credentials r) g1 x1 res g' x'" "\<forall>j < 2 * n. ctx (k + 2 + j) = None"
      using Suc.IH by blast
    have "sasl_rounds p session (Suc n) input g x res g' x'" using more_rounds [OF c(1) True _ e n(2)] c(4) True by simp
    then show ?thesis using n less_two_Suc [of n "\<lambda>j. ctx j = None" k] c by (intro exI [of _ "Suc n"]) simp
  qed
qed simp

lemma establishLoop_complete:
  assumes "sasl_rounds p session n input g x res g' x'" "n \<le> N" "\<forall>j < 2 * n. ctx (k + j) = None"
  shows "establishLoop p session ctx N k input g x = (Inr res, g', x')"
  using assms
proof (induction arbitrary: N k rule: sasl_rounds.induct)
  case (last_round input g token info g1 x r x1)
  obtain M where N: "N = Suc M" using last_round by (cases N) auto
  have "ctx k = None" "ctx (k + 1) = None" using last_round(8) less_two_Suc [of 0 "\<lambda>j. ctx j = None" k] by simp_all
  moreover have "roundResult r = Inr (gb_credentials r)" using last_round by (simp add: roundResult_Inr)
  ultimately show ?case using last_round N by simp
next
  case (more_rounds input g token info' g1 x r x1 n res g2 x2)
  obtain M where N: "N = Suc M" "n \<le> M" using more_rounds by (cases N) auto
  have c: "ctx k = None" "ctx (k + 1) = None" "\<forall>j < 2 * n. ctx (k + 2 + j) = None"
    using more_rounds(10) less_two_Suc [of n "\<lambda>j. ctx j = None" k] by simp_all
  moreover have "roundResult r = Inr (gb_credentials r)" using more_rounds by (simp add: roundResult_Inr)
  ultimately show ?case using more_rounds N by simp
qed

text \<open>A context that protects the exchange: established by Kerberos, with mutual authentication and integrity.\<close>

definition protected_context :: "'g gss_provider \<Rightarrow> context_info \<Rightarrow> bool" where
  "protected_context p info \<longleftrightarrow> ci_FullyEstablished info \<and> ci_Flags info AND gp_FlagMutual p = gp_FlagMutual p
     \<and> ci_Flags info AND gp_FlagInteg p = gp_FlagInteg p \<and> ci_Mech info = Some (gp_KRB5 p)"

lemma and_or_absorb: "f AND (a OR b) = a OR b \<longleftrightarrow> f AND a = a \<and> f AND b = b" for f a b :: "32 word"
  by (auto simp: bit_eq_iff bit_and_iff bit_or_iff)

lemma validateEstablishedContext_None: "validateEstablishedContext p info = None \<longleftrightarrow> protected_context p info"
  by (auto simp: validateEstablishedContext_def protected_context_def and_or_absorb)

text \<open>An offer that includes operation without a security layer.\<close>

definition offer_ok :: "bytes \<Rightarrow> bool" where
  "offer_ok offer \<longleftrightarrow> length offer = 4 \<and> bit (offer ! 0) 0 \<and> (offer ! 0 = 1 \<longrightarrow> offer = [1, 0, 0, 0])"

lemma serverMaxBuffer_0: "length offer = 4 \<Longrightarrow> offer ! 0 = 1 \<Longrightarrow> serverMaxBuffer offer = 0 \<longleftrightarrow> offer = [1, 0, 0, 0]"
proof -
  have z: "push_bit 16 (ucast b) OR push_bit 8 (ucast c) OR ucast d = (0 :: 32 word) \<longleftrightarrow> b = 0 \<and> c = 0 \<and> d = 0" for b c d :: byte
    proof -
    have s: "push_bit k (ucast e) = (0 :: 32 word) \<longleftrightarrow> e = 0" if "k \<le> 24" for k and e :: byte
    proof
      assume h: "push_bit k (ucast e) = (0 :: 32 word)"
      have "\<not> bit e i" if "i < 8" for i
        using h [unfolded bit_eq_iff, rule_format, of "k + i"] that \<open>k \<le> 24\<close> by (simp add: bit_simps)
      then show "e = 0" by (intro bit_word_eqI) simp
    qed simp
    show ?thesis using s [of 16 b] s [of 8 c] s [of 0 d] by (simp add: or_eq_0_iff)
  qed
  assume "length offer = 4" "offer ! 0 = 1"
  then show ?thesis 
    by (cases offer; cases "tl offer"; cases "tl (tl offer)"; cases "tl (tl (tl offer))") (auto simp: serverMaxBuffer_def z [simplified])
qed

lemma checkOffer_None: "checkOffer offer confidential = None \<longleftrightarrow> \<not> confidential \<and> offer_ok offer"
  using serverMaxBuffer_0 [of offer] by (auto simp: checkOffer_def offer_ok_def layerNone_def and_one_eq odd_iff_mod_2_eq_one bit_0)

definition layer_agreed ::
    "'g gss_provider \<Rightarrow> ('x, 's) executor_api \<Rightarrow> bytes \<Rightarrow> bytes \<Rightarrow> 'g \<Rightarrow> 'x \<Rightarrow> 'g \<Rightarrow> 'x \<Rightarrow> bool" where
  "layer_agreed p session authorizationID serverToken g x g' x' \<longleftrightarrow>
     (\<exists>offer g1 wrapped r. gp_Unwrap p serverToken g = (Inr (offer, False), g1) \<and> offer_ok offer
        \<and> gp_Wrap p ([1, 0, 0, 0] @ authorizationID) g1 = (Inr (wrapped, False), g')
        \<and> exchangeBind session wrapped x = (Inr r, x') \<and> gb_code r = ResultSuccess \<and> (gb_hasCredentials r \<longrightarrow> gb_credentials r = []))"

lemma finalBind_None:
  "finalBind session wrapped x = (None, x') \<longleftrightarrow>
     (\<exists>r. exchangeBind session wrapped x = (Inr r, x') \<and> gb_code r = ResultSuccess \<and> (gb_hasCredentials r \<longrightarrow> gb_credentials r = []))"
  by (auto simp: finalBind_def split: prod.splits sum.splits)

lemma selectLayer_None:
  "selectLayer p session ctx authorizationID serverToken g x = (None, g', x') \<longleftrightarrow>
     ctx 4 = None \<and> ctx 5 = None \<and> layer_agreed p session authorizationID serverToken g x g' x'"
  proof
  assume "selectLayer p session ctx authorizationID serverToken g x = (None, g', x')"
  then show "ctx 4 = None \<and> ctx 5 = None \<and> layer_agreed p session authorizationID serverToken g x g' x'"
    by (auto simp: selectLayer_def layer_agreed_def checkOffer_None finalBind_None layerSelection_def layerNone_def
        split: prod.splits sum.splits option.splits if_splits)
next
  assume h: "ctx 4 = None \<and> ctx 5 = None \<and> layer_agreed p session authorizationID serverToken g x g' x'"
  then obtain offer g1 wrapped where l: "gp_Unwrap p serverToken g = (Inr (offer, False), g1)" "checkOffer offer False = None"
      "gp_Wrap p (layerSelection authorizationID) g1 = (Inr (wrapped, False), g')" "finalBind session wrapped x = (None, x')"
    by (auto simp: layer_agreed_def checkOffer_None finalBind_None layerSelection_def layerNone_def)
  show "selectLayer p session ctx authorizationID serverToken g x = (None, g', x')" using h l by (simp add: selectLayer_def)
qed

lemma negotiate_None:
  "negotiate p session ctx maxRounds authorizationID g x = (None, g', x') \<longleftrightarrow>
     (\<exists>n \<le> nat maxRounds. \<exists>serverToken info g1 x1. sasl_rounds p session n [] g x (serverToken, info) g1 x1 \<and> protected_context p info
        \<and> layer_agreed p session authorizationID serverToken g1 x1 g' x' \<and> (\<forall>j < 2 * n. ctx (6 + j) = None) \<and> (\<forall>j \<in> {3, 4, 5}. ctx j = None))"
  proof
  assume h: "negotiate p session ctx maxRounds authorizationID g x = (None, g', x')"
  obtain tok info g1 x1 where e: "establishLoop p session ctx (nat maxRounds) 6 [] g x = (Inr (tok, info), g1, x1)"
    using h by (auto simp: negotiate_def split: prod.splits sum.splits)
  then have v: "protected_context p info" "ctx 3 = None" "selectLayer p session ctx authorizationID tok g1 x1 = (None, g', x')"
    using h by (auto simp: negotiate_def simp flip: validateEstablishedContext_None split: option.splits)
  show "\<exists>n \<le> nat maxRounds. \<exists>serverToken info g1 x1. sasl_rounds p session n [] g x (serverToken, info) g1 x1 \<and> protected_context p info
        \<and> layer_agreed p session authorizationID serverToken g1 x1 g' x' \<and> (\<forall>j < 2 * n. ctx (6 + j) = None) \<and> (\<forall>j \<in> {3, 4, 5}. ctx j = None)"
    using establishLoop_sound [OF e] v by (simp add: selectLayer_None) blast
next
  assume "\<exists>n \<le> nat maxRounds. \<exists>serverToken info g1 x1. sasl_rounds p session n [] g x (serverToken, info) g1 x1 \<and> protected_context p info
        \<and> layer_agreed p session authorizationID serverToken g1 x1 g' x' \<and> (\<forall>j < 2 * n. ctx (6 + j) = None) \<and> (\<forall>j \<in> {3, 4, 5}. ctx j = None)"
  then obtain n tok info g1 x1 where n: "n \<le> nat maxRounds" "sasl_rounds p session n [] g x (tok, info) g1 x1"
      "\<forall>j < 2 * n. ctx (6 + j) = None" and v: "validateEstablishedContext p info = None" "ctx 3 = None"
      "selectLayer p session ctx authorizationID tok g1 x1 = (None, g', x')"
    by (auto simp: validateEstablishedContext_None selectLayer_None)
  show "negotiate p session ctx maxRounds authorizationID g x = (None, g', x')"
    using establishLoop_complete [OF n(2,1,3)] v by (simp add: negotiate_def)
qed

definition context_opened :: "'g gss_provider \<Rightarrow> string \<Rightarrow> 'g \<Rightarrow> 'g \<Rightarrow> bool" where
  "context_opened p target g g' \<longleftrightarrow>
     (\<exists>g1 g2. gp_ImportName p target g = (Inr True, g1) \<and> gp_InitSecContext p g1 = ((None, True), g2) \<and> gp_ReleaseName p g2 = (None, g'))"

lemma openContext_None:
  "openContext p ctx a = (None, a') \<longleftrightarrow>
     ctx 1 = None \<and> ctx 2 = None \<and> (\<exists>g. context_opened p (ga_target a) (ga_state a) g
       \<and> a' = a\<lparr>ga_state := g, ga_targetName := False, ga_context := True\<rparr>)"
  by (auto simp: openContext_def context_opened_def Let_def split: prod.splits sum.splits option.splits if_splits bool.splits)

section \<open>Handles\<close>

text \<open>A provider that counts the handles it gave out and got back.\<close>

record handles =
  h_providers :: int
  h_names :: int
  h_contexts :: int

definition no_handles :: handles where
  "no_handles = \<lparr>h_providers = 0, h_names = 0, h_contexts = 0\<rparr>"

definition tracked :: "'g gss_provider \<Rightarrow> ('g \<times> handles) gss_provider" where
  "tracked p =
     \<lparr>gp_new = (case gp_new p of (e, st) \<Rightarrow> (e, map_option (\<lambda>g. (g, no_handles\<lparr>h_providers := 1\<rparr>)) st)),
      gp_ImportName = (\<lambda>name (g, h). case gp_ImportName p name g of (res, g') \<Rightarrow> (res, g', if res = Inr True then h\<lparr>h_names := h_names h + 1\<rparr> else h)),
      gp_InitSecContext = (\<lambda>(g, h). case gp_InitSecContext p g of ((e, got), g') \<Rightarrow> ((e, got), g', if got then h\<lparr>h_contexts := h_contexts h + 1\<rparr> else h)),
      gp_ReleaseName = (\<lambda>(g, h). case gp_ReleaseName p g of (e, g') \<Rightarrow> (e, g', h\<lparr>h_names := h_names h - 1\<rparr>)),
      gp_Continue = (\<lambda>token (g, h). case gp_Continue p token g of (res, g') \<Rightarrow> (res, g', h)),
      gp_ContinueNeeded = (\<lambda>(g, h). gp_ContinueNeeded p g),
      gp_Unwrap = (\<lambda>token (g, h). case gp_Unwrap p token g of (res, g') \<Rightarrow> (res, g', h)),
      gp_Wrap = (\<lambda>token (g, h). case gp_Wrap p token g of (res, g') \<Rightarrow> (res, g', h)),
      gp_Delete = (\<lambda>(g, h). case gp_Delete p g of (e, g') \<Rightarrow> (e, g', h\<lparr>h_contexts := h_contexts h - 1\<rparr>)),
      gp_Release = (\<lambda>(g, h). case gp_Release p g of (e, g') \<Rightarrow> (e, g', h\<lparr>h_providers := h_providers h - 1\<rparr>)),
      gp_status = gp_status p, gp_FlagMutual = gp_FlagMutual p, gp_FlagInteg = gp_FlagInteg p, gp_KRB5 = gp_KRB5 p\<rparr>"

text \<open>The handles an authenticator holds.\<close>

definition held :: "'g gss_authenticator \<Rightarrow> handles" where
  "held a = \<lparr>h_providers = of_bool (ga_provider a), h_names = of_bool (ga_targetName a), h_contexts = of_bool (ga_context a)\<rparr>"

definition handles_inv :: "('g \<times> handles) gss_authenticator \<Rightarrow> bool" where
  "handles_inv a \<longleftrightarrow> snd (ga_state a) = held a \<and> (ga_closed a \<longrightarrow> held a = no_handles)
     \<and> (\<not> ga_used a \<longrightarrow> \<not> ga_targetName a \<and> \<not> ga_context a)"

lemma tracked_establishLoop:
  "establishLoop (tracked p) session ctx n k input g x = (res, g', x') \<Longrightarrow> snd g' = snd g"
proof (induction n arbitrary: k input g x)
  case (Suc n)
  obtain c g1 where c: "gp_Continue (tracked p) input g = (c, g1)" by (metis surj_pair)
  have s: "snd g1 = snd g" using c by (auto simp: tracked_def split: prod.splits)
  show ?case
  proof (cases c)
    case (Inl err)
    then show ?thesis using Suc.prems c s by (auto split: option.splits)
  next
    case (Inr p')
    obtain token info where p': "p' = (token, info)" by (metis surj_pair)
    obtain e x1 where e: "exchangeBind session token x = (e, x1)" by (metis surj_pair)
    note IH = Suc.IH [of "k + 2" _ g1 x1]
    show ?thesis using Suc.prems c s Inr p' e IH
      by (auto simp: Let_def split: option.splits sum.splits if_split_asm)
  qed
qed simp

lemma tracked_selectLayer:
  "selectLayer (tracked p) session ctx authorizationID token g x = (res, g', x') \<Longrightarrow> snd g' = snd g"
  by (cases g) (auto simp: selectLayer_def tracked_def split: prod.splits sum.splits option.splits if_split_asm)

lemma tracked_negotiate:
  "negotiate (tracked p) session ctx maxRounds authorizationID g x = (res, g', x') \<Longrightarrow> snd g' = snd g"
  by (auto simp: negotiate_def split: prod.splits sum.splits option.splits dest!: tracked_establishLoop tracked_selectLayer)

lemma openContext_handles:
  assumes "openContext (tracked p) ctx a = (res, a')" "snd (ga_state a) = held a" "\<not> ga_targetName a" "\<not> ga_context a"
  shows "snd (ga_state a') = held a' \<and> ga_used a' = ga_used a \<and> ga_closed a' = ga_closed a \<and> ga_provider a' = ga_provider a"
proof -
  obtain g h where g: "ga_state a = (g, h)" by (metis surj_pair)
  obtain i g1 where i: "gp_ImportName p (ga_target a) g = (i, g1)" by (metis surj_pair)
  obtain e got g2 where s: "gp_InitSecContext p g1 = ((e, got), g2)" by (metis surj_pair)
  obtain f g3 where f: "gp_ReleaseName p g2 = (f, g3)" by (metis surj_pair)
  have h: "h = \<lparr>h_providers = of_bool (ga_provider a), h_names = 0, h_contexts = 0\<rparr>" using assms(2-4) g by (simp add: held_def)
  have T: "gp_ImportName (tracked p) (ga_target a) (ga_state a) = (i, g1, if i = Inr True then h\<lparr>h_names := 1\<rparr> else h)"
    "gp_InitSecContext (tracked p) (g1, h1) = ((e, got), g2, if got then h1\<lparr>h_contexts := h_contexts h1 + 1\<rparr> else h1)"
    "gp_ReleaseName (tracked p) (g2, h2) = (f, g3, h2\<lparr>h_names := h_names h2 - 1\<rparr>)" for h1 h2
    using g i s f h by (simp_all add: tracked_def)
  show ?thesis
    using assms(1,3,4) by (cases i) (auto simp: openContext_def T Let_def held_def h split: option.splits bool.splits if_split_asm)
qed

lemma Authenticate_handles:
  assumes "GSS_Authenticate (tracked p) hasCtx ctx session a x = (res, a', x')" "handles_inv a"
  shows "handles_inv a'"
proof (cases "hasCtx \<and> session \<noteq> None \<and> \<not> ga_closed a \<and> \<not> ga_used a \<and> ctx 0 = None")
  case True
  then obtain ses where ses: "session = Some ses" by blast
  let ?a1 = "a\<lparr>ga_used := True\<rparr>"
  obtain r a2 where o: "openContext (tracked p) ctx ?a1 = (r, a2)" by (metis surj_pair)
  obtain n g x1 where n: "negotiate (tracked p) ses ctx (ga_maxRounds a2) (ga_authorizationID a2) (ga_state a2) x = (n, g, x1)" by (metis prod_cases3)
  have "snd (ga_state ?a1) = held ?a1" "\<not> ga_targetName ?a1" "\<not> ga_context ?a1" using assms(2) True by (auto simp: handles_inv_def held_def)
  note h = openContext_handles [OF o this]
  have "a' = a2 \<or> a' = a2\<lparr>ga_state := g\<rparr>" using assms(1) True ses o n by (auto simp: GSS_Authenticate_def split: option.splits)
  then show ?thesis using h True tracked_negotiate [OF n] by (auto simp: handles_inv_def held_def)
next
  case False
  then have "a' = a \<or> a' = a\<lparr>ga_used := True\<rparr>" using assms(1) by (auto simp: GSS_Authenticate_def Let_def split: option.splits if_split_asm)
  then show ?thesis using assms(2) by (auto simp: handles_inv_def held_def)
qed

lemma Close_handles:
  assumes "handles_inv a"
  shows "handles_inv (snd (GSS_Close (tracked p) a)) \<and> ga_closed (snd (GSS_Close (tracked p) a))"
proof (cases "ga_closed a")
  case False
  have r: "snd (snd (releaseHandle b (gp_Delete (tracked p)) w s)) = (snd (snd s))\<lparr>h_contexts := h_contexts (snd (snd s)) - of_bool b\<rparr>"
    "snd (snd (releaseHandle b (gp_ReleaseName (tracked p)) w s)) = (snd (snd s))\<lparr>h_names := h_names (snd (snd s)) - of_bool b\<rparr>"
    "snd (snd (releaseHandle b (gp_Release (tracked p)) w s)) = (snd (snd s))\<lparr>h_providers := h_providers (snd (snd s)) - of_bool b\<rparr>" for b w s
    by (auto simp: releaseHandle_def tracked_def split: prod.splits option.splits)
  have "snd (ga_state (snd (GSS_Close (tracked p) a))) = no_handles"
    using assms False by (simp add: GSS_Close_def Let_def case_prod_beta r handles_inv_def held_def no_handles_def)
  then show ?thesis using False by (simp add: GSS_Close_def Let_def case_prod_beta handles_inv_def held_def no_handles_def)
qed (use assms in \<open>simp add: GSS_Close_def\<close>)

text \<open>The life of an authenticator.\<close>

inductive gss_step ::
    "'g gss_provider \<Rightarrow> ('x, 's) executor_api option \<Rightarrow> 'g gss_authenticator \<times> 'x \<Rightarrow> 'g gss_authenticator \<times> 'x \<Rightarrow> bool" for p session where
  step_Authenticate: "GSS_Authenticate p hasCtx ctx session a x = (res, a', x') \<Longrightarrow> gss_step p session (a, x) (a', x')"
| step_Close: "GSS_Close p a = (errs, a') \<Longrightarrow> gss_step p session (a, x) (a', x)"

definition gss_init :: "'g gss_authentication \<Rightarrow> 'g gss_authenticator \<times> 'x \<Rightarrow> bool" where
  "gss_init u s \<longleftrightarrow> (\<exists>hasCtx ctx ep. GSS_Begin u hasCtx ctx ep = Inr (fst s))"

definition tracks :: "'g gss_provider \<Rightarrow> ('g \<times> handles) gss_authentication \<Rightarrow> ('g \<times> handles) gss_authenticator \<times> 'x \<Rightarrow> bool" where
  "tracks p u s \<longleftrightarrow> gss_init u s \<and> gu_provider u = tracked p"

lemma GSS_Begin_Inr:
  "GSS_Begin u hasCtx ctx ep = Inr a \<Longrightarrow> gp_new (gu_provider u) = (None, Some (ga_state a)) \<and> ga_provider a \<and> \<not> ga_targetName a \<and> \<not> ga_context a
     \<and> \<not> ga_used a \<and> \<not> ga_closed a \<and> ga_identity a = gu_identity u"
  by (auto simp: GSS_Begin_def Let_def split: if_split_asm option.splits prod.splits)

interpretation gss_handles: invariant_system "tracks p u" "gss_step (tracked p) session" "\<lambda>s. handles_inv (fst s)" for u p session
proof
  fix s assume "tracks p u s"
  then obtain hasCtx ctx ep where B: "GSS_Begin u hasCtx ctx ep = Inr (fst s)" and u: "gu_provider u = tracked p"
    by (auto simp: tracks_def gss_init_def)
  note b = GSS_Begin_Inr [OF B, unfolded u]
  have "\<exists>z. (z, \<lparr>h_providers = 1, h_names = 0, h_contexts = 0\<rparr>) = ga_state (fst s)"
    using b by (auto simp: tracked_def no_handles_def split: prod.splits)
  then have "snd (ga_state (fst s)) = \<lparr>h_providers = 1, h_names = 0, h_contexts = 0\<rparr>" by (metis snd_conv)
  then show "handles_inv (fst s)" using b by (simp add: handles_inv_def held_def)
next
  fix s s' assume "gss_step (tracked p) session s s'" "handles_inv (fst s)"
  then show "handles_inv (fst s')"
  proof cases
    case (step_Authenticate hasCtx ctx a x res a' x')
    then show ?thesis using Authenticate_handles \<open>handles_inv (fst s)\<close> by (metis fst_conv)
  next
    case (step_Close a errs a' x)
    then show ?thesis using Close_handles [of a p] \<open>handles_inv (fst s)\<close> by simp
  qed
qed

section \<open>Properties\<close>

definition quiet :: "(nat \<Rightarrow> failure option) \<Rightarrow> nat \<Rightarrow> bool" where
  "quiet ctx n \<longleftrightarrow> (\<forall>j < n. ctx j = None)"

lemma quiet_6: "quiet ctx (6 + m) \<longleftrightarrow> (\<forall>j \<in> {0, 1, 2, 3, 4, 5}. ctx j = None) \<and> (\<forall>j < m. ctx (6 + j) = None)"
proof
  assume h: "quiet ctx (6 + m)"
  then have "ctx (6 + j) = None" if "j < m" for j using that by (simp add: quiet_def)
  then show "(\<forall>j \<in> {0, 1, 2, 3, 4, 5}. ctx j = None) \<and> (\<forall>j < m. ctx (6 + j) = None)" using h by (auto simp: quiet_def)
next
  assume h: "(\<forall>j \<in> {0, 1, 2, 3, 4, 5}. ctx j = None) \<and> (\<forall>j < m. ctx (6 + j) = None)"
  have "ctx j = None" if "j < 6 + m" for j
  proof (cases "j < 6")
    case True
    then have "j = 0 \<or> j = 1 \<or> j = 2 \<or> j = 3 \<or> j = 4 \<or> j = 5" by linarith
    then show ?thesis using h by auto
  next
    case False
    then show ?thesis using h [THEN conjunct2, rule_format, of "j - 6"] that by simp
  qed
  then show "quiet ctx (6 + m)" by (simp add: quiet_def)
qed

text \<open>(C8) GSSAPI authentication returns an identity exactly when the exchange of RFC 4752 succeeded: the security context was opened for the target, it was
  established in at most the configured number of rounds with mutual authentication and integrity by Kerberos, the server
  offered to go on without a security layer in an offer that was not encrypted, and it accepted the selection of this layer with the
  authorization identity.  The context of the caller reported no error meanwhile, and the identity is the one configured.\<close>

theorem gss_identity:
  "GSS_Authenticate p hasCtx ctx session a x = (Inr ident, a', x') \<longleftrightarrow>
     hasCtx \<and> \<not> ga_closed a \<and> \<not> ga_used a \<and> ident = ga_identity a \<and>
     (\<exists>ses n g0 serverToken info g1 x1 g'.
        session = Some ses \<and> n \<le> nat (ga_maxRounds a) \<and> quiet ctx (6 + 2 * n)
        \<and> context_opened p (ga_target a) (ga_state a) g0
        \<and> sasl_rounds p ses n [] g0 x (serverToken, info) g1 x1 \<and> protected_context p info
        \<and> layer_agreed p ses (ga_authorizationID a) serverToken g1 x1 g' x'
        \<and> a' = a\<lparr>ga_state := g', ga_targetName := False, ga_context := True, ga_used := True\<rparr>)"
proof (cases "hasCtx \<and> \<not> ga_closed a \<and> \<not> ga_used a \<and> session \<noteq> None")
  case True
  then obtain ses where ses: "session = Some ses" by blast
  have "GSS_Authenticate p hasCtx ctx session a x = (Inr ident, a', x') \<longleftrightarrow>
      ctx 0 = None \<and> (\<exists>a2 g. openContext p ctx (a\<lparr>ga_used := True\<rparr>) = (None, a2)
        \<and> negotiate p ses ctx (ga_maxRounds a2) (ga_authorizationID a2) (ga_state a2) x = (None, g, x')
        \<and> ident = ga_identity a2 \<and> a' = a2\<lparr>ga_state := g\<rparr>)"
    using True ses by (auto simp: GSS_Authenticate_def Let_def split: option.splits prod.splits)
  also have "\<dots> \<longleftrightarrow> ident = ga_identity a \<and> ctx 0 = None \<and> ctx 1 = None \<and> ctx 2 = None \<and> (\<exists>g0 g'. context_opened p (ga_target a) (ga_state a) g0
        \<and> negotiate p ses ctx (ga_maxRounds a) (ga_authorizationID a) g0 x = (None, g', x')
        \<and> a' = a\<lparr>ga_state := g', ga_targetName := False, ga_context := True, ga_used := True\<rparr>)"
    by (auto simp: openContext_None)
  also have "\<dots> \<longleftrightarrow> ident = ga_identity a \<and> (\<exists>n g0 serverToken info g1 x1 g'. n \<le> nat (ga_maxRounds a) \<and> quiet ctx (6 + 2 * n)
        \<and> context_opened p (ga_target a) (ga_state a) g0
        \<and> sasl_rounds p ses n [] g0 x (serverToken, info) g1 x1 \<and> protected_context p info
        \<and> layer_agreed p ses (ga_authorizationID a) serverToken g1 x1 g' x'
        \<and> a' = a\<lparr>ga_state := g', ga_targetName := False, ga_context := True, ga_used := True\<rparr>)"
    unfolding negotiate_None quiet_6 by simp blast
  finally show ?thesis using True ses by simp
next
  case False
  then show ?thesis by (auto simp: GSS_Authenticate_def split: option.splits if_split_asm)
qed

text \<open>A provider and a server that agree after one round.\<close>

definition sample_gss :: "unit gss_provider" where
  "sample_gss =
     \<lparr>gp_new = (None, Some ()), gp_ImportName = (\<lambda>name g. (Inr True, g)), gp_InitSecContext = (\<lambda>g. ((None, True), g)),
      gp_ReleaseName = (\<lambda>g. (None, g)),
      gp_Continue = (\<lambda>token g. (Inr ([7], \<lparr>ci_FullyEstablished = True, ci_Flags = 0x22, ci_Mech = Some [1, 2]\<rparr>), g)),
      gp_ContinueNeeded = (\<lambda>g. False), gp_Unwrap = (\<lambda>token g. (Inr ([1, 0, 0, 0], False), g)), gp_Wrap = (\<lambda>token g. (Inr (token, False), g)),
      gp_Delete = (\<lambda>g. (None, g)), gp_Release = (\<lambda>g. (None, g)), gp_status = (\<lambda>err. None),
      gp_FlagMutual = 2, gp_FlagInteg = 0x20, gp_KRB5 = [1, 2]\<rparr>"

definition bind_answers :: "(response list \<times> response list, unit) executor_api" where
  "bind_answers =
     \<lparr>ex_Do = (\<lambda>op (cur, rest). (Inr (), take 1 rest, drop 1 rest)),
      ex_Next = (\<lambda>_ (cur, rest). case cur of [] \<Rightarrow> (Inl (Sentinel IO_EOF), cur, rest) | r # rs \<Rightarrow> (Inr r, rs, rest)),
      ex_Close = (\<lambda>_ x. (None, x))\<rparr>"

definition bind_in_progress :: response where
  "bind_in_progress = \<lparr>re_MessageID = 1, re_ProtocolID = bindResponseIdentifier, re_Bytes = [],
     re_Protocol = [0x61, 10, 10, 1, 14, 4, 0, 4, 0, 0x87, 1, 9], re_Controls = [], re_Extensions = []\<rparr>"

definition sample_gss_auth :: "(unit \<times> handles) gss_authentication" where
  "sample_gss_auth = \<lparr>gu_identity = \<lparr>StableID = ''app''\<rparr>, gu_provider = tracked sample_gss, gu_authorizationID = [], gu_maxRounds = 8\<rparr>"

definition sample_gss_begun :: "(unit \<times> handles) gss_authenticator" where
  "sample_gss_begun = projr (GSS_Begin sample_gss_auth True (\<lambda>_. None) sample_tls_endpoint)"

definition sample_gss_run ::
    "(gss_error + identity) \<times> (unit \<times> handles) gss_authenticator \<times> response list \<times> response list" where
  "sample_gss_run = GSS_Authenticate (tracked sample_gss) True (\<lambda>_. None) (Some bind_answers) sample_gss_begun ([], [bind_in_progress, bind_success])"

lemma sample_gss_succeeds: "fst sample_gss_run = Inr \<lparr>StableID = ''app''\<rparr>"
  by code_simp

theorem gss_identity_witness:
  "\<exists>n g0 serverToken info g1 x1. n \<le> 8 \<and> sasl_rounds (tracked sample_gss) bind_answers n [] g0 ([], [bind_in_progress, bind_success]) (serverToken, info) g1 x1
     \<and> protected_context (tracked sample_gss) info"
proof -
  obtain a' x' where "sample_gss_run = (Inr \<lparr>StableID = ''app''\<rparr>, a', x')" using sample_gss_succeeds by (metis prod_cases3 fst_conv)
  moreover have "nat (ga_maxRounds sample_gss_begun) = 8" by code_simp
  ultimately show ?thesis using gss_identity [of "tracked sample_gss" True "\<lambda>_. None" "Some bind_answers" sample_gss_begun
      "([], [bind_in_progress, bind_success])" "\<lparr>StableID = ''app''\<rparr>" a' x'] unfolding sample_gss_run_def by (simp, blast)
qed

text \<open>However an authenticator is used, it has exactly the handles of the provider it did not give back: provider, name and security
  context are each released once, and after \<^verbatim>\<open>Close\<close>, called any number of times, none is left.\<close>

theorem gss_handles_released:
  assumes "reach (tracks p u) (gss_step (tracked p) session) (a, x)"
  shows "snd (ga_state a) = held a \<and> (ga_closed a \<longrightarrow> snd (ga_state a) = no_handles)
    \<and> snd (ga_state (snd (GSS_Close (tracked p) a))) = no_handles
    \<and> GSS_Close (tracked p) (snd (GSS_Close (tracked p) a)) = ([], snd (GSS_Close (tracked p) a))"
proof -
  have "handles_inv a" using gss_handles.reach_inv [OF assms] by simp
  then show ?thesis using Close_handles [of a p] by (auto simp: handles_inv_def GSS_Close_def)
qed

theorem gss_handles_released_witness:
  "snd (ga_state (fst (snd sample_gss_run))) = \<lparr>h_providers = 1, h_names = 0, h_contexts = 1\<rparr>
    \<and> snd (ga_state (snd (GSS_Close (tracked sample_gss) (fst (snd sample_gss_run))))) = no_handles"
proof -
  obtain a' x' where r: "sample_gss_run = (Inr \<lparr>StableID = ''app''\<rparr>, a', x')" using sample_gss_succeeds by (metis prod_cases3 fst_conv)
  have "reach (tracks sample_gss sample_gss_auth) (gss_step (tracked sample_gss) (Some bind_answers)) (sample_gss_begun, [], [bind_in_progress, bind_success])"
  proof (rule reach_init)
    have "GSS_Begin sample_gss_auth True (\<lambda>_. None) sample_tls_endpoint = Inr sample_gss_begun" by code_simp
    then show "tracks sample_gss sample_gss_auth (sample_gss_begun, [], [bind_in_progress, bind_success])"
      unfolding tracks_def gss_init_def fst_conv by (metis sample_gss_auth_def gss_authentication.select_convs(2))
  qed
  then have "reach (tracks sample_gss sample_gss_auth) (gss_step (tracked sample_gss) (Some bind_answers)) (a', x')"
    by (rule reach_step) (rule step_Authenticate [OF r [unfolded sample_gss_run_def]])
  note g = gss_handles_released [OF this]
  have "ga_provider a' \<and> \<not> ga_targetName a' \<and> ga_context a'"
  proof -
    have "(\<lambda>a. ga_provider a \<and> \<not> ga_targetName a \<and> ga_context a) (fst (snd sample_gss_run))" by code_simp
    then show ?thesis unfolding r by simp
  qed
  then show ?thesis using g unfolding r by (simp add: held_def)
qed

section \<open>The method\<close>

text \<open>An error as the dialer sees it: what it says, without the arguments, and what it wraps.\<close>

fun gss_failure :: "gss_error \<Rightarrow> failure" where
  "gss_failure (Cause err) = err"
| "gss_failure (GSS_Failure operation major err) = Wrapped ''arden/auth/gssapi: GSS %s failed'' [] err"
| "gss_failure (NegotiationError step f code layers) = Text ''arden/auth/gssapi: %s: %s'' []"
| "gss_failure (GSS_Join errs) = Join (map gss_failure errs)"

definition GSSMethod ::
    "(setup_world, 's) executor_api \<Rightarrow> (nat \<Rightarrow> failure option) \<Rightarrow> 'g gss_authentication \<Rightarrow> 'g gss_authenticator authentication_method" where
  "GSSMethod session ctx u =
     \<lparr>au_ValidateEndpoint = Some GSS_ValidateEndpoint,
      au_Begin = (\<lambda>ep. case GSS_Begin u True ctx ep of Inl (err, _) \<Rightarrow> (Some (gss_failure err), None) | Inr a \<Rightarrow> (None, Some a)),
      au_Authenticate = (\<lambda>a w. case GSS_Authenticate (gu_provider u) True ctx (Some session) a w of
         (Inl err, a', w') \<Rightarrow> (Inl (gss_failure err), a', w') | (Inr ident, a', w') \<Rightarrow> (Inr ident, a', w')),
      au_Close = (\<lambda>a. case fst (GSS_Close (gu_provider u) a) of [] \<Rightarrow> None | errs \<Rightarrow> Some (Join (map gss_failure errs)))\<rparr>"

lemma GSS_Authenticate_identity:
  assumes "GSS_Authenticate p hasCtx ctx session a x = (Inr ident, a', x')"
  shows "ident = ga_identity a"
proof -
  obtain r a2 where o: "openContext p ctx (a\<lparr>ga_used := True\<rparr>) = (r, a2)" by (metis surj_pair)
  have "r = None \<and> ident = ga_identity a2" using assms o
    by (cases r) (auto simp: GSS_Authenticate_def Let_def split: if_split_asm option.splits prod.splits)
  then show ?thesis using o by (auto simp: openContext_None)
qed

interpretation gss_method: tls_only_method "GSSMethod session ctx u" GSS_ValidateEndpoint "gu_identity u" for session ctx u
proof
  show "au_ValidateEndpoint (GSSMethod session ctx u) = Some GSS_ValidateEndpoint" by (simp add: GSSMethod_def)
  show "ep_Transport ep = TransportDirectTLS" if "GSS_ValidateEndpoint ep = None" for ep
    using that by (auto simp: GSS_ValidateEndpoint_def split: if_splits)
  show "ident = gu_identity u" if "au_Begin (GSSMethod session ctx u) ep = (None, Some a)"
    and "au_Authenticate (GSSMethod session ctx u) a w = (Inr ident, a', w')" for ep a w ident a' w'
  proof -
    have "GSS_Begin u True ctx ep = Inr a"
      using that(1) by (cases "GSS_Begin u True ctx ep") (simp_all add: GSSMethod_def case_prod_beta)
    moreover obtain res a2 w2 where r: "GSS_Authenticate (gu_provider u) True ctx (Some session) a w = (res, a2, w2)" by (metis prod_cases3)
    moreover have "res = Inr ident" using that(2) r by (cases res) (simp_all add: GSSMethod_def)
    ultimately show ?thesis using GSS_Begin_Inr GSS_Authenticate_identity by metis
  qed
qed

text \<open>As with simple binds, GSSAPI runs over TLS only, and a connection has the identity configured.\<close>

lemmas gss_dial_secure = gss_method.dial_secure

end
