(* ===== verification/Model_Codecs.thy ===== *)
theory Model_Codecs
  imports Entry Ldap_Filter Conn_Errors
begin

text \<open>
  Typed attributes (\<^verbatim>\<open>attribute.go\<close>, \<^verbatim>\<open>codecs.go\<close>, \<^verbatim>\<open>uint32.go\<close>, \<^verbatim>\<open>decode.go\<close> of \<^verbatim>\<open>src/ldapmodel\<close>): codecs for the values of an attribute, and reading and
  writing the typed values of an entry.  Values of Go integer types are integers, with their range where the code checks it.
  \<open>GeneralizedTimeCodec\<close> is not modelled.
\<close>

section \<open>Codecs\<close>

text \<open>\<^verbatim>\<open>Codec\<close>: either function may be nil.\<close>

record 't value_codec =
  vc_EncodeFunc :: "('t \<Rightarrow> failure + bytes) option"
  vc_DecodeFunc :: "(bytes \<Rightarrow> failure + 't) option"

definition Codec_Encode :: "'t value_codec \<Rightarrow> 't \<Rightarrow> failure + bytes" where
  "Codec_Encode c v = (case vc_EncodeFunc c of None \<Rightarrow> Inl (Text ''ldapmodel: codec has no encoder'' []) | Some f \<Rightarrow> f v)"

definition Codec_Decode :: "'t value_codec \<Rightarrow> bytes \<Rightarrow> failure + 't" where
  "Codec_Decode c raw = (case vc_DecodeFunc c of None \<Rightarrow> Inl (Text ''ldapmodel: codec has no decoder'' []) | Some f \<Rightarrow> f raw)"

definition StringCodec :: "bytes value_codec" where
  "StringCodec = \<lparr>vc_EncodeFunc = Some Inr, vc_DecodeFunc = Some Inr\<rparr>"

definition BytesCodec :: "bytes value_codec" where
  "BytesCodec = \<lparr>vc_EncodeFunc = Some Inr, vc_DecodeFunc = Some Inr\<rparr>"

definition textCodec :: "(bytes \<Rightarrow> bool) \<Rightarrow> bytes value_codec" where
  "textCodec valid =
     \<lparr>vc_EncodeFunc = Some (\<lambda>s. if \<not> valid s then Inl (Text ''invalid LDAP string syntax'' []) else Inr s),
      vc_DecodeFunc = Some (\<lambda>raw. if \<not> valid raw then Inl (Text ''invalid LDAP string syntax'' []) else Inr raw)\<rparr>"

definition DirectoryStringCodec :: "bytes value_codec" where
  "DirectoryStringCodec = textCodec (\<lambda>s. s \<noteq> [] \<and> utf8_Valid s)"

text \<open>A loop over the runes of a string meets a rune above 127 at every byte that is not ASCII.\<close>

definition IA5StringCodec :: "bytes value_codec" where
  "IA5StringCodec = textCodec (list_all (\<lambda>c. c \<le> 127))"

definition is_digit :: "byte \<Rightarrow> bool" where
  "is_digit c \<longleftrightarrow> 0x30 \<le> c \<and> c \<le> 0x39"

definition NumericStringCodec :: "bytes value_codec" where
  "NumericStringCodec = textCodec (\<lambda>s. list_all (\<lambda>c. c = 0x20 \<or> is_digit c) s \<and> s \<noteq> [])"

definition DNCodec :: "bytes value_codec" where
  "DNCodec =
     \<lparr>vc_EncodeFunc = Some (\<lambda>v. if \<not> utf8_Valid v then Inl (Text ''DN is not UTF-8'' []) else Inr v),
      vc_DecodeFunc = Some (\<lambda>raw. if \<not> utf8_Valid raw then Inl (Text ''DN is not UTF-8'' []) else Inr raw)\<rparr>"

text \<open>\<^verbatim>\<open>TRUE\<close> and \<^verbatim>\<open>FALSE\<close> in ASCII.\<close>

definition TRUE_literal :: bytes where "TRUE_literal = [0x54, 0x52, 0x55, 0x45]"
definition FALSE_literal :: bytes where "FALSE_literal = [0x46, 0x41, 0x4C, 0x53, 0x45]"

definition BoolCodec :: "bool value_codec" where
  "BoolCodec =
     \<lparr>vc_EncodeFunc = Some (\<lambda>v. Inr (if v then TRUE_literal else FALSE_literal)),
      vc_DecodeFunc = Some (\<lambda>raw. if raw = TRUE_literal then Inr True else if raw = FALSE_literal then Inr False
        else Inl (Text ''invalid LDAP boolean'' []))\<rparr>"

subsection \<open>Decimal numbers\<close>

text \<open>\<^verbatim>\<open>strconv.AppendUint\<close>, \<^verbatim>\<open>AppendInt\<close>, \<^verbatim>\<open>ParseUint\<close> and \<^verbatim>\<open>ParseInt\<close> in base 10.\<close>

fun AppendUint :: "nat \<Rightarrow> bytes" where
  "AppendUint n = (if n < 10 then [of_nat (48 + n)] else AppendUint (n div 10) @ [of_nat (48 + n mod 10)])"

definition AppendInt :: "int \<Rightarrow> bytes" where
  "AppendInt v = (if v < 0 then 0x2D # AppendUint (nat (- v)) else AppendUint (nat v))"

definition digits_value :: "bytes \<Rightarrow> nat" where
  "digits_value s = foldl (\<lambda>n c. 10 * n + (unat c - 48)) 0 s"

definition ParseUint :: "nat \<Rightarrow> bytes \<Rightarrow> failure + int" where
  "ParseUint bits s =
     (if s = [] \<or> \<not> list_all is_digit s \<or> 2 ^ bits \<le> digits_value s
      then Inl (Text ''strconv.ParseUint: parsing %q'' [AStr s]) else Inr (int (digits_value s)))"

definition ParseInt :: "nat \<Rightarrow> bytes \<Rightarrow> failure + int" where
  "ParseInt bits s =
     (let neg = (s \<noteq> [] \<and> hd s = 0x2D); digits = (if s \<noteq> [] \<and> (hd s = 0x2D \<or> hd s = 0x2B) then tl s else s); n = digits_value digits in
      if digits = [] \<or> \<not> list_all is_digit digits \<or> (if neg then 2 ^ (bits - 1) < n else 2 ^ (bits - 1) \<le> n)
      then Inl (Text ''strconv.ParseInt: parsing %q'' [AStr s]) else Inr (if neg then - int n else int n))"

text \<open>The regular expression \<^verbatim>\<open>^(0|-?[1-9][0-9]*)$\<close>.\<close>

definition integerSyntax :: "bytes \<Rightarrow> bool" where
  "integerSyntax raw \<longleftrightarrow> raw = [0x30] \<or>
     (case (if raw \<noteq> [] \<and> hd raw = 0x2D then tl raw else raw) of [] \<Rightarrow> False | c # cs \<Rightarrow> is_digit c \<and> c \<noteq> 0x30 \<and> list_all is_digit cs)"

definition Int64Codec :: "int value_codec" where
  "Int64Codec =
     \<lparr>vc_EncodeFunc = Some (\<lambda>v. Inr (AppendInt v)),
      vc_DecodeFunc = Some (\<lambda>raw. if \<not> integerSyntax raw then Inl (Text ''invalid LDAP integer'' [])
        else case ParseInt 64 raw of Inl err \<Rightarrow> Inl (Text ''LDAP integer outside int64 range'' []) | Inr v \<Rightarrow> Inr v)\<rparr>"

definition Uint64Codec :: "int value_codec" where
  "Uint64Codec =
     \<lparr>vc_EncodeFunc = Some (\<lambda>v. Inr (AppendUint (nat v))),
      vc_DecodeFunc = Some (\<lambda>raw. if \<not> integerSyntax raw then Inl (Text ''invalid LDAP integer'' [])
        else case ParseUint 64 raw of Inl err \<Rightarrow> Inl (Text ''LDAP integer outside uint64 range'' []) | Inr v \<Rightarrow> Inr v)\<rparr>"

definition Uint32Codec :: "int value_codec" where
  "Uint32Codec =
     \<lparr>vc_EncodeFunc = Some (\<lambda>v. Inr (AppendUint (nat v))),
      vc_DecodeFunc = Some (\<lambda>raw. case ParseUint 32 raw of
        Inl err \<Rightarrow> Inl (Wrapped ''decode unsigned 32-bit integer: %w'' [] err) | Inr v \<Rightarrow> Inr v)\<rparr>"

section \<open>Typed attributes\<close>

record 't model_attribute =
  ma_name :: bytes
  ma_key :: bytes
  ma_Codec :: "'t value_codec option"

definition NewAttribute :: "(bytes \<Rightarrow> bytes) \<Rightarrow> bytes \<Rightarrow> 't value_codec option \<Rightarrow> 't model_attribute" where
  "NewAttribute uni name c = \<lparr>ma_name = name, ma_key = Key uni name, ma_Codec = c\<rparr>"

definition no_codec :: "'t model_attribute \<Rightarrow> failure" where
  "no_codec a = Text ''ldapmodel: attribute %q has no codec'' [AStr (ma_name a)]"

definition decodeAt :: "'t model_attribute \<Rightarrow> bytes \<Rightarrow> nat \<Rightarrow> failure + 't" where
  "decodeAt a raw i =
     (case ma_Codec a of
        None \<Rightarrow> Inl (no_codec a)
      | Some c \<Rightarrow>
          (case Codec_Decode c raw of
             Inl err \<Rightarrow> Inl (Wrapped ''ldapmodel: decode %s value %d: %w'' [AStr (ma_name a), AInt (int i)] err)
           | Inr v \<Rightarrow> Inr v))"

definition Attribute_Decode :: "'t model_attribute \<Rightarrow> bytes \<Rightarrow> failure + 't" where
  "Attribute_Decode a raw = decodeAt a raw 0"

text \<open>The values of an entry under the key of the attribute.\<close>

definition raw_values :: "'t model_attribute \<Rightarrow> entry \<Rightarrow> bytes list" where
  "raw_values a e = at_Values (fst (Attributes_LookupKey (ma_key a) (en_Attributes e)))"

fun decodeAll :: "'t model_attribute \<Rightarrow> nat \<Rightarrow> bytes list \<Rightarrow> failure + 't list" where
  "decodeAll a i [] = Inr []"
| "decodeAll a i (raw # raws) =
     (case decodeAt a raw i of
        Inl err \<Rightarrow> Inl err
      | Inr v \<Rightarrow> (case decodeAll a (i + 1) raws of Inl err \<Rightarrow> Inl err | Inr vs \<Rightarrow> Inr (v # vs)))"

definition Attribute_Values :: "'t model_attribute \<Rightarrow> entry \<Rightarrow> failure + 't list" where
  "Attribute_Values a e = (if ma_Codec a = None then Inl (no_codec a) else decodeAll a 0 (raw_values a e))"

definition Attribute_Equal :: "'t model_attribute \<Rightarrow> 't \<Rightarrow> failure + filter" where
  "Attribute_Equal a v =
     (case ma_Codec a of
        None \<Rightarrow> Inl (no_codec a)
      | Some c \<Rightarrow>
          (case Codec_Encode c v of
             Inl err \<Rightarrow> Inl (Wrapped ''ldapmodel: encode %s assertion: %w'' [AStr (ma_name a)] err)
           | Inr encoded \<Rightarrow> Inr (EqualBytes (ma_name a) encoded)))"

text \<open>\<^verbatim>\<open>MustEqual\<close> panics if there is no filter.\<close>

definition MustEqual :: "'t model_attribute \<Rightarrow> 't \<Rightarrow> filter option" where
  "MustEqual a v = (case Attribute_Equal a v of Inl err \<Rightarrow> None | Inr f \<Rightarrow> Some f)"

fun encodeAll :: "bytes \<Rightarrow> 't value_codec \<Rightarrow> nat \<Rightarrow> 't list \<Rightarrow> failure + bytes list" where
  "encodeAll name c i [] = Inr []"
| "encodeAll name c i (v # vs) =
     (case Codec_Encode c v of
        Inl err \<Rightarrow> Inl (Wrapped ''ldapmodel: encode %s value %d: %w'' [AStr name, AInt (int i)] err)
      | Inr b \<Rightarrow> (case encodeAll name c (i + 1) vs of Inl err \<Rightarrow> Inl err | Inr bs \<Rightarrow> Inr (b # bs)))"

definition Attribute_encode :: "'t model_attribute \<Rightarrow> 't list \<Rightarrow> failure + attribute" where
  "Attribute_encode a vals =
     (case ma_Codec a of
        None \<Rightarrow> Inl (no_codec a)
      | Some c \<Rightarrow>
          (case encodeAll (ma_name a) c 0 vals of
             Inl err \<Rightarrow> Inl err
           | Inr raws \<Rightarrow> Inr \<lparr>at_Type = ma_name a, at_Values = raws, at_Extensions = []\<rparr>))"

definition Attribute_Set :: "(bytes \<Rightarrow> bytes) \<Rightarrow> 't model_attribute \<Rightarrow> entry option \<Rightarrow> 't list \<Rightarrow> failure + entry" where
  "Attribute_Set uni a e vals =
     (case e of
        None \<Rightarrow> Inl (Text ''ldapmodel: nil entry'' [])
      | Some en \<Rightarrow>
          (case Attribute_encode a vals of
             Inl err \<Rightarrow> Inl err
           | Inr attr \<Rightarrow> Inr (en\<lparr>en_Attributes := Attributes_Set uni attr (en_Attributes en)\<rparr>)))"

definition RequiredMany :: "'t model_attribute \<Rightarrow> entry \<Rightarrow> failure + 't list" where
  "RequiredMany a e =
     (if raw_values a e = [] then Inl (Text ''ldapmodel: required attribute %q has no values'' [AStr (ma_name a)])
      else Attribute_Values a e)"

definition RequiredOne :: "'t model_attribute \<Rightarrow> entry \<Rightarrow> failure + 't" where
  "RequiredOne a e =
     (case raw_values a e of
        [raw] \<Rightarrow> Attribute_Decode a raw
      | raws \<Rightarrow> Inl (Text ''ldapmodel: required attribute %q has %d values'' [AStr (ma_name a), AInt (int (length raws))]))"

definition OptionalOne :: "'t model_attribute \<Rightarrow> entry \<Rightarrow> failure + 't option" where
  "OptionalOne a e =
     (case raw_values a e of
        [] \<Rightarrow> Inr None
      | [raw] \<Rightarrow> (case Attribute_Decode a raw of Inl err \<Rightarrow> Inl err | Inr v \<Rightarrow> Inr (Some v))
      | raws \<Rightarrow> Inl (Text ''ldapmodel: single-valued attribute %q has %d values'' [AStr (ma_name a), AInt (int (length raws))]))"

section \<open>Numbers\<close>

lemma unat_digit: "k < 10 \<Longrightarrow> unat (of_nat (48 + k) :: byte) = 48 + k"
  by (simp add: unat_of_nat del: of_nat_add)

lemma is_digit_nat: "is_digit c \<longleftrightarrow> 48 \<le> unat c \<and> unat c \<le> 57"
  by (simp add: is_digit_def word_le_nat_alt)

lemma digit_of_nat: "k < 10 \<Longrightarrow> is_digit (of_nat (48 + k))"
  using unat_digit [of k] by (simp add: is_digit_nat)

lemma unat_48: "unat c = 48 \<longleftrightarrow> c = 0x30" for c :: byte
  by (simp add: word_unat_eq_iff)

lemma digits_value_snoc: "digits_value (s @ [c]) = 10 * digits_value s + (unat c - 48)"
  by (simp add: digits_value_def)

declare AppendUint.simps [simp del]

lemma AppendUint_value: "digits_value (AppendUint n) = n"
proof (induction n rule: AppendUint.induct)
  case (1 n)
  show ?case
  proof (cases "n < 10")
    case True
    then have "digits_value [of_nat (48 + n)] = n" using unat_digit [OF True] by (simp add: digits_value_def)
    then show ?thesis using True by (simp add: AppendUint.simps [of n])
  next
    case False
    have "unat (of_nat (48 + n mod 10) :: byte) - 48 = n mod 10" using unat_digit [of "n mod 10"] by simp
    then have "digits_value (AppendUint n) = 10 * (n div 10) + n mod 10"
      using 1 False by (simp add: AppendUint.simps [of n] digits_value_snoc)
    then show ?thesis by simp
  qed
qed

lemma AppendUint_digits: "list_all is_digit (AppendUint n) \<and> AppendUint n \<noteq> []"
proof (induction n rule: AppendUint.induct)
  case (1 n)
  then show ?case using digit_of_nat [of n] digit_of_nat [of "n mod 10"] by (simp add: AppendUint.simps [of n])
qed

text \<open>No number is written with a leading zero, and a number is the only one written without that has its value.\<close>

definition canonical :: "bytes \<Rightarrow> bool" where
  "canonical s \<longleftrightarrow> s \<noteq> [] \<and> list_all is_digit s \<and> (hd s = 0x30 \<longrightarrow> s = [0x30])"

lemma AppendUint_hd: "0 < n \<Longrightarrow> hd (AppendUint n) \<noteq> 0x30"
proof (induction n rule: AppendUint.induct)
  case (1 n)
  show ?case
  proof (cases "n < 10")
    case True
    have "unat (of_nat (48 + n) :: byte) \<noteq> unat (0x30 :: byte)" using unat_digit [OF True] 1(2) by simp
    then show ?thesis using True by (auto simp: AppendUint.simps [of n])
  next
    case False
    then show ?thesis using 1(1) AppendUint_digits [of "n div 10"] by (simp add: AppendUint.simps [of n])
  qed
qed

lemma AppendUint_0: "AppendUint 0 = [0x30]"
  by (simp add: AppendUint.simps)

lemma AppendUint_canonical: "canonical (AppendUint n)"
  using AppendUint_digits [of n] AppendUint_hd [of n] AppendUint_0 by (cases "n = 0") (auto simp: canonical_def)

lemma digits_value_pos: "list_all is_digit s \<Longrightarrow> s \<noteq> [] \<Longrightarrow> hd s \<noteq> 0x30 \<Longrightarrow> 0 < digits_value s"
proof (induction s rule: rev_induct)
  case (snoc c s)
  show ?case
  proof (cases "s = []")
    case True
    then have "unat c \<noteq> 48" "48 \<le> unat c" using snoc.prems by (auto simp: is_digit_nat unat_48)
    then show ?thesis using True by (simp add: digits_value_def)
  next
    case False
    then show ?thesis using snoc by (simp add: digits_value_snoc)
  qed
qed simp

lemma canonical_unique: "canonical s \<Longrightarrow> AppendUint (digits_value s) = s"
proof (induction s rule: rev_induct)
  case (snoc c s)
  have c: "is_digit c" using snoc.prems by (simp add: canonical_def)
  then have u: "48 \<le> unat c" "unat c \<le> 57" by (simp_all add: is_digit_nat)
  have w: "of_nat (48 + (unat c - 48)) = c" using u by simp
  show ?case
  proof (cases "s = []")
    case True
    have "digits_value [c] = unat c - 48" by (simp add: digits_value_def)
    moreover have "unat c - 48 < 10" using u by simp
    ultimately show ?thesis using True w by (simp add: AppendUint.simps [of "unat c - 48"])
  next
    case False
    then have s: "canonical s" using snoc.prems by (cases s) (auto simp: canonical_def)
    have "hd s \<noteq> 0x30" using snoc.prems False by (auto simp: canonical_def)
    then have pos: "0 < digits_value s" using digits_value_pos s False by (auto simp: canonical_def)
    define d where "d = unat c - 48"
    have d: "d < 10" "of_nat (48 + d) = c" using u w by (simp_all add: d_def)
    let ?n = "10 * digits_value s + d"
    have "\<not> ?n < 10" "?n div 10 = digits_value s" "?n mod 10 = d" using pos d(1) by simp_all
    then show ?thesis using snoc.IH [OF s] d(2) by (simp add: digits_value_snoc AppendUint.simps [of ?n] flip: d_def)
  qed
qed (simp add: canonical_def)

lemma canonical_AppendUint: "canonical s \<longleftrightarrow> s = AppendUint (digits_value s)"
  using canonical_unique AppendUint_canonical by metis

lemma canonical_Cons: "canonical (c # cs) \<longleftrightarrow> is_digit c \<and> list_all is_digit cs \<and> (c = 0x30 \<longrightarrow> cs = [])"
  by (auto simp: canonical_def)

lemma minus_no_digit [simp]: "\<not> is_digit 0x2D" "\<not> is_digit 0x2B"
  by (simp_all add: is_digit_def)

lemma integerSyntax_iff:
  "integerSyntax raw \<longleftrightarrow> canonical raw \<or> (\<exists>s. raw = 0x2D # s \<and> canonical s \<and> s \<noteq> [0x30])"
proof (cases raw)
  case (Cons c cs)
  show ?thesis
  proof (cases "c = 0x2D")
    case True
    then show ?thesis using Cons by (cases cs) (auto simp: integerSyntax_def canonical_Cons canonical_def)
  next
    case False
    then show ?thesis using Cons by (auto simp: integerSyntax_def canonical_Cons is_digit_def)
  qed
qed (simp add: integerSyntax_def canonical_def)

lemma canonical_hd: "canonical s \<Longrightarrow> s \<noteq> [] \<and> list_all is_digit s \<and> hd s \<noteq> 0x2D \<and> hd s \<noteq> 0x2B"
  by (cases s) (auto simp: canonical_def is_digit_def)

lemma ParseUint_canonical: "canonical s \<Longrightarrow> ParseUint n s = Inr v \<longleftrightarrow> v = int (digits_value s) \<and> v < 2 ^ n"
  by (auto simp: ParseUint_def canonical_def not_le simp flip: of_nat_less_iff)

lemma ParseInt_canonical:
  assumes "canonical s"
  shows "ParseInt 64 s = Inr v \<longleftrightarrow> v = int (digits_value s) \<and> v < 2 ^ 63"
    and "ParseInt 64 (0x2D # s) = Inr v \<longleftrightarrow> v = - int (digits_value s) \<and> - (2 ^ 63) \<le> v"
  using canonical_hd [OF assms] by (auto simp: ParseInt_def Let_def not_le simp flip: of_nat_less_iff)

lemma AppendInt_cases:
  "raw = AppendInt v \<longleftrightarrow> (0 \<le> v \<and> canonical raw \<and> v = int (digits_value raw)) \<or>
     (v < 0 \<and> (\<exists>s. raw = 0x2D # s \<and> canonical s \<and> s \<noteq> [0x30] \<and> v = - int (digits_value s)))"
proof (cases "0 \<le> v")
  case True
  then show ?thesis using AppendUint_value [of "nat v"] AppendUint_canonical [of "nat v"] canonical_unique [of raw]
    by (auto simp: AppendInt_def)
next
  case False
  have nz: "s \<noteq> [0x30]" if "s = AppendUint (nat (- v))" for s using that AppendUint_value [of "nat (- v)"] False by (auto simp: digits_value_def)
  show ?thesis using False AppendUint_value [of "nat (- v)"] AppendUint_canonical [of "nat (- v)"] canonical_unique nz
    by (auto simp: AppendInt_def)
qed

lemma negative_value: "canonical s \<Longrightarrow> s \<noteq> [0x30] \<Longrightarrow> 0 < digits_value s"
  using digits_value_pos by (auto simp: canonical_def)

lemma int64_exact:
  "Codec_Decode Int64Codec raw = Inr v \<longleftrightarrow> int_range Int64 v \<and> Codec_Encode Int64Codec v = Inr raw"
proof -
  have "Codec_Decode Int64Codec raw = Inr v \<longleftrightarrow> integerSyntax raw \<and> ParseInt 64 raw = Inr v"
    by (simp add: Codec_Decode_def Int64Codec_def split: sum.splits)
  also have "\<dots> \<longleftrightarrow> (canonical raw \<and> v = int (digits_value raw) \<and> v < 2 ^ 63) \<or>
      (\<exists>s. raw = 0x2D # s \<and> canonical s \<and> s \<noteq> [0x30] \<and> v = - int (digits_value s) \<and> - (2 ^ 63) \<le> v)"
    using ParseInt_canonical canonical_hd [of raw] by (auto simp: integerSyntax_iff)
  also have "\<dots> \<longleftrightarrow> int_range Int64 v \<and> raw = AppendInt v"
    using negative_value unfolding AppendInt_cases by (force simp: int_range_def Int64_def)
  also have "\<dots> \<longleftrightarrow> int_range Int64 v \<and> Codec_Encode Int64Codec v = Inr raw"
    by (auto simp: Codec_Encode_def Int64Codec_def)
  finally show ?thesis .
qed

lemma uint64_codec_exact: "Codec_Decode Uint64Codec raw = Inr v \<longleftrightarrow> int_range Uint64 v \<and> Codec_Encode Uint64Codec v = Inr raw"
proof -
  have minus: "ParseUint 64 (0x2D # s) \<noteq> Inr v" for s by (simp add: ParseUint_def)
  have "Codec_Decode Uint64Codec raw = Inr v \<longleftrightarrow> integerSyntax raw \<and> ParseUint 64 raw = Inr v"
    by (simp add: Codec_Decode_def Uint64Codec_def split: sum.splits)
  also have "\<dots> \<longleftrightarrow> canonical raw \<and> v = int (digits_value raw) \<and> v < 2 ^ 64"
    using ParseUint_canonical [of raw 64 v] minus by (auto simp: integerSyntax_iff)
  also have "\<dots> \<longleftrightarrow> int_range Uint64 v \<and> raw = AppendUint (nat v)"
    using AppendUint_value [of "nat v"] AppendUint_canonical [of "nat v"] canonical_unique [of raw] by (auto simp: int_range_def Uint64_def)
  also have "\<dots> \<longleftrightarrow> int_range Uint64 v \<and> Codec_Encode Uint64Codec v = Inr raw"
    by (auto simp: Codec_Encode_def Uint64Codec_def)
  finally show ?thesis .
qed

section \<open>Lawful codecs\<close>

text \<open>What an attribute relies on: the values of its type are encoded, to something that is decoded to them again.\<close>

locale lawful_codec =
  fixes c :: "'t value_codec" and ok :: "'t \<Rightarrow> bool"
  assumes decodes_encoded: "ok v \<Longrightarrow> \<exists>b. Codec_Encode c v = Inr b \<and> Codec_Decode c b = Inr v"
    and decoded_ok: "Codec_Decode c b = Inr v \<Longrightarrow> ok v"
begin

lemma encodeAll_decodeAll:
  assumes "list_all ok vs" "ma_Codec a = Some c"
  shows "\<exists>bs. encodeAll name c i vs = Inr bs \<and> length bs = length vs \<and> decodeAll a j bs = Inr vs"
  using assms(1)
proof (induction vs arbitrary: i j)
  case (Cons v vs)
  obtain b where b: "Codec_Encode c v = Inr b" "Codec_Decode c b = Inr v" using Cons.prems decodes_encoded by auto
  obtain bs where bs: "encodeAll name c (i + 1) vs = Inr bs" "length bs = length vs" "decodeAll a (j + 1) bs = Inr vs"
    using Cons.IH [of "i + 1" "j + 1"] Cons.prems by auto
  then show ?case using b assms(2) by (auto simp: decodeAt_def)
qed simp

lemma decodeAll_ok: "ma_Codec a = Some c \<Longrightarrow> decodeAll a j bs = Inr vs \<Longrightarrow> list_all ok vs"
proof (induction bs arbitrary: j vs)
  case (Cons b bs)
  then show ?case by (auto simp: decodeAt_def split: sum.splits dest: decoded_ok)
qed simp

lemma set_then_read:
  fixes uni name
  defines "a \<equiv> NewAttribute uni name (Some c)"
  assumes inv: "attrs_inv uni (en_Attributes e)" and ok: "list_all ok vs"
  obtains e' where "Attribute_Set uni a (Some e) vs = Inr e'" "Attribute_Values a e' = Inr vs" "length (raw_values a e') = length vs"
    "attrs_inv uni (en_Attributes e')" "\<And>d. Key uni d \<noteq> Key uni name \<Longrightarrow> Entry_Values uni d e' = Entry_Values uni d e"
proof -
  have a: "ma_Codec a = Some c" "ma_name a = name" "ma_key a = Key uni name" by (simp_all add: a_def NewAttribute_def)
  obtain bs where bs: "encodeAll name c 0 vs = Inr bs" "length bs = length vs" "decodeAll a 0 bs = Inr vs"
    using encodeAll_decodeAll [OF ok a(1)] by blast
  define attr where "attr = \<lparr>at_Type = name, at_Values = bs, at_Extensions = []\<rparr>"
  define e' where "e' = e\<lparr>en_Attributes := Attributes_Set uni attr (en_Attributes e)\<rparr>"
  have e': "e' = Entry_Set uni name bs e" by (simp add: e'_def Entry_Set_def attr_def)
  have "raw_values a e' = Entry_Values uni name e'" by (simp add: raw_values_def Entry_Values_def Attributes_Lookup_def a(3))
  then have r: "raw_values a e' = bs" using Entry_Values_Set [OF inv, of name name bs] e' by simp
  show thesis
  proof (rule that [of e'])
    show "Attribute_Set uni a (Some e) vs = Inr e'" using bs(1) a by (simp add: Attribute_Set_def Attribute_encode_def e'_def attr_def)
    show "Attribute_Values a e' = Inr vs" using bs(3) r a(1) by (simp add: Attribute_Values_def)
    show "length (raw_values a e') = length vs" using r bs(2) by simp
    show "attrs_inv uni (en_Attributes e')" using Entry_Set_inv [OF inv] e' by simp
    show "Entry_Values uni d e' = Entry_Values uni d e" if "Key uni d \<noteq> Key uni name" for d
      using Entry_Values_Set [OF inv, of d name bs] that e' by simp
  qed
qed

end

text \<open>Reading one value, given all values.\<close>

lemma RequiredOne_Values:
  assumes "ma_Codec a \<noteq> None"
  shows "RequiredOne a e = Inr v \<longleftrightarrow> Attribute_Values a e = Inr [v]"
    and "OptionalOne a e = Inr (Some v) \<longleftrightarrow> Attribute_Values a e = Inr [v]"
    and "OptionalOne a e = Inr None \<longleftrightarrow> Attribute_Values a e = Inr []"
  using assms by (auto simp: RequiredOne_def OptionalOne_def Attribute_Values_def Attribute_Decode_def split: list.splits sum.splits)

interpretation string_codec: lawful_codec StringCodec "\<lambda>_. True"
  by unfold_locales (auto simp: StringCodec_def Codec_Encode_def Codec_Decode_def)

interpretation bytes_codec: lawful_codec BytesCodec "\<lambda>_. True"
  by unfold_locales (auto simp: BytesCodec_def Codec_Encode_def Codec_Decode_def)

interpretation text_codec: lawful_codec "textCodec valid" valid for valid
  by unfold_locales (auto simp: textCodec_def Codec_Encode_def Codec_Decode_def split: if_splits)

interpretation dn_codec: lawful_codec DNCodec utf8_Valid
  by unfold_locales (auto simp: DNCodec_def Codec_Encode_def Codec_Decode_def split: if_splits)

interpretation bool_codec: lawful_codec BoolCodec "\<lambda>_. True"
  by unfold_locales (auto simp: BoolCodec_def Codec_Encode_def Codec_Decode_def TRUE_literal_def FALSE_literal_def)

lemma exact_lawful:
  assumes "\<And>raw v. Codec_Decode c raw = Inr v \<longleftrightarrow> ok v \<and> Codec_Encode c v = Inr raw" "\<And>v. \<exists>b. Codec_Encode c v = Inr b"
  shows "lawful_codec c ok"
  using assms by unfold_locales metis+

interpretation int64_codec: lawful_codec Int64Codec "int_range Int64"
  using int64_exact by (rule exact_lawful) (simp add: Codec_Encode_def Int64Codec_def)

interpretation uint64_codec: lawful_codec Uint64Codec "int_range Uint64"
  using uint64_codec_exact by (rule exact_lawful) (simp add: Codec_Encode_def Uint64Codec_def)

interpretation uint32_codec: lawful_codec Uint32Codec "int_range Uint32"
proof
  show "\<exists>b. Codec_Encode Uint32Codec v = Inr b \<and> Codec_Decode Uint32Codec b = Inr v" if "int_range Uint32 v" for v
    using that ParseUint_canonical [OF AppendUint_canonical [of "nat v"], of 32 v] AppendUint_value [of "nat v"]
    by (simp add: Codec_Encode_def Codec_Decode_def Uint32Codec_def int_range_def Uint32_def)
  show "int_range Uint32 v" if "Codec_Decode Uint32Codec b = Inr v" for b v
    using that by (auto simp: Codec_Decode_def Uint32Codec_def ParseUint_def int_range_def Uint32_def not_le split: sum.splits if_splits)
qed

section \<open>Properties\<close>

text \<open>The codec of 64-bit integers reads exactly what it writes: a value is decoded from one spelling only, its decimal
  notation without leading zeros, and only if it fits.\<close>

theorem int64_codec_exact:
  "Codec_Decode Int64Codec raw = Inr v \<longleftrightarrow> int_range Int64 v \<and> Codec_Encode Int64Codec v = Inr raw"
  by (rule int64_exact)

text \<open>What is written to an entry through a typed attribute is read back, by all three readers, and no other attribute is affected: for every
  codec that decodes what it encodes.\<close>

theorem attribute_roundtrip:
  assumes "lawful_codec c ok" "attrs_inv uni (en_Attributes e)" "list_all ok vs"
  shows "\<exists>e'. Attribute_Set uni (NewAttribute uni name (Some c)) (Some e) vs = Inr e'
    \<and> Attribute_Values (NewAttribute uni name (Some c)) e' = Inr vs
    \<and> (\<forall>v. RequiredOne (NewAttribute uni name (Some c)) e' = Inr v \<longleftrightarrow> vs = [v])
    \<and> (\<forall>v. OptionalOne (NewAttribute uni name (Some c)) e' = Inr (Some v) \<longleftrightarrow> vs = [v])
    \<and> (OptionalOne (NewAttribute uni name (Some c)) e' = Inr None \<longleftrightarrow> vs = [])
    \<and> (\<forall>d. Key uni d \<noteq> Key uni name \<longrightarrow> Entry_Values uni d e' = Entry_Values uni d e)"
proof -
  obtain e' where e': "Attribute_Set uni (NewAttribute uni name (Some c)) (Some e) vs = Inr e'"
      "Attribute_Values (NewAttribute uni name (Some c)) e' = Inr vs"
      "\<And>d. Key uni d \<noteq> Key uni name \<Longrightarrow> Entry_Values uni d e' = Entry_Values uni d e"
    using lawful_codec.set_then_read [OF assms, of name] by metis
  have "ma_Codec (NewAttribute uni name (Some c)) \<noteq> None" by (simp add: NewAttribute_def)
  note one = RequiredOne_Values [OF this, of e']
  show ?thesis using e' one by auto
qed

theorem attribute_roundtrip_witness:
  "\<exists>e'. Attribute_Set id (NewAttribute id [0x75] (Some Int64Codec)) (Some (NewEntry [])) [-42] = Inr e'
    \<and> RequiredOne (NewAttribute id [0x75] (Some Int64Codec)) e' = Inr (-42)"
proof -
  have "list_all (int_range Int64) [-42]" by (simp add: int_range_def Int64_def)
  from attribute_roundtrip [OF int64_codec.lawful_codec_axioms NewEntry_inv [of id "[]"] this, of "[0x75]"] show ?thesis by auto
qed

end
