(* ===== verification/Client_Rows.thy ===== *)
theory Client_Rows
  imports Client Transition
begin

text \<open>
  Searches of the client (\<^verbatim>\<open>Search\<close>, \<^verbatim>\<open>Get\<close>, \<^verbatim>\<open>RootDSE\<close> and \<^verbatim>\<open>Entries\<close> of \<^verbatim>\<open>src/client.go\<close>), across the pages of RFC 2696.

  The loop of \<^verbatim>\<open>Entries.Next\<close> ends only if the server lets it, hence \<open>entriesLoop\<close> is a partial function.
\<close>

section \<open>Requests\<close>

record client_search =
  cs_BaseDN :: bytes
  cs_Scope :: int
  cs_DerefAliases :: int
  cs_SizeLimit :: int
  cs_TimeLimit :: int
  cs_TypesOnly :: bool
  cs_Filter :: filter
  cs_Attributes :: attribute_selectors
  cs_PageSize :: int

definition protocolRequest :: "client_search \<Rightarrow> search_request" where
  "protocolRequest r =
     \<lparr>sq_BaseObject = cs_BaseDN r, sq_Scope = cs_Scope r, sq_DerefAliases = cs_DerefAliases r, sq_SizeLimit = cs_SizeLimit r,
      sq_TimeLimit = cs_TimeLimit r, sq_TypesOnly = cs_TypesOnly r, sq_Filter = cs_Filter r, sq_Attributes = cs_Attributes r,
      sq_Extensions = []\<rparr>"

section \<open>Entries\<close>

record 's entries =
  et_request :: client_search
  et_options :: "packet option list"
  et_stream :: "(search_result, 's) decoded_stream option"
  et_entry :: entry
  et_err :: "client_error option"
  et_done :: bool
  et_closed :: bool
  et_controls :: "control list"
  et_referrals :: "bytes list"

definition entryFromSearchResult :: "search_entry \<Rightarrow> entry" where
  "entryFromSearchResult wire = \<lparr>en_DN = se_ObjectName wire, en_Attributes = se_Attributes wire\<rparr>"

text \<open>The request of a page.\<close>

definition pageOperation :: "(bytes \<Rightarrow> bytes) \<Rightarrow> client_search \<Rightarrow> packet option list \<Rightarrow> bytes \<Rightarrow> goerror + search_result operation" where
  "pageOperation uni request options cookie =
     NewSearchOperation uni (Some (protocolRequest request))
       (if cs_PageSize request > 0
        then options @ [Some (Control_BERPacket (newPagedResultsControl (cs_PageSize request) cookie))] else options)"

definition startPage ::
    "(bytes \<Rightarrow> bytes) \<Rightarrow> ('x, 's) client \<Rightarrow> bytes \<Rightarrow> 's entries \<Rightarrow> 'x \<Rightarrow> client_error option \<times> 's entries \<times> 'x" where
  "startPage uni cl cookie r x =
     (if et_stream r \<noteq> None
      then (Some (Failed (Text ''arden: cannot start a search page before closing the previous response stream'' [])), r, x)
      else case pageOperation uni (et_request r) (et_options r) cookie of
          Inl err \<Rightarrow> (Some (Failed (Ber err)), r, x)
        | Inr op \<Rightarrow>
            (case ExecuteStream cl op x of
               (Inl err, x') \<Rightarrow> (Some err, r\<lparr>et_stream := None\<rparr>, x')
             | (Inr s, x') \<Rightarrow> (None, r\<lparr>et_stream := Some s\<rparr>, x')))"

definition closeStream :: "('x, 's) client \<Rightarrow> 's entries \<Rightarrow> 'x \<Rightarrow> failure option \<times> 's entries \<times> 'x" where
  "closeStream cl r x =
     (case et_stream r of
        None \<Rightarrow> (None, r, x)
      | Some s \<Rightarrow> (case DecodedStream_Close cl s x of (err, _, x') \<Rightarrow> (err, r\<lparr>et_stream := None\<rparr>, x')))"

definition Entries_Close :: "('x, 's) client \<Rightarrow> 's entries \<Rightarrow> 'x \<Rightarrow> failure option \<times> 's entries \<times> 'x" where
  "Entries_Close cl r x =
     (if et_closed r then (None, r, x) else closeStream cl (r\<lparr>et_closed := True, et_done := True\<rparr>) x)"

definition Client_Search ::
    "(bytes \<Rightarrow> bytes) \<Rightarrow> ('x, 's) client \<Rightarrow> bool \<Rightarrow> client_search \<Rightarrow> control option list \<Rightarrow> 'x \<Rightarrow> (client_error + 's entries) \<times> 'x" where
  "Client_Search uni cl ctx request options x =
     (if \<not> ctx then (Inl (Failed (Text ''arden: nil Search context'' [])), x)
      else
        let rows = \<lparr>et_request = request, et_options = requestControls options, et_stream = None,
                    et_entry = \<lparr>en_DN = [], en_Attributes = None\<rparr>, et_err = None, et_done = False, et_closed = False,
                    et_controls = [], et_referrals = []\<rparr>
        in case startPage uni cl [] rows x of
            (Some err, _, x') \<Rightarrow> (Inl err, x')
          | (None, rows', x') \<Rightarrow> (Inr rows', x'))"

section \<open>The next entry\<close>

text \<open>What one turn of the loop of \<^verbatim>\<open>Next\<close> leads to: \<^verbatim>\<open>true\<close>, \<^verbatim>\<open>false\<close>, another turn, or a panic on a nil stream.\<close>

datatype turn = NextRow | NextStop | NextAgain | NextPanics

definition failEntries :: "client_error \<Rightarrow> 's entries \<Rightarrow> 'x \<Rightarrow> turn \<times> 's entries \<times> 'x" where
  "failEntries err r x = (NextStop, r\<lparr>et_err := Some err\<rparr>, x)"

text \<open>The rest of the turn once the search is done and its stream is closed.\<close>

definition nextPage :: "(bytes \<Rightarrow> bytes) \<Rightarrow> ('x, 's) client \<Rightarrow> control list \<Rightarrow> 's entries \<Rightarrow> 'x \<Rightarrow> turn \<times> 's entries \<times> 'x" where
  "nextPage uni cl controls r x =
     (if cs_PageSize (et_request r) = 0 then (NextStop, r\<lparr>et_done := True\<rparr>, x)
      else case pagedResultsCookie controls (cl_limits cl) of
          Inl err \<Rightarrow> failEntries (Failed (Ber err)) r x
        | Inr cookie \<Rightarrow>
            if cookie = [] then (NextStop, r\<lparr>et_done := True\<rparr>, x)
            else (case startPage uni cl cookie r x of
                    (Some err, r', x') \<Rightarrow> failEntries err r' x'
                  | (None, r', x') \<Rightarrow> (NextAgain, r', x')))"

definition searchDone ::
    "(bytes \<Rightarrow> bytes) \<Rightarrow> ('x, 's) client \<Rightarrow> (search_result, 's) decoded_stream \<Rightarrow> ldap_result \<Rightarrow> control list \<Rightarrow> 's entries \<Rightarrow> 'x
     \<Rightarrow> turn \<times> 's entries \<times> 'x" where
  "searchDone uni cl s res controls r0 x =
     (let r = r0\<lparr>et_controls := controls\<rparr> in
      case requireSuccess ''search'' res controls of
        Some err \<Rightarrow> failEntries err r x
      | None \<Rightarrow>
          (case requireEnd cl s ''arden: Search returned data after SearchResultDone'' x of
             (Some err, x') \<Rightarrow> failEntries err r x'
           | (None, x') \<Rightarrow>
               (case closeStream cl r x' of
                  (Some err, r', x'') \<Rightarrow> failEntries (Failed err) r' x''
                | (None, r', x'') \<Rightarrow> nextPage uni cl controls r' x'')))"

definition entriesTurn :: "(bytes \<Rightarrow> bytes) \<Rightarrow> ('x, 's) client \<Rightarrow> 's entries \<Rightarrow> 'x \<Rightarrow> turn \<times> 's entries \<times> 'x" where
  "entriesTurn uni cl r x =
     (case et_stream r of
        None \<Rightarrow> (NextPanics, r, x)
      | Some s \<Rightarrow>
          (case DecodedStream_Next cl s x of
             (Inl err, x') \<Rightarrow> failEntries err r x'
           | (Inr (decoded, controls), x') \<Rightarrow>
               (case decoded of
                  Some (Search_Entry e) \<Rightarrow> (NextRow, r\<lparr>et_entry := entryFromSearchResult e\<rparr>, x')
                | Some (Search_Reference ref) \<Rightarrow> (NextAgain, r\<lparr>et_referrals := et_referrals r @ sr_URIs ref\<rparr>, x')
                | Some (Search_Done d) \<Rightarrow> searchDone uni cl s (done_Result d) controls r x'
                | None \<Rightarrow> failEntries (Failed (Text ''arden: Search decoded unexpected response type %T'' [])) r x')))"

partial_function (option) entriesLoop ::
    "(bytes \<Rightarrow> bytes) \<Rightarrow> ('x, 's) client \<Rightarrow> 's entries \<Rightarrow> 'x \<Rightarrow> (turn \<times> 's entries \<times> 'x) option" where
  "entriesLoop uni cl r x =
     (let (t, r', x') = entriesTurn uni cl r x in if t = NextAgain then entriesLoop uni cl r' x' else Some (t, r', x'))"

definition Entries_Next ::
    "(bytes \<Rightarrow> bytes) \<Rightarrow> ('x, 's) client \<Rightarrow> 's entries \<Rightarrow> 'x \<Rightarrow> (turn \<times> 's entries \<times> 'x) option" where
  "Entries_Next uni cl r x = (if et_done r \<or> et_err r \<noteq> None then Some (NextStop, r, x) else entriesLoop uni cl r x)"

section \<open>Lookups\<close>

text \<open>\<^verbatim>\<open>"objectClass"\<close> in ASCII.\<close>

definition objectClass :: bytes where
  "objectClass = [0x6F, 0x62, 0x6A, 0x65, 0x63, 0x74, 0x43, 0x6C, 0x61, 0x73, 0x73]"

definition ScopeBase :: int where "ScopeBase = 0"

text \<open>The body of \<^verbatim>\<open>Get\<close> between \<^verbatim>\<open>Search\<close> and the deferred \<^verbatim>\<open>Close\<close>; a panic is no result.\<close>

definition getOnly :: "(bytes \<Rightarrow> bytes) \<Rightarrow> ('x, 's) client \<Rightarrow> 's entries \<Rightarrow> 'x \<Rightarrow> ((client_error + entry) \<times> 's entries \<times> 'x) option" where
  "getOnly uni cl rows x =
     do {
       (t, r1, x1) \<leftarrow> Entries_Next uni cl rows x;
       if t = NextPanics then None
       else if t \<noteq> NextRow
       then Some ((case et_err r1 of Some err \<Rightarrow> Inl err | None \<Rightarrow> Inl ErrNotFound), r1, x1)
       else do {
         (u, r2, x2) \<leftarrow> Entries_Next uni cl r1 x1;
         if u = NextPanics then None
         else if u = NextRow
         then Some (Inl (Failed (Text ''arden: base-object lookup returned more than one entry'' [])), r2, x2)
         else Some ((case et_err r2 of Some err \<Rightarrow> Inl err | None \<Rightarrow> Inr (et_entry r1)), r2, x2)
       }
     }"

definition Client_Get ::
    "(bytes \<Rightarrow> bytes) \<Rightarrow> ('x, 's) client \<Rightarrow> bool \<Rightarrow> bytes \<Rightarrow> bytes list \<Rightarrow> 'x \<Rightarrow> ((client_error + entry) \<times> 'x) option" where
  "Client_Get uni cl ctx dn attrs x =
     (case Client_Search uni cl ctx
             \<lparr>cs_BaseDN = dn, cs_Scope = ScopeBase, cs_DerefAliases = DerefNever, cs_SizeLimit = 1, cs_TimeLimit = 0,
              cs_TypesOnly = False, cs_Filter = Has objectClass, cs_Attributes = NewAttributeSelectors attrs, cs_PageSize = 0\<rparr> [] x of
        (Inl err, x') \<Rightarrow> Some (Inl err, x')
      | (Inr rows, x') \<Rightarrow>
          map_option (\<lambda>(res, r, x''). case Entries_Close cl r x'' of (_, _, x3) \<Rightarrow> (res, x3)) (getOnly uni cl rows x'))"

definition RootDSE :: "(bytes \<Rightarrow> bytes) \<Rightarrow> ('x, 's) client \<Rightarrow> bool \<Rightarrow> bytes list \<Rightarrow> 'x \<Rightarrow> ((client_error + entry) \<times> 'x) option" where
  "RootDSE uni cl ctx attrs x = Client_Get uni cl ctx [] attrs x"

section \<open>Streams are closed\<close>

text \<open>An executor that counts its open streams.\<close>

definition counted :: "('x, 's) executor_api \<Rightarrow> ('x \<times> int, 's) executor_api" where
  "counted ex =
     \<lparr>ex_Do = (\<lambda>op (x, n). case ex_Do ex op x of (Inl err, x') \<Rightarrow> (Inl err, (x', n)) | (Inr s, x') \<Rightarrow> (Inr s, (x', n + 1))),
      ex_Next = (\<lambda>s (x, n). case ex_Next ex s x of (res, x') \<Rightarrow> (res, (x', n))),
      ex_Close = (\<lambda>s (x, n). case ex_Close ex s x of (err, x') \<Rightarrow> (err, (x', n - 1)))\<rparr>"

definition counting :: "('x \<times> int, 's) client \<Rightarrow> bool" where
  "counting cl \<longleftrightarrow> (\<exists>ex. cl_executor cl = counted ex)"

lemma counting_ExecuteStream:
  assumes "counting cl" "ExecuteStream cl op y = (res, y')"
  shows "case res of Inl err \<Rightarrow> snd y' = snd y | Inr s \<Rightarrow> snd y' = snd y + 1 \<and> \<not> ds_closed s"
  using assms by (auto simp: counting_def ExecuteStream_def counted_def split: prod.splits sum.splits)

lemma counting_Next: "counting cl \<Longrightarrow> DecodedStream_Next cl d y = (res, y') \<Longrightarrow> snd y' = snd y"
  by (auto simp: counting_def DecodedStream_Next_def counted_def split: prod.splits sum.splits if_splits)

lemma counting_requireEnd: "counting cl \<Longrightarrow> requireEnd cl d msg y = (e, y') \<Longrightarrow> snd y' = snd y"
  by (auto simp: requireEnd_def split: prod.splits sum.splits dest!: counting_Next)

lemma counting_Close: "counting cl \<Longrightarrow> DecodedStream_Close cl d y = (e, d', y') \<Longrightarrow> snd y' = snd y - of_bool (\<not> ds_closed d)"
  by (auto simp: counting_def DecodedStream_Close_def counted_def split: prod.splits if_splits)

lemma counting_single:
  assumes "counting cl" "singleResponse cl f label accepted s y = (res, y')"
  shows "snd y' = snd y"
  using assms(2)
  by (auto simp: singleResponse_def split: prod.splits sum.splits option.splits
      dest!: counting_Next [OF assms(1)] counting_requireEnd [OF assms(1)])

lemma counting_ExecuteSingle:
  assumes "counting cl" "ExecuteSingle cl f op options y = (res, y')"
  shows "snd y' = snd y"
proof -
  obtain st y1 where Pair: "ExecuteStream cl op y = (st, y1)" by (metis surj_pair)
  show ?thesis
  proof (cases st)
    case (Inl err)
    then show ?thesis using assms(2) Pair counting_ExecuteStream [OF assms(1) Pair] by (simp add: ExecuteSingle_def)
  next
    case (Inr s)
    obtain r2 y2 where s2: "singleResponse cl f (op_Label op) (acceptedCodes options) s y1 = (r2, y2)" by (metis surj_pair)
    obtain e s' y3 where s3: "DecodedStream_Close cl s y2 = (e, s', y3)" by (metis prod_cases3)
    have "y' = y3" using assms(2) Pair Inr s2 s3 by (simp add: ExecuteSingle_def)
    then show ?thesis using counting_ExecuteStream [OF assms(1) Pair] Inr counting_single [OF assms(1) s2] counting_Close [OF assms(1) s3] by simp
  qed
qed

text \<open>Rows own one open stream, or none once they have ended.\<close>

definition rows_inv :: "int \<Rightarrow> 's entries \<Rightarrow> 'x \<times> int \<Rightarrow> bool" where
  "rows_inv k r y \<longleftrightarrow>
     (case et_stream r of None \<Rightarrow> snd y = k \<and> (et_done r \<or> et_err r \<noteq> None) | Some s \<Rightarrow> snd y = k + 1 \<and> \<not> ds_closed s \<and> \<not> et_closed r)"

definition rows_live :: "'s entries \<Rightarrow> bool" where
  "rows_live r \<longleftrightarrow> \<not> et_done r \<and> et_err r = None"

lemma counting_startPage:
  assumes "counting cl" "startPage uni cl cookie r y = (e, r', y')" "et_stream r = None"
  shows "(case e of None \<Rightarrow> \<exists>s. et_stream r' = Some s \<and> \<not> ds_closed s \<and> snd y' = snd y + 1 | Some err \<Rightarrow> et_stream r' = None \<and> snd y' = snd y)
    \<and> r' = r\<lparr>et_stream := et_stream r'\<rparr>"
  using assms(2,3)
  by (auto simp: startPage_def split: sum.splits prod.splits dest!: counting_ExecuteStream [OF assms(1)])

lemma counting_closeStream:
  assumes "counting cl" "closeStream cl r y = (e, r', y')"
  shows "r' = r\<lparr>et_stream := None\<rparr> \<and> snd y' = snd y - (case et_stream r of None \<Rightarrow> 0 | Some s \<Rightarrow> of_bool (\<not> ds_closed s))"
  using assms(2) by (auto simp: closeStream_def split: option.splits prod.splits dest!: counting_Close [OF assms(1)])

lemma nextPage_rows:
  assumes "counting cl" "nextPage uni cl controls r y = (t, r', y')" "et_stream r = None" "snd y = k" "rows_live r" "\<not> et_closed r"
  shows "rows_inv k r' y' \<and> t \<noteq> NextPanics \<and> (t \<noteq> NextStop \<longrightarrow> rows_live r')"
proof (cases "pagedResultsCookie controls (cl_limits cl)")
  case (Inr cookie)
  obtain e r1 y1 where s: "startPage uni cl cookie r y = (e, r1, y1)" by (metis prod_cases3)
  show ?thesis using assms(2-6) Inr s counting_startPage [OF assms(1) s assms(3)]
    by (cases e) (auto simp: nextPage_def failEntries_def rows_inv_def rows_live_def split: if_splits option.splits)
qed (use assms in \<open>auto simp: nextPage_def failEntries_def rows_inv_def split: if_splits\<close>)


lemma searchDone_rows:
  assumes "counting cl" "searchDone uni cl s res controls r y = (t, r', y')" "et_stream r = Some s" "rows_inv k r y" "rows_live r"
  shows "rows_inv k r' y' \<and> t \<noteq> NextPanics \<and> (t \<noteq> NextStop \<longrightarrow> rows_live r')"
proof -
  define r1 where "r1 = r\<lparr>et_controls := controls\<rparr>"
  obtain e1 y1 where e: "requireEnd cl s ''arden: Search returned data after SearchResultDone'' y = (e1, y1)" by (metis surj_pair)
  obtain e2 r2 y2 where c: "closeStream cl r1 y1 = (e2, r2, y2)" by (metis prod_cases3)
  have y: "snd y1 = snd y" using counting_requireEnd [OF assms(1) e] .
  have r1: "et_stream r1 = Some s" "rows_live r1" "\<not> et_closed r1" "snd y = k + 1" "\<not> ds_closed s"
    using assms(3-5) by (auto simp: r1_def rows_live_def rows_inv_def)
  have r2: "r2 = r1\<lparr>et_stream := None\<rparr>" "snd y2 = k" using counting_closeStream [OF assms(1) c] r1 y by auto
  have fail: "rows_inv k (r1\<lparr>et_err := Some err\<rparr>) y" "rows_inv k (r1\<lparr>et_err := Some err\<rparr>) y1" for err
    using r1 y by (simp_all add: rows_inv_def)
  have fail2: "rows_inv k (r2\<lparr>et_err := Some err\<rparr>) y2" for err using r2 by (simp add: rows_inv_def)
  note page = nextPage_rows [OF assms(1), of uni controls r2 y2 t r' y' k]
  have r2': "et_stream r2 = None" "rows_live r2" "\<not> et_closed r2" using r1 r2 by (simp_all add: rows_live_def)
  show ?thesis
  proof (cases "requireSuccess ''search'' res controls")
    case None
    then show ?thesis using assms(2) e c page r2' r2(2) y r1(4) fail fail2
      by (cases e1; cases e2) (auto simp: searchDone_def Let_def failEntries_def simp flip: r1_def)
  next
    case (Some err)
    then show ?thesis using assms(2) r1(4) fail by (auto simp: searchDone_def Let_def failEntries_def simp flip: r1_def)
  qed
qed

lemma entriesTurn_rows:
  assumes "counting cl" "entriesTurn uni cl r y = (t, r', y')" "rows_inv k r y" "rows_live r"
  shows "rows_inv k r' y' \<and> t \<noteq> NextPanics \<and> (t \<noteq> NextStop \<longrightarrow> rows_live r')"
proof -
  obtain s where s: "et_stream r = Some s" using assms(3,4) by (auto simp: rows_inv_def rows_live_def split: option.splits)
  obtain res y1 where n: "DecodedStream_Next cl s y = (res, y1)" by (metis surj_pair)
  have inv: "rows_inv k r y1" using assms(3) counting_Next [OF assms(1) n] by (simp add: rows_inv_def split: option.splits)
  show ?thesis
  proof (cases res)
    case (Inl err)
    then show ?thesis using assms(2) s n inv by (auto simp: entriesTurn_def failEntries_def rows_inv_def)
  next
    case (Inr p)
    obtain v cs where p: "p = (v, cs)" by (metis surj_pair)
    note fin = searchDone_rows [OF assms(1) _ s inv assms(4), of uni _ cs t r' y']
    show ?thesis using assms(2,4) s n inv Inr p fin
      by (auto simp: entriesTurn_def failEntries_def rows_inv_def rows_live_def split: option.splits search_result_value.splits)
  qed
qed

lemma entriesLoop_rows:
  fixes cl :: "('x \<times> int, 's) client"
  assumes "entriesLoop uni cl r y = Some z" "counting cl" "rows_inv k r y" "rows_live r"
  shows "case z of (t, r', y') \<Rightarrow> rows_inv k r' y' \<and> t \<noteq> NextPanics \<and> (t \<noteq> NextStop \<longrightarrow> rows_live r')"
proof -
  let ?P = "\<lambda>uni cl r (y :: 'x \<times> int) z. counting cl \<longrightarrow> rows_inv k r y \<longrightarrow> rows_live r \<longrightarrow>
    (case z of (t, r' :: 's entries, y' :: 'x \<times> int) \<Rightarrow> rows_inv k r' y' \<and> t \<noteq> NextPanics \<and> (t \<noteq> NextStop \<longrightarrow> rows_live r'))"
  have "?P uni cl r y z"
  proof (rule entriesLoop.raw_induct [where P = ?P and xa = "(((uni, cl), r), y)", unfolded prod.case, OF _ assms(1)], intro impI)
    fix loop uni cl r y z
    assume IH: "\<And>uni cl r y z. loop uni cl r y = Some z \<Longrightarrow> ?P uni cl r y z"
      and body: "(let (t, r', x') = entriesTurn uni cl r y in if t = NextAgain then loop uni cl r' x' else Some (t, r', x')) = Some z"
      and inv: "counting cl" "rows_inv k r y" "rows_live r"
    obtain t r1 y1 where turn: "entriesTurn uni cl r y = (t, r1, y1)" by (metis prod_cases3)
    note rows = entriesTurn_rows [OF inv(1) turn inv(2,3)]
    show "case z of (t, r', y') \<Rightarrow> rows_inv k r' y' \<and> t \<noteq> NextPanics \<and> (t \<noteq> NextStop \<longrightarrow> rows_live r')"
    proof (cases "t = NextAgain")
      case True
      then have "loop uni cl r1 y1 = Some z" using body turn by simp
      from IH [OF this] show ?thesis using rows True inv(1) by auto
    next
      case False
      then have "z = (t, r1, y1)" using body turn by simp
      then show ?thesis using rows by simp
    qed
  qed
  then show ?thesis using assms(2-4) by blast
qed

lemma Entries_Next_rows:
  assumes "counting cl" "rows_inv k r y" "Entries_Next uni cl r y = Some (t, r', y')"
  shows "rows_inv k r' y' \<and> t \<noteq> NextPanics"
proof (cases "rows_live r")
  case True
  then have "entriesLoop uni cl r y = Some (t, r', y')" using assms(3) by (simp add: Entries_Next_def rows_live_def)
  from entriesLoop_rows [OF this assms(1,2) True] show ?thesis by simp
next
  case False
  then show ?thesis using assms by (auto simp: Entries_Next_def rows_live_def)
qed

lemma Entries_Close_rows:
  assumes "counting cl" "rows_inv k r y" "Entries_Close cl r y = (e, r', y')"
  shows "rows_inv k r' y' \<and> snd y' = k"
  using assms(2,3)
  by (auto simp: Entries_Close_def rows_inv_def split: if_splits option.splits dest!: counting_closeStream [OF assms(1)])

lemma Client_Search_rows:
  assumes "counting cl" "Client_Search uni cl ctx request options y = (res, y')"
  shows "case res of Inl err \<Rightarrow> snd y' = snd y | Inr rows \<Rightarrow> rows_inv (snd y) rows y' \<and> rows_live rows"
  using assms(2)
  by (auto simp: Client_Search_def Let_def rows_inv_def rows_live_def split: if_splits prod.splits option.splits
      dest!: counting_startPage [OF assms(1)])

text \<open>What a caller may do with the rows of a search.\<close>

inductive rows_step :: "(bytes \<Rightarrow> bytes) \<Rightarrow> ('x, 's) client \<Rightarrow> 's entries \<times> 'x \<Rightarrow> 's entries \<times> 'x \<Rightarrow> bool" for uni cl where
  rows_next: "Entries_Next uni cl r x = Some (t, r', x') \<Longrightarrow> rows_step uni cl (r, x) (r', x')"
| rows_close: "Entries_Close cl r x = (e, r', x') \<Longrightarrow> rows_step uni cl (r, x) (r', x')"

definition rows_init :: "(bytes \<Rightarrow> bytes) \<Rightarrow> ('x \<times> int, 's) client \<Rightarrow> int \<Rightarrow> 's entries \<times> 'x \<times> int \<Rightarrow> bool" where
  "rows_init uni cl k s \<longleftrightarrow> (\<exists>ctx request options y. Client_Search uni cl ctx request options y = (Inr (fst s), snd s) \<and> snd y = k)"

definition rows_safe :: "('x \<times> int, 's) client \<Rightarrow> int \<Rightarrow> 's entries \<times> 'x \<times> int \<Rightarrow> bool" where
  "rows_safe cl k s \<longleftrightarrow> (counting cl \<longrightarrow> rows_inv k (fst s) (snd s))"

interpretation rows: invariant_system "rows_init uni cl k" "rows_step uni cl" "rows_safe cl k" for uni cl k
proof
  fix s
  assume "rows_init uni cl k s"
  then show "rows_safe cl k s" by (auto simp: rows_init_def rows_safe_def dest: Client_Search_rows)
next
  fix s s'
  assume "rows_step uni cl s s'" "rows_safe cl k s"
  then show "rows_safe cl k s'"
    by cases (auto simp: rows_safe_def dest: Entries_Next_rows Entries_Close_rows)
qed

lemma getOnly_rows:
  assumes "counting cl" "rows_inv k r y" "getOnly uni cl r y = Some (res, r', y')"
  shows "rows_inv k r' y'"
proof -
  obtain t r1 y1 where n: "Entries_Next uni cl r y = Some (t, r1, y1)"
    using assms(3) by (auto simp: getOnly_def split: Option.bind_splits)
  note r1 = conjunct1 [OF Entries_Next_rows [OF assms(1,2) n]]
  show ?thesis
  proof (cases "t = NextRow")
    case True
    obtain u r2 y2 where m: "Entries_Next uni cl r1 y1 = Some (u, r2, y2)"
      using assms(3) n True by (auto simp: getOnly_def split: Option.bind_splits)
    then have "r' = r2 \<and> y' = y2" using assms(3) n True by (auto simp: getOnly_def split: if_splits)
    then show ?thesis using Entries_Next_rows [OF assms(1) r1 m] by simp
  next
    case False
    then have "r' = r1 \<and> y' = y1" using assms(3) n by (auto simp: getOnly_def split: if_splits)
    then show ?thesis using r1 by simp
  qed
qed

lemma Client_Get_closes:
  assumes "counting cl" "Client_Get uni cl ctx dn attrs y = Some (res, y')"
  shows "snd y' = snd y"
proof -
  define request where "request = \<lparr>cs_BaseDN = dn, cs_Scope = ScopeBase, cs_DerefAliases = DerefNever, cs_SizeLimit = 1, cs_TimeLimit = 0,
    cs_TypesOnly = False, cs_Filter = Has objectClass, cs_Attributes = NewAttributeSelectors attrs, cs_PageSize = 0\<rparr>"
  obtain r1 y1 where s: "Client_Search uni cl ctx request [] y = (r1, y1)" by (metis surj_pair)
  show ?thesis
  proof (cases r1)
    case (Inl err)
    then show ?thesis using assms(2) s Client_Search_rows [OF assms(1) s] by (simp add: Client_Get_def flip: request_def)
  next
    case (Inr rows)
    then obtain res2 r2 y2 where g: "getOnly uni cl rows y1 = Some (res2, r2, y2)"
      using assms(2) s by (auto simp: Client_Get_def simp flip: request_def)
    obtain e r3 y3 where c: "Entries_Close cl r2 y2 = (e, r3, y3)" by (metis prod_cases3)
    have "rows_inv (snd y) rows y1" using Client_Search_rows [OF assms(1) s] Inr by simp
    from Entries_Close_rows [OF assms(1) getOnly_rows [OF assms(1) this g] c] show ?thesis
      using assms(2) s Inr g c by (simp add: Client_Get_def flip: request_def)
  qed
qed

text \<open>All operations together.\<close>

lemma streams_closed:
  assumes "cl = \<lparr>cl_executor = counted ex, cl_limits = lim\<rparr>"
  shows "(ExecuteSingle cl LDAPResult op codes y = (sres, y1) \<longrightarrow> snd y1 = snd y)
    \<and> (Client_Get uni cl ctx dn attrs y = Some (res, y2) \<longrightarrow> snd y2 = snd y)
    \<and> (Client_Search uni cl ctx request options y = (Inl err, y3) \<longrightarrow> snd y3 = snd y)
    \<and> (Client_Search uni cl ctx request options y = (Inr rows, y0) \<and> (rows_step uni cl)\<^sup>*\<^sup>* (rows, y0) (r, z) \<longrightarrow>
        snd (snd (snd (Entries_Close cl r z))) = snd y \<and> map_option fst (Entries_Next uni cl r z) \<noteq> Some NextPanics)"
proof (intro conjI impI)
  have c: "counting cl" using assms by (auto simp: counting_def)
  show "snd y1 = snd y" if "ExecuteSingle cl LDAPResult op codes y = (sres, y1)" using counting_ExecuteSingle [OF c that] .
  show "snd y2 = snd y" if "Client_Get uni cl ctx dn attrs y = Some (res, y2)" using Client_Get_closes [OF c that] .
  show "snd y3 = snd y" if "Client_Search uni cl ctx request options y = (Inl err, y3)" using Client_Search_rows [OF c that] by simp
  assume s: "Client_Search uni cl ctx request options y = (Inr rows, y0) \<and> (rows_step uni cl)\<^sup>*\<^sup>* (rows, y0) (r, z)"
  have "rows_safe cl (snd y) (rows, y0)" using Client_Search_rows [OF c conjunct1 [OF s]] by (simp add: rows_safe_def)
  from rows.steps_inv [OF conjunct2 [OF s] this] have inv: "rows_inv (snd y) r z" using c by (simp add: rows_safe_def)
  show "snd (snd (snd (Entries_Close cl r z))) = snd y" using Entries_Close_rows [OF c inv] by (metis prod.collapse)
  show "map_option fst (Entries_Next uni cl r z) \<noteq> Some NextPanics" using Entries_Next_rows [OF c inv] by force
qed

end
