(* ===== verification/Model.thy ===== *)
theory Model
  imports Model_Codecs Client_Rows
begin

text \<open>
  Models (\<^verbatim>\<open>model.go\<close>, \<^verbatim>\<open>add.go\<close>, \<^verbatim>\<open>modify.go\<close>, \<^verbatim>\<open>query.go\<close> of \<^verbatim>\<open>src/ldapmodel\<close>): typed queries and updates over the client.

  \<open>uni\<close> and \<open>efold\<close> are \<^verbatim>\<open>strings.ToLower\<close> and \<^verbatim>\<open>strings.EqualFold\<close> on text that is not ASCII.
\<close>

section \<open>Models and criteria\<close>

record 't model =
  md_baseDN :: bytes
  md_scope :: int
  md_classes :: "bytes list"
  md_rdn :: "bytes model_attribute"
  md_filter :: filter
  md_attributes :: attribute_selectors
  md_decode :: "entry \<Rightarrow> failure + 't"

definition NewModel ::
    "bytes \<Rightarrow> int \<Rightarrow> bytes list \<Rightarrow> bytes model_attribute \<Rightarrow> attribute_selectors \<Rightarrow> (entry \<Rightarrow> failure + 't) \<Rightarrow> 't model" where
  "NewModel baseDN scope baseClasses naming attrs decode =
     \<lparr>md_baseDN = baseDN, md_scope = scope, md_classes = baseClasses, md_rdn = naming,
      md_filter = All_filter (map (Equal objectClass) baseClasses), md_attributes = attrs, md_decode = decode\<rparr>"

text \<open>A criterion is a filter, or the error of encoding its value.\<close>

type_synonym criterion = "failure + filter"

definition EqualCriterion :: "'t model_attribute \<Rightarrow> 't \<Rightarrow> criterion" where
  "EqualCriterion a v = Attribute_Equal a v"

definition NewCriterion :: "filter \<Rightarrow> criterion" where
  "NewCriterion f = Inr f"

record ('x, 's, 't) dao =
  da_ctx :: bool
  da_client :: "('x, 's) client"
  da_model :: "'t model"

definition NewDAO :: "('x, 's) client \<Rightarrow> 't model \<Rightarrow> ('x, 's, 't) dao" where
  "NewDAO cl m = \<lparr>da_ctx = True, da_client = cl, da_model = m\<rparr>"

definition WithContext :: "bool \<Rightarrow> ('x, 's, 't) dao \<Rightarrow> ('x, 's, 't) dao" where
  "WithContext ctx d = d\<lparr>da_ctx := ctx\<rparr>"

section \<open>Add\<close>

text \<open>An assignment is an attribute, or the error of encoding a value; the zero value has no type.\<close>

type_synonym assignment = "failure + attribute"

definition Set_assignment :: "'t model_attribute \<Rightarrow> 't list \<Rightarrow> assignment" where
  "Set_assignment a vals = Attribute_encode a vals"

definition is_letter :: "byte \<Rightarrow> bool" where
  "is_letter c \<longleftrightarrow> (0x41 \<le> c \<and> c \<le> 0x5A) \<or> (0x61 \<le> c \<and> c \<le> 0x7A)"

text \<open>The regular expression \<^verbatim>\<open>^[A-Za-z][A-Za-z0-9-]*$\<close>.\<close>

definition rdnAttributeName :: "bytes \<Rightarrow> bool" where
  "rdnAttributeName s \<longleftrightarrow> (case s of [] \<Rightarrow> False | c # cs \<Rightarrow> is_letter c \<and> list_all (\<lambda>b. is_letter b \<or> is_digit b \<or> b = 0x2D) cs)"

definition EqualFold :: "(bytes \<Rightarrow> bytes \<Rightarrow> bool) \<Rightarrow> bytes \<Rightarrow> bytes \<Rightarrow> bool" where
  "EqualFold efold s t =
     (if list_all (\<lambda>b. b < 0x80) s \<and> list_all (\<lambda>b. b < 0x80) t then map lowerByte s = map lowerByte t else efold s t)"

text \<open>\<^verbatim>\<open>escapeRDNValue\<close>; the last byte is the one with nothing after it.\<close>

definition hex_digit :: "byte \<Rightarrow> byte" where
  "hex_digit n = (if n < 10 then 0x30 + n else 0x57 + n)"

text \<open>The characters \<^verbatim>\<open>"+,;<>\=\<close>.\<close>

definition rdn_special :: "byte \<Rightarrow> bool" where
  "rdn_special b \<longleftrightarrow> b \<in> {0x22, 0x2B, 0x2C, 0x3B, 0x3C, 0x3E, 0x5C, 0x3D}"

fun escapeLoop :: "bool \<Rightarrow> bytes \<Rightarrow> bytes" where
  "escapeLoop first [] = []"
| "escapeLoop first (b # rest) =
     (if b < 0x20 \<or> b = 0x7F then [0x5C, hex_digit (drop_bit 4 b), hex_digit (and b 0xF)]
      else if rdn_special b \<or> (first \<and> (b = 0x20 \<or> b = 0x23)) \<or> (rest = [] \<and> b = 0x20) then [0x5C, b]
      else [b]) @ escapeLoop False rest"

definition escapeRDNValue :: "bytes \<Rightarrow> bytes" where
  "escapeRDNValue v = escapeLoop True v"

text \<open>The name of a new entry, and its attributes: \<^verbatim>\<open>"2.5.4.0"\<close> is the object identifier of \<^verbatim>\<open>objectClass\<close>.\<close>

definition entryDN :: "bytes \<Rightarrow> bytes \<Rightarrow> bytes \<Rightarrow> bytes" where
  "entryDN name v baseDN = name @ 0x3D # escapeRDNValue v @ (if baseDN \<noteq> [] then 0x2C # baseDN else [])"

definition objectClassOID :: bytes where
  "objectClassOID = [0x32, 0x2E, 0x35, 0x2E, 0x34, 0x2E, 0x30]"

fun applyAssignments :: "(bytes \<Rightarrow> bytes) \<Rightarrow> (bytes \<Rightarrow> bytes \<Rightarrow> bool) \<Rightarrow> bytes \<Rightarrow> nat \<Rightarrow> assignment list \<Rightarrow> entry \<Rightarrow> failure + entry" where
  "applyAssignments uni efold naming i [] e = Inr e"
| "applyAssignments uni efold naming i (asn # asns) e =
     (case asn of
        Inl err \<Rightarrow> Inl (Wrapped ''ldapmodel: assignment %d: %w'' [AInt (int i)] err)
      | Inr attr \<Rightarrow>
          if at_Type attr = [] then Inl (Text ''ldapmodel: assignment %d has no attribute'' [AInt (int i)])
          else
            let name = fst (strings_Cut (at_Type attr)) in
            if EqualFold efold name objectClass \<or> name = objectClassOID
            then Inl (Text ''ldapmodel: assignment %d: objectClass is defined by the model'' [AInt (int i)])
            else if EqualFold efold name naming
            then Inl (Text ''ldapmodel: assignment %d: naming attribute %q is defined by the model'' [AInt (int i), AStr naming])
            else if at_Values attr = []
            then Inl (Text ''ldapmodel: assignment %d: attribute %q has no values'' [AInt (int i), AStr (at_Type attr)])
            else applyAssignments uni efold naming (i + 1) asns (e\<lparr>en_Attributes := Attributes_Set uni attr (en_Attributes e)\<rparr>))"

definition newModelEntry ::
    "(bytes \<Rightarrow> bytes) \<Rightarrow> (bytes \<Rightarrow> bytes \<Rightarrow> bool) \<Rightarrow> 't model \<Rightarrow> bytes \<Rightarrow> assignment list \<Rightarrow> failure + entry" where
  "newModelEntry uni efold m name asns =
     (let naming = md_rdn m in
      if md_classes m = [] then Inl (Text ''ldapmodel: model has no base object classes'' [])
      else if \<not> rdnAttributeName (ma_name naming) \<or> EqualFold efold (ma_name naming) objectClass
      then Inl (Text ''ldapmodel: model has an invalid naming attribute'' [])
      else case Attribute_encode naming [name] of
          Inl err \<Rightarrow> Inl err
        | Inr initial \<Rightarrow>
            if \<not> utf8_Valid (at_Values initial ! 0) then Inl (Text ''ldapmodel: naming attribute encoded invalid UTF-8'' [])
            else
              let e = Entry_Set uni objectClass (md_classes m) (NewEntry (entryDN (ma_name naming) (at_Values initial ! 0) (md_baseDN m)));
                  e1 = e\<lparr>en_Attributes := Attributes_Set uni initial (en_Attributes e)\<rparr>
              in applyAssignments uni efold (ma_name naming) 0 asns e1)"

definition DAO_Add ::
    "(bytes \<Rightarrow> bytes) \<Rightarrow> (bytes \<Rightarrow> bytes \<Rightarrow> bool) \<Rightarrow> ('x, 's, 't) dao \<Rightarrow> bytes \<Rightarrow> assignment list \<Rightarrow> 'x \<Rightarrow> client_error option \<times> 'x" where
  "DAO_Add uni efold d name asns x =
     (case newModelEntry uni efold (da_model d) name asns of
        Inl err \<Rightarrow> (Some (Failed err), x)
      | Inr e \<Rightarrow> Client_Add (da_client d) (Some e) [] x)"

section \<open>Modify\<close>

type_synonym model_change = "failure + change"

definition encodeChange :: "'t model_attribute \<Rightarrow> (bytes \<Rightarrow> bytes list \<Rightarrow> change) \<Rightarrow> 't list \<Rightarrow> model_change" where
  "encodeChange a operation vals =
     (case ma_Codec a of
        None \<Rightarrow> Inl (no_codec a)
      | Some c \<Rightarrow> (case encodeAll (ma_name a) c 0 vals of Inl err \<Rightarrow> Inl err | Inr encoded \<Rightarrow> Inr (operation (ma_name a) encoded)))"

definition Change_Add :: "'t model_attribute \<Rightarrow> 't list \<Rightarrow> model_change" where "Change_Add a vals = encodeChange a AddValues vals"
definition Change_Delete :: "'t model_attribute \<Rightarrow> 't list \<Rightarrow> model_change" where "Change_Delete a vals = encodeChange a DeleteValues vals"
definition Change_Replace :: "'t model_attribute \<Rightarrow> 't list \<Rightarrow> model_change" where "Change_Replace a vals = encodeChange a Replace vals"

fun wireChanges :: "nat \<Rightarrow> model_change list \<Rightarrow> failure + change list" where
  "wireChanges i [] = Inr []"
| "wireChanges i (c # cs) =
     (case c of
        Inl err \<Rightarrow> Inl (Wrapped ''ldapmodel: change %d: %w'' [AInt (int i)] err)
      | Inr w \<Rightarrow>
          if at_Type (ch_Modification w) = [] then Inl (Text ''ldapmodel: change %d has no attribute'' [AInt (int i)])
          else (case wireChanges (i + 1) cs of Inl err \<Rightarrow> Inl err | Inr ws \<Rightarrow> Inr (w # ws)))"

definition ErrEmptyChanges :: failure where
  "ErrEmptyChanges = Text ''ldapmodel: no changes to modify'' []"

definition DAO_Modify :: "('x, 's, 't) dao \<Rightarrow> bytes \<Rightarrow> model_change list \<Rightarrow> 'x \<Rightarrow> client_error option \<times> 'x" where
  "DAO_Modify d dn changes x =
     (if changes = [] then (Some (Failed ErrEmptyChanges), x)
      else case wireChanges 0 changes of
          Inl err \<Rightarrow> (Some (Failed err), x)
        | Inr wire \<Rightarrow> Client_Modify (da_client d) dn wire x)"

section \<open>Queries\<close>

record ('x, 's, 't) result_set =
  rs_dao :: "('x, 's, 't) dao"
  rs_criteria :: "criterion list"

definition DAO_Where :: "('x, 's, 't) dao \<Rightarrow> criterion \<Rightarrow> criterion list \<Rightarrow> ('x, 's, 't) result_set" where
  "DAO_Where d first rest = \<lparr>rs_dao = d, rs_criteria = first # rest\<rparr>"

definition ResultSet_Where :: "criterion \<Rightarrow> criterion list \<Rightarrow> ('x, 's, 't) result_set \<Rightarrow> ('x, 's, 't) result_set" where
  "ResultSet_Where first rest r = r\<lparr>rs_criteria := rs_criteria r @ first # rest\<rparr>"

fun criteriaFilters :: "criterion list \<Rightarrow> failure + filter list" where
  "criteriaFilters [] = Inr []"
| "criteriaFilters (c # cs) =
     (case c of
        Inl err \<Rightarrow> Inl err
      | Inr f \<Rightarrow> (case criteriaFilters cs of Inl err \<Rightarrow> Inl err | Inr fs \<Rightarrow> Inr (f # fs)))"

record ('s, 't) entry_stream =
  st_entries :: "'s entries"
  st_value :: "'t option"
  st_err :: "failure option"

definition modelSearch :: "'t model \<Rightarrow> filter list \<Rightarrow> int \<Rightarrow> int \<Rightarrow> client_search" where
  "modelSearch m filters sizeLimit pageSize =
     \<lparr>cs_BaseDN = md_baseDN m, cs_Scope = md_scope m, cs_DerefAliases = DerefNever, cs_SizeLimit = sizeLimit, cs_TimeLimit = 0,
      cs_TypesOnly = False, cs_Filter = All_filter (md_filter m # filters), cs_Attributes = md_attributes m, cs_PageSize = pageSize\<rparr>"

definition ResultSet_open ::
    "(bytes \<Rightarrow> bytes) \<Rightarrow> ('x, 's, 't) result_set \<Rightarrow> int \<Rightarrow> int \<Rightarrow> 'x \<Rightarrow> (client_error + ('s, 't) entry_stream) \<times> 'x" where
  "ResultSet_open uni r sizeLimit pageSize x =
     (let d = rs_dao r in
      case criteriaFilters (rs_criteria r) of
        Inl err \<Rightarrow> (Inl (Failed err), x)
      | Inr filters \<Rightarrow>
          (case Client_Search uni (da_client d) (da_ctx d) (modelSearch (da_model d) filters sizeLimit pageSize) [] x of
             (Inl err, x') \<Rightarrow> (Inl err, x')
           | (Inr rows, x') \<Rightarrow> (Inr \<lparr>st_entries = rows, st_value = None, st_err = None\<rparr>, x')))"

text \<open>\<^verbatim>\<open>Next\<close>: whether there is a value.  No result if the rows do not return or panic.\<close>

definition Stream_Next ::
    "(bytes \<Rightarrow> bytes) \<Rightarrow> ('x, 's, 't) dao \<Rightarrow> ('s, 't) entry_stream \<Rightarrow> 'x \<Rightarrow> (bool \<times> ('s, 't) entry_stream \<times> 'x) option" where
  "Stream_Next uni d s x =
     (if st_err s \<noteq> None then Some (False, s, x)
      else case Entries_Next uni (da_client d) (st_entries s) x of
          None \<Rightarrow> None
        | Some (t, r, x') \<Rightarrow>
            let s' = s\<lparr>st_entries := r\<rparr> in
            if t = NextPanics then None
            else if t \<noteq> NextRow then Some (False, s', x')
            else (case md_decode (da_model d) (et_entry r) of
                    Inl err \<Rightarrow> Some (False, s'\<lparr>st_err := Some err\<rparr>, x')
                  | Inr v \<Rightarrow> Some (True, s'\<lparr>st_value := Some v\<rparr>, x')))"

definition Stream_Err :: "('s, 't) entry_stream \<Rightarrow> client_error option" where
  "Stream_Err s = (case st_err s of Some err \<Rightarrow> Some (Failed err) | None \<Rightarrow> et_err (st_entries s))"

definition defaultPageSize :: int where "defaultPageSize = 100"

definition ResultSet_Stream :: "(bytes \<Rightarrow> bytes) \<Rightarrow> ('x, 's, 't) result_set \<Rightarrow> 'x \<Rightarrow> (client_error + ('s, 't) entry_stream) \<times> 'x" where
  "ResultSet_Stream uni r x = ResultSet_open uni r 0 defaultPageSize x"

text \<open>The errors of a query, joined with the error of closing the stream; none is nil.\<close>

datatype query_error = Query client_error | ErrNotUnique

definition closeJoin ::
    "('x, 's, 't) dao \<Rightarrow> 'r \<times> query_error list \<times> ('s, 't) entry_stream \<times> 'x \<Rightarrow> 'r \<times> query_error list \<times> 'x" where
  "closeJoin d res =
     (case res of (v, errs, s, x) \<Rightarrow>
        case Entries_Close (da_client d) (st_entries s) x of
          (err, _, x') \<Rightarrow> (v, errs @ (case err of None \<Rightarrow> [] | Some e \<Rightarrow> [Query (Failed e)]), x'))"

definition stream_errors :: "('s, 't) entry_stream \<Rightarrow> query_error list" where
  "stream_errors s = (case Stream_Err s of None \<Rightarrow> [] | Some err \<Rightarrow> [Query err])"

partial_function (option) allLoop ::
    "(bytes \<Rightarrow> bytes) \<Rightarrow> ('x, 's, 't) dao \<Rightarrow> 't list \<Rightarrow> ('s, 't) entry_stream \<Rightarrow> 'x \<Rightarrow> ('t list \<times> ('s, 't) entry_stream \<times> 'x) option" where
  "allLoop uni d vals s x =
     do {
       (more, s', x') \<leftarrow> Stream_Next uni d s x;
       if more then allLoop uni d (vals @ [the (st_value s')]) s' x' else Some (vals, s', x')
     }"

definition ResultSet_All :: "(bytes \<Rightarrow> bytes) \<Rightarrow> ('x, 's, 't) result_set \<Rightarrow> 'x \<Rightarrow> ('t list \<times> query_error list \<times> 'x) option" where
  "ResultSet_All uni r x =
     (case ResultSet_Stream uni r x of
        (Inl err, x') \<Rightarrow> Some ([], [Query err], x')
      | (Inr s, x') \<Rightarrow> map_option (\<lambda>(vals, s', x''). closeJoin (rs_dao r) (vals, stream_errors s', s', x'')) (allLoop uni (rs_dao r) [] s x'))"

text \<open>The bodies of \<^verbatim>\<open>One\<close> and \<^verbatim>\<open>First\<close> before the deferred call.\<close>

definition notFound :: "('s, 't) entry_stream \<Rightarrow> query_error list" where
  "notFound s = (case Stream_Err s of Some err \<Rightarrow> [Query err] | None \<Rightarrow> [Query ErrNotFound])"

definition oneOnly ::
    "(bytes \<Rightarrow> bytes) \<Rightarrow> ('x, 's, 't) dao \<Rightarrow> ('s, 't) entry_stream \<Rightarrow> 'x \<Rightarrow> ('t option \<times> query_error list \<times> ('s, 't) entry_stream \<times> 'x) option" where
  "oneOnly uni d s x =
     do {
       (found, s1, x1) \<leftarrow> Stream_Next uni d s x;
       if \<not> found then Some (None, notFound s1, s1, x1)
       else do {
         (more, s2, x2) \<leftarrow> Stream_Next uni d s1 x1;
         if more then Some (None, [ErrNotUnique], s2, x2)
         else Some (case Stream_Err s2 of Some err \<Rightarrow> (None, [Query err], s2, x2) | None \<Rightarrow> (st_value s1, [], s2, x2))
       }
     }"

definition ResultSet_One :: "(bytes \<Rightarrow> bytes) \<Rightarrow> ('x, 's, 't) result_set \<Rightarrow> 'x \<Rightarrow> ('t option \<times> query_error list \<times> 'x) option" where
  "ResultSet_One uni r x =
     (case ResultSet_open uni r 2 0 x of
        (Inl err, x') \<Rightarrow> Some (None, [Query err], x')
      | (Inr s, x') \<Rightarrow> map_option (closeJoin (rs_dao r)) (oneOnly uni (rs_dao r) s x'))"

definition firstOnly ::
    "(bytes \<Rightarrow> bytes) \<Rightarrow> ('x, 's, 't) dao \<Rightarrow> ('s, 't) entry_stream \<Rightarrow> 'x \<Rightarrow> ('t option \<times> query_error list \<times> ('s, 't) entry_stream \<times> 'x) option" where
  "firstOnly uni d s x =
     do {
       (found, s1, x1) \<leftarrow> Stream_Next uni d s x;
       Some (if \<not> found then (None, notFound s1, s1, x1) else (st_value s1, [], s1, x1))
     }"

definition ResultSet_First :: "(bytes \<Rightarrow> bytes) \<Rightarrow> ('x, 's, 't) result_set \<Rightarrow> 'x \<Rightarrow> ('t option \<times> query_error list \<times> 'x) option" where
  "ResultSet_First uni r x =
     (case ResultSet_open uni r 1 0 x of
        (Inl err, x') \<Rightarrow> Some (None, [Query err], x')
      | (Inr s, x') \<Rightarrow> map_option (closeJoin (rs_dao r)) (firstOnly uni (rs_dao r) s x'))"

end
