(* ===== verification/Client_Paging.thy ===== *)
theory Client_Paging
  imports Client_Rows
begin

text \<open>
  What makes the client correct: the completeness of a search over pages (against a server that answers one page after the other, the
  rows of a search are the entries of all pages in order), the exact outcome of a compare, and that no response stream is left open.
\<close>

section \<open>A server of pages\<close>

text \<open>The server answers each request with the next list of responses and records the requests it got.\<close>

record script =
  sv_current :: "response list"
  sv_pages :: "response list list"
  sv_log :: "untyped_operation list"

definition script_server :: "(script, unit) executor_api" where
  "script_server =
     \<lparr>ex_Do = (\<lambda>op x. case sv_pages x of
          [] \<Rightarrow> (Inl (Sentinel ErrClosed), x)
        | page # rest \<Rightarrow> (Inr (), x\<lparr>sv_current := page, sv_pages := rest, sv_log := sv_log x @ [op]\<rparr>)),
      ex_Next = (\<lambda>s x. case sv_current x of
          [] \<Rightarrow> (Inl (Sentinel IO_EOF), x)
        | r # rs \<Rightarrow> (Inr r, x\<lparr>sv_current := rs\<rparr>)),
      ex_Close = (\<lambda>s x. (None, x\<lparr>sv_current := []\<rparr>))\<rparr>"

text \<open>A page: its entries and references as messages and decoded, the message that ends it with its controls, and the cookie in them.\<close>

record page =
  pg_body :: "(response \<times> search_result_value) list"
  pg_done :: response
  pg_result :: ldap_result
  pg_controls :: "control list"
  pg_cookie :: bytes

definition page_responses :: "page \<Rightarrow> response list" where
  "page_responses p = map fst (pg_body p) @ [pg_done p]"

fun row_of :: "search_result_value \<Rightarrow> entry list" where
  "row_of (Search_Entry e) = [entryFromSearchResult e]"
| "row_of v = []"

fun uris_of :: "search_result_value \<Rightarrow> bytes list" where
  "uris_of (Search_Reference ref) = sr_URIs ref"
| "uris_of v = []"

definition page_rows :: "page \<Rightarrow> entry list" where
  "page_rows p = concat (map (\<lambda>(r, v). row_of v) (pg_body p))"

definition page_referrals :: "page \<Rightarrow> bytes list" where
  "page_referrals p = concat (map (\<lambda>(r, v). uris_of v) (pg_body p))"

fun is_row :: "search_result_value \<Rightarrow> bool" where
  "is_row (Search_Done d) = False"
| "is_row v = True"

definition item_ok :: "(bytes \<Rightarrow> bytes) \<Rightarrow> response \<times> search_result_value \<Rightarrow> bool" where
  "item_ok uni i \<longleftrightarrow> is_row (snd i) \<and> ResponsePattern_Decode (searchResponsePattern uni) (fst i) DefaultLimits = Inr (Some (snd i))
     \<and> (case decodeControls (re_Controls (fst i)) DefaultLimits of Inl _ \<Rightarrow> False | Inr _ \<Rightarrow> True)"

definition page_ok :: "(bytes \<Rightarrow> bytes) \<Rightarrow> page \<Rightarrow> bool" where
  "page_ok uni p \<longleftrightarrow> list_all (item_ok uni) (pg_body p)
     \<and> ResponsePattern_Decode (searchResponsePattern uni) (pg_done p) DefaultLimits = Inr (Some (Search_Done (SearchResultDone (pg_result p))))
     \<and> lr_ResultCode (pg_result p) = ResultSuccess \<and> decodeControls (re_Controls (pg_done p)) DefaultLimits = Inr (pg_controls p)
     \<and> pagedResultsCookie (pg_controls p) DefaultLimits = Inr (pg_cookie p)"

text \<open>The loop of a caller over the rows, to its end.\<close>

inductive yields :: "(bytes \<Rightarrow> bytes) \<Rightarrow> ('x, 's) client \<Rightarrow> 's entries \<Rightarrow> 'x \<Rightarrow> entry list \<Rightarrow> 's entries \<Rightarrow> 'x \<Rightarrow> bool" for uni cl where
  yields_stop: "Entries_Next uni cl r x = Some (NextStop, r', x') \<Longrightarrow> yields uni cl r x [] r' x'"
| yields_row: "Entries_Next uni cl r x = Some (NextRow, r1, x1) \<Longrightarrow> yields uni cl r1 x1 es r' x' \<Longrightarrow> yields uni cl r x (et_entry r1 # es) r' x'"

section \<open>Turns against the server\<close>

abbreviation paging :: "(script, unit) client" where
  "paging \<equiv> NewClient script_server"

definition search_stream :: "(bytes \<Rightarrow> bytes) \<Rightarrow> (search_result, unit) decoded_stream" where
  "search_stream uni = \<lparr>ds_stream = (), ds_responses = searchResponsePattern uni, ds_limits = DefaultLimits, ds_closed = False\<rparr>"

definition at_page :: "(bytes \<Rightarrow> bytes) \<Rightarrow> unit entries \<Rightarrow> bool" where
  "at_page uni r \<longleftrightarrow> et_stream r = Some (search_stream uni) \<and> \<not> et_done r \<and> et_err r = None"

lemma server_Next:
  assumes "ResponsePattern_Decode (searchResponsePattern uni) m DefaultLimits = Inr v" "decodeControls (re_Controls m) DefaultLimits = Inr cs"
    "sv_current x = m # ms"
  shows "DecodedStream_Next paging (search_stream uni) x = (Inr (v, cs), x\<lparr>sv_current := ms\<rparr>)"
  using assms by (simp add: DecodedStream_Next_def search_stream_def NewClient_def script_server_def)

lemma server_end: "sv_current x = [] \<Longrightarrow> requireEnd paging (search_stream uni) msg x = (None, x)"
  by (simp add: requireEnd_def DecodedStream_Next_def search_stream_def NewClient_def script_server_def)

lemma yields_again:
  assumes "entriesTurn uni cl r x = (NextAgain, r1, x1)" "\<not> et_done r" "et_err r = None" "\<not> et_done r1" "et_err r1 = None"
    "yields uni cl r1 x1 es r' x'"
  shows "yields uni cl r x es r' x'"
proof -
  have eq: "Entries_Next uni cl r x = Entries_Next uni cl r1 x1"
    using assms(1-5) by (simp add: Entries_Next_def entriesLoop.simps [of uni cl r x])
  from assms(6) show ?thesis
  proof (cases rule: yields.cases)
    case yields_stop
    then show ?thesis using eq by (auto intro: yields.yields_stop)
  next
    case (yields_row r2 x2 es2)
    then show ?thesis using eq by (auto intro: yields.yields_row)
  qed
qed

text \<open>The rows after a part of a page: what they go on to yield the original rows yield, after the entries of that part.\<close>

definition follows :: "(bytes \<Rightarrow> bytes) \<Rightarrow> unit entries \<Rightarrow> script \<Rightarrow> entry list \<Rightarrow> bytes list \<Rightarrow> unit entries \<Rightarrow> script \<Rightarrow> bool" where
  "follows uni r x rows uris r1 x1 \<longleftrightarrow> at_page uni r1 \<and> et_request r1 = et_request r \<and> et_options r1 = et_options r
     \<and> et_referrals r1 = et_referrals r @ uris \<and> (\<forall>es r' x'. yields uni paging r1 x1 es r' x' \<longrightarrow> yields uni paging r x (rows @ es) r' x')"

lemma follows_item:
  assumes "at_page uni r" "item_ok uni (m, v)" "sv_current x = m # ms"
  shows "\<exists>r1. follows uni r x (row_of v) (uris_of v) r1 (x\<lparr>sv_current := ms\<rparr>)"
proof -
  obtain cs where cs: "decodeControls (re_Controls m) DefaultLimits = Inr cs" using assms(2) by (auto simp: item_ok_def split: sum.splits)
  have n: "DecodedStream_Next paging (search_stream uni) x = (Inr (Some v, cs), x\<lparr>sv_current := ms\<rparr>)"
    using server_Next [OF _ cs assms(3)] assms(2) by (simp add: item_ok_def)
  have live: "et_stream r = Some (search_stream uni)" "\<not> et_done r" "et_err r = None" using assms(1) by (simp_all add: at_page_def)
  show ?thesis
  proof (cases v)
    case (Search_Entry e)
    let ?r = "r\<lparr>et_entry := entryFromSearchResult e\<rparr>"
    have "Entries_Next uni paging r x = Some (NextRow, ?r, x\<lparr>sv_current := ms\<rparr>)"
      using live n Search_Entry by (simp add: Entries_Next_def entriesLoop.simps entriesTurn_def)
    from yields_row [OF this] show ?thesis using Search_Entry assms(1) by (intro exI [of _ ?r]) (simp add: follows_def at_page_def)
  next
    case (Search_Reference ref)
    let ?r = "r\<lparr>et_referrals := et_referrals r @ sr_URIs ref\<rparr>"
    have "entriesTurn uni paging r x = (NextAgain, ?r, x\<lparr>sv_current := ms\<rparr>)"
      using live n Search_Reference by (simp add: entriesTurn_def)
    from yields_again [OF this live(2,3)] show ?thesis using Search_Reference assms(1) live
      by (intro exI [of _ ?r]) (simp add: follows_def at_page_def)
  next
    case (Search_Done d)
    then show ?thesis using assms(2) by (simp add: item_ok_def)
  qed
qed

lemma follows_trans:
  assumes "follows uni r x rows uris r1 x1" "follows uni r1 x1 rows' uris' r2 x2"
  shows "follows uni r x (rows @ rows') (uris @ uris') r2 x2"
  using assms by (simp add: follows_def)

lemma follows_body:
  assumes "list_all (item_ok uni) body" "at_page uni r" "sv_current x = map fst body @ ms"
  shows "\<exists>r1. follows uni r x (concat (map (\<lambda>(m, v). row_of v) body)) (concat (map (\<lambda>(m, v). uris_of v) body)) r1 (x\<lparr>sv_current := ms\<rparr>)"
  using assms
proof (induction body arbitrary: r x)
  case Nil
  have "x\<lparr>sv_current := ms\<rparr> = x" using Nil(3) by simp
  then show ?case using Nil(2) by (intro exI [of _ r]) (simp add: follows_def)
next
  case (Cons i body)
  obtain m v where i: "i = (m, v)" by (cases i)
  obtain r1 where r1: "follows uni r x (row_of v) (uris_of v) r1 (x\<lparr>sv_current := map fst body @ ms\<rparr>)"
    using follows_item [OF Cons.prems(2), of m v x "map fst body @ ms"] Cons.prems(1,3) i by auto
  moreover obtain r2 where "follows uni r1 (x\<lparr>sv_current := map fst body @ ms\<rparr>) (concat (map (\<lambda>(m, v). row_of v) body))
      (concat (map (\<lambda>(m, v). uris_of v) body)) r2 (x\<lparr>sv_current := ms\<rparr>)"
    using Cons.IH [of r1 "x\<lparr>sv_current := map fst body @ ms\<rparr>"] Cons.prems(1) r1 by (auto simp: follows_def)
  ultimately show ?case using follows_trans i by fastforce
qed

section \<open>Pages\<close>

definition pageRequest :: "(bytes \<Rightarrow> bytes) \<Rightarrow> client_search \<Rightarrow> packet option list \<Rightarrow> bytes \<Rightarrow> untyped_operation" where
  "pageRequest uni request options cookie = Operation_Untyped (projr (pageOperation uni request options cookie))"

lemma pageOperation_valid:
  assumes "None \<notin> set options"
  obtains op where "pageOperation uni request options cookie = Inr op" "op_Responses op = searchResponsePattern uni"
proof -
  define controls where "controls = (if cs_PageSize request > 0
    then options @ [Some (Control_BERPacket (newPagedResultsControl (cs_PageSize request) cookie))] else options)"
  have "None \<notin> set controls" using assms by (simp add: controls_def)
  then have "pageOperation uni request options cookie
    = Inr \<lparr>op_Protocol = Some \<lparr>po_packet = SearchRequest_BERPacket (protocolRequest request), po_identifier = searchRequestIdentifier\<rparr>,
           op_Controls = controls, op_Responses = searchResponsePattern uni, op_Cancellation = CancelAbandon, op_Label = ''ldap.search''\<rparr>"
    unfolding pageOperation_def NewSearchOperation_def option.map searchResponsePattern_def controls_def [symmetric]
    by (intro newOperation_accepts search_spec_ok) (simp_all add: search_tags tag_defs cancel_defs)
  then show ?thesis using that by simp
qed

lemma server_startPage:
  assumes "et_stream r = None" "None \<notin> set (et_options r)" "sv_pages x = page # rest"
  shows "startPage uni paging cookie r x = (None, r\<lparr>et_stream := Some (search_stream uni)\<rparr>,
    x\<lparr>sv_current := page, sv_pages := rest, sv_log := sv_log x @ [pageRequest uni (et_request r) (et_options r) cookie]\<rparr>)"
proof -
  obtain op where op: "pageOperation uni (et_request r) (et_options r) cookie = Inr op" "op_Responses op = searchResponsePattern uni"
    using pageOperation_valid [OF assms(2)] by blast
  then show ?thesis using assms
    by (simp add: startPage_def ExecuteStream_def NewClient_def script_server_def search_stream_def pageRequest_def)
qed

text \<open>What the loop does when a page ends: it stops or starts the next one.\<close>

lemma page_end:
  assumes "page_ok uni p" "at_page uni r" "sv_current x = [pg_done p]" "0 < cs_PageSize (et_request r)"
  defines "r1 \<equiv> r\<lparr>et_controls := pg_controls p, et_stream := None\<rparr>"
  shows "entriesTurn uni paging r x = nextPage uni paging (pg_controls p) r1 (x\<lparr>sv_current := []\<rparr>)"
proof -
  have n: "DecodedStream_Next paging (search_stream uni) x = (Inr (Some (Search_Done (SearchResultDone (pg_result p))), pg_controls p), x\<lparr>sv_current := []\<rparr>)"
    using server_Next [of uni "pg_done p" _ _ x "[]"] assms(1,3) by (simp add: page_ok_def)
  have c: "closeStream paging (r\<lparr>et_controls := pg_controls p\<rparr>) (x\<lparr>sv_current := []\<rparr>) = (None, r1, x\<lparr>sv_current := []\<rparr>)"
    using assms(2)
    by (simp add: closeStream_def at_page_def DecodedStream_Close_def search_stream_def NewClient_def script_server_def r1_def)
  show ?thesis
    using assms(1,2) n c server_end [of "x\<lparr>sv_current := []\<rparr>" uni]
    by (simp add: entriesTurn_def at_page_def searchDone_def page_ok_def requireSuccess_def Let_def)
qed

lemma follows_page:
  assumes "page_ok uni p" "at_page uni r" "sv_current x = page_responses p"
  shows "\<exists>r1. follows uni r x (page_rows p) (page_referrals p) r1 (x\<lparr>sv_current := [pg_done p]\<rparr>)"
  using follows_body [of uni "pg_body p" r x "[pg_done p]"] assms by (simp add: page_ok_def page_responses_def page_rows_def page_referrals_def)

lemma yields_pages:
  assumes "list_all (page_ok uni) (p # ps)" "at_page uni r" "None \<notin> set (et_options r)" "0 < cs_PageSize (et_request r)"
    "sv_current x = page_responses p" "sv_pages x = map page_responses ps @ rest"
    "\<forall>q \<in> set (butlast (p # ps)). pg_cookie q \<noteq> []" "pg_cookie (last (p # ps)) = []"
  shows "\<exists>r' x'. yields uni paging r x (concat (map page_rows (p # ps))) r' x' \<and> et_done r' \<and> et_err r' = None
    \<and> et_referrals r' = et_referrals r @ concat (map page_referrals (p # ps)) \<and> sv_pages x' = rest
    \<and> sv_log x' = sv_log x @ map (pageRequest uni (et_request r) (et_options r)) (map pg_cookie (butlast (p # ps)))"
  using assms
proof (induction ps arbitrary: p r x)
  case Nil
  have ok: "page_ok uni p" using Nil(1) by simp
  obtain r1 where r1: "follows uni r x (page_rows p) (page_referrals p) r1 (x\<lparr>sv_current := [pg_done p]\<rparr>)"
    using follows_page [OF ok Nil(2,5)] by blast
  let ?r = "r1\<lparr>et_controls := pg_controls p, et_stream := None, et_done := True\<rparr>" and ?x = "x\<lparr>sv_current := []\<rparr>"
  have "entriesTurn uni paging r1 (x\<lparr>sv_current := [pg_done p]\<rparr>) = (NextStop, ?r, ?x)"
    using page_end [OF ok, of r1 "x\<lparr>sv_current := [pg_done p]\<rparr>"] Nil(4,8) r1 ok
    by (simp add: nextPage_def page_ok_def NewClient_def follows_def)
  then have "Entries_Next uni paging r1 (x\<lparr>sv_current := [pg_done p]\<rparr>) = Some (NextStop, ?r, ?x)"
    using r1 by (simp add: Entries_Next_def follows_def at_page_def entriesLoop.simps [of uni paging r1])
  from yields_stop [OF this] have "yields uni paging r x (page_rows p @ []) ?r ?x" using r1 by (simp add: follows_def del: append_Nil2)
  then show ?case using r1 Nil(6) by (intro exI [of _ ?r] exI [of _ ?x]) (simp add: follows_def at_page_def)
next
  case (Cons q qs)
  have ok: "page_ok uni p" "pg_cookie p \<noteq> []" using Cons.prems(1,7) by auto
  obtain r1 where r1: "follows uni r x (page_rows p) (page_referrals p) r1 (x\<lparr>sv_current := [pg_done p]\<rparr>)"
    using follows_page [OF ok(1) Cons.prems(2,5)] by blast
  let ?r = "r1\<lparr>et_controls := pg_controls p, et_stream := Some (search_stream uni)\<rparr>"
    and ?x = "x\<lparr>sv_current := page_responses q, sv_pages := map page_responses qs @ rest,
      sv_log := sv_log x @ [pageRequest uni (et_request r) (et_options r) (pg_cookie p)]\<rparr>"
  have "startPage uni paging (pg_cookie p) (r1\<lparr>et_controls := pg_controls p, et_stream := None\<rparr>) (x\<lparr>sv_current := []\<rparr>) = (None, ?r, ?x)"
    using server_startPage [of "r1\<lparr>et_controls := pg_controls p, et_stream := None\<rparr>" "x\<lparr>sv_current := []\<rparr>"] Cons.prems(3,6) r1
    by (simp add: follows_def)
  then have turn: "entriesTurn uni paging r1 (x\<lparr>sv_current := [pg_done p]\<rparr>) = (NextAgain, ?r, ?x)"
    using page_end [OF ok(1), of r1 "x\<lparr>sv_current := [pg_done p]\<rparr>"] Cons.prems(4) r1 ok
    by (simp add: nextPage_def page_ok_def NewClient_def follows_def)
  obtain r' x' where IH: "yields uni paging ?r ?x (concat (map page_rows (q # qs))) r' x'" "et_done r'" "et_err r' = None"
    "et_referrals r' = et_referrals ?r @ concat (map page_referrals (q # qs))" "sv_pages x' = rest"
    "sv_log x' = sv_log ?x @ map (pageRequest uni (et_request ?r) (et_options ?r)) (map pg_cookie (butlast (q # qs)))"
    using Cons.IH [of q ?r ?x] Cons.prems r1 by (auto simp: follows_def at_page_def)
  have "yields uni paging r1 (x\<lparr>sv_current := [pg_done p]\<rparr>) (concat (map page_rows (q # qs))) r' x'"
    using yields_again [OF turn _ _ _ _ IH(1)] r1 by (simp add: follows_def at_page_def)
  then have "yields uni paging r x (concat (map page_rows (p # q # qs))) r' x'" using r1 by (simp add: follows_def)
  then show ?case using IH r1 by (intro exI [of _ r'] exI [of _ x']) (simp add: follows_def)
qed

lemma paged_search:
  assumes "list_all (page_ok uni) pages" "pages \<noteq> []" "0 < cs_PageSize request"
    "\<forall>p \<in> set (butlast pages). pg_cookie p \<noteq> []" "pg_cookie (last pages) = []"
  shows "\<exists>rows x0 r' x'.
      Client_Search uni (NewClient script_server) True request options
        \<lparr>sv_current = [], sv_pages = map page_responses pages @ rest, sv_log = []\<rparr> = (Inr rows, x0)
    \<and> yields uni (NewClient script_server) rows x0 (concat (map page_rows pages)) r' x'
    \<and> et_done r' \<and> et_err r' = None \<and> et_referrals r' = concat (map page_referrals pages) \<and> sv_pages x' = rest
    \<and> sv_log x' = map (pageRequest uni request (requestControls options)) ([] # map pg_cookie (butlast pages))"
proof -
  obtain p ps where ps: "pages = p # ps" using assms(2) by (cases pages) auto
  define r0 where "r0 = \<lparr>et_request = request, et_options = requestControls options, et_stream = None :: (search_result, unit) decoded_stream option,
    et_entry = \<lparr>en_DN = [], en_Attributes = None\<rparr>, et_err = None, et_done = False, et_closed = False, et_controls = [], et_referrals = []\<rparr>"
  define x where "x = \<lparr>sv_current = [], sv_pages = map page_responses pages @ rest, sv_log = []\<rparr>"
  let ?r = "r0\<lparr>et_stream := Some (search_stream uni)\<rparr>"
    and ?x = "x\<lparr>sv_current := page_responses p, sv_pages := map page_responses ps @ rest, sv_log := [pageRequest uni request (requestControls options) []]\<rparr>"
  have opts: "None \<notin> set (requestControls options)" by (auto simp: requestControls_def)
  have "startPage uni paging [] r0 x = (None, ?r, ?x)"
    using server_startPage [of r0 x "page_responses p" "map page_responses ps @ rest" uni "[]"] opts by (simp add: r0_def x_def ps)
  then have "Client_Search uni paging True request options x = (Inr ?r, ?x)"
    by (simp add: Client_Search_def Let_def flip: r0_def)
  moreover have "\<exists>r' x'. yields uni paging ?r ?x (concat (map page_rows (p # ps))) r' x' \<and> et_done r' \<and> et_err r' = None
    \<and> et_referrals r' = et_referrals ?r @ concat (map page_referrals (p # ps)) \<and> sv_pages x' = rest
    \<and> sv_log x' = sv_log ?x @ map (pageRequest uni (et_request ?r) (et_options ?r)) (map pg_cookie (butlast (p # ps)))"
    by (rule yields_pages) (use assms ps opts in \<open>auto simp: r0_def at_page_def\<close>)
  ultimately show ?thesis unfolding ps x_def by (fastforce simp: r0_def)
qed

section \<open>Properties\<close>

text \<open>(C5) A search over pages is complete: if the server answers with pages of which all but the last carry a cookie, reading the rows to the
  end gives the entries of all pages in order and ends without an error; the referrals are those of all pages; and the requests
  sent are the search with an empty cookie and then with the cookie of each page but the last, one for each page.\<close>

theorem paged_search_complete:
  assumes "list_all (page_ok uni) pages" "pages \<noteq> []" "0 < cs_PageSize request"
    "\<forall>p \<in> set (butlast pages). pg_cookie p \<noteq> []" "pg_cookie (last pages) = []"
  shows "\<exists>rows x0 r' x'.
      Client_Search uni (NewClient script_server) True request options
        \<lparr>sv_current = [], sv_pages = map page_responses pages @ rest, sv_log = []\<rparr> = (Inr rows, x0)
    \<and> yields uni (NewClient script_server) rows x0 (concat (map page_rows pages)) r' x'
    \<and> et_done r' \<and> et_err r' = None \<and> et_referrals r' = concat (map page_referrals pages) \<and> sv_pages x' = rest
    \<and> sv_log x' = map (pageRequest uni request (requestControls options)) ([] # map pg_cookie (butlast pages))"
  using assms by (rule paged_search)

text \<open>Two pages of one entry each.\<close>

definition sample_message :: "packet \<Rightarrow> ident \<Rightarrow> control list \<Rightarrow> response" where
  "sample_message p tag cs =
     \<lparr>re_MessageID = 1, re_ProtocolID = tag, re_Bytes = [], re_Protocol = Encode p,
      re_Controls = map (\<lambda>c. \<lparr>el_Identifier = SequenceIdentifier, el_Value = [], el_Raw = Encode (Control_BERPacket c), el_Offset = 0\<rparr>) cs,
      re_Extensions = []\<rparr>"

definition sample_row_message :: "byte \<Rightarrow> response" where
  "sample_row_message b =
     sample_message (SearchResultEntry_BERPacket \<lparr>se_ObjectName = [b], se_Attributes = NewAttributes id [], se_Extensions = []\<rparr>) searchEntryIdentifier []"

definition sample_row :: "byte \<Rightarrow> search_entry" where
  "sample_row b =
     (case ResponsePattern_Decode (searchResponsePattern id) (sample_row_message b) DefaultLimits of
        Inr (Some (Search_Entry e)) \<Rightarrow> e
      | _ \<Rightarrow> \<lparr>se_ObjectName = [], se_Attributes = None, se_Extensions = []\<rparr>)"

lemma sample_row_decodes:
  assumes "case ResponsePattern_Decode (searchResponsePattern id) (sample_row_message b) DefaultLimits of Inr (Some (Search_Entry e)) \<Rightarrow> True | _ \<Rightarrow> False"
  shows "item_ok id (sample_row_message b, Search_Entry (sample_row b))"
  using assms by (auto simp: item_ok_def sample_row_def sample_row_message_def sample_message_def split: sum.splits option.splits search_result_value.splits)

definition sample_result :: "int \<Rightarrow> ldap_result" where
  "sample_result code = zero_result\<lparr>lr_ResultCode := code\<rparr>"

definition sample_page :: "byte \<Rightarrow> bytes \<Rightarrow> page" where
  "sample_page b cookie =
     \<lparr>pg_body = [(sample_row_message b, Search_Entry (sample_row b))],
      pg_done = sample_message (SearchResultDone_BERPacket (SearchResultDone (sample_result 0))) searchDoneIdentifier [newPagedResultsControl 0 cookie],
      pg_result = sample_result 0, pg_controls = [newPagedResultsControl 0 cookie], pg_cookie = cookie\<rparr>"

definition sample_query :: client_search where
  "sample_query =
     \<lparr>cs_BaseDN = [], cs_Scope = 2, cs_DerefAliases = 0, cs_SizeLimit = 0, cs_TimeLimit = 0, cs_TypesOnly = False, cs_Filter = Present [0x63],
      cs_Attributes = NewAttributeSelectors [], cs_PageSize = 1\<rparr>"

lemma sample_pages_ok: "page_ok id (sample_page 0x61 [7])" "page_ok id (sample_page 0x62 [])"
proof -
  have rows: "item_ok id (sample_row_message 0x61, Search_Entry (sample_row 0x61))" "item_ok id (sample_row_message 0x62, Search_Entry (sample_row 0x62))"
    by (rule sample_row_decodes; code_simp)+
  have d: "(case ResponsePattern_Decode (searchResponsePattern id) (pg_done (sample_page 0x61 c)) DefaultLimits of
      Inr (Some (Search_Done e)) \<Rightarrow> e = SearchResultDone (sample_result 0) | _ \<Rightarrow> False)
    \<and> decodeControls (re_Controls (pg_done (sample_page 0x61 c))) DefaultLimits = Inr [newPagedResultsControl 0 c]
    \<and> pagedResultsCookie [newPagedResultsControl 0 c] DefaultLimits = Inr c" if "c = [] \<or> c = [7]" for c
    using that by (elim disjE; simp only:; code_simp)
  have pages: "page_ok id (sample_page b c)" if "c = [] \<or> c = [7]" "item_ok id (sample_row_message b, Search_Entry (sample_row b))" for b c
    using d [OF that(1)] that(2)
    by (auto simp: page_ok_def sample_page_def sample_result_def ResultSuccess_def split: sum.splits option.splits search_result_value.splits)
  show "page_ok id (sample_page 0x61 [7])" "page_ok id (sample_page 0x62 [])" using pages rows by simp_all
qed

lemma sample_page_rows: "page_rows (sample_page b c) = [entryFromSearchResult (sample_row b)]" "pg_cookie (sample_page b c) = c"
  by (simp_all add: page_rows_def sample_page_def)

theorem paged_search_complete_witness:
  "\<exists>rows x0 r' x'.
     Client_Search id (NewClient script_server) True sample_query []
       \<lparr>sv_current = [], sv_pages = map page_responses [sample_page 0x61 [7], sample_page 0x62 []], sv_log = []\<rparr> = (Inr rows, x0)
   \<and> yields id (NewClient script_server) rows x0 [entryFromSearchResult (sample_row 0x61), entryFromSearchResult (sample_row 0x62)] r' x'
   \<and> et_done r' \<and> et_err r' = None \<and> length (sv_log x') = 2"
proof -
  note sample_pages_ok sample_page_rows
  moreover have "0 < cs_PageSize sample_query" by (simp add: sample_query_def)
  ultimately show ?thesis
    using paged_search_complete [of id "[sample_page 0x61 [7], sample_page 0x62 []]" sample_query "[]" "[]"] by fastforce
qed

section \<open>Compare\<close>

text \<open>The operation the executor is given, and the stream over its responses.\<close>

definition compare_operation :: "bytes \<Rightarrow> bytes \<Rightarrow> bytes \<Rightarrow> control option list \<Rightarrow> compare_response operation" where
  "compare_operation dn attr v options =
     \<lparr>op_Protocol = Some \<lparr>po_packet = CompareRequest_BERPacket
          \<lparr>cm_Entry = dn, cm_Assertion = \<lparr>av_Type = attr, av_Value = v, av_Extensions = []\<rparr>, cm_Extensions = []\<rparr>,
                         po_identifier = compareRequestIdentifier\<rparr>,
      op_Controls = requestControls options, op_Responses = compareResponsePattern, op_Cancellation = CancelDrain,
      op_Label = ''ldap.compare''\<rparr>"

definition compare_stream :: "('x, 's) client \<Rightarrow> 's \<Rightarrow> (compare_response, 's) decoded_stream" where
  "compare_stream cl s = \<lparr>ds_stream = s, ds_responses = compareResponsePattern, ds_limits = cl_limits cl, ds_closed = False\<rparr>"

lemma compare_spec_ok: "spec_ok \<lparr>rs_Continue = [], rs_Complete = [compareResponseIdentifier], rs_NoResponse = False\<rparr>"
  by (simp add: spec_ok_def tag_defs)

lemma compare_made:
  "NewCompareOperation
     (Some \<lparr>cm_Entry = dn, cm_Assertion = \<lparr>av_Type = attr, av_Value = v, av_Extensions = []\<rparr>, cm_Extensions = []\<rparr>) (requestControls options)
   = Inr (compare_operation dn attr v options)"
proof -
  have opts: "None \<notin> set (requestControls options)" by (auto simp: requestControls_def)
  show ?thesis
    unfolding NewCompareOperation_def option.map compareResponsePattern_def compare_operation_def
    by (intro newOperation_accepts compare_spec_ok) (simp_all add: update_tags tag_defs cancel_defs opts)
qed

lemma compare_decodes:
  assumes "response_ok res" "packet_ok (CompareResponse_BERPacket (CompareResponse res))"
    and "admits lim (Encode (CompareResponse_BERPacket (CompareResponse res)))"
    and "re_Protocol m = Encode (CompareResponse_BERPacket (CompareResponse res))" "re_ProtocolID m = compareResponseIdentifier"
  shows "ResponsePattern_Decode compareResponsePattern m lim = Inr (CompareResponse res)"
  using ldap_compare_response.pattern_roundtrip
      [OF conjunct2 [OF mustResponsePattern_ok [OF compare_spec_ok]], of "CompareResponse res" lim m] assms
  by (simp add: compareResponsePattern_def)

lemma requireEnd_iff:
  "requireEnd cl d msg x = (None, x') \<longleftrightarrow> (\<exists>err. DecodedStream_Next cl d x = (Inl err, x') \<and> client_Is err IO_EOF)"
  by (auto simp: requireEnd_def split: prod.splits sum.splits)

lemma singleResponse_iff:
  "singleResponse cl LDAPResult label accepted d x = (SingleAccepted v cs, x') \<longleftrightarrow>
     (\<exists>x1. DecodedStream_Next cl d x = (Inr (v, cs), x1) \<and> lr_ResultCode (LDAPResult v) \<in> set accepted
        \<and> (\<exists>err. DecodedStream_Next cl d x1 = (Inl err, x') \<and> client_Is err IO_EOF))"
  unfolding requireEnd_iff [symmetric, where msg = "''arden: single-response operation returned more than one response''"]
  by (auto simp: singleResponse_def split: prod.splits sum.splits option.splits)

lemma ExecuteSingle_iff:
  "ExecuteSingle cl LDAPResult op codes x = (SingleAccepted v cs, x') \<longleftrightarrow>
     (\<exists>s x1 x2. ex_Do (cl_executor cl) (Operation_Untyped op) x = (Inr s, x1)
        \<and> singleResponse cl LDAPResult (op_Label op) (acceptedCodes codes)
            \<lparr>ds_stream = s, ds_responses = op_Responses op, ds_limits = cl_limits cl, ds_closed = False\<rparr> x1 = (SingleAccepted v cs, x2)
        \<and> x' = snd (ex_Close (cl_executor cl) s x2))"
  by (auto simp: ExecuteSingle_def ExecuteStream_def DecodedStream_Close_def Let_def split: prod.splits sum.splits)

lemma Client_compare_iff:
  "Client_compare cl dn attr v options x = (Inr b, x') \<longleftrightarrow>
     (\<exists>r cs. ExecuteSingle cl compare_Result (compare_operation dn attr v options) [Some [ResultCompareFalse, ResultCompareTrue]] x
          = (SingleAccepted r cs, x')
        \<and> (b \<and> lr_ResultCode (compare_Result r) = ResultCompareTrue \<or> \<not> b \<and> lr_ResultCode (compare_Result r) = ResultCompareFalse))"
  by (auto simp: Client_compare_def compare_made ResultCompareFalse_def ResultCompareTrue_def
      split: prod.splits single_result.splits if_split_asm)

lemma DecodedStream_Next_iff:
  "DecodedStream_Next cl (compare_stream cl s) x1 = (Inr (r, cs), x2) \<longleftrightarrow>
     (\<exists>m. ex_Next (cl_executor cl) s x1 = (Inr m, x2)
        \<and> ResponsePattern_Decode compareResponsePattern m (cl_limits cl) = Inr r \<and> decodeControls (re_Controls m) (cl_limits cl) = Inr cs)"
  by (auto simp: DecodedStream_Next_def compare_stream_def split: prod.splits sum.splits)

lemma compare_exact:
  "Client_compare cl dn attr v options x = (Inr b, x') \<longleftrightarrow>
     (\<exists>s x1 m x2 res cs err x3.
        ex_Do (cl_executor cl) (Operation_Untyped (compare_operation dn attr v options)) x = (Inr s, x1)
        \<and> ex_Next (cl_executor cl) s x1 = (Inr m, x2)
        \<and> ResponsePattern_Decode compareResponsePattern m (cl_limits cl) = Inr (CompareResponse res)
        \<and> decodeControls (re_Controls m) (cl_limits cl) = Inr cs
        \<and> DecodedStream_Next cl (compare_stream cl s) x2 = (Inl err, x3) \<and> client_Is err IO_EOF
        \<and> (b \<and> lr_ResultCode res = ResultCompareTrue \<or> \<not> b \<and> lr_ResultCode res = ResultCompareFalse)
        \<and> x' = snd (ex_Close (cl_executor cl) s x3))"
  (is "?l \<longleftrightarrow> ?r")
proof -
  have c: "set (acceptedCodes [Some [ResultCompareFalse, ResultCompareTrue]]) = {ResultCompareFalse, ResultCompareTrue}"
    by (simp add: acceptedCodes_def)
  have o: "op_Responses (compare_operation dn attr v options) = compareResponsePattern" by (simp add: compare_operation_def)
  have r: "(\<exists>r. P r) \<longleftrightarrow> (\<exists>res. P (CompareResponse res))" for P by (metis compare_response.exhaust)
  show ?thesis
    unfolding Client_compare_iff ExecuteSingle_iff singleResponse_iff c o compare_stream_def [symmetric] DecodedStream_Next_iff
      r compare_response.sel by blast
qed

lemma compare_rejected:
  assumes "ex_Do (cl_executor cl) (Operation_Untyped (compare_operation dn attr v options)) x = (Inr s, x1)
      \<and> ex_Next (cl_executor cl) s x1 = (Inr m, x2)
      \<and> ResponsePattern_Decode compareResponsePattern m (cl_limits cl) = Inr (CompareResponse res)
      \<and> decodeControls (re_Controls m) (cl_limits cl) = Inr cs
      \<and> DecodedStream_Next cl (compare_stream cl s) x2 = (Inl err, x3) \<and> client_Is err IO_EOF
      \<and> lr_ResultCode res \<notin> {ResultCompareFalse, ResultCompareTrue}"
  shows "Client_compare cl dn attr v options x = (Inl (Result_Error ''compare'' res cs), snd (ex_Close (cl_executor cl) s x3))"
proof -
  have "DecodedStream_Next cl (compare_stream cl s) x1 = (Inr (CompareResponse res, cs), x2)" using assms by (simp add: DecodedStream_Next_iff)
  moreover have "requireEnd cl (compare_stream cl s) msg x2 = (None, x3)" for msg using assms by (simp add: requireEnd_iff)
  moreover have "op_Label (compare_operation dn attr v options) = ''ldap.compare''"
    "op_Responses (compare_operation dn attr v options) = compareResponsePattern" by (simp_all add: compare_operation_def)
  ultimately show ?thesis
    using assms by (simp add: Client_compare_def compare_made ExecuteSingle_def ExecuteStream_def singleResponse_def compare_stream_def
        DecodedStream_Close_def acceptedCodes_def operationName_def Let_def split: prod.splits)
qed

text \<open>(C37) \<^verbatim>\<open>Compare\<close>, on any executor: it returns true or false exactly if the executor accepts the compare request with the caller's name,
  attribute, value and controls, the first response decodes to a compare response and its controls decode, the typed stream then ends, and
  the result code is the one for true or the one for false; the answer is true for the first code and false for the second, and the
  stream has been closed.  On every other outcome it returns an error; if the only thing wrong is the result code, the error carries the
  operation's name, the result and the controls.  A response encoded as the package encodes it decodes to what was
  encoded.\<close>

theorem compare_correct:
  "(Client_compare cl dn attr v options x = (Inr b, x') \<longleftrightarrow>
     (\<exists>s x1 m x2 res cs err x3.
        ex_Do (cl_executor cl) (Operation_Untyped (compare_operation dn attr v options)) x = (Inr s, x1)
        \<and> ex_Next (cl_executor cl) s x1 = (Inr m, x2)
        \<and> ResponsePattern_Decode compareResponsePattern m (cl_limits cl) = Inr (CompareResponse res)
        \<and> decodeControls (re_Controls m) (cl_limits cl) = Inr cs
        \<and> DecodedStream_Next cl (compare_stream cl s) x2 = (Inl err, x3) \<and> client_Is err IO_EOF
        \<and> (b \<and> lr_ResultCode res = ResultCompareTrue \<or> \<not> b \<and> lr_ResultCode res = ResultCompareFalse)
        \<and> x' = snd (ex_Close (cl_executor cl) s x3)))
   \<and> (ex_Do (cl_executor cl) (Operation_Untyped (compare_operation dn attr v options)) x = (Inr s, x1)
        \<and> ex_Next (cl_executor cl) s x1 = (Inr m, x2)
        \<and> ResponsePattern_Decode compareResponsePattern m (cl_limits cl) = Inr (CompareResponse res)
        \<and> decodeControls (re_Controls m) (cl_limits cl) = Inr cs
        \<and> DecodedStream_Next cl (compare_stream cl s) x2 = (Inl err, x3) \<and> client_Is err IO_EOF
        \<and> lr_ResultCode res \<notin> {ResultCompareFalse, ResultCompareTrue} \<longrightarrow>
        Client_compare cl dn attr v options x = (Inl (Result_Error ''compare'' res cs), snd (ex_Close (cl_executor cl) s x3)))
   \<and> (response_ok r \<and> packet_ok (CompareResponse_BERPacket (CompareResponse r))
        \<and> admits lim (Encode (CompareResponse_BERPacket (CompareResponse r)))
        \<and> re_Protocol msg = Encode (CompareResponse_BERPacket (CompareResponse r)) \<and> re_ProtocolID msg = compareResponseIdentifier \<longrightarrow>
        ResponsePattern_Decode compareResponsePattern msg lim = Inr (CompareResponse r))"
  by (intro conjI impI; (rule compare_exact | erule compare_rejected | (elim conjE, rule compare_decodes; assumption)))

definition sample_compared :: response where
  "sample_compared = sample_message (CompareResponse_BERPacket (CompareResponse (sample_result 6))) compareResponseIdentifier []"

lemma sample_result_ok: "response_ok (sample_result 6)" "lr_ResultCode (sample_result 6) = ResultCompareTrue"
  by (simp_all add: response_ok_def result_ok_def unknowns_ok_def sample_result_def zero_result_def int_range_def inttype_defs ResultReferral_def
      ResultCompareTrue_def)

lemma sample_compared_bytes: "Encode (CompareResponse_BERPacket (CompareResponse (sample_result 6))) = [0x6F, 7, 10, 1, 6, 4, 0, 4, 0]"
  by code_simp

lemma sample_compared_packet: "packet_ok (CompareResponse_BERPacket (CompareResponse (sample_result 6)))"
proof -
  have i: "integerBytes 6 = [6]" by code_simp
  show ?thesis
    by (simp add: CompareResponse_BERPacket_def response_packet sample_result_def zero_result_def result_prefix_def ber_Enumerated_def packet_ok_eval tag_defs i)
qed

lemma sample_compared_admitted: "admits DefaultLimits [0x6F, 7, 10, 1, 6, 4, 0, 4, 0]"
  unfolding admits_def by (intro conjI; (simp add: DefaultLimits_def; fail)?; code_simp)

theorem compare_correct_witness:
  "Client_compare (NewClient script_server) [] [0x63] [0x64] [] \<lparr>sv_current = [], sv_pages = [[sample_compared]], sv_log = []\<rparr>
   = (Inr True, \<lparr>sv_current = [], sv_pages = [], sv_log = [Operation_Untyped (compare_operation [] [0x63] [0x64] [])]\<rparr>)"
proof (rule compare_correct [THEN conjunct1, THEN iffD2], intro exI conjI)
  have m: "re_Protocol sample_compared = Encode (CompareResponse_BERPacket (CompareResponse (sample_result 6)))"
    "re_ProtocolID sample_compared = compareResponseIdentifier" "re_Controls sample_compared = []"
    by (simp_all add: sample_compared_def sample_message_def)
  have a: "admits DefaultLimits (Encode (CompareResponse_BERPacket (CompareResponse (sample_result 6))))"
    unfolding sample_compared_bytes by (rule sample_compared_admitted)
  let ?op = "Operation_Untyped (compare_operation [] [0x63] [0x64] [])"
  show "ex_Do (cl_executor (NewClient script_server)) ?op \<lparr>sv_current = [], sv_pages = [[sample_compared]], sv_log = []\<rparr>
    = (Inr (), \<lparr>sv_current = [sample_compared], sv_pages = [], sv_log = [?op]\<rparr>)"
    by (simp add: NewClient_def script_server_def)
  show "ex_Next (cl_executor (NewClient script_server)) () \<lparr>sv_current = [sample_compared], sv_pages = [], sv_log = [?op]\<rparr>
    = (Inr sample_compared, \<lparr>sv_current = [], sv_pages = [], sv_log = [?op]\<rparr>)"
    by (simp add: NewClient_def script_server_def)
  show "ResponsePattern_Decode compareResponsePattern sample_compared (cl_limits (NewClient script_server)) = Inr (CompareResponse (sample_result 6))"
    using sample_result_ok(1) sample_compared_packet a m(1,2)
    by (intro compare_correct [THEN conjunct2, THEN conjunct2, THEN mp] conjI) (simp_all add: NewClient_def)
  show "decodeControls (re_Controls sample_compared) (cl_limits (NewClient script_server)) = Inr []" by (simp add: m(3))
  show "DecodedStream_Next (NewClient script_server) (compare_stream (NewClient script_server) ()) \<lparr>sv_current = [], sv_pages = [], sv_log = [?op]\<rparr>
    = (Inl (Failed (Sentinel IO_EOF)), \<lparr>sv_current = [], sv_pages = [], sv_log = [?op]\<rparr>)"
    by (simp add: NewClient_def script_server_def DecodedStream_Next_def compare_stream_def)
  show "client_Is (Failed (Sentinel IO_EOF)) IO_EOF" by simp
  show "True \<and> lr_ResultCode (sample_result 6) = ResultCompareTrue \<or> \<not> True \<and> lr_ResultCode (sample_result 6) = ResultCompareFalse"
    using sample_result_ok(2) by simp
  show "\<lparr>sv_current = [], sv_pages = [], sv_log = [?op]\<rparr>
    = snd (ex_Close (cl_executor (NewClient script_server)) () \<lparr>sv_current = [], sv_pages = [], sv_log = [?op]\<rparr>)"
    by (simp add: NewClient_def script_server_def)
qed

text \<open>(C38) The client leaves no response stream open, whatever the executor does: every operation with a single response closes its stream,
  on success and on every error, and so does a lookup; a search that fails has none; rows of a search that were used in any way
  and are then closed have closed the streams of all their pages.  Using them never panics.\<close>

theorem client_closes_streams:
  assumes "cl = \<lparr>cl_executor = counted ex, cl_limits = lim\<rparr>"
  shows "(ExecuteSingle cl LDAPResult op codes y = (sres, y1) \<longrightarrow> snd y1 = snd y)
    \<and> (Client_Get uni cl ctx dn attrs y = Some (res, y2) \<longrightarrow> snd y2 = snd y)
    \<and> (Client_Search uni cl ctx request options y = (Inl err, y3) \<longrightarrow> snd y3 = snd y)
    \<and> (Client_Search uni cl ctx request options y = (Inr rows, y0) \<and> (rows_step uni cl)\<^sup>*\<^sup>* (rows, y0) (r, z) \<longrightarrow>
        snd (snd (snd (Entries_Close cl r z))) = snd y \<and> map_option fst (Entries_Next uni cl r z) \<noteq> Some NextPanics)"
  by (rule streams_closed [OF assms])

theorem client_closes_streams_witness:
  "case Client_Search id \<lparr>cl_executor = counted script_server, cl_limits = DefaultLimits\<rparr> True sample_query []
       (\<lparr>sv_current = [], sv_pages = map page_responses [sample_page 0x61 []], sv_log = []\<rparr>, 3) of
     (Inl err, y) \<Rightarrow> False
   | (Inr rows, y) \<Rightarrow> snd y = 4 \<and> snd (snd (snd (Entries_Close \<lparr>cl_executor = counted script_server, cl_limits = DefaultLimits\<rparr> rows y))) = 3"
proof -
  let ?cl = "\<lparr>cl_executor = counted script_server, cl_limits = DefaultLimits\<rparr>"
  let ?y = "\<lparr>sv_current = [], sv_pages = map page_responses [sample_page 0x61 []], sv_log = []\<rparr>"
  let ?s = "Client_Search id ?cl True sample_query [] (?y, 3)"
  have "case ?s of (Inl err, y) \<Rightarrow> False | (Inr rows, y) \<Rightarrow> snd y = 4" by code_simp
  then obtain rows y where s: "?s = (Inr rows, y)" "snd y = 4" by (auto split: prod.splits sum.splits)
  have "snd (snd (snd (Entries_Close ?cl rows y))) = snd (?y, 3 :: int)"
    using client_closes_streams [of ?cl script_server DefaultLimits add_Result undefined "[]" "(?y, 3)" undefined undefined
        id True "[]" "[]" undefined undefined sample_query "[]" undefined undefined rows y rows y] s(1) rtranclp.rtrancl_refl by blast
  with s show ?thesis by simp
qed

end
