(* ===== verification/Model_Props.thy ===== *)
theory Model_Props
  imports Model Client_Paging
begin

text \<open>
  What makes models correct: the name of a new entry is the value it was given, whatever bytes the value has; a new entry has the classes
  and the naming attribute of the model; queries return the decoded entries of their search, and close it.
\<close>

section \<open>Names\<close>

text \<open>A reader for the value of an RDN as in RFC 4514: it reads up to a separator that is not escaped, undoes escapes, and rejects
  what has to be escaped.\<close>

definition rdn_separator :: "byte \<Rightarrow> bool" where
  "rdn_separator b \<longleftrightarrow> b = 0x2C \<or> b = 0x2B \<or> b = 0x3B"

definition hex_value :: "byte \<Rightarrow> byte option" where
  "hex_value c = (if 0x30 \<le> c \<and> c \<le> 0x39 then Some (c - 0x30) else if 0x61 \<le> c \<and> c \<le> 0x66 then Some (c - 0x57)
     else if 0x41 \<le> c \<and> c \<le> 0x46 then Some (c - 0x37) else None)"

fun rdn_value :: "bytes \<Rightarrow> (bytes \<times> bytes) option" where
  "rdn_value [] = Some ([], [])"
| "rdn_value (b # rest) =
     (if rdn_separator b then Some ([], b # rest)
      else if b = 0x5C then
        (case rest of
           [] \<Rightarrow> None
         | c # rest1 \<Rightarrow>
             if rdn_special c \<or> c = 0x20 \<or> c = 0x23 then map_option (apfst (Cons c)) (rdn_value rest1)
             else (case rest1 of
                     [] \<Rightarrow> None
                   | d # rest2 \<Rightarrow>
                       (case (hex_value c, hex_value d) of
                          (Some h, Some l) \<Rightarrow> map_option (apfst (Cons (16 * h + l))) (rdn_value rest2)
                        | _ \<Rightarrow> None)))
      else if b = 0 \<or> b = 0x22 \<or> b = 0x3C \<or> b = 0x3E then None
      else if b = 0x20 \<and> (rest = [] \<or> rdn_separator (hd rest)) then None
      else map_option (apfst (Cons b)) (rdn_value rest))"

definition parse_rdn_value :: "bytes \<Rightarrow> (bytes \<times> bytes) option" where
  "parse_rdn_value s = (if s \<noteq> [] \<and> (hd s = 0x20 \<or> hd s = 0x23) then None else rdn_value s)"

lemma every_nibble: "list_all P (map of_nat [0..<16]) \<Longrightarrow> unat b < 16 \<Longrightarrow> P b" for b :: byte
proof -
  assume h: "list_all P (map of_nat [0..<16])" and b: "unat b < 16"
  then have "of_nat (unat b) \<in> set (map of_nat [0..<16] :: byte list)" unfolding set_map by (intro imageI) simp
  then have "P (of_nat (unat b))" using h unfolding list_all_iff by blast
  then show "P b" by simp
qed

definition hex_ok :: "byte \<Rightarrow> bool" where
  "hex_ok n \<longleftrightarrow> (let h = hex_digit n in \<not> rdn_special h \<and> h \<noteq> 0x20 \<and> h \<noteq> 0x23 \<and> hex_value h = Some n)"

lemma hex_ok: "unat n < 16 \<Longrightarrow> hex_ok n"
  by (rule every_nibble) code_simp

lemma nibbles: "16 * drop_bit 4 b + and b 0xF = b" "unat (drop_bit 4 b) < 16" "unat (and b 0xF) < 16" for b :: byte
proof -
  have m: "and b 0xF = take_bit 4 b" by (simp add: take_bit_eq_mask mask_eq_exp_minus_1)
  show "16 * drop_bit 4 b + and b 0xF = b" using bits_ident [of 4 b] m by (simp add: push_bit_eq_mult mult.commute)
  have "unat b < 2 ^ LENGTH(8)" by (rule unsigned_less)
  then show "unat (drop_bit 4 b) < 16" unfolding unsigned_drop_bit_eq by (simp add: drop_bit_eq_div take_bit_eq_mod)
  show "unat (and b 0xF) < 16" unfolding m unsigned_take_bit_eq by (simp add: take_bit_eq_mod)
qed

lemma rdn_value_hex: "rdn_value (0x5C # hex_digit (drop_bit 4 b) # hex_digit (and b 0xF) # s) = map_option (apfst (Cons b)) (rdn_value s)"
  using hex_ok [OF nibbles(2) [of b]] hex_ok [OF nibbles(3) [of b]] nibbles(1) [of b] by (simp add: hex_ok_def Let_def rdn_separator_def)

lemma escape_hd: "v \<noteq> [] \<Longrightarrow> escapeLoop first v \<noteq> [] \<and> \<not> rdn_separator (hd (escapeLoop first v))
    \<and> (first \<longrightarrow> hd (escapeLoop first v) \<noteq> 0x20 \<and> hd (escapeLoop first v) \<noteq> 0x23)"
  by (cases v) (auto simp: rdn_separator_def rdn_special_def)

lemma escape_value:
  assumes "rest = [] \<or> rdn_separator (hd rest)"
  shows "rdn_value (escapeLoop first v @ rest) = Some (v, rest)"
proof (induction v arbitrary: first)
  case Nil
  then show ?case using assms by (cases rest) simp_all
next
  case (Cons b v)
  note IH = Cons [of False]
  show ?case
  proof (cases "b < 0x20 \<or> b = 0x7F")
    case True
    then show ?thesis using IH by (simp add: rdn_value_hex del: rdn_value.simps)
  next
    case False
    show ?thesis
    proof (cases "rdn_special b \<or> (first \<and> (b = 0x20 \<or> b = 0x23)) \<or> (v = [] \<and> b = 0x20)")
      case True
      then have "rdn_special b \<or> b = 0x20 \<or> b = 0x23" by blast
      then show ?thesis using IH True False by (simp add: rdn_separator_def)
    next
      case plain: False
      have "\<not> (b = 0x20 \<and> (escapeLoop False v @ rest = [] \<or> rdn_separator (hd (escapeLoop False v @ rest))))"
        using plain escape_hd [of v False] by auto
      moreover have "b \<noteq> 0" "\<not> rdn_separator b" "b \<noteq> 0x5C" "b \<noteq> 0x22" "b \<noteq> 0x3C" "b \<noteq> 0x3E"
        using False plain by (auto simp: rdn_special_def rdn_separator_def)
      moreover have "escapeLoop first (b # v) = b # escapeLoop False v" using False plain by auto
      ultimately show ?thesis using IH by simp
    qed
  qed
qed

text \<open>Whatever the value, the name of a new entry is read back as the naming attribute with this value, below the base of the
  model: nothing in the value can end the value early or be taken for another part of the name.\<close>

lemma entry_name_exact:
  "\<exists>s. entryDN name v baseDN = name @ 0x3D # s \<and> parse_rdn_value s = Some (v, if baseDN = [] then [] else 0x2C # baseDN)"
proof -
  let ?rest = "if baseDN \<noteq> [] then 0x2C # baseDN else []"
  have "rdn_value (escapeLoop True v @ ?rest) = Some (v, ?rest)" by (rule escape_value) (simp add: rdn_separator_def)
  moreover have "\<not> (escapeLoop True v @ ?rest \<noteq> [] \<and> (hd (escapeLoop True v @ ?rest) = 0x20 \<or> hd (escapeLoop True v @ ?rest) = 0x23))"
    using escape_hd [of v True] by (cases "v = []") auto
  ultimately have "parse_rdn_value (escapeLoop True v @ ?rest) = Some (v, if baseDN = [] then [] else 0x2C # baseDN)"
    by (auto simp: parse_rdn_value_def)
  then show ?thesis by (auto simp: entryDN_def escapeRDNValue_def)
qed

section \<open>New entries\<close>

abbreviation ascii :: "bytes \<Rightarrow> bool" where
  "ascii s \<equiv> list_all (\<lambda>b. b < 0x80) s"

lemma lowerByte_semicolon [simp]: "lowerByte b = 0x3B \<longleftrightarrow> b = 0x3B"
proof -
  have "lowerByte b \<noteq> 0x3B" if "0x41 \<le> b" "b \<le> 0x5A"
  proof
    assume "lowerByte b = 0x3B"
    then have "b + 0x20 = 0x1B + 0x20" using that by (simp add: lowerByte_def)
    then have "b = 0x1B" by (rule add_right_imp_eq)
    then show False using that by simp
  qed
  then show ?thesis by (auto simp: lowerByte_def)
qed

lemma Cut_absent: "0x3B \<notin> set s \<Longrightarrow> fst (strings_Cut s) = s"
  by (induction s) (auto split: prod.splits)

lemma Split_single: "strings_Split s = [b] \<Longrightarrow> b = s \<and> 0x3B \<notin> set s"
  by (induction s arbitrary: b) (auto split: if_splits list.splits)

lemma Split_absent: "0x3B \<notin> set s \<Longrightarrow> strings_Split s = [s]"
  by (induction s) auto

lemma key_spec_plain: "0x3B \<notin> set (key_spec s) \<Longrightarrow> key_spec s = s \<and> 0x3B \<notin> set s"
proof (cases "strings_Split s")
  case (Cons b opts)
  assume h: "0x3B \<notin> set (key_spec s)"
  show ?thesis
  proof (cases opts)
    case Nil
    then show ?thesis using Cons Split_single [of s b] by (simp add: key_spec_def)
  next
    case (Cons c cs)
    then have "sorted_list_of_set (set opts) \<noteq> []" by (metis List.finite_set list.set_intros(1) set_sorted_list_of_set empty_iff empty_set)
    then show ?thesis using h \<open>strings_Split s = b # opts\<close> Cons unfolding key_spec_def by (simp add: Join_Cons del: set_simps) (simp add: list.set)
  qed
qed simp

lemma Key_base:
  assumes "ascii d" "ascii n" "0x3B \<notin> set n" "Key uni d = Key uni n"
  shows "map lowerByte (fst (strings_Cut d)) = map lowerByte n"
proof -
  have n: "0x3B \<notin> set (map lowerByte n)" using assms(3) by (metis (no_types, lifting) imageE list.set_map lowerByte_semicolon)
  have kn: "Key uni n = map lowerByte n"
    using assms(2) Split_absent [OF n] by (simp add: Key_spec strings_ToLower_def key_spec_def)
  have "Key uni d = key_spec (map lowerByte d)" using assms(1) by (simp add: Key_spec strings_ToLower_def)
  then have "map lowerByte d = map lowerByte n \<and> 0x3B \<notin> set (map lowerByte d)"
    using key_spec_plain [of "map lowerByte d"] n kn assms(4) by simp
  moreover have "0x3B \<notin> set d" using calculation by (metis image_eqI list.set_map lowerByte_semicolon)
  ultimately show ?thesis using Cut_absent [of d] by simp
qed

text \<open>What an entry has after the assignments: the last of those with a key.\<close>

definition assigned :: "(bytes \<Rightarrow> bytes) \<Rightarrow> attribute list \<Rightarrow> bytes \<Rightarrow> bytes list \<Rightarrow> bytes list" where
  "assigned uni attrs d vals = (case find (\<lambda>a. Key uni (at_Type a) = Key uni d) (rev attrs) of None \<Rightarrow> vals | Some a \<Rightarrow> at_Values a)"

lemma assigned_Cons:
  "assigned uni (a # attrs) d vals = assigned uni attrs d (if Key uni (at_Type a) = Key uni d then at_Values a else vals)"
proof -
  have "find P (xs @ [y]) = (case find P xs of None \<Rightarrow> if P y then Some y else None | Some z \<Rightarrow> Some z)" for P and xs :: "attribute list" and y
    by (induction xs) auto
  then show ?thesis by (auto simp: assigned_def split: option.splits)
qed

lemma Set_values:
  assumes "attrs_inv uni (en_Attributes e)"
  shows "Entry_Values uni d (e\<lparr>en_Attributes := Attributes_Set uni a (en_Attributes e)\<rparr>)
    = (if Key uni (at_Type a) = Key uni d then at_Values a else Entry_Values uni d e)"
  using attrs.lookup_update [OF assms, of "Key uni d" a] by (simp add: Entry_Values_def Lookup_attrs split: option.splits)

lemma applyAssignments_entry:
  assumes "applyAssignments uni efold naming i asns e = Inr e'" "attrs_inv uni (en_Attributes e)"
  obtains attrs where "asns = map Inr attrs" "en_DN e' = en_DN e" "attrs_inv uni (en_Attributes e')"
    "\<And>d. Entry_Values uni d e' = assigned uni attrs d (Entry_Values uni d e)"
    "\<forall>a \<in> set attrs. \<not> EqualFold efold (fst (strings_Cut (at_Type a))) objectClass \<and> \<not> EqualFold efold (fst (strings_Cut (at_Type a))) naming"
  using assms
proof (induction asns arbitrary: i e thesis)
  case Nil
  show ?case by (rule Nil.prems(1) [of "[]"]) (use Nil.prems in \<open>simp_all add: assigned_def\<close>)
next
  case (Cons asn asns)
  obtain a where a: "asn = Inr a" using Cons.prems(2) by (cases asn) simp_all
  define e1 where "e1 = e\<lparr>en_Attributes := Attributes_Set uni a (en_Attributes e)\<rparr>"
  have g: "\<not> EqualFold efold (fst (strings_Cut (at_Type a))) objectClass \<and> \<not> EqualFold efold (fst (strings_Cut (at_Type a))) naming"
    and r: "applyAssignments uni efold naming (i + 1) asns e1 = Inr e'"
    using Cons.prems(2) by (auto simp: a Let_def e1_def split: if_split_asm)
  have inv: "attrs_inv uni (en_Attributes e1)" using attrs.invar_update [OF Cons.prems(3)] by (simp add: e1_def)
  obtain attrs where attrs: "asns = map Inr attrs" "en_DN e' = en_DN e1" "attrs_inv uni (en_Attributes e')"
    "\<And>d. Entry_Values uni d e' = assigned uni attrs d (Entry_Values uni d e1)"
    "\<forall>a \<in> set attrs. \<not> EqualFold efold (fst (strings_Cut (at_Type a))) objectClass \<and> \<not> EqualFold efold (fst (strings_Cut (at_Type a))) naming"
    using Cons.IH [OF _ r inv] by blast
  show ?case
  proof (rule Cons.prems(1) [of "a # attrs"])
    show "asn # asns = map Inr (a # attrs)" using a attrs(1) by simp
    show "en_DN e' = en_DN e" using attrs(2) by (simp add: e1_def)
    show "Entry_Values uni d e' = assigned uni (a # attrs) d (Entry_Values uni d e)" for d
      using attrs(4) [of d] Set_values [OF Cons.prems(3), of d a] by (simp add: assigned_Cons e1_def)
  qed (use attrs g in auto)
qed

lemma objectClass_simple: "ascii objectClass" "0x3B \<notin> set objectClass"
  by (simp_all add: objectClass_def)

lemma rdn_name_simple: "rdnAttributeName s \<Longrightarrow> ascii s \<and> 0x3B \<notin> set s"
proof -
  assume "rdnAttributeName s"
  then have "list_all (\<lambda>b. is_letter b \<or> is_digit b \<or> b = 0x2D) s" by (auto simp: rdnAttributeName_def split: list.splits)
  moreover have "b < 0x80 \<and> b \<noteq> 0x3B" if "is_letter b \<or> is_digit b \<or> b = 0x2D" for b
    using that unfolding is_letter_def is_digit_def word_le_nat_alt word_less_nat_alt by auto
  ultimately show ?thesis by (auto simp: list_all_iff)
qed

lemma Cut_ascii: "ascii s \<Longrightarrow> ascii (fst (strings_Cut s))"
  by (induction s) (auto split: prod.splits)

lemma not_assigned:
  assumes "\<forall>a \<in> set attrs. ascii (at_Type a) \<and> \<not> EqualFold efold (fst (strings_Cut (at_Type a))) n" "ascii n" "0x3B \<notin> set n"
  shows "assigned uni attrs n vals = vals"
proof -
  have "Key uni (at_Type a) \<noteq> Key uni n" if "a \<in> set attrs" for a
    using assms that Key_base [of "at_Type a" n uni] Cut_ascii [of "at_Type a"] by (auto simp: EqualFold_def)
  then have "find (\<lambda>a. Key uni (at_Type a) = Key uni n) (rev attrs) = None" by (simp add: find_None_iff)
  then show ?thesis by (simp add: assigned_def)
qed

lemma encode_one:
  assumes "Attribute_encode a [v] = Inr attr"
  shows "\<exists>b. attr = \<lparr>at_Type = ma_name a, at_Values = [b], at_Extensions = []\<rparr>"
  using assms by (auto simp: Attribute_encode_def split: option.splits sum.splits)

text \<open>(C23) A new entry is what the model says: its name is the naming attribute with the encoded value below the base of the model, and a
  reader of RFC 4514 names gets back exactly this value and this base, whatever octets the value has, so that nothing in it ends the value
  early or is taken for another part of the name; its object classes are exactly those of the model, its naming attribute has exactly the encoded value, and every other attribute has the
  values of the last assignment to it.  This holds for assignments to attributes with ASCII names.\<close>

theorem model_entry_correct:
  assumes "newModelEntry uni efold m name asns = Inr e" "\<forall>a. Inr a \<in> set asns \<longrightarrow> ascii (at_Type a)"
  shows "\<exists>v attrs. Attribute_encode (md_rdn m) [name] = Inr \<lparr>at_Type = ma_name (md_rdn m), at_Values = [v], at_Extensions = []\<rparr>
    \<and> asns = map Inr attrs \<and> en_DN e = entryDN (ma_name (md_rdn m)) v (md_baseDN m)
    \<and> (\<exists>s. en_DN e = ma_name (md_rdn m) @ 0x3D # s \<and> parse_rdn_value s = Some (v, if md_baseDN m = [] then [] else 0x2C # md_baseDN m))
    \<and> Entry_Values uni objectClass e = md_classes m \<and> Entry_Values uni (ma_name (md_rdn m)) e = [v]
    \<and> (\<forall>d. Key uni d \<noteq> Key uni objectClass \<and> Key uni d \<noteq> Key uni (ma_name (md_rdn m)) \<longrightarrow> Entry_Values uni d e = assigned uni attrs d [])"
proof -
  let ?n = "ma_name (md_rdn m)"
  obtain v where enc: "Attribute_encode (md_rdn m) [name] = Inr \<lparr>at_Type = ?n, at_Values = [v], at_Extensions = []\<rparr>"
    using assms(1) encode_one by (force simp: newModelEntry_def Let_def split: if_split_asm sum.splits)
  define e0 where "e0 = Entry_Set uni objectClass (md_classes m) (NewEntry (entryDN ?n v (md_baseDN m)))"
  define e1 where "e1 = e0\<lparr>en_Attributes := Attributes_Set uni \<lparr>at_Type = ?n, at_Values = [v], at_Extensions = []\<rparr> (en_Attributes e0)\<rparr>"
  have rdn: "rdnAttributeName ?n" "\<not> EqualFold efold ?n objectClass" and asn: "applyAssignments uni efold ?n 0 asns e1 = Inr e"
    using assms(1) enc by (auto simp: newModelEntry_def Let_def e0_def e1_def split: if_split_asm)
  have n: "ascii ?n" "0x3B \<notin> set ?n" using rdn_name_simple [OF rdn(1)] by simp_all
  have key: "Key uni ?n \<noteq> Key uni objectClass"
    using Key_base [OF n(1) objectClass_simple, of uni] rdn(2) n(1) objectClass_simple(1) Cut_absent [OF n(2)] by (auto simp: EqualFold_def)
  have inv0: "attrs_inv uni (en_Attributes e0)" unfolding e0_def by (rule Entry_Set_inv [OF NewEntry_inv])
  have inv1: "attrs_inv uni (en_Attributes e1)" using attrs.invar_update [OF inv0] by (simp add: e1_def)
  have none: "Entry_Values uni d (NewEntry dn) = []" for d dn
    by (simp add: Entry_Values_def NewEntry_def Attributes_Lookup_def Attributes_LookupKey_def zero_attribute_def)
  have v0: "Entry_Values uni d e0 = (if Key uni d = Key uni objectClass then md_classes m else [])" for d
    using Entry_Values_Set [OF NewEntry_inv] none by (simp add: e0_def)
  have v1: "Entry_Values uni d e1 = (if Key uni ?n = Key uni d then [v] else Entry_Values uni d e0)" for d
    using Set_values [OF inv0] by (simp add: e1_def)
  obtain attrs where a: "asns = map Inr attrs" "en_DN e = en_DN e1" "\<And>d. Entry_Values uni d e = assigned uni attrs d (Entry_Values uni d e1)"
    "\<forall>a \<in> set attrs. \<not> EqualFold efold (fst (strings_Cut (at_Type a))) objectClass \<and> \<not> EqualFold efold (fst (strings_Cut (at_Type a))) ?n"
    using applyAssignments_entry [OF asn inv1] by blast
  have asc: "\<forall>a \<in> set attrs. ascii (at_Type a)" using assms(2) a(1) by auto
  have "en_DN e = entryDN ?n v (md_baseDN m)" using a(2) by (simp add: e1_def e0_def Entry_Set_def NewEntry_def)
  moreover have "Entry_Values uni objectClass e = md_classes m"
    using a(3) not_assigned [of attrs efold objectClass uni] a(4) asc objectClass_simple v1 v0 key by simp
  moreover have "Entry_Values uni ?n e = [v]" using a(3) not_assigned [of attrs efold ?n uni] a(4) asc n v1 by simp
  moreover have "Entry_Values uni d e = assigned uni attrs d []" if "Key uni d \<noteq> Key uni objectClass \<and> Key uni d \<noteq> Key uni ?n" for d
    using a(3) [of d] v1 [of d] v0 [of d] that by auto
  ultimately show ?thesis using enc a(1) entry_name_exact [of ?n v "md_baseDN m"] by metis
qed

definition sample_model :: "bytes model" where
  "sample_model = NewModel [0x64, 0x63, 0x3D, 0x78] 2 [[0x70]] (NewAttribute id [0x75] (Some StringCodec)) (NewAttributeSelectors []) (\<lambda>e. Inr (en_DN e))"

text \<open>The name \<^verbatim>\<open>a,b\<close>, and an assignment to \<^verbatim>\<open>mail\<close>.\<close>

definition sample_assignments :: "assignment list" where
  "sample_assignments = [Set_assignment (NewAttribute id [0x6D, 0x61, 0x69, 0x6C] (Some StringCodec)) [[0x31]]]"

theorem model_entry_correct_witness:
  "\<exists>e. newModelEntry id (=) sample_model [0x61, 0x2C, 0x62] sample_assignments = Inr e
    \<and> en_DN e = [0x75, 0x3D, 0x61, 0x5C, 0x2C, 0x62, 0x2C, 0x64, 0x63, 0x3D, 0x78] \<and> Entry_Values id objectClass e = [[0x70]]"
proof -
  have n: "case newModelEntry id (=) sample_model [0x61, 0x2C, 0x62] sample_assignments of Inl err \<Rightarrow> False | Inr e \<Rightarrow> True" by code_simp
  then obtain e where e: "newModelEntry id (=) sample_model [0x61, 0x2C, 0x62] sample_assignments = Inr e" by (auto split: sum.splits)
  have "\<forall>a. Inr a \<in> set sample_assignments \<longrightarrow> ascii (at_Type a)"
    by (auto simp: sample_assignments_def Set_assignment_def Attribute_encode_def NewAttribute_def Codec_Encode_def StringCodec_def)
  from model_entry_correct [OF e this] obtain v where v: "Attribute_encode (md_rdn sample_model) [[0x61, 0x2C, 0x62]]
        = Inr \<lparr>at_Type = ma_name (md_rdn sample_model), at_Values = [v], at_Extensions = []\<rparr>"
      "en_DN e = entryDN (ma_name (md_rdn sample_model)) v (md_baseDN sample_model)" "Entry_Values id objectClass e = md_classes sample_model"
    by blast
  have "v = [0x61, 0x2C, 0x62]" using v(1) by (simp add: Attribute_encode_def sample_model_def NewModel_def NewAttribute_def Codec_Encode_def StringCodec_def)
  moreover have "entryDN (ma_name (md_rdn sample_model)) [0x61, 0x2C, 0x62] (md_baseDN sample_model)
      = [0x75, 0x3D, 0x61, 0x5C, 0x2C, 0x62, 0x2C, 0x64, 0x63, 0x3D, 0x78]" by code_simp
  ultimately show ?thesis using e v by (simp add: sample_model_def NewModel_def)
qed

section \<open>Queries\<close>

text \<open>The rows of a search and the values a model makes of them.\<close>

lemma collected_values:
  assumes "yields uni cl r x es r' x'" "cl = da_client d" "st_entries s = r" "st_err s = None"
    and "\<forall>e \<in> set es. md_decode (da_model d) e = Inr (f e)"
  shows "\<exists>v. allLoop uni d vals s x = Some (vals @ map f es, s\<lparr>st_entries := r', st_value := v\<rparr>, x')"
  using assms
proof (induction arbitrary: s vals rule: yields.induct)
  case (yields_stop r x r' x')
  then have "allLoop uni d vals s x = Some (vals, s\<lparr>st_entries := r'\<rparr>, x')" by (subst allLoop.simps) (simp add: Stream_Next_def Let_def)
  then show ?case by (intro exI [of _ "st_value s"]) simp
next
  case (yields_row r x r1 x1 es r' x')
  define s1 where "s1 = s\<lparr>st_entries := r1, st_value := Some (f (et_entry r1))\<rparr>"
  have n: "Stream_Next uni d s x = Some (True, s1, x1)"
    using yields_row.hyps(1) yields_row.prems by (simp add: Stream_Next_def Let_def s1_def)
  have "\<exists>v. allLoop uni d (vals @ [f (et_entry r1)]) s1 x1 = Some ((vals @ [f (et_entry r1)]) @ map f es, s1\<lparr>st_entries := r', st_value := v\<rparr>, x')"
    using yields_row.IH [of s1 "vals @ [f (et_entry r1)]"] yields_row.prems by (simp add: s1_def)
  then show ?case using n by (subst allLoop.simps) (simp add: s1_def)
qed

lemma one_value:
  assumes "yields uni (da_client d) (st_entries s) x es r' x'" "st_err s = None" "et_err r' = None"
    and "\<forall>e \<in> set es. md_decode (da_model d) e = Inr (f e)"
  shows "\<exists>s' x1. oneOnly uni d s x = Some (case es of [] \<Rightarrow> (None, [Query ErrNotFound], s', x1) | [e] \<Rightarrow> (Some (f e), [], s', x1)
      | _ \<Rightarrow> (None, [ErrNotUnique], s', x1)) \<and> st_err s' = None"
  using assms(1)
proof cases
  case yields_stop
  then show ?thesis using assms(2,3) by (simp add: oneOnly_def Stream_Next_def notFound_def Stream_Err_def Let_def)
next
  case (yields_row r1 x1 fs)
  define s1 where "s1 = s\<lparr>st_entries := r1, st_value := Some (f (et_entry r1))\<rparr>"
  have n: "Stream_Next uni d s x = Some (True, s1, x1)" using yields_row assms(2,4) by (simp add: Stream_Next_def Let_def s1_def)
  from yields_row(3) show ?thesis
  proof cases
    case yields_stop
    then show ?thesis using n yields_row assms(2,3) by (simp add: oneOnly_def Stream_Next_def Stream_Err_def Let_def s1_def)
  next
    case (yields_row r2 x2 gs)
    then show ?thesis using n \<open>es = et_entry r1 # fs\<close> assms(2,4) by (simp add: oneOnly_def Stream_Next_def Let_def s1_def)
  qed
qed

text \<open>Queries return what their search finds.  If the rows of the search end without an error and all entries can be decoded, \<^verbatim>\<open>All\<close> returns
  the decoded entries in order; \<^verbatim>\<open>One\<close> returns the only one, \<^verbatim>\<open>ErrNotFound\<close> if there is none and \<^verbatim>\<open>ErrNotUnique\<close> if there are several.  The only other
  error can be the one of closing the search.\<close>

theorem model_queries_correct:
  fixes r :: "('x, 's, 't) result_set"
  assumes "criteriaFilters (rs_criteria r) = Inr filters"
    and "Client_Search uni (da_client (rs_dao r)) (da_ctx (rs_dao r)) (modelSearch (da_model (rs_dao r)) filters sizeLimit pageSize) [] x = (Inr rows, x0)"
    and "yields uni (da_client (rs_dao r)) rows x0 es r' x'" "et_err r' = None"
    and "\<forall>e \<in> set es. md_decode (da_model (rs_dao r)) e = Inr (f e)"
  shows "(sizeLimit = 0 \<and> pageSize = defaultPageSize \<longrightarrow>
      (\<exists>errs y. ResultSet_All uni r x = Some (map f es, errs, y) \<and> (fst (Entries_Close (da_client (rs_dao r)) r' x') = None \<longrightarrow> errs = [])))
    \<and> (sizeLimit = 2 \<and> pageSize = 0 \<longrightarrow>
      (\<exists>errs y. ResultSet_One uni r x = Some (case es of [] \<Rightarrow> (None, Query ErrNotFound # errs, y) | [e] \<Rightarrow> (Some (f e), errs, y)
         | _ \<Rightarrow> (None, ErrNotUnique # errs, y)) \<and> (\<forall>e \<in> set errs. \<exists>err. e = Query (Failed err))))"
proof -
  let ?d = "rs_dao r"
  define s :: "('s, 't) entry_stream" where "s = \<lparr>st_entries = rows, st_value = None, st_err = None\<rparr>"
  have o: "ResultSet_open uni r sizeLimit pageSize x = (Inr s, x0)" using assms(1,2) by (simp add: ResultSet_open_def s_def)
  have "\<exists>v. allLoop uni ?d [] s x0 = Some ([] @ map f es, s\<lparr>st_entries := r', st_value := v\<rparr>, x')"
    by (rule collected_values [OF assms(3)]) (use assms(5) in \<open>simp_all add: s_def\<close>)
  then obtain v where a: "allLoop uni ?d [] s x0 = Some (map f es, s\<lparr>st_entries := r', st_value := v\<rparr>, x')" by auto
  have ys: "yields uni (da_client ?d) (st_entries s) x0 es r' x'" "st_err s = None" using assms(3) by (simp_all add: s_def)
  obtain s' x1 where b: "oneOnly uni ?d s x0 = Some (case es of [] \<Rightarrow> (None, [Query ErrNotFound], s', x1) | [e] \<Rightarrow> (Some (f e), [], s', x1)
      | _ \<Rightarrow> (None, [ErrNotUnique], s', x1))"
    using one_value [OF ys assms(4,5)] by blast
  obtain c1 r1 y1 where c1: "Entries_Close (da_client ?d) r' x' = (c1, r1, y1)" by (metis prod_cases3)
  obtain c2 r2 y2 where c2: "Entries_Close (da_client ?d) (st_entries s') x1 = (c2, r2, y2)" by (metis prod_cases3)
  show ?thesis
  proof (intro conjI impI)
    assume "sizeLimit = 0 \<and> pageSize = defaultPageSize"
    then show "\<exists>errs y. ResultSet_All uni r x = Some (map f es, errs, y) \<and> (fst (Entries_Close (da_client ?d) r' x') = None \<longrightarrow> errs = [])"
      using o a c1 assms(4) by (simp add: ResultSet_All_def ResultSet_Stream_def closeJoin_def stream_errors_def Stream_Err_def s_def)
  next
    assume "sizeLimit = 2 \<and> pageSize = 0"
    then show "\<exists>errs y. ResultSet_One uni r x = Some (case es of [] \<Rightarrow> (None, Query ErrNotFound # errs, y) | [e] \<Rightarrow> (Some (f e), errs, y)
         | _ \<Rightarrow> (None, ErrNotUnique # errs, y)) \<and> (\<forall>e \<in> set errs. \<exists>err. e = Query (Failed err))"
      using o b c2
      by (intro exI [of _ "case c2 of None \<Rightarrow> [] | Some e \<Rightarrow> [Query (Failed e)]"] exI [of _ y2])
        (auto simp: ResultSet_One_def closeJoin_def split: list.splits option.splits)
  qed
qed

definition sample_results :: "(script, unit, bytes) result_set" where
  "sample_results = DAO_Where (NewDAO (NewClient script_server) sample_model) (NewCriterion (Present [0x63])) []"

theorem model_queries_correct_witness:
  "\<exists>errs y. ResultSet_All id sample_results \<lparr>sv_current = [], sv_pages = map page_responses [sample_page 0x61 [7], sample_page 0x62 []], sv_log = []\<rparr>
     = Some (map en_DN [entryFromSearchResult (sample_row 0x61), entryFromSearchResult (sample_row 0x62)], errs, y)"
proof -
  let ?x = "\<lparr>sv_current = [], sv_pages = map page_responses [sample_page 0x61 [7], sample_page 0x62 []], sv_log = []\<rparr>"
  let ?q = "modelSearch sample_model [Present [0x63]] 0 defaultPageSize"
  have d: "da_client (rs_dao sample_results) = NewClient script_server" "da_ctx (rs_dao sample_results)" "da_model (rs_dao sample_results) = sample_model"
    "criteriaFilters (rs_criteria sample_results) = Inr [Present [0x63]]"
    by (simp_all add: sample_results_def DAO_Where_def NewDAO_def NewCriterion_def)
  have "0 < cs_PageSize ?q" by (simp add: modelSearch_def defaultPageSize_def)
  then obtain rows x0 r' x' where s: "Client_Search id (NewClient script_server) True ?q [] ?x = (Inr rows, x0)"
      "yields id (NewClient script_server) rows x0 [entryFromSearchResult (sample_row 0x61), entryFromSearchResult (sample_row 0x62)] r' x'" "et_err r' = None"
    using paged_search [of id "[sample_page 0x61 [7], sample_page 0x62 []]" ?q "[]" "[]"] sample_pages_ok sample_page_rows by fastforce
  have dec: "md_decode (da_model (rs_dao sample_results)) e = Inr (en_DN e)" for e
    by (simp add: d sample_model_def NewModel_def)
  show ?thesis
    using model_queries_correct [of sample_results "[Present [0x63]]" id 0 defaultPageSize ?x rows x0
        "[entryFromSearchResult (sample_row 0x61), entryFromSearchResult (sample_row 0x62)]" r' x' en_DN] d s dec by simp blast
qed

text \<open>Queries close their search, whatever happens in between.\<close>

lemma counting_Stream_Next:
  assumes "counting (da_client d)" "rows_inv k (st_entries s) y" "Stream_Next uni d s y = Some (b, s', y')"
  shows "rows_inv k (st_entries s') y'"
proof (cases "st_err s")
  case None
  then obtain t r1 y1 where n: "Entries_Next uni (da_client d) (st_entries s) y = Some (t, r1, y1)"
    using assms(3) by (auto simp: Stream_Next_def split: option.splits)
  then have "st_entries s' = r1 \<and> y' = y1" using assms(3) None by (auto simp: Stream_Next_def Let_def split: if_split_asm sum.splits)
  then show ?thesis using Entries_Next_rows [OF assms(1,2) n] by simp
qed (use assms in \<open>auto simp: Stream_Next_def\<close>)

lemma counting_allLoop:
  fixes d :: "('x \<times> int, 's, 't) dao"
  assumes "allLoop uni d vals s y = Some z" "counting (da_client d)" "rows_inv k (st_entries s) y"
  shows "case z of (vals', s', y') \<Rightarrow> rows_inv k (st_entries s') y'"
proof -
  let ?P = "\<lambda>uni (d :: ('x \<times> int, 's, 't) dao) vals s (y :: 'x \<times> int) z. counting (da_client d) \<longrightarrow> rows_inv k (st_entries s) y \<longrightarrow>
    (case z of (vals' :: 't list, s' :: ('s, 't) entry_stream, y') \<Rightarrow> rows_inv k (st_entries s') y')"
  have "?P uni d vals s y z"
  proof (rule allLoop.raw_induct [where P = ?P and xa = "((((uni, d), vals), s), y)", unfolded prod.case, OF _ assms(1)], intro impI)
    fix loop uni d vals s y z
    assume IH: "\<And>uni d vals s y z. loop uni d vals s y = Some z \<Longrightarrow> ?P uni d vals s y z"
      and body: "Stream_Next uni d s y \<bind> (\<lambda>(more, s', x'). if more then loop uni d (vals @ [the (st_value s')]) s' x' else Some (vals, s', x')) = Some z"
      and inv: "counting (da_client d)" "rows_inv k (st_entries s) y"
    obtain b s1 y1 where n: "Stream_Next uni d s y = Some (b, s1, y1)" using body by (auto split: Option.bind_splits)
    note rows = counting_Stream_Next [OF inv n]
    show "case z of (vals', s', y') \<Rightarrow> rows_inv k (st_entries s') y'"
    proof (cases b)
      case True
      then have "loop uni d (vals @ [the (st_value s1)]) s1 y1 = Some z" using body n by simp
      from IH [OF this] show ?thesis using rows inv(1) by blast
    next
      case False
      then show ?thesis using body n rows by auto
    qed
  qed
  then show ?thesis using assms(2,3) by blast
qed

lemma counting_open:
  assumes "counting (da_client (rs_dao r))" "ResultSet_open uni r n m y = (res, y')"
  shows "case res of Inl err \<Rightarrow> snd y' = snd y | Inr s \<Rightarrow> rows_inv (snd y) (st_entries s) y'"
  using assms(2) by (auto simp: ResultSet_open_def Let_def split: sum.splits prod.splits dest!: Client_Search_rows [OF assms(1)])

lemma counting_closeJoin:
  assumes "counting (da_client d)" "rows_inv k (st_entries s) y" "closeJoin d (v, errs, s, y) = (v', errs', y')"
  shows "snd y' = k"
  using assms(3) Entries_Close_rows [OF assms(1,2)] by (auto simp: closeJoin_def split: prod.splits)

lemma counting_query:
  assumes c: "counting (da_client (rs_dao r))"
    and q: "(case ResultSet_open uni r n m y of
        (Inl err, y1) \<Rightarrow> Some (v0, [Query err], y1) | (Inr s, y1) \<Rightarrow> map_option (closeJoin (rs_dao r)) (body s y1)) = Some (v, errs, y')"
    and body: "\<And>s y1 k w es s' y2. rows_inv k (st_entries s) y1 \<Longrightarrow> body s y1 = Some (w, es, s', y2) \<Longrightarrow> rows_inv k (st_entries s') y2"
  shows "snd y' = snd y"
proof -
  obtain res y1 where o: "ResultSet_open uni r n m y = (res, y1)" by (metis surj_pair)
  show ?thesis
  proof (cases res)
    case (Inl err)
    then show ?thesis using q o counting_open [OF c o] by simp
  next
    case (Inr s)
    then obtain w es s' y2 where b: "body s y1 = Some (w, es, s', y2)" "closeJoin (rs_dao r) (w, es, s', y2) = (v, errs, y')" using q o by auto
    have "rows_inv (snd y) (st_entries s) y1" using counting_open [OF c o] Inr by simp
    from counting_closeJoin [OF c body [OF this b(1)] b(2)] show ?thesis .
  qed
qed

lemma queries_close:
  assumes c: "counting (da_client (rs_dao r))"
  shows "ResultSet_All uni r y = Some (vals, errs, y') \<Longrightarrow> snd y' = snd y"
    and "ResultSet_One uni r y = Some (v, errs, y') \<Longrightarrow> snd y' = snd y"
    and "ResultSet_First uni r y = Some (v, errs, y') \<Longrightarrow> snd y' = snd y"
proof -
  note next_rows = counting_Stream_Next [OF c]
  let ?all = "\<lambda>s x. map_option (\<lambda>(vals, s', x'). (vals, stream_errors s', s', x')) (allLoop uni (rs_dao r) [] s x)"
  have all: "(\<lambda>(vals, s', x''). closeJoin (rs_dao r) (vals, stream_errors s', s', x'')) = closeJoin (rs_dao r) \<circ> (\<lambda>(vals, s', x'). (vals, stream_errors s', s', x'))"
    by (auto simp: fun_eq_iff)
  show "snd y' = snd y" if "ResultSet_All uni r y = Some (vals, errs, y')"
  proof (rule counting_query [OF c, where body = ?all and n = 0 and m = defaultPageSize])
    show "(case ResultSet_open uni r 0 defaultPageSize y of (Inl err, y1) \<Rightarrow> Some ([], [Query err], y1)
        | (Inr s, y1) \<Rightarrow> map_option (closeJoin (rs_dao r)) (?all s y1)) = Some (vals, errs, y')"
      using that unfolding ResultSet_All_def ResultSet_Stream_def all option.map_comp .
  next
    fix s y1 k w es s' y2
    assume "rows_inv k (st_entries s) y1" and l: "?all s y1 = Some (w, es, s', y2)"
    moreover obtain w' where "allLoop uni (rs_dao r) [] s y1 = Some (w', s', y2)" using l by (cases "allLoop uni (rs_dao r) [] s y1") auto
    ultimately show "rows_inv k (st_entries s') y2" using counting_allLoop [OF _ c] by (metis (no_types, lifting) prod.case)
  qed
  show "snd y' = snd y" if "ResultSet_One uni r y = Some (v, errs, y')"
  proof (rule counting_query [OF c that [unfolded ResultSet_One_def]])
    fix s y1 k w es s' y2
    assume inv: "rows_inv k (st_entries s) y1" and h: "oneOnly uni (rs_dao r) s y1 = Some (w, es, s', y2)"
    obtain b s1 z1 where n1: "Stream_Next uni (rs_dao r) s y1 = Some (b, s1, z1)" using h by (auto simp: oneOnly_def split: Option.bind_splits)
    show "rows_inv k (st_entries s') y2"
    proof (cases b)
      case True
      obtain b2 s2 z2 where n2: "Stream_Next uni (rs_dao r) s1 z1 = Some (b2, s2, z2)" using h n1 True by (auto simp: oneOnly_def split: Option.bind_splits)
      have "s' = s2 \<and> y2 = z2" using h n1 n2 True by (auto simp: oneOnly_def split: if_split_asm option.splits)
      then show ?thesis using next_rows [OF next_rows [OF inv n1] n2] by simp
    next
      case False
      then show ?thesis using h n1 next_rows [OF inv n1] by (simp add: oneOnly_def)
    qed
  qed
  show "snd y' = snd y" if "ResultSet_First uni r y = Some (v, errs, y')"
  proof (rule counting_query [OF c that [unfolded ResultSet_First_def]])
    fix s y1 k w es s' y2
    assume inv: "rows_inv k (st_entries s) y1" and h: "firstOnly uni (rs_dao r) s y1 = Some (w, es, s', y2)"
    obtain b s1 z1 where n1: "Stream_Next uni (rs_dao r) s y1 = Some (b, s1, z1)" using h by (auto simp: firstOnly_def split: Option.bind_splits)
    then have "s' = s1 \<and> y2 = z1" using h by (auto simp: firstOnly_def split: if_split_asm)
    then show "rows_inv k (st_entries s') y2" using next_rows [OF inv n1] by simp
  qed
qed

end
