(* ===== verification/Who_Am_I.thy ===== *)
theory Who_Am_I
  imports Client_Paging Ldap_Extended
begin

text \<open>
  The Who Am I? operation (\<^verbatim>\<open>src/rfc4532/whoami.go\<close>).  It runs on any \<^verbatim>\<open>protocol.Executor\<close>, with the interface of \<^verbatim>\<open>Client\<close>: its
  functions \<open>ex_Do\<close>, \<open>ex_Next\<close> and \<open>ex_Close\<close> are arguments.
\<close>

section \<open>Who Am I?\<close>

text \<open>\<^verbatim>\<open>"1.3.6.1.4.1.4203.1.11.3"\<close> in ASCII.\<close>

definition WhoAmI_OID :: bytes where
  "WhoAmI_OID = [0x31, 0x2E, 0x33, 0x2E, 0x36, 0x2E, 0x31, 0x2E, 0x34, 0x2E, 0x31, 0x2E,
     0x34, 0x32, 0x30, 0x33, 0x2E, 0x31, 0x2E, 0x31, 0x31, 0x2E, 0x33]"

text \<open>The checks of the result, after the stream has ended.\<close>

definition whoAmIResult :: "extended_response \<Rightarrow> failure + bytes" where
  "whoAmIResult resp =
     (if lr_ResultCode (ex_Result resp) \<noteq> ResultSuccess
      then Inl (Text ''rfc4532: Who Am I? failed with LDAP result code %d'' [AInt (lr_ResultCode (ex_Result resp))])
      else if ex_HasResponseName resp
      then Inl (Text ''rfc4532: Who Am I? returned an unexpected response name'' [])
      else if \<not> ex_HasResponseValue resp
      then Inl (Text ''rfc4532: Who Am I? omitted the authorization identity'' [])
      else if \<not> utf8_Valid (ex_ResponseValue resp)
      then Inl (Text ''rfc4532: Who Am I? returned a non-UTF-8 authorization identity'' [])
      else Inr (ex_ResponseValue resp))"

text \<open>What happens between \<^verbatim>\<open>Do\<close> and the deferred \<^verbatim>\<open>Close\<close>.\<close>

definition whoAmIExchange ::
    "('x, 's) executor_api \<Rightarrow> extended_result operation \<Rightarrow> 's \<Rightarrow> 'x \<Rightarrow> (failure + bytes) \<times> 'x" where
  "whoAmIExchange ex operation s x =
     (case ex_Next ex s x of
        (Inl err, x1) \<Rightarrow> (Inl err, x1)
      | (Inr message, x1) \<Rightarrow>
          (case ResponsePattern_Decode (op_Responses operation) message DefaultLimits of
             Inl err \<Rightarrow> (Inl (Ber err), x1)
           | Inr (Some (Extended_Response resp)) \<Rightarrow>
               (case ex_Next ex s x1 of
                  (Inr _, x2) \<Rightarrow> (Inl (Text ''rfc4532: Who Am I? returned more than one response'' []), x2)
                | (Inl err, x2) \<Rightarrow> (if \<not> errors_Is err IO_EOF then Inl err else whoAmIResult resp, x2))
           | Inr _ \<Rightarrow> (Inl (Text ''rfc4532: unexpected response type %T'' []), x1)))"

definition WhoAmI :: "('x, 's) executor_api option \<Rightarrow> 'x \<Rightarrow> (failure + bytes) \<times> 'x" where
  "WhoAmI executor x =
     (case executor of
        None \<Rightarrow> (Inl (Text ''rfc4532: nil executor'' []), x)
      | Some ex \<Rightarrow>
          (case NewExtendedOperation
                  (Some \<lparr>er_Name = WhoAmI_OID, er_Value = [], er_HasValue = False, er_Extensions = []\<rparr>) [] of
             Inl err \<Rightarrow> (Inl (Ber err), x)
           | Inr operation \<Rightarrow>
               (case ex_Do ex (Operation_Untyped operation) x of
                  (Inl err, x1) \<Rightarrow> (Inl err, x1)
                | (Inr s, x1) \<Rightarrow>
                    let (res, x2) = whoAmIExchange ex operation s x1 in (res, snd (ex_Close ex s x2)))))"

section \<open>Properties\<close>

text \<open>The operation the caller's executor is given.\<close>

definition whoami_operation :: untyped_operation where
  "whoami_operation =
     \<lparr>uo_Protocol = Some \<lparr>po_packet = Packet (applicationConstructed 23) [] [ber_Primitive (contextPrimitive 0) WhoAmI_OID] False False,
                         po_identifier = applicationConstructed 23\<rparr>,
      uo_Controls = [], uo_Responses = rp_framing extendedResponsePattern, uo_Cancellation = CancelDrain, uo_Label = ''ldap.extended''\<rparr>"

definition whoami_op :: "extended_result operation" where
  "whoami_op =
     \<lparr>op_Protocol = uo_Protocol whoami_operation, op_Controls = [], op_Responses = extendedResponsePattern,
      op_Cancellation = CancelDrain, op_Label = ''ldap.extended''\<rparr>"

lemma whoami_made:
  "NewExtendedOperation (Some \<lparr>er_Name = WhoAmI_OID, er_Value = [], er_HasValue = False, er_Extensions = []\<rparr>) [] = Inr whoami_op"
  "Operation_Untyped whoami_op = whoami_operation" "op_Responses whoami_op = extendedResponsePattern"
  by (simp_all add: NewExtendedOperation_ok whoami_op_def whoami_operation_def extended_request_packet Operation_Untyped_def
      extendedRequestIdentifier_def)

lemma whoAmIResult_iff:
  "whoAmIResult v = Inr identity \<longleftrightarrow> lr_ResultCode (ex_Result v) = ResultSuccess \<and> \<not> ex_HasResponseName v
     \<and> ex_HasResponseValue v \<and> utf8_Valid (ex_ResponseValue v) \<and> identity = ex_ResponseValue v"
  by (auto simp: whoAmIResult_def)

lemma whoAmIExchange_iff:
  "whoAmIExchange ex whoami_op s x1 = (Inr identity, x3) \<longleftrightarrow>
     (\<exists>m x2 v err. ex_Next ex s x1 = (Inr m, x2)
        \<and> ResponsePattern_Decode extendedResponsePattern m DefaultLimits = Inr (Some (Extended_Response v))
        \<and> ex_Next ex s x2 = (Inl err, x3) \<and> errors_Is err IO_EOF \<and> whoAmIResult v = Inr identity)"
  by (auto simp: whoAmIExchange_def whoami_made split: prod.splits sum.splits option.splits extended_result_value.splits if_splits)

lemma WhoAmI_iff:
  "WhoAmI (Some ex) x = (Inr identity, x') \<longleftrightarrow>
     (\<exists>s x1 x3. ex_Do ex whoami_operation x = (Inr s, x1) \<and> whoAmIExchange ex whoami_op s x1 = (Inr identity, x3)
        \<and> x' = snd (ex_Close ex s x3))"
  by (auto simp: WhoAmI_def whoami_made split: prod.splits sum.splits)

lemma extended_decodes:
  assumes "extended_response_ok v" "packet_ok (ExtendedResponse_BERPacket v)" "admits DefaultLimits (Encode (ExtendedResponse_BERPacket v))"
    and "re_Protocol m = Encode (ExtendedResponse_BERPacket v)" "re_ProtocolID m = extendedResponseIdentifier"
  shows "ResponsePattern_Decode extendedResponsePattern m DefaultLimits = Inr (Some (Extended_Response v))"
  using ldap_extended_result.pattern_roundtrip
      [OF conjunct2 [OF mustResponsePattern_ok [OF extended_spec_ok]], of "Some (Extended_Response v)" DefaultLimits m] assms
  by (simp add: extendedResponsePattern_def ExtendedResult_packet_def extended_result_ok_def)

text \<open>(C31) \<^verbatim>\<open>WhoAmI\<close>, on any executor: it sends the extended request with the Who Am I? name and no value; it returns an authorization
  identity exactly if the first response decodes to an extended response, the stream ends after it, the result code is success,
  there is no response name, and the response value is there and is valid UTF-8, and then the identity is that value; on every other
  outcome it returns an error.  Once \<^verbatim>\<open>Do\<close> has returned a stream, the last thing that happens is that this stream is closed.  A response
  encoded as the package encodes it decodes to what was encoded.\<close>

theorem WhoAmI_correct:
  "Encode (po_packet (the (uo_Protocol whoami_operation))) = [0x77, 25, 0x80, 23] @ WhoAmI_OID
   \<and> (WhoAmI (Some ex) x = (Inr identity, x') \<longleftrightarrow>
        (\<exists>s x1 m x2 v err x3. ex_Do ex whoami_operation x = (Inr s, x1)
           \<and> ex_Next ex s x1 = (Inr m, x2)
           \<and> ResponsePattern_Decode extendedResponsePattern m DefaultLimits = Inr (Some (Extended_Response v))
           \<and> ex_Next ex s x2 = (Inl err, x3) \<and> errors_Is err IO_EOF
           \<and> lr_ResultCode (ex_Result v) = ResultSuccess \<and> \<not> ex_HasResponseName v
           \<and> ex_HasResponseValue v \<and> utf8_Valid (ex_ResponseValue v) \<and> identity = ex_ResponseValue v
           \<and> x' = snd (ex_Close ex s x3)))
   \<and> (ex_Do ex whoami_operation x = (Inr s, x1) \<longrightarrow> (\<exists>x3. snd (WhoAmI (Some ex) x) = snd (ex_Close ex s x3)))
   \<and> (extended_response_ok v \<and> packet_ok (ExtendedResponse_BERPacket v) \<and> admits DefaultLimits (Encode (ExtendedResponse_BERPacket v))
        \<and> re_Protocol m = Encode (ExtendedResponse_BERPacket v) \<and> re_ProtocolID m = extendedResponseIdentifier \<longrightarrow>
        ResponsePattern_Decode extendedResponsePattern m DefaultLimits = Inr (Some (Extended_Response v)))"
proof (intro conjI impI)
  show "Encode (po_packet (the (uo_Protocol whoami_operation))) = [0x77, 25, 0x80, 23] @ WhoAmI_OID" by code_simp
  show "WhoAmI (Some ex) x = (Inr identity, x') \<longleftrightarrow>
        (\<exists>s x1 m x2 v err x3. ex_Do ex whoami_operation x = (Inr s, x1)
           \<and> ex_Next ex s x1 = (Inr m, x2)
           \<and> ResponsePattern_Decode extendedResponsePattern m DefaultLimits = Inr (Some (Extended_Response v))
           \<and> ex_Next ex s x2 = (Inl err, x3) \<and> errors_Is err IO_EOF
           \<and> lr_ResultCode (ex_Result v) = ResultSuccess \<and> \<not> ex_HasResponseName v
           \<and> ex_HasResponseValue v \<and> utf8_Valid (ex_ResponseValue v) \<and> identity = ex_ResponseValue v
           \<and> x' = snd (ex_Close ex s x3))"
    unfolding WhoAmI_iff whoAmIExchange_iff whoAmIResult_iff by blast
  show "\<exists>x3. snd (WhoAmI (Some ex) x) = snd (ex_Close ex s x3)" if "ex_Do ex whoami_operation x = (Inr s, x1)"
    using that by (auto simp: WhoAmI_def whoami_made split: prod.splits)
qed (blast intro: extended_decodes)

definition sample_identity :: extended_response where
  "sample_identity = zero_extended_response\<lparr>ex_ResponseValue := [0x75], ex_HasResponseValue := True\<rparr>"

definition sample_identified :: response where
  "sample_identified = sample_message (ExtendedResponse_BERPacket sample_identity) extendedResponseIdentifier []"

lemma sample_identity_ok:
  "extended_response_ok sample_identity" "packet_ok (ExtendedResponse_BERPacket sample_identity)"
  "admits DefaultLimits (Encode (ExtendedResponse_BERPacket sample_identity))"
proof -
  have e: "Encode (ExtendedResponse_BERPacket sample_identity) = [0x78, 10, 10, 1, 0, 4, 0, 4, 0, 0x8B, 1, 0x75]" by code_simp
  show "admits DefaultLimits (Encode (ExtendedResponse_BERPacket sample_identity))"
    unfolding e admits_def by (intro conjI; (simp add: DefaultLimits_def; fail)?; code_simp)
  have i: "integerBytes 0 = [0]" by code_simp
  show "packet_ok (ExtendedResponse_BERPacket sample_identity)"
    by (simp add: extended_response_packet sample_identity_def zero_extended_response_def zero_result_def result_prefix_def
        ber_Enumerated_def packet_ok_eval tag_defs i)
  show "extended_response_ok sample_identity"
    by (simp add: extended_response_ok_def sample_identity_def zero_extended_response_def zero_result_def result_ok_def
        unknowns_ok_def int_range_def inttype_defs ResultReferral_def)
qed

theorem WhoAmI_correct_witness:
  "WhoAmI (Some script_server) \<lparr>sv_current = [], sv_pages = [[sample_identified]], sv_log = []\<rparr>
    = (Inr [0x75], \<lparr>sv_current = [], sv_pages = [], sv_log = [whoami_operation]\<rparr>)"
proof -
  have "ResponsePattern_Decode extendedResponsePattern sample_identified DefaultLimits = Inr (Some (Extended_Response sample_identity))"
    using WhoAmI_correct [of script_server _ _ _ _ _ sample_identity sample_identified] sample_identity_ok
    by (simp add: sample_identified_def sample_message_def)
  moreover have "lr_ResultCode (ex_Result sample_identity) = ResultSuccess" "\<not> ex_HasResponseName sample_identity"
    "ex_HasResponseValue sample_identity" "utf8_Valid (ex_ResponseValue sample_identity)" "ex_ResponseValue sample_identity = [0x75]"
    by (simp_all add: sample_identity_def zero_extended_response_def zero_result_def ResultSuccess_def)
  ultimately show ?thesis
    using WhoAmI_correct [of script_server "\<lparr>sv_current = [], sv_pages = [[sample_identified]], sv_log = []\<rparr>" "[0x75]"]
    by (auto simp: script_server_def)
qed

end
