(* ===== verification/Spec2Isabelle.thy ===== *)
theory Spec2Isabelle
  imports Ber_Tree Ber_Framer Ldap_Collection Ldap_Update Ldap_Search Ldap_Bind Response
    Conn_Request Connection Pool Gssapi Model_Props Who_Am_I
begin

text \<open>
  A verification of \<^verbatim>\<open>arden\<close>, an LDAP client library in Go (\<^verbatim>\<open>src/\<close>): from the octets of BER up to typed queries, with the connection
  and the connection pool as concurrent programs.

  \<^bold>\<open>Layers.\<close>  \<^verbatim>\<open>ber\<close> reads and writes BER; \<^verbatim>\<open>rfc4511\<close> defines the LDAP messages on top of it; \<^verbatim>\<open>protocol\<close> pairs a request with the
  pattern of its responses; \<^verbatim>\<open>connection.go\<close> multiplexes operations over one transport, \<^verbatim>\<open>bootstrap.go\<close> sets a connection up through
  an authentication method of \<^verbatim>\<open>auth\<close>, \<^verbatim>\<open>pool\<close> shares connections between callers, \<^verbatim>\<open>client.go\<close> offers the ordinary operations on any
  executor (a connection, a pool or a lease), and \<^verbatim>\<open>ldapmodel\<close> maps entries to values of the application.

  \<^bold>\<open>Theories\<close>, each with the sources it models:

  \<^item> \<open>Prelude\<close>, \<open>Transition\<close>: shared facts; transition systems with invariants (locales \<open>invariant_system\<close>, \<open>strengthened_system\<close>,
    interpreted by the connection, the pool, the initialization session, the rows of a search and the GSSAPI handles).
  \<^item> \<open>Ber_Types\<close>, \<open>Ber_Header\<close>, \<open>Ber_Integer\<close>, \<open>Ber_Packet\<close>, \<open>Ber_Reader\<close>, \<open>Ber_Tree\<close>, \<open>Ber_Framer\<close>, \<open>Ber_Decoder\<close>: package \<^verbatim>\<open>ber\<close>.  Exactly
    which octets are accepted, with every limit; the serializer's two passes agree; the framer delivers exactly the frames; the scoped
    decoder keeps its first error.
  \<^item> \<open>Ber_Codec\<close>: the contract of an encoder and a decoder (locale \<open>codec\<close>), interpreted for every LDAP value below.
  \<^item> \<open>Ldap_Types\<close>, \<open>Ldap_Attributes\<close>, \<open>Ldap_Collection\<close>, \<open>Ldap_Result\<close>, \<open>Ldap_Filter\<close>, \<open>Ldap_Search\<close>, \<open>Ldap_Update\<close>, \<open>Ldap_Bind\<close>,
    \<open>Ldap_Extended\<close>: package \<^verbatim>\<open>rfc4511\<close>.  Round trips of the messages; the attribute collection is a map (locale \<open>keyed_map\<close>).
  \<^item> \<open>Protocol\<close>, \<open>Response\<close>: \<^verbatim>\<open>protocol/operation.go\<close>, \<^verbatim>\<open>response.go\<close>.
  \<^item> \<open>Conn_Errors\<close>, \<open>Conn_Types\<close>, \<open>Conn_State\<close>: \<^verbatim>\<open>errors.go\<close>, the configuration, and the state of a connection with one function per
    critical section of \<^verbatim>\<open>connection.go\<close>.  \<open>Conn_Request\<close>: requests on the wire.  \<open>Conn_Ids\<close>, \<open>Conn_Inv\<close>, \<open>Conn_Evolve\<close>: the allocator, the
    invariant and what a section may change.  \<open>Conn_Machine\<close>: the goroutines (\<^verbatim>\<open>do\<close>, \<^verbatim>\<open>watchOperation\<close>, \<^verbatim>\<open>sendAbandon\<close>, \<^verbatim>\<open>readLoop\<close>,
    \<^verbatim>\<open>CloseContext\<close>, the streams, setup) as the step relation \<open>conn_step\<close>.  \<open>Conn_Safety\<close>, \<open>Conn_Live\<close>, \<open>Conn_Wake\<close>, \<open>Connection\<close>: what holds in
    every reachable state, for every interleaving.
  \<^item> \<open>Conn_Setup\<close>: \<^verbatim>\<open>bootstrap.go\<close> and the dialer.  \<open>Auth\<close>: anonymous and simple binds (\<^verbatim>\<open>auth/auth.go\<close>, \<^verbatim>\<open>auth/simple.go\<close>).  \<open>Gssapi\<close>: the
    exchange of RFC 4752 (\<^verbatim>\<open>auth/gssapi\<close>).  Both methods satisfy the locale \<open>tls_only_method\<close>, whose consequence is that dialing with
    them opens no transport but TLS.
  \<^item> \<open>Pool_Types\<close>, \<open>Pool_State\<close>, \<open>Pool_Select\<close>, \<open>Pool_Machine\<close>, \<open>Pool_Inv\<close>, \<open>Pool_Base\<close>, \<open>Pool_Use\<close>, \<open>Pool_Capacity\<close>, \<open>Pool_Wait\<close>, \<open>Pool\<close>: package
    \<^verbatim>\<open>pool\<close> with its leases, in the same manner; \<open>pool_step\<close> covers \<^verbatim>\<open>acquire\<close>, operations, leases, watchers, \<^verbatim>\<open>replace\<close>, \<^verbatim>\<open>maintain\<close> and
    \<^verbatim>\<open>CloseContext\<close>.
  \<^item> \<open>Entry\<close>, \<open>Client\<close>, \<open>Client_Rows\<close>, \<open>Client_Paging\<close>: \<^verbatim>\<open>entry.go\<close>, \<^verbatim>\<open>client.go\<close>.  \<open>Who_Am_I\<close>: \<^verbatim>\<open>rfc4532/whoami.go\<close>.
  \<^item> \<open>Model_Codecs\<close>, \<open>Model\<close>, \<open>Model_Props\<close>: package \<^verbatim>\<open>ldapmodel\<close>, with the locale \<open>lawful_codec\<close> for its value codecs.

  \<^bold>\<open>How the code is read.\<close>  Go errors are values (\<open>goerror\<close> in \<^verbatim>\<open>ber\<close> and \<^verbatim>\<open>rfc4511\<close>, \<open>failure\<close> above), wrapping kept and text not
  rendered; a nil pointer, error or interface is \<open>None\<close>.  Machine integers are words, or integers with their wrap-around written out
  where it matters: message IDs, the sum in the framer, durations.  Objects shared by pointer are addresses of a heap (pending operations,
  pooled connections, leases).  A critical section is a function on the state; a goroutine is an activity between two sections.  Bytes are
  values: sharing and clearing of buffers are modelled only for the credentials of a simple bind.

  \<^bold>\<open>Parameters.\<close>  What the transport's reads and writes return, the TLS handshake, contexts and the clock, \<^verbatim>\<open>strings.ToLower\<close> and
  \<^verbatim>\<open>strings.EqualFold\<close> outside ASCII, the executor of a client, the provider of GSSAPI, the authentication and the initializer of a setup
  are arguments or choices of the environment.  What a TLS handshake verifies is decided by the caller's configuration and lies inside that
  argument.  Assumed of callers: a response stream has one consumer at a time, as its \<^verbatim>\<open>Next\<close> documents.

  \<^bold>\<open>Loops.\<close>  Recursion over what is left to read or to write ends by a measure (octets, bytes, rounds).  \<open>decodeFilter\<close> has one unit of fuel
  more than octets left; \<open>decodeFilter_unfold\<close> shows that it satisfies the equation of the source, so that the fuel is never short.
  \<open>tryReserveLoop\<close> makes at most as many turns as there are message IDs, as the source does.  The loops over the rows of a
  search (\<open>entriesLoop\<close>, \<open>allLoop\<close>) need not end against a server that always sends more; not returning is the value \<open>None\<close>, and the theorem
  on paged searches includes that the loop returns when the pages end.

  \<^bold>\<open>What the properties show.\<close>  Of the wire: exact acceptance of identifiers, lengths, elements and frames, round trips of integers,
  packets, filters, searches and requests with their controls.  Of a connection: message IDs, queues, the write token and the reader in
  every reachable state; no lost wakeup; no operation forgotten; what \<^verbatim>\<open>writeAll\<close> and a retirement report.  Of a pool: exclusive use, exact
  counting and its bound, no lost wakeup, the least loaded connection.  Of setup and authentication: the two outcomes of a setup,
  credentials only over TLS, an identity exactly after a successful bind.  Of the client and the models: completeness of paged searches,
  exact outcomes of compare and Who Am I?, closed streams, names of new entries that cannot be forged by a value.  The invariants say
  what can happen in every interleaving; that a goroutine which can make a step is scheduled is not part of the model.

  \<^bold>\<open>Findings\<close> stated here as theorems: the framer panics when header and announced length exceed \<^verbatim>\<open>math.MaxInt\<close>
  (\<open>Framer_Next_panics_iff\<close>); a request that is never written can stall the reader (\<open>reader_can_stall\<close>); an operation of a connection
  retired for a reason other than a transport failure is not told that its outcome is ambiguous (\<open>retirement_reaches_everybody\<close>); a pool
  can have one connection more than its maximum (\<open>pool_capacity_exceeded\<close>); a failed dial loses a waiter's slot (\<open>waiter_slot_lost\<close>).

  \<^bold>\<open>Not modelled.\<close>  Delivery of traces and logging, error texts, timers other than those the pool waits for, \<^verbatim>\<open>GeneralizedTimeCodec\<close> (it
  rests on \<^verbatim>\<open>time\<close> and \<^verbatim>\<open>math/big\<close>), memory exhaustion, the OpenTelemetry adapter, the native GSSAPI provider, the code generator and
  generated code, the FreeIPA model, commands and test helpers.  A connection whose dial ends after its pool began to close is dropped,
  where the source marks it retiring and closes it.
\<close>

end
